(* ===== verification/Prelude.thy ===== *)
theory Prelude
  imports Complex_Main "HOL-Library.Word" "HOL-Library.Monad_Syntax"
begin

unbundle bit_operations_syntax

text \<open>
  Shared vocabulary of the development.  Machine words of the LP64 target are
  \<^typ>\<open>64 word\<close>; a C pointer is an \<open>addr option\<close> whose \<^term>\<open>None\<close> is
  \<open>NULL\<close>.  A C function that can abort the process (a failed \<open>assert\<close>, a call of
  \<open>exit\<close>, \<open>abort\<close> or \<open>die\<close>, or an access through a \<open>NULL\<close> or dangling pointer) is
  modelled as an \<open>option\<close>-valued function, \<^term>\<open>None\<close> being the abort, so that
  "the call returns" is always a provable statement.
\<close>

type_synonym size_t = "64 word"
type_synonym addr = "64 word"
type_synonym ptr = "addr option"

abbreviation NULL :: ptr where
  "NULL \<equiv> None"

text \<open>The C macro \<open>assert\<close>.\<close>

definition c_assert :: "bool \<Rightarrow> unit option" where
  "c_assert b = (if b then Some () else None)"

lemma c_assert_simps [simp]:
  "c_assert True = Some ()"
  "c_assert False = None"
  by (simp_all add: c_assert_def)

lemma c_assert_eq_Some [simp]: "c_assert b = Some u \<longleftrightarrow> b"
  by (simp add: c_assert_def)

text \<open>Rules that push an \<open>option\<close> computation through \<open>bind\<close>.\<close>

named_theorems run \<open>evaluation of option-valued programs\<close>

lemma bind_Some [run]: "Option.bind (Some x) f = f x"
  by simp

lemma bind_None [run]: "Option.bind None f = None"
  by simp

section \<open>Doubles\<close>

text \<open>
  A C \<open>double\<close> is an exact real number, and \<^term>\<open>None\<close> where the code computes \<open>0.0/0.0\<close>
  (NaN); arithmetic on NaN gives NaN and every comparison with NaN is false.  Rounding is not
  modelled.
\<close>

type_synonym double = "real option"

definition dlt :: "double \<Rightarrow> real \<Rightarrow> bool" where
  "dlt x y = (case x of None \<Rightarrow> False | Some v \<Rightarrow> v < y)"

definition dgt :: "double \<Rightarrow> real \<Rightarrow> bool" where
  "dgt x y = (case x of None \<Rightarrow> False | Some v \<Rightarrow> v > y)"

definition dop :: "(real \<Rightarrow> real \<Rightarrow> real) \<Rightarrow> double \<Rightarrow> double \<Rightarrow> double" where
  "dop f x y = (case (x, y) of (Some a, Some b) \<Rightarrow> Some (f a b) | _ \<Rightarrow> None)"

lemma dcmp_simps [simp]:
  "dlt (Some v) y \<longleftrightarrow> v < y" "\<not> dlt None y"
  "dgt (Some v) y \<longleftrightarrow> v > y" "\<not> dgt None y"
  by (simp_all add: dlt_def dgt_def)

lemma dop_simps [simp]:
  "dop f (Some a) (Some b) = Some (f a b)" "dop f None y = None" "dop f x None = None"
  by (simp_all add: dop_def split: option.split)

section \<open>Rounding up\<close>

definition round_up :: "nat \<Rightarrow> nat \<Rightarrow> nat" where
  "round_up p m = (m + (p - 1)) div p * p"

lemma round_up_dvd: "p dvd round_up p m"
  by (simp add: round_up_def)

lemma round_up_div_mod: "0 < p \<Longrightarrow> round_up p m + (m + (p - 1)) mod p = m + (p - 1)"
  by (simp add: round_up_def)

lemma round_up_ge: "0 < p \<Longrightarrow> m \<le> round_up p m"
  using round_up_div_mod [of p m] mod_less_divisor [of p "m + (p - 1)"] by linarith

lemma round_up_less: "0 < p \<Longrightarrow> round_up p m < m + p"
  using round_up_div_mod [of p m] by linarith

lemma round_up_least:
  assumes "0 < p" "p dvd k" "m \<le> k"
  shows "round_up p m \<le> k"
proof -
  from assms(2) obtain q where k: "k = p * q" by (rule dvdE)
  obtain j where j: "round_up p m = p * j"
    using round_up_dvd [of p m] by (rule dvdE)
  from j k assms round_up_less [of p m] have "p * j < p * (q + 1)"
    by (simp add: algebra_simps)
  then have "j < q + 1" by (rule mult_less_cancel1 [THEN iffD1, THEN conjunct2])
  then show ?thesis using j k by simp
qed

lemma round_up_eq: "0 < p \<Longrightarrow> p dvd m \<Longrightarrow> round_up p m = m"
  using round_up_least [of p m m] round_up_ge [of p m] by simp

lemma round_up_not_dvd:
  assumes "0 < p" "\<not> p dvd m"
  shows "round_up p m = (m div p + 1) * p"
proof (rule antisym)
  have "m = m div p * p + m mod p" by simp
  also have "\<dots> \<le> m div p * p + p"
    by (rule add_left_mono) (simp add: assms(1) less_imp_le)
  finally have "m \<le> (m div p + 1) * p" by (simp add: algebra_simps)
  with assms(1) show "round_up p m \<le> (m div p + 1) * p"
    by (intro round_up_least) simp_all
  obtain j where j: "round_up p m = p * j"
    using round_up_dvd [of p m] by (rule dvdE)
  have "m div p * p < m" using assms(2)
    by (metis div_times_less_eq_dividend dvd_triv_right le_neq_implies_less)
  also have "m \<le> p * j" using round_up_ge [OF assms(1), of m] j by simp
  finally have "p * (m div p) < p * j" by (simp add: mult.commute)
  then have "m div p < j" by (rule mult_less_cancel1 [THEN iffD1, THEN conjunct2])
  then have "(m div p + 1) * p \<le> j * p" by (intro mult_le_mono1) simp
  then show "(m div p + 1) * p \<le> round_up p m" using j by (simp add: mult.commute)
qed

section \<open>Words\<close>

text \<open>Masking the low \<open>n\<close> bits away is rounding down to a multiple of \<open>2 ^ n\<close>.\<close>

lemma and_not_mask_eq: "(w::'a::len word) AND NOT (mask n) = push_bit n (drop_bit n w)"
  by (rule bit_eqI) (auto simp: bit_simps)

lemma unat_and_not_mask:
  assumes "n < LENGTH('a)"
  shows "unat ((w::'a::len word) AND NOT (mask n)) = unat w div 2 ^ n * 2 ^ n"
proof -
  have "unat w div 2 ^ n * 2 ^ n \<le> unat w" by (rule div_times_less_eq_dividend)
  also have "\<dots> < 2 ^ LENGTH('a)" by simp
  finally have "unat w div 2 ^ n * 2 ^ n < 2 ^ LENGTH('a)" .
  moreover have "unat (push_bit n (drop_bit n w))
      = take_bit LENGTH('a) (unat w div 2 ^ n * 2 ^ n)"
    by (simp only: unsigned_push_bit_eq unat_drop_bit_eq) (simp add: push_bit_eq_mult
        drop_bit_eq_div)
  ultimately show ?thesis
    by (simp add: and_not_mask_eq take_bit_nat_eq_self)
qed

text \<open>Sums and products that do not wrap.\<close>

lemma unat_add_nowrap:
  "unat (a::'a::len word) + unat b < 2 ^ LENGTH('a) \<Longrightarrow> unat (a + b) = unat a + unat b"
  by (simp add: unat_word_ariths)

lemma unat_mult_nowrap:
  "unat (a::'a::len word) * unat b < 2 ^ LENGTH('a) \<Longrightarrow> unat (a * b) = unat a * unat b"
  by (simp add: unat_word_ariths)

lemma unat_diff_nowrap: "b \<le> (a::'a::len word) \<Longrightarrow> unat (a - b) = unat a - unat b"
  by (rule unat_sub)

end
