(* ===== verification/Bigary.thy ===== *)
theory Bigary
  imports Prelude
begin

text \<open>
  Component \<open>src/bigary.c\<close>: an array that reserves a large address range once and maps
  pages of it on demand.  The operating system is the record \<open>os\<close> of call results: the
  reservation \<open>mmap(0, len, PROT_NONE, ...)\<close> yields an address or fails, the
  \<open>MAP_FIXED\<close> calls that make a sub-range accessible succeed or fail.  \<open>die\<close> ends the
  process and is \<^term>\<open>None\<close>.  The mutex \<open>enlargement\<close> only serialises callers; the
  re-check under the lock sees the same value in a sequential run.
\<close>

record os =
  os_mutex_init :: int
  os_mmap :: "size_t \<Rightarrow> ptr"
  os_mmap_fixed :: "addr \<Rightarrow> size_t \<Rightarrow> bool"

record bigary =
  ba_area :: addr
  ba_declared :: size_t
  ba_top :: size_t
  ba_fd :: int
  ba_flags :: int

definition BIGARY_DEFAULT_MAX :: size_t where
  "BIGARY_DEFAULT_MAX = 16 * 1024 * 1024 * 1024"

definition BIGARY_PAGESIZE :: size_t where
  "BIGARY_PAGESIZE = 2097152"

definition bigary_init :: "os \<Rightarrow> int \<Rightarrow> int \<Rightarrow> size_t \<Rightarrow> bigary option" where
  "bigary_init os fd flags max0 =
     (let max1 = (if max0 = 0 then BIGARY_DEFAULT_MAX else max0);
          last_page_size = max1 mod BIGARY_PAGESIZE;
          max2 = (if last_page_size \<noteq> 0
                  then (max1 div BIGARY_PAGESIZE + 1) * BIGARY_PAGESIZE else max1)
      in if os_mutex_init os \<noteq> 0 then None
         else case os_mmap os max2 of
           None \<Rightarrow> None
         | Some area \<Rightarrow>
             if \<not> os_mmap_fixed os area BIGARY_PAGESIZE then None
             else Some \<lparr>ba_area = area, ba_declared = max2, ba_top = BIGARY_PAGESIZE,
                        ba_fd = fd, ba_flags = flags\<rparr>)"

definition bigary_destroy :: "int \<Rightarrow> int \<Rightarrow> bigary \<Rightarrow> unit option" where
  "bigary_destroy ret1 ret2 ba = do { c_assert (ret1 = 0); c_assert (ret2 = 0) }"

definition bigary_alloc :: "os \<Rightarrow> bigary \<Rightarrow> size_t \<Rightarrow> bigary option" where
  "bigary_alloc os ba top0 =
     (if ba_top ba \<ge> top0 then Some ba
      else let top1 = (top0 + BIGARY_PAGESIZE - 1) AND NOT (BIGARY_PAGESIZE - 1)
           in if top1 > ba_declared ba then None
              else if \<not> os_mmap_fixed os (ba_area ba + ba_top ba) (top1 - ba_top ba) then None
              else Some (ba\<lparr>ba_top := top1\<rparr>))"

text \<open>
  What \<open>mmap(2)\<close> promises of a successful reservation: the length is not zero and the
  range lies inside the address space, above the null page.
\<close>

definition mmap_spec :: "os \<Rightarrow> bool" where
  "mmap_spec os \<longleftrightarrow>
     (\<forall>len a. os_mmap os len = Some a \<longrightarrow> len \<noteq> 0 \<and> 0 < unat a \<and> unat a + unat len < 2 ^ 64)"

definition bigary_ok :: "bigary \<Rightarrow> bool" where
  "bigary_ok ba \<longleftrightarrow>
     unat BIGARY_PAGESIZE dvd unat (ba_declared ba) \<and>
     unat BIGARY_PAGESIZE dvd unat (ba_top ba) \<and>
     0 < unat (ba_top ba) \<and> ba_top ba \<le> ba_declared ba \<and>
     0 < unat (ba_area ba) \<and> unat (ba_area ba) + unat (ba_declared ba) < 2 ^ 64"

lemma unat_PAGESIZE [simp]: "unat BIGARY_PAGESIZE = 2097152"
  by (simp add: BIGARY_PAGESIZE_def)

lemma PAGESIZE_minus_1: "BIGARY_PAGESIZE - 1 = mask 21"
  by (simp add: BIGARY_PAGESIZE_def mask_eq_exp_minus_1)

lemma unat_page_round:
  "unat (w AND NOT (BIGARY_PAGESIZE - 1)) = unat w div 2097152 * 2097152"
  by (simp add: PAGESIZE_minus_1 unat_and_not_mask)

lemma align_up_page:
  assumes "unat (t::size_t) + 2097152 \<le> 2 ^ 64"
  shows "unat ((t + BIGARY_PAGESIZE - 1) AND NOT (BIGARY_PAGESIZE - 1))
    = round_up 2097152 (unat t)"
proof -
  have "unat (t + (BIGARY_PAGESIZE - 1)) = unat t + 2097151"
    using assms by (subst unat_add_nowrap) (simp_all add: BIGARY_PAGESIZE_def)
  then show ?thesis
    by (simp add: unat_page_round round_up_def add_diff_eq [symmetric])
qed

lemma bigary_init_rounds:
  assumes "unat (m::size_t) + 2097152 \<le> 2 ^ 64"
  shows "unat (if m mod BIGARY_PAGESIZE \<noteq> 0
               then (m div BIGARY_PAGESIZE + 1) * BIGARY_PAGESIZE else m)
    = round_up 2097152 (unat m)"
proof -
  let ?p = "2097152::nat"
  have md: "m mod BIGARY_PAGESIZE = 0 \<longleftrightarrow> ?p dvd unat m"
    by (simp add: unat_mod dvd_eq_mod_eq_0 flip: unat_eq_0)
  have dv: "unat (m div BIGARY_PAGESIZE) = unat m div ?p"
    by (simp add: unat_div)
  show ?thesis
  proof (cases "?p dvd unat m")
    case True
    with md show ?thesis by (simp add: round_up_eq)
  next
    case False
    have lt: "round_up ?p (unat m) < 2 ^ 64"
      using round_up_less [of ?p "unat m"] assms by simp
    have eq: "round_up ?p (unat m) = (unat m div ?p + 1) * ?p"
      using False by (simp add: round_up_not_dvd)
    with lt have "unat m div ?p + 1 < 2 ^ 64" by simp
    then have "unat (m div BIGARY_PAGESIZE + 1) = unat m div ?p + 1"
      by (subst unat_add_nowrap) (simp_all add: dv)
    with lt eq have "unat ((m div BIGARY_PAGESIZE + 1) * BIGARY_PAGESIZE)
        = round_up ?p (unat m)"
      by (subst unat_mult_nowrap) simp_all
    with False md show ?thesis by simp
  qed
qed


section \<open>What the operations promise\<close>

lemma bigary_alloc_cases:
  assumes "bigary_alloc os ba t = Some ba'"
  obtains (enough) "t \<le> ba_top ba" "ba' = ba"
  | (grown) "ba_top ba < t"
      "(t + BIGARY_PAGESIZE - 1) AND NOT (BIGARY_PAGESIZE - 1) \<le> ba_declared ba"
      "ba' = ba\<lparr>ba_top := (t + BIGARY_PAGESIZE - 1) AND NOT (BIGARY_PAGESIZE - 1)\<rparr>"
  using assms by (auto simp: bigary_alloc_def Let_def not_le not_less split: if_splits)

lemma bigary_alloc_spec:
  assumes ok: "bigary_ok ba" and small: "unat t + 2097152 \<le> 2 ^ 64"
    and ret: "bigary_alloc os ba t = Some ba'"
  shows "bigary_ok ba' \<and> t \<le> ba_top ba' \<and> ba_top ba \<le> ba_top ba' \<and>
         ba_area ba' = ba_area ba \<and> ba_declared ba' = ba_declared ba"
  using ret
proof (cases rule: bigary_alloc_cases)
  case enough
  with ok show ?thesis by simp
next
  case grown
  let ?r = "(t + BIGARY_PAGESIZE - 1) AND NOT (BIGARY_PAGESIZE - 1)"
  have r: "unat ?r = round_up 2097152 (unat t)" using small by (rule align_up_page)
  then have ge: "t \<le> ?r" by (simp add: word_le_nat_alt round_up_ge)
  moreover have "ba_top ba \<le> ?r" using grown(1) ge by simp
  ultimately show ?thesis
    using ok grown r by (auto simp: bigary_ok_def round_up_dvd word_le_nat_alt)
qed

lemma bigary_alloc_returns:
  assumes "unat t + 2097152 \<le> 2 ^ 64" "round_up 2097152 (unat t) \<le> unat (ba_declared ba)"
    and "\<forall>a n. os_mmap_fixed os a n"
  shows "\<exists>ba'. bigary_alloc os ba t = Some ba'"
  using assms by (auto simp: bigary_alloc_def Let_def align_up_page word_less_nat_alt)

lemma bigary_alloc_dies:
  assumes "ba_top ba < t" "unat t + 2097152 \<le> 2 ^ 64"
    and "unat (ba_declared ba) < round_up 2097152 (unat t)"
  shows "bigary_alloc os ba t = None"
  using assms by (auto simp: bigary_alloc_def Let_def align_up_page word_less_nat_alt
      word_le_nat_alt)

lemma bigary_init_spec:
  assumes os: "mmap_spec os" and small: "unat m + 2097152 \<le> 2 ^ 64"
    and ret: "bigary_init os fd fl m = Some ba"
  shows "bigary_ok ba \<and>
    unat (ba_declared ba) = (if m = 0 then 17179869184 else round_up 2097152 (unat m))"
proof -
  define m1 where "m1 = (if m = 0 then BIGARY_DEFAULT_MAX else m)"
  have m1: "unat m1 + 2097152 \<le> 2 ^ 64" "0 < unat m1"
    using small by (auto simp: m1_def BIGARY_DEFAULT_MAX_def unat_gt_0)
  define m2 where "m2 = (if m1 mod BIGARY_PAGESIZE \<noteq> 0
     then (m1 div BIGARY_PAGESIZE + 1) * BIGARY_PAGESIZE else m1)"
  from ret have ba: "os_mmap os m2 = Some (ba_area ba)" "ba_declared ba = m2"
    "ba_top ba = BIGARY_PAGESIZE"
    by (auto simp: bigary_init_def Let_def m2_def m1_def split: if_splits option.splits)
  have r: "unat m2 = round_up 2097152 (unat m1)"
    unfolding m2_def using m1(1) by (rule bigary_init_rounds)
  have "2097152 \<le> unat m2"
    using r m1(2) round_up_ge [of 2097152 "unat m1"] round_up_dvd [of 2097152 "unat m1"]
    by (intro dvd_imp_le) simp_all
  moreover have "0 < unat (ba_area ba)" "unat (ba_area ba) + unat m2 < 2 ^ 64"
    using os ba(1) by (auto simp: mmap_spec_def)
  ultimately have "bigary_ok ba"
    using ba r by (auto simp: bigary_ok_def round_up_dvd word_le_nat_alt)
  moreover have "m = 0 \<Longrightarrow> unat m2 = 17179869184"
    using r by (simp add: m1_def BIGARY_DEFAULT_MAX_def round_up_def)
  ultimately show ?thesis using ba(2) r by (simp add: m1_def)
qed

end
