(* ===== verification/Slab_Allocator.thy ===== *)
theory Slab_Allocator
  imports Bigary
begin

text \<open>
  Component \<open>src/slab_allocator.c\<close>: a fixed-size allocator.  Every element is a
  \<open>freelist_node_meta\<close> followed by the payload; fresh elements are carved from a
  \<open>bigary\<close>, released ones are pushed on a singly linked free list threaded through the
  metadata and reused last-in first-out.  The metadata written in the mapped memory is the
  finite map \<open>sa_metas\<close>, keyed by the address of the \<open>freelist_node_meta\<close>; reading an
  address that holds none is an abort.  \<open>sa_self\<close> is the address of the \<open>slab_alloc\<close>
  itself, which \<open>meta->allocator\<close> points back to.

  Each atomic compare-and-exchange loop runs its body once when no other thread
  interferes; the operations are modelled for that case.
\<close>

record freelist_node_meta =
  fm_allocator :: addr
  fm_next :: ptr

record slab_alloc =
  sa_self :: addr
  freelist :: ptr
  sa_metas :: "addr \<rightharpoonup> freelist_node_meta"
  mappedMemory :: bigary
  elementSize :: size_t
  used :: size_t

text \<open>\<open>sizeof(freelist_node_meta_t)\<close>: two pointers.\<close>

definition META_SIZE :: size_t where
  "META_SIZE = 16"

definition slab_alloc_addr_to_node_meta :: "ptr \<Rightarrow> addr option" where
  "slab_alloc_addr_to_node_meta p = map_option (\<lambda>a. a - META_SIZE) p"

definition slab_alloc_node_meta_to_addr :: "ptr \<Rightarrow> addr option" where
  "slab_alloc_node_meta_to_addr p = map_option (\<lambda>a. a + META_SIZE) p"

definition slab_alloc_glob_freelist_push :: "slab_alloc \<Rightarrow> ptr \<Rightarrow> slab_alloc option" where
  "slab_alloc_glob_freelist_push al p = do {
     m \<leftarrow> slab_alloc_addr_to_node_meta p;
     meta \<leftarrow> sa_metas al m;
     c_assert (fm_allocator meta = sa_self al);
     Some (al\<lparr>sa_metas := (sa_metas al)(m \<mapsto> meta\<lparr>fm_next := freelist al\<rparr>),
              freelist := Some m\<rparr>) }"

definition slab_alloc_glob_freelist_pop :: "slab_alloc \<Rightarrow> (ptr \<times> slab_alloc) option" where
  "slab_alloc_glob_freelist_pop al = (case freelist al of
     None \<Rightarrow> Some (NULL, al)
   | Some m \<Rightarrow> do {
       meta \<leftarrow> sa_metas al m;
       let al' = al\<lparr>freelist := fm_next meta\<rparr>;
       a \<leftarrow> slab_alloc_node_meta_to_addr (Some m);
       Some (Some a, al') })"

definition slab_alloc_fetch_increment_used :: "slab_alloc \<Rightarrow> size_t \<times> slab_alloc" where
  "slab_alloc_fetch_increment_used al = (used al, al\<lparr>used := used al + 1\<rparr>)"

definition slab_alloc_create_meta :: "os \<Rightarrow> slab_alloc \<Rightarrow> (addr \<times> slab_alloc) option" where
  "slab_alloc_create_meta os al0 = do {
     let (free_idx, al) = slab_alloc_fetch_increment_used al0;
     let meta_offset = elementSize al * free_idx;
     ba \<leftarrow> bigary_alloc os (mappedMemory al) ((free_idx + 1) * elementSize al);
     let ret = ba_area ba + meta_offset;
     Some (ret, al\<lparr>mappedMemory := ba,
       sa_metas := (sa_metas al)(ret \<mapsto> \<lparr>fm_allocator = sa_self al, fm_next = NULL\<rparr>)\<rparr>) }"

text \<open>
  \<open>slab_alloc_init\<close> returns the code of \<open>pthread_mutex_init\<close> (the argument \<open>ret\<close>);
  \<open>BIGARY_DRAM\<close> stands for the descriptor -1 and the flags
  \<open>MAP_ANONYMOUS|MAP_PRIVATE\<close>, 34 on Linux.
\<close>

definition slab_alloc_init ::
  "os \<Rightarrow> int \<Rightarrow> addr \<Rightarrow> size_t \<Rightarrow> size_t \<Rightarrow> (int \<times> slab_alloc) option" where
  "slab_alloc_init os ret self element_size max_elements = do {
     let es = META_SIZE + element_size;
     let max_elements_size = max_elements * es;
     ba \<leftarrow> bigary_init os (-1) 34 max_elements_size;
     Some (ret, \<lparr>sa_self = self, freelist = NULL, sa_metas = Map.empty, mappedMemory = ba,
                 elementSize = es, used = 0\<rparr>) }"

definition slab_alloc_destroy :: "int \<Rightarrow> int \<Rightarrow> int \<Rightarrow> slab_alloc \<Rightarrow> unit option" where
  "slab_alloc_destroy ret r1 r2 al = do {
     bigary_destroy r1 r2 (mappedMemory al);
     c_assert (ret = 0) }"

definition slab_alloc_malloc :: "os \<Rightarrow> slab_alloc \<Rightarrow> (ptr \<times> slab_alloc) option" where
  "slab_alloc_malloc os al0 = do {
     (ret, al) \<leftarrow> slab_alloc_glob_freelist_pop al0;
     (case ret of
        Some a \<Rightarrow> Some (ret, al)
      | None \<Rightarrow> do {
          (meta, al') \<leftarrow> slab_alloc_create_meta os al;
          a \<leftarrow> slab_alloc_node_meta_to_addr (Some meta);
          Some (Some a, al') }) }"

definition slab_alloc_free :: "slab_alloc \<Rightarrow> ptr \<Rightarrow> slab_alloc option" where
  "slab_alloc_free al p = do {
     c_assert (p \<noteq> NULL);
     slab_alloc_glob_freelist_push al p }"

section \<open>Invariant\<close>

text \<open>\<open>fl_chain ms p xs\<close>: following \<open>next\<close> from \<open>p\<close> visits exactly \<open>xs\<close> and ends at \<open>NULL\<close>.\<close>

primrec fl_chain :: "(addr \<rightharpoonup> freelist_node_meta) \<Rightarrow> ptr \<Rightarrow> addr list \<Rightarrow> bool" where
  "fl_chain ms p [] \<longleftrightarrow> p = NULL"
| "fl_chain ms p (m # xs) \<longleftrightarrow>
     p = Some m \<and> (case ms m of None \<Rightarrow> False | Some mt \<Rightarrow> fl_chain ms (fm_next mt) xs)"

definition slot :: "slab_alloc \<Rightarrow> nat \<Rightarrow> addr" where
  "slot al i = ba_area (mappedMemory al) + elementSize al * of_nat i"

definition slab_inv :: "slab_alloc \<Rightarrow> addr list \<Rightarrow> bool" where
  "slab_inv al xs \<longleftrightarrow>
     bigary_ok (mappedMemory al) \<and> 16 \<le> unat (elementSize al) \<and>
     unat (ba_declared (mappedMemory al)) + unat (elementSize al) + 2097152 \<le> 2 ^ 64 \<and>
     unat (used al) * unat (elementSize al) \<le> unat (ba_top (mappedMemory al)) \<and>
     dom (sa_metas al) = slot al ` {..<unat (used al)} \<and>
     (\<forall>m mt. sa_metas al m = Some mt \<longrightarrow> fm_allocator mt = sa_self al) \<and>
     fl_chain (sa_metas al) (freelist al) xs \<and> distinct xs"

text \<open>The payload addresses handed out and not yet freed.\<close>

definition slab_live :: "slab_alloc \<Rightarrow> addr list \<Rightarrow> addr set" where
  "slab_live al xs = (\<lambda>m. m + META_SIZE) ` (dom (sa_metas al) - set xs)"

definition slab_rep :: "slab_alloc \<Rightarrow> addr set \<Rightarrow> bool" where
  "slab_rep al L \<longleftrightarrow> (\<exists>xs. slab_inv al xs \<and> L = slab_live al xs)"

lemma fl_chain_dom: "fl_chain ms p xs \<Longrightarrow> set xs \<subseteq> dom ms"
  by (induction xs arbitrary: p) (auto split: option.splits)

lemma fl_chain_upd_notin:
  "m \<notin> set xs \<Longrightarrow> fl_chain (ms(m := v)) p xs = fl_chain ms p xs"
  by (induction xs arbitrary: p) (auto split: option.splits)

lemma fl_chain_head: "fl_chain ms (Some m) xs \<Longrightarrow> \<exists>ys. xs = m # ys"
  by (cases xs) auto

section \<open>Addresses\<close>

lemma slab_inv_slots_mapped:
  assumes "slab_inv al xs" "i < unat (used al)"
  shows "(i + 1) * unat (elementSize al) \<le> unat (ba_top (mappedMemory al))"
proof -
  have "(i + 1) * unat (elementSize al) \<le> unat (used al) * unat (elementSize al)"
    using assms(2) by (intro mult_le_mono1) simp
  with assms(1) show ?thesis by (simp add: slab_inv_def)
qed

lemma slab_inv_used_bound:
  assumes "slab_inv al xs"
  shows "(unat (used al) + 1) * unat (elementSize al) + 2097152 \<le> 2 ^ 64"
    and "unat (used al) + 1 < 2 ^ 64"
    and "unat (ba_area (mappedMemory al)) + unat (used al) * unat (elementSize al) < 2 ^ 64"
proof -
  let ?es = "unat (elementSize al)" and ?u = "unat (used al)"
  have a: "?u * ?es \<le> unat (ba_declared (mappedMemory al))" "16 \<le> ?es"
      "unat (ba_declared (mappedMemory al)) + ?es + 2097152 \<le> 2 ^ 64"
      "unat (ba_area (mappedMemory al)) + unat (ba_declared (mappedMemory al)) < 2 ^ 64"
    using assms by (auto simp: slab_inv_def bigary_ok_def word_le_nat_alt)
  then show t1: "(?u + 1) * ?es + 2097152 \<le> 2 ^ 64"
    by (simp add: algebra_simps)
  have "(?u + 1) * 1 \<le> (?u + 1) * ?es" using a(2) by (intro mult_le_mono2) simp
  with t1 show "?u + 1 < 2 ^ 64" by simp
  from a show "unat (ba_area (mappedMemory al)) + ?u * ?es < 2 ^ 64" by simp
qed

lemma unat_slot:
  assumes inv: "slab_inv al xs" and i: "i \<le> unat (used al)"
  shows "unat (slot al i) = unat (ba_area (mappedMemory al)) + unat (elementSize al) * i"
proof -
  note b = slab_inv_used_bound [OF inv]
  have oi: "unat (of_nat i :: 64 word) = i"
    using i b(2) by (simp add: unat_of_nat)
  have le: "unat (elementSize al) * i \<le> unat (used al) * unat (elementSize al)"
    using i by (simp add: mult.commute)
  have lt: "unat (ba_area (mappedMemory al)) + unat (elementSize al) * i < 2 ^ 64"
    using b(3) le by linarith
  then have "unat (elementSize al * of_nat i) = unat (elementSize al) * i"
    by (subst unat_mult_nowrap) (simp_all add: oi)
  then show ?thesis
    using lt by (simp add: slot_def unat_add_nowrap)
qed

lemma slot_inj:
  assumes "slab_inv al xs" "i \<le> unat (used al)" "j \<le> unat (used al)" "slot al i = slot al j"
  shows "i = j"
proof -
  have "unat (elementSize al) * i = unat (elementSize al) * j"
    using assms(4) unat_slot [OF assms(1,2)] unat_slot [OF assms(1,3)] by (metis add_left_cancel)
  moreover have "unat (elementSize al) \<noteq> 0" using assms(1) by (auto simp: slab_inv_def)
  ultimately show ?thesis by simp
qed

lemma slot_fresh: "slab_inv al xs \<Longrightarrow> sa_metas al (slot al (unat (used al))) = None"
proof (rule ccontr)
  assume inv: "slab_inv al xs" and "sa_metas al (slot al (unat (used al))) \<noteq> None"
  then have "slot al (unat (used al)) \<in> slot al ` {..<unat (used al)}"
    by (auto simp: slab_inv_def)
  then obtain i where "i < unat (used al)" "slot al (unat (used al)) = slot al i" by auto
  with slot_inj [OF inv, of "unat (used al)" i] show False by simp
qed


lemma live_inj: "(m::addr) + META_SIZE = m' + META_SIZE \<longleftrightarrow> m = m'"
  by simp

section \<open>Allocation\<close>

lemma slab_malloc_reuse:
  assumes inv: "slab_inv al xs" and fl: "freelist al = Some m"
  obtains ys al' where "xs = m # ys" "slab_alloc_malloc os al = Some (Some (m + META_SIZE), al')"
    "slab_inv al' ys" "slab_live al' ys = insert (m + META_SIZE) (slab_live al xs)"
    "m + META_SIZE \<notin> slab_live al xs" "sa_metas al' = sa_metas al" "used al' = used al"
proof -
  from inv fl have ch: "fl_chain (sa_metas al) (Some m) xs" by (simp add: slab_inv_def)
  then obtain ys mt where xs: "xs = m # ys" and mt: "sa_metas al m = Some mt"
    and ch': "fl_chain (sa_metas al) (fm_next mt) ys"
    using fl_chain_head [OF ch] by (auto split: option.splits)
  from inv have d: "distinct xs" by (simp add: slab_inv_def)
  let ?al = "al\<lparr>freelist := fm_next mt\<rparr>"
  have "slab_alloc_malloc os al = Some (Some (m + META_SIZE), ?al)"
    by (simp add: slab_alloc_malloc_def slab_alloc_glob_freelist_pop_def fl mt
        slab_alloc_node_meta_to_addr_def)
  moreover have "slab_inv ?al ys"
    using inv ch' xs by (auto simp: slab_inv_def slot_def [abs_def])
  moreover have "slab_live ?al ys = insert (m + META_SIZE) (slab_live al xs)"
    using d xs mt by (auto simp: slab_live_def image_iff)
  moreover have "m + META_SIZE \<notin> slab_live al xs"
    by (auto simp: slab_live_def xs)
  ultimately show ?thesis using that xs by auto
qed

lemma slab_create_meta_run:
  assumes inv: "slab_inv al xs"
    and ba: "bigary_alloc os (mappedMemory al) ((used al + 1) * elementSize al) = Some ba"
    and al': "al' = al\<lparr>used := used al + 1, mappedMemory := ba,
       sa_metas := (sa_metas al)(slot al (unat (used al)) \<mapsto>
          \<lparr>fm_allocator = sa_self al, fm_next = NULL\<rparr>)\<rparr>"
  shows "slab_alloc_create_meta os al = Some (slot al (unat (used al)), al')"
    and "slab_inv al' xs"
proof -
  note b = slab_inv_used_bound [OF inv]
  have u1: "unat (used al + 1) = unat (used al) + 1"
    using b(2) by (simp add: unat_add_nowrap)
  have sz: "unat ((used al + 1) * elementSize al) = (unat (used al) + 1) * unat (elementSize al)"
    using b(1) by (subst unat_mult_nowrap) (simp_all add: u1)
  from inv have "bigary_ok (mappedMemory al)" by (simp add: slab_inv_def)
  from bigary_alloc_spec [OF this _ ba] b(1) sz
  have ok: "bigary_ok ba" "(used al + 1) * elementSize al \<le> ba_top ba"
      "ba_area ba = ba_area (mappedMemory al)" "ba_declared ba = ba_declared (mappedMemory al)"
    by simp_all
  then have area: "ba_area ba + elementSize al * used al = slot al (unat (used al))"
    by (simp add: slot_def)
  show "slab_alloc_create_meta os al = Some (slot al (unat (used al)), al')"
    by (simp add: slab_alloc_create_meta_def slab_alloc_fetch_increment_used_def ba area al' Let_def)
  have slots: "slot al' = slot al"
    using ok(3) by (simp add: slot_def fun_eq_iff al')
  have fresh: "slot al (unat (used al)) \<notin> set xs"
    using slot_fresh [OF inv] inv fl_chain_dom by (fastforce simp: slab_inv_def)
  have "dom (sa_metas al') = slot al' ` {..<unat (used al')}"
    unfolding slots using inv by (simp add: slab_inv_def u1 al' lessThan_Suc)
  with inv ok sz fresh show "slab_inv al' xs"
    by (auto simp: slab_inv_def al' u1 fl_chain_upd_notin word_le_nat_alt)
qed

lemma slab_malloc_fresh_slot:
  assumes inv: "slab_inv al xs" and fl: "freelist al = NULL"
    and ba: "bigary_alloc os (mappedMemory al) ((used al + 1) * elementSize al) = Some ba"
  obtains al' where "xs = []"
    "slab_alloc_malloc os al = Some (Some (slot al (unat (used al)) + META_SIZE), al')"
    "slab_inv al' []"
    "slab_live al' [] = insert (slot al (unat (used al)) + META_SIZE) (slab_live al [])"
    "slot al (unat (used al)) + META_SIZE \<notin> slab_live al []"
proof -
  define al' where "al' = al\<lparr>used := used al + 1, mappedMemory := ba,
       sa_metas := (sa_metas al)(slot al (unat (used al)) \<mapsto>
          \<lparr>fm_allocator = sa_self al, fm_next = NULL\<rparr>)\<rparr>"
  note run = slab_create_meta_run [OF inv ba al'_def]
  from inv fl have xs: "xs = []" by (cases xs) (auto simp: slab_inv_def)
  have "slab_alloc_malloc os al = Some (Some (slot al (unat (used al)) + META_SIZE), al')"
    by (simp add: slab_alloc_malloc_def slab_alloc_glob_freelist_pop_def fl run(1)
        slab_alloc_node_meta_to_addr_def)
  moreover have "slab_live al' [] = insert (slot al (unat (used al)) + META_SIZE) (slab_live al [])"
    by (simp add: slab_live_def al'_def)
  moreover have "slot al (unat (used al)) + META_SIZE \<notin> slab_live al []"
    using slot_fresh [OF inv] by (auto simp: slab_live_def)
  ultimately show ?thesis using that xs run(2) by simp
qed

lemma slab_malloc_cases:
  assumes inv: "slab_inv al xs" and ret: "slab_alloc_malloc os al = Some (p, al')"
  obtains a ys where "p = Some a" "a \<notin> slab_live al xs" "slab_inv al' ys"
    "slab_live al' ys = insert a (slab_live al xs)"
proof (cases "freelist al")
  case (Some m)
  from slab_malloc_reuse [OF inv this, of os] show ?thesis
    using ret that by (metis Pair_inject option.inject)
next
  case None
  have "slab_alloc_create_meta os al \<noteq> None"
    using ret None by (cases "slab_alloc_create_meta os al")
      (simp_all add: slab_alloc_malloc_def slab_alloc_glob_freelist_pop_def)
  then obtain ba
    where ba: "bigary_alloc os (mappedMemory al) ((used al + 1) * elementSize al) = Some ba"
    by (auto simp: slab_alloc_create_meta_def slab_alloc_fetch_increment_used_def Let_def
        bind_eq_None_conv)
  from slab_malloc_fresh_slot [OF inv None ba] show ?thesis
    using ret that by (metis Pair_inject option.inject)
qed

section \<open>Release\<close>

lemma slab_free_run:
  assumes inv: "slab_inv al xs" and a: "a \<in> slab_live al xs"
  obtains al' where "slab_alloc_free al (Some a) = Some al'"
    "slab_inv al' ((a - META_SIZE) # xs)"
    "slab_live al' ((a - META_SIZE) # xs) = slab_live al xs - {a}"
    "freelist al' = Some (a - META_SIZE)" "used al' = used al" "mappedMemory al' = mappedMemory al"
proof -
  from a obtain m mt where m: "a = m + META_SIZE" "sa_metas al m = Some mt" "m \<notin> set xs"
    by (auto simp: slab_live_def)
  with inv have self: "fm_allocator mt = sa_self al" by (auto simp: slab_inv_def)
  define al' where "al' = al\<lparr>sa_metas := (sa_metas al)(m \<mapsto> mt\<lparr>fm_next := freelist al\<rparr>),
     freelist := Some m\<rparr>"
  have "slab_alloc_free al (Some a) = Some al'"
    using m self by (simp add: slab_alloc_free_def slab_alloc_glob_freelist_push_def
        slab_alloc_addr_to_node_meta_def al'_def)
  moreover have "dom (sa_metas al') = dom (sa_metas al)"
    using m by (auto simp: al'_def)
  moreover from this have "slab_inv al' (m # xs)"
    using inv m self by (auto simp: slab_inv_def al'_def fl_chain_upd_notin slot_def [abs_def])
  moreover have "slab_live al' (m # xs) = slab_live al xs - {a}"
    using m by (auto simp: slab_live_def al'_def)
  ultimately show ?thesis using that m by (simp add: al'_def)
qed


section \<open>The allocator interface\<close>

text \<open>
  The contract the tree, the trie and the ranking rely on.  \<open>rep s L\<close> says that the
  allocator state \<open>s\<close> has handed out exactly the addresses \<open>L\<close>.
\<close>

locale allocator =
  fixes rep :: "'s \<Rightarrow> addr set \<Rightarrow> bool"
    and malloc :: "'s \<Rightarrow> (ptr \<times> 's) option"
    and release :: "'s \<Rightarrow> ptr \<Rightarrow> 's option"
  assumes malloc_fresh: "rep s L \<Longrightarrow> malloc s = Some (p, s') \<Longrightarrow>
      \<exists>a. p = Some a \<and> a \<notin> L \<and> rep s' (insert a L)"
    and release_live: "rep s L \<Longrightarrow> a \<in> L \<Longrightarrow>
      \<exists>s'. release s (Some a) = Some s' \<and> rep s' (L - {a})"
begin

lemma malloc_not_null: "rep s L \<Longrightarrow> malloc s = Some (p, s') \<Longrightarrow> p \<noteq> NULL"
  using malloc_fresh by fastforce

lemma malloc_release:
  assumes "rep s L" "malloc s = Some (p, s')"
  shows "\<exists>s''. release s' p = Some s'' \<and> rep s'' L"
proof -
  from malloc_fresh [OF assms] obtain a where a: "p = Some a" "a \<notin> L" "rep s' (insert a L)"
    by blast
  from release_live [OF a(3), of a] a show ?thesis by auto
qed

lemma malloc_twice_distinct:
  assumes "rep s L" "malloc s = Some (p, s')" "malloc s' = Some (q, s'')"
  shows "p \<noteq> q"
proof -
  from malloc_fresh [OF assms(1,2)] obtain a where a: "p = Some a" "rep s' (insert a L)" by blast
  from malloc_fresh [OF a(2) assms(3)] a(1) show ?thesis by auto
qed

end

interpretation slab: allocator slab_rep "slab_alloc_malloc os" slab_alloc_free for os
proof (unfold_locales, goal_cases)
  case (1 s L p s')
  from 1(1) obtain xs where xs: "slab_inv s xs" "L = slab_live s xs" by (auto simp: slab_rep_def)
  show ?case
    by (rule slab_malloc_cases [OF xs(1) 1(2)]) (auto simp: slab_rep_def xs(2))
next
  case (2 s L a)
  from 2(1) obtain xs where xs: "slab_inv s xs" "L = slab_live s xs" by (auto simp: slab_rep_def)
  from 2(2) have "a \<in> slab_live s xs" by (simp add: xs(2))
  from slab_free_run [OF xs(1) this] show ?case by (metis slab_rep_def xs(2))
qed

section \<open>Properties\<close>

lemma slab_init_rep:
  assumes "mmap_spec os" and ret: "slab_alloc_init os r self es n = Some (r', al)"
    and small: "unat es + unat n * (16 + unat es) + 4194320 \<le> 2 ^ 64"
      "n = 0 \<Longrightarrow> unat es \<le> 2 ^ 63"
  shows "r' = r \<and> slab_rep al {} \<and> elementSize al = META_SIZE + es"
proof -
  have es: "unat (META_SIZE + es) = 16 + unat es"
    using small(1) by (subst unat_add_nowrap) (simp_all add: META_SIZE_def)
  have n: "unat (n * (META_SIZE + es)) = unat n * (16 + unat es)"
    using small(1) by (subst unat_mult_nowrap) (simp_all add: es)
  from ret obtain ba where ba: "bigary_init os (-1) 34 (n * (META_SIZE + es)) = Some ba"
    and r: "r' = r" and al: "al = \<lparr>sa_self = self, freelist = NULL, sa_metas = Map.empty,
       mappedMemory = ba, elementSize = META_SIZE + es, used = 0\<rparr>"
    by (auto simp: slab_alloc_init_def Let_def bind_eq_Some_conv)
  have fits: "unat (n * (META_SIZE + es)) + 2097152 \<le> 2 ^ 64" using small(1) n by simp
  have "bigary_ok ba" and d: "unat (ba_declared ba) =
      (if n * (META_SIZE + es) = 0 then 17179869184
       else round_up 2097152 (unat n * (16 + unat es)))"
    using bigary_init_spec [OF assms(1) fits ba] n by simp_all
  have "unat (ba_declared ba) + (16 + unat es) + 2097152 \<le> 2 ^ 64"
  proof (cases "n * (META_SIZE + es) = 0")
    case True
    then have "unat n * (16 + unat es) = 0" using n by (metis unat_0)
    then have "n = 0" by (simp add: unat_eq_0)
    with small(2) d True show ?thesis by simp
  next
    case False
    with d small(1) round_up_less [of 2097152 "unat n * (16 + unat es)"] show ?thesis by simp
  qed
  with \<open>bigary_ok ba\<close> have "slab_inv al []"
    by (simp add: slab_inv_def al es slot_def)
  moreover have "slab_live al [] = {}" by (simp add: slab_live_def al)
  ultimately show ?thesis using r by (auto simp: slab_rep_def al)
qed

lemma slab_rep_slotE:
  assumes "slab_rep al L" "a \<in> L"
  obtains xs i where "slab_inv al xs" "i < unat (used al)" "a = slot al i + META_SIZE"
    "unat a = unat (ba_area (mappedMemory al)) + unat (elementSize al) * i + 16"
    "unat (ba_area (mappedMemory al)) + unat (elementSize al) * i + unat (elementSize al)
      \<le> unat (ba_area (mappedMemory al)) + unat (ba_top (mappedMemory al))"
proof -
  from assms obtain xs where inv: "slab_inv al xs" and "a \<in> slab_live al xs"
    by (auto simp: slab_rep_def)
  then obtain m where a': "a = m + META_SIZE" and "m \<in> dom (sa_metas al)"
    by (auto simp: slab_live_def)
  moreover have "dom (sa_metas al) = slot al ` {..<unat (used al)}"
    using inv by (simp add: slab_inv_def)
  ultimately obtain i where i: "i < unat (used al)" and a: "a = slot al i + META_SIZE" by auto
  have m: "(i + 1) * unat (elementSize al) \<le> unat (ba_top (mappedMemory al))"
    using slab_inv_slots_mapped [OF inv i] .
  have s: "unat (slot al i) = unat (ba_area (mappedMemory al)) + unat (elementSize al) * i"
    using unat_slot [OF inv] i by simp
  have b: "unat (ba_area (mappedMemory al)) + unat (ba_top (mappedMemory al)) < 2 ^ 64"
      "16 \<le> unat (elementSize al)"
    using inv by (auto simp: slab_inv_def bigary_ok_def word_le_nat_alt)
  have le: "unat (elementSize al) * i + unat (elementSize al) \<le> unat (ba_top (mappedMemory al))"
    using m by (simp add: algebra_simps)
  have "unat a = unat (slot al i) + 16"
    unfolding a using s b le by (subst unat_add_nowrap) (simp_all add: META_SIZE_def)
  with s le show ?thesis using that inv i a by simp
qed


lemma slab_free_room:
  assumes "slab_rep al L" "a \<in> L" "slab_alloc_free al (Some a) = Some al'"
  shows "slab_alloc_malloc os al' \<noteq> None"
proof -
  from assms obtain xs where xs: "slab_inv al xs" "a \<in> slab_live al xs" by (auto simp: slab_rep_def)
  from slab_free_run [OF xs] assms(3) have fr: "slab_inv al' ((a - META_SIZE) # xs)"
    "freelist al' = Some (a - META_SIZE)" by (metis option.inject)+
  from slab_malloc_reuse [OF fr, of os] show ?thesis by (metis option.distinct(1))
qed

text \<open>Releasing an element and taking it back leaves the allocator as able to serve as before.\<close>

lemma slab_room_swap:
  assumes rep: "slab_rep al L" and a: "a \<in> L" and fr: "slab_alloc_free al (Some a) = Some al1"
    and ma: "slab_alloc_malloc os al1 = Some (p, al2)" and room: "slab_alloc_malloc os al \<noteq> None"
  shows "slab_alloc_malloc os al2 \<noteq> None"
proof -
  from rep a obtain xs where xs: "slab_inv al xs" "a \<in> slab_live al xs" by (auto simp: slab_rep_def)
  from xs(2) obtain m mt where m: "a = m + META_SIZE" "sa_metas al m = Some mt" "m \<notin> set xs"
    by (auto simp: slab_live_def)
  from xs(1) m have self: "fm_allocator mt = sa_self al" by (auto simp: slab_inv_def)
  have al1: "al1 = al\<lparr>sa_metas := (sa_metas al)(m \<mapsto> mt\<lparr>fm_next := freelist al\<rparr>), freelist := Some m\<rparr>"
    using fr m self by (simp add: slab_alloc_free_def slab_alloc_glob_freelist_push_def
        slab_alloc_addr_to_node_meta_def)
  have al2: "al2 = al\<lparr>sa_metas := (sa_metas al)(m \<mapsto> mt\<lparr>fm_next := freelist al\<rparr>)\<rparr>"
    using ma by (simp add: al1 slab_alloc_malloc_def slab_alloc_glob_freelist_pop_def
        slab_alloc_node_meta_to_addr_def)
  show ?thesis
  proof (cases "freelist al")
    case None
    then show ?thesis using room
      by (cases "bigary_alloc os (mappedMemory al) ((used al + 1) * elementSize al)")
        (simp_all add: al2 slab_alloc_malloc_def slab_alloc_glob_freelist_pop_def
          slab_alloc_create_meta_def slab_alloc_fetch_increment_used_def
          slab_alloc_node_meta_to_addr_def Let_def)
  next
    case (Some x)
    with xs(1) obtain ys where "xs = x # ys" "x \<in> dom (sa_metas al)"
      using fl_chain_head fl_chain_dom by (fastforce simp: slab_inv_def)
    with Some show ?thesis
      by (auto simp: al2 slab_alloc_malloc_def slab_alloc_glob_freelist_pop_def
          slab_alloc_node_meta_to_addr_def)
  qed
qed

lemma slab_rep_card:
  assumes "slab_rep al L"
  shows "finite L \<and> card L < 2 ^ 60"
proof -
  from assms obtain xs where inv: "slab_inv al xs" and L: "L = slab_live al xs"
    by (auto simp: slab_rep_def)
  have dom: "dom (sa_metas al) = slot al ` {..<unat (used al)}" using inv by (simp add: slab_inv_def)
  then have fin: "finite (dom (sa_metas al))" and "card (dom (sa_metas al)) \<le> unat (used al)"
    using card_image_le [of "{..<unat (used al)}" "slot al"] by simp_all
  moreover have "card L \<le> card (dom (sa_metas al))"
    unfolding L slab_live_def using fin
    by (meson Diff_subset card_image_le card_mono finite_Diff order_trans)
  moreover have "unat (used al) * 16 \<le> unat (used al) * unat (elementSize al)"
    using inv by (intro mult_le_mono2) (simp add: slab_inv_def)
  moreover have "unat (used al) * unat (elementSize al) < 2 ^ 64"
    using slab_inv_used_bound(3) [OF inv] by linarith
  moreover have "(2::nat) ^ 64 = 16 * 2 ^ 60" by simp
  ultimately have "card L < 2 ^ 60" by linarith
  then show ?thesis using L fin by (simp add: slab_live_def)
qed

lemma slab_payloads_disjoint:
  assumes "slab_rep al L" "a \<in> L" "b \<in> L" "a \<noteq> b"
  shows "unat a + unat (elementSize al) \<le> unat b \<or> unat b + unat (elementSize al) \<le> unat a"
proof -
  obtain i where i: "a = slot al i + META_SIZE"
    "unat a = unat (ba_area (mappedMemory al)) + unat (elementSize al) * i + 16"
    by (rule slab_rep_slotE [OF assms(1,2)]) blast
  obtain j where j: "b = slot al j + META_SIZE"
    "unat b = unat (ba_area (mappedMemory al)) + unat (elementSize al) * j + 16"
    by (rule slab_rep_slotE [OF assms(1,3)]) blast
  have step: "unat (elementSize al) * k + unat (elementSize al) \<le> unat (elementSize al) * l"
    if "k < l" for k l :: nat
    using mult_le_mono2 [of "k + 1" l "unat (elementSize al)"] that by simp
  from i j assms(4) have "i \<noteq> j" by auto
  then consider "i < j" | "j < i" by linarith
  then show ?thesis using step [of i j] step [of j i] i(2) j(2) by cases linarith+
qed

text \<open>
  C13: \<open>slab_alloc_malloc\<close> never hands out memory that is in use.  From a state whose live
  elements are \<open>L\<close>, a returning call yields a non-null element outside \<open>L\<close>; the element,
  with its metadata header, overlaps no live element, lies inside the mapped part of the
  array, and the new state has exactly \<open>L\<close> and the new element live.
\<close>

theorem slab_malloc_sound:
  assumes rep: "slab_rep al L" and ret: "slab_alloc_malloc os al = Some (p, al')"
  shows "\<exists>a. p = Some a \<and> a \<notin> L \<and> slab_rep al' (insert a L) \<and>
    (\<forall>b\<in>L. unat a + unat (elementSize al') \<le> unat b \<or> unat b + unat (elementSize al') \<le> unat a) \<and>
    unat (ba_area (mappedMemory al')) + 16 \<le> unat a \<and>
    unat a + unat (elementSize al')
      \<le> unat (ba_area (mappedMemory al')) + unat (ba_top (mappedMemory al')) + 16"
proof -
  from slab.malloc_fresh [OF rep ret] obtain a
    where a: "p = Some a" "a \<notin> L" "slab_rep al' (insert a L)" by blast
  have "unat (ba_area (mappedMemory al')) + 16 \<le> unat a \<and> unat a + unat (elementSize al')
      \<le> unat (ba_area (mappedMemory al')) + unat (ba_top (mappedMemory al')) + 16"
    by (rule slab_rep_slotE [OF a(3), of a]) auto
  moreover have "unat a + unat (elementSize al') \<le> unat b \<or> unat b + unat (elementSize al') \<le> unat a"
    if "b \<in> L" for b
    using slab_payloads_disjoint [OF a(3), of a b] that a(2) by auto
  ultimately show ?thesis using a by blast
qed

text \<open>
  C35: Releasing an element and allocating again gives the element back (the free list is
  last-in first-out), both calls return, and the set of live elements is unchanged.
\<close>

theorem slab_free_malloc:
  assumes rep: "slab_rep al L" and a: "a \<in> L"
  shows "\<exists>al1 al2. slab_alloc_free al (Some a) = Some al1 \<and> slab_rep al1 (L - {a}) \<and>
    slab_alloc_malloc os al1 = Some (Some a, al2) \<and> slab_rep al2 L"
proof -
  from rep obtain xs where xs: "slab_inv al xs" "L = slab_live al xs" by (auto simp: slab_rep_def)
  from a have "a \<in> slab_live al xs" by (simp add: xs(2))
  from slab_free_run [OF xs(1) this] obtain al1
    where al1: "slab_alloc_free al (Some a) = Some al1" "slab_inv al1 ((a - META_SIZE) # xs)"
      "slab_live al1 ((a - META_SIZE) # xs) = L - {a}" "freelist al1 = Some (a - META_SIZE)"
    by (metis xs(2))
  obtain al2 where "slab_alloc_malloc os al1 = Some (Some a, al2)" "slab_inv al2 xs"
      "slab_live al2 xs = insert a (L - {a})"
    by (rule slab_malloc_reuse [OF al1(2,4), of os]) (auto simp: al1(3)[symmetric])
  with al1 a show ?thesis by (auto simp: slab_rep_def insert_absorb)
qed

section \<open>A concrete run\<close>

definition demo_os :: os where
  "demo_os = \<lparr>os_mutex_init = 0, os_mmap = (\<lambda>len. if len = 17179869184 then Some 4096 else None),
     os_mmap_fixed = (\<lambda>_ _. True)\<rparr>"

definition demo_slab :: slab_alloc where
  "demo_slab = \<lparr>sa_self = 64, freelist = NULL, sa_metas = Map.empty,
     mappedMemory = \<lparr>ba_area = 4096, ba_declared = 17179869184, ba_top = 2097152,
        ba_fd = -1, ba_flags = 34\<rparr>, elementSize = 48, used = 0\<rparr>"

lemma demo_init: "slab_alloc_init demo_os 0 64 32 0 = Some (0, demo_slab)"
  by (simp add: slab_alloc_init_def bigary_init_def demo_os_def demo_slab_def Let_def
      META_SIZE_def BIGARY_DEFAULT_MAX_def BIGARY_PAGESIZE_def)

lemma demo_slab_rep: "slab_rep demo_slab {}"
  using slab_init_rep [OF _ demo_init] by (simp add: mmap_spec_def demo_os_def)

definition demo_slab1 :: slab_alloc where
  "demo_slab1 = demo_slab\<lparr>used := 1,
     sa_metas := [4096 \<mapsto> \<lparr>fm_allocator = 64, fm_next = NULL\<rparr>]\<rparr>"

lemma demo_malloc: "slab_alloc_malloc demo_os demo_slab = Some (Some 4112, demo_slab1)"
  by (simp add: slab_alloc_malloc_def slab_alloc_glob_freelist_pop_def slab_alloc_create_meta_def
      slab_alloc_fetch_increment_used_def slab_alloc_node_meta_to_addr_def bigary_alloc_def
      demo_slab_def demo_slab1_def META_SIZE_def Let_def)

theorem slab_malloc_sound_witness:
  "slab_rep demo_slab {} \<and> slab_alloc_malloc demo_os demo_slab = Some (Some 4112, demo_slab1) \<and>
   slab_rep demo_slab1 {4112}"
  using slab_malloc_sound [OF demo_slab_rep demo_malloc] demo_slab_rep demo_malloc by simp

theorem slab_free_malloc_witness:
  "\<exists>al1 al2. slab_alloc_free demo_slab1 (Some 4112) = Some al1 \<and> slab_rep al1 {} \<and>
    slab_alloc_malloc demo_os al1 = Some (Some 4112, al2) \<and> slab_rep al2 {4112}"
proof -
  have "slab_rep demo_slab1 {4112}"
    using slab.malloc_fresh [OF demo_slab_rep demo_malloc] by simp
  from slab_free_malloc [OF this, of 4112 demo_os] show ?thesis by simp
qed

end
