(* ===== verification/Avl_Zipper.thy ===== *)
theory Avl_Zipper
  imports Prelude
begin

text \<open>
  The abstract layer below the weighted AVL tree: trees whose nodes carry the address, the
  own weight and the two cached values (\<open>subtreeWeight\<close> and \<open>height\<close>) of the C node, paths
  from a subtree up to the root as lists of frames, and the rebalancing of such a path.
  The theory \<open>Wre_Avl_Tree\<close> relates the pointer program to these functions; here they
  are shown to restore balance and cached values and to keep the in-order sequence.
\<close>

datatype 'd atree =
    Nil
  | Nd (nd_addr: addr) (nd_left: "'d atree") (nd_data: 'd) (nd_own: size_t) (nd_sub: size_t)
      (nd_height: size_t) (nd_right: "'d atree")

datatype 'd frame =
    FL addr 'd size_t size_t size_t "'d atree"
  | FR addr "'d atree" 'd size_t size_t size_t

primrec fill :: "'d frame \<Rightarrow> 'd atree \<Rightarrow> 'd atree" where
  "fill (FL a d ow sw ht r) t = Nd a t d ow sw ht r"
| "fill (FR a l d ow sw ht) t = Nd a l d ow sw ht t"

primrec plug :: "'d atree \<Rightarrow> 'd frame list \<Rightarrow> 'd atree" where
  "plug t [] = t"
| "plug t (f # c) = plug (fill f t) c"

primrec addrs :: "'d atree \<Rightarrow> addr list" where
  "addrs Nil = []"
| "addrs (Nd a l d ow sw ht r) = addrs l @ a # addrs r"

primrec inorder :: "'d atree \<Rightarrow> ('d \<times> size_t) list" where
  "inorder Nil = []"
| "inorder (Nd a l d ow sw ht r) = inorder l @ (d, ow) # inorder r"

primrec levels :: "'d atree \<Rightarrow> nat" where
  "levels Nil = 0"
| "levels (Nd a l d ow sw ht r) = 1 + max (levels l) (levels r)"

text \<open>What the C code reads of a child pointer: 0 for \<open>NULL\<close>.\<close>

primrec hlen :: "'d atree \<Rightarrow> size_t" where
  "hlen Nil = 0"
| "hlen (Nd a l d ow sw ht r) = ht + 1"

primrec wsub :: "'d atree \<Rightarrow> size_t" where
  "wsub Nil = 0"
| "wsub (Nd a l d ow sw ht r) = sw"

text \<open>A node whose cached values are recomputed from its children.\<close>

definition mk :: "addr \<Rightarrow> 'd atree \<Rightarrow> 'd \<Rightarrow> size_t \<Rightarrow> 'd atree \<Rightarrow> 'd atree" where
  "mk a l d ow r = Nd a l d ow (wsub l + wsub r + ow) (max (hlen l) (hlen r)) r"

definition skew :: "'d atree \<Rightarrow> 'd atree \<Rightarrow> int" where
  "skew l r = sint (hlen r) - sint (hlen l)"

fun rotl :: "'d atree \<Rightarrow> 'd atree option" where
  "rotl (Nd x y dx ox sx hx (Nd z t dz oz sz hz u)) = Some (mk z (mk x y dx ox t) dz oz u)"
| "rotl _ = None"

fun rotr :: "'d atree \<Rightarrow> 'd atree option" where
  "rotr (Nd x (Nd y u dy oy sy hy t) dx ox sx hx z) = Some (mk y u dy oy (mk x t dx ox z))"
| "rotr _ = None"

fun fix_rotl :: "'d atree \<Rightarrow> 'd atree option" where
  "fix_rotl (Nd x l d ow sw ht (Nd z rl dz oz sz hz rr)) = do {
     c_assert (skew rl rr \<ge> -1);
     r' \<leftarrow> if skew rl rr < 0 then rotr (Nd z rl dz oz sz hz rr)
          else Some (Nd z rl dz oz sz hz rr);
     rotl (Nd x l d ow sw ht r') }"
| "fix_rotl _ = None"

fun fix_rotr :: "'d atree \<Rightarrow> 'd atree option" where
  "fix_rotr (Nd x (Nd y ll dy oy sy hy lr) d ow sw ht r) = do {
     c_assert (skew ll lr \<le> 1);
     l' \<leftarrow> if skew ll lr > 0 then rotl (Nd y ll dy oy sy hy lr)
          else Some (Nd y ll dy oy sy hy lr);
     rotr (Nd x l' d ow sw ht r) }"
| "fix_rotr _ = None"

primrec bal :: "'d atree \<Rightarrow> 'd atree option" where
  "bal Nil = None"
| "bal (Nd x l d ow sw ht r) = do {
     c_assert (\<bar>skew l r\<bar> \<le> 3);
     (if skew l r > 1 then fix_rotl (Nd x l d ow sw ht r)
      else if skew l r < -1 then fix_rotr (Nd x l d ow sw ht r)
      else Some (mk x l d ow r)) }"

text \<open>A node at which a further visit of the rebalancing loop changes nothing.\<close>

fun settled :: "'d atree \<Rightarrow> bool" where
  "settled (Nd x l d ow sw ht r) \<longleftrightarrow> \<bar>skew l r\<bar> \<le> 1 \<and> Nd x l d ow sw ht r = mk x l d ow r"
| "settled Nil \<longleftrightarrow> False"

primrec up :: "'d atree \<Rightarrow> 'd frame list \<Rightarrow> 'd atree option" where
  "up t [] = Some t"
| "up t (f # c) = do { t' \<leftarrow> bal (fill f t); c_assert (settled t'); up t' c }"

text \<open>Balance and correct cached values.\<close>

primrec avl :: "'d atree \<Rightarrow> bool" where
  "avl Nil \<longleftrightarrow> True"
| "avl (Nd a l d ow sw ht r) \<longleftrightarrow>
     avl l \<and> avl r \<and> levels l \<le> levels r + 1 \<and> levels r \<le> levels l + 1"

primrec cached :: "'d atree \<Rightarrow> bool" where
  "cached Nil \<longleftrightarrow> True"
| "cached (Nd a l d ow sw ht r) \<longleftrightarrow> cached l \<and> cached r \<and>
     sw = wsub l + wsub r + ow \<and> ht = of_nat (max (levels l) (levels r))"

text \<open>
  \<open>path_ok k c\<close>: the path \<open>c\<close> was part of a balanced tree when its hole held a subtree of
  \<open>k\<close> levels.  The cached values of the nodes on the path are unconstrained.
\<close>

fun path_ok :: "nat \<Rightarrow> 'd frame list \<Rightarrow> bool" where
  "path_ok k [] \<longleftrightarrow> True"
| "path_ok k (FL a d ow sw ht r # c) \<longleftrightarrow> avl r \<and> cached r \<and>
     k \<le> levels r + 1 \<and> levels r \<le> k + 1 \<and> path_ok (1 + max k (levels r)) c"
| "path_ok k (FR a l d ow sw ht # c) \<longleftrightarrow> avl l \<and> cached l \<and>
     k \<le> levels l + 1 \<and> levels l \<le> k + 1 \<and> path_ok (1 + max k (levels l)) c"

section \<open>Heights as machine words\<close>

lemma sint_of_nat: "n < 2 ^ 63 \<Longrightarrow> sint (of_nat n :: 64 word) = int n"
  by (simp add: signed_of_nat signed_take_bit_int_eq_self)

lemma max_of_nat:
  "m < 2 ^ 63 \<Longrightarrow> n < 2 ^ 63 \<Longrightarrow> max (of_nat m) (of_nat n :: 64 word) = of_nat (max m n)"
  by (auto simp: max_def word_le_nat_alt unat_of_nat)

lemma cached_hlen: "cached t \<Longrightarrow> hlen t = of_nat (levels t)"
  by (cases t) auto

lemma skew_levels:
  "cached l \<Longrightarrow> cached r \<Longrightarrow> levels l < 2 ^ 63 \<Longrightarrow> levels r < 2 ^ 63 \<Longrightarrow>
     skew l r = int (levels r) - int (levels l)"
  by (simp add: skew_def cached_hlen sint_of_nat)

lemma levels_mk [simp]: "levels (mk a l d ow r) = 1 + max (levels l) (levels r)"
  by (simp add: mk_def)

lemma avl_mk [simp]: "avl (mk a l d ow r) \<longleftrightarrow>
    avl l \<and> avl r \<and> levels l \<le> levels r + 1 \<and> levels r \<le> levels l + 1"
  by (simp add: mk_def)

lemma inorder_mk [simp]: "inorder (mk a l d ow r) = inorder l @ (d, ow) # inorder r"
  by (simp add: mk_def)

lemma addrs_mk [simp]: "addrs (mk a l d ow r) = addrs l @ a # addrs r"
  by (simp add: mk_def)

lemma cached_mk:
  "cached l \<Longrightarrow> cached r \<Longrightarrow> levels l < 2 ^ 63 \<Longrightarrow> levels r < 2 ^ 63 \<Longrightarrow> cached (mk a l d ow r)"
  by (simp add: mk_def cached_hlen max_of_nat)

lemma settled_mk [simp]: "settled (mk x l d ow r) \<longleftrightarrow> \<bar>skew l r\<bar> \<le> 1"
  by (simp add: mk_def)

lemma levels_le_addrs: "levels t \<le> length (addrs t)"
  by (induction t) auto


section \<open>One visit of the rebalancing loop\<close>

text \<open>What every visit establishes of its result.\<close>

definition visit_ok :: "'d atree \<Rightarrow> nat \<Rightarrow> nat \<Rightarrow> ('d \<times> size_t) list \<Rightarrow> addr list \<Rightarrow> bool" where
  "visit_ok t lo hi es as \<longleftrightarrow> settled t \<and> avl t \<and> cached t \<and> lo \<le> levels t \<and> levels t \<le> hi \<and>
     inorder t = es \<and> addrs t = as"

lemma visit_ok_mk:
  assumes "avl l" "cached l" "avl r" "cached r" "levels l \<le> levels r + 1" "levels r \<le> levels l + 1"
    and "levels l < 2 ^ 62" "levels r < 2 ^ 62"
    and "lo \<le> 1 + max (levels l) (levels r)" "1 + max (levels l) (levels r) \<le> hi"
    and "es = inorder l @ (d, ow) # inorder r" "as = addrs l @ x # addrs r"
  shows "visit_ok (mk x l d ow r) lo hi es as"
  using assms by (auto simp: visit_ok_def skew_levels cached_mk)

lemma levels_mk_bound: "levels l < n \<Longrightarrow> levels r < n \<Longrightarrow> levels (mk x l d ow r) < n + 1"
  by simp

lemma fix_rotl_ok:
  assumes l: "avl l" "cached l" and r: "avl r" "cached r"
    and d: "levels r = levels l + 2" and b: "levels r < 2 ^ 61"
  shows "\<exists>t. fix_rotl (Nd x l d ow sw ht r) = Some t \<and>
    visit_ok t (levels r) (levels r + 1) (inorder l @ (d, ow) # inorder r) (addrs l @ x # addrs r)"
proof (cases r)
  case (Nd z rl dz oz sz hz rr)
  have sub: "avl rl" "avl rr" "cached rl" "cached rr" "levels rl < 2 ^ 61" "levels rr < 2 ^ 61"
    using r b by (auto simp: Nd)
  have sk: "skew rl rr = int (levels rr) - int (levels rl)"
    using sub by (intro skew_levels) auto
  show ?thesis
  proof (cases "levels rr < levels rl")
    case True
    with r Nd obtain w t1 dw ow' sw' hw t2 where rl: "rl = Nd w t1 dw ow' sw' hw t2"
      by (cases rl) auto
    have sub2: "avl t1" "avl t2" "cached t1" "cached t2" "levels t1 < 2 ^ 61" "levels t2 < 2 ^ 61"
      using sub by (auto simp: rl)
    let ?l = "mk x l d ow t1" and ?r = "mk z t2 dz oz rr"
    have eq: "fix_rotl (Nd x l d ow sw ht r) = Some (mk w ?l dw ow' ?r)"
      using True r sk by (simp add: Nd rl mk_def)
    moreover have "visit_ok (mk w ?l dw ow' ?r) (levels r) (levels r + 1)
        (inorder l @ (d, ow) # inorder r) (addrs l @ x # addrs r)"
      using True r d l b sub sub2 by (intro visit_ok_mk) (auto simp: Nd rl cached_mk max_def split: if_splits)
    ultimately show ?thesis by blast
  next
    case False
    have eq: "fix_rotl (Nd x l d ow sw ht r) = Some (mk z (mk x l d ow rl) dz oz rr)"
      using False r sk by (simp add: Nd)
    moreover have "visit_ok (mk z (mk x l d ow rl) dz oz rr) (levels r) (levels r + 1)
        (inorder l @ (d, ow) # inorder r) (addrs l @ x # addrs r)"
      using False r d l b sub by (intro visit_ok_mk) (auto simp: Nd cached_mk max_def split: if_splits)
    ultimately show ?thesis by blast
  qed
qed (use d in simp)

lemma fix_rotr_ok:
  assumes l: "avl l" "cached l" and r: "avl r" "cached r"
    and d: "levels l = levels r + 2" and b: "levels l < 2 ^ 61"
  shows "\<exists>t. fix_rotr (Nd x l d ow sw ht r) = Some t \<and>
    visit_ok t (levels l) (levels l + 1) (inorder l @ (d, ow) # inorder r) (addrs l @ x # addrs r)"
proof (cases l)
  case (Nd y ll dy oy sy hy lr)
  have sub: "avl ll" "avl lr" "cached ll" "cached lr" "levels ll < 2 ^ 61" "levels lr < 2 ^ 61"
    using l b by (auto simp: Nd)
  have sk: "skew ll lr = int (levels lr) - int (levels ll)"
    using sub by (intro skew_levels) auto
  show ?thesis
  proof (cases "levels ll < levels lr")
    case True
    with l Nd obtain w t1 dw ow' sw' hw t2 where lr: "lr = Nd w t1 dw ow' sw' hw t2"
      by (cases lr) auto
    have sub2: "avl t1" "avl t2" "cached t1" "cached t2" "levels t1 < 2 ^ 61" "levels t2 < 2 ^ 61"
      using sub by (auto simp: lr)
    let ?l = "mk y ll dy oy t1" and ?r = "mk x t2 d ow r"
    have eq: "fix_rotr (Nd x l d ow sw ht r) = Some (mk w ?l dw ow' ?r)"
      using True l sk by (simp add: Nd lr mk_def)
    moreover have "visit_ok (mk w ?l dw ow' ?r) (levels l) (levels l + 1)
        (inorder l @ (d, ow) # inorder r) (addrs l @ x # addrs r)"
      using True r d l b sub sub2 by (intro visit_ok_mk) (auto simp: Nd lr cached_mk max_def split: if_splits)
    ultimately show ?thesis by blast
  next
    case False
    have eq: "fix_rotr (Nd x l d ow sw ht r) = Some (mk y ll dy oy (mk x lr d ow r))"
    proof -
      have "\<not> skew ll lr > 0" "skew ll lr \<le> 1" using False sk by simp_all
      then show ?thesis by (simp add: Nd)
    qed
    moreover have "visit_ok (mk y ll dy oy (mk x lr d ow r)) (levels l) (levels l + 1)
        (inorder l @ (d, ow) # inorder r) (addrs l @ x # addrs r)"
      using False r d l b sub by (intro visit_ok_mk) (auto simp: Nd cached_mk max_def split: if_splits)
    ultimately show ?thesis by blast
  qed
qed (use d in simp)

lemma bal_ok:
  assumes l: "avl l" "cached l" "levels l < 2 ^ 61" and r: "avl r" "cached r" "levels r < 2 ^ 61"
    and d: "levels l \<le> levels r + 2" "levels r \<le> levels l + 2"
  shows "\<exists>t. bal (Nd x l d ow sw ht r) = Some t \<and>
    visit_ok t (if levels l \<le> levels r + 1 \<and> levels r \<le> levels l + 1
        then 1 + max (levels l) (levels r) else max (levels l) (levels r))
      (1 + max (levels l) (levels r)) (inorder l @ (d, ow) # inorder r) (addrs l @ x # addrs r)"
proof -
  have sk: "skew l r = int (levels r) - int (levels l)"
    using l r by (intro skew_levels) auto
  consider "levels r = levels l + 2" | "levels l = levels r + 2"
    | "levels l \<le> levels r + 1" "levels r \<le> levels l + 1" using d by linarith
  then show ?thesis
  proof cases
    case 1
    with fix_rotl_ok [OF l(1,2) r(1,2) _ r(3), of x d ow sw ht] sk show ?thesis
      by (auto simp: max_def)
  next
    case 2
    with fix_rotr_ok [OF l(1,2) r(1,2) _ l(3), of x d ow sw ht] sk show ?thesis
      by (auto simp: max_def)
  next
    case 3
    then have "bal (Nd x l d ow sw ht r) = Some (mk x l d ow r)" using sk by (simp add: abs_if)
    moreover have "visit_ok (mk x l d ow r) (1 + max (levels l) (levels r))
        (1 + max (levels l) (levels r)) (inorder l @ (d, ow) # inorder r) (addrs l @ x # addrs r)"
      using 3 l r by (intro visit_ok_mk) auto
    ultimately show ?thesis using 3 by simp
  qed
qed

section \<open>The rebalancing loop\<close>

lemma inorder_plug_cong: "inorder t = inorder t' \<Longrightarrow> inorder (plug t c) = inorder (plug t' c)"
proof (induction c arbitrary: t t')
  case (Cons f c)
  from Cons.prems have "inorder (fill f t) = inorder (fill f t')" by (cases f) simp_all
  from Cons.IH [OF this] show ?case by simp
qed simp

lemma addrs_plug_cong: "addrs t = addrs t' \<Longrightarrow> addrs (plug t c) = addrs (plug t' c)"
proof (induction c arbitrary: t t')
  case (Cons f c)
  from Cons.prems have "addrs (fill f t) = addrs (fill f t')" by (cases f) simp_all
  from Cons.IH [OF this] show ?case by simp
qed simp

lemma length_addrs_fill: "length (addrs t) < length (addrs (fill f t))"
  by (cases f) simp_all

lemma length_addrs_plug: "length (addrs t) \<le> length (addrs (plug t c))"
proof (induction c arbitrary: t)
  case (Cons f c)
  from Cons [of "fill f t"] length_addrs_fill [of t f] show ?case by simp
qed simp

lemma up_ok:
  assumes "avl t" "cached t" "levels t \<le> k + 1" "k \<le> levels t + 1" "path_ok k c"
    and "length (addrs (plug t c)) < 2 ^ 61"
  shows "\<exists>t'. up t c = Some t' \<and> avl t' \<and> cached t' \<and>
    inorder t' = inorder (plug t c) \<and> addrs t' = addrs (plug t c)"
  using assms
proof (induction c arbitrary: t k)
  case (Cons f c)
  obtain x l d ow sw ht r s where f: "fill f t = Nd x l d ow sw ht r"
    and lr: "l = t \<and> r = s \<or> l = s \<and> r = t" and s: "avl s" "cached s"
    and k: "k \<le> levels s + 1" "levels s \<le> k + 1" and K: "path_ok (1 + max k (levels s)) c"
    using Cons.prems by (cases f) auto
  define K where "K = 1 + max k (levels s)"
  have lr': "avl l" "cached l" "avl r" "cached r" using lr s Cons.prems by auto
  have d: "levels l \<le> levels r + 2" "levels r \<le> levels l + 2"
    using lr k Cons.prems(3,4) by auto
  have K_lo: "K \<le> (if levels l \<le> levels r + 1 \<and> levels r \<le> levels l + 1
        then 1 + max (levels l) (levels r) else max (levels l) (levels r)) + 1"
    and K_hi: "1 + max (levels l) (levels r) \<le> K + 1"
    using lr k Cons.prems(3,4) unfolding K_def by auto
  have "levels l < 2 ^ 61" "levels r < 2 ^ 61"
    using Cons.prems(6) length_addrs_plug [of "fill f t" c] levels_le_addrs [of l]
      levels_le_addrs [of r] by (simp_all add: f)
  from bal_ok [OF lr'(1,2) this(1) lr'(3,4) this(2) d, of x d ow sw ht]
  obtain t' where t': "bal (fill f t) = Some t'" "visit_ok t' (if levels l \<le> levels r + 1 \<and>
        levels r \<le> levels l + 1 then 1 + max (levels l) (levels r) else max (levels l) (levels r))
      (1 + max (levels l) (levels r)) (inorder (fill f t)) (addrs (fill f t))"
    by (auto simp: f)
  then have v: "settled t'" "avl t'" "cached t'" "inorder t' = inorder (fill f t)"
      "addrs t' = addrs (fill f t)" "levels t' \<le> K + 1" "K \<le> levels t' + 1"
    using K_lo K_hi by (auto simp: visit_ok_def split: if_splits)
  note p = inorder_plug_cong [OF v(4), of c] addrs_plug_cong [OF v(5), of c]
  have "\<exists>t''. up t' c = Some t'' \<and> avl t'' \<and> cached t'' \<and>
      inorder t'' = inorder (plug t' c) \<and> addrs t'' = addrs (plug t' c)"
    using v Cons.prems(6) p(2) by (intro Cons.IH [OF _ _ _ _ K [folded K_def]]) simp_all
  then show ?case using t'(1) v(1) p by simp
qed simp

end
