(* ===== verification/Wre_Avl_Tree.thy ===== *)
theory Wre_Avl_Tree
  imports Slab_Allocator Avl_Zipper
begin

text \<open>
  Component \<open>src/wre_avl_tree.c\<close>: the weighted AVL tree, at the level of its pointers.  The
  nodes live in a heap \<open>nodes\<close> from addresses to node records; loads and stores go through
  \<open>ld\<close> and \<open>st\<close>, which abort on \<open>NULL\<close> and on an address that holds no live node.
  Heights and weights keep their width of 64 bits; the \<open>int64_t\<close> differences of heights
  are computed from the signed reading of the words.  \<open>void *data\<close> is a value of the type
  parameter, \<open>NULL\<close> being \<^term>\<open>None\<close>; the comparison function is a field of the tree.
\<close>

datatype which_node_e = LEFT_NODE | RIGHT_NODE | ROOT_NODE

record 'd wre_node =
  subtreeWeight :: size_t
  ownWeight :: size_t
  height :: size_t
  left :: ptr
  right :: ptr
  parent :: ptr
  "which" :: which_node_e
  data :: "'d option"

record 'd wre_tree =
  rootNode :: ptr
  nodes :: "addr \<rightharpoonup> 'd wre_node"
  nodeAlloc :: slab_alloc
  tree_size :: size_t
  is_lower_check :: "'d \<Rightarrow> 'd \<Rightarrow> bool"

definition ld :: "'d wre_tree \<Rightarrow> ptr \<Rightarrow> 'd wre_node option" where
  "ld T p = Option.bind p (nodes T)"

definition st :: "'d wre_tree \<Rightarrow> ptr \<Rightarrow> ('d wre_node \<Rightarrow> 'd wre_node) \<Rightarrow> 'd wre_tree option" where
  "st T p f = do { a \<leftarrow> p; n \<leftarrow> nodes T a; Some (T\<lparr>nodes := (nodes T)(a \<mapsto> f n)\<rparr>) }"

text \<open>A store guarded by \<open>if (p)\<close>.\<close>

definition st_if :: "'d wre_tree \<Rightarrow> ptr \<Rightarrow> ('d wre_node \<Rightarrow> 'd wre_node) \<Rightarrow> 'd wre_tree option" where
  "st_if T p f = (if p \<noteq> NULL then st T p f else Some T)"

text \<open>The \<open>wre_node_t **\<close> that \<open>get_root_placeholder\<close> returns, and the store through it.\<close>

datatype place = Root_Place | Left_Place ptr | Right_Place ptr

definition get_root_placeholder :: "'d wre_tree \<Rightarrow> ptr \<Rightarrow> place option" where
  "get_root_placeholder T p = do {
     n \<leftarrow> ld T p;
     Some (case which n of
       LEFT_NODE \<Rightarrow> Left_Place (parent n)
     | RIGHT_NODE \<Rightarrow> Right_Place (parent n)
     | ROOT_NODE \<Rightarrow> Root_Place) }"

definition st_place :: "'d wre_tree \<Rightarrow> place \<Rightarrow> ptr \<Rightarrow> 'd wre_tree option" where
  "st_place T pl v = (case pl of
     Root_Place \<Rightarrow> Some (T\<lparr>rootNode := v\<rparr>)
   | Left_Place p \<Rightarrow> st T p (\<lambda>n. n\<lparr>left := v\<rparr>)
   | Right_Place p \<Rightarrow> st T p (\<lambda>n. n\<lparr>right := v\<rparr>))"

text \<open>\<open>p ? p->height + 1 : 0\<close> and \<open>p ? p->subtreeWeight : 0\<close>.\<close>

definition child_depth :: "'d wre_tree \<Rightarrow> ptr \<Rightarrow> size_t option" where
  "child_depth T p = (if p \<noteq> NULL then do { n \<leftarrow> ld T p; Some (height n + 1) } else Some 0)"

definition child_weight :: "'d wre_tree \<Rightarrow> ptr \<Rightarrow> size_t option" where
  "child_weight T p = (if p \<noteq> NULL then do { n \<leftarrow> ld T p; Some (subtreeWeight n) } else Some 0)"

definition update_node_subtree_metadata :: "'d wre_tree \<Rightarrow> ptr \<Rightarrow> 'd wre_tree option" where
  "update_node_subtree_metadata T node = do {
     n \<leftarrow> ld T node;
     left_depth \<leftarrow> child_depth T (left n);
     right_depth \<leftarrow> child_depth T (right n);
     T \<leftarrow> st T node (\<lambda>n. n\<lparr>height := max left_depth right_depth\<rparr>);
     n \<leftarrow> ld T node;
     left_weight \<leftarrow> child_weight T (left n);
     right_weight \<leftarrow> child_weight T (right n);
     st T node (\<lambda>n. n\<lparr>subtreeWeight := left_weight + right_weight + ownWeight n\<rparr>) }"

definition rotate_left :: "'d wre_tree \<Rightarrow> ptr \<Rightarrow> 'd wre_tree option" where
  "rotate_left T node = do {
     root_placeholder \<leftarrow> get_root_placeholder T node;
     let x = node;
     xn \<leftarrow> ld T x;
     let z = right xn;
     zn \<leftarrow> ld T z;
     let t = left zn;
     let x_parent = parent xn;
     T \<leftarrow> st T x (\<lambda>n. n\<lparr>right := t\<rparr>);
     T \<leftarrow> st_if T t (\<lambda>n. n\<lparr>parent := x\<rparr>);
     T \<leftarrow> st T z (\<lambda>n. n\<lparr>left := x\<rparr>);
     T \<leftarrow> st T x (\<lambda>n. n\<lparr>parent := z\<rparr>);
     T \<leftarrow> st_place T root_placeholder z;
     T \<leftarrow> st T z (\<lambda>n. n\<lparr>parent := x_parent\<rparr>);
     xn \<leftarrow> ld T x;
     T \<leftarrow> st T z (\<lambda>n. n\<lparr>which := which xn\<rparr>);
     T \<leftarrow> st T x (\<lambda>n. n\<lparr>which := LEFT_NODE\<rparr>);
     T \<leftarrow> st_if T t (\<lambda>n. n\<lparr>which := RIGHT_NODE\<rparr>);
     T \<leftarrow> update_node_subtree_metadata T x;
     update_node_subtree_metadata T z }"

definition rotate_right :: "'d wre_tree \<Rightarrow> ptr \<Rightarrow> 'd wre_tree option" where
  "rotate_right T node = do {
     root_placeholder \<leftarrow> get_root_placeholder T node;
     let x = node;
     xn \<leftarrow> ld T x;
     let y = left xn;
     yn \<leftarrow> ld T y;
     let t = right yn;
     let x_parent = parent xn;
     T \<leftarrow> st T x (\<lambda>n. n\<lparr>left := t\<rparr>);
     T \<leftarrow> st_if T t (\<lambda>n. n\<lparr>parent := x\<rparr>);
     T \<leftarrow> st T y (\<lambda>n. n\<lparr>right := x\<rparr>);
     T \<leftarrow> st T x (\<lambda>n. n\<lparr>parent := y\<rparr>);
     T \<leftarrow> st_place T root_placeholder y;
     T \<leftarrow> st T y (\<lambda>n. n\<lparr>parent := x_parent\<rparr>);
     xn \<leftarrow> ld T x;
     T \<leftarrow> st T y (\<lambda>n. n\<lparr>which := which xn\<rparr>);
     T \<leftarrow> st T x (\<lambda>n. n\<lparr>which := RIGHT_NODE\<rparr>);
     T \<leftarrow> st_if T t (\<lambda>n. n\<lparr>which := LEFT_NODE\<rparr>);
     T \<leftarrow> update_node_subtree_metadata T x;
     update_node_subtree_metadata T y }"

definition fix_rotate_left :: "'d wre_tree \<Rightarrow> ptr \<Rightarrow> 'd wre_tree option" where
  "fix_rotate_left T node = do {
     n \<leftarrow> ld T node;
     let right_node = right n;
     rn \<leftarrow> ld T right_node;
     left_nodes \<leftarrow> child_depth T (left rn);
     right_nodes \<leftarrow> child_depth T (right rn);
     let diff = sint right_nodes - sint left_nodes;
     c_assert (diff \<ge> -2);
     c_assert (diff \<ge> -1);
     T \<leftarrow> (if diff < 0 then rotate_right T right_node else Some T);
     rotate_left T node }"

definition fix_rotate_right :: "'d wre_tree \<Rightarrow> ptr \<Rightarrow> 'd wre_tree option" where
  "fix_rotate_right T node = do {
     n \<leftarrow> ld T node;
     let left_node = left n;
     ln \<leftarrow> ld T left_node;
     left_nodes \<leftarrow> child_depth T (left ln);
     right_nodes \<leftarrow> child_depth T (right ln);
     let diff = sint right_nodes - sint left_nodes;
     c_assert (diff \<le> 2);
     c_assert (diff \<le> 1);
     T \<leftarrow> (if diff > 0 then rotate_left T left_node else Some T);
     rotate_right T node }"

text \<open>The body of the loop of \<open>balance_upwards\<close> once \<open>node\<close> has moved one level up.\<close>

definition balance_node :: "'d wre_tree \<Rightarrow> ptr \<Rightarrow> 'd wre_tree option" where
  "balance_node T node = do {
     n \<leftarrow> ld T node;
     left_nodes \<leftarrow> child_depth T (left n);
     right_nodes \<leftarrow> child_depth T (right n);
     let diff = sint right_nodes - sint left_nodes;
     c_assert ((if diff \<ge> 0 then diff else - diff) \<le> 3);
     (if diff > 1 then fix_rotate_left T node
      else if diff < -1 then fix_rotate_right T node
      else update_node_subtree_metadata T node) }"

partial_function (option) balance_upwards :: "'d wre_tree \<Rightarrow> ptr \<Rightarrow> 'd wre_tree option" where
  "balance_upwards T node = do {
     n \<leftarrow> ld T node;
     (if parent n = NULL then Some T
      else do {
        c_assert (node \<noteq> parent n);
        T' \<leftarrow> balance_node T (parent n);
        balance_upwards T' (parent n) }) }"


partial_function (option) find_node_loop :: "'d wre_tree \<Rightarrow> 'd \<Rightarrow> ptr \<Rightarrow> ptr option" where
  "find_node_loop T d cnode = (if cnode = NULL then Some NULL else do {
     n \<leftarrow> ld T cnode;
     x \<leftarrow> data n;
     (if is_lower_check T x d then find_node_loop T d (right n)
      else if \<not> is_lower_check T d x then Some cnode
      else find_node_loop T d (left n)) })"

definition find_node :: "'d wre_tree \<Rightarrow> 'd \<Rightarrow> ptr option" where
  "find_node T d = find_node_loop T d (rootNode T)"

definition node_create :: "os \<Rightarrow> 'd wre_tree \<Rightarrow> which_node_e \<Rightarrow> (ptr \<times> 'd wre_tree) option" where
  "node_create os T w = do {
     (ret, al) \<leftarrow> slab_alloc_malloc os (nodeAlloc T);
     let T = T\<lparr>nodeAlloc := al\<rparr>;
     (case ret of
        None \<Rightarrow> Some (NULL, T)
      | Some a \<Rightarrow> Some (Some a, T\<lparr>nodes := (nodes T)(a \<mapsto>
          \<lparr>subtreeWeight = 0, ownWeight = 0, height = 0, left = NULL, right = NULL,
            parent = NULL, which = w, data = None\<rparr>)\<rparr>)) }"

text \<open>The payload of a released element is no longer a node.\<close>

definition node_destroy :: "'d wre_tree \<Rightarrow> ptr \<Rightarrow> 'd wre_tree option" where
  "node_destroy T p = do {
     al \<leftarrow> slab_alloc_free (nodeAlloc T) p;
     a \<leftarrow> p;
     Some (T\<lparr>nodeAlloc := al, nodes := (nodes T)(a := None)\<rparr>) }"

text \<open>
  \<open>wre_put\<close>.  The double pointer \<open>cnode\<close> is a \<open>place\<close>; \<open>wre_put_descend\<close> is the loop
  that moves it to the empty place where the new node goes.
\<close>

definition ld_place :: "'d wre_tree \<Rightarrow> place \<Rightarrow> ptr option" where
  "ld_place T pl = (case pl of
     Root_Place \<Rightarrow> Some (rootNode T)
   | Left_Place p \<Rightarrow> map_option left (ld T p)
   | Right_Place p \<Rightarrow> map_option right (ld T p))"

partial_function (option) wre_put_descend ::
  "'d wre_tree \<Rightarrow> 'd \<Rightarrow> place \<Rightarrow> ptr \<Rightarrow> which_node_e \<Rightarrow> (place \<times> ptr \<times> which_node_e) option" where
  "wre_put_descend T d cnode par w = do {
     c \<leftarrow> ld_place T cnode;
     (if c = NULL then Some (cnode, par, w)
      else do {
        n \<leftarrow> ld T c;
        x \<leftarrow> data n;
        (if is_lower_check T x d then wre_put_descend T d (Right_Place c) c RIGHT_NODE
         else wre_put_descend T d (Left_Place c) c LEFT_NODE) }) }"

definition wre_put :: "os \<Rightarrow> 'd wre_tree \<Rightarrow> 'd \<Rightarrow> size_t \<Rightarrow> 'd wre_tree option" where
  "wre_put os T d weight = do {
     (cnode, par, w) \<leftarrow> wre_put_descend T d Root_Place NULL ROOT_NODE;
     (new, T) \<leftarrow> node_create os T w;
     T \<leftarrow> st_place T cnode new;
     T \<leftarrow> st T new (\<lambda>n. n\<lparr>parent := par\<rparr>);
     T \<leftarrow> st T new (\<lambda>n. n\<lparr>subtreeWeight := weight\<rparr>);
     T \<leftarrow> st T new (\<lambda>n. n\<lparr>ownWeight := weight\<rparr>);
     T \<leftarrow> st T new (\<lambda>n. n\<lparr>data := Some d\<rparr>);
     T \<leftarrow> balance_upwards T new;
     Some (T\<lparr>tree_size := tree_size T + 1\<rparr>) }"

partial_function (option) go_leftmost :: "'d wre_tree \<Rightarrow> ptr \<Rightarrow> ptr option" where
  "go_leftmost T t = do {
     n \<leftarrow> ld T t;
     (if left n \<noteq> NULL then go_leftmost T (left n) else Some t) }"

partial_function (option) go_rightmost :: "'d wre_tree \<Rightarrow> ptr \<Rightarrow> ptr option" where
  "go_rightmost T t = do {
     n \<leftarrow> ld T t;
     (if right n \<noteq> NULL then go_rightmost T (right n) else Some t) }"

text \<open>
  \<open>wre_remove\<close> in its three phases: choosing the node that takes the place of \<open>cnode\<close> and
  the node from which to rebalance, putting the former in place, and rebalancing.
\<close>

definition remove_leaf :: "'d wre_tree \<Rightarrow> ptr \<Rightarrow> ('d wre_tree \<times> ptr \<times> ptr) option" where
  "remove_leaf T cnode = do {
     cn \<leftarrow> ld T cnode;
     (case which cn of
        LEFT_NODE \<Rightarrow> do {
          pn \<leftarrow> ld T (parent cn);
          let balanced_node = (if right pn \<noteq> NULL then right pn else parent cn);
          T \<leftarrow> st T (parent cn) (\<lambda>n. n\<lparr>left := NULL\<rparr>);
          Some (T, NULL, balanced_node) }
      | RIGHT_NODE \<Rightarrow> do {
          pn \<leftarrow> ld T (parent cn);
          let balanced_node = (if left pn \<noteq> NULL then left pn else parent cn);
          T \<leftarrow> st T (parent cn) (\<lambda>n. n\<lparr>right := NULL\<rparr>);
          Some (T, NULL, balanced_node) }
      | ROOT_NODE \<Rightarrow> Some (if right cn = NULL then T\<lparr>rootNode := NULL\<rparr> else T, NULL, NULL)) }"

definition remove_inner :: "'d wre_tree \<Rightarrow> ptr \<Rightarrow> ('d wre_tree \<times> ptr \<times> ptr) option" where
  "remove_inner T cnode = do {
     cn \<leftarrow> ld T cnode;
     replacer \<leftarrow> go_leftmost T (right cn);
     rn \<leftarrow> ld T replacer;
     T \<leftarrow> (case which rn of
        LEFT_NODE \<Rightarrow> st T (parent rn) (\<lambda>n. n\<lparr>left := right rn\<rparr>)
      | RIGHT_NODE \<Rightarrow> do {
          T \<leftarrow> st T (parent rn) (\<lambda>n. n\<lparr>right := right rn\<rparr>);
          rn \<leftarrow> ld T replacer;
          st T cnode (\<lambda>n. n\<lparr>right := right rn\<rparr>) }
      | ROOT_NODE \<Rightarrow> None);
     rn \<leftarrow> ld T replacer;
     T \<leftarrow> st_if T (right rn) (\<lambda>n. n\<lparr>parent := parent rn\<rparr>);
     T \<leftarrow> st_if T (right rn) (\<lambda>n. n\<lparr>which := which rn\<rparr>);
     balanced_node \<leftarrow> (if right rn \<noteq> NULL then Some (right rn) else do {
        pn \<leftarrow> ld T (parent rn);
        Some (if right pn \<noteq> NULL then right pn
              else if left pn \<noteq> NULL then left pn else parent rn) });
     Some (T, replacer, balanced_node) }"

definition remove_detach :: "'d wre_tree \<Rightarrow> ptr \<Rightarrow> ('d wre_tree \<times> ptr \<times> ptr) option" where
  "remove_detach T cnode = do {
     cn \<leftarrow> ld T cnode;
     (if left cn = NULL then
        if right cn \<noteq> NULL then do {
          T \<leftarrow> st T cnode (\<lambda>n. n\<lparr>right := NULL\<rparr>);
          Some (T, right cn, right cn) }
        else remove_leaf T cnode
      else if right cn = NULL then
        if left cn \<noteq> NULL then do {
          T \<leftarrow> st T cnode (\<lambda>n. n\<lparr>left := NULL\<rparr>);
          Some (T, left cn, left cn) }
        else None
      else remove_inner T cnode) }"

definition remove_attach :: "'d wre_tree \<Rightarrow> ptr \<Rightarrow> ptr \<Rightarrow> 'd wre_tree option" where
  "remove_attach T cnode replacer = (if replacer = NULL then Some T else do {
     cn \<leftarrow> ld T cnode;
     T \<leftarrow> st T replacer (\<lambda>n. n\<lparr>parent := parent cn\<rparr>);
     T \<leftarrow> st T replacer (\<lambda>n. n\<lparr>which := which cn\<rparr>);
     T \<leftarrow> st T replacer (\<lambda>n. n\<lparr>right := right cn\<rparr>);
     T \<leftarrow> st_if T (right cn) (\<lambda>n. n\<lparr>parent := replacer\<rparr>);
     T \<leftarrow> st T replacer (\<lambda>n. n\<lparr>left := left cn\<rparr>);
     T \<leftarrow> st_if T (left cn) (\<lambda>n. n\<lparr>parent := replacer\<rparr>);
     (case which cn of
        LEFT_NODE \<Rightarrow> st T (parent cn) (\<lambda>n. n\<lparr>left := replacer\<rparr>)
      | RIGHT_NODE \<Rightarrow> st T (parent cn) (\<lambda>n. n\<lparr>right := replacer\<rparr>)
      | ROOT_NODE \<Rightarrow> Some (T\<lparr>rootNode := replacer\<rparr>)) })"

definition remove_rebalance :: "'d wre_tree \<Rightarrow> ptr \<Rightarrow> ptr \<Rightarrow> 'd wre_tree option" where
  "remove_rebalance T replacer balanced_node =
     (if balanced_node \<noteq> NULL then do {
        T \<leftarrow> update_node_subtree_metadata T balanced_node;
        balance_upwards T balanced_node }
      else if replacer \<noteq> NULL then do {
        rn \<leftarrow> ld T replacer;
        T \<leftarrow> (if left rn \<noteq> NULL then do {
            T \<leftarrow> update_node_subtree_metadata T (left rn);
            balance_upwards T balanced_node }
          else Some T);
        update_node_subtree_metadata T replacer }
      else Some T)"

definition wre_remove :: "'d wre_tree \<Rightarrow> 'd \<Rightarrow> ('d option \<times> 'd wre_tree) option" where
  "wre_remove T d = do {
     cnode \<leftarrow> find_node T d;
     (if cnode = NULL then Some (None, T) else do {
        cn \<leftarrow> ld T cnode;
        let ret_data = data cn;
        (T, replacer, balanced_node) \<leftarrow> remove_detach T cnode;
        T \<leftarrow> remove_attach T cnode replacer;
        T \<leftarrow> remove_rebalance T replacer balanced_node;
        T \<leftarrow> node_destroy T cnode;
        Some (ret_data, T\<lparr>tree_size := tree_size T - 1\<rparr>) }) }"

definition wre_find :: "'d wre_tree \<Rightarrow> 'd \<Rightarrow> 'd option option" where
  "wre_find T d = do {
     cnode \<leftarrow> find_node T d;
     (if cnode = NULL then Some None else map_option data (ld T cnode)) }"


section \<open>Whole-tree operations\<close>

text \<open>
  \<open>wre_create\<close>.  \<open>mem\<close> is what \<open>jemk_malloc\<close> returned and \<open>junk\<close> the content of the
  member \<open>size\<close> in that memory, which the function does not initialise; \<open>nodeAlloc\<close> is
  at offset 8 of \<open>wre_tree_t\<close>, and \<open>sizeof(wre_node_t)\<close> is 64.
\<close>

definition wre_create ::
  "os \<Rightarrow> int \<Rightarrow> ptr \<Rightarrow> size_t \<Rightarrow> ('d \<Rightarrow> 'd \<Rightarrow> bool) \<Rightarrow> 'd wre_tree option" where
  "wre_create os r mem junk compare = do {
     self \<leftarrow> mem;
     (ret, al) \<leftarrow> slab_alloc_init os r (self + 8) 64 0;
     c_assert (ret = 0);
     Some \<lparr>rootNode = NULL, nodes = Map.empty, nodeAlloc = al, tree_size = junk,
           is_lower_check = compare\<rparr> }"

definition wre_destroy :: "int \<Rightarrow> int \<Rightarrow> int \<Rightarrow> 'd wre_tree \<Rightarrow> unit option" where
  "wre_destroy r r1 r2 T = slab_alloc_destroy r r1 r2 (nodeAlloc T)"

partial_function (option) wre_calculate_subtree_size :: "'d wre_tree \<Rightarrow> ptr \<Rightarrow> size_t option" where
  "wre_calculate_subtree_size T node = (if node = NULL then Some 0 else do {
     n \<leftarrow> ld T node;
     lw \<leftarrow> wre_calculate_subtree_size T (left n);
     rw \<leftarrow> wre_calculate_subtree_size T (right n);
     let ret = 0 + lw + rw + ownWeight n;
     c_assert (ret = subtreeWeight n);
     max_subheight_left \<leftarrow> (if left n \<noteq> NULL then do {
         m \<leftarrow> ld T (left n);
         c_assert (which m = LEFT_NODE);
         c_assert (parent m = node);
         Some (sint (ucast (height m + 1) :: 32 word)) } else Some 0);
     max_subheight_right \<leftarrow> (if right n \<noteq> NULL then do {
         m \<leftarrow> ld T (right n);
         c_assert (which m = RIGHT_NODE);
         c_assert (parent m = node);
         Some (sint (ucast (height m + 1) :: 32 word)) } else Some 0);
     let max_subheight = (of_int (max max_subheight_left max_subheight_right) :: size_t);
     c_assert (max_subheight = height n);
     c_assert (\<bar>max_subheight_left - max_subheight_right\<bar> < 2);
     Some ret })"

definition wre_calculate_total_size :: "'d wre_tree \<Rightarrow> size_t option" where
  "wre_calculate_total_size T = wre_calculate_subtree_size T (rootNode T)"

text \<open>
  \<open>copy_recursive\<close> and \<open>wre_clone\<close>: \<open>D\<close> is the tree under construction, \<open>S\<close> the source.
  A struct assignment copies the child pointers of the source node as well; the recursion
  replaces those that are not \<open>NULL\<close>.
\<close>

partial_function (option) copy_recursive ::
  "os \<Rightarrow> 'd wre_tree \<Rightarrow> ptr \<Rightarrow> 'd wre_tree \<Rightarrow> ptr \<Rightarrow> 'd wre_tree option" where
  "copy_recursive os D dest S src = do {
     sn \<leftarrow> ld S src;
     D \<leftarrow> (if right sn \<noteq> NULL then do {
         (p, D) \<leftarrow> node_create os D RIGHT_NODE;
         D \<leftarrow> st D dest (\<lambda>n. n\<lparr>right := p\<rparr>);
         rn \<leftarrow> ld S (right sn);
         D \<leftarrow> st D p (\<lambda>_. rn);
         D \<leftarrow> st D p (\<lambda>n. n\<lparr>parent := dest\<rparr>);
         copy_recursive os D p S (right sn) } else Some D);
     (if left sn \<noteq> NULL then do {
         (p, D) \<leftarrow> node_create os D RIGHT_NODE;
         D \<leftarrow> st D dest (\<lambda>n. n\<lparr>left := p\<rparr>);
         ln \<leftarrow> ld S (left sn);
         D \<leftarrow> st D p (\<lambda>_. ln);
         D \<leftarrow> st D p (\<lambda>n. n\<lparr>parent := dest\<rparr>);
         copy_recursive os D p S (left sn) } else Some D) }"

definition wre_clone ::
  "os \<Rightarrow> int \<Rightarrow> ptr \<Rightarrow> size_t \<Rightarrow> 'd wre_tree \<Rightarrow> 'd wre_tree option" where
  "wre_clone os r mem junk S = do {
     D \<leftarrow> wre_create os r mem junk (is_lower_check S);
     (if rootNode S \<noteq> NULL then do {
         (p, D) \<leftarrow> node_create os D ROOT_NODE;
         let D = D\<lparr>rootNode := p\<rparr>;
         sn \<leftarrow> ld S (rootNode S);
         D \<leftarrow> st D p (\<lambda>_. sn);
         copy_recursive os D p S (rootNode S) }
      else Some D) }"

section \<open>Search by weight\<close>

text \<open>
  The ratios are doubles in the source and exact reals here.  The descent compares quotients of
  weights, so in the program a ratio within rounding distance of the boundary between two
  entries may be sent to either of them, and may give a percentage of exactly 1 where the
  exact one is just below it.
\<close>

partial_function (option) wre_find_weighted_nodes_loop ::
  "'d wre_tree \<Rightarrow> double \<Rightarrow> double \<Rightarrow> ptr \<Rightarrow> ptr \<Rightarrow> (ptr \<times> double) option" where
  "wre_find_weighted_nodes_loop T ratio from_left_percentage best_node cnode =
     (if cnode = NULL then Some (best_node, from_left_percentage) else do {
        n \<leftarrow> ld T cnode;
        (if subtreeWeight n = 0 then
           wre_find_weighted_nodes_loop T ratio from_left_percentage best_node (right n)
         else do {
           left_weight \<leftarrow> child_weight T (left n);
           let left_plus_own_weight = left_weight + ownWeight n;
           let nratio_left = real (unat left_weight) / real (unat (subtreeWeight n));
           let nratio_right = real (unat left_plus_own_weight) / real (unat (subtreeWeight n));
           (if dlt ratio nratio_left then
              wre_find_weighted_nodes_loop T (dop (/) ratio (Some nratio_left)) from_left_percentage cnode (left n)
            else if dgt ratio nratio_right then
              wre_find_weighted_nodes_loop T
                (dop (/) (dop (-) ratio (Some nratio_right)) (Some (1 - nratio_right)))
                from_left_percentage cnode (right n)
            else
              (let from_left = dop (-) ratio (Some nratio_left); width = nratio_right - nratio_left in
               Some (cnode, if width = 0 then None else dop (/) from_left (Some width)))) }) })"

definition wre_find_weighted_nodes_internal ::
  "'d wre_tree \<Rightarrow> double \<Rightarrow> double \<Rightarrow> (ptr \<times> double) option" where
  "wre_find_weighted_nodes_internal T ratio from_left_percentage =
     wre_find_weighted_nodes_loop T ratio from_left_percentage (rootNode T) (rootNode T)"

definition wre_find_weighted :: "'d wre_tree \<Rightarrow> double \<Rightarrow> 'd option option" where
  "wre_find_weighted T ratio = do {
     (best_node, _) \<leftarrow> wre_find_weighted_nodes_internal T ratio (Some 0);
     (if best_node = NULL then Some None else map_option data (ld T best_node)) }"

text \<open>The two loops that climb from \<open>t\<close> in \<open>wre_find_node_right\<close> and \<open>wre_find_node_left\<close>.\<close>

partial_function (option) climb_right :: "'d wre_tree \<Rightarrow> ptr \<Rightarrow> ptr option" where
  "climb_right T t = do {
     n \<leftarrow> ld T t;
     go \<leftarrow> (case which n of
        RIGHT_NODE \<Rightarrow> Some True
      | LEFT_NODE \<Rightarrow> map_option (\<lambda>pn. right pn = NULL) (ld T (parent n))
      | ROOT_NODE \<Rightarrow> Some False);
     (if go then climb_right T (parent n) else Some t) }"

partial_function (option) climb_left :: "'d wre_tree \<Rightarrow> ptr \<Rightarrow> ptr option" where
  "climb_left T t = do {
     n \<leftarrow> ld T t;
     go \<leftarrow> (case which n of
        LEFT_NODE \<Rightarrow> Some True
      | RIGHT_NODE \<Rightarrow> map_option (\<lambda>pn. left pn = NULL) (ld T (parent n))
      | ROOT_NODE \<Rightarrow> Some False);
     (if go then climb_left T (parent n) else Some t) }"

definition wre_find_node_right :: "'d wre_tree \<Rightarrow> ptr \<Rightarrow> ptr option" where
  "wre_find_node_right T node = do {
     n \<leftarrow> ld T node;
     (if right n \<noteq> NULL then go_leftmost T (right n)
      else do {
        t \<leftarrow> climb_right T node;
        tn \<leftarrow> ld T t;
        (case which tn of
           LEFT_NODE \<Rightarrow> do {
             c_assert (parent tn \<noteq> NULL);
             pn \<leftarrow> ld T (parent tn);
             c_assert (right pn \<noteq> NULL);
             go_leftmost T (right pn) }
         | RIGHT_NODE \<Rightarrow> None
         | ROOT_NODE \<Rightarrow> Some NULL) }) }"

definition wre_find_node_left :: "'d wre_tree \<Rightarrow> ptr \<Rightarrow> ptr option" where
  "wre_find_node_left T node = do {
     n \<leftarrow> ld T node;
     (if left n \<noteq> NULL then go_rightmost T (left n)
      else do {
        t \<leftarrow> climb_left T node;
        tn \<leftarrow> ld T t;
        (case which tn of
           RIGHT_NODE \<Rightarrow> do {
             c_assert (parent tn \<noteq> NULL);
             pn \<leftarrow> ld T (parent tn);
             c_assert (left pn \<noteq> NULL);
             go_rightmost T (left pn) }
         | LEFT_NODE \<Rightarrow> None
         | ROOT_NODE \<Rightarrow> Some NULL) }) }"

record 'd wre_interpolated_result =
  ir_left :: "'d option"
  ir_right :: "'d option"
  percentage :: double
  fallbackRequired :: bool

definition data_of :: "'d wre_tree \<Rightarrow> ptr \<Rightarrow> 'd option option" where
  "data_of T p = map_option data (ld T p)"

definition wre_find_weighted_interpolated ::
  "'d wre_tree \<Rightarrow> double \<Rightarrow> 'd wre_interpolated_result option" where
  "wre_find_weighted_interpolated T ratio = do {
     let ret = \<lparr>ir_left = None, ir_right = None, percentage = Some 0, fallbackRequired = False\<rparr>;
     (best_node, from_left_percentage) \<leftarrow> wre_find_weighted_nodes_internal T ratio (Some 0);
     (if best_node = NULL then Some ret else do {
        right_node \<leftarrow> wre_find_node_right T best_node;
        best \<leftarrow> data_of T best_node;
        (if dlt from_left_percentage 1 then
           (if right_node \<noteq> NULL then do {
              rd \<leftarrow> data_of T right_node;
              Some (ret\<lparr>ir_left := best, ir_right := rd, percentage := from_left_percentage\<rparr>) }
            else Some (ret\<lparr>ir_left := best, fallbackRequired := True,
                           percentage := from_left_percentage\<rparr>))
         else do {
           c_assert (right_node = NULL);
           left_node \<leftarrow> wre_find_node_left T best_node;
           (if left_node \<noteq> NULL then do {
              ldt \<leftarrow> data_of T left_node;
              Some (ret\<lparr>ir_left := best, ir_right := ldt,
                        percentage := map_option (\<lambda>p. 1 - p) from_left_percentage\<rparr>) }
            else Some (ret\<lparr>ir_left := best, percentage := from_left_percentage\<rparr>)) }) }) }"

end
