(* ===== verification/Wre_Avl_Refine.thy ===== *)
theory Wre_Avl_Refine
  imports Wre_Avl_Tree
begin

text \<open>
  The pointer program of \<open>Wre_Avl_Tree\<close> implements the functions of \<open>Avl_Zipper\<close>.
  \<open>zrep T t c\<close> says that in the state \<open>T\<close> the nodes form the subtree \<open>t\<close> below the path
  \<open>c\<close>, all links, parent links and \<open>which\<close> tags included, no node occurring twice.
\<close>

primrec ptr_of :: "'d atree \<Rightarrow> ptr" where
  "ptr_of Nil = NULL"
| "ptr_of (Nd a l d ow sw ht r) = Some a"

primrec rep :: "(addr \<rightharpoonup> 'd wre_node) \<Rightarrow> ptr \<Rightarrow> which_node_e \<Rightarrow> 'd atree \<Rightarrow> bool" where
  "rep h par w Nil \<longleftrightarrow> True"
| "rep h par w (Nd a l d ow sw ht r) \<longleftrightarrow>
     h a = Some \<lparr>subtreeWeight = sw, ownWeight = ow, height = ht, left = ptr_of l,
       right = ptr_of r, parent = par, which = w, data = Some d\<rparr> \<and>
     rep h (Some a) LEFT_NODE l \<and> rep h (Some a) RIGHT_NODE r"

fun ctx_parent :: "'d frame list \<Rightarrow> ptr" where
  "ctx_parent [] = NULL"
| "ctx_parent (FL a d ow sw ht r # c) = Some a"
| "ctx_parent (FR a l d ow sw ht # c) = Some a"

fun ctx_which :: "'d frame list \<Rightarrow> which_node_e" where
  "ctx_which [] = ROOT_NODE"
| "ctx_which (FL a d ow sw ht r # c) = LEFT_NODE"
| "ctx_which (FR a l d ow sw ht # c) = RIGHT_NODE"

fun rep_ctx :: "(addr \<rightharpoonup> 'd wre_node) \<Rightarrow> ptr \<Rightarrow> ptr \<Rightarrow> 'd frame list \<Rightarrow> bool" where
  "rep_ctx h rt p [] \<longleftrightarrow> rt = p"
| "rep_ctx h rt p (FL a d ow sw ht r # c) \<longleftrightarrow>
     h a = Some \<lparr>subtreeWeight = sw, ownWeight = ow, height = ht, left = p,
       right = ptr_of r, parent = ctx_parent c, which = ctx_which c, data = Some d\<rparr> \<and>
     rep h (Some a) RIGHT_NODE r \<and> rep_ctx h rt (Some a) c"
| "rep_ctx h rt p (FR a l d ow sw ht # c) \<longleftrightarrow>
     h a = Some \<lparr>subtreeWeight = sw, ownWeight = ow, height = ht, left = ptr_of l,
       right = p, parent = ctx_parent c, which = ctx_which c, data = Some d\<rparr> \<and>
     rep h (Some a) LEFT_NODE l \<and> rep_ctx h rt (Some a) c"

fun caddrs :: "'d frame list \<Rightarrow> addr list" where
  "caddrs [] = []"
| "caddrs (FL a d ow sw ht r # c) = a # addrs r @ caddrs c"
| "caddrs (FR a l d ow sw ht # c) = a # addrs l @ caddrs c"

definition zrep :: "'d wre_tree \<Rightarrow> 'd atree \<Rightarrow> 'd frame list \<Rightarrow> bool" where
  "zrep T t c \<longleftrightarrow> rep (nodes T) (ctx_parent c) (ctx_which c) t \<and>
     rep_ctx (nodes T) (rootNode T) (ptr_of t) c \<and> distinct (addrs t @ caddrs c)"

text \<open>The parts of the state that restructuring leaves alone.\<close>

definition same :: "'d wre_tree \<Rightarrow> 'd wre_tree \<Rightarrow> bool" where
  "same T T' \<longleftrightarrow> nodeAlloc T' = nodeAlloc T \<and> tree_size T' = tree_size T \<and>
     is_lower_check T' = is_lower_check T \<and> dom (nodes T') = dom (nodes T)"

lemma same_refl [simp]: "same T T"
  by (simp add: same_def)

lemma same_trans: "same T T' \<Longrightarrow> same T' T'' \<Longrightarrow> same T T''"
  by (simp add: same_def)

lemma rep_upd [simp]: "a \<notin> set (addrs t) \<Longrightarrow> rep (h(a := v)) par w t = rep h par w t"
  by (induction t arbitrary: par w) auto

lemma rep_ctx_upd [simp]:
  "a \<notin> set (caddrs c) \<Longrightarrow> rep_ctx (h(a := v)) rt p c = rep_ctx h rt p c"
  by (induction h rt p c rule: rep_ctx.induct) auto

lemma zrep_left: "zrep T (Nd a l d ow sw ht r) c \<longleftrightarrow> zrep T l (FL a d ow sw ht r # c)"
  by (auto simp: zrep_def)

lemma zrep_right: "zrep T (Nd a l d ow sw ht r) c \<longleftrightarrow> zrep T r (FR a l d ow sw ht # c)"
  by (auto simp: zrep_def)

lemma zrep_fill: "zrep T t (f # c) \<longleftrightarrow> zrep T (fill f t) c"
  by (cases f) (simp_all add: zrep_left [symmetric] zrep_right [symmetric])

lemma zrep_plug: "zrep T t c \<longleftrightarrow> zrep T (plug t c) []"
  by (induction c arbitrary: t) (simp_all add: zrep_fill)

lemma zrep_ld:
  "zrep T (Nd a l d ow sw ht r) c \<Longrightarrow> ld T (Some a) =
     Some \<lparr>subtreeWeight = sw, ownWeight = ow, height = ht, left = ptr_of l, right = ptr_of r,
       parent = ctx_parent c, which = ctx_which c, data = Some d\<rparr>"
  by (simp add: zrep_def ld_def)

lemma rep_child_depth: "rep (nodes T) par w t \<Longrightarrow> child_depth T (ptr_of t) = Some (hlen t)"
  by (cases t) (simp_all add: child_depth_def ld_def)

lemma rep_child_weight: "rep (nodes T) par w t \<Longrightarrow> child_weight T (ptr_of t) = Some (wsub t)"
  by (cases t) (simp_all add: child_weight_def ld_def)

lemma zrep_depths:
  assumes "zrep T (Nd a l d ow sw ht r) c"
  shows "child_depth T (ptr_of l) = Some (hlen l)" "child_depth T (ptr_of r) = Some (hlen r)"
    "child_weight T (ptr_of l) = Some (wsub l)" "child_weight T (ptr_of r) = Some (wsub r)"
  using assms by (auto simp: zrep_def intro: rep_child_depth rep_child_weight)

lemma update_metadata_run:
  assumes z: "zrep T (Nd a l d ow sw ht r) c"
  shows "\<exists>T'. update_node_subtree_metadata T (Some a) = Some T' \<and> zrep T' (mk a l d ow r) c \<and>
    same T T'"
proof -
  define T1 where "T1 = T\<lparr>nodes := (nodes T)(a \<mapsto> \<lparr>subtreeWeight = sw, ownWeight = ow,
     height = max (hlen l) (hlen r), left = ptr_of l, right = ptr_of r, parent = ctx_parent c,
     which = ctx_which c, data = Some d\<rparr>)\<rparr>"
  have na: "nodes T a = Some \<lparr>subtreeWeight = sw, ownWeight = ow, height = ht, left = ptr_of l,
      right = ptr_of r, parent = ctx_parent c, which = ctx_which c, data = Some d\<rparr>"
    using z by (simp add: zrep_def)
  have z1: "zrep T1 (Nd a l d ow sw (max (hlen l) (hlen r)) r) c"
    using z by (simp add: zrep_def T1_def)
  have "update_node_subtree_metadata T (Some a) = Some (T1\<lparr>nodes := (nodes T1)(a \<mapsto>
      \<lparr>subtreeWeight = wsub l + wsub r + ow, ownWeight = ow,
     height = max (hlen l) (hlen r), left = ptr_of l, right = ptr_of r, parent = ctx_parent c,
     which = ctx_which c, data = Some d\<rparr>)\<rparr>)" (is "_ = Some ?T2")
    using zrep_depths [OF z] zrep_depths [OF z1] na
    by (simp add: update_node_subtree_metadata_def ld_def st_def T1_def)
  moreover have "zrep ?T2 (mk a l d ow r) c"
    using z1 by (simp add: zrep_def mk_def)
  moreover have "same T ?T2" using na by (auto simp: same_def T1_def)
  ultimately show ?thesis by blast
qed

text \<open>Recomputing correct cached values changes nothing.\<close>

lemma update_metadata_idem:
  assumes z: "zrep T (Nd a l d ow sw ht r) c" and eq: "Nd a l d ow sw ht r = mk a l d ow r"
  shows "update_node_subtree_metadata T (Some a) = Some T"
proof -
  have na: "nodes T a = Some \<lparr>subtreeWeight = sw, ownWeight = ow, height = ht, left = ptr_of l,
      right = ptr_of r, parent = ctx_parent c, which = ctx_which c, data = Some d\<rparr>"
    using z by (simp add: zrep_def)
  have T: "T\<lparr>nodes := nodes T\<rparr> = T" by simp
  show ?thesis using zrep_depths [OF z] na eq
    by (simp add: update_node_subtree_metadata_def ld_def st_def mk_def fun_upd_idem)
qed


section \<open>Rotations\<close>

lemmas links_run = get_root_placeholder_def ld_def st_def st_if_def st_place_def Let_def

text \<open>The stores of a rotation up to the recomputation of the cached values.\<close>

lemma rotate_left_links:
  assumes z: "zrep T (Nd x y dx ox sx hx (Nd z t dz oz sz hz u)) c"
  shows "\<exists>T'. rotate_left T (Some x) = do {
        T \<leftarrow> update_node_subtree_metadata T' (Some x);
        update_node_subtree_metadata T (Some z) } \<and>
      zrep T' (Nd z (Nd x y dx ox sx hx t) dz oz sz hz u) c \<and> same T T'"
proof (cases t)
  case Nil
  show ?thesis unfolding Nil
    by (insert z [unfolded Nil], cases c rule: ctx_which.cases; clarsimp simp: zrep_def rotate_left_def links_run;
        (rule exI, rule conjI, rule refl, auto simp: same_def))
next
  case (Nd a l d ow sw ht r)
  show ?thesis unfolding Nd
    by (insert z [unfolded Nd], cases c rule: ctx_which.cases; clarsimp simp: zrep_def rotate_left_def links_run;
        (rule exI, rule conjI, rule refl, auto simp: same_def))
qed

lemma rotate_right_links:
  assumes z: "zrep T (Nd x (Nd y u dy oy sy hy t) dx ox sx hx z) c"
  shows "\<exists>T'. rotate_right T (Some x) = do {
        T \<leftarrow> update_node_subtree_metadata T' (Some x);
        update_node_subtree_metadata T (Some y) } \<and>
      zrep T' (Nd y u dy oy sy hy (Nd x t dx ox sx hx z)) c \<and> same T T'"
proof (cases t)
  case Nil
  show ?thesis unfolding Nil
    by (insert z [unfolded Nil], cases c rule: ctx_which.cases; clarsimp simp: zrep_def rotate_right_def links_run;
        (rule exI, rule conjI, rule refl, auto simp: same_def))
next
  case (Nd a l d ow sw ht r)
  show ?thesis unfolding Nd
    by (insert z [unfolded Nd], cases c rule: ctx_which.cases; clarsimp simp: zrep_def rotate_right_def links_run;
        (rule exI, rule conjI, rule refl, auto simp: same_def))
qed

lemma rotate_left_run:
  assumes z: "zrep T t c" and t: "rotl t = Some t'"
  shows "\<exists>T'. rotate_left T (ptr_of t) = Some T' \<and> zrep T' t' c \<and> same T T'"
  using t
proof (cases t rule: rotl.cases)
  case (1 x y dx ox sx hx z v dz oz sz hz u)
  from rotate_left_links [OF assms(1) [unfolded 1]] obtain T1
    where T1: "rotate_left T (Some x) = do {
        T \<leftarrow> update_node_subtree_metadata T1 (Some x);
        update_node_subtree_metadata T (Some z) }"
      "zrep T1 (Nd x y dx ox sx hx v) (FL z dz oz sz hz u # c)" "same T T1"
    by (auto simp: zrep_left)
  from update_metadata_run [OF T1(2)] obtain T2
    where T2: "update_node_subtree_metadata T1 (Some x) = Some T2" "same T1 T2"
      "zrep T2 (Nd z (mk x y dx ox v) dz oz sz hz u) c"
    by (auto simp: zrep_left)
  from update_metadata_run [OF T2(3)] obtain T3
    where "update_node_subtree_metadata T2 (Some z) = Some T3" "same T2 T3"
      "zrep T3 (mk z (mk x y dx ox v) dz oz u) c"
    by auto
  with T1 T2 t show ?thesis by (auto simp: 1 intro: same_trans)
qed auto

lemma rotate_right_run:
  assumes z: "zrep T t c" and t: "rotr t = Some t'"
  shows "\<exists>T'. rotate_right T (ptr_of t) = Some T' \<and> zrep T' t' c \<and> same T T'"
  using t
proof (cases t rule: rotr.cases)
  case (1 x y u dy oy sy hy v dx ox sx hx z)
  from rotate_right_links [OF assms(1) [unfolded 1]] obtain T1
    where T1: "rotate_right T (Some x) = do {
        T \<leftarrow> update_node_subtree_metadata T1 (Some x);
        update_node_subtree_metadata T (Some y) }"
      "zrep T1 (Nd x v dx ox sx hx z) (FR y u dy oy sy hy # c)" "same T T1"
    by (auto simp: zrep_right)
  from update_metadata_run [OF T1(2)] obtain T2
    where T2: "update_node_subtree_metadata T1 (Some x) = Some T2" "same T1 T2"
      "zrep T2 (Nd y u dy oy sy hy (mk x v dx ox z)) c"
    by (auto simp: zrep_right)
  from update_metadata_run [OF T2(3)] obtain T3
    where "update_node_subtree_metadata T2 (Some y) = Some T3" "same T2 T3"
      "zrep T3 (mk y u dy oy (mk x v dx ox z)) c"
    by auto
  with T1 T2 t show ?thesis by (auto simp: 1 intro: same_trans)
qed auto


lemma fix_rotate_left_run:
  assumes z: "zrep T t c" and t: "fix_rotl t = Some t'"
  shows "\<exists>T'. fix_rotate_left T (ptr_of t) = Some T' \<and> zrep T' t' c \<and> same T T'"
  using t
proof (cases t rule: fix_rotl.cases)
  case (1 x l d ow sw ht z rl dz oz sz hz rr)
  let ?r = "Nd z rl dz oz sz hz rr" and ?c = "FR x l d ow sw ht # c"
  from assms(1) have zr: "zrep T ?r ?c" by (simp add: 1 zrep_right)
  from t obtain r' where sk: "skew rl rr \<ge> -1"
    and r': "(if skew rl rr < 0 then rotr ?r else Some ?r) = Some r'"
    and t': "rotl (Nd x l d ow sw ht r') = Some t'"
    by (auto simp: 1 bind_eq_Some_conv)
  have "\<exists>T1. (if skew rl rr < 0 then rotate_right T (ptr_of ?r) else Some T) = Some T1 \<and>
      zrep T1 r' ?c \<and> same T T1"
    using r' zr rotate_right_run [OF zr] by (auto split: if_splits)
  then obtain T1 where T1: "(if skew rl rr < 0 then rotate_right T (ptr_of ?r) else Some T) = Some T1"
    "zrep T1 r' ?c" "same T T1" by blast
  from rotate_left_run [OF T1(2) [folded zrep_right] t'] obtain T2
    where "rotate_left T1 (Some x) = Some T2" "zrep T2 t' c" "same T1 T2" by auto
  moreover from this T1 have "fix_rotate_left T (Some x) = Some T2"
    using zrep_ld [OF assms(1) [unfolded 1]] zrep_ld [OF zr] zrep_depths [OF zr] sk
    by (auto simp: fix_rotate_left_def Let_def skew_def split: if_splits)
  ultimately show ?thesis using T1(3) by (auto simp: 1 intro: same_trans)
qed auto

lemma fix_rotate_right_run:
  assumes z: "zrep T t c" and t: "fix_rotr t = Some t'"
  shows "\<exists>T'. fix_rotate_right T (ptr_of t) = Some T' \<and> zrep T' t' c \<and> same T T'"
  using t
proof (cases t rule: fix_rotr.cases)
  case (1 x y ll dy oy sy hy lr d ow sw ht r)
  let ?l = "Nd y ll dy oy sy hy lr" and ?c = "FL x d ow sw ht r # c"
  from assms(1) have zl: "zrep T ?l ?c" by (simp add: 1 zrep_left)
  from t obtain l' where sk: "skew ll lr \<le> 1"
    and l': "(if skew ll lr > 0 then rotl ?l else Some ?l) = Some l'"
    and t': "rotr (Nd x l' d ow sw ht r) = Some t'"
    by (auto simp: 1 bind_eq_Some_conv)
  have "\<exists>T1. (if skew ll lr > 0 then rotate_left T (ptr_of ?l) else Some T) = Some T1 \<and>
      zrep T1 l' ?c \<and> same T T1"
    using l' zl rotate_left_run [OF zl] by (auto split: if_splits)
  then obtain T1 where T1: "(if skew ll lr > 0 then rotate_left T (ptr_of ?l) else Some T) = Some T1"
    "zrep T1 l' ?c" "same T T1" by blast
  from rotate_right_run [OF T1(2) [folded zrep_left] t'] obtain T2
    where "rotate_right T1 (Some x) = Some T2" "zrep T2 t' c" "same T1 T2" by auto
  moreover from this T1 have "fix_rotate_right T (Some x) = Some T2"
    using zrep_ld [OF assms(1) [unfolded 1]] zrep_ld [OF zl] zrep_depths [OF zl] sk
    by (auto simp: fix_rotate_right_def Let_def skew_def split: if_splits)
  ultimately show ?thesis using T1(3) by (auto simp: 1 intro: same_trans)
qed auto

section \<open>The rebalancing loop\<close>

lemma balance_node_run:
  assumes z: "zrep T t c" and t: "bal t = Some t'"
  shows "\<exists>T'. balance_node T (ptr_of t) = Some T' \<and> zrep T' t' c \<and> same T T'"
proof (cases t)
  case (Nd x l d ow sw ht r)
  note z' = z [unfolded Nd]
  have eq: "balance_node T (ptr_of t) = do {
      c_assert (\<bar>skew l r\<bar> \<le> 3);
      (if skew l r > 1 then fix_rotate_left T (ptr_of t)
       else if skew l r < -1 then fix_rotate_right T (ptr_of t)
       else update_node_subtree_metadata T (ptr_of t)) }"
    using zrep_ld [OF z'] zrep_depths [OF z']
    by (simp add: Nd balance_node_def skew_def Let_def abs_if not_le not_less)
  from t show ?thesis
    using fix_rotate_left_run [OF z, of t'] fix_rotate_right_run [OF z, of t']
      update_metadata_run [OF z']
    unfolding eq by (auto simp: Nd bind_eq_Some_conv split: if_splits)
qed (use t in simp)

text \<open>After a visit the visited node is the root of the rebalanced subtree or a child of it.\<close>

fun near :: "addr \<Rightarrow> 'd atree \<Rightarrow> bool" where
  "near x (Nd a l d ow sw ht r) \<longleftrightarrow> a = x \<or> ptr_of l = Some x \<or> ptr_of r = Some x"
| "near x Nil \<longleftrightarrow> False"

lemma near_rotl: "rotl (Nd x l d ow sw ht r) = Some t \<Longrightarrow> near x t"
  by (cases r) (auto simp: mk_def)

lemma near_rotr: "rotr (Nd x l d ow sw ht r) = Some t \<Longrightarrow> near x t"
  by (cases l) (auto simp: mk_def)

lemma near_bal: "bal (Nd x l d ow sw ht r) = Some t \<Longrightarrow> near x t"
  by (cases l; cases r)
    (auto simp: bind_eq_Some_conv mk_def split: if_splits dest: near_rotl near_rotr)

lemma balance_upwards_near:
  assumes z: "zrep T t c" and s: "settled t" and n: "near x t"
  shows "balance_upwards T (Some x) = balance_upwards T (ptr_of t)"
proof (cases t)
  case (Nd a l d ow sw ht r)
  note z' = z [unfolded Nd]
  have sk: "\<bar>skew l r\<bar> \<le> 1" and eq: "Nd a l d ow sw ht r = mk a l d ow r"
    using s by (simp_all add: Nd)
  have b: "balance_node T (Some a) = Some T"
    using zrep_ld [OF z'] zrep_depths [OF z'] update_metadata_idem [OF z' eq] sk
    by (auto simp: balance_node_def skew_def Let_def)
  have up: "balance_upwards T (Some x) = balance_upwards T (Some a)"
    if "\<exists>n. ld T (Some x) = Some n \<and> parent n = Some a" "x \<noteq> a"
    using that b by (subst balance_upwards.simps) auto
  have l: "\<exists>n. ld T (Some x) = Some n \<and> parent n = Some a" "x \<noteq> a" if "ptr_of l = Some x"
    using z' that by (cases l; auto simp: zrep_def ld_def)+
  have r: "\<exists>n. ld T (Some x) = Some n \<and> parent n = Some a" "x \<noteq> a" if "ptr_of r = Some x"
    using z' that by (cases r; auto simp: zrep_def ld_def)+
  from n show ?thesis using up l r by (auto simp: Nd)
qed (use n in simp)

lemma climb_run:
  assumes "up t (f # c) = Some t'" "zrep T t (f # c)"
  shows "\<exists>T'. do { T1 \<leftarrow> balance_node T (ctx_parent (f # c));
      balance_upwards T1 (ctx_parent (f # c)) } = Some T' \<and> zrep T' t' [] \<and> same T T'"
  using assms
proof (induction c arbitrary: f t T)
  case (Nil f t T)
  obtain x l d ow sw ht r where f: "fill f t = Nd x l d ow sw ht r" "ctx_parent [f] = Some x"
    by (cases f) auto
  from Nil(1) have t': "bal (fill f t) = Some t'" "settled t'" by (auto simp: bind_eq_Some_conv)
  from balance_node_run [OF Nil(2) [unfolded zrep_fill] t'(1)] obtain T1
    where T1: "balance_node T (Some x) = Some T1" "zrep T1 t' []" "same T T1" by (auto simp: f)
  obtain a l d ow sw ht r where t1: "t' = Nd a l d ow sw ht r" using t'(2) by (cases t') auto
  have "balance_upwards T1 (Some x) = balance_upwards T1 (ptr_of t')"
    using T1(2) t'(2) near_bal [OF t'(1) [unfolded f(1)]] by (rule balance_upwards_near)
  also have "\<dots> = Some T1"
    using zrep_ld [OF T1(2) [unfolded t1]] by (subst balance_upwards.simps) (simp add: t1)
  finally show ?case using T1 f by auto
next
  case (Cons g c f t T)
  obtain x l d ow sw ht r where f: "fill f t = Nd x l d ow sw ht r" "ctx_parent (f # g # c) = Some x"
    by (cases f) auto
  from Cons(2) obtain t1 where t1: "bal (fill f t) = Some t1" "settled t1" "up t1 (g # c) = Some t'"
    by (auto simp: bind_eq_Some_conv)
  from balance_node_run [OF zrep_fill [THEN iffD1, OF Cons(3)] t1(1)] obtain T1
    where T1: "balance_node T (Some x) = Some T1" "zrep T1 t1 (g # c)" "same T T1" by (auto simp: f)
  from Cons.IH [OF t1(3) T1(2)] obtain T2
    where T2: "do { T1 \<leftarrow> balance_node T1 (ctx_parent (g # c));
        balance_upwards T1 (ctx_parent (g # c)) } = Some T2" "zrep T2 t' []" "same T1 T2"
    by blast
  obtain a l d ow sw ht r where tt: "t1 = Nd a l d ow sw ht r" using t1(2) by (cases t1) auto
  have ne: "ctx_parent (g # c) \<noteq> NULL" "ctx_parent (g # c) \<noteq> Some a"
    using T1(2) by (cases g; auto simp: zrep_def tt)+
  have "balance_upwards T1 (Some x) = balance_upwards T1 (ptr_of t1)"
    using T1(2) t1(2) near_bal [OF t1(1) [unfolded f(1)]] by (rule balance_upwards_near)
  also have "\<dots> = Some T2"
    using zrep_ld [OF T1(2) [unfolded tt]] T2(1) ne by (subst balance_upwards.simps) (auto simp: tt)
  finally show ?case using T1 T2 f by (auto intro: same_trans)
qed

lemma balance_upwards_run:
  assumes z: "zrep T t c" and t: "t \<noteq> Nil" and u: "up t c = Some t'"
  shows "\<exists>T'. balance_upwards T (ptr_of t) = Some T' \<and> zrep T' t' [] \<and> same T T'"
proof -
  obtain a l d ow sw ht r where tt: "t = Nd a l d ow sw ht r" using t by (cases t) auto
  note n = zrep_ld [OF z [unfolded tt]]
  show ?thesis
  proof (cases c)
    case Nil
    with n z u show ?thesis by (subst balance_upwards.simps) (auto simp: tt)
  next
    case (Cons f c')
    have ne: "ctx_parent c \<noteq> NULL" "ctx_parent c \<noteq> Some a"
      using z by (cases f; auto simp: zrep_def tt Cons)+
    from climb_run [OF u [unfolded Cons] z [unfolded Cons]] n ne show ?thesis
      by (subst balance_upwards.simps) (auto simp: tt Cons)
  qed
qed

end
