(* ===== verification/Avl_Order.thy ===== *)
theory Avl_Order
  imports Avl_Zipper
begin

text \<open>
  Search paths in trees whose in-order sequence is sorted by a strict weak order, the
  contract that \<open>is_lower\<close> of \<open>src/wre_avl_tree.c\<close> has to meet: keys that are not lower
  than each other in either direction count as equal.
\<close>

primrec put_path :: "('d \<Rightarrow> 'd \<Rightarrow> bool) \<Rightarrow> 'd \<Rightarrow> 'd atree \<Rightarrow> 'd frame list \<Rightarrow> 'd frame list" where
  "put_path lower k Nil c = c"
| "put_path lower k (Nd a l d ow sw ht r) c =
     (if lower d k then put_path lower k r (FR a l d ow sw ht # c)
      else put_path lower k l (FL a d ow sw ht r # c))"

primrec find_path ::
  "('d \<Rightarrow> 'd \<Rightarrow> bool) \<Rightarrow> 'd \<Rightarrow> 'd atree \<Rightarrow> 'd frame list \<Rightarrow> 'd atree \<times> 'd frame list" where
  "find_path lower k Nil c = (Nil, c)"
| "find_path lower k (Nd a l d ow sw ht r) c =
     (if lower d k then find_path lower k r (FR a l d ow sw ht # c)
      else if \<not> lower k d then (Nd a l d ow sw ht r, c)
      else find_path lower k l (FL a d ow sw ht r # c))"

primrec min_path :: "'d atree \<Rightarrow> 'd frame list \<Rightarrow> 'd atree \<times> 'd frame list" where
  "min_path Nil c = (Nil, c)"
| "min_path (Nd a l d ow sw ht r) c =
     (if l = Nil then (Nd a l d ow sw ht r, c) else min_path l (FL a d ow sw ht r # c))"

text \<open>The entries before and after the hole of a path.\<close>

fun before :: "'d frame list \<Rightarrow> ('d \<times> size_t) list" where
  "before [] = []"
| "before (FL a d ow sw ht r # c) = before c"
| "before (FR a l d ow sw ht # c) = before c @ inorder l @ [(d, ow)]"

fun after :: "'d frame list \<Rightarrow> ('d \<times> size_t) list" where
  "after [] = []"
| "after (FL a d ow sw ht r # c) = (d, ow) # inorder r @ after c"
| "after (FR a l d ow sw ht # c) = after c"

definition sorted_entries :: "('d \<Rightarrow> 'd \<Rightarrow> bool) \<Rightarrow> ('d \<times> size_t) list \<Rightarrow> bool" where
  "sorted_entries lower es \<longleftrightarrow> sorted_wrt (\<lambda>x y. \<not> lower (fst y) (fst x)) es"

definition put_entry ::
  "('d \<Rightarrow> 'd \<Rightarrow> bool) \<Rightarrow> 'd \<Rightarrow> size_t \<Rightarrow> ('d \<times> size_t) list \<Rightarrow> ('d \<times> size_t) list" where
  "put_entry lower k w es =
     takeWhile (\<lambda>e. lower (fst e) k) es @ (k, w) # dropWhile (\<lambda>e. lower (fst e) k) es"

lemma inorder_plug: "inorder (plug t c) = before c @ inorder t @ after c"
  by (induction c arbitrary: t rule: before.induct) auto

lemma plug_append: "plug t (c @ c') = plug (plug t c) c'"
  by (induction c arbitrary: t) auto

lemma plug_ok:
  "avl (plug t c) \<Longrightarrow> cached (plug t c) \<Longrightarrow> avl t \<and> cached t \<and> path_ok (levels t) c"
proof (induction c arbitrary: t)
  case (Cons f c)
  from Cons.IH [of "fill f t"] Cons.prems show ?case by (cases f) (auto simp: max.commute)
qed simp

lemma path_ok_swap:
  "path_ok k (cr @ FR a l d ow sw ht # c) = path_ok k (cr @ FR a' l d' ow' sw' ht' # c)"
  by (induction k cr rule: path_ok.induct) auto

lemma plug_put_path: "plug Nil (put_path lower k t c) = plug t c"
  by (induction t arbitrary: c) auto

lemma plug_find_path: "find_path lower k t c = (t', c') \<Longrightarrow> plug t' c' = plug t c"
  by (induction t arbitrary: c) (auto split: if_splits)

lemma min_path_cases:
  assumes "t \<noteq> Nil"
  shows "\<exists>m d ow sw ht r cr. min_path t c = (Nd m Nil d ow sw ht r, cr @ c) \<and>
    plug (Nd m Nil d ow sw ht r) cr = t \<and> before cr = [] \<and> (\<forall>f\<in>set cr. \<exists>a d ow sw ht r. f = FL a d ow sw ht r)"
  using assms
proof (induction t arbitrary: c)
  case (Nd a l d ow sw ht r)
  show ?case
  proof (cases "l = Nil")
    case False
    from Nd.IH(1) [OF this, of "FL a d ow sw ht r # c"]
    obtain m d' ow' sw' ht' r' cr
      where m: "min_path l (FL a d ow sw ht r # c) = (Nd m Nil d' ow' sw' ht' r', cr @ FL a d ow sw ht r # c)"
        "plug (Nd m Nil d' ow' sw' ht' r') cr = l" "before cr = []"
        "\<forall>f\<in>set cr. \<exists>a d ow sw ht r. f = FL a d ow sw ht r" by blast
    have "before (cr @ [FL a d ow sw ht r]) = []"
      using m(3,4) by (induction cr rule: before.induct) auto
    with m False show ?thesis
      by (intro exI [of _ m] exI [of _ d'] exI [of _ ow'] exI [of _ sw'] exI [of _ ht'] exI [of _ r']
          exI [of _ "cr @ [FL a d ow sw ht r]"]) (auto simp: plug_append)
  qed (auto intro!: exI [of _ "[]"])
qed simp

locale weak_order =
  fixes lower :: "'d \<Rightarrow> 'd \<Rightarrow> bool"
  assumes irrefl: "\<not> lower x x"
    and trans: "lower x y \<Longrightarrow> lower y z \<Longrightarrow> lower x z"
    and negtrans: "lower x z \<Longrightarrow> lower x y \<or> lower y z"
begin

lemma asym: "lower x y \<Longrightarrow> \<not> lower y x"
  using irrefl trans by blast

lemma put_path_sides:
  assumes "sorted_entries lower (before c @ inorder t @ after c)"
    and "\<forall>e\<in>set (before c). lower (fst e) k" "\<forall>e\<in>set (after c). \<not> lower (fst e) k"
  shows "(\<forall>e\<in>set (before (put_path lower k t c)). lower (fst e) k) \<and>
    (\<forall>e\<in>set (after (put_path lower k t c)). \<not> lower (fst e) k)"
  using assms
proof (induction t arbitrary: c)
  case (Nd a l d ow sw ht r)
  have l: "\<not> lower d (fst e)" if "e \<in> set (inorder l)" for e
    using Nd.prems(1) that by (auto simp: sorted_entries_def sorted_wrt_append)
  have r: "\<not> lower (fst e) d" if "e \<in> set (inorder r)" for e
    using Nd.prems(1) that by (auto simp: sorted_entries_def sorted_wrt_append)
  show ?case
  proof (cases "lower d k")
    case True
    with l have "lower (fst e) k" if "e \<in> set (inorder l)" for e using that negtrans by blast
    then have "\<forall>e\<in>set (before (FR a l d ow sw ht # c)). lower (fst e) k"
      using True Nd.prems(2) by auto
    from Nd.IH(2) [OF _ this] Nd.prems(1,3) True show ?thesis by simp
  next
    case False
    with r have "\<not> lower (fst e) k" if "e \<in> set (inorder r)" for e using that negtrans by blast
    then have "\<forall>e\<in>set (after (FL a d ow sw ht r # c)). \<not> lower (fst e) k"
      using False Nd.prems(3) by auto
    from Nd.IH(1) [OF _ _ this] Nd.prems(1,2) False show ?thesis by simp
  qed
qed simp

lemma takeWhile_sides:
  assumes "\<forall>e\<in>set xs. P e" "\<forall>e\<in>set ys. \<not> P e"
  shows "takeWhile P (xs @ ys) = xs" "dropWhile P (xs @ ys) = ys"
  using assms by (cases ys; auto simp: takeWhile_tail)+

lemma put_path_entries:
  assumes "sorted_entries lower (inorder t)"
  shows "before (put_path lower k t []) @ (k, w) # after (put_path lower k t [])
    = put_entry lower k w (inorder t)"
proof -
  let ?c = "put_path lower k t []"
  have "inorder t = before ?c @ after ?c"
    using plug_put_path [of lower k t "[]"] inorder_plug [of Nil ?c] by simp
  moreover have "(\<forall>e\<in>set (before ?c). lower (fst e) k) \<and> (\<forall>e\<in>set (after ?c). \<not> lower (fst e) k)"
    by (rule put_path_sides) (use assms in auto)
  ultimately show ?thesis
    using takeWhile_sides [of "before ?c" "\<lambda>e. lower (fst e) k" "after ?c"]
    by (simp add: put_entry_def)
qed

lemma put_entry_sorted:
  assumes "sorted_entries lower es"
  shows "sorted_entries lower (put_entry lower k w es)"
proof -
  let ?P = "\<lambda>e. lower (fst e) k"
  define xs ys where "xs = takeWhile ?P es" and "ys = dropWhile ?P es"
  have es: "es = xs @ ys" by (simp add: xs_def ys_def)
  have xs: "\<forall>e\<in>set xs. lower (fst e) k" by (auto simp: xs_def dest: set_takeWhileD)
  have "\<not> lower (fst e) k" if "e \<in> set ys" for e
  proof (cases ys)
    case (Cons y ys')
    then have "\<not> lower (fst y) k" using hd_dropWhile [of ?P es] by (auto simp: ys_def)
    moreover have "e = y \<or> \<not> lower (fst e) (fst y)"
      using assms that by (auto simp: es Cons sorted_entries_def sorted_wrt_append)
    ultimately show ?thesis using negtrans by blast
  qed (use that in simp)
  moreover have "sorted_entries lower (xs @ ys)" using assms es by simp
  ultimately have "sorted_entries lower (xs @ (k, w) # ys)"
    using xs asym by (auto simp: sorted_entries_def sorted_wrt_append)
  then show ?thesis by (simp add: put_entry_def xs_def ys_def)
qed

lemma find_path_spec:
  assumes "sorted_entries lower (inorder t)" "find_path lower k t c = (t', c')"
  shows "case t' of Nil \<Rightarrow> \<forall>e\<in>set (inorder t). lower (fst e) k \<or> lower k (fst e)
     | Nd a l d ow sw ht r \<Rightarrow> \<not> lower d k \<and> \<not> lower k d"
  using assms
proof (induction t arbitrary: c)
  case (Nd a l d ow sw ht r)
  have sl: "sorted_entries lower (inorder l)" "sorted_entries lower (inorder r)"
    using Nd.prems(1) by (auto simp: sorted_entries_def sorted_wrt_append)
  have l: "\<not> lower d (fst e)" if "e \<in> set (inorder l)" for e
    using Nd.prems(1) that by (auto simp: sorted_entries_def sorted_wrt_append)
  have r: "\<not> lower (fst e) d" if "e \<in> set (inorder r)" for e
    using Nd.prems(1) that by (auto simp: sorted_entries_def sorted_wrt_append)
  consider "lower d k" | "\<not> lower d k" "\<not> lower k d" | "\<not> lower d k" "lower k d" by blast
  then show ?case
  proof cases
    case 1
    with l have "lower (fst e) k" if "e \<in> set (inorder l)" for e using that negtrans by blast
    with 1 Nd.IH(2) [OF sl(2), of "FR a l d ow sw ht # c"] Nd.prems(2) show ?thesis
      by (cases t') auto
  next
    case 3
    with r have "lower k (fst e)" if "e \<in> set (inorder r)" for e using that negtrans by blast
    with 3 Nd.IH(1) [OF sl(1), of "FL a d ow sw ht r # c"] Nd.prems(2) show ?thesis
      by (cases t') auto
  qed (use Nd.prems in auto)
qed auto

end

lemma sorted_entries_remove:
  "sorted_entries lower (xs @ e # ys) \<Longrightarrow> sorted_entries lower (xs @ ys)"
  by (auto simp: sorted_entries_def sorted_wrt_append)

lemma cached_wsub: "cached t \<Longrightarrow> wsub t = sum_list (map snd (inorder t))"
  by (induction t) (auto simp: algebra_simps)


text \<open>A balanced tree of \<open>n\<close> levels has at least \<open>2 ^ (n div 2) - 1\<close> nodes.\<close>

lemma avl_size: "avl t \<Longrightarrow> 2 ^ (levels t div 2) \<le> length (inorder t) + 1"
proof (induction t)
  case (Nd a l d ow sw ht r)
  define n where "n = (max (levels l) (levels r) - 1) div 2"
  have "n \<le> levels l div 2" "n \<le> levels r div 2"
    using Nd.prems by (auto simp: n_def intro!: div_le_mono)
  then have "(2::nat) ^ n \<le> 2 ^ (levels l div 2)" "(2::nat) ^ n \<le> 2 ^ (levels r div 2)"
    by (simp_all add: power_increasing)
  moreover have "2 ^ (levels l div 2) \<le> length (inorder l) + 1"
    "2 ^ (levels r div 2) \<le> length (inorder r) + 1" using Nd by simp_all
  moreover have "levels (Nd a l d ow sw ht r) div 2 \<le> Suc n"
    unfolding n_def levels.simps by arith
  then have "(2::nat) ^ (levels (Nd a l d ow sw ht r) div 2) \<le> 2 ^ Suc n"
    by (rule power_increasing) simp
  moreover have "(2::nat) ^ Suc n = 2 ^ n + 2 ^ n" by simp
  moreover have "length (inorder (Nd a l d ow sw ht r)) = length (inorder l) + length (inorder r) + 1"
    by simp
  ultimately show ?case by linarith
qed simp

lemma length_inorder_addrs: "length (inorder t) = length (addrs t)"
  by (induction t) auto

lemma avl_levels_bound:
  assumes "avl t" "length (addrs t) < 2 ^ 60"
  shows "levels t < 122"
proof (rule ccontr)
  assume "\<not> levels t < 122"
  then have "61 \<le> levels t div 2" by simp
  then have "(2::nat) ^ 61 \<le> 2 ^ (levels t div 2)" by (rule power_increasing) simp
  with avl_size [OF assms(1)] assms(2) show False by (simp add: length_inorder_addrs)
qed

end
