(* ===== verification/Wre_Avl_Correct.thy ===== *)
theory Wre_Avl_Correct
  imports Wre_Avl_Refine Avl_Order
begin

text \<open>
  Correctness of \<open>wre_put\<close>, \<open>wre_remove\<close> and \<open>wre_find\<close>.  \<open>wre_rep T es\<close> is the contract
  a client sees: the tree holds the entries \<open>es\<close> (data and weight) in ascending order.
  Below it stands \<open>wre_inv T t\<close>: the heap is exactly the balanced tree \<open>t\<close> with correct
  links and cached values, and the nodes are the live elements of the slab allocator.
\<close>

definition wre_inv :: "'d wre_tree \<Rightarrow> 'd atree \<Rightarrow> bool" where
  "wre_inv T t \<longleftrightarrow> zrep T t [] \<and> avl t \<and> cached t \<and> dom (nodes T) = set (addrs t) \<and>
     slab_rep (nodeAlloc T) (set (addrs t)) \<and> sorted_entries (is_lower_check T) (inorder t)"

definition wre_rep :: "'d wre_tree \<Rightarrow> ('d \<times> size_t) list \<Rightarrow> bool" where
  "wre_rep T es \<longleftrightarrow> (\<exists>t. wre_inv T t \<and> inorder t = es)"

fun place_of :: "'d frame list \<Rightarrow> place" where
  "place_of [] = Root_Place"
| "place_of (FL a d ow sw ht r # c) = Left_Place (Some a)"
| "place_of (FR a l d ow sw ht # c) = Right_Place (Some a)"

lemma set_addrs_plug: "set (addrs (plug t c)) = set (addrs t) \<union> set (caddrs c)"
  by (induction c arbitrary: t rule: caddrs.induct) auto

lemma wre_inv_few_nodes:
  assumes "slab_rep al (set (addrs t))" "distinct (addrs t)"
  shows "length (addrs t) < 2 ^ 60"
  using slab_rep_card [OF assms(1)] assms(2) by (simp add: distinct_card)

section \<open>Insertion\<close>

lemma ld_place_run: "zrep T t c \<Longrightarrow> ld_place T (place_of c) = Some (ptr_of t)"
  by (cases c rule: place_of.cases) (auto simp: zrep_def ld_place_def ld_def)

lemma wre_put_descend_run:
  "zrep T t c \<Longrightarrow> wre_put_descend T d (place_of c) (ctx_parent c) (ctx_which c) =
     (let c' = put_path (is_lower_check T) d t c in Some (place_of c', ctx_parent c', ctx_which c'))"
proof (induction t arbitrary: c)
  case Nil
  then show ?case using ld_place_run [of T Nil c]
    by (subst wre_put_descend.simps) simp
next
  case (Nd a l x ow sw ht r)
  from ld_place_run [OF Nd.prems] zrep_ld [OF Nd.prems] show ?case
    using Nd.IH(1) [of "FL a x ow sw ht r # c"] Nd.IH(2) [of "FR a l x ow sw ht # c"] Nd.prems
    by (subst wre_put_descend.simps) (simp add: zrep_left [symmetric] zrep_right [symmetric])
qed

lemma attach_leaf_run:
  assumes z: "zrep T Nil c" and a: "a \<notin> set (caddrs c)"
    and T1: "T1 = T\<lparr>nodeAlloc := al, nodes := (nodes T)(a \<mapsto>
          \<lparr>subtreeWeight = 0, ownWeight = 0, height = 0, left = NULL, right = NULL,
            parent = NULL, which = ctx_which c, data = None\<rparr>)\<rparr>"
  shows "\<exists>T2. do {
     T \<leftarrow> st_place T1 (place_of c) (Some a);
     T \<leftarrow> st T (Some a) (\<lambda>n. n\<lparr>parent := ctx_parent c\<rparr>);
     T \<leftarrow> st T (Some a) (\<lambda>n. n\<lparr>subtreeWeight := w\<rparr>);
     T \<leftarrow> st T (Some a) (\<lambda>n. n\<lparr>ownWeight := w\<rparr>);
     st T (Some a) (\<lambda>n. n\<lparr>data := Some d\<rparr>) } = Some T2 \<and>
   zrep T2 (Nd a Nil d w w 0 Nil) c \<and> nodeAlloc T2 = al \<and> tree_size T2 = tree_size T \<and>
   is_lower_check T2 = is_lower_check T \<and> dom (nodes T2) = insert a (dom (nodes T))"
  using z a unfolding T1
  by (cases c rule: place_of.cases) (auto simp: zrep_def st_place_def st_def)

lemma wre_put_run:
  assumes inv: "wre_inv T t" and ord: "weak_order (is_lower_check T)"
    and mem: "slab_alloc_malloc os (nodeAlloc T) = Some (p, al)"
  shows "\<exists>T' t'. wre_put os T d w = Some T' \<and> wre_inv T' t' \<and>
    inorder t' = put_entry (is_lower_check T) d w (inorder t) \<and> nodeAlloc T' = al \<and>
    is_lower_check T' = is_lower_check T \<and> tree_size T' = tree_size T + 1"
proof -
  define c where "c = put_path (is_lower_check T) d t []"
  have pl: "plug Nil c = t" using plug_put_path [of "is_lower_check T" d t "[]"] by (simp add: c_def)
  have z: "zrep T Nil c" using inv zrep_plug [of T Nil c] by (simp add: wre_inv_def pl)
  have ca: "set (addrs t) = set (caddrs c)" using set_addrs_plug [of Nil c] by (simp add: pl)
  have sl: "slab_rep (nodeAlloc T) (set (addrs t))" using inv by (simp add: wre_inv_def)
  from slab.malloc_fresh [OF sl mem]
  obtain a where a: "p = Some a" "a \<notin> set (addrs t)" "slab_rep al (insert a (set (addrs t)))"
    by blast
  let ?leaf = "Nd a Nil d w w 0 Nil"
  define T1 where "T1 = T\<lparr>nodeAlloc := al, nodes := (nodes T)(a \<mapsto>
          \<lparr>subtreeWeight = 0, ownWeight = 0, height = 0, left = NULL, right = NULL,
            parent = NULL, which = ctx_which c, data = None\<rparr>)\<rparr>"
  obtain T2 where T2: "do {
     T \<leftarrow> st_place T1 (place_of c) (Some a);
     T \<leftarrow> st T (Some a) (\<lambda>n. n\<lparr>parent := ctx_parent c\<rparr>);
     T \<leftarrow> st T (Some a) (\<lambda>n. n\<lparr>subtreeWeight := w\<rparr>);
     T \<leftarrow> st T (Some a) (\<lambda>n. n\<lparr>ownWeight := w\<rparr>);
     st T (Some a) (\<lambda>n. n\<lparr>data := Some d\<rparr>) } = Some T2" "zrep T2 ?leaf c" "nodeAlloc T2 = al"
     "tree_size T2 = tree_size T" "is_lower_check T2 = is_lower_check T"
     "dom (nodes T2) = insert a (dom (nodes T))"
    using attach_leaf_run [OF z _ T1_def, of w d] a(2) ca by blast
  have path: "path_ok 0 c" using plug_ok [of Nil c] inv by (simp add: pl wre_inv_def)
  have set_pl: "set (addrs (plug ?leaf c)) = insert a (set (addrs t))"
    using ca by (simp add: set_addrs_plug)
  have "distinct (addrs (plug ?leaf c))"
    using zrep_plug [of T2 ?leaf c] T2(2) by (simp add: zrep_def)
  then have len: "length (addrs (plug ?leaf c)) < 2 ^ 60"
    using wre_inv_few_nodes [of al "plug ?leaf c"] a(3) set_pl by simp
  have "\<exists>t'. up ?leaf c = Some t' \<and> avl t' \<and> cached t' \<and>
      inorder t' = inorder (plug ?leaf c) \<and> addrs t' = addrs (plug ?leaf c)"
    by (rule up_ok [OF _ _ _ _ path]) (use len in auto)
  then obtain t' where t': "up ?leaf c = Some t'" "avl t'" "cached t'"
      "inorder t' = inorder (plug ?leaf c)" "addrs t' = addrs (plug ?leaf c)" by blast
  from balance_upwards_run [OF T2(2) _ t'(1)] obtain T3
    where T3: "balance_upwards T2 (Some a) = Some T3" "zrep T3 t' []" "same T2 T3" by auto
  have es: "inorder t' = put_entry (is_lower_check T) d w (inorder t)"
    using weak_order.put_path_entries [OF ord, of t d w] inv t'(4)
    by (simp add: wre_inv_def c_def inorder_plug)
  have put: "wre_put os T d w = Some (T3\<lparr>tree_size := tree_size T3 + 1\<rparr>)"
    using wre_put_descend_run [of T t "[]" d] inv mem a(1) T2(1) T3(1)
    by (simp add: wre_put_def node_create_def wre_inv_def c_def [symmetric] T1_def Let_def
        bind_assoc [symmetric] del: bind_assoc)
  have "sorted_entries (is_lower_check T) (inorder t')"
    using weak_order.put_entry_sorted [OF ord] inv by (simp add: es wre_inv_def)
  then have "wre_inv (T3\<lparr>tree_size := tree_size T3 + 1\<rparr>) t'"
    using T3 T2 t' a(3) set_pl inv by (simp add: wre_inv_def same_def zrep_def)
  then show ?thesis using put es T3(3) T2 by (auto simp: same_def)
qed


section \<open>Search\<close>

lemma find_node_loop_run:
  "zrep T t c \<Longrightarrow> find_node_loop T d (ptr_of t) =
     Some (ptr_of (fst (find_path (is_lower_check T) d t c)))"
proof (induction t arbitrary: c)
  case Nil
  then show ?case by (subst find_node_loop.simps) simp
next
  case (Nd a l x ow sw ht r)
  from zrep_ld [OF Nd.prems] show ?case
    using Nd.IH(1) [of "FL a x ow sw ht r # c"] Nd.IH(2) [of "FR a l x ow sw ht # c"] Nd.prems
    by (subst find_node_loop.simps) (simp add: zrep_left [symmetric] zrep_right [symmetric])
qed

lemma find_node_run:
  assumes "wre_inv T t"
  obtains t' c where "find_node T d = Some (ptr_of t')" "zrep T t' c" "plug t' c = t"
    "find_path (is_lower_check T) d t [] = (t', c)"
proof -
  have z: "zrep T t []" using assms by (simp add: wre_inv_def)
  obtain t' c where f: "find_path (is_lower_check T) d t [] = (t', c)" by (rule prod.exhaust)
  have p: "plug t' c = t" using plug_find_path [OF f] by simp
  have "find_node T d = Some (ptr_of t')"
    using find_node_loop_run [OF z, of d] z f by (simp add: find_node_def zrep_def)
  then show thesis using that f p z zrep_plug [of T t' c] by simp
qed

section \<open>Removal: where rebalancing starts\<close>

lemma cached_mk_eq:
  assumes "cached (Nd a l d ow sw ht r)" "length (addrs (Nd a l d ow sw ht r)) < 2 ^ 61"
  shows "Nd a l d ow sw ht r = mk a l d ow r"
  using assms levels_le_addrs [of l] levels_le_addrs [of r]
  by (simp add: mk_def cached_hlen max_of_nat)

primrec sibling :: "'d frame \<Rightarrow> 'd atree" where
  "sibling (FL a d ow sw ht r) = r"
| "sibling (FR a l d ow sw ht) = l"

text \<open>The node from which \<open>wre_remove\<close> may rebalance after the hole of \<open>f\<close> received \<open>t\<close>.\<close>

definition start_ok :: "'d atree \<Rightarrow> 'd frame \<Rightarrow> 'd frame list \<Rightarrow> ptr \<Rightarrow> bool" where
  "start_ok t f c b \<longleftrightarrow>
     t \<noteq> Nil \<and> b = ptr_of t \<or> sibling f \<noteq> Nil \<and> b = ptr_of (sibling f) \<or>
     t = Nil \<and> sibling f = Nil \<and> b = ctx_parent (f # c)"

lemma balance_from_child:
  assumes z: "zrep T t (f # c)" and u: "up t (f # c) = Some t'"
    and b: "s = t \<or> s = sibling f" "s \<noteq> Nil" and s: "cached s" "length (addrs s) < 2 ^ 61"
  shows "\<exists>T'. remove_rebalance T q (ptr_of s) = Some T' \<and> zrep T' t' [] \<and> same T T'"
proof -
  obtain a l d ow sw ht r where sn: "s = Nd a l d ow sw ht r" using b(2) by (cases s) auto
  obtain x where x: "ctx_parent (f # c) = Some x" by (cases f) auto
  have "\<exists>g. zrep T s (g # c) \<and> ctx_parent (g # c) = Some x"
    using z b(1) x by (cases f) (auto simp: zrep_left [symmetric] zrep_right [symmetric]
        intro: zrep_left [THEN iffD1] zrep_right [THEN iffD1])
  then obtain g where g: "zrep T s (g # c)" "ctx_parent (g # c) = Some x" by blast
  have up: "update_node_subtree_metadata T (Some a) = Some T"
    using update_metadata_idem [OF g(1) [unfolded sn] cached_mk_eq] s by (simp add: sn)
  have ne: "x \<noteq> a" using g by (cases g) (auto simp: zrep_def sn)
  from climb_run [OF u z] obtain T' where T': "do { T1 \<leftarrow> balance_node T (Some x);
      balance_upwards T1 (Some x) } = Some T'" "zrep T' t' []" "same T T'" by (auto simp: x)
  have "balance_upwards T (Some a) = Some T'"
    using zrep_ld [OF g(1) [unfolded sn]] g(2) ne T'(1)
    by (subst balance_upwards.simps) simp
  then show ?thesis using T' up by (simp add: remove_rebalance_def sn)
qed

lemma balance_from_parent:
  assumes z: "zrep T Nil (f # c)" and u: "up Nil (f # c) = Some t'" and s: "sibling f = Nil"
  shows "\<exists>T'. remove_rebalance T q (ctx_parent (f # c)) = Some T' \<and> zrep T' t' [] \<and> same T T'"
proof -
  obtain x d ow sw ht where f: "fill f Nil = Nd x Nil d ow sw ht Nil" "ctx_parent (f # c) = Some x"
    using s by (cases f) auto
  have z': "zrep T (Nd x Nil d ow sw ht Nil) c" using z by (simp add: zrep_fill f)
  from update_metadata_run [OF z'] obtain T1
    where T1: "update_node_subtree_metadata T (Some x) = Some T1" "zrep T1 (mk x Nil d ow Nil) c"
      "same T T1" by blast
  have "up (mk x Nil d ow Nil) c = Some t'"
    using u by (simp add: f skew_def)
  from balance_upwards_run [OF T1(2) _ this] obtain T2
    where "balance_upwards T1 (Some x) = Some T2" "zrep T2 t' []" "same T1 T2"
    by (auto simp: mk_def)
  with T1 show ?thesis by (auto simp: remove_rebalance_def f intro: same_trans)
qed

lemma remove_rebalance_run:
  assumes z: "zrep T t (f # c)" and u: "up t (f # c) = Some t'" and b: "start_ok t f c b"
    and s: "cached t" "cached (sibling f)" "length (addrs (plug t (f # c))) < 2 ^ 61"
  shows "\<exists>T'. remove_rebalance T q b = Some T' \<and> zrep T' t' [] \<and> same T T'"
proof -
  have "length (addrs t) < 2 ^ 61" "length (addrs (sibling f)) < 2 ^ 61"
    using s(3) length_addrs_plug [of "fill f t" c] by (cases f; simp)+
  then show ?thesis
    using b balance_from_child [OF z u, of t] balance_from_child [OF z u, of "sibling f"]
      balance_from_parent [of T f c t' q] z u s by (auto simp: start_ok_def)
qed


section \<open>Removal: detaching and attaching\<close>

text \<open>A node outside the tree whose payload is known and whose links are not.\<close>

definition loose :: "'d wre_tree \<Rightarrow> addr \<Rightarrow> 'd \<Rightarrow> size_t \<Rightarrow> size_t \<Rightarrow> size_t \<Rightarrow> bool" where
  "loose T m d ow sw ht \<longleftrightarrow> (\<exists>p q v w. nodes T m = Some \<lparr>subtreeWeight = sw, ownWeight = ow,
     height = ht, left = p, right = q, parent = v, which = w, data = Some d\<rparr>)"

lemma remove_detach_leaf:
  assumes z: "zrep T (Nd a Nil d ow sw ht Nil) (f # c)"
  shows "\<exists>T1 b. remove_detach T (Some a) = Some (T1, NULL, b) \<and> zrep T1 Nil (f # c) \<and>
    same T T1 \<and> start_ok Nil f c b"
  using z by (cases f; cases "sibling f")
    (auto simp: zrep_def same_def start_ok_def remove_detach_def remove_leaf_def ld_def st_def)

lemma remove_detach_last:
  assumes z: "zrep T (Nd a Nil d ow sw ht Nil) []"
  shows "\<exists>T1. remove_detach T (Some a) = Some (T1, NULL, NULL) \<and> zrep T1 Nil [] \<and> same T T1"
  using z by (auto simp: zrep_def same_def remove_detach_def remove_leaf_def ld_def)

lemma remove_detach_only_right:
  assumes z: "zrep T (Nd a Nil d ow sw ht (Nd b Nil d' ow' sw' ht' Nil)) c"
  shows "\<exists>T1. remove_detach T (Some a) = Some (T1, Some b, Some b) \<and>
    zrep T1 (Nd a Nil d ow sw ht Nil) c \<and> loose T1 b d' ow' sw' ht' \<and>
    b \<notin> set (a # caddrs c) \<and> same T T1"
  using z by (auto simp: zrep_def same_def remove_detach_def ld_def st_def loose_def)

lemma remove_detach_only_left:
  assumes z: "zrep T (Nd a (Nd b Nil d' ow' sw' ht' Nil) d ow sw ht Nil) c"
  shows "\<exists>T1. remove_detach T (Some a) = Some (T1, Some b, Some b) \<and>
    zrep T1 (Nd a Nil d ow sw ht Nil) c \<and> loose T1 b d' ow' sw' ht' \<and>
    b \<notin> set (a # caddrs c) \<and> same T T1"
  using z by (auto simp: zrep_def same_def remove_detach_def ld_def st_def loose_def)

lemma remove_attach_run:
  assumes z: "zrep T (Nd a l d ow sw ht r) c" and m: "loose T m dm om sm hm"
    and fresh: "m \<notin> set (addrs (Nd a l d ow sw ht r) @ caddrs c)"
  shows "\<exists>T'. remove_attach T (Some a) (Some m) = Some T' \<and> zrep T' (Nd m l dm om sm hm r) c \<and>
    same T T'"
  using m unfolding loose_def
  by (elim exE; insert z fresh; cases c rule: ctx_which.cases; cases l; cases r;
    auto simp: zrep_def same_def remove_attach_def ld_def st_def st_if_def)


lemma go_leftmost_run:
  "zrep T t c \<Longrightarrow> t \<noteq> Nil \<Longrightarrow> go_leftmost T (ptr_of t) = Some (ptr_of (fst (min_path t c)))"
proof (induction t arbitrary: c)
  case (Nd a l d ow sw ht r)
  show ?case
  proof (cases l)
    case Nil
    then show ?thesis using zrep_ld [OF Nd.prems(1)] by (subst go_leftmost.simps) simp
  next
    case l: (Nd a' l' d' ow' sw' ht' r')
    have "go_leftmost T (ptr_of l) = Some (ptr_of (fst (min_path l (FL a d ow sw ht r # c))))"
      by (rule Nd.IH(1)) (use Nd.prems(1) l in \<open>simp_all add: zrep_left [symmetric]\<close>)
    then show ?thesis using zrep_ld [OF Nd.prems(1)] l by (subst go_leftmost.simps) simp
  qed
qed simp

lemma remove_inner_near:
  assumes z: "zrep T (Nd a l d ow sw ht (Nd m Nil dm om sm hm rr)) c" and l: "l \<noteq> Nil"
    and g: "go_leftmost T (Some m) = Some (Some m)"
  shows "\<exists>T1 b. remove_detach T (Some a) = Some (T1, Some m, b) \<and>
    zrep T1 (Nd a l d ow sw ht rr) c \<and> loose T1 m dm om sm hm \<and> same T T1 \<and>
    start_ok rr (FR m l dm om sm hm) c b"
proof (cases l)
  case (Nd la ll ld lo ls lh lr)
  show ?thesis using z g unfolding Nd
    by (cases rr) (auto simp: zrep_def same_def remove_detach_def remove_inner_def ld_def st_def
        st_if_def loose_def start_ok_def)
qed (use l in simp)

lemma remove_inner_far:
  assumes z: "zrep T (Nd m Nil dm om sm hm rr) (FL p dp op sp hp s # c)"
    and a: "nodes T a = Some an" "left an = Some x1" "right an = Some x2"
    and g: "go_leftmost T (Some x2) = Some (Some m)"
  shows "\<exists>T1 b. remove_detach T (Some a) = Some (T1, Some m, b) \<and>
    zrep T1 rr (FL p dp op sp hp s # c) \<and> loose T1 m dm om sm hm \<and> same T T1 \<and>
    start_ok rr (FL p dp op sp hp s) c b"
proof -
  have r: "remove_detach T (Some a) = remove_inner T (Some a)"
    using a by (simp add: remove_detach_def ld_def)
  show ?thesis unfolding r
    using z a g by (cases rr; cases s)
      (auto simp: zrep_def same_def remove_inner_def ld_def st_def
          st_if_def loose_def start_ok_def)
qed

lemma remove_detach_inner:
  assumes z: "zrep T (Nd a l d ow sw ht r) c" and lr: "l \<noteq> Nil" "r \<noteq> Nil"
  obtains T1 b m dm om sm hm rr cr f c' where
    "remove_detach T (Some a) = Some (T1, Some m, b)"
    "plug (Nd m Nil dm om sm hm rr) cr = r" "before cr = []"
    "zrep T1 (Nd a l d ow sw ht (plug rr cr)) c" "loose T1 m dm om sm hm" "same T T1"
    "cr @ FR m l dm om sm hm # c = f # c'" "start_ok rr f c' b"
proof -
  let ?fr = "FR a l d ow sw ht"
  have zr: "zrep T r (?fr # c)" using z by (simp add: zrep_right)
  from min_path_cases [OF lr(2), of "?fr # c"] obtain m dm om sm hm rr cr
    where mp: "min_path r (?fr # c) = (Nd m Nil dm om sm hm rr, cr @ ?fr # c)"
      "plug (Nd m Nil dm om sm hm rr) cr = r" "before cr = []"
      "\<forall>f\<in>set cr. \<exists>a d ow sw ht r. f = FL a d ow sw ht r" by blast
  have go: "go_leftmost T (ptr_of r) = Some (Some m)"
    using go_leftmost_run [OF zr lr(2)] mp(1) by simp
  show thesis
  proof (cases cr)
    case Nil
    then have r: "r = Nd m Nil dm om sm hm rr" using mp(2) by simp
    from remove_inner_near [OF z [unfolded r] lr(1)] go r obtain T1 b
      where "remove_detach T (Some a) = Some (T1, Some m, b)"
        "zrep T1 (Nd a l d ow sw ht rr) c" "loose T1 m dm om sm hm" "same T T1"
        "start_ok rr (FR m l dm om sm hm) c b" by auto
    then show thesis by (intro that [of T1 m b dm om sm hm rr "[]"]) (simp_all add: r)
  next
    case (Cons g cr')
    with mp(4) obtain p dp op sp hp s where g: "g = FL p dp op sp hp s" by auto
    have zm: "zrep T (Nd m Nil dm om sm hm rr) (FL p dp op sp hp s # cr' @ ?fr # c)"
      using z mp(2) zrep_plug [of T "Nd m Nil dm om sm hm rr" "cr @ ?fr # c"]
        zrep_plug [of T "Nd a l d ow sw ht r" c]
      by (simp add: Cons g plug_append)
    obtain x1 x2 where nn: "ptr_of l = Some x1" "ptr_of r = Some x2"
      using lr by (cases l; cases r) auto
    from remove_inner_far [OF zm zrep_ld [OF z, unfolded ld_def bind_Some], of x1 x2] nn go obtain T1 b
      where T1: "remove_detach T (Some a) = Some (T1, Some m, b)"
        "zrep T1 rr (cr @ ?fr # c)" "loose T1 m dm om sm hm" "same T T1"
        "start_ok rr g (cr' @ ?fr # c) b" by (auto simp: Cons g)
    have "zrep T1 (Nd a l d ow sw ht (plug rr cr)) c"
      using T1(2) zrep_plug [of T1 rr "cr @ ?fr # c"] zrep_plug [of T1 "Nd a l d ow sw ht (plug rr cr)" c]
      by (simp add: plug_append)
    moreover have "start_ok rr g (cr' @ FR m l dm om sm hm # c) b"
      using T1(5) by (simp add: start_ok_def g)
    ultimately show thesis
      by (intro that [OF T1(1) mp(2,3) _ T1(3,4)]) (simp_all add: Cons)
  qed
qed


section \<open>Removal\<close>

text \<open>
  The three phases on a found node \<open>a\<close>: what is left is the tree without that entry, the
  node \<open>a\<close> itself being no part of it any more.
\<close>

definition removed :: "'d wre_tree \<Rightarrow> addr \<Rightarrow> 'd atree \<Rightarrow> 'd frame list \<Rightarrow> 'd wre_tree \<Rightarrow> bool" where
  "removed T a t c T' \<longleftrightarrow> (\<exists>t'. zrep T' t' [] \<and> same T T' \<and> avl t' \<and> cached t' \<and>
     inorder t' = before c @ inorder (nd_left t) @ inorder (nd_right t) @ after c \<and>
     set (addrs t') = set (addrs (plug t c)) - {a})"

definition remove_phases :: "'d wre_tree \<Rightarrow> ptr \<Rightarrow> 'd wre_tree option" where
  "remove_phases T cnode = do {
     (T, replacer, balanced_node) \<leftarrow> remove_detach T cnode;
     T \<leftarrow> remove_attach T cnode replacer;
     remove_rebalance T replacer balanced_node }"

lemma distinct_plug: "zrep T t c \<Longrightarrow> distinct (addrs (plug t c))"
  using zrep_plug [of T t c] by (simp add: zrep_def)

lemma length_addrs_plug_eq: "length (addrs (plug t c)) = length (addrs t) + length (caddrs c)"
  by (induction c arbitrary: t rule: caddrs.induct) auto

lemma caddrs_append: "caddrs (c @ c') = caddrs c @ caddrs c'"
  by (induction c rule: caddrs.induct) auto

lemma avl_leaf: "avl t \<Longrightarrow> t \<noteq> Nil \<Longrightarrow> levels t \<le> 1 \<Longrightarrow>
    \<exists>b d ow sw ht. t = Nd b Nil d ow sw ht Nil"
proof (cases t)
  case (Nd a l d ow sw ht r)
  assume "levels t \<le> 1"
  then have "levels l = 0" "levels r = 0" by (simp_all add: Nd)
  then show ?thesis by (cases l; cases r) (auto simp: Nd)
qed simp

lemma remove_leaf_phases:
  assumes z: "zrep T (Nd a Nil d ow sw ht Nil) c"
    and ok: "path_ok 1 c" and len: "length (addrs (plug (Nd a Nil d ow sw ht Nil) c)) < 2 ^ 60"
  shows "\<exists>T'. remove_phases T (Some a) = Some T' \<and> removed T a (Nd a Nil d ow sw ht Nil) c T'"
proof (cases c)
  case Nil
  from remove_detach_last [OF z [unfolded Nil]] show ?thesis
    by (auto simp: remove_phases_def remove_attach_def remove_rebalance_def removed_def Nil
        intro!: exI [of _ Nil])
next
  case (Cons f c')
  from remove_detach_leaf [OF z [unfolded Cons]] obtain T1 b
    where T1: "remove_detach T (Some a) = Some (T1, NULL, b)" "zrep T1 Nil c" "same T T1"
      "start_ok Nil f c' b" by (auto simp: Cons)
  have len': "length (addrs (plug Nil c)) < 2 ^ 61"
    using len by (simp add: length_addrs_plug_eq)
  have "\<exists>t'. up Nil c = Some t' \<and> avl t' \<and> cached t' \<and>
      inorder t' = inorder (plug Nil c) \<and> addrs t' = addrs (plug Nil c)"
    by (rule up_ok [OF _ _ _ _ ok]) (use len' in auto)
  then obtain t' where t': "up Nil c = Some t'" "avl t'" "cached t'"
      "inorder t' = inorder (plug Nil c)" "addrs t' = addrs (plug Nil c)" by blast
  have "cached (sibling f)" using ok Cons by (cases f) auto
  from remove_rebalance_run [OF T1(2) [unfolded Cons] t'(1) [unfolded Cons] T1(4) _ this, of NULL]
    len' obtain T2 where T2: "remove_rebalance T1 NULL b = Some T2" "zrep T2 t' []" "same T1 T2"
    by (auto simp: Cons)
  have "a \<notin> set (caddrs c)" using z by (simp add: zrep_def)
  then have "removed T a (Nd a Nil d ow sw ht Nil) c T2"
    using T2 T1(3) t' by (auto simp: removed_def inorder_plug set_addrs_plug intro: same_trans)
  then show ?thesis using T1(1) T2(1) by (auto simp: remove_phases_def remove_attach_def)
qed

lemma remove_only_child_phases:
  assumes T1: "remove_detach T (Some a) = Some (T1, Some b, Some b)"
      "zrep T1 (Nd a Nil d ow sw ht Nil) c" "loose T1 b d' ow' sw' ht'" "same T T1"
    and b: "b \<notin> set (a # caddrs c)" and s: "s = Nd b Nil d' ow' sw' ht' Nil" "cached s"
    and ok: "path_ok 2 c" and len: "length (addrs (plug s c)) < 2 ^ 60"
  shows "\<exists>T' t'. remove_phases T (Some a) = Some T' \<and> zrep T' t' [] \<and> same T T' \<and> avl t' \<and>
    cached t' \<and> inorder t' = inorder (plug s c) \<and> addrs t' = addrs (plug s c)"
proof -
  from remove_attach_run [OF T1(2,3)] b obtain T2
    where T2: "remove_attach T1 (Some a) (Some b) = Some T2" "zrep T2 s c" "same T1 T2"
    by (auto simp: s(1))
  have "\<exists>t'. up s c = Some t' \<and> avl t' \<and> cached t' \<and>
      inorder t' = inorder (plug s c) \<and> addrs t' = addrs (plug s c)"
    by (rule up_ok [OF _ _ _ _ ok]) (use len s in auto)
  then obtain t' where t': "up s c = Some t'" "avl t'" "cached t'"
      "inorder t' = inorder (plug s c)" "addrs t' = addrs (plug s c)" by blast
  have "update_node_subtree_metadata T2 (Some b) = Some T2"
    using update_metadata_idem [OF T2(2) [unfolded s(1)] cached_mk_eq] s by simp
  moreover from balance_upwards_run [OF T2(2) _ t'(1)] obtain T3
    where "balance_upwards T2 (Some b) = Some T3" "zrep T3 t' []" "same T2 T3"
    by (auto simp: s(1))
  ultimately show ?thesis using T1(1,4) T2 t'
    by (auto simp: remove_phases_def remove_rebalance_def intro!: exI [of _ t'] intro: same_trans)
qed

lemma remove_inner_phases:
  assumes z: "zrep T (Nd a l d ow sw ht r) c" and lr: "l \<noteq> Nil" "r \<noteq> Nil"
    and ok: "avl (plug (Nd a l d ow sw ht r) c)" "cached (plug (Nd a l d ow sw ht r) c)"
    and len: "length (addrs (plug (Nd a l d ow sw ht r) c)) < 2 ^ 60"
  shows "\<exists>T'. remove_phases T (Some a) = Some T' \<and> removed T a (Nd a l d ow sw ht r) c T'"
proof -
  obtain T1 b m dm om sm hm rr cr f c' where T1:
    "remove_detach T (Some a) = Some (T1, Some m, b)"
    "plug (Nd m Nil dm om sm hm rr) cr = r" "before cr = []"
    "zrep T1 (Nd a l d ow sw ht (plug rr cr)) c" "loose T1 m dm om sm hm" "same T T1"
    and fc: "cr @ FR m l dm om sm hm # c = f # c'" and st: "start_ok rr f c' b"
    by (rule remove_detach_inner [OF z lr])
  let ?c = "cr @ FR m l dm om sm hm # c"
  have whole: "plug (Nd m Nil dm om sm hm rr) (cr @ FR a l d ow sw ht # c) = plug (Nd a l d ow sw ht r) c"
    using T1(2) by (simp add: plug_append)
  have new: "plug rr ?c = plug (Nd m l dm om sm hm (plug rr cr)) c" by (simp add: plug_append)
  from plug_ok [of "Nd m Nil dm om sm hm rr" "cr @ FR a l d ow sw ht # c"] ok
  have p: "avl rr" "cached rr" "path_ok (1 + levels rr) (cr @ FR a l d ow sw ht # c)"
    unfolding whole by auto
  then have p': "path_ok (1 + levels rr) ?c"
    using path_ok_swap [of "1 + levels rr" cr m l dm om sm hm c a d ow sw ht] by simp
  have "zrep T (Nd m Nil dm om sm hm rr) (cr @ FR a l d ow sw ht # c)"
    using z zrep_plug [of T "Nd m Nil dm om sm hm rr"] zrep_plug [of T "Nd a l d ow sw ht r" c]
    by (simp add: whole)
  then have dis: "m \<notin> set (addrs (Nd a l d ow sw ht (plug rr cr)) @ caddrs c)"
    by (auto simp: zrep_def caddrs_append set_addrs_plug)
  from remove_attach_run [OF T1(4,5) dis] obtain T2
    where T2: "remove_attach T1 (Some a) (Some m) = Some T2"
      "zrep T2 (Nd m l dm om sm hm (plug rr cr)) c" "same T1 T2" by blast
  then have zT2: "zrep T2 rr ?c" using zrep_plug [of T2 rr ?c] zrep_plug [of T2 _ c] new by metis
  have lenr: "length (addrs (plug rr ?c)) < 2 ^ 61"
    using len unfolding whole [symmetric] by (simp add: length_addrs_plug_eq caddrs_append)
  have "\<exists>t'. up rr ?c = Some t' \<and> avl t' \<and> cached t' \<and>
      inorder t' = inorder (plug rr ?c) \<and> addrs t' = addrs (plug rr ?c)"
    by (rule up_ok [OF p(1,2) _ _ p' lenr]) auto
  then obtain t' where t': "up rr ?c = Some t'" "avl t'" "cached t'"
      "inorder t' = inorder (plug rr ?c)" "addrs t' = addrs (plug rr ?c)" by blast
  have "cached (sibling f)" using p' unfolding fc by (cases f) auto
  from remove_rebalance_run [OF zT2 [unfolded fc] t'(1) [unfolded fc] st p(2) this, of "Some m"]
    lenr obtain T3 where T3: "remove_rebalance T2 (Some m) b = Some T3" "zrep T3 t' []" "same T2 T3"
    by (auto simp: fc)
  have "inorder r = (dm, om) # inorder (plug rr cr)"
    using inorder_plug [of "Nd m Nil dm om sm hm rr" cr] T1(2,3) by (simp add: inorder_plug)
  then have es: "inorder t' = before c @ inorder l @ inorder r @ after c"
    using t'(4) by (simp add: new inorder_plug)
  have "set (addrs r) = insert m (set (addrs rr)) \<union> set (caddrs cr)"
    using set_addrs_plug [of "Nd m Nil dm om sm hm rr" cr] by (simp add: T1(2))
  then have "set (addrs t') = set (addrs (plug (Nd a l d ow sw ht r) c)) - {a}"
    using t'(5) z by (auto simp: set_addrs_plug caddrs_append zrep_def)
  moreover have "same T T3" using T1(6) T2(3) T3(3) by (blast intro: same_trans)
  ultimately have "removed T a (Nd a l d ow sw ht r) c T3"
    unfolding removed_def using T3(2) t'(2,3) es by (intro exI [of _ t']) simp
  then show ?thesis using T1(1) T2(1) T3(1) by (auto simp: remove_phases_def)
qed


lemma remove_phases_run:
  assumes z: "zrep T (Nd a l d ow sw ht r) c"
    and ok: "avl (plug (Nd a l d ow sw ht r) c)" "cached (plug (Nd a l d ow sw ht r) c)"
    and len: "length (addrs (plug (Nd a l d ow sw ht r) c)) < 2 ^ 60"
  shows "\<exists>T'. remove_phases T (Some a) = Some T' \<and> removed T a (Nd a l d ow sw ht r) c T'"
proof -
  have p: "avl (Nd a l d ow sw ht r)" "cached (Nd a l d ow sw ht r)"
      "path_ok (levels (Nd a l d ow sw ht r)) c"
    using plug_ok [OF ok] by auto
  have a: "a \<notin> set (addrs l) \<union> set (addrs r) \<union> set (caddrs c)" using z by (auto simp: zrep_def)
  have single: ?thesis if s: "s = Nd b Nil d' ow' sw' ht' Nil"
      "l = Nil \<and> r = s \<or> l = s \<and> r = Nil" for s b d' ow' sw' ht'
  proof -
    have "\<exists>T1. remove_detach T (Some a) = Some (T1, Some b, Some b) \<and>
        zrep T1 (Nd a Nil d ow sw ht Nil) c \<and> loose T1 b d' ow' sw' ht' \<and>
        b \<notin> set (a # caddrs c) \<and> same T T1"
      using remove_detach_only_right [of T a d ow sw ht b d' ow' sw' ht' c]
        remove_detach_only_left [of T a b d' ow' sw' ht' d ow sw ht c] z s by blast
    then obtain T1 where T1: "remove_detach T (Some a) = Some (T1, Some b, Some b)"
        "zrep T1 (Nd a Nil d ow sw ht Nil) c" "loose T1 b d' ow' sw' ht'" "same T T1"
        "b \<notin> set (a # caddrs c)" by blast
    have "cached s" "path_ok 2 c" "length (addrs (plug s c)) < 2 ^ 60"
      using p s len by (auto simp: length_addrs_plug_eq numeral_2_eq_2)
    from remove_only_child_phases [OF T1 s(1) this] obtain T' t'
      where T': "remove_phases T (Some a) = Some T'" "zrep T' t' []" "same T T'" "avl t'"
        "cached t'" "inorder t' = inorder (plug s c)" "addrs t' = addrs (plug s c)" by blast
    moreover have "inorder t' = before c @ inorder l @ inorder r @ after c"
      using T'(6) s by (auto simp: inorder_plug)
    moreover have "set (addrs t') = set (addrs (plug (Nd a l d ow sw ht r) c)) - {a}"
      using T'(7) s a by (auto simp: set_addrs_plug)
    ultimately show ?thesis unfolding removed_def by auto
  qed
  consider "l = Nil" "r = Nil" | "l = Nil" "r \<noteq> Nil" | "l \<noteq> Nil" "r = Nil" | "l \<noteq> Nil" "r \<noteq> Nil"
    by blast
  then show ?thesis
  proof cases
    case 1
    then show ?thesis using remove_leaf_phases [of T a d ow sw ht c] z p len by simp
  next
    case 2
    then show ?thesis using avl_leaf [of r] p single by auto
  next
    case 3
    then show ?thesis using avl_leaf [of l] p single by auto
  next
    case 4
    from remove_inner_phases [OF z 4 ok len] show ?thesis .
  qed
qed

lemma wre_remove_unfold:
  "wre_remove T d = do {
     cnode \<leftarrow> find_node T d;
     (if cnode = NULL then Some (None, T) else do {
        cn \<leftarrow> ld T cnode;
        T \<leftarrow> remove_phases T cnode;
        T \<leftarrow> node_destroy T cnode;
        Some (data cn, T\<lparr>tree_size := tree_size T - 1\<rparr>) }) }"
  by (simp add: wre_remove_def remove_phases_def Let_def split_def cong: if_cong)

lemma zrep_drop:
  "zrep T t [] \<Longrightarrow> a \<notin> set (addrs t) \<Longrightarrow>
     zrep (T\<lparr>nodes := (nodes T)(a := None), nodeAlloc := al, tree_size := n\<rparr>) t []"
  by (simp add: zrep_def)

lemma wre_remove_found:
  assumes inv: "wre_inv T t" and f: "find_path (is_lower_check T) k t [] = (Nd a l d ow sw ht r, c)"
    and fn: "find_node T k = Some (Some a)"
    and z: "zrep T (Nd a l d ow sw ht r) c" and pl: "plug (Nd a l d ow sw ht r) c = t"
  shows "\<exists>T' t'. wre_remove T k = Some (Some d, T') \<and> wre_inv T' t' \<and>
    inorder t' = before c @ inorder l @ inorder r @ after c \<and>
    is_lower_check T' = is_lower_check T \<and> tree_size T' = tree_size T - 1 \<and>
    a \<in> set (addrs t) \<and> slab_alloc_free (nodeAlloc T) (Some a) = Some (nodeAlloc T')"
proof -
  have sl: "slab_rep (nodeAlloc T) (set (addrs t))" and dis: "distinct (addrs t)"
    using inv by (simp_all add: wre_inv_def zrep_def)
  have "length (addrs t) < 2 ^ 60" using wre_inv_few_nodes [OF sl dis] .
  then obtain T1 where T1: "remove_phases T (Some a) = Some T1"
      "removed T a (Nd a l d ow sw ht r) c T1"
    using remove_phases_run [OF z] inv by (auto simp: pl wre_inv_def)
  then obtain t' where t': "zrep T1 t' []" "same T T1" "avl t'" "cached t'"
      "inorder t' = before c @ inorder l @ inorder r @ after c" "set (addrs t') = set (addrs t) - {a}"
    by (auto simp: removed_def pl)
  have at: "a \<in> set (addrs t)" using set_addrs_plug [of "Nd a l d ow sw ht r" c] by (simp add: pl)
  from slab.release_live [OF sl this] obtain al
    where al: "slab_alloc_free (nodeAlloc T) (Some a) = Some al" "slab_rep al (set (addrs t'))"
    by (auto simp: t'(6))
  define T2 where "T2 = T1\<lparr>nodes := (nodes T1)(a := None), nodeAlloc := al,
    tree_size := tree_size T1 - 1\<rparr>"
  have run: "wre_remove T k = Some (Some d, T2)"
    using fn zrep_ld [OF z] T1(1) al(1) t'(2)
    by (simp add: wre_remove_unfold node_destroy_def T2_def same_def)
  have "zrep T2 t' []" unfolding T2_def using t'(1,6) by (intro zrep_drop) auto
  moreover have "sorted_entries (is_lower_check T) (inorder t')"
    using inv sorted_entries_remove [of _ "before c @ inorder l" "(d, ow)" "inorder r @ after c"]
      inorder_plug [of "Nd a l d ow sw ht r" c] by (simp add: t'(5) wre_inv_def pl)
  ultimately have "wre_inv T2 t'"
    using t' al(2) inv by (auto simp: wre_inv_def same_def T2_def)
  moreover have "is_lower_check T2 = is_lower_check T" "tree_size T2 = tree_size T - 1"
    using t'(2) by (simp_all add: T2_def same_def)
  moreover have "slab_alloc_free (nodeAlloc T) (Some a) = Some (nodeAlloc T2)"
    using al(1) by (simp add: T2_def)
  ultimately show ?thesis using run t'(5) at by blast
qed


section \<open>A concrete tree\<close>

definition demo_tree :: "int wre_tree" where
  "demo_tree = \<lparr>rootNode = NULL, nodes = Map.empty, nodeAlloc = demo_slab, tree_size = 0,
     is_lower_check = (<)\<rparr>"

definition demo_tree1 :: "int wre_tree" where
  "demo_tree1 = \<lparr>rootNode = Some 4112, nodes = [4112 \<mapsto> \<lparr>subtreeWeight = 7, ownWeight = 7,
       height = 0, left = NULL, right = NULL, parent = NULL, which = ROOT_NODE, data = Some 5\<rparr>],
     nodeAlloc = demo_slab1, tree_size = 1, is_lower_check = (<)\<rparr>"

lemma demo_order: "weak_order ((<) :: int \<Rightarrow> int \<Rightarrow> bool)"
  by unfold_locales auto

lemma demo_tree_rep: "wre_rep demo_tree []"
  unfolding wre_rep_def wre_inv_def
  by (rule exI [of _ Nil]) (simp add: demo_tree_def zrep_def demo_slab_rep sorted_entries_def)

lemma demo_tree1_rep: "wre_rep demo_tree1 [(5, 7)]"
proof -
  have "slab_rep demo_slab1 {4112}"
    using slab.malloc_fresh [OF demo_slab_rep demo_malloc] by simp
  then show ?thesis unfolding wre_rep_def wre_inv_def
    by (intro exI [of _ "Nd 4112 Nil 5 7 7 0 Nil"])
      (auto simp: demo_tree1_def zrep_def sorted_entries_def)
qed

section \<open>Properties\<close>

text \<open>
  C7: \<open>wre_put\<close> returns whenever the allocator has room, no assertion of the rebalancing
  failing; the tree afterwards is again a balanced tree with correct links and cached
  weights whose entries are the old ones with the new entry placed after all lower keys
  and before all others, and \<open>size\<close> has grown by one.
\<close>

theorem wre_put_correct:
  assumes "weak_order (is_lower_check T)" "wre_rep T es"
    and "slab_alloc_malloc os (nodeAlloc T) = Some (p, al)"
  shows "\<exists>T'. wre_put os T d w = Some T' \<and> wre_rep T' (put_entry (is_lower_check T) d w es) \<and>
    is_lower_check T' = is_lower_check T \<and> nodeAlloc T' = al \<and> tree_size T' = tree_size T + 1"
  using wre_put_run [OF _ assms(1,3), of _ d w] assms(2) by (fastforce simp: wre_rep_def)

theorem wre_put_correct_witness:
  "\<exists>T'. wre_put demo_os demo_tree 5 7 = Some T' \<and> wre_rep T' [(5, 7)]"
proof -
  have "weak_order (is_lower_check demo_tree)" "slab_alloc_malloc demo_os (nodeAlloc demo_tree) =
      Some (Some 4112, demo_slab1)"
    using demo_order demo_malloc by (simp_all add: demo_tree_def)
  from wre_put_correct [OF this(1) demo_tree_rep this(2), of 5 7] show ?thesis
    by (auto simp: put_entry_def)
qed

lemma wre_remove_run:
  assumes ord: "weak_order (is_lower_check T)" and rep: "wre_rep T es"
  shows "\<exists>T' ret. wre_remove T k = Some (ret, T') \<and> is_lower_check T' = is_lower_check T \<and>
    (case ret of
       None \<Rightarrow> T' = T \<and> (\<forall>e\<in>set es. is_lower_check T (fst e) k \<or> is_lower_check T k (fst e))
     | Some d \<Rightarrow> \<not> is_lower_check T d k \<and> \<not> is_lower_check T k d \<and>
         tree_size T' = tree_size T - 1 \<and> (\<forall>os. slab_alloc_malloc os (nodeAlloc T') \<noteq> None) \<and>
         (\<forall>os p al. slab_alloc_malloc os (nodeAlloc T) \<noteq> None \<longrightarrow>
            slab_alloc_malloc os (nodeAlloc T') = Some (p, al) \<longrightarrow> slab_alloc_malloc os al \<noteq> None) \<and>
         (\<exists>xs w ys. es = xs @ (d, w) # ys \<and> wre_rep T' (xs @ ys)))"
proof -
  from rep obtain t where t: "wre_inv T t" "inorder t = es" by (auto simp: wre_rep_def)
  obtain t' c where f: "find_node T k = Some (ptr_of t')" "zrep T t' c" "plug t' c = t"
    "find_path (is_lower_check T) k t [] = (t', c)" by (rule find_node_run [OF t(1)])
  have so: "sorted_entries (is_lower_check T) (inorder t)" using t(1) by (simp add: wre_inv_def)
  note spec = weak_order.find_path_spec [OF ord so f(4)]
  show ?thesis
  proof (cases t')
    case Nil
    with spec f(1) t(2) show ?thesis by (simp add: wre_remove_unfold)
  next
    case (Nd a l d ow sw ht r)
    from wre_remove_found [OF t(1) f(4) [unfolded Nd]] f Nd obtain T' t1
      where T': "wre_remove T k = Some (Some d, T')" "wre_inv T' t1"
        "inorder t1 = (before c @ inorder l) @ inorder r @ after c"
        "is_lower_check T' = is_lower_check T" "tree_size T' = tree_size T - 1"
        and al: "a \<in> set (addrs t)" "slab_alloc_free (nodeAlloc T) (Some a) = Some (nodeAlloc T')"
      by auto
    have sl: "slab_rep (nodeAlloc T) (set (addrs t))" using t(1) by (simp add: wre_inv_def)
    note room = slab_free_room [OF sl al] slab_room_swap [OF sl al]
    note T'
    moreover have "es = (before c @ inorder l) @ (d, ow) # inorder r @ after c"
      using inorder_plug [of "Nd a l d ow sw ht r" c] f(3) t(2) by (simp add: Nd)
    moreover from T'(2,3) have "wre_rep T' ((before c @ inorder l) @ inorder r @ after c)"
      unfolding wre_rep_def by blast
    ultimately show ?thesis using spec room unfolding Nd
      by (intro exI [of _ T'] exI [of _ "Some d"]) (auto simp del: append_assoc)
  qed
qed

text \<open>
  C8: \<open>wre_remove\<close> always returns.  If it returns \<open>NULL\<close> no key of the tree equals the
  argument and the tree is unchanged; otherwise the returned datum equals the argument,
  exactly that entry is gone, order, balance and cached values are kept, the node is back
  in the allocator (the next allocation of a node succeeds) and \<open>size\<close> has shrunk by one.
\<close>

theorem wre_remove_correct:
  assumes "weak_order (is_lower_check T)" "wre_rep T es"
  shows "\<exists>T' ret. wre_remove T k = Some (ret, T') \<and> is_lower_check T' = is_lower_check T \<and>
    (case ret of
       None \<Rightarrow> T' = T \<and> (\<forall>e\<in>set es. is_lower_check T (fst e) k \<or> is_lower_check T k (fst e))
     | Some d \<Rightarrow> \<not> is_lower_check T d k \<and> \<not> is_lower_check T k d \<and>
         tree_size T' = tree_size T - 1 \<and> (\<forall>os. slab_alloc_malloc os (nodeAlloc T') \<noteq> None) \<and>
         (\<exists>xs w ys. es = xs @ (d, w) # ys \<and> wre_rep T' (xs @ ys)))"
  using wre_remove_run [OF assms, of k] by (fastforce split: option.splits)

theorem wre_remove_correct_witness:
  "\<exists>T'. wre_remove demo_tree1 5 = Some (Some 5, T') \<and> wre_rep T' []"
proof -
  have o: "is_lower_check demo_tree1 = (<)" by (simp add: demo_tree1_def)
  from wre_remove_correct [of demo_tree1, OF _ demo_tree1_rep, of 5] demo_order
  obtain T' ret where "wre_remove demo_tree1 5 = Some (ret, T')"
    "case ret of None \<Rightarrow> \<forall>e\<in>set [(5::int, 7::size_t)]. fst e < 5 \<or> 5 < fst e
      | Some d \<Rightarrow> \<not> d < 5 \<and> \<not> 5 < d \<and> (\<exists>xs w ys. [(5, 7)] = xs @ (d, w) # ys \<and> wre_rep T' (xs @ ys))"
    unfolding o by (auto split: option.splits)
  then show ?thesis by (cases ret) (auto simp: append_eq_Cons_conv Cons_eq_append_conv)
qed

text \<open>
  C20: \<open>wre_find\<close> returns the datum of an entry whose key equals the argument, and \<open>NULL\<close>
  only when there is none; it never aborts.
\<close>

theorem wre_find_correct:
  assumes ord: "weak_order (is_lower_check T)" and rep: "wre_rep T es"
  shows "\<exists>ret. wre_find T k = Some ret \<and> (case ret of
       None \<Rightarrow> \<forall>e\<in>set es. is_lower_check T (fst e) k \<or> is_lower_check T k (fst e)
     | Some d \<Rightarrow> d \<in> fst ` set es \<and> \<not> is_lower_check T d k \<and> \<not> is_lower_check T k d)"
proof -
  from rep obtain t where t: "wre_inv T t" "inorder t = es" by (auto simp: wre_rep_def)
  obtain t' c where f: "find_node T k = Some (ptr_of t')" "zrep T t' c" "plug t' c = t"
    "find_path (is_lower_check T) k t [] = (t', c)" by (rule find_node_run [OF t(1)])
  have so: "sorted_entries (is_lower_check T) (inorder t)" using t(1) by (simp add: wre_inv_def)
  note spec = weak_order.find_path_spec [OF ord so f(4)]
  show ?thesis
  proof (cases t')
    case Nil
    with spec f(1) t(2) show ?thesis by (simp add: wre_find_def)
  next
    case (Nd a l d ow sw ht r)
    have "(d, ow) \<in> set es"
      using inorder_plug [of "Nd a l d ow sw ht r" c] f(3) t(2) by (auto simp: Nd)
    then show ?thesis
      using spec f(1) zrep_ld [OF f(2) [unfolded Nd]] by (force simp: wre_find_def Nd)
  qed
qed

theorem wre_find_correct_witness: "wre_find demo_tree1 5 = Some (Some 5)"
proof -
  have o: "is_lower_check demo_tree1 = (<)" by (simp add: demo_tree1_def)
  from wre_find_correct [of demo_tree1, OF _ demo_tree1_rep, of 5] demo_order show ?thesis
    unfolding o by (auto split: option.splits)
qed

text \<open>
  The root caches the exact total of the weights (as a 64-bit sum), and its height is
  logarithmic: a tree whose root has height \<open>h\<close> holds at least \<open>2 ^ (h div 2)\<close> entries.
\<close>

theorem wre_root_cache:
  assumes "wre_rep T es" "rootNode T = Some a" "nodes T a = Some n"
  shows "subtreeWeight n = sum_list (map snd es) \<and> 2 ^ (unat (height n) div 2) \<le> length es"
proof -
  from assms(1) obtain t where t: "wre_inv T t" "inorder t = es" by (auto simp: wre_rep_def)
  then have z: "zrep T t []" and av: "avl t" and ca: "cached t" by (simp_all add: wre_inv_def)
  from z assms(2) have p: "ptr_of t = Some a" by (simp add: zrep_def)
  then obtain l d ow sw ht r where tn: "t = Nd a l d ow sw ht r" by (cases t) auto
  have n: "subtreeWeight n = sw" "height n = ht" using z assms(3) by (auto simp: zrep_def tn)
  have "sw = sum_list (map snd es)" using cached_wsub [OF ca] by (simp add: tn flip: t(2))
  moreover have "length (addrs t) < 2 ^ 60"
    using wre_inv_few_nodes [of "nodeAlloc T" t] t(1) by (simp add: wre_inv_def zrep_def)
  from avl_levels_bound [OF av this] have h: "unat ht = max (levels l) (levels r)"
    using ca by (simp add: tn unat_of_nat)
  have "2 ^ (unat ht div 2) \<le> length es"
  proof -
    let ?m = "if levels l \<le> levels r then r else l"
    have lm: "levels ?m = unat ht" by (simp add: h)
    have "2 ^ (levels ?m div 2) \<le> length (inorder ?m) + 1"
      by (rule avl_size) (use av in \<open>simp add: tn\<close>)
    then show ?thesis unfolding lm by (auto simp: t(2) [symmetric] tn split: if_splits)
  qed
  ultimately show ?thesis using n by simp
qed

theorem wre_root_cache_witness:
  "wre_rep demo_tree1 [(5, 7)] \<and> subtreeWeight (the (nodes demo_tree1 4112)) = 7"
  using wre_root_cache [OF demo_tree1_rep, of 4112] demo_tree1_rep by (simp add: demo_tree1_def)

end
