(* ===== verification/Wre_Avl_Weighted.thy ===== *)
theory Wre_Avl_Weighted
  imports Wre_Avl_Correct
begin

text \<open>
  The consistency check over the whole tree, the search by weight and its interpolated
  variant (\<open>wre_calculate_total_size\<close>, \<open>wre_find_weighted\<close>,
  \<open>wre_find_weighted_interpolated\<close> of \<open>src/wre_avl_tree.c\<close>).
\<close>

section \<open>The consistency check\<close>

lemma sint_ucast_small: "n < 2 ^ 31 \<Longrightarrow> sint (ucast (of_nat n :: 64 word) :: 32 word) = int n"
proof -
  assume n: "n < 2 ^ 31"
  then have "(ucast (of_nat n :: 64 word) :: 32 word) = of_nat n"
    by (simp add: unsigned_of_nat take_bit_nat_eq_self)
  with n show ?thesis by (simp add: signed_of_nat signed_take_bit_int_eq_self)
qed

lemma calculate_child:
  assumes "rep (nodes T) par w t" "cached t" "levels t < 122" "t \<noteq> Nil"
  shows "\<exists>m. ld T (ptr_of t) = Some m \<and> which m = w \<and> parent m = par \<and>
    sint (ucast (height m + 1) :: 32 word) = int (levels t)"
proof (cases t)
  case (Nd a l d ow sw ht r)
  have "sint (ucast (of_nat (levels t) :: 64 word) :: 32 word) = int (levels t)"
    using assms(3) by (intro sint_ucast_small) simp
  moreover have "ht + 1 = of_nat (levels t)" using assms(2) by (simp add: Nd)
  ultimately have "sint (ucast (ht + 1) :: 32 word) = int (levels t)" by simp
  then show ?thesis using assms(1) by (simp add: Nd ld_def)
qed (use assms in simp)

lemma calculate_subtree_size_run:
  assumes "rep (nodes T) par w t" "avl t" "cached t" "levels t < 122"
  shows "wre_calculate_subtree_size T (ptr_of t) = Some (wsub t)"
  using assms
proof (induction t arbitrary: par w)
  case Nil
  then show ?case by (subst wre_calculate_subtree_size.simps) simp
next
  case (Nd a l d ow sw ht r)
  have l: "rep (nodes T) (Some a) LEFT_NODE l" "levels l < 122" "cached l"
    and r: "rep (nodes T) (Some a) RIGHT_NODE r" "levels r < 122" "cached r"
    using Nd.prems by auto
  have "wre_calculate_subtree_size T (ptr_of l) = Some (wsub l)"
    "wre_calculate_subtree_size T (ptr_of r) = Some (wsub r)"
    using Nd.IH(1) [OF l(1)] Nd.IH(2) [OF r(1)] Nd.prems l r by auto
  moreover have "(of_int (max (int (levels l)) (int (levels r))) :: size_t) = ht"
    using Nd.prems(3) by (simp flip: of_nat_max)
  moreover have "\<bar>int (levels l) - int (levels r)\<bar> < 2" using Nd.prems(2) by auto
  moreover have "nodes T a = Some \<lparr>subtreeWeight = wsub l + wsub r + ow, ownWeight = ow, height = ht,
      left = ptr_of l, right = ptr_of r, parent = par, which = w, data = Some d\<rparr>"
    using Nd.prems by simp
  moreover have "ptr_of l = NULL \<Longrightarrow> levels l = 0" "ptr_of r = NULL \<Longrightarrow> levels r = 0"
    by (cases l; simp) (cases r; simp)
  moreover have "sw = wsub l + wsub r + ow" using Nd.prems by simp
  ultimately show ?case
    using calculate_child [OF l(1,3,2)] calculate_child [OF r(1,3,2)]
    by (subst wre_calculate_subtree_size.simps) (cases l; cases r; auto simp: ld_def)
qed


lemma wre_calculate_total_size_run:
  assumes "wre_rep T es"
  shows "wre_calculate_total_size T = Some (sum_list (map snd es))"
proof -
  from assms obtain t where t: "wre_inv T t" "inorder t = es" by (auto simp: wre_rep_def)
  then have z: "zrep T t []" and av: "avl t" and ca: "cached t" by (simp_all add: wre_inv_def)
  have "length (addrs t) < 2 ^ 60"
    using wre_inv_few_nodes [of "nodeAlloc T" t] t(1) by (simp add: wre_inv_def zrep_def)
  from calculate_subtree_size_run [OF _ av ca avl_levels_bound [OF av this], of T NULL ROOT_NODE]
  show ?thesis using z cached_wsub [OF ca] t(2)
    by (simp add: wre_calculate_total_size_def zrep_def)
qed

text \<open>
  On every tree the public operations can produce, \<open>wre_calculate_total_size\<close> returns
  the sum of the weights; none of its assertions (cached weights and heights, parent links,
  \<open>which\<close> tags, balance) fails.
\<close>

theorem wre_calculate_total_size_correct:
  assumes "wre_rep T es"
  shows "wre_calculate_total_size T = Some (sum_list (map snd es))"
  using assms by (rule wre_calculate_total_size_run)

theorem wre_calculate_total_size_correct_witness: "wre_calculate_total_size demo_tree1 = Some 7"
  using wre_calculate_total_size_correct [OF demo_tree1_rep] by simp

section \<open>Search by weight\<close>

definition wsum :: "('d \<times> size_t) list \<Rightarrow> nat" where
  "wsum es = sum_list (map (\<lambda>e. unat (snd e)) es)"

lemma wsum_simps [simp]:
  "wsum [] = 0" "wsum (e # es) = unat (snd e) + wsum es" "wsum (xs @ ys) = wsum xs + wsum ys"
  by (simp_all add: wsum_def)

lemma unat_wsub:
  "cached t \<Longrightarrow> wsum (inorder t) < 2 ^ 64 \<Longrightarrow> unat (wsub t) = wsum (inorder t)"
proof (induction t)
  case (Nd a l d ow sw ht r)
  then have l: "unat (wsub l) = wsum (inorder l)" and r: "unat (wsub r) = wsum (inorder r)" by simp_all
  have "unat (wsub l + wsub r) = unat (wsub l) + unat (wsub r)"
    using Nd.prems l r by (intro unat_add_nowrap) simp
  moreover have "unat (wsub l + wsub r + ow) = unat (wsub l + wsub r) + unat ow"
    using Nd.prems l r calculation by (intro unat_add_nowrap) simp
  ultimately show ?case using Nd.prems l r by simp
qed simp

text \<open>
  \<open>hit es q e p\<close>: the weight \<open>q\<close>, measured from the left, falls into the entry \<open>e\<close>, at the
  fraction \<open>p\<close> of it (NaN for an entry without weight).
\<close>

definition hit :: "('d \<times> size_t) list \<Rightarrow> real \<Rightarrow> 'd \<times> size_t \<Rightarrow> double \<Rightarrow>
    ('d \<times> size_t) list \<Rightarrow> ('d \<times> size_t) list \<Rightarrow> bool" where
  "hit es q e p xs ys \<longleftrightarrow> es = xs @ e # ys \<and> real (wsum xs) \<le> q \<and>
     q \<le> real (wsum xs + unat (snd e)) \<and>
     p = (if snd e = 0 then None else Some ((q - real (wsum xs)) / real (unat (snd e))))"

text \<open>The outcome of a search below the whole tree: a node of it, in its place.\<close>

definition locates :: "'d atree \<Rightarrow> real \<Rightarrow> (ptr \<times> double) option \<Rightarrow> bool" where
  "locates t0 q res \<longleftrightarrow> (\<exists>a l d ow sw ht r c p. plug (Nd a l d ow sw ht r) c = t0 \<and>
     res = Some (Some a, p) \<and>
     hit (inorder t0) q (d, ow) p (before c @ inorder l) (inorder r @ after c))"

lemma weighted_loop_run:
  assumes "zrep T t c" "cached t" "wsum (inorder t) < 2 ^ 64" "0 < wsum (inorder t)"
    and "0 \<le> q" "q \<le> 1"
  shows "locates (plug t c) (q * real (wsum (inorder t)) + real (wsum (before c)))
    (wre_find_weighted_nodes_loop T (Some q) pct best (ptr_of t))"
  using assms
proof (induction t arbitrary: c q best)
  case (Nd a l d ow sw ht r)
  let ?t = "Nd a l d ow sw ht r"
  define W L R Ow where "W = real (wsum (inorder ?t))" and "L = real (wsum (inorder l))"
    and "R = real (wsum (inorder r))" and "Ow = real (unat ow)"
  have W: "W = L + Ow + R" "0 \<le> L" "0 \<le> R" "0 \<le> Ow"
    unfolding L_def R_def Ow_def by (simp add: W_def) (rule of_nat_0_le_iff)+
  have W0: "0 < W" using Nd.prems(4) unfolding W_def of_nat_0_less_iff .
  have usw: "real (unat sw) = W" using unat_wsub [OF Nd.prems(2,3)] by (simp add: W_def)
  then have sw0: "sw \<noteq> 0" using W0 by auto
  have ul: "unat (wsub l) = wsum (inorder l)" using Nd.prems by (intro unat_wsub) simp_all
  have "unat (wsub l + ow) = unat (wsub l) + unat ow"
    using Nd.prems(3) ul by (intro unat_add_nowrap) simp
  then have ulo: "real (unat (wsub l + ow)) = L + Ow" and ull: "real (unat (wsub l)) = L"
    using ul by (simp_all add: L_def Ow_def)
  have run: "wre_find_weighted_nodes_loop T (Some q) pct best (Some a) =
      (if q < L / W then wre_find_weighted_nodes_loop T (Some (q / (L / W))) pct (Some a) (ptr_of l)
       else if q > (L + Ow) / W
       then wre_find_weighted_nodes_loop T
         (Some ((q - (L + Ow) / W) / (1 - (L + Ow) / W))) pct (Some a) (ptr_of r)
       else Some (Some a, if (L + Ow) / W - L / W = 0 then None
         else Some ((q - L / W) / ((L + Ow) / W - L / W))))"
    using zrep_ld [OF Nd.prems(1)] zrep_depths(3) [OF Nd.prems(1)] sw0 usw ull ulo
    by (subst wre_find_weighted_nodes_loop.simps) (simp add: Let_def)
  consider "q < L / W" | "\<not> q < L / W" "q > (L + Ow) / W" | "\<not> q < L / W" "\<not> q > (L + Ow) / W"
    by blast
  then show ?case
  proof cases
    case 1
    let ?c = "FL a d ow sw ht r # c" and ?q = "q / (L / W)"
    have L: "0 < L" using 1 Nd.prems(5) W W0 by (cases "L = 0") auto
    have q: "0 \<le> ?q" "?q \<le> 1" "?q * L = q * W"
      using 1 L W0 Nd.prems(5) by (simp_all add: field_simps)
    have "locates (plug l ?c) (?q * real (wsum (inorder l)) + real (wsum (before ?c)))
      (wre_find_weighted_nodes_loop T (Some ?q) pct (Some a) (ptr_of l))"
      by (rule Nd.IH(1)) (use Nd.prems q L in \<open>simp_all add: L_def zrep_left\<close>)
    moreover have "?q * real (wsum (inorder l)) + real (wsum (before ?c)) =
        q * real (wsum (inorder ?t)) + real (wsum (before c))"
      using q(3) unfolding W_def [symmetric] L_def [symmetric] by simp
    ultimately show ?thesis using run 1 by simp
  next
    case 2
    let ?c = "FR a l d ow sw ht # c" and ?q = "(q - (L + Ow) / W) / (1 - (L + Ow) / W)"
    have "(L + Ow) / W < 1" using 2(2) Nd.prems(6) by linarith
    then have R: "0 < R" using W W0 by (simp add: field_simps)
    have eq: "1 - (L + Ow) / W = R / W" using W W0 by (simp add: field_simps)
    have qe: "?q = (q * W - (L + Ow)) / R" unfolding eq using W0 R by (simp add: field_simps)
    have lo: "L + Ow < q * W" using 2(2) W0 by (simp add: field_simps)
    have "q * W \<le> 1 * W" using Nd.prems(6) W0 by (intro mult_right_mono) simp_all
    then have hi: "q * W - (L + Ow) \<le> R" using W(1) by linarith
    have q: "0 \<le> ?q" "?q \<le> 1" "?q * R = q * W - L - Ow"
      unfolding qe using lo hi R by simp_all
    have "locates (plug r ?c) (?q * real (wsum (inorder r)) + real (wsum (before ?c)))
      (wre_find_weighted_nodes_loop T (Some ?q) pct (Some a) (ptr_of r))"
      by (rule Nd.IH(2)) (use Nd.prems q R in \<open>simp_all add: R_def zrep_right\<close>)
    moreover have "?q * real (wsum (inorder r)) + real (wsum (before ?c)) =
        q * real (wsum (inorder ?t)) + real (wsum (before c))"
      using q(3) unfolding W_def [symmetric] R_def [symmetric]
      by (simp add: L_def Ow_def)
    moreover have "plug r ?c = plug ?t c" by simp
    moreover have "wre_find_weighted_nodes_loop T (Some q) pct best (ptr_of ?t) =
        wre_find_weighted_nodes_loop T (Some ?q) pct (Some a) (ptr_of r)" using run 2 by simp
    ultimately show ?thesis by (simp only:)
  next
    case 3
    define p where "p = (if (L + Ow) / W - L / W = 0 then None
         else Some ((q - L / W) / ((L + Ow) / W - L / W)))"
    have Ow0: "Ow = 0 \<longleftrightarrow> ow = 0" unfolding Ow_def of_nat_eq_0_iff unat_eq_0 ..
    have wd: "(L + Ow) / W - L / W = Ow / W" by (simp add: diff_divide_distrib [symmetric])
    have "p = (if ow = 0 then None else Some ((q * W - L) / Ow))"
      unfolding p_def wd using W0 Ow0 by (auto simp: field_simps)
    moreover have "L \<le> q * W" "q * W \<le> L + Ow" using 3 W0 by (simp_all add: field_simps)
    ultimately have "hit (inorder (plug ?t c)) (q * W + real (wsum (before c))) (d, ow) p
        (before c @ inorder l) (inorder r @ after c)"
      by (simp add: hit_def inorder_plug L_def Ow_def)
    moreover have "wre_find_weighted_nodes_loop T (Some q) pct best (ptr_of ?t) = Some (Some a, p)"
      using run 3 by (simp add: p_def)
    ultimately show ?thesis unfolding locates_def W_def by blast
  qed
qed simp


lemma weighted_nodes_run:
  assumes inv: "wre_inv T t" and w: "wsum (inorder t) < 2 ^ 64" "0 < wsum (inorder t)"
    and q: "0 \<le> q" "q \<le> 1"
  obtains a l d ow sw ht r c p where "plug (Nd a l d ow sw ht r) c = t"
    "zrep T (Nd a l d ow sw ht r) c"
    "wre_find_weighted_nodes_internal T (Some q) pct = Some (Some a, p)"
    "hit (inorder t) (q * real (wsum (inorder t))) (d, ow) p (before c @ inorder l) (inorder r @ after c)"
proof -
  have z: "zrep T t []" and ca: "cached t" using inv by (simp_all add: wre_inv_def)
  from weighted_loop_run [OF z ca w q, of pct "rootNode T"] z
  have "locates t (q * real (wsum (inorder t))) (wre_find_weighted_nodes_internal T (Some q) pct)"
    by (simp add: wre_find_weighted_nodes_internal_def zrep_def)
  then show thesis using that z zrep_plug [of T _ _] unfolding locates_def by metis
qed

text \<open>
  C21: \<open>wre_find_weighted\<close> finds the weight quantile.  For a ratio between 0 and 1 it returns
  an entry such that the entries below it weigh at most that share of the total, and
  together with it at least that share.  (Weights whose sum exceeds 64 bits are excluded.)
\<close>

theorem wre_find_weighted_quantile:
  assumes "wre_rep T es" "wsum es < 2 ^ 64" "0 < wsum es" "0 \<le> q" "q \<le> 1"
  shows "\<exists>xs d w ys. wre_find_weighted T (Some q) = Some (Some d) \<and> es = xs @ (d, w) # ys \<and>
    real (wsum xs) \<le> q * real (wsum es) \<and> q * real (wsum es) \<le> real (wsum xs + unat w)"
proof -
  from assms(1) obtain t where t: "wre_inv T t" "inorder t = es" by (auto simp: wre_rep_def)
  obtain a l d ow sw ht r c p where "plug (Nd a l d ow sw ht r) c = t"
    and z: "zrep T (Nd a l d ow sw ht r) c"
    and f: "wre_find_weighted_nodes_internal T (Some q) (Some 0) = Some (Some a, p)"
    and h: "hit (inorder t) (q * real (wsum (inorder t))) (d, ow) p (before c @ inorder l) (inorder r @ after c)"
    by (rule weighted_nodes_run [OF t(1), of q "Some 0"]) (use assms t(2) in auto)
  have "wre_find_weighted T (Some q) = Some (Some d)"
    using f zrep_ld [OF z] by (simp add: wre_find_weighted_def)
  then show ?thesis using h unfolding hit_def t(2) snd_conv by blast
qed

theorem wre_find_weighted_quantile_witness: "wre_find_weighted demo_tree1 (Some (1 / 2)) = Some (Some 5)"
  using wre_find_weighted_quantile [OF demo_tree1_rep, of "1 / 2"]
  by (auto simp: append_eq_Cons_conv Cons_eq_append_conv)

section \<open>The interpolated search\<close>

text \<open>The frame at which \<open>climb_right\<close> stops.\<close>

primrec skip_right :: "'d frame \<Rightarrow> bool" where
  "skip_right (FL a d ow sw ht r) \<longleftrightarrow> r = Nil"
| "skip_right (FR a l d ow sw ht) \<longleftrightarrow> True"

primrec skip_left :: "'d frame \<Rightarrow> bool" where
  "skip_left (FL a d ow sw ht r) \<longleftrightarrow> True"
| "skip_left (FR a l d ow sw ht) \<longleftrightarrow> l = Nil"

lemma climb_right_run:
  "zrep T t c \<Longrightarrow> t \<noteq> Nil \<Longrightarrow> \<exists>t' c'. c' = dropWhile skip_right c \<and> t' \<noteq> Nil \<and>
     zrep T t' c' \<and> climb_right T (ptr_of t) = Some (ptr_of t')"
proof (induction c arbitrary: t)
  case Nil
  then obtain a l d ow sw ht r where t: "t = Nd a l d ow sw ht r" by (cases t) auto
  show ?case using Nil zrep_ld [OF Nil(1) [unfolded t]]
    by (subst climb_right.simps) (auto simp: t)
next
  case (Cons f c)
  then obtain a l d ow sw ht r where t: "t = Nd a l d ow sw ht r" by (cases t) auto
  obtain x l' d' ow' sw' ht' r' where f: "fill f t = Nd x l' d' ow' sw' ht' r'"
    "ctx_parent (f # c) = Some x" by (cases f) auto
  have zf: "zrep T (fill f t) c" using Cons.prems(1) by (simp add: zrep_fill)
  note n = zrep_ld [OF Cons.prems(1) [unfolded t]] and pn = zrep_ld [OF zf [unfolded f(1)]]
  show ?case
  proof (cases "skip_right f")
    case True
    have "climb_right T (ptr_of t) = climb_right T (Some x)"
      using n pn True f by (subst climb_right.simps; cases f) (auto simp: t)
    moreover have "fill f t \<noteq> Nil" by (simp add: f(1))
    from Cons.IH [OF zf this] obtain t' where "t' \<noteq> Nil" "zrep T t' (dropWhile skip_right c)"
      "climb_right T (Some x) = Some (ptr_of t')" by (auto simp: f(1))
    ultimately show ?thesis using True by auto
  next
    case False
    then obtain a' d'' ow'' sw'' ht'' r'' where ff: "f = FL a' d'' ow'' sw'' ht'' r''" "r'' \<noteq> Nil"
      by (cases f) auto
    have "ptr_of r' \<noteq> NULL" using ff f(1) by (cases r'') auto
    then have "climb_right T (ptr_of t) = Some (ptr_of t)"
      using n pn f ff by (subst climb_right.simps) (auto simp: t)
    then show ?thesis using Cons.prems False by auto
  qed
qed


lemma leftmost_data:
  assumes z: "zrep T t c" and t: "t \<noteq> Nil"
  shows "\<exists>m. go_leftmost T (ptr_of t) = Some (Some m) \<and>
    data_of T (Some m) = Some (Some (fst (hd (inorder t))))"
proof -
  from min_path_cases [OF t, of c] obtain m d ow sw ht r cr
    where m: "min_path t c = (Nd m Nil d ow sw ht r, cr @ c)"
      "plug (Nd m Nil d ow sw ht r) cr = t" "before cr = []" by blast
  have "zrep T (Nd m Nil d ow sw ht r) (cr @ c)"
    using z zrep_plug [of T t c] zrep_plug [of T "Nd m Nil d ow sw ht r" "cr @ c"] m(2)
    by (simp add: plug_append)
  moreover have "inorder t = (d, ow) # inorder r @ after cr"
    using inorder_plug [of "Nd m Nil d ow sw ht r" cr] m(2,3) by simp
  ultimately show ?thesis
    using go_leftmost_run [OF z t] m(1) by (auto simp: data_of_def dest: zrep_ld)
qed

lemma after_skip: "dropWhile skip_right c = f # c' \<Longrightarrow> set (inorder (sibling f)) \<subseteq> set (after c)"
proof (induction c)
  case (Cons g c)
  then show ?case by (cases g) (auto split: if_splits)
qed simp

lemma find_node_right_run:
  assumes z: "zrep T (Nd a l d ow sw ht r) c"
  defines "u \<equiv> if r \<noteq> Nil then r else if dropWhile skip_right c = [] then Nil
    else sibling (hd (dropWhile skip_right c))"
  shows "if u = Nil then wre_find_node_right T (Some a) = Some NULL
    else \<exists>m. wre_find_node_right T (Some a) = Some (Some m) \<and>
      data_of T (Some m) = Some (Some (fst (hd (inorder u))))"
proof (cases "r = Nil")
  case False
  then have p: "ptr_of r \<noteq> NULL" by (cases r) auto
  from leftmost_data [of T r "FR a l d ow sw ht # c"] False z
  show ?thesis using zrep_ld [OF z] p
    by (auto simp: u_def zrep_right wre_find_node_right_def)
next
  case True
  from climb_right_run [OF z] obtain t' where t': "t' \<noteq> Nil" "zrep T t' (dropWhile skip_right c)"
    "climb_right T (Some a) = Some (ptr_of t')" by auto
  then obtain a' l' d' ow' sw' ht' r' where tn: "t' = Nd a' l' d' ow' sw' ht' r'" by (cases t') auto
  note n = zrep_ld [OF z] and n' = zrep_ld [OF t'(2) [unfolded tn]]
  show ?thesis
  proof (cases "dropWhile skip_right c")
    case Nil
    show ?thesis using n n' [unfolded Nil] t'(3)
      by (simp add: Nil True u_def wre_find_node_right_def tn)
  next
    case (Cons f c')
    then have "\<not> skip_right f" by (metis hd_dropWhile list.distinct(1) list.sel(1))
    then obtain p dp op sp hp s where f: "f = FL p dp op sp hp s" "s \<noteq> Nil" by (cases f) auto
    have zp: "zrep T (Nd p t' dp op sp hp s) c'" using t'(2) by (simp add: Cons f zrep_left)
    have s: "ptr_of s \<noteq> NULL" using f(2) by (cases s) auto
    from leftmost_data [of T s "FR p t' dp op sp hp # c'"] f(2) zp
    show ?thesis using n n' t'(3) True zrep_ld [OF zp] s
      by (auto simp: u_def wre_find_node_right_def tn Cons f zrep_right)
  qed
qed

lemma interpolated_run:
  assumes "wre_rep T es" "wsum es < 2 ^ 64" "0 < wsum es" "0 \<le> q" "q \<le> 1"
  shows "\<exists>xs d w ys. es = xs @ (d, w) # ys \<and> real (wsum xs) \<le> q * real (wsum es) \<and>
    q * real (wsum es) \<le> real (wsum xs + unat w) \<and>
    (q * real (wsum es) < real (wsum xs + unat w) \<longrightarrow>
      (\<exists>res. wre_find_weighted_interpolated T (Some q) = Some res \<and> ir_left res = Some d \<and>
        percentage res = Some ((q * real (wsum es) - real (wsum xs)) / real (unat w)) \<and>
        (case ir_right res of None \<Rightarrow> fallbackRequired res
         | Some d' \<Rightarrow> \<not> fallbackRequired res \<and> d' \<in> fst ` set ys)))"
proof -
  from assms(1) obtain t where t: "wre_inv T t" "inorder t = es" by (auto simp: wre_rep_def)
  obtain a l d ow sw ht r c p where "plug (Nd a l d ow sw ht r) c = t"
    and z: "zrep T (Nd a l d ow sw ht r) c"
    and f: "wre_find_weighted_nodes_internal T (Some q) (Some 0) = Some (Some a, p)"
    and h: "hit (inorder t) (q * real (wsum (inorder t))) (d, ow) p (before c @ inorder l) (inorder r @ after c)"
    by (rule weighted_nodes_run [OF t(1), of q "Some 0"]) (use assms t(2) in auto)
  define Q xs where "Q = q * real (wsum es)" and "xs = before c @ inorder l"
  have h': "es = xs @ (d, ow) # inorder r @ after c" "real (wsum xs) \<le> Q"
      "Q \<le> real (wsum xs) + real (unat ow)"
      "p = (if ow = 0 then None else Some ((Q - real (wsum xs)) / real (unat ow)))"
    using h unfolding hit_def t(2) Q_def [symmetric] xs_def [symmetric] by simp_all
  define u where "u = (if r \<noteq> Nil then r else if dropWhile skip_right c = [] then Nil
    else sibling (hd (dropWhile skip_right c)))"
  note nr = find_node_right_run [OF z, folded u_def]
  have u: "fst (hd (inorder u)) \<in> fst ` set (inorder r @ after c)" if "u \<noteq> Nil"
  proof -
    have "inorder u \<noteq> []" using that by (cases u) auto
    moreover have "set (inorder u) \<subseteq> set (inorder r @ after c)"
      using after_skip [of c] that by (cases "dropWhile skip_right c") (auto simp: u_def split: if_splits)
    ultimately show ?thesis using hd_in_set by blast
  qed
  have best: "data_of T (Some a) = Some (Some d)" using zrep_ld [OF z] by (simp add: data_of_def)
  have "\<exists>res. wre_find_weighted_interpolated T (Some q) = Some res \<and> ir_left res = Some d \<and>
        percentage res = Some ((Q - real (wsum xs)) / real (unat ow)) \<and>
        (case ir_right res of None \<Rightarrow> fallbackRequired res
         | Some d' \<Rightarrow> \<not> fallbackRequired res \<and> d' \<in> fst ` set (inorder r @ after c))"
    if lt: "Q < real (wsum xs) + real (unat ow)"
  proof -
    have ow: "0 < real (unat ow)" using lt h'(2) by linarith
    then have p: "p = Some ((Q - real (wsum xs)) / real (unat ow))" using h'(4) by auto
    have "dlt p 1" using lt ow by (simp add: p dlt_def)
    note dl = this
    show ?thesis
    proof (cases "u = Nil")
      case True
      then show ?thesis using f nr best p dl
        by (auto simp: wre_find_weighted_interpolated_def Let_def)
    next
      case False
      with nr obtain m where m: "wre_find_node_right T (Some a) = Some (Some m)"
        "data_of T (Some m) = Some (Some (fst (hd (inorder u))))" by auto
      then have "wre_find_weighted_interpolated T (Some q) = Some \<lparr>ir_left = Some d,
          ir_right = Some (fst (hd (inorder u))), percentage = p, fallbackRequired = False\<rparr>"
        using f best dl by (simp add: wre_find_weighted_interpolated_def)
      then show ?thesis using u [OF False] p by (simp del: set_append)
    qed
  qed
  then show ?thesis using h' unfolding Q_def by (intro exI conjI) (assumption | simp)+
qed


text \<open>
  The interpolated search in exact arithmetic.  When the ratio falls strictly inside an entry (not on its
  upper boundary), the call returns that entry as \<open>left\<close> with the exact fraction of its
  weight as \<open>percentage\<close>; \<open>right\<close> is an entry further up in the order, and it is absent
  exactly when \<open>fallbackRequired\<close> is set.  In doubles a ratio just below the boundary can
  still round to a percentage of 1 (weights 10, 10, 10 and the double nearest to 2/3), and
  the call then aborts as it does on the boundary below.
\<close>

theorem wre_find_weighted_interpolated_inside:
  assumes "wre_rep T es" "wsum es < 2 ^ 64" "0 < wsum es" "0 \<le> q" "q \<le> 1"
  shows "\<exists>xs d w ys. es = xs @ (d, w) # ys \<and> real (wsum xs) \<le> q * real (wsum es) \<and>
    q * real (wsum es) \<le> real (wsum xs + unat w) \<and>
    (q * real (wsum es) < real (wsum xs + unat w) \<longrightarrow>
      (\<exists>res. wre_find_weighted_interpolated T (Some q) = Some res \<and> ir_left res = Some d \<and>
        percentage res = Some ((q * real (wsum es) - real (wsum xs)) / real (unat w)) \<and>
        (case ir_right res of None \<Rightarrow> fallbackRequired res
         | Some d' \<Rightarrow> \<not> fallbackRequired res \<and> d' \<in> fst ` set ys)))"
  using assms by (rule interpolated_run)

text \<open>
  On the exact upper boundary of the root entry the interpolated search aborts.  If the
  root has a right subtree and a weight of its own, the ratio at which the root ends makes
  \<open>percentage\<close> 1, and the assertion that there is no right node fails.
\<close>

theorem wre_find_weighted_interpolated_boundary:
  assumes inv: "wre_inv T (Nd a l d ow sw ht r)" and r: "r \<noteq> Nil" and ow: "ow \<noteq> 0"
    and w: "wsum (inorder (Nd a l d ow sw ht r)) < 2 ^ 64"
  shows "wre_find_weighted_interpolated T
    (Some (real (wsum (inorder l) + unat ow) / real (wsum (inorder (Nd a l d ow sw ht r))))) = None"
proof -
  let ?t = "Nd a l d ow sw ht r"
  define W L Ow where "W = real (wsum (inorder ?t))" and "L = real (wsum (inorder l))"
    and "Ow = real (unat ow)"
  have z: "zrep T ?t []" and ca: "cached ?t" using inv unfolding wre_inv_def by blast+
  have "0 < unat ow" using ow by (simp add: unat_gt_0)
  then have Ow: "0 < Ow" unfolding Ow_def of_nat_0_less_iff .
  have "W = L + Ow + real (wsum (inorder r))" by (simp add: W_def L_def Ow_def)
  moreover have "0 \<le> L" "0 \<le> real (wsum (inorder r))" unfolding L_def by (rule of_nat_0_le_iff)+
  ultimately have W: "0 < W" "0 \<le> L" "L + Ow \<le> W" using Ow by linarith+
  have usw: "real (unat sw) = W" using unat_wsub [OF ca w] by (simp add: W_def)
  have ul: "unat (wsub l) = wsum (inorder l)" using ca w by (intro unat_wsub) simp_all
  have "unat (wsub l + ow) = unat (wsub l) + unat ow"
    using w ul by (intro unat_add_nowrap) simp
  then have ulo: "real (unat (wsub l + ow)) = L + Ow" and ull: "real (unat (wsub l)) = L"
    using ul by (simp_all add: L_def Ow_def)
  have "(L + Ow) / W - L / W = Ow / W" by (simp add: diff_divide_distrib [symmetric])
  moreover have "0 < Ow / W" using W(1) Ow by simp
  ultimately have "\<not> (L + Ow) / W < L / W" "(L + Ow) / W - L / W \<noteq> 0" by linarith+
  then have f: "wre_find_weighted_nodes_internal T (Some ((L + Ow) / W)) (Some 0) = Some (Some a, Some 1)"
    unfolding wre_find_weighted_nodes_internal_def
    using zrep_ld [OF z] zrep_depths(3) [OF z] z usw ull ulo W(1)
    by (subst wre_find_weighted_nodes_loop.simps) (auto simp: Let_def zrep_def)
  from find_node_right_run [OF z] r obtain m where "wre_find_node_right T (Some a) = Some (Some m)"
    by auto
  then have "wre_find_weighted_interpolated T (Some ((L + Ow) / W)) = None"
    using f zrep_ld [OF z] by (simp add: wre_find_weighted_interpolated_def data_of_def dlt_def)
  then show ?thesis by (simp add: W_def L_def Ow_def)
qed

text \<open>
  \<open>wre_find_node_right\<close> is not the in-order successor.  For a node without right child
  that is the left child of a parent with a right subtree, the next entry in the order is
  the parent, but the function returns the first entry of the parent's right subtree.
\<close>

theorem wre_find_node_right_skips_parent:
  assumes "wre_inv T (plug (Nd a l d ow sw ht Nil) (FL p dp op sp hp s # c))" "s \<noteq> Nil"
  shows "inorder (plug (Nd a l d ow sw ht Nil) (FL p dp op sp hp s # c)) =
      (before c @ inorder l) @ (d, ow) # (dp, op) # inorder s @ after c \<and>
    (\<exists>m. wre_find_node_right T (Some a) = Some (Some m) \<and>
      data_of T (Some m) = Some (Some (fst (hd (inorder s)))))"
proof -
  have z: "zrep T (Nd a l d ow sw ht Nil) (FL p dp op sp hp s # c)"
    using assms(1) zrep_plug [of T "Nd a l d ow sw ht Nil" "FL p dp op sp hp s # c"]
    by (simp add: wre_inv_def)
  from find_node_right_run [OF z] assms(2) show ?thesis by (simp add: inorder_plug)
qed

section \<open>Concrete trees of three nodes\<close>

definition demo_slab3 :: slab_alloc where
  "demo_slab3 = demo_slab\<lparr>used := 3,
     sa_metas := [4096 \<mapsto> \<lparr>fm_allocator = 64, fm_next = NULL\<rparr>,
       4144 \<mapsto> \<lparr>fm_allocator = 64, fm_next = NULL\<rparr>, 4192 \<mapsto> \<lparr>fm_allocator = 64, fm_next = NULL\<rparr>]\<rparr>"

lemma demo_slab3_rep: "slab_rep demo_slab3 {4112, 4160, 4208}"
proof -
  have m2: "slab_alloc_malloc demo_os demo_slab1 = Some (Some 4160, demo_slab1\<lparr>used := 2,
     sa_metas := [4096 \<mapsto> \<lparr>fm_allocator = 64, fm_next = NULL\<rparr>,
       4144 \<mapsto> \<lparr>fm_allocator = 64, fm_next = NULL\<rparr>]\<rparr>)" (is "_ = Some (_, ?al2)")
    by (simp add: slab_alloc_malloc_def slab_alloc_glob_freelist_pop_def slab_alloc_create_meta_def
        slab_alloc_fetch_increment_used_def slab_alloc_node_meta_to_addr_def bigary_alloc_def
        demo_slab_def demo_slab1_def META_SIZE_def Let_def)
  have m3: "slab_alloc_malloc demo_os ?al2 = Some (Some 4208, demo_slab3)"
    by (simp add: slab_alloc_malloc_def slab_alloc_glob_freelist_pop_def slab_alloc_create_meta_def
        slab_alloc_fetch_increment_used_def slab_alloc_node_meta_to_addr_def bigary_alloc_def
        demo_slab_def demo_slab1_def demo_slab3_def META_SIZE_def Let_def)
  have r1: "slab_rep demo_slab1 {4112}"
    using slab.malloc_fresh [OF demo_slab_rep demo_malloc] by simp
  have r2: "slab_rep ?al2 {4160, 4112}"
    using slab.malloc_fresh [OF r1 m2] by simp
  show ?thesis using slab.malloc_fresh [OF r2 m3] by (simp add: insert_commute)
qed

definition demo_atree3 :: "int atree" where
  "demo_atree3 = Nd 4112 (Nd 4160 Nil 1 10 10 0 Nil) 2 10 30 1 (Nd 4208 Nil 3 10 10 0 Nil)"

definition demo_tree3 :: "int wre_tree" where
  "demo_tree3 = \<lparr>rootNode = Some 4112, nodes = [
       4112 \<mapsto> \<lparr>subtreeWeight = 30, ownWeight = 10, height = 1, left = Some 4160,
         right = Some 4208, parent = NULL, which = ROOT_NODE, data = Some 2\<rparr>,
       4160 \<mapsto> \<lparr>subtreeWeight = 10, ownWeight = 10, height = 0, left = NULL, right = NULL,
         parent = Some 4112, which = LEFT_NODE, data = Some 1\<rparr>,
       4208 \<mapsto> \<lparr>subtreeWeight = 10, ownWeight = 10, height = 0, left = NULL, right = NULL,
         parent = Some 4112, which = RIGHT_NODE, data = Some 3\<rparr>],
     nodeAlloc = demo_slab3, tree_size = 3, is_lower_check = (<)\<rparr>"

lemma demo_tree3_inv: "wre_inv demo_tree3 demo_atree3"
  unfolding wre_inv_def demo_atree3_def using demo_slab3_rep
  by (auto simp: demo_tree3_def zrep_def sorted_entries_def insert_commute)

lemma demo_tree3_rep: "wre_rep demo_tree3 [(1, 10), (2, 10), (3, 10)]"
  using demo_tree3_inv by (auto simp: wre_rep_def demo_atree3_def)

theorem wre_find_weighted_interpolated_boundary_witness:
  "wre_find_weighted_interpolated demo_tree3 (Some (2 / 3)) = None"
  using wre_find_weighted_interpolated_boundary [OF demo_tree3_inv [unfolded demo_atree3_def]]
  by simp

theorem wre_find_node_right_skips_parent_witness:
  "\<exists>m. wre_find_node_right demo_tree3 (Some 4160) = Some (Some m) \<and>
    data_of demo_tree3 (Some m) = Some (Some 3)"
  using wre_find_node_right_skips_parent [of demo_tree3 4160 Nil 1 10 10 0 4112 2 10 30 1
      "Nd 4208 Nil 3 10 10 0 Nil" "[]"] demo_tree3_inv
  by (simp add: demo_atree3_def)

theorem wre_find_weighted_interpolated_inside_witness:
  "\<exists>xs d w ys. [(1, 10), (2, 10), (3, 10)] = xs @ (d, w) # ys \<and>
    real (wsum xs) \<le> 1 / 2 * 30 \<and> 1 / 2 * 30 \<le> real (wsum xs + unat w) \<and>
    (1 / 2 * 30 < real (wsum xs + unat w) \<longrightarrow>
      (\<exists>res. wre_find_weighted_interpolated demo_tree3 (Some (1 / 2)) = Some res \<and> ir_left res = Some d))"
  using wre_find_weighted_interpolated_inside [OF demo_tree3_rep, of "1 / 2"] by simp blast

end
