(* ===== verification/Weighted_Store.thy ===== *)
theory Weighted_Store
  imports Avl_Order
begin

text \<open>
  The interface between the ranking and its tree: an ordered store of weighted entries.
  The ranking keeps at most one entry per key; \<open>weight_of P es\<close> is the total weight of the
  entries whose key satisfies \<open>P\<close>, as a 64-bit sum.
\<close>

definition weight_of :: "('d \<Rightarrow> bool) \<Rightarrow> ('d \<times> size_t) list \<Rightarrow> size_t" where
  "weight_of P es = sum_list (map snd (filter (\<lambda>e. P (fst e)) es))"

definition strict_entries :: "('d \<Rightarrow> 'd \<Rightarrow> bool) \<Rightarrow> ('d \<times> size_t) list \<Rightarrow> bool" where
  "strict_entries lower es \<longleftrightarrow> sorted_wrt (\<lambda>x y. lower (fst x) (fst y)) es"

lemma weight_of_simps [simp]:
  "weight_of P [] = 0"
  "weight_of P (e # es) = (if P (fst e) then snd e else 0) + weight_of P es"
  "weight_of P (xs @ ys) = weight_of P xs + weight_of P ys"
  by (simp_all add: weight_of_def)

lemma weight_of_put_entry:
  "weight_of P (put_entry lower k w es) = weight_of P es + (if P k then w else 0)"
proof -
  have "weight_of P es = weight_of P (takeWhile (\<lambda>e. lower (fst e) k) es)
      + weight_of P (dropWhile (\<lambda>e. lower (fst e) k) es)"
    by (simp flip: weight_of_simps(3))
  then show ?thesis by (simp add: put_entry_def)
qed

lemma set_put_entry: "set (put_entry lower k w es) = insert (k, w) (set es)"
proof -
  have "set es = set (takeWhile (\<lambda>e. lower (fst e) k) es @ dropWhile (\<lambda>e. lower (fst e) k) es)"
    by simp
  then show ?thesis by (simp add: put_entry_def del: takeWhile_dropWhile_id)
qed

lemma weight_of_none: "\<forall>e\<in>set es. \<not> P (fst e) \<Longrightarrow> weight_of P es = 0"
  by (induction es) auto

lemma strict_entries_remove:
  assumes "strict_entries lower (xs @ e # ys)"
  shows "strict_entries lower (xs @ ys)"
    and "\<forall>e'\<in>set (xs @ ys). lower (fst e') (fst e) \<or> lower (fst e) (fst e')"
  using assms by (auto simp: strict_entries_def sorted_wrt_append)

locale weighted_store = weak_order lower
  for lower :: "'d \<Rightarrow> 'd \<Rightarrow> bool" +
  fixes store :: "'s \<Rightarrow> ('d \<times> size_t) list \<Rightarrow> bool"
    and room :: "'s \<Rightarrow> bool"
    and put :: "'s \<Rightarrow> 'd \<Rightarrow> size_t \<Rightarrow> 's option"
    and remove :: "'s \<Rightarrow> 'd \<Rightarrow> ('d option \<times> 's) option"
  assumes put_ok: "store s es \<Longrightarrow> room s \<Longrightarrow>
      \<exists>s'. put s d w = Some s' \<and> store s' (put_entry lower d w es)"
    and remove_ok: "store s es \<Longrightarrow> \<exists>s' ret. remove s k = Some (ret, s') \<and> (case ret of
       None \<Rightarrow> s' = s \<and> (\<forall>e\<in>set es. lower (fst e) k \<or> lower k (fst e))
     | Some d \<Rightarrow> \<not> lower d k \<and> \<not> lower k d \<and> room s' \<and>
         (\<exists>xs w ys. es = xs @ (d, w) # ys \<and> store s' (xs @ ys)))"
    and put_room: "store s es \<Longrightarrow> room s \<Longrightarrow> remove s k = Some (Some d, s') \<Longrightarrow>
      put s' d' w = Some s'' \<Longrightarrow> room s''"
begin

lemma put_strict:
  assumes "strict_entries lower es" "\<forall>e\<in>set es. lower (fst e) k \<or> lower k (fst e)"
  shows "strict_entries lower (put_entry lower k w es)"
proof -
  let ?P = "\<lambda>e. lower (fst e) k"
  define xs ys where "xs = takeWhile ?P es" and "ys = dropWhile ?P es"
  have es: "es = xs @ ys" by (simp add: xs_def ys_def)
  have xs: "\<forall>e\<in>set xs. lower (fst e) k" by (auto simp: xs_def dest: set_takeWhileD)
  have "lower k (fst e)" if "e \<in> set ys" for e
  proof (cases ys)
    case (Cons y ys')
    have "\<not> lower (fst y) k" using Cons dropWhile_eq_Cons_conv [of ?P es y ys'] by (simp add: ys_def)
    then have "lower k (fst y)" using assms(2) es Cons by auto
    moreover have "e = y \<or> lower (fst y) (fst e)"
      using assms(1) that by (auto simp: es Cons strict_entries_def sorted_wrt_append)
    ultimately show ?thesis using trans by blast
  qed (use that in simp)
  moreover have "strict_entries lower (xs @ ys)" using assms(1) es by simp
  ultimately have "strict_entries lower (xs @ (k, w) # ys)"
    using xs by (auto simp: strict_entries_def sorted_wrt_append)
  then show ?thesis by (simp add: put_entry_def xs_def ys_def)
qed

lemma remove_absent:
  assumes "store s es" "\<forall>e\<in>set es. lower (fst e) k \<or> lower k (fst e)"
  shows "remove s k = Some (None, s)"
proof -
  from remove_ok [OF assms(1), of k] obtain s' ret where r: "remove s k = Some (ret, s')"
    "case ret of None \<Rightarrow> s' = s \<and> (\<forall>e\<in>set es. lower (fst e) k \<or> lower k (fst e))
     | Some d \<Rightarrow> \<not> lower d k \<and> \<not> lower k d \<and> room s' \<and>
         (\<exists>xs w ys. es = xs @ (d, w) # ys \<and> store s' (xs @ ys))" by blast
  then show ?thesis using assms(2) by (cases ret) auto
qed

lemma remove_present:
  assumes st: "store s es" and un: "strict_entries lower es"
    and e: "(v, w) \<in> set es" "\<not> lower v k" "\<not> lower k v"
  shows "\<exists>s' es'. remove s k = Some (Some v, s') \<and> store s' es' \<and> room s' \<and>
    strict_entries lower es' \<and> set es' = set es - {(v, w)} \<and>
    (\<forall>e\<in>set es'. lower (fst e) v \<or> lower v (fst e)) \<and>
    (\<forall>P. weight_of P es = weight_of P es' + (if P v then w else 0))"
proof -
  from remove_ok [OF st, of k] obtain s' ret where r: "remove s k = Some (ret, s')"
    "case ret of None \<Rightarrow> s' = s \<and> (\<forall>e\<in>set es. lower (fst e) k \<or> lower k (fst e))
     | Some d \<Rightarrow> \<not> lower d k \<and> \<not> lower k d \<and> room s' \<and>
         (\<exists>xs w ys. es = xs @ (d, w) # ys \<and> store s' (xs @ ys))" by blast
  from r(2) e obtain d xs w' ys where d: "ret = Some d" "\<not> lower d k" "\<not> lower k d" "room s'"
    "es = xs @ (d, w') # ys" "store s' (xs @ ys)" by (cases ret) (force, auto)
  note sr = strict_entries_remove [OF un [unfolded d(5)]]
  have dv: "\<not> lower d v" "\<not> lower v d" using d(2,3) e(2,3) negtrans by blast+
  have out: "(v, w) \<notin> set (xs @ ys)" using sr(2) dv by fastforce
  then have eq: "(v, w) = (d, w')" using e(1) by (auto simp: d(5))
  then have "set (xs @ ys) = set es - {(v, w)}" using out by (auto simp: d(5))
  then show ?thesis using r(1) d(1,4,6) sr eq
    by (intro exI [of _ s'] exI [of _ "xs @ ys"]) (auto simp: d(5))
qed

end

end
