(* ===== verification/Ranking_Controller.thy ===== *)
theory Ranking_Controller
  imports Prelude
begin

text \<open>
  Component \<open>src/ranking_controller.c\<close>: a proportional-integral controller that turns the
  measured share of DRAM in the allocated memory into a corrected target share.  The build
  has \<open>CONTROLLER_TRANSFORM_ENABLED\<close> 0.  A measured
  share can be NaN, which the integrated error then keeps.
\<close>

record ranking_controller =
  integrated_error :: double
  proportional :: real
  integral :: real
  hotTierSize :: double
  coldTierSize :: double

definition ranking_controller_set_expected_dram_total ::
  "ranking_controller \<Rightarrow> double \<Rightarrow> ranking_controller" where
  "ranking_controller_set_expected_dram_total c expected_dram_total =
     c\<lparr>hotTierSize := expected_dram_total, coldTierSize := dop (-) (Some 1) expected_dram_total\<rparr>"

definition ranking_controller_init_ranking_controller ::
  "ranking_controller \<Rightarrow> double \<Rightarrow> real \<Rightarrow> real \<Rightarrow> ranking_controller" where
  "ranking_controller_init_ranking_controller c expected_dram_total proportional_term integral_term =
     ranking_controller_set_expected_dram_total
       (c\<lparr>integrated_error := Some 0, proportional := proportional_term, integral := integral_term\<rparr>)
       expected_dram_total"

definition ranking_controller_calculate_fixed_thresh ::
  "ranking_controller \<Rightarrow> double \<Rightarrow> double \<times> ranking_controller" where
  "ranking_controller_calculate_fixed_thresh controller found_dram_total =
     (let a = coldTierSize controller;
          c = dop (-) (Some 1) found_dram_total;
          e = dop (-) a c;
          controller' = controller\<lparr>integrated_error := dop (+) (integrated_error controller) e\<rparr>;
          steering_signal = dop (+) (dop (*) e (Some (proportional controller')))
            (dop (*) (integrated_error controller') (Some (integral controller')));
          new_inv_thresh = dop (+) a steering_signal;
          out = dop (-) (Some 1) new_inv_thresh;
          out' = (if dgt out 1 then Some 1 else if dlt out 0 then Some 0 else out)
      in (out', controller'))"

text \<open>A run of the controller: the measured shares, one per step, against a fixed target.\<close>

fun controller_run :: "ranking_controller \<Rightarrow> double \<Rightarrow> double list \<Rightarrow> ranking_controller" where
  "controller_run c target [] = c"
| "controller_run c target (m # ms) =
     controller_run (snd (ranking_controller_calculate_fixed_thresh
       (ranking_controller_set_expected_dram_total c target) m)) target ms"

lemma controller_output_range:
  assumes "integrated_error c = Some i"
  obtains q where "fst (ranking_controller_calculate_fixed_thresh
      (ranking_controller_set_expected_dram_total c (Some t)) (Some m)) = Some q" "0 \<le> q" "q \<le> 1"
proof -
  let ?c = "ranking_controller_set_expected_dram_total c (Some t)"
  have "\<exists>x. fst (ranking_controller_calculate_fixed_thresh ?c (Some m)) =
      Some (if x > 1 then 1 else if x < 0 then 0 else x)"
    using assms by (auto simp: ranking_controller_calculate_fixed_thresh_def
        ranking_controller_set_expected_dram_total_def Let_def)
  then obtain x where "fst (ranking_controller_calculate_fixed_thresh ?c (Some m)) =
      Some (if x > 1 then 1 else if x < 0 then 0 else x)" by blast
  then show thesis by (rule that) simp_all
qed

lemma controller_step_error:
  "integrated_error (snd (ranking_controller_calculate_fixed_thresh
      (ranking_controller_set_expected_dram_total c (Some target)) m))
     = dop (+) (integrated_error c) (dop (-) m (Some target))"
  by (cases m) (simp_all add: ranking_controller_calculate_fixed_thresh_def
      ranking_controller_set_expected_dram_total_def Let_def)

lemma controller_step_gains:
  "proportional (snd (ranking_controller_calculate_fixed_thresh
      (ranking_controller_set_expected_dram_total c target) m)) = proportional c"
  "integral (snd (ranking_controller_calculate_fixed_thresh
      (ranking_controller_set_expected_dram_total c target) m)) = integral c"
  by (simp_all add: ranking_controller_calculate_fixed_thresh_def
      ranking_controller_set_expected_dram_total_def Let_def)

text \<open>NaN, once measured, stays: the integrated error and every later answer are NaN.\<close>

lemma controller_nan:
  assumes "integrated_error c = None \<or> target = None \<or> m = None"
  shows "fst (ranking_controller_calculate_fixed_thresh
      (ranking_controller_set_expected_dram_total c target) m) = None"
    and "integrated_error (snd (ranking_controller_calculate_fixed_thresh
      (ranking_controller_set_expected_dram_total c target) m)) = None"
  using assms by (auto simp: ranking_controller_calculate_fixed_thresh_def
      ranking_controller_set_expected_dram_total_def Let_def)

lemma controller_run_error:
  "integrated_error c = Some i \<Longrightarrow>
   integrated_error (controller_run c (Some target) (map Some ms)) = Some (i + (\<Sum>m\<leftarrow>ms. m - target))"
  by (induction ms arbitrary: c i) (simp_all add: controller_step_error)

lemma controller_run_gains:
  "proportional (controller_run c target ms) = proportional c"
  "integral (controller_run c target ms) = integral c"
  by (induction ms arbitrary: c) (simp_all add: controller_step_gains)

text \<open>
  C22: the controller implements the discrete proportional-integral law.  After the
  measurements \<open>ms\<close> against a fixed target, the answer to the next measurement \<open>m\<close> is the
  target minus the proportional term of the current error and the integral term of all
  errors, clipped to the interval from 0 to 1.
\<close>

theorem controller_pi_law:
  "fst (ranking_controller_calculate_fixed_thresh
      (ranking_controller_set_expected_dram_total
        (controller_run (ranking_controller_init_ranking_controller c0 x kp ki) (Some target)
          (map Some ms)) (Some target)) (Some m))
   = Some (max 0 (min 1 (target - (m - target) * kp - ((\<Sum>u\<leftarrow>ms. u - target) + (m - target)) * ki)))"
proof -
  define c where "c = controller_run (ranking_controller_init_ranking_controller c0 x kp ki) (Some target)
    (map Some ms)"
  have c: "integrated_error c = Some (\<Sum>u\<leftarrow>ms. u - target)" "proportional c = kp" "integral c = ki"
    by (simp_all add: c_def controller_run_error [of _ 0] controller_run_gains
        ranking_controller_init_ranking_controller_def ranking_controller_set_expected_dram_total_def)
  show ?thesis unfolding c_def [symmetric]
    by (simp add: ranking_controller_calculate_fixed_thresh_def
        ranking_controller_set_expected_dram_total_def Let_def c max_def min_def algebra_simps)
qed

end
