(* ===== verification/Ranking.thy ===== *)
theory Ranking
  imports Wre_Avl_Weighted Weighted_Store Ranking_Controller
begin

text \<open>
  Component \<open>src/ranking.cpp\<close> in the configuration of \<open>memkind_memtier.h\<close>
  (\<open>HOTNESS_POLICY_EXPONENTIAL_COEFFS\<close>, \<open>INTERPOLATED_THRESH\<close> and
  \<open>RANKING_CONTROLLER_ENABLED\<close> 1, \<open>QUANTIFICATION_ENABLED\<close>, \<open>CHECK_ADDED_SIZE\<close> and
  \<open>CRASH_ON_BLOCK_NOT_FOUND\<close> 0): the sizes of all allocations, aggregated by hotness.  With
  the ranking operations offloaded to one thread, \<open>RANKING_LOCK_GUARD\<close> takes no lock.

  An \<open>AggregatedHotness\<close> object lives in the slab \<open>aggHotAlloc\<close>; it is only written while it
  is outside the tree, so the tree stores its value together with its address.  Hotness
  values are exact reals.  The user's touch callback is recorded as a call, not run.
\<close>

record AggregatedHotness =
  ah_self :: addr
  ah_size :: size_t
  quantifiedHotness :: real

record thresh_t =
  threshVal :: double
  threshValid :: bool

datatype TimestampState = TIMESTAMP_NOT_SET | TIMESTAMP_INIT | TIMESTAMP_INIT_DONE

record ttype =
  tt_hash :: "64 word"
  num_allocs :: size_t
  total_size :: size_t
  dram_size :: size_t
  tt_t2 :: "64 word"
  tt_t1 :: "64 word"
  tt_t0 :: "64 word"
  touchCb :: ptr
  touchCbArg :: ptr
  tt_f :: real
  timestamp_state :: TimestampState
  hotness_history_coeffs :: "real list"

record ranking =
  hotThreshold :: thresh_t
  entries :: "AggregatedHotness wre_tree"
  aggHotAlloc :: slab_alloc
  oldWeight :: real
  newWeight :: real
  controller :: ranking_controller

definition is_hotter_agg_hot :: "AggregatedHotness \<Rightarrow> AggregatedHotness \<Rightarrow> bool" where
  "is_hotter_agg_hot a b = (quantifiedHotness a > quantifiedHotness b)"

definition ranking_quantify_hotness :: "real \<Rightarrow> real" where
  "ranking_quantify_hotness hotness = hotness"

definition ranking_dequantify_hotness :: "double \<Rightarrow> double" where
  "ranking_dequantify_hotness quantified_hotness = quantified_hotness"

section \<open>Exponential forgetting\<close>

definition EXPONENTIAL_COEFFS_VALS :: "real list" where
  "EXPONENTIAL_COEFFS_VALS = [9 / 10, 99 / 100, 999 / 1000, 9999 / 10000]"

definition EXPONENTIAL_COEFFS_COMPENSATION_COEFFS :: "real list" where
  "EXPONENTIAL_COEFFS_COMPENSATION_COEFFS =
     [1, 953899645 / 10 ^ 10, 949597036 / 10 ^ 11, 949169617 / 10 ^ 12]"

text \<open>The largest finite double, \<open>std::numeric_limits<double>::max()\<close>.\<close>

definition MAX_DBL :: real where
  "MAX_DBL = 2 ^ 1024 - 2 ^ 971"

fun ranking_update_coeffs_loop ::
  "(real \<times> real) list \<Rightarrow> real list \<Rightarrow> real \<Rightarrow> real \<Rightarrow> real \<Rightarrow> (real list \<times> real) option" where
  "ranking_update_coeffs_loop [] cs seconds_diff add_hotness ret = Some (cs, ret)"
| "ranking_update_coeffs_loop ((v, k) # vs) [] seconds_diff add_hotness ret = None"
| "ranking_update_coeffs_loop ((v, k) # vs) (c # cs) seconds_diff add_hotness ret = do {
     let temp = v powr seconds_diff;
     c_assert (temp \<le> 1 \<and> temp \<ge> 0);
     let c = c * temp;
     let add = k * add_hotness;
     c_assert (add \<ge> 0);
     let c = (if MAX_DBL - add > c then c + k * add_hotness else MAX_DBL);
     let ret = (if MAX_DBL - ret > c then ret + c else MAX_DBL);
     (cs, r) \<leftarrow> ranking_update_coeffs_loop vs cs seconds_diff add_hotness ret;
     Some (c # cs, r) }"

definition ranking_update_coeffs :: "real list \<Rightarrow> real \<Rightarrow> real \<Rightarrow> (real list \<times> real) option" where
  "ranking_update_coeffs coeffs seconds_diff add_hotness = do {
     c_assert (seconds_diff \<ge> 0);
     ranking_update_coeffs_loop
       (zip EXPONENTIAL_COEFFS_VALS EXPONENTIAL_COEFFS_COMPENSATION_COEFFS)
       coeffs seconds_diff add_hotness 0 }"

text \<open>
  \<open>ranking_touch_entry_internal\<close> returns the updated type and the callback it invoked.  The
  difference of the two unsigned timestamps wraps before it is converted to seconds.
\<close>

definition ranking_touch_entry_internal ::
  "ttype \<Rightarrow> 64 word \<Rightarrow> real \<Rightarrow> (ttype \<times> (addr \<times> ptr) option) option" where
  "ranking_touch_entry_internal entry timestamp add_hotness = do {
     let call = map_option (\<lambda>cb. (cb, touchCbArg entry)) (touchCb entry);
     c_assert (add_hotness \<ge> 0);
     let seconds_diff = real (unat (timestamp - tt_t0 entry)) / 1000000000;
     let entry = entry\<lparr>tt_t0 := timestamp\<rparr>;
     c_assert (seconds_diff \<ge> 0);
     (cs, r) \<leftarrow> ranking_update_coeffs (hotness_history_coeffs entry) seconds_diff add_hotness;
     Some (entry\<lparr>hotness_history_coeffs := cs, tt_f := r\<rparr>, call) }"

section \<open>The ranking\<close>

definition CONTROLLER_PROPORTIONAL_GAIN :: real where
  "CONTROLLER_PROPORTIONAL_GAIN = 3 / 10"

definition CONTROLLER_INTEGRAL_GAIN :: real where
  "CONTROLLER_INTEGRAL_GAIN = (1 / 10) / 10"

text \<open>
  \<open>ranking_create_internal\<close>: \<open>mem\<close> and \<open>tmem\<close> are the results of \<open>jemk_malloc\<close> for the
  ranking and its tree, \<open>junk\<close> the uninitialised \<open>size\<close> of the tree, \<open>c0\<close> the
  uninitialised controller.  The slab \<open>aggHotAlloc\<close> is at offset 24 of \<open>struct ranking\<close>;
  \<open>sizeof(AggregatedHotness_t)\<close> is 16.
\<close>

definition ranking_create :: "os \<Rightarrow> int \<Rightarrow> int \<Rightarrow> ptr \<Rightarrow> ptr \<Rightarrow> size_t \<Rightarrow> ranking_controller \<Rightarrow> real \<Rightarrow>
    ranking option" where
  "ranking_create os r r' mem tmem junk c0 old_weight = do {
     self \<leftarrow> mem;
     T \<leftarrow> wre_create os r tmem junk is_hotter_agg_hot;
     (ret, al) \<leftarrow> slab_alloc_init os r' (self + 24) 16 0;
     let R = \<lparr>hotThreshold = \<lparr>threshVal = Some 0, threshValid = False\<rparr>, entries = T,
        aggHotAlloc = al, oldWeight = old_weight, newWeight = 1 - old_weight,
        controller = ranking_controller_init_ranking_controller c0 (Some (1 / 2))
          CONTROLLER_PROPORTIONAL_GAIN CONTROLLER_INTEGRAL_GAIN\<rparr>;
     c_assert (ret = 0);
     Some R }"

definition ranking_destroy :: "int \<Rightarrow> int \<Rightarrow> int \<Rightarrow> ranking \<Rightarrow> unit option" where
  "ranking_destroy r r1 r2 R = slab_alloc_destroy r r1 r2 (aggHotAlloc R)"

definition ranking_get_hot_threshold :: "ranking \<Rightarrow> thresh_t" where
  "ranking_get_hot_threshold R = hotThreshold R"

definition ranking_calculate_hot_threshold_dram_total ::
  "ranking \<Rightarrow> double \<Rightarrow> double \<Rightarrow> (thresh_t \<times> ranking) option" where
  "ranking_calculate_hot_threshold_dram_total R dram_total_ratio dram_total_used_ratio = do {
     let c = ranking_controller_set_expected_dram_total (controller R) dram_total_ratio;
     let (fixed_dram_total_ratio, c) =
       ranking_controller_calculate_fixed_thresh c dram_total_used_ratio;
     let R = R\<lparr>controller := c\<rparr>;
     ret \<leftarrow> wre_find_weighted_interpolated (entries R) fixed_dram_total_ratio;
     let agg_hot = (case ir_left ret of
         None \<Rightarrow> None
       | Some l \<Rightarrow>
           if fallbackRequired ret then None
           else (let hotness_left = quantifiedHotness l;
                     hotness_right = (case ir_right ret of Some r \<Rightarrow> quantifiedHotness r
                                      | None \<Rightarrow> hotness_left + 1)
                 in Some (map_option (\<lambda>p. hotness_left + (hotness_right - hotness_left) * p)
                      (percentage ret))));
     let thresh = (case agg_hot of
         None \<Rightarrow> \<lparr>threshVal = Some 0, threshValid = False\<rparr>
       | Some q \<Rightarrow> \<lparr>threshVal = ranking_dequantify_hotness q, threshValid = True\<rparr>);
     let R = R\<lparr>hotThreshold := thresh\<rparr>;
     Some (ranking_get_hot_threshold R, R) }"

definition ranking_calculate_hot_threshold_dram_pmem ::
  "ranking \<Rightarrow> double \<Rightarrow> double \<Rightarrow> (thresh_t \<times> ranking) option" where
  "ranking_calculate_hot_threshold_dram_pmem R dram_pmem_ratio dram_pmem_used_ratio =
     (let ratio = dop (/) dram_pmem_ratio (dop (+) (Some 1) dram_pmem_ratio);
          ratio_used = dop (/) dram_pmem_ratio (dop (+) (Some 1) dram_pmem_ratio)
      in ranking_calculate_hot_threshold_dram_total R ratio ratio_used)"

text \<open>A stack object used for lookup: only its hotness matters.\<close>

definition lookup_key :: "real \<Rightarrow> AggregatedHotness" where
  "lookup_key hotness =
     \<lparr>ah_self = 0, ah_size = 0, quantifiedHotness = ranking_quantify_hotness hotness\<rparr>"

text \<open>The common tail of the operations: keep the object if it has a size, else release it.\<close>

definition put_back :: "os \<Rightarrow> ranking \<Rightarrow> AggregatedHotness \<Rightarrow> ranking option" where
  "put_back os R v = (if ah_size v > 0
     then do { T \<leftarrow> wre_put os (entries R) v (ah_size v); Some (R\<lparr>entries := T\<rparr>) }
     else do { al \<leftarrow> slab_alloc_free (aggHotAlloc R) (Some (ah_self v));
               Some (R\<lparr>aggHotAlloc := al\<rparr>) })"

definition ranking_add :: "os \<Rightarrow> ranking \<Rightarrow> real \<Rightarrow> size_t \<Rightarrow> ranking option" where
  "ranking_add os R hotness sz = do {
     (value, T) \<leftarrow> wre_remove (entries R) (lookup_key hotness);
     let R = R\<lparr>entries := T\<rparr>;
     (v, R) \<leftarrow> (case value of
         Some v \<Rightarrow> Some (v\<lparr>ah_size := ah_size v + sz\<rparr>, R)
       | None \<Rightarrow> do {
           (p, al) \<leftarrow> slab_alloc_malloc os (aggHotAlloc R);
           a \<leftarrow> p;
           Some (\<lparr>ah_self = a, ah_size = sz,
                  quantifiedHotness = ranking_quantify_hotness hotness\<rparr>,
                 R\<lparr>aggHotAlloc := al\<rparr>) });
     put_back os R v }"

definition ranking_is_hot :: "ranking \<Rightarrow> ttype \<Rightarrow> bool" where
  "ranking_is_hot R entry = dlt (threshVal (ranking_get_hot_threshold R)) (tt_f entry)"

definition ranking_remove_internal_relaxed ::
  "os \<Rightarrow> ranking \<Rightarrow> ttype \<Rightarrow> (size_t \<times> ranking) option" where
  "ranking_remove_internal_relaxed os R entry = do {
     (removed, T) \<leftarrow> wre_remove (entries R) (lookup_key (tt_f entry));
     let R = R\<lparr>entries := T\<rparr>;
     let block_size = total_size entry;
     (case removed of
        Some v \<Rightarrow> do {
          let (ret, v) = (if block_size > ah_size v then (ah_size v, v\<lparr>ah_size := 0\<rparr>)
                          else (block_size, v\<lparr>ah_size := ah_size v - block_size\<rparr>));
          R \<leftarrow> put_back os R v;
          Some (ret, R) }
      | None \<Rightarrow> do { c_assert (total_size entry = 0); Some (0, R) }) }"

definition ranking_remove :: "os \<Rightarrow> ranking \<Rightarrow> real \<Rightarrow> size_t \<Rightarrow> ranking option" where
  "ranking_remove os R hotness sz = (if sz = 0 then Some R else do {
     (removed, T) \<leftarrow> wre_remove (entries R) (lookup_key hotness);
     let R = R\<lparr>entries := T\<rparr>;
     (case removed of
        Some v \<Rightarrow> put_back os R (v\<lparr>ah_size := ah_size v - sz\<rparr>)
      | None \<Rightarrow> Some R) })"

definition ranking_touch ::
  "os \<Rightarrow> ranking \<Rightarrow> ttype \<Rightarrow> 64 word \<Rightarrow> real \<Rightarrow> (ttype \<times> (addr \<times> ptr) option \<times> ranking) option" where
  "ranking_touch os R entry timestamp add_hotness = do {
     (removed, R) \<leftarrow> ranking_remove_internal_relaxed os R entry;
     (entry, call) \<leftarrow> ranking_touch_entry_internal entry timestamp add_hotness;
     R \<leftarrow> ranking_add os R (tt_f entry) removed;
     Some (entry, call, R) }"

definition ranking_set_touch_callback :: "ptr \<Rightarrow> ptr \<Rightarrow> ttype \<Rightarrow> ttype" where
  "ranking_set_touch_callback cb arg type = type\<lparr>touchCb := cb, touchCbArg := arg\<rparr>"

definition ranking_calculate_total_size :: "ranking \<Rightarrow> size_t option" where
  "ranking_calculate_total_size R = wre_calculate_total_size (entries R)"

end
