(* ===== verification/Ranking_Correct.thy ===== *)
theory Ranking_Correct
  imports Ranking
begin

text \<open>
  Correctness of the ranking.  \<open>ranking_rep R m\<close> is its contract: the ranking holds, for
  every hotness \<open>q\<close>, objects of the total size \<open>m q\<close> (a 64-bit sum, 0 for a hotness that
  does not occur).
\<close>

lemma hotter_order: "weak_order is_hotter_agg_hot"
  by unfold_locales (auto simp: is_hotter_agg_hot_def)

abbreviation agg_store :: "AggregatedHotness wre_tree \<Rightarrow> (AggregatedHotness \<times> size_t) list \<Rightarrow> bool" where
  "agg_store T es \<equiv> wre_rep T es \<and> is_lower_check T = is_hotter_agg_hot"

abbreviation tree_room :: "os \<Rightarrow> AggregatedHotness wre_tree \<Rightarrow> bool" where
  "tree_room os T \<equiv> slab_alloc_malloc os (nodeAlloc T) \<noteq> None"

lemma agg_put:
  assumes "agg_store T es" "slab_alloc_malloc os (nodeAlloc T) = Some (p, al)"
  shows "\<exists>T'. wre_put os T d w = Some T' \<and> agg_store T' (put_entry is_hotter_agg_hot d w es) \<and>
    nodeAlloc T' = al"
proof -
  from assms(1) obtain t where t: "wre_inv T t" "inorder t = es" and l: "is_lower_check T = is_hotter_agg_hot"
    by (auto simp: wre_rep_def)
  have "weak_order (is_lower_check T)" using hotter_order l by simp
  from wre_put_run [OF t(1) this assms(2), of d w] show ?thesis
    by (auto simp: wre_rep_def t(2) l)
qed

lemma agg_remove:
  assumes "agg_store T es"
  shows "\<exists>T' ret. wre_remove T k = Some (ret, T') \<and> (case ret of
       None \<Rightarrow> T' = T \<and> (\<forall>e\<in>set es. is_hotter_agg_hot (fst e) k \<or> is_hotter_agg_hot k (fst e))
     | Some d \<Rightarrow> \<not> is_hotter_agg_hot d k \<and> \<not> is_hotter_agg_hot k d \<and>
         (\<forall>os. tree_room os T') \<and>
         (\<forall>os p al. tree_room os T \<longrightarrow>
            slab_alloc_malloc os (nodeAlloc T') = Some (p, al) \<longrightarrow> slab_alloc_malloc os al \<noteq> None) \<and>
         (\<exists>xs w ys. es = xs @ (d, w) # ys \<and> agg_store T' (xs @ ys)))"
proof -
  have l: "is_lower_check T = is_hotter_agg_hot" "wre_rep T es" using assms by simp_all
  have "weak_order (is_lower_check T)" using hotter_order l by simp
  from wre_remove_run [OF this l(2), of k, unfolded l(1)] obtain T' ret where r: "wre_remove T k = Some (ret, T')"
    "is_lower_check T' = is_hotter_agg_hot" "case ret of
       None \<Rightarrow> T' = T \<and> (\<forall>e\<in>set es. is_hotter_agg_hot (fst e) k \<or> is_hotter_agg_hot k (fst e))
     | Some d \<Rightarrow> \<not> is_hotter_agg_hot d k \<and> \<not> is_hotter_agg_hot k d \<and>
         tree_size T' = tree_size T - 1 \<and> (\<forall>os. slab_alloc_malloc os (nodeAlloc T') \<noteq> None) \<and>
         (\<forall>os p al. slab_alloc_malloc os (nodeAlloc T) \<noteq> None \<longrightarrow>
            slab_alloc_malloc os (nodeAlloc T') = Some (p, al) \<longrightarrow> slab_alloc_malloc os al \<noteq> None) \<and>
         (\<exists>xs w ys. es = xs @ (d, w) # ys \<and> wre_rep T' (xs @ ys))" by blast
  then show ?thesis by (cases ret) auto
qed

interpretation agg: weighted_store is_hotter_agg_hot agg_store "tree_room os" "wre_put os" wre_remove
  for os
proof (rule weighted_store.intro [OF hotter_order], rule weighted_store_axioms.intro, goal_cases)
  case (1 s es d w)
  then obtain p al where "slab_alloc_malloc os (nodeAlloc s) = Some (p, al)" by auto
  from agg_put [OF 1(1) this, of d w] show ?case by blast
next
  case (2 s es k)
  from agg_remove [OF this, of k] show ?case by (fastforce split: option.splits)
next
  case (3 s es k d s' d' w s'')
  from agg_remove [OF 3(1), of k] 3(3) obtain xs w0 ys
    where r: "tree_room os s'" "\<forall>p al. slab_alloc_malloc os (nodeAlloc s') = Some (p, al) \<longrightarrow>
        slab_alloc_malloc os al \<noteq> None" "agg_store s' (xs @ ys)"
    using 3(2) by auto
  from r(1) obtain p al where al: "slab_alloc_malloc os (nodeAlloc s') = Some (p, al)" by auto
  from agg_put [OF r(3) al, of d' w] 3(4) r(2) al show ?case by auto
qed

section \<open>The invariant of the ranking\<close>

definition ranking_inv :: "ranking \<Rightarrow> (AggregatedHotness \<times> size_t) list \<Rightarrow> bool" where
  "ranking_inv R es \<longleftrightarrow> agg_store (entries R) es \<and> strict_entries is_hotter_agg_hot es \<and>
     (\<forall>e\<in>set es. snd e = ah_size (fst e) \<and> ah_size (fst e) \<noteq> 0) \<and>
     slab_rep (aggHotAlloc R) (ah_self ` fst ` set es) \<and> inj_on ah_self (fst ` set es)"

definition size_at :: "(AggregatedHotness \<times> size_t) list \<Rightarrow> real \<Rightarrow> size_t" where
  "size_at es q = weight_of (\<lambda>v. quantifiedHotness v = q) es"

definition ranking_rep :: "ranking \<Rightarrow> (real \<Rightarrow> size_t) \<Rightarrow> bool" where
  "ranking_rep R m \<longleftrightarrow> (\<exists>es. ranking_inv R es \<and> m = size_at es)"

lemma ranking_repI: "ranking_inv R es \<Longrightarrow> size_at es = m \<Longrightarrow> ranking_rep R m"
  by (auto simp: ranking_rep_def)

text \<open>The two slabs behind a ranking can serve one more request.\<close>

definition ranking_room :: "os \<Rightarrow> ranking \<Rightarrow> bool" where
  "ranking_room os R \<longleftrightarrow> tree_room os (entries R) \<and> slab_alloc_malloc os (aggHotAlloc R) \<noteq> None"

lemma size_at_absent: "\<forall>e\<in>set es. quantifiedHotness (fst e) \<noteq> q \<Longrightarrow> size_at es q = 0"
  by (simp add: size_at_def weight_of_none)

lemma eqv_hotness: "\<not> is_hotter_agg_hot v k \<and> \<not> is_hotter_agg_hot k v \<longleftrightarrow>
    quantifiedHotness v = quantifiedHotness k"
  by (auto simp: is_hotter_agg_hot_def)

lemma lookup_key_hotness [simp]: "quantifiedHotness (lookup_key h) = h"
  by (simp add: lookup_key_def ranking_quantify_hotness_def)

text \<open>
  What the operations do first: take the object of a hotness out of the tree.  Either there
  is none, or the rest of the ranking is intact, has room for it, and the size at that
  hotness was the size of the object.
\<close>

definition taken :: "ranking \<Rightarrow> AggregatedHotness wre_tree \<Rightarrow> AggregatedHotness \<Rightarrow>
    (AggregatedHotness \<times> size_t) list \<Rightarrow> bool" where
  "taken R T v es' \<longleftrightarrow> agg_store T es' \<and> strict_entries is_hotter_agg_hot es' \<and>
     (\<forall>e\<in>set es'. snd e = ah_size (fst e) \<and> ah_size (fst e) \<noteq> 0) \<and>
     (\<forall>e\<in>set es'. quantifiedHotness (fst e) \<noteq> quantifiedHotness v) \<and>
     slab_rep (aggHotAlloc R) (insert (ah_self v) (ah_self ` fst ` set es')) \<and>
     inj_on ah_self (fst ` set es') \<and> ah_self v \<notin> ah_self ` fst ` set es'"

lemma take_out:
  assumes inv: "ranking_inv R es"
  shows "if \<exists>e\<in>set es. quantifiedHotness (fst e) = h
    then \<exists>v T es'. wre_remove (entries R) (lookup_key h) = Some (Some v, T) \<and> taken R T v es' \<and>
      (\<forall>os. tree_room os T) \<and> quantifiedHotness v = h \<and> ah_size v \<noteq> 0 \<and>
      size_at es = (size_at es')(h := ah_size v)
    else wre_remove (entries R) (lookup_key h) = Some (None, entries R)"
proof (cases "\<exists>e\<in>set es. quantifiedHotness (fst e) = h")
  case False
  have "wre_remove (entries R) (lookup_key h) = Some (None, entries R)"
    by (rule agg.remove_absent) (use inv False in \<open>auto simp: ranking_inv_def is_hotter_agg_hot_def\<close>)
  then show ?thesis unfolding if_not_P [OF False] .
next
  case True
  then obtain v w where v: "(v, w) \<in> set es" "quantifiedHotness v = h" by auto
  with inv have w: "w = ah_size v" "ah_size v \<noteq> 0" by (auto simp: ranking_inv_def)
  have st: "agg_store (entries R) es" "strict_entries is_hotter_agg_hot es"
    using inv by (simp_all add: ranking_inv_def)
  have nl: "\<not> is_hotter_agg_hot v (lookup_key h)" "\<not> is_hotter_agg_hot (lookup_key h) v"
    using v(2) by (simp_all add: is_hotter_agg_hot_def)
  note rp = agg.remove_present [OF st v(1) nl]
  from rp [where os = undefined]
  obtain T es' where T: "wre_remove (entries R) (lookup_key h) = Some (Some v, T)"
      "agg_store T es'" "strict_entries is_hotter_agg_hot es'" "set es' = set es - {(v, w)}"
      "\<forall>e\<in>set es'. is_hotter_agg_hot (fst e) v \<or> is_hotter_agg_hot v (fst e)"
      "\<forall>P. weight_of P es = weight_of P es' + (if P v then w else 0)"
    by blast
  have room: "\<forall>os. tree_room os T"
  proof
    fix os
    from rp [where os = os] T(1) show "tree_room os T" by auto
  qed
  have keys: "\<forall>e\<in>set es'. quantifiedHotness (fst e) \<noteq> quantifiedHotness v"
    using T(5) by (auto simp: is_hotter_agg_hot_def)
  have ins: "insert v (fst ` set es') = fst ` set es" and vn: "v \<notin> fst ` set es'"
    using T(4) v(1) keys by force+
  have "inj_on ah_self (insert v (fst ` set es'))" "slab_rep (aggHotAlloc R) (ah_self ` insert v (fst ` set es'))"
    using inv ins by (simp_all add: ranking_inv_def)
  then have "inj_on ah_self (fst ` set es')" "ah_self v \<notin> ah_self ` fst ` set es'"
      "slab_rep (aggHotAlloc R) (insert (ah_self v) (ah_self ` fst ` set es'))"
    using vn by (simp_all add: inj_on_insert)
  moreover have "\<forall>e\<in>set es'. snd e = ah_size (fst e) \<and> ah_size (fst e) \<noteq> 0"
    using inv T(4) unfolding ranking_inv_def by blast
  ultimately have "taken R T v es'" using T(2,3) keys unfolding taken_def by blast
  moreover have "size_at es = (size_at es')(h := ah_size v)"
    using T(6) v(2) w(1) size_at_absent [of es' h] keys by (auto simp: size_at_def)
  ultimately show ?thesis using T(1) room v(2) w(2) True by auto
qed


definition same_settings :: "ranking \<Rightarrow> ranking \<Rightarrow> bool" where
  "same_settings R R' \<longleftrightarrow> hotThreshold R' = hotThreshold R \<and> oldWeight R' = oldWeight R \<and>
     newWeight R' = newWeight R \<and> controller R' = controller R"

lemma put_back_run:
  assumes tk: "taken R T v es'" and room: "tree_room os T"
  shows "\<exists>R' es. put_back os (R\<lparr>entries := T\<rparr>) (v\<lparr>ah_size := n\<rparr>) = Some R' \<and> ranking_inv R' es \<and>
    size_at es = (size_at es')(quantifiedHotness v := n) \<and> same_settings R R'"
proof (cases "n = 0")
  case True
  from tk have sl: "slab_rep (aggHotAlloc R) (insert (ah_self v) (ah_self ` fst ` set es'))"
    and vn: "ah_self v \<notin> ah_self ` fst ` set es'" by (simp_all add: taken_def)
  from slab.release_live [OF sl, of "ah_self v"] vn obtain al
    where al: "slab_alloc_free (aggHotAlloc R) (Some (ah_self v)) = Some al"
      "slab_rep al (ah_self ` fst ` set es')" by auto
  have "ranking_inv (R\<lparr>entries := T, aggHotAlloc := al\<rparr>) es'"
    using tk al(2) by (simp add: taken_def ranking_inv_def)
  moreover have "size_at es' = (size_at es')(quantifiedHotness v := n)"
    using size_at_absent [of es' "quantifiedHotness v"] tk True by (simp add: taken_def fun_upd_idem)
  moreover have "put_back os (R\<lparr>entries := T\<rparr>) (v\<lparr>ah_size := n\<rparr>) = Some (R\<lparr>entries := T, aggHotAlloc := al\<rparr>)"
    using al(1) True by (simp add: put_back_def)
  ultimately show ?thesis by (auto simp: same_settings_def)
next
  case False
  let ?v = "v\<lparr>ah_size := n\<rparr>"
  let ?es = "put_entry is_hotter_agg_hot ?v n es'"
  from agg.put_ok [of T es' os ?v n] tk room obtain T'
    where T': "wre_put os T ?v n = Some T'" "agg_store T' ?es" by (auto simp: taken_def)
  have "strict_entries is_hotter_agg_hot ?es"
    by (rule agg.put_strict) (use tk in \<open>auto simp: taken_def is_hotter_agg_hot_def neq_iff\<close>)
  moreover have fs: "fst ` set ?es = insert ?v (fst ` set es')" by (simp add: set_put_entry)
  ultimately have "ranking_inv (R\<lparr>entries := T'\<rparr>) ?es"
    unfolding ranking_inv_def fs using tk T'(2) False
    by (auto simp: taken_def set_put_entry inj_on_insert)
  moreover have "size_at ?es = (size_at es')(quantifiedHotness v := n)"
    using size_at_absent [of es' "quantifiedHotness v"] tk
    by (auto simp: size_at_def weight_of_put_entry taken_def)
  moreover have "put_back os (R\<lparr>entries := T\<rparr>) ?v = Some (R\<lparr>entries := T'\<rparr>)"
    using T'(1) False by (simp add: put_back_def word_gt_0)
  ultimately show ?thesis by (auto simp: same_settings_def)
qed

lemma put_back_room:
  assumes tk: "taken R T v es'" and rm: "wre_remove (entries R) k = Some (Some v, T)"
    and inv: "ranking_inv R es" and room: "ranking_room os R" "tree_room os T"
    and pb: "put_back os (R\<lparr>entries := T\<rparr>) (v\<lparr>ah_size := n\<rparr>) = Some R'"
  shows "ranking_room os R'"
proof (cases "n = 0")
  case True
  with pb obtain al where al: "slab_alloc_free (aggHotAlloc R) (Some (ah_self v)) = Some al"
    and R': "R' = R\<lparr>entries := T, aggHotAlloc := al\<rparr>" by (auto simp: put_back_def bind_eq_Some_conv)
  from tk have "slab_rep (aggHotAlloc R) (insert (ah_self v) (ah_self ` fst ` set es'))"
    by (simp add: taken_def)
  from slab_free_room [OF this _ al] room(2) show ?thesis by (simp add: ranking_room_def R')
next
  case False
  with pb obtain T' where T': "wre_put os T (v\<lparr>ah_size := n\<rparr>) n = Some T'" "R' = R\<lparr>entries := T'\<rparr>"
    by (auto simp: put_back_def word_gt_0 bind_eq_Some_conv)
  have "tree_room os T'"
    using agg.put_room [OF _ _ rm T'(1), of es] inv room(1) by (simp add: ranking_inv_def ranking_room_def)
  then show ?thesis using room(1) by (simp add: ranking_room_def T'(2))
qed

section \<open>Adding and removing\<close>

lemma size_at_zero:
  assumes "ranking_inv R es"
  shows "size_at es h = 0 \<longleftrightarrow> \<not> (\<exists>e\<in>set es. quantifiedHotness (fst e) = h)"
  using take_out [OF assms, of h] size_at_absent [of es h] by (auto split: if_splits)

lemma ranking_add_run:
  assumes inv: "ranking_inv R es" and room: "size_at es h = 0 \<Longrightarrow> ranking_room os R"
  shows "\<exists>R' es'. ranking_add os R h s = Some R' \<and> ranking_inv R' es' \<and>
    size_at es' = (size_at es)(h := size_at es h + s) \<and> same_settings R R'"
proof (cases "\<exists>e\<in>set es. quantifiedHotness (fst e) = h")
  case True
  from take_out [OF inv, of h] True obtain v T es'
    where v: "wre_remove (entries R) (lookup_key h) = Some (Some v, T)" "taken R T v es'"
      "\<forall>os. tree_room os T" "quantifiedHotness v = h" "size_at es = (size_at es')(h := ah_size v)"
    by auto
  from put_back_run [OF v(2), of os "ah_size v + s"] v show ?thesis
    by (auto simp: ranking_add_def)
next
  case False
  then have "ranking_room os R" using room size_at_zero [OF inv] by blast
  then obtain p al where ma: "slab_alloc_malloc os (aggHotAlloc R) = Some (p, al)"
    and tr: "tree_room os (entries R)" by (auto simp: ranking_room_def)
  have sl: "slab_rep (aggHotAlloc R) (ah_self ` fst ` set es)" using inv by (simp add: ranking_inv_def)
  from slab.malloc_fresh [OF sl ma] obtain a where a: "p = Some a" "a \<notin> ah_self ` fst ` set es"
    "slab_rep al (insert a (ah_self ` fst ` set es))" by blast
  define v where "v = \<lparr>ah_self = a, ah_size = s, quantifiedHotness = h\<rparr>"
  have rm: "wre_remove (entries R) (lookup_key h) = Some (None, entries R)"
    using take_out [OF inv, of h] False by auto
  have "taken (R\<lparr>aggHotAlloc := al\<rparr>) (entries R) v es"
    using inv a False by (auto simp: taken_def ranking_inv_def v_def)
  from put_back_run [OF this tr, of s] obtain R' es'
    where "put_back os (R\<lparr>aggHotAlloc := al, entries := entries R\<rparr>) v = Some R'" "ranking_inv R' es'"
      "size_at es' = (size_at es)(h := s)" "same_settings R R'"
    by (auto simp: v_def same_settings_def)
  moreover have "size_at es h = 0" using False size_at_zero [OF inv] by blast
  ultimately show ?thesis using rm ma a(1)
    by (auto simp: ranking_add_def v_def ranking_quantify_hotness_def)
qed

lemma ranking_remove_run:
  assumes inv: "ranking_inv R es"
  shows "\<exists>R' es'. ranking_remove os R h s = Some R' \<and> ranking_inv R' es' \<and>
    size_at es' = (if size_at es h = 0 then size_at es else (size_at es)(h := size_at es h - s)) \<and>
    same_settings R R'"
proof -
  consider "s = 0" | "s \<noteq> 0" "\<exists>e\<in>set es. quantifiedHotness (fst e) = h"
    | "s \<noteq> 0" "\<not> (\<exists>e\<in>set es. quantifiedHotness (fst e) = h)" by blast
  then show ?thesis
  proof cases
    case 1
    then show ?thesis using inv by (auto simp: ranking_remove_def same_settings_def)
  next
    case 2
    from take_out [OF inv, of h] 2(2) obtain v T es'
      where v: "wre_remove (entries R) (lookup_key h) = Some (Some v, T)" "taken R T v es'"
        "\<forall>os. tree_room os T" "quantifiedHotness v = h" "size_at es = (size_at es')(h := ah_size v)"
        "ah_size v \<noteq> 0" by auto
    from put_back_run [OF v(2), of os "ah_size v - s"] v 2(1) show ?thesis
      by (auto simp: ranking_remove_def)
  next
    case 3
    then have "size_at es h = 0" using size_at_zero [OF inv] by blast
    moreover have "R\<lparr>entries := entries R\<rparr> = R" by simp
    ultimately show ?thesis using take_out [OF inv, of h] 3 inv
      by (auto simp: ranking_remove_def same_settings_def)
  qed
qed

lemma ranking_remove_relaxed_run:
  assumes inv: "ranking_inv R es" and pre: "size_at es (tt_f en) = 0 \<Longrightarrow> total_size en = 0"
  defines "n \<equiv> min (total_size en) (size_at es (tt_f en))"
  shows "\<exists>R' es'. ranking_remove_internal_relaxed os R en = Some (n, R') \<and> ranking_inv R' es' \<and>
    size_at es' = (size_at es)(tt_f en := size_at es (tt_f en) - n) \<and> same_settings R R' \<and>
    (ranking_room os R \<longrightarrow> ranking_room os R')"
proof (cases "\<exists>e\<in>set es. quantifiedHotness (fst e) = tt_f en")
  case True
  from take_out [OF inv, of "tt_f en"] True obtain v T es'
    where v: "wre_remove (entries R) (lookup_key (tt_f en)) = Some (Some v, T)" "taken R T v es'"
      "\<forall>os. tree_room os T" "quantifiedHotness v = tt_f en"
      "size_at es = (size_at es')(tt_f en := ah_size v)" by auto
  have n: "n = (if total_size en > ah_size v then ah_size v else total_size en)"
    using v(5) by (auto simp: n_def min_def)
  from put_back_run [OF v(2), of os "ah_size v - n"] v(3) obtain R' es2
    where R': "put_back os (R\<lparr>entries := T\<rparr>) (v\<lparr>ah_size := ah_size v - n\<rparr>) = Some R'"
      "ranking_inv R' es2" "size_at es2 = (size_at es')(quantifiedHotness v := ah_size v - n)"
      "same_settings R R'" by blast
  have "ranking_room os R \<longrightarrow> ranking_room os R'"
    using put_back_room [OF v(2,1) inv _ _ R'(1)] v(3) by blast
  moreover have "ranking_remove_internal_relaxed os R en = Some (n, R')"
    using v(1) R'(1) n by (auto simp: ranking_remove_internal_relaxed_def Let_def)
  moreover have "size_at es2 = (size_at es)(tt_f en := size_at es (tt_f en) - n)"
    using R'(3) v(4,5) by simp
  ultimately show ?thesis using R' by blast
next
  case False
  then have z: "size_at es (tt_f en) = 0" using size_at_zero [OF inv] by blast
  have R: "R\<lparr>entries := entries R\<rparr> = R" by simp
  have "ranking_remove_internal_relaxed os R en = Some (0, R)"
    using take_out [OF inv, of "tt_f en"] False pre [OF z] R
    by (auto simp: ranking_remove_internal_relaxed_def Let_def)
  moreover have "n = 0" using z by (simp add: n_def)
  ultimately show ?thesis using inv by (auto simp: same_settings_def fun_upd_idem z)
qed


section \<open>Exponential forgetting\<close>

lemma MAX_DBL_pos: "0 < MAX_DBL"
  unfolding MAX_DBL_def by (simp add: power_strict_increasing)

lemma update_coeffs_loop_bounds:
  assumes "\<forall>(v, k)\<in>set vs. 0 < v \<and> v \<le> 1 \<and> 0 \<le> k" "length cs = length vs"
    and "0 \<le> dt" "0 \<le> add" "\<forall>c\<in>set cs. 0 \<le> c" "0 \<le> ret" "ret \<le> MAX_DBL"
  shows "\<exists>cs' r. ranking_update_coeffs_loop vs cs dt add ret = Some (cs', r) \<and>
    length cs' = length cs \<and> (\<forall>c\<in>set cs'. 0 \<le> c \<and> c \<le> MAX_DBL) \<and> 0 \<le> r \<and> r \<le> MAX_DBL"
  using assms
proof (induction vs arbitrary: cs ret)
  case (Cons p vs)
  obtain v k c cs0 where p: "p = (v, k)" "cs = c # cs0" using Cons.prems(2) by (cases p; cases cs) auto
  have v: "0 < v" "v \<le> 1" "0 \<le> k" "0 \<le> c" using Cons.prems p by auto
  have t: "v powr dt \<le> 1" "0 \<le> v powr dt" using v Cons.prems(3) by (simp_all add: powr_le1)
  define c1 where "c1 = (if MAX_DBL - k * add > c * v powr dt then c * v powr dt + k * add else MAX_DBL)"
  have a: "0 \<le> k * add" "0 \<le> c * v powr dt" using v t Cons.prems(4) by simp_all
  then have c1: "0 \<le> c1" "c1 \<le> MAX_DBL" using MAX_DBL_pos by (auto simp: c1_def)
  define r1 where "r1 = (if MAX_DBL - ret > c1 then ret + c1 else MAX_DBL)"
  have r1: "0 \<le> r1" "r1 \<le> MAX_DBL" using c1 Cons.prems(6) MAX_DBL_pos by (auto simp: r1_def)
  from Cons.IH [of cs0 r1] Cons.prems p r1 obtain cs' r
    where "ranking_update_coeffs_loop vs cs0 dt add r1 = Some (cs', r)" "length cs' = length cs0"
      "\<forall>c\<in>set cs'. 0 \<le> c \<and> c \<le> MAX_DBL" "0 \<le> r" "r \<le> MAX_DBL" by auto
  moreover have "ranking_update_coeffs_loop (p # vs) cs dt add ret = do {
      (cs, r) \<leftarrow> ranking_update_coeffs_loop vs cs0 dt add r1; Some (c1 # cs, r) }"
    using t a by (simp add: p Let_def c1_def r1_def)
  ultimately show ?case using c1 by (simp add: p)
qed simp

lemma update_coeffs_loop_exact:
  assumes "\<forall>(v, k)\<in>set vs. 0 < v \<and> v \<le> 1 \<and> 0 \<le> k" "length cs = length vs"
    and "0 \<le> dt" "0 \<le> add" "\<forall>c\<in>set cs. 0 \<le> c" "0 \<le> ret"
    and "ret + sum_list (map2 (\<lambda>(v, k) c. c * v powr dt + k * add) vs cs) < MAX_DBL"
  shows "ranking_update_coeffs_loop vs cs dt add ret =
    Some (map2 (\<lambda>(v, k) c. c * v powr dt + k * add) vs cs,
      ret + sum_list (map2 (\<lambda>(v, k) c. c * v powr dt + k * add) vs cs))"
  using assms
proof (induction vs arbitrary: cs ret)
  case (Cons p vs)
  obtain v k c cs0 where p: "p = (v, k)" "cs = c # cs0" using Cons.prems(2) by (cases p; cases cs) auto
  have v: "0 < v" "v \<le> 1" "0 \<le> k" "0 \<le> c" using Cons.prems p by auto
  have t: "v powr dt \<le> 1" "0 \<le> v powr dt" using v Cons.prems(3) by (simp_all add: powr_le1)
  define c1 where "c1 = c * v powr dt + k * add"
  have a: "0 \<le> k * add" "0 \<le> c * v powr dt" using v t Cons.prems(4) by simp_all
  let ?S = "sum_list (map2 (\<lambda>(v, k) c. c * v powr dt + k * add) vs cs0)"
  have "0 \<le> ?S"
  proof (rule sum_list_nonneg)
    fix x assume "x \<in> set (map2 (\<lambda>(v, k) c. c * v powr dt + k * add) vs cs0)"
    then obtain v' k' c' where x: "((v', k'), c') \<in> set (zip vs cs0)" "x = c' * v' powr dt + k' * add"
      by auto
    then have "(v', k') \<in> set vs" "c' \<in> set cs0" by (auto dest: set_zip_leftD set_zip_rightD)
    then show "0 \<le> x" using Cons.prems(1,4,5) p x(2) by (fastforce intro!: add_nonneg_nonneg)
  qed
  moreover have "ret + (c1 + ?S) < MAX_DBL" using Cons.prems(7) p by (simp add: c1_def)
  ultimately have lt: "MAX_DBL - k * add > c * v powr dt" "MAX_DBL - ret > c1"
    "ret + c1 + ?S < MAX_DBL" using a Cons.prems(6) by (auto simp: c1_def)
  have "ranking_update_coeffs_loop vs cs0 dt add (ret + c1) =
      Some (map2 (\<lambda>(v, k) c. c * v powr dt + k * add) vs cs0, ret + c1 + ?S)"
    by (rule Cons.IH) (use Cons.prems p a lt in \<open>auto simp: c1_def\<close>)
  then show ?case using t a lt by (simp add: p Let_def c1_def [symmetric])
qed simp

lemma coeffs_pairs: "\<forall>(v, k)\<in>set (zip EXPONENTIAL_COEFFS_VALS EXPONENTIAL_COEFFS_COMPENSATION_COEFFS).
    0 < v \<and> v \<le> 1 \<and> 0 \<le> k"
  by (simp add: EXPONENTIAL_COEFFS_VALS_def EXPONENTIAL_COEFFS_COMPENSATION_COEFFS_def)

lemma length_coeffs_pairs: "length (zip EXPONENTIAL_COEFFS_VALS EXPONENTIAL_COEFFS_COMPENSATION_COEFFS) = 4"
  by (simp add: EXPONENTIAL_COEFFS_VALS_def EXPONENTIAL_COEFFS_COMPENSATION_COEFFS_def)

text \<open>A type whose history is in the range the code keeps it in.\<close>

definition coeffs_ok :: "real list \<Rightarrow> bool" where
  "coeffs_ok cs \<longleftrightarrow> length cs = 4 \<and> (\<forall>c\<in>set cs. 0 \<le> c)"

lemma update_coeffs_run:
  assumes "coeffs_ok cs" "0 \<le> dt" "0 \<le> add"
  shows "\<exists>cs' r. ranking_update_coeffs cs dt add = Some (cs', r) \<and> coeffs_ok cs' \<and>
    (\<forall>c\<in>set cs'. c \<le> MAX_DBL) \<and> 0 \<le> r \<and> r \<le> MAX_DBL"
  using update_coeffs_loop_bounds [OF coeffs_pairs, unfolded length_coeffs_pairs, of cs dt add 0]
    assms MAX_DBL_pos by (fastforce simp: ranking_update_coeffs_def coeffs_ok_def)

lemma touch_entry_run:
  assumes "coeffs_ok (hotness_history_coeffs en)" "0 \<le> add"
  shows "\<exists>en' call. ranking_touch_entry_internal en ts add = Some (en', call) \<and>
    coeffs_ok (hotness_history_coeffs en') \<and> 0 \<le> tt_f en' \<and> tt_f en' \<le> MAX_DBL \<and>
    tt_t0 en' = ts \<and> total_size en' = total_size en \<and> tt_hash en' = tt_hash en \<and>
    call = map_option (\<lambda>cb. (cb, touchCbArg en)) (touchCb en)"
proof -
  have dt: "0 \<le> real (unat (ts - tt_t0 en)) / 1000000000"
    by (rule divide_nonneg_pos [OF of_nat_0_le_iff]) simp
  from update_coeffs_run [OF assms(1) dt assms(2)] obtain cs r
    where "ranking_update_coeffs (hotness_history_coeffs en) (real (unat (ts - tt_t0 en)) / 1000000000) add = Some (cs, r)"
      "coeffs_ok cs" "0 \<le> r" "r \<le> MAX_DBL" by blast
  then show ?thesis using dt assms(2) unfolding ranking_touch_entry_internal_def Let_def
    by (auto simp: c_assert_def)
qed

section \<open>Totals\<close>

lemma total_of_sizes:
  assumes "finite K" "quantifiedHotness ` fst ` set es \<subseteq> K"
  shows "sum_list (map snd es) = (\<Sum>q\<in>K. size_at es q)"
  using assms(2)
proof (induction es)
  case (Cons e es)
  have "(\<Sum>q\<in>K. size_at (e # es) q)
      = (\<Sum>q\<in>K. if quantifiedHotness (fst e) = q then snd e else 0) + (\<Sum>q\<in>K. size_at es q)"
    by (simp add: size_at_def sum.distrib)
  also have "(\<Sum>q\<in>K. if quantifiedHotness (fst e) = q then snd e else 0) = snd e"
    using Cons.prems assms(1) by (simp add: sum.delta)
  finally show ?case using Cons by simp
qed (simp add: size_at_def)

lemma size_at_support: "{q. size_at es q \<noteq> 0} \<subseteq> quantifiedHotness ` fst ` set es"
proof (rule subsetI, rule ccontr)
  fix q assume q: "q \<in> {q. size_at es q \<noteq> 0}" "q \<notin> quantifiedHotness ` fst ` set es"
  then have "\<forall>e\<in>set es. quantifiedHotness (fst e) \<noteq> q" by auto
  from size_at_absent [OF this] q(1) show False by simp
qed

definition sizes_total :: "(real \<Rightarrow> size_t) \<Rightarrow> size_t" where
  "sizes_total m = (\<Sum>q | m q \<noteq> 0. m q)"

lemma sizes_total_superset:
  "finite K \<Longrightarrow> {q. m q \<noteq> 0} \<subseteq> K \<Longrightarrow> sizes_total m = (\<Sum>q\<in>K. m q)"
  unfolding sizes_total_def by (rule sum.mono_neutral_left) auto

lemma ranking_total_run:
  assumes "ranking_inv R es"
  shows "ranking_calculate_total_size R = Some (sizes_total (size_at es))"
proof -
  let ?K = "quantifiedHotness ` fst ` set es"
  have "sum_list (map snd es) = sizes_total (size_at es)"
    using total_of_sizes [of ?K es] sizes_total_superset [of ?K "size_at es"] size_at_support by simp
  then show ?thesis using assms wre_calculate_total_size_run [of "entries R" es]
    by (simp add: ranking_calculate_total_size_def ranking_inv_def)
qed

lemma finite_support: "ranking_rep R m \<Longrightarrow> finite {q. m q \<noteq> 0}"
  unfolding ranking_rep_def using size_at_support finite_subset by blast

lemma sizes_total_upd:
  assumes "finite {q. m q \<noteq> 0}"
  shows "sizes_total (m(h := x)) = sizes_total m - m h + x"
proof -
  let ?K = "insert h {q. m q \<noteq> 0}"
  have "sizes_total (m(h := x)) = (\<Sum>q\<in>?K. (m(h := x)) q)"
    by (rule sizes_total_superset) (use assms in auto)
  also have "\<dots> = x + (\<Sum>q\<in>?K - {h}. m q)" using assms by (simp add: sum.remove [of ?K h])
  also have "(\<Sum>q\<in>?K - {h}. m q) = (\<Sum>q\<in>?K. m q) - m h" using assms by (simp add: sum.remove [of ?K h])
  also have "(\<Sum>q\<in>?K. m q) = sizes_total m"
    by (rule sizes_total_superset [symmetric]) (use assms in auto)
  finally show ?thesis by (simp add: fun_upd_def add.commute)
qed


lemma ranking_touch_run:
  assumes inv: "ranking_inv R es" and room: "ranking_room os R"
    and co: "coeffs_ok (hotness_history_coeffs en)" "0 \<le> add"
    and pre: "size_at es (tt_f en) = 0 \<Longrightarrow> total_size en = 0"
  defines "n \<equiv> min (total_size en) (size_at es (tt_f en))"
  defines "m \<equiv> (size_at es)(tt_f en := size_at es (tt_f en) - n)"
  shows "\<exists>en' call R' es'. ranking_touch os R en ts add = Some (en', call, R') \<and> ranking_inv R' es' \<and>
    size_at es' = m(tt_f en' := m (tt_f en') + n) \<and> same_settings R R' \<and>
    ranking_touch_entry_internal en ts add = Some (en', call)"
proof -
  from ranking_remove_relaxed_run [OF inv pre, of os, folded n_def] room obtain R1 es1
    where R1: "ranking_remove_internal_relaxed os R en = Some (n, R1)" "ranking_inv R1 es1"
      "size_at es1 = m" "same_settings R R1" "ranking_room os R1" by (auto simp: m_def)
  from touch_entry_run [OF co, of ts] obtain en' call
    where en': "ranking_touch_entry_internal en ts add = Some (en', call)" by blast
  from ranking_add_run [OF R1(2), of "tt_f en'" os n] R1(5) obtain R2 es2
    where R2: "ranking_add os R1 (tt_f en') n = Some R2" "ranking_inv R2 es2"
      "size_at es2 = m(tt_f en' := m (tt_f en') + n)" "same_settings R1 R2" by (auto simp: R1(3))
  have "ranking_touch os R en ts add = Some (en', call, R2)"
    using R1(1) en' R2(1) by (simp add: ranking_touch_def)
  moreover have "same_settings R R2" using R1(4) R2(4) by (simp add: same_settings_def)
  ultimately show ?thesis using en' R2(2,3) by blast
qed

section \<open>The threshold\<close>

lemma strict_hot:
  assumes "strict_entries is_hotter_agg_hot (xs @ e # ys)"
  shows "\<forall>x\<in>set xs. quantifiedHotness (fst x) > quantifiedHotness (fst e)"
    and "\<forall>y\<in>set ys. quantifiedHotness (fst y) < quantifiedHotness (fst e)"
  using assms by (auto simp: strict_entries_def sorted_wrt_append is_hotter_agg_hot_def)

lemma threshold_run:
  assumes inv: "ranking_inv R es" and w: "wsum es < 2 ^ 64" "es \<noteq> []"
    and qc: "fst (ranking_controller_calculate_fixed_thresh
      (ranking_controller_set_expected_dram_total (controller R) ratio) dused) = Some q"
      "0 \<le> q" "q \<le> 1"
  shows "\<exists>xs v sz ys. es = xs @ (v, sz) # ys \<and> real (wsum xs) \<le> q * real (wsum es) \<and>
    q * real (wsum es) \<le> real (wsum xs + unat sz) \<and>
    (q * real (wsum es) < real (wsum xs + unat sz) \<longrightarrow>
      (\<exists>th R'. ranking_calculate_hot_threshold_dram_total R ratio dused = Some (th, R') \<and>
        ranking_inv R' es \<and> hotThreshold R' = th \<and>
        (if threshValid th
         then \<exists>x. threshVal th = Some x \<and> x \<le> quantifiedHotness v \<and>
           (\<forall>e\<in>set xs. x < quantifiedHotness (fst e)) \<and>
           (\<exists>e\<in>set ys. quantifiedHotness (fst e) < x)
         else threshVal th = Some 0)))"
proof -
  have rep: "wre_rep (entries R) es" and st: "strict_entries is_hotter_agg_hot es"
    using inv by (simp_all add: ranking_inv_def)
  obtain e0 es0 where e0: "es = e0 # es0" using w(2) by (cases es) auto
  then have "snd e0 \<noteq> 0" using inv by (auto simp: ranking_inv_def)
  then have "0 < wsum es" by (simp add: e0 unat_gt_0)
  from interpolated_run [OF rep w(1) this qc(2,3)] obtain xs v sz ys
    where es: "es = xs @ (v, sz) # ys" "real (wsum xs) \<le> q * real (wsum es)"
      "q * real (wsum es) \<le> real (wsum xs + unat sz)"
    and res: "q * real (wsum es) < real (wsum xs + unat sz) \<Longrightarrow>
      \<exists>res. wre_find_weighted_interpolated (entries R) (Some q) = Some res \<and> ir_left res = Some v \<and>
        percentage res = Some ((q * real (wsum es) - real (wsum xs)) / real (unat sz)) \<and>
        (case ir_right res of None \<Rightarrow> fallbackRequired res
         | Some d' \<Rightarrow> \<not> fallbackRequired res \<and> d' \<in> fst ` set ys)" by blast
  note hot = strict_hot [OF st [unfolded es(1)]]
  have "\<exists>th R'. ranking_calculate_hot_threshold_dram_total R ratio dused = Some (th, R') \<and>
        ranking_inv R' es \<and> hotThreshold R' = th \<and>
        (if threshValid th
         then \<exists>x. threshVal th = Some x \<and> x \<le> quantifiedHotness v \<and>
           (\<forall>e\<in>set xs. x < quantifiedHotness (fst e)) \<and>
           (\<exists>e\<in>set ys. quantifiedHotness (fst e) < x)
         else threshVal th = Some 0)"
    if lt: "q * real (wsum es) < real (wsum xs + unat sz)"
  proof -
    from res [OF lt] obtain r where r: "wre_find_weighted_interpolated (entries R) (Some q) = Some r"
      "ir_left r = Some v" "percentage r = Some ((q * real (wsum es) - real (wsum xs)) / real (unat sz))"
      "case ir_right r of None \<Rightarrow> fallbackRequired r
         | Some d' \<Rightarrow> \<not> fallbackRequired r \<and> d' \<in> fst ` set ys" by blast
    define p where "p = (q * real (wsum es) - real (wsum xs)) / real (unat sz)"
    have p: "0 \<le> p" "p < 1" using es(2) lt unfolding p_def by (auto simp: divide_simps)
    obtain c where c: "ranking_controller_calculate_fixed_thresh
        (ranking_controller_set_expected_dram_total (controller R) ratio) dused = (Some q, c)"
      using qc(1) by (cases "ranking_controller_calculate_fixed_thresh
        (ranking_controller_set_expected_dram_total (controller R) ratio) dused") auto
    have inv': "ranking_inv (R\<lparr>controller := c, hotThreshold := th\<rparr>) es" for th
      using inv by (simp add: ranking_inv_def)
    show ?thesis
    proof (cases "ir_right r")
      case None
      then show ?thesis using r c inv'
        by (auto simp: ranking_calculate_hot_threshold_dram_total_def Let_def ranking_get_hot_threshold_def)
    next
      case (Some d)
      then have d: "\<not> fallbackRequired r" "d \<in> fst ` set ys" using r(4) by auto
      define x where "x = quantifiedHotness v + (quantifiedHotness d - quantifiedHotness v) * p"
      have dv: "quantifiedHotness d < quantifiedHotness v" using d(2) hot(2) by auto
      have "(quantifiedHotness d - quantifiedHotness v) * p \<le> 0"
        using dv p by (simp add: mult_nonpos_nonneg)
      moreover have "(quantifiedHotness d - quantifiedHotness v) * p > (quantifiedHotness d - quantifiedHotness v) * 1"
        using dv p by (intro mult_strict_left_mono_neg) auto
      ultimately have x: "x \<le> quantifiedHotness v" "quantifiedHotness d < x" by (simp_all add: x_def)
      have "ranking_calculate_hot_threshold_dram_total R ratio dused =
          Some (\<lparr>threshVal = Some x, threshValid = True\<rparr>,
            R\<lparr>controller := c, hotThreshold := \<lparr>threshVal = Some x, threshValid = True\<rparr>\<rparr>)"
        using r(1-3) c d(1) Some
        by (simp add: ranking_calculate_hot_threshold_dram_total_def Let_def
            ranking_get_hot_threshold_def ranking_dequantify_hotness_def x_def p_def)
      moreover have "\<forall>e\<in>set xs. x < quantifiedHotness (fst e)" using hot(1) x(1) by fastforce
      moreover have "\<exists>e\<in>set ys. quantifiedHotness (fst e) < x" using d(2) x(2) by auto
      ultimately show ?thesis using x(1) inv' by auto
    qed
  qed
  then show ?thesis using es by blast
qed


section \<open>Creation\<close>

lemma slab_default_run:
  assumes "mmap_spec os" "os_mutex_init os = 0" "os_mmap os 17179869184 = Some area"
    and "os_mmap_fixed os area 2097152" "unat es \<le> 2 ^ 62"
  shows "\<exists>al. slab_alloc_init os r self es 0 = Some (r, al) \<and> slab_rep al {}"
proof -
  have "\<exists>al. slab_alloc_init os r self es 0 = Some (r, al)"
    using assms(2-4) by (simp add: slab_alloc_init_def bigary_init_def Let_def
        BIGARY_DEFAULT_MAX_def BIGARY_PAGESIZE_def)
  then obtain al where al: "slab_alloc_init os r self es 0 = Some (r, al)" by blast
  from slab_init_rep [OF assms(1) al] assms(5) al show ?thesis by simp
qed

lemma wre_create_run:
  assumes "mmap_spec os" "os_mutex_init os = 0" "os_mmap os 17179869184 = Some area"
    and "os_mmap_fixed os area 2097152"
  shows "\<exists>T. wre_create os 0 (Some mem) junk cmp = Some T \<and> wre_rep T [] \<and> is_lower_check T = cmp"
proof -
  from slab_default_run [OF assms, of 64 0 "mem + 8"] obtain al
    where al: "slab_alloc_init os 0 (mem + 8) 64 0 = Some (0, al)" "slab_rep al {}" by auto
  define T where "T = \<lparr>rootNode = NULL, nodes = Map.empty, nodeAlloc = al, tree_size = junk,
      is_lower_check = cmp\<rparr>"
  have "wre_inv T Nil" using al(2) by (simp add: wre_inv_def zrep_def T_def sorted_entries_def)
  then have "wre_rep T []" unfolding wre_rep_def by (metis inorder.simps(1))
  then show ?thesis using al(1) by (simp add: wre_create_def T_def)
qed

lemma ranking_create_run:
  assumes "mmap_spec os" "os_mutex_init os = 0" "os_mmap os 17179869184 = Some area"
    and "os_mmap_fixed os area 2097152"
  shows "\<exists>R. ranking_create os 0 0 (Some mem) (Some tmem) junk c0 w = Some R \<and>
    ranking_rep R (\<lambda>_. 0) \<and> \<not> threshValid (hotThreshold R) \<and>
    integrated_error (controller R) = Some 0 \<and> hotTierSize (controller R) = Some (1 / 2)"
proof -
  from wre_create_run [OF assms, of tmem junk is_hotter_agg_hot] obtain T
    where T: "wre_create os 0 (Some tmem) junk is_hotter_agg_hot = Some T" "agg_store T []" by auto
  from slab_default_run [OF assms, of 16 0 "mem + 24"] obtain al
    where al: "slab_alloc_init os 0 (mem + 24) 16 0 = Some (0, al)" "slab_rep al {}" by auto
  have "size_at [] = (\<lambda>_. 0)" by (simp add: size_at_def fun_eq_iff)
  moreover have "ranking_inv R []" if "entries R = T" "aggHotAlloc R = al" for R
    using that T(2) al(2) by (simp add: ranking_inv_def strict_entries_def)
  ultimately have rep: "ranking_rep R (\<lambda>_. 0)" if "entries R = T" "aggHotAlloc R = al" for R
    using that unfolding ranking_rep_def by metis
  show ?thesis using T(1) al(1)
    by (auto simp: ranking_create_def ranking_controller_init_ranking_controller_def
        ranking_controller_set_expected_dram_total_def Let_def intro!: rep)
qed

section \<open>A concrete ranking\<close>

definition demo_agg :: "addr \<Rightarrow> real \<Rightarrow> AggregatedHotness" where
  "demo_agg a h = \<lparr>ah_self = a, ah_size = 10, quantifiedHotness = h\<rparr>"

definition demo_agg_tree :: "AggregatedHotness atree" where
  "demo_agg_tree = Nd 4112 (Nd 4160 Nil (demo_agg 4160 3) 10 10 0 Nil) (demo_agg 4112 2) 10 30 1
     (Nd 4208 Nil (demo_agg 4208 1) 10 10 0 Nil)"

definition demo_ranking :: ranking where
  "demo_ranking = \<lparr>hotThreshold = \<lparr>threshVal = Some 0, threshValid = False\<rparr>,
     entries = \<lparr>rootNode = Some 4112, nodes = [
       4112 \<mapsto> \<lparr>subtreeWeight = 30, ownWeight = 10, height = 1, left = Some 4160,
         right = Some 4208, parent = NULL, which = ROOT_NODE, data = Some (demo_agg 4112 2)\<rparr>,
       4160 \<mapsto> \<lparr>subtreeWeight = 10, ownWeight = 10, height = 0, left = NULL, right = NULL,
         parent = Some 4112, which = LEFT_NODE, data = Some (demo_agg 4160 3)\<rparr>,
       4208 \<mapsto> \<lparr>subtreeWeight = 10, ownWeight = 10, height = 0, left = NULL, right = NULL,
         parent = Some 4112, which = RIGHT_NODE, data = Some (demo_agg 4208 1)\<rparr>],
       nodeAlloc = demo_slab3, tree_size = 3, is_lower_check = is_hotter_agg_hot\<rparr>,
     aggHotAlloc = demo_slab3, oldWeight = 4 / 10, newWeight = 6 / 10,
     controller = \<lparr>integrated_error = Some 0, proportional = 3 / 10, integral = 1 / 100,
       hotTierSize = Some (1 / 2), coldTierSize = Some (1 / 2)\<rparr>\<rparr>"

definition demo_entries :: "(AggregatedHotness \<times> size_t) list" where
  "demo_entries = [(demo_agg 4160 3, 10), (demo_agg 4112 2, 10), (demo_agg 4208 1, 10)]"

definition demo_sizes :: "real \<Rightarrow> size_t" where
  "demo_sizes = (\<lambda>_. 0)(3 := 10, 2 := 10, 1 := 10)"

lemma demo_agg_inv: "wre_inv (entries demo_ranking) demo_agg_tree"
  unfolding wre_inv_def demo_agg_tree_def using demo_slab3_rep
  by (auto simp: demo_ranking_def zrep_def sorted_entries_def is_hotter_agg_hot_def demo_agg_def
      insert_commute)

lemma demo_ranking_inv: "ranking_inv demo_ranking demo_entries"
proof -
  have "wre_rep (entries demo_ranking) demo_entries" using demo_agg_inv
    unfolding wre_rep_def by (intro exI [of _ demo_agg_tree]) (simp add: demo_agg_tree_def demo_entries_def)
  then show ?thesis using demo_slab3_rep unfolding ranking_inv_def
    by (auto simp: demo_ranking_def demo_entries_def demo_agg_def strict_entries_def
        is_hotter_agg_hot_def insert_commute)
qed

lemma demo_size_at: "size_at demo_entries = demo_sizes"
  by (auto simp: size_at_def demo_entries_def demo_agg_def demo_sizes_def fun_eq_iff)

lemma demo_ranking_rep: "ranking_rep demo_ranking demo_sizes"
  using demo_ranking_inv demo_size_at by (auto simp: ranking_rep_def)

lemma demo_room: "ranking_room demo_os demo_ranking"
  by (simp add: ranking_room_def demo_ranking_def demo_slab3_def demo_slab_def slab_alloc_malloc_def
      slab_alloc_glob_freelist_pop_def slab_alloc_create_meta_def slab_alloc_fetch_increment_used_def
      slab_alloc_node_meta_to_addr_def bigary_alloc_def Let_def)


section \<open>Properties\<close>

text \<open>
  \<open>ranking_add\<close> adds the size at the given hotness and changes nothing else.  It
  returns whenever the hotness is already present or the two slabs have room; if the 64-bit
  sum at that hotness becomes 0 the object is released.
\<close>

theorem ranking_add_correct:
  assumes "ranking_rep R m" "m h = 0 \<longrightarrow> ranking_room os R"
  shows "\<exists>R'. ranking_add os R h s = Some R' \<and> ranking_rep R' (m(h := m h + s)) \<and> same_settings R R'"
proof -
  from assms(1) obtain es where "ranking_inv R es" "m = size_at es" by (auto simp: ranking_rep_def)
  with ranking_add_run [of R es h os s] assms(2) show ?thesis by (blast intro: ranking_repI)
qed

theorem ranking_add_correct_witness:
  "\<exists>R'. ranking_add demo_os demo_ranking 5 70 = Some R' \<and> ranking_rep R' (demo_sizes(5 := 70))"
  using ranking_add_correct [OF demo_ranking_rep, of 5 demo_os 70] demo_room
  by (auto simp: demo_sizes_def)

text \<open>
  C23: \<open>ranking_remove\<close> always returns.  A hotness that is not in the ranking is ignored;
  otherwise exactly the size at that hotness is lowered, by 64-bit subtraction.  In
  particular, removing more than is there wraps around to a huge size.
\<close>

theorem ranking_remove_correct:
  assumes "ranking_rep R m"
  shows "\<exists>R'. ranking_remove os R h s = Some R' \<and> same_settings R R' \<and>
    ranking_rep R' (if m h = 0 then m else m(h := m h - s))"
proof -
  from assms(1) obtain es where "ranking_inv R es" "m = size_at es" by (auto simp: ranking_rep_def)
  with ranking_remove_run [of R es os h s] show ?thesis by (blast intro: ranking_repI)
qed

theorem ranking_remove_correct_witness:
  "\<exists>R'. ranking_remove demo_os demo_ranking 2 11 = Some R' \<and>
     ranking_rep R' (demo_sizes(2 := 10 - 11))"
  using ranking_remove_correct [OF demo_ranking_rep, of demo_os 2 11] by (auto simp: demo_sizes_def)

text \<open>
  C12: \<open>ranking_touch\<close> moves memory between hotness classes and loses none.  It returns the
  type with its new hotness and time; as much as the type occupies, at most what the ranking
  has at the old hotness, moves to the new hotness, and the total size of the ranking, as
  the code itself computes it, is unchanged.  The timestamp is one of an actual touch, not
  0, which \<open>ranking.h\<close> documents as a touch to be ignored (see \<open>touch_zero_moves_time\<close> for what
  the code does with it).
\<close>

theorem ranking_touch_correct:
  assumes rep: "ranking_rep R m" and room: "ranking_room os R"
    and co: "coeffs_ok (hotness_history_coeffs en)" "0 \<le> add"
    and pre: "m (tt_f en) = 0 \<longrightarrow> total_size en = 0" and ts: "ts \<noteq> 0"
  shows "\<exists>en' call R'. ranking_touch os R en ts add = Some (en', call, R') \<and>
    (let n = min (total_size en) (m (tt_f en)); m1 = m(tt_f en := m (tt_f en) - n)
     in ranking_rep R' (m1(tt_f en' := m1 (tt_f en') + n))) \<and>
    ranking_calculate_total_size R' = ranking_calculate_total_size R \<and> same_settings R R' \<and>
    coeffs_ok (hotness_history_coeffs en') \<and> 0 \<le> tt_f en' \<and> tt_f en' \<le> MAX_DBL \<and>
    tt_t0 en' = ts \<and> total_size en' = total_size en"
proof -
  from rep obtain es where es: "ranking_inv R es" "m = size_at es" by (auto simp: ranking_rep_def)
  define n where "n = min (total_size en) (m (tt_f en))"
  define m1 where "m1 = m(tt_f en := m (tt_f en) - n)"
  have "size_at es (tt_f en) = 0 \<Longrightarrow> total_size en = 0" using pre es(2) by simp
  from ranking_touch_run [OF es(1) room co this, of ts, folded es(2), folded n_def, folded m1_def]
  obtain en' call R' es' where t: "ranking_touch os R en ts add = Some (en', call, R')"
    "ranking_inv R' es'" "size_at es' = m1(tt_f en' := m1 (tt_f en') + n)" "same_settings R R'"
    "ranking_touch_entry_internal en ts add = Some (en', call)" by blast
  have fin: "finite {q. m q \<noteq> 0}" using finite_support [OF rep] .
  have "finite {q. m1 q \<noteq> 0}"
    by (rule finite_subset [of _ "insert (tt_f en) {q. m q \<noteq> 0}"]) (use fin in \<open>auto simp: m1_def\<close>)
  then have "sizes_total (size_at es') = sizes_total (size_at es)"
    unfolding t(3) using fin by (simp add: sizes_total_upd m1_def es(2))
  then have tot: "ranking_calculate_total_size R' = ranking_calculate_total_size R"
    using ranking_total_run [OF es(1)] ranking_total_run [OF t(2)] by simp
  moreover have "ranking_rep R' (m1(tt_f en' := m1 (tt_f en') + n))"
    using t(2,3) unfolding ranking_rep_def by metis
  moreover from touch_entry_run [OF co, of ts] t(5)
  have "coeffs_ok (hotness_history_coeffs en')" "0 \<le> tt_f en'" "tt_f en' \<le> MAX_DBL" "tt_t0 en' = ts"
    "total_size en' = total_size en" by auto
  ultimately show ?thesis using t(1,4) by (simp add: n_def m1_def Let_def)
qed

definition demo_ttype :: ttype where
  "demo_ttype = \<lparr>tt_hash = 99, num_allocs = 1, total_size = 4, dram_size = 0, tt_t2 = 0, tt_t1 = 0,
     tt_t0 = 0, touchCb = NULL, touchCbArg = NULL, tt_f = 2, timestamp_state = TIMESTAMP_NOT_SET,
     hotness_history_coeffs = [1, 1, 0, 0]\<rparr>"

theorem ranking_touch_correct_witness:
  "\<exists>en' call R'. ranking_touch demo_os demo_ranking demo_ttype 1000 1 = Some (en', call, R') \<and>
    ranking_calculate_total_size R' = ranking_calculate_total_size demo_ranking \<and> tt_t0 en' = 1000"
  using ranking_touch_correct [OF demo_ranking_rep demo_room, of demo_ttype 1 1000]
  by (auto simp: demo_ttype_def coeffs_ok_def demo_sizes_def)

text \<open>
  A timestamp of 0 is not ignored by the policy the library is built with: the time of the
  type is moved to 0.
\<close>

lemma touch_zero_moves_time:
  assumes "coeffs_ok (hotness_history_coeffs en)" "0 \<le> add"
  shows "\<exists>en' call. ranking_touch_entry_internal en 0 add = Some (en', call) \<and> tt_t0 en' = 0"
  using touch_entry_run [OF assms, of 0] by auto

text \<open>
  The hot threshold lies at a weight quantile.  Take a controller that has not accumulated NaN.
  With the entries in descending order of hotness and \<open>q\<close> the share it answers, the share \<open>q\<close> of the total size falls
  into one entry.  Unless it falls on the lower edge of that entry, the call returns and
  keeps the ranking; a valid threshold is at most the hotness of that entry, below every
  hotter entry (so all of them count as hot) and above some colder one, and an invalid one
  is reported as 0.  The colder one need not be the next: the search for the right neighbour
  skips the parent (\<open>wre_find_node_right_skips_parent\<close>), so entries in between can end up on the
  hot side.  On the lower edge, also when only rounding leads there, the call aborts.
\<close>

theorem ranking_threshold_quantile:
  assumes "ranking_inv R es" "wsum es < 2 ^ 64" "es \<noteq> []" "integrated_error (controller R) = Some i"
  shows "\<exists>q xs v sz ys. Some q = fst (ranking_controller_calculate_fixed_thresh
      (ranking_controller_set_expected_dram_total (controller R) (Some ratio)) (Some dused)) \<and>
    es = xs @ (v, sz) # ys \<and> real (wsum xs) \<le> q * real (wsum es) \<and>
    q * real (wsum es) \<le> real (wsum xs + unat sz) \<and>
    (q * real (wsum es) < real (wsum xs + unat sz) \<longrightarrow>
      (\<exists>th R'. ranking_calculate_hot_threshold_dram_total R (Some ratio) (Some dused) = Some (th, R') \<and>
        ranking_inv R' es \<and> hotThreshold R' = th \<and>
        (if threshValid th
         then \<exists>x. threshVal th = Some x \<and> x \<le> quantifiedHotness v \<and>
           (\<forall>e\<in>set xs. x < quantifiedHotness (fst e)) \<and>
           (\<exists>e\<in>set ys. quantifiedHotness (fst e) < x)
         else threshVal th = Some 0)))"
proof -
  obtain q where q: "fst (ranking_controller_calculate_fixed_thresh
      (ranking_controller_set_expected_dram_total (controller R) (Some ratio)) (Some dused)) = Some q"
      "0 \<le> q" "q \<le> 1"
    by (rule controller_output_range [OF assms(4)])
  from threshold_run [OF assms(1-3) q] q(1) show ?thesis by metis
qed

theorem ranking_threshold_quantile_witness:
  "\<exists>q xs v sz ys. Some q = fst (ranking_controller_calculate_fixed_thresh
      (ranking_controller_set_expected_dram_total (controller demo_ranking) (Some (1 / 2))) (Some (1 / 2))) \<and>
    demo_entries = xs @ (v, sz) # ys \<and> real (wsum xs) \<le> q * 30 \<and> q * 30 \<le> real (wsum xs + unat sz)"
proof -
  have "wsum demo_entries < 2 ^ 64" "demo_entries \<noteq> []" "real (wsum demo_entries) = 30"
    "integrated_error (controller demo_ranking) = Some 0"
    by (simp_all add: demo_entries_def demo_ranking_def)
  with ranking_threshold_quantile [OF demo_ranking_inv, of 0 "1 / 2" "1 / 2"] show ?thesis by metis
qed



text \<open>
  A new ranking is empty.  When the system calls succeed, \<open>ranking_create\<close> returns a
  ranking that holds no memory, has no valid threshold, and whose controller starts from
  the target one half without accumulated error.
\<close>

theorem ranking_create_correct:
  assumes "mmap_spec os" "os_mutex_init os = 0" "os_mmap os 17179869184 = Some area"
    and "os_mmap_fixed os area 2097152"
  shows "\<exists>R. ranking_create os 0 0 (Some mem) (Some tmem) junk c0 w = Some R \<and>
    ranking_rep R (\<lambda>_. 0) \<and> \<not> threshValid (hotThreshold R) \<and>
    integrated_error (controller R) = Some 0 \<and> hotTierSize (controller R) = Some (1 / 2)"
  using assms by (rule ranking_create_run)

theorem ranking_create_correct_witness:
  "\<exists>R. ranking_create demo_os 0 0 (Some 64) (Some 128) 0
     \<lparr>integrated_error = Some 9, proportional = 9, integral = 9, hotTierSize = Some 9, coldTierSize = Some 9\<rparr> 0 = Some R \<and>
     ranking_rep R (\<lambda>_. 0)"
proof -
  have "mmap_spec demo_os" "os_mutex_init demo_os = 0" "os_mmap demo_os 17179869184 = Some 4096"
    "os_mmap_fixed demo_os 4096 2097152" by (simp_all add: demo_os_def mmap_spec_def)
  from ranking_create_correct [OF this, of 64 128 0] show ?thesis by blast
qed

end
