(* ===== verification/Critnib_Bits.thy ===== *)
theory Critnib_Bits
  imports Prelude
begin

text \<open>
  The bit arithmetic of \<open>src/critnib.c\<close>: the mask above a nibble, the nibble of a key, the
  highest bit in which two keys differ.  A key is a 64-bit word; its prefix above bit \<open>n\<close> is
  the number \<^term>\<open>unat k div 2 ^ n\<close>, and every bit-level test of the code is a statement
  about prefixes.
\<close>

type_synonym nib = "4 word"

definition NIB :: "64 word" where
  "NIB = 15"

definition path_mask :: "nat \<Rightarrow> 64 word" where
  "path_mask shift = push_bit shift (NOT NIB)"

definition slice_index :: "64 word \<Rightarrow> nat \<Rightarrow> nib" where
  "slice_index key shift = ucast (drop_bit shift key AND NIB)"

text \<open>The index of the most significant set bit, \<open>63 - __builtin_clzll(x)\<close>.\<close>

primrec mssb_below :: "nat \<Rightarrow> 64 word \<Rightarrow> nat" where
  "mssb_below 0 w = 0"
| "mssb_below (Suc n) w = (if bit w n then n else mssb_below n w)"

definition util_mssb_index64 :: "64 word \<Rightarrow> nat" where
  "util_mssb_index64 w = mssb_below 64 w"

definition px :: "nat \<Rightarrow> 64 word \<Rightarrow> nat" where
  "px n k = unat k div 2 ^ n"

lemma NIB_mask: "NIB = mask 4"
  by (simp add: NIB_def mask_eq_exp_minus_1)

lemma path_mask_eq: "path_mask sh = NOT (mask (sh + 4))"
  by (rule bit_eqI) (auto simp: path_mask_def NIB_mask bit_simps)

lemma px_drop: "px n k = unat (drop_bit n k)"
  unfolding px_def by (simp only: unat_drop_bit_eq) (simp add: drop_bit_eq_div)

lemma px_eq_iff: "px n k = px n k' \<longleftrightarrow> drop_bit n k = drop_bit n k'"
  by (simp add: px_drop word_unat_eq_iff)

lemma masked_eq_iff:
  assumes "p AND path_mask sh = p"
  shows "k AND path_mask sh = p \<longleftrightarrow> px (sh + 4) k = px (sh + 4) p"
proof
  assume "k AND path_mask sh = p"
  then have "drop_bit (sh + 4) p = drop_bit (sh + 4) k AND drop_bit (sh + 4) (path_mask sh)"
    by auto
  also have "\<dots> = drop_bit (sh + 4) k"
    by (rule bit_eqI) (auto simp: path_mask_eq bit_simps dest: bit_imp_le_length)
  finally show "px (sh + 4) k = px (sh + 4) p" by (simp add: px_eq_iff)
next
  assume "px (sh + 4) k = px (sh + 4) p"
  then have "push_bit (sh + 4) (drop_bit (sh + 4) k) = push_bit (sh + 4) (drop_bit (sh + 4) p)"
    by (simp add: px_eq_iff)
  then have "k AND path_mask sh = p AND path_mask sh"
    by (simp add: path_mask_eq and_not_mask_eq)
  with assms show "k AND path_mask sh = p" by simp
qed

lemma masked_idem: "(k AND path_mask sh) AND path_mask sh = k AND path_mask sh"
  by (simp add: and.assoc)

lemma px_masked: "px (sh + 4) (k AND path_mask sh) = px (sh + 4) k"
  using masked_eq_iff [of "k AND path_mask sh" sh k] by (simp add: masked_idem)

lemma masked_le: "p AND path_mask sh = p \<Longrightarrow> px (sh + 4) k = px (sh + 4) p \<Longrightarrow> p \<le> k"
  by (metis masked_eq_iff word_and_le1 word_and_le2)

lemma xor_zero_iff: "(a::64 word) XOR b = 0 \<longleftrightarrow> a = b"
  by (auto simp: bit_eq_iff bit_simps)

lemma outside_iff:
  "drop_bit sh (k XOR p) AND NOT NIB \<noteq> 0 \<longleftrightarrow> px (sh + 4) k \<noteq> px (sh + 4) p"
proof -
  have "drop_bit sh (k XOR p) AND NOT NIB = push_bit 4 (drop_bit 4 (drop_bit sh (k XOR p)))"
    by (simp add: NIB_mask and_not_mask_eq)
  also have "\<dots> = 0 \<longleftrightarrow> drop_bit (sh + 4) (k XOR p) = 0"
  proof -
    have "push_bit 4 (drop_bit 4 w) = 0 \<longleftrightarrow> drop_bit 4 w = 0" for w :: "64 word"
    proof
      assume a: "push_bit 4 (drop_bit 4 w) = 0"
      have "drop_bit 4 w = drop_bit 4 (push_bit 4 (drop_bit 4 w))"
        by (rule bit_eqI) (auto simp: bit_simps dest: bit_imp_le_length)
      with a show "drop_bit 4 w = 0" by simp
    qed simp
    from this [of "drop_bit sh (k XOR p)"] show ?thesis
      by (simp only: drop_bit_drop_bit add.commute)
  qed
  also have "\<dots> \<longleftrightarrow> drop_bit (sh + 4) k = drop_bit (sh + 4) p"
    by (simp only: drop_bit_xor xor_zero_iff)
  finally show ?thesis by (simp add: px_eq_iff)
qed

lemma unat_slice: "unat (slice_index k sh) = unat k div 2 ^ sh mod 16"
proof -
  have "slice_index k sh = ucast (drop_bit sh k)"
    by (rule bit_eqI) (auto simp: slice_index_def NIB_mask bit_simps)
  then have "unat (slice_index k sh) = take_bit 4 (unat (drop_bit sh k))"
    by (simp add: unsigned_ucast_eq)
  also have "\<dots> = px sh k mod 16" by (simp only: px_drop take_bit_eq_mod) simp
  finally show ?thesis by (simp only: px_def)
qed

lemma px_split: "px sh k = 16 * px (sh + 4) k + unat (slice_index k sh)"
proof -
  have "px (sh + 4) k = px sh k div 16"
    by (simp only: px_def power_add div_mult2_eq) simp
  moreover have "unat (slice_index k sh) = px sh k mod 16" by (simp only: unat_slice px_def)
  ultimately show ?thesis using mult_div_mod_eq [of 16 "px sh k"] by simp
qed

lemma slice_eq_iff: "slice_index k sh = slice_index k' sh \<longleftrightarrow>
    unat k div 2 ^ sh mod 16 = unat k' div 2 ^ sh mod 16"
  by (simp only: word_unat_eq_iff unat_slice)

lemma px_less_imp: "px n k < px n k' \<Longrightarrow> k < k'"
  by (metis px_def div_le_mono linorder_not_le word_less_nat_alt)

lemma px_mono: "px n k = px n k' \<Longrightarrow> n \<le> m \<Longrightarrow> px m k = px m k'"
  by (metis px_def div_mult2_eq le_add_diff_inverse power_add)

lemma px_0 [simp]: "px 0 k = unat k"
  by (simp add: px_def)

text \<open>Keys in different children of a node are ordered like the indices.\<close>

lemma nib_order:
  assumes "px (sh + 4) k = px (sh + 4) k'" "slice_index k sh < slice_index k' sh"
  shows "k < k'"
proof (rule px_less_imp)
  show "px sh k < px sh k'"
    using assms by (simp add: px_split [of sh] word_less_nat_alt)
qed

lemma mssb_below_bit:
  assumes "\<exists>j < n. bit w j"
  shows "mssb_below n w < n \<and> bit w (mssb_below n w) \<and> (\<forall>j < n. bit w j \<longrightarrow> j \<le> mssb_below n w)"
  using assms by (induction n) (auto simp: less_Suc_eq)

lemma mssb_index:
  assumes "w \<noteq> 0"
  shows "util_mssb_index64 w < 64" "bit w (util_mssb_index64 w)"
    "bit w j \<Longrightarrow> j \<le> util_mssb_index64 w"
proof -
  from assms obtain i where "bit w i" by (auto simp: bit_eq_iff)
  moreover from this have "i < 64" using bit_imp_le_length [of w i] by simp
  ultimately have "\<exists>i < 64. bit w i" by blast
  from mssb_below_bit [OF this] show "util_mssb_index64 w < 64" "bit w (util_mssb_index64 w)"
    "bit w j \<Longrightarrow> j \<le> util_mssb_index64 w"
    using bit_imp_le_length [of w j] by (auto simp: util_mssb_index64_def)
qed

text \<open>The nibble that holds the highest differing bit: equal above it, different in it.\<close>

definition nib_shift :: "64 word \<Rightarrow> nat" where
  "nib_shift d = util_mssb_index64 d div 4 * 4"

lemma nib_shift_le: "d \<noteq> 0 \<Longrightarrow> nib_shift d \<le> 60 \<and> 4 dvd nib_shift d"
  using mssb_index(1) [of d] by (simp add: nib_shift_def)

lemma nib_shift_above:
  assumes "p \<noteq> k"
  shows "px (nib_shift (p XOR k) + 4) p = px (nib_shift (p XOR k) + 4) k"
proof -
  let ?at = "p XOR k"
  have "?at \<noteq> 0" using assms by (simp add: xor_zero_iff)
  then have "\<not> bit ?at j" if "nib_shift ?at + 4 \<le> j" for j
    using mssb_index(3) [of ?at j] that by (auto simp: nib_shift_def)
  then have "drop_bit (nib_shift ?at + 4) p = drop_bit (nib_shift ?at + 4) k"
    by (intro bit_eqI) (auto simp: bit_simps)
  then show ?thesis by (simp add: px_eq_iff)
qed

lemma nib_shift_differ:
  assumes "p \<noteq> k"
  shows "slice_index p (nib_shift (p XOR k)) \<noteq> slice_index k (nib_shift (p XOR k))"
proof -
  let ?at = "p XOR k"
  have at: "?at \<noteq> 0" using assms by (simp add: xor_zero_iff)
  define n i where "n = util_mssb_index64 ?at" and "i = n - nib_shift ?at"
  have n: "nib_shift ?at + i = n" "i < 4" by (auto simp: nib_shift_def n_def i_def)
  have "bit (slice_index x (nib_shift ?at)) i = bit x n" for x :: "64 word"
    using n by (auto simp: slice_index_def NIB_mask bit_simps)
  moreover have "bit p n \<noteq> bit k n" using mssb_index(2) [OF at] by (auto simp: n_def bit_simps)
  ultimately show ?thesis by metis
qed

text \<open>Keys that differ above bit \<open>n\<close> differ in a nibble at or above it.\<close>

lemma nib_shift_ge:
  assumes "px n p \<noteq> px n k" "4 dvd n"
  shows "n \<le> nib_shift (p XOR k)"
proof -
  from assms(1) have "drop_bit n p \<noteq> drop_bit n k" by (simp add: px_eq_iff)
  then obtain j where "bit (p XOR k) (n + j)" by (auto simp: bit_eq_iff bit_simps)
  moreover from this have "p XOR k \<noteq> 0" by auto
  ultimately have "n + j \<le> util_mssb_index64 (p XOR k)" by (rule mssb_index(3) [rotated])
  then have "n div 4 \<le> util_mssb_index64 (p XOR k) div 4" by (intro div_le_mono) simp
  then show ?thesis using assms(2) by (auto simp: nib_shift_def elim!: dvdE)
qed

text \<open>Keys that agree above bit \<open>n\<close> differ in a nibble below it.\<close>

lemma nib_shift_less:
  assumes "px n p = px n k" "p \<noteq> k"
  shows "nib_shift (p XOR k) < n"
proof (rule ccontr)
  assume "\<not> nib_shift (p XOR k) < n"
  then have "px (nib_shift (p XOR k)) p = px (nib_shift (p XOR k)) k"
    using px_mono [OF assms(1)] by simp
  then have "slice_index p (nib_shift (p XOR k)) = slice_index k (nib_shift (p XOR k))"
    by (simp add: slice_eq_iff px_def)
  with nib_shift_differ [OF assms(2)] show False by simp
qed

end
