(* ===== verification/Critnib.thy ===== *)
theory Critnib
  imports Critnib_Bits Slab_Allocator
begin

text \<open>
  Component \<open>src/critnib.c\<close>: a radix tree on 64-bit keys that skips levels with one child.
  A tagged \<open>struct critnib_node *\<close> is a \<open>ct\<close>: \<open>NULL\<close>, a leaf or an inner node, the latter
  two with their address; \<open>child[16]\<close> is a function on the 4-bit index.  The tree is never
  shared, so writing through \<open>parent\<close> is replacing the subtree the walk stopped at.  The pools
  of free nodes and leaves, linked through \<open>child[0]\<close> and \<open>value\<close> in the source, are lists of
  addresses.  Values are pointers, \<open>NULL\<close> being returned for an absent key.

  The functions are those of a thread nobody interferes with: writers hold the mutex, and a
  reader's second load of \<open>remove_count\<close> sees the value of the first.
\<close>

datatype ct =
    CNull
  | CLeaf addr (lf_key: "64 word") (lf_value: ptr)
  | CNode addr "nib \<Rightarrow> ct" (nd_path: "64 word") (nd_shift: nat)

definition is_null :: "ct \<Rightarrow> bool" where
  "is_null n = (case n of CNull \<Rightarrow> True | _ \<Rightarrow> False)"

lemma is_null_iff [simp]: "is_null n \<longleftrightarrow> n = CNull"
  by (simp add: is_null_def split: ct.split)

definition is_leaf :: "ct \<Rightarrow> bool" where
  "is_leaf n = (case n of CLeaf a k v \<Rightarrow> True | _ \<Rightarrow> False)"

lemma is_leaf_simps [simp]:
  "\<not> is_leaf CNull" "is_leaf (CLeaf a k v)" "\<not> is_leaf (CNode a cs p sh)"
  by (simp_all add: is_leaf_def)

text \<open>\<open>for (int i = 0; i < SLNODES; i++)\<close>.\<close>

definition nibs :: "nib list" where
  "nibs = map of_nat [0..<16]"

record critnib =
  cn_root :: ct
  deleted_node :: "addr list"
  deleted_leaf :: "addr list"
  pending_del_nodes :: "ptr list"
  pending_del_leaves :: "ptr list"
  remove_count :: "64 word"
  allocator_leaves :: slab_alloc
  allocator_nodes :: slab_alloc

abbreviation DELETED_LIFE :: nat where
  "DELETED_LIFE \<equiv> 16"

definition EEXIST :: int where "EEXIST = 17"
definition ENOMEM :: int where "ENOMEM = 12"

text \<open>
  \<open>c\<close> is the result of \<open>jemk_malloc\<close>; \<open>memset\<close> through \<open>NULL\<close> aborts before the \<open>NULL\<close> is
  looked at.  A leaf has 16 bytes and a node 144; the two allocators are fields of the
  structure, at \<open>leaves_at\<close> and \<open>nodes_at\<close>.
\<close>

definition critnib_new :: "os \<Rightarrow> ptr \<Rightarrow> addr \<Rightarrow> addr \<Rightarrow> critnib option" where
  "critnib_new os c leaves_at nodes_at = do {
     c_assert (c \<noteq> NULL);
     (ret, al) \<leftarrow> slab_alloc_init os (os_mutex_init os) leaves_at 16 0;
     (r2, an) \<leftarrow> slab_alloc_init os (os_mutex_init os) nodes_at 144 0;
     c_assert (ret = 0);
     Some \<lparr>cn_root = CNull, deleted_node = [], deleted_leaf = [],
           pending_del_nodes = replicate DELETED_LIFE NULL,
           pending_del_leaves = replicate DELETED_LIFE NULL, remove_count = 0,
           allocator_leaves = al, allocator_nodes = an\<rparr> }"

primrec free_all :: "slab_alloc \<Rightarrow> ptr list \<Rightarrow> slab_alloc option" where
  "free_all al [] = Some al"
| "free_all al (p # ps) = do { al \<leftarrow> slab_alloc_free al p; free_all al ps }"

text \<open>\<open>delete_node\<close> releases a subtree: the leaves and the nodes in the order of the recursion.\<close>

primrec delete_leaves :: "ct \<Rightarrow> addr list" where
  "delete_leaves CNull = []"
| "delete_leaves (CLeaf a k v) = [a]"
| "delete_leaves (CNode a cs p sh) = concat (map (\<lambda>i. delete_leaves (cs i)) nibs)"

primrec delete_nodes :: "ct \<Rightarrow> addr list" where
  "delete_nodes CNull = []"
| "delete_nodes (CLeaf a k v) = []"
| "delete_nodes (CNode a cs p sh) = concat (map (\<lambda>i. delete_nodes (cs i)) nibs) @ [a]"

text \<open>\<open>slab_alloc_destroy\<close> unmaps the memory of the allocator: nothing can be read there.\<close>

definition unmapped :: "slab_alloc \<Rightarrow> slab_alloc" where
  "unmapped al = al\<lparr>sa_metas := Map.empty\<rparr>"

definition critnib_delete :: "int \<Rightarrow> int \<Rightarrow> int \<Rightarrow> critnib \<Rightarrow> critnib option" where
  "critnib_delete ret r1 r2 c = do {
     al \<leftarrow> free_all (allocator_leaves c) (map Some (delete_leaves (cn_root c)));
     an \<leftarrow> free_all (allocator_nodes c) (map Some (delete_nodes (cn_root c)));
     slab_alloc_destroy ret r1 r2 al;
     let al = unmapped al;
     slab_alloc_destroy ret r1 r2 an;
     let an = unmapped an;
     an \<leftarrow> free_all an (map Some (deleted_node c));
     al \<leftarrow> free_all al (map Some (deleted_leaf c));
     an \<leftarrow> free_all an (pending_del_nodes c);
     al \<leftarrow> free_all al (pending_del_leaves c);
     Some (c\<lparr>allocator_leaves := al, allocator_nodes := an\<rparr>) }"

definition free_node :: "critnib \<Rightarrow> ptr \<Rightarrow> critnib" where
  "free_node c n = (case n of None \<Rightarrow> c | Some a \<Rightarrow> c\<lparr>deleted_node := a # deleted_node c\<rparr>)"

definition alloc_node :: "os \<Rightarrow> critnib \<Rightarrow> (ptr \<times> critnib) option" where
  "alloc_node os c = (case deleted_node c of
     [] \<Rightarrow> do {
       (n, al) \<leftarrow> slab_alloc_malloc os (allocator_nodes c);
       Some (n, c\<lparr>allocator_nodes := al\<rparr>) }
   | a # as \<Rightarrow> Some (Some a, c\<lparr>deleted_node := as\<rparr>))"

definition free_leaf :: "critnib \<Rightarrow> ptr \<Rightarrow> critnib" where
  "free_leaf c k = (case k of None \<Rightarrow> c | Some a \<Rightarrow> c\<lparr>deleted_leaf := a # deleted_leaf c\<rparr>)"

definition alloc_leaf :: "os \<Rightarrow> critnib \<Rightarrow> (ptr \<times> critnib) option" where
  "alloc_leaf os c = (case deleted_leaf c of
     [] \<Rightarrow> do {
       (k, al) \<leftarrow> slab_alloc_malloc os (allocator_leaves c);
       Some (k, c\<lparr>allocator_leaves := al\<rparr>) }
   | a # as \<Rightarrow> Some (Some a, c\<lparr>deleted_leaf := as\<rparr>))"

text \<open>
  The walk of \<open>critnib_insert\<close>: the node at which it stops, and the tree after a store
  through \<open>parent\<close>.
\<close>

primrec insert_walk :: "ct \<Rightarrow> 64 word \<Rightarrow> ct" where
  "insert_walk CNull key = CNull"
| "insert_walk (CLeaf a k v) key = CLeaf a k v"
| "insert_walk (CNode a cs p sh) key =
     (if key AND path_mask sh = p then insert_walk (cs (slice_index key sh)) key
      else CNode a cs p sh)"

primrec store_parent :: "ct \<Rightarrow> 64 word \<Rightarrow> ct \<Rightarrow> ct" where
  "store_parent CNull key m = m"
| "store_parent (CLeaf a k v) key m = m"
| "store_parent (CNode a cs p sh) key m =
     (if key AND path_mask sh = p
      then CNode a (cs(slice_index key sh := store_parent (cs (slice_index key sh)) key m)) p sh
      else m)"

definition critnib_insert ::
  "os \<Rightarrow> critnib \<Rightarrow> 64 word \<Rightarrow> ptr \<Rightarrow> bool \<Rightarrow> (int \<times> critnib) option" where
  "critnib_insert os c0 key val update = do {
     (k, c) \<leftarrow> alloc_leaf os c0;
     (case k of
        None \<Rightarrow> Some (ENOMEM, c)
      | Some ka \<Rightarrow>
          let kn = CLeaf ka key val; n = insert_walk (cn_root c) key
          in if is_null n
             then Some (0, c\<lparr>cn_root := store_parent (cn_root c) key kn\<rparr>)
             else
               let path = (case n of CLeaf a lk v \<Rightarrow> lk | _ \<Rightarrow> nd_path n); d = path XOR key
               in if d = 0
                  then
                    let c = free_leaf c (Some ka)
                    in (case n of
                          CLeaf a lk v \<Rightarrow>
                            if update
                            then Some (0, c\<lparr>cn_root := store_parent (cn_root c) key (CLeaf a lk val)\<rparr>)
                            else Some (EEXIST, c)
                        | _ \<Rightarrow> None)
                  else do {
                    let sh = nib_shift d;
                    (m, c) \<leftarrow> alloc_node os c;
                    (case m of
                       None \<Rightarrow> Some (ENOMEM, free_leaf c (Some ka))
                     | Some ma \<Rightarrow>
                         let m = CNode ma ((\<lambda>_. CNull)(slice_index key sh := kn, slice_index path sh := n))
                                   (key AND path_mask sh) sh
                         in Some (0, c\<lparr>cn_root := store_parent (cn_root c) key m\<rparr>)) }) }"

text \<open>
  The walk of \<open>critnib_remove\<close> looks only at the nibbles of the key; \<open>unlink_leaf\<close> is the
  tree after the leaf found there is unlinked, with the node that is unlinked with it when
  one child remains.  A node left without children makes the source read \<open>child[-1]\<close>.
\<close>

primrec dive :: "ct \<Rightarrow> 64 word \<Rightarrow> ct" where
  "dive CNull key = CNull"
| "dive (CLeaf a k v) key = CLeaf a k v"
| "dive (CNode a cs p sh) key = dive (cs (slice_index key sh)) key"

primrec unlink_leaf :: "ct \<Rightarrow> 64 word \<Rightarrow> (ct \<times> ptr) option" where
  "unlink_leaf CNull key = Some (CNull, NULL)"
| "unlink_leaf (CLeaf a k v) key = Some (CNull, NULL)"
| "unlink_leaf (CNode a cs p sh) key =
     (if is_null (cs (slice_index key sh)) \<or> is_leaf (cs (slice_index key sh))
      then
        let cs' = cs(slice_index key sh := CNull)
        in (case filter (\<lambda>j. \<not> is_null (cs' j)) nibs of
              [] \<Rightarrow> None
            | [ochild] \<Rightarrow> Some (cs' ochild, Some a)
            | _ \<Rightarrow> Some (CNode a cs' p sh, NULL))
      else do {
        (m, del) \<leftarrow> unlink_leaf (cs (slice_index key sh)) key;
        Some (CNode a (cs(slice_index key sh := m)) p sh, del) })"

definition critnib_remove :: "critnib \<Rightarrow> 64 word \<Rightarrow> (ptr \<times> critnib) option" where
  "critnib_remove c key =
     (if is_null (cn_root c) then Some (NULL, c)
      else
        let del = unat (remove_count c mod 16);
            c = c\<lparr>remove_count := remove_count c + 1\<rparr>;
            c = free_node c (pending_del_nodes c ! del);
            c = free_leaf c (pending_del_leaves c ! del);
            c = c\<lparr>pending_del_nodes := (pending_del_nodes c)[del := NULL],
                  pending_del_leaves := (pending_del_leaves c)[del := NULL]\<rparr>
        in (case dive (cn_root c) key of
              CLeaf ka k v \<Rightarrow>
                if k \<noteq> key then Some (NULL, c)
                else do {
                  (t, n) \<leftarrow> unlink_leaf (cn_root c) key;
                  Some (v, c\<lparr>cn_root := t,
                             pending_del_nodes := (pending_del_nodes c)[del := n],
                             pending_del_leaves := (pending_del_leaves c)[del := Some ka]\<rparr>) }
            | _ \<Rightarrow> Some (NULL, c)))"

text \<open>
  A reader restarts as long as \<open>DELETED_LIFE\<close> removes have happened since it began; the sum
  is taken modulo \<open>2 ^ 64\<close>.
\<close>

partial_function (option) critnib_get :: "critnib \<Rightarrow> 64 word \<Rightarrow> ptr option" where
  "critnib_get c key =
     (let wrs1 = remove_count c;
          res = (case dive (cn_root c) key of
                   CLeaf a k v \<Rightarrow> if k = key then v else NULL
                 | _ \<Rightarrow> NULL);
          wrs2 = remove_count c
      in if wrs1 + 16 \<le> wrs2 then critnib_get c key else Some res)"

primrec find_predecessor :: "ct \<Rightarrow> ct" where
  "find_predecessor CNull = CNull"
| "find_predecessor (CLeaf a k v) = CLeaf a k v"
| "find_predecessor (CNode a cs p sh) =
     (case find (\<lambda>i. \<not> is_null (cs i)) (rev nibs) of
        None \<Rightarrow> CNull
      | Some i \<Rightarrow> find_predecessor (cs i))"

primrec find_le :: "ct \<Rightarrow> 64 word \<Rightarrow> ct" where
  "find_le CNull key = CNull"
| "find_le (CLeaf a k v) key = (if k \<le> key then CLeaf a k v else CNull)"
| "find_le (CNode a cs p sh) key =
     (if drop_bit sh (key XOR p) AND NOT NIB \<noteq> 0
      then if p < key then find_predecessor (CNode a cs p sh) else CNull
      else
        let nib = slice_index key sh; k = find_le (cs nib) key
        in if \<not> is_null k then k
           else case find (\<lambda>i. \<not> is_null (cs i)) (rev (filter (\<lambda>i. i < nib) nibs)) of
                  None \<Rightarrow> CNull
                | Some i \<Rightarrow> find_predecessor (cs i))"

partial_function (option) critnib_find_le :: "critnib \<Rightarrow> 64 word \<Rightarrow> ptr option" where
  "critnib_find_le c key =
     (let wrs1 = remove_count c;
          res = (case find_le (cn_root c) key of CLeaf a k v \<Rightarrow> v | _ \<Rightarrow> NULL);
          wrs2 = remove_count c
      in if wrs1 + 16 \<le> wrs2 then critnib_find_le c key else Some res)"

primrec find_successor :: "ct \<Rightarrow> ct" where
  "find_successor CNull = CNull"
| "find_successor (CLeaf a k v) = CLeaf a k v"
| "find_successor (CNode a cs p sh) =
     (case find (\<lambda>i. \<not> is_null (cs i)) nibs of
        None \<Rightarrow> CNull
      | Some i \<Rightarrow> find_successor (cs i))"

primrec find_ge :: "ct \<Rightarrow> 64 word \<Rightarrow> ct" where
  "find_ge CNull key = CNull"
| "find_ge (CLeaf a k v) key = (if key \<le> k then CLeaf a k v else CNull)"
| "find_ge (CNode a cs p sh) key =
     (if drop_bit sh (key XOR p) AND NOT NIB \<noteq> 0
      then if key < p then find_successor (CNode a cs p sh) else CNull
      else
        let nib = slice_index key sh; k = find_ge (cs nib) key
        in if \<not> is_null k then k
           else case find (\<lambda>i. \<not> is_null (cs i)) (filter (\<lambda>i. nib < i) nibs) of
                  None \<Rightarrow> CNull
                | Some i \<Rightarrow> find_successor (cs i))"

text \<open>The answer of \<open>critnib_find\<close>: the key and the value of the leaf found, or 0.\<close>

definition find_leaf :: "ct \<Rightarrow> 64 word \<Rightarrow> int \<Rightarrow> ct" where
  "find_leaf n key dir =
     (if dir < 0 then find_le n key
      else if dir > 0 then find_ge n key
      else case dive n key of CLeaf a k v \<Rightarrow> if k = key then CLeaf a k v else CNull | _ \<Rightarrow> CNull)"

partial_function (option) find_loop ::
  "critnib \<Rightarrow> 64 word \<Rightarrow> int \<Rightarrow> (64 word \<times> ptr) option option" where
  "find_loop c key dir =
     (let wrs1 = remove_count c;
          res = (case find_leaf (cn_root c) key dir of CLeaf a k v \<Rightarrow> Some (k, v) | _ \<Rightarrow> None);
          wrs2 = remove_count c
      in if wrs1 + 16 \<le> wrs2 then find_loop c key dir else Some res)"

definition critnib_find ::
  "critnib \<Rightarrow> 64 word \<Rightarrow> int \<Rightarrow> (64 word \<times> ptr) option option" where
  "critnib_find c key dir =
     (if dir < -1
      then if key = 0 then Some None else find_loop c (key - 1) dir
      else if dir > 1
      then if key = -1 then Some None else find_loop c (key + 1) dir
      else find_loop c key dir)"

text \<open>
  \<open>func\<close> gets the key, the value and the private data, which it may change; a nonzero result
  stops the iteration.
\<close>

primrec iter_children :: "(nib \<Rightarrow> 'p \<Rightarrow> int \<times> 'p) \<Rightarrow> (nib \<Rightarrow> bool) \<Rightarrow> nib list \<Rightarrow> 'p \<Rightarrow> int \<times> 'p" where
  "iter_children visit present [] priv = (0, priv)"
| "iter_children visit present (i # is) priv =
     (if present i
      then let (r, priv) = visit i priv
           in if r \<noteq> 0 then (1, priv) else iter_children visit present is priv
      else iter_children visit present is priv)"

primrec iter :: "ct \<Rightarrow> 64 word \<Rightarrow> 64 word \<Rightarrow> (64 word \<Rightarrow> ptr \<Rightarrow> 'p \<Rightarrow> int \<times> 'p) \<Rightarrow> 'p \<Rightarrow> int \<times> 'p" where
  "iter CNull lo hi func priv = (0, priv)"
| "iter (CLeaf a k v) lo hi func priv =
     (if lo \<le> k \<and> k \<le> hi then func k v priv else (0, priv))"
| "iter (CNode a cs p sh) lo hi func priv =
     (if hi < p then (1, priv)
      else if (p OR path_mask sh) < lo then (0, priv)
      else iter_children (\<lambda>i. iter (cs i) lo hi func) (\<lambda>i. \<not> is_null (cs i)) nibs priv)"

definition critnib_iter ::
  "critnib \<Rightarrow> 64 word \<Rightarrow> 64 word \<Rightarrow> (64 word \<Rightarrow> ptr \<Rightarrow> 'p \<Rightarrow> int \<times> 'p) \<Rightarrow> 'p \<Rightarrow> 'p" where
  "critnib_iter c lo hi func priv =
     (if is_null (cn_root c) then priv else snd (iter (cn_root c) lo hi func priv))"

end
