(* ===== verification/Critnib_Tree.thy ===== *)
theory Critnib_Tree
  imports Critnib "HOL-Library.Multiset"
begin

text \<open>
  The radix tree of \<open>src/critnib.c\<close> as a sorted list of leaves: the invariant of the tree, that
  \<open>insert\<close> and \<open>remove\<close> keep it, and that the searches return the leaf the sorted list gives.
\<close>

section \<open>Children in order\<close>

lemma nibs_set [simp]: "set nibs = UNIV"
proof -
  have "x \<in> of_nat ` {0..<16}" for x :: nib
    by (rule image_eqI [of _ _ "unat x"]) (use unsigned_less [of x] in auto)
  then show ?thesis by (auto simp: nibs_def)
qed

lemma nibs_sorted: "sorted_wrt (<) nibs"
  by (simp add: nibs_def upt_rec)

text \<open>The list of all indices around one of them.\<close>

definition nibs_below :: "nib \<Rightarrow> nib list" where
  "nibs_below i = filter (\<lambda>j. j < i) nibs"

definition nibs_above :: "nib \<Rightarrow> nib list" where
  "nibs_above i = filter (\<lambda>j. i < j) nibs"

lemma nibs_split: "nibs = nibs_below i @ i # nibs_above i"
proof -
  have *: "sorted_wrt (<) xs \<Longrightarrow> i \<in> set xs \<Longrightarrow>
      xs = filter (\<lambda>j. j < i) xs @ i # filter (\<lambda>j. i < j) xs" for xs :: "nib list"
  proof (induction xs)
    case (Cons x xs)
    show ?case
    proof (cases "x = i")
      case True
      with Cons.prems have "filter (\<lambda>j. j < i) xs = []" "filter (\<lambda>j. i < j) xs = xs"
        by (auto simp: filter_empty_conv filter_id_conv)
      with True show ?thesis by simp
    next
      case False
      with Cons.prems have "x < i" by auto
      with Cons show ?thesis by auto
    qed
  qed simp
  show ?thesis unfolding nibs_below_def nibs_above_def by (rule *) (simp_all add: nibs_sorted)
qed

lemma nibs_below_set [simp]: "set (nibs_below i) = {..<i}"
  by (auto simp: nibs_below_def)

lemma nibs_above_set [simp]: "set (nibs_above i) = {i<..}"
  by (auto simp: nibs_above_def)

lemma concat_nibs:
  "concat (map f nibs) = concat (map f (nibs_below i)) @ f i @ concat (map f (nibs_above i))"
  by (subst nibs_split [of i]) simp

lemma concat_nibs_upd:
  "concat (map (\<lambda>j. f ((cs(i := x)) j)) nibs) =
     concat (map (\<lambda>j. f (cs j)) (nibs_below i)) @ f x @ concat (map (\<lambda>j. f (cs j)) (nibs_above i))"
proof -
  have *: "map (\<lambda>j. f ((cs(i := x)) j)) is = map (\<lambda>j. f (cs j)) is" if "i \<notin> set is" for "is"
    using that by (intro map_cong) auto
  have "i \<notin> set (nibs_below i)" "i \<notin> set (nibs_above i)" by simp_all
  note eqs = this [THEN *]
  show ?thesis by (simp only: concat_nibs [of _ i] eqs fun_upd_same)
qed

section \<open>The leaves\<close>

primrec leaves :: "ct \<Rightarrow> (64 word \<times> addr \<times> ptr) list" where
  "leaves CNull = []"
| "leaves (CLeaf a k v) = [(k, a, v)]"
| "leaves (CNode a cs p sh) = concat (map (\<lambda>i. leaves (cs i)) nibs)"

definition keys :: "ct \<Rightarrow> 64 word set" where
  "keys t = fst ` set (leaves t)"

lemma keys_simps [simp]:
  "keys CNull = {}" "keys (CLeaf a k v) = {k}" "keys (CNode a cs p sh) = (\<Union>i. keys (cs i))"
  by (auto simp: keys_def)

lemma delete_leaves_eq: "delete_leaves t = map (\<lambda>(k, a, v). a) (leaves t)"
proof (induction t)
  case (CNode a cs p sh)
  then have "delete_leaves (cs i) = map (\<lambda>(k, a, v). a) (leaves (cs i))" for i by blast
  then show ?case by (simp add: map_concat comp_def)
qed simp_all

primrec ct_ok :: "ct \<Rightarrow> bool" where
  "ct_ok CNull \<longleftrightarrow> True"
| "ct_ok (CLeaf a k v) \<longleftrightarrow> True"
| "ct_ok (CNode a cs p sh) \<longleftrightarrow> sh \<le> 60 \<and> 4 dvd sh \<and> p AND path_mask sh = p \<and>
     (\<exists>i j. i \<noteq> j \<and> cs i \<noteq> CNull \<and> cs j \<noteq> CNull) \<and>
     (\<forall>i. ct_ok (cs i) \<and>
        (\<forall>k \<in> keys (cs i). px (sh + 4) k = px (sh + 4) p \<and> slice_index k sh = i))"

lemma ct_ok_keys: "ct_ok t \<Longrightarrow> t \<noteq> CNull \<Longrightarrow> keys t \<noteq> {}"
proof (induction t)
  case (CNode a cs p sh)
  then obtain i where "cs i \<noteq> CNull" "ct_ok (cs i)" by auto
  with CNode.IH [of "cs i"] show ?case by auto
qed simp_all

text \<open>A node whose keys agree above bit \<open>n\<close> branches below it.\<close>

lemma shift_less:
  assumes ok: "ct_ok (CNode a cs p sh)" and eq: "\<forall>k \<in> keys (CNode a cs p sh). px n k = c"
  shows "sh < n"
proof -
  from ok obtain i j where ij: "i \<noteq> j" "cs i \<noteq> CNull" "cs j \<noteq> CNull" "ct_ok (cs i)" "ct_ok (cs j)"
    by auto
  obtain k l where k: "k \<in> keys (cs i)" and l: "l \<in> keys (cs j)"
    using ct_ok_keys ij by blast
  then have "slice_index k sh \<noteq> slice_index l sh" using ok ij(1) by auto
  then have "px sh k \<noteq> px sh l" by (auto simp: slice_eq_iff px_def)
  moreover have "px n k = px n l" using eq k l by auto
  ultimately show ?thesis using px_mono [of n k l sh] by (cases "sh < n") auto
qed

lemma sorted_concat_nibs:
  assumes "\<And>i. sorted_wrt R (f i)" "\<And>i j x y. i < j \<Longrightarrow> x \<in> set (f i) \<Longrightarrow> y \<in> set (f j) \<Longrightarrow> R x y"
  shows "sorted_wrt R (concat (map f nibs))"
proof -
  have "sorted_wrt (<) is \<Longrightarrow> sorted_wrt R (concat (map f is))" for "is" :: "nib list"
    by (induction "is") (auto simp: sorted_wrt_append assms)
  from this [OF nibs_sorted] show ?thesis .
qed

lemma node_keys_order:
  assumes "ct_ok (CNode a cs p sh)" "i < j" "k \<in> keys (cs i)" "l \<in> keys (cs j)"
  shows "k < l"
  using assms nib_order [of sh k l] by auto

lemma leaves_sorted: "ct_ok t \<Longrightarrow> sorted_wrt (\<lambda>x y. fst x < fst y) (leaves t)"
proof (induction t)
  case (CNode a cs p sh)
  show ?case unfolding leaves.simps
  proof (rule sorted_concat_nibs)
    show "sorted_wrt (\<lambda>x y. fst x < fst y) (leaves (cs i))" for i
      using CNode.IH [of "cs i"] CNode.prems by auto
    show "fst x < fst y" if "i < j" "x \<in> set (leaves (cs i))" "y \<in> set (leaves (cs j))" for i j x y
      using node_keys_order [OF CNode.prems that(1)] that(2,3) by (auto simp: keys_def)
  qed
qed simp_all

lemma leaves_distinct: "ct_ok t \<Longrightarrow> distinct (map fst (leaves t))"
  using leaves_sorted [of t] strict_sorted_iff [of "map fst (leaves t)"]
  by (simp add: sorted_wrt_map)

section \<open>Lookup\<close>

lemma dive_leaf: "dive t key = CLeaf a k v \<Longrightarrow> (k, a, v) \<in> set (leaves t)"
  by (induction t) auto

lemma dive_not_node: "dive t key \<noteq> CNode a cs p sh"
  by (induction t) auto

lemma dive_found: "ct_ok t \<Longrightarrow> (key, a, v) \<in> set (leaves t) \<Longrightarrow> dive t key = CLeaf a key v"
proof (induction t)
  case (CNode b cs p sh)
  then obtain i where i: "(key, a, v) \<in> set (leaves (cs i))" by auto
  then have "key \<in> keys (cs i)" by (force simp: keys_def)
  with CNode.prems have "slice_index key sh = i" "ct_ok (cs i)" by auto
  with CNode.IH [of "cs i"] i show ?case by simp
qed simp_all

definition ct_map :: "ct \<Rightarrow> 64 word \<rightharpoonup> ptr" where
  "ct_map t = map_of (map (\<lambda>(k, a, v). (k, v)) (leaves t))"

lemma map_fst_leaves: "map fst (map (\<lambda>(k, a, v). (k, v)) (leaves t)) = map fst (leaves t)"
  by (simp add: case_prod_beta)

lemma ct_map_Some:
  assumes "ct_ok t"
  shows "ct_map t k = Some v \<longleftrightarrow> (\<exists>a. (k, a, v) \<in> set (leaves t))"
proof -
  have "distinct (map fst (map (\<lambda>(k, a, v). (k, v)) (leaves t)))"
    using leaves_distinct [OF assms] by (simp only: map_fst_leaves)
  from map_of_eq_Some_iff [OF this] show ?thesis by (force simp: ct_map_def)
qed

lemma dom_ct_map: "dom (ct_map t) = keys t"
  by (simp add: ct_map_def dom_map_of_conv_image_fst keys_def image_image case_prod_beta)

lemma dive_ct_map:
  assumes "ct_ok t"
  shows "(case dive t key of CLeaf a k v \<Rightarrow> if k = key then v else NULL | _ \<Rightarrow> NULL) =
    (case ct_map t key of None \<Rightarrow> NULL | Some v \<Rightarrow> v)"
proof (cases "ct_map t key")
  case None
  then have "key \<notin> keys t" using dom_ct_map [of t] by auto
  then have "k \<noteq> key" if "dive t key = CLeaf a k v" for a k v
    using dive_leaf [OF that] by (force simp: keys_def)
  with None show ?thesis by (auto split: ct.split)
next
  case (Some v)
  then obtain a where "(key, a, v) \<in> set (leaves t)" using ct_map_Some [OF assms] by blast
  with dive_found [OF assms] Some show ?thesis by simp
qed

section \<open>Insertion\<close>

lemma leaves_store_parent:
  "mset (leaves (store_parent t key m)) + mset (leaves (insert_walk t key)) =
     mset (leaves t) + mset (leaves m)"
proof (induction t)
  case (CNode a cs p sh)
  let ?i = "slice_index key sh"
  from CNode.IH [of "cs ?i"]
  have "mset (leaves (store_parent (cs ?i) key m)) + mset (leaves (insert_walk (cs ?i) key)) =
      mset (leaves (cs ?i)) + mset (leaves m)" by simp
  then show ?case
    by (simp add: concat_nibs_upd concat_nibs [of "\<lambda>i. leaves (cs i)" ?i] ac_simps
        del: fun_upd_apply)
qed simp_all

lemma nodes_store_parent:
  "mset (delete_nodes (store_parent t key m)) + mset (delete_nodes (insert_walk t key)) =
     mset (delete_nodes t) + mset (delete_nodes m)"
proof (induction t)
  case (CNode a cs p sh)
  let ?i = "slice_index key sh"
  from CNode.IH [of "cs ?i"]
  have "mset (delete_nodes (store_parent (cs ?i) key m)) + mset (delete_nodes (insert_walk (cs ?i) key)) =
      mset (delete_nodes (cs ?i)) + mset (delete_nodes m)" by simp
  then show ?case
    by (simp add: concat_nibs_upd concat_nibs [of "\<lambda>i. delete_nodes (cs i)" ?i] ac_simps
        del: fun_upd_apply)
qed simp_all

lemma keys_store_parent:
  "keys (store_parent t key m) \<subseteq> keys t \<union> keys m"
proof -
  have "set (leaves (store_parent t key m)) \<subseteq> set (leaves t) \<union> set (leaves m)"
    using leaves_store_parent [of t key m]
    by (metis set_mset_mset set_mset_union Un_upper1)
  then show ?thesis by (auto simp: keys_def)
qed

lemma insert_walk_ok: "ct_ok t \<Longrightarrow> ct_ok (insert_walk t key)"
  by (induction t) auto

lemma insert_walk_keys: "keys (insert_walk t key) \<subseteq> keys t"
  by (induction t) auto

lemma insert_walk_stop:
  "insert_walk t key = CNode a cs p sh \<Longrightarrow> key AND path_mask sh \<noteq> p"
  by (induction t) (auto split: if_splits)

text \<open>An absent key is not below the node where the walk stops, unless it is that leaf.\<close>

lemma insert_walk_key:
  assumes "ct_ok t" "(key, a, v) \<in> set (leaves t)"
  shows "insert_walk t key = CLeaf a key v"
  using assms
proof (induction t)
  case (CNode b cs p sh)
  then obtain i where i: "(key, a, v) \<in> set (leaves (cs i))" by auto
  then have "key \<in> keys (cs i)" by (force simp: keys_def)
  with CNode.prems have "slice_index key sh = i" "ct_ok (cs i)"
    "px (sh + 4) key = px (sh + 4) p" "p AND path_mask sh = p" by auto
  with CNode.IH [of "cs i"] i show ?case by (simp add: masked_eq_iff)
qed simp_all

text \<open>
  Replacing the subtree at which the walk stops by one with the same keys and the new one
  keeps the tree well formed.
\<close>

lemma store_parent_ok:
  assumes "ct_ok t" "ct_ok m" "m \<noteq> CNull" "keys m \<subseteq> insert key (keys (insert_walk t key))"
  shows "ct_ok (store_parent t key m) \<and> store_parent t key m \<noteq> CNull"
  using assms
proof (induction t)
  case (CNode a cs p sh)
  let ?i = "slice_index key sh"
  show ?case
  proof (cases "key AND path_mask sh = p")
    case True
    have ok: "ct_ok (cs ?i)" and p: "p AND path_mask sh = p" using CNode.prems(1) by auto
    have px: "px (sh + 4) key = px (sh + 4) p" using True masked_eq_iff [OF p] by simp
    have sub: "ct_ok (store_parent (cs ?i) key m) \<and> store_parent (cs ?i) key m \<noteq> CNull"
      using CNode.IH [of "cs ?i"] ok CNode.prems(2,3,4) True by simp
    have "keys (store_parent (cs ?i) key m) \<subseteq> insert key (keys (cs ?i))"
      using keys_store_parent [of "cs ?i" key m] CNode.prems(4) True
        insert_walk_keys [of "cs ?i" key] by auto
    then have inside: "\<forall>k \<in> keys (store_parent (cs ?i) key m).
        px (sh + 4) k = px (sh + 4) p \<and> slice_index k sh = ?i"
      using CNode.prems(1) px by auto
    obtain i j where "i \<noteq> j" "cs i \<noteq> CNull" "cs j \<noteq> CNull" using CNode.prems(1) by auto
    then have "\<exists>i j. i \<noteq> j \<and> (cs(?i := store_parent (cs ?i) key m)) i \<noteq> CNull \<and>
        (cs(?i := store_parent (cs ?i) key m)) j \<noteq> CNull"
      using sub by (intro exI [of _ i] exI [of _ j]) auto
    then show ?thesis using CNode.prems(1) True sub inside by simp
  next
    case False
    with CNode.prems show ?thesis by simp
  qed
qed simp_all

text \<open>The node made when the walk stops at a leaf or a node that the key does not belong under.\<close>

lemma new_node_ok:
  assumes ok: "ct_ok n" and n: "n \<noteq> CNull" and path: "path = (case n of CLeaf a lk v \<Rightarrow> lk | _ \<Rightarrow> nd_path n)"
    and differ: "path \<noteq> key" and stop: "\<And>a cs p s. n = CNode a cs p s \<Longrightarrow> key AND path_mask s \<noteq> p"
    and sh: "sh = nib_shift (path XOR key)"
  shows "ct_ok (CNode ma ((\<lambda>_. CNull)(slice_index key sh := CLeaf ka key v, slice_index path sh := n))
            (key AND path_mask sh) sh)"
proof -
  have ne: "slice_index path sh \<noteq> slice_index key sh" using nib_shift_differ [OF differ] by (simp add: sh)
  have above: "px (sh + 4) path = px (sh + 4) key" using nib_shift_above [OF differ] by (simp add: sh)
  have "path XOR key \<noteq> 0" using differ by (simp add: xor_zero_iff)
  then have shb: "sh \<le> 60" "4 dvd sh" using nib_shift_le by (auto simp: sh)
  have keys: "px sh k = px sh path" if "k \<in> keys n" for k
  proof (cases n)
    case (CNode a cs p s)
    have "px (s + 4) path \<noteq> px (s + 4) key"
      using stop [OF CNode] ok masked_eq_iff [of p s key] by (auto simp: CNode path)
    moreover have "4 dvd s + 4" using ok by (simp add: CNode)
    ultimately have "s + 4 \<le> sh" unfolding sh by (rule nib_shift_ge)
    moreover have "px (s + 4) k = px (s + 4) path" using that ok by (auto simp: CNode path)
    ultimately show ?thesis by (rule px_mono [rotated])
  qed (use that path in auto)
  have "px (sh + 4) k = px (sh + 4) key \<and> slice_index k sh = slice_index path sh" if "k \<in> keys n" for k
  proof -
    have "px (sh + 4) k = px (sh + 4) path" using px_mono [OF keys [OF that], of "sh + 4"] by simp
    moreover have "slice_index k sh = slice_index path sh"
      using keys [OF that] by (simp add: slice_eq_iff px_def)
    ultimately show ?thesis using above by simp
  qed
  then show ?thesis
    using shb ne ok n
    by (auto simp: masked_idem px_masked intro!: exI [of _ "slice_index key sh"]
        exI [of _ "slice_index path sh"])
qed

end
