(* ===== verification/Critnib_Search.thy ===== *)
theory Critnib_Search
  imports Critnib_Tree
begin

text \<open>
  Removal and the ordered searches of \<open>src/critnib.c\<close>, related to the sorted list of leaves.
\<close>

section \<open>Removal\<close>

definition ptr_mset :: "ptr \<Rightarrow> addr multiset" where
  "ptr_mset p = (case p of None \<Rightarrow> {#} | Some a \<Rightarrow> {#a#})"

lemma ptr_mset_simps [simp]: "ptr_mset None = {#}" "ptr_mset (Some a) = {#a#}"
  by (simp_all add: ptr_mset_def)

lemma concat_nonnull:
  assumes "f CNull = []"
  shows "concat (map (\<lambda>j. f (c j)) js) = concat (map (\<lambda>j. f (c j)) (filter (\<lambda>j. \<not> is_null (c j)) js))"
  using assms by (induction js) auto

lemma mset_concat_clear:
  "mset (concat (map (\<lambda>j. f (cs j)) nibs)) + mset (f CNull) =
     mset (f (cs i)) + mset (concat (map (\<lambda>j. f ((cs(i := CNull)) j)) nibs))"
  by (simp only: concat_nibs_upd concat_nibs [of "\<lambda>j. f (cs j)" i]) simp

lemma unlink_leaf_run:
  assumes "ct_ok t" "dive t key = CLeaf a key v"
  shows "\<exists>t' del. unlink_leaf t key = Some (t', del) \<and> ct_ok t' \<and> (\<not> is_leaf t \<longrightarrow> t' \<noteq> CNull) \<and>
    mset (leaves t) = add_mset (key, a, v) (mset (leaves t')) \<and>
    mset (delete_nodes t) = mset (delete_nodes t') + ptr_mset del"
  using assms
proof (induction t)
  case (CNode b cs p sh)
  define i where "i = slice_index key sh"
  define cs' where "cs' = cs(i := CNull)"
  have ok: "ct_ok (cs j)" for j using CNode.prems(1) by auto
  have di: "dive (cs i) key = CLeaf a key v" using CNode.prems(2) by (simp add: i_def)
  show ?case
  proof (cases "is_leaf (cs i)")
    case True
    then have leaf: "cs i = CLeaf a key v" using di by (cases "cs i") auto
    define occ where "occ = filter (\<lambda>j. \<not> is_null (cs' j)) nibs"
    have rm: "unlink_leaf (CNode b cs p sh) key = (case occ of
        [] \<Rightarrow> None | [o'] \<Rightarrow> Some (cs' o', Some b) | _ \<Rightarrow> Some (CNode b cs' p sh, NULL))"
      using True by (simp add: i_def [symmetric] occ_def cs'_def [symmetric] Let_def)
    have lv: "mset (leaves (CNode b cs p sh)) =
        add_mset (key, a, v) (mset (concat (map (\<lambda>j. leaves (cs' j)) nibs)))"
      using mset_concat_clear [of leaves cs i] leaf by (simp add: cs'_def del: fun_upd_apply)
    have nd: "mset (delete_nodes (CNode b cs p sh)) =
        mset (concat (map (\<lambda>j. delete_nodes (cs' j)) nibs)) + {#b#}"
      using mset_concat_clear [of delete_nodes cs i] leaf by (simp add: cs'_def del: fun_upd_apply)
    obtain x y where "x \<noteq> y" "cs x \<noteq> CNull" "cs y \<noteq> CNull" using CNode.prems(1) by auto
    then obtain j where j: "j \<noteq> i" "cs j \<noteq> CNull" by metis
    then have "j \<in> set occ" by (simp add: occ_def cs'_def)
    then obtain o' os' where occ: "occ = o' # os'" by (cases occ) auto
    then have "o' \<in> set occ" by simp
    then have o': "cs' o' \<noteq> CNull" by (simp add: occ_def)
    then have o'i: "o' \<noteq> i" by (auto simp: cs'_def)
    show ?thesis
    proof (cases os')
      case Nil
      have "unlink_leaf (CNode b cs p sh) key = Some (cs' o', Some b)" using rm occ Nil by simp
      moreover have "ct_ok (cs' o')" using ok o'i by (simp add: cs'_def)
      moreover have "concat (map (\<lambda>j. leaves (cs' j)) nibs) = leaves (cs' o')"
        unfolding concat_nonnull [of leaves cs' nibs, OF leaves.simps(1)] occ_def [symmetric] occ Nil
        by simp
      moreover have "concat (map (\<lambda>j. delete_nodes (cs' j)) nibs) = delete_nodes (cs' o')"
        unfolding concat_nonnull [of delete_nodes cs' nibs, OF delete_nodes.simps(1)]
          occ_def [symmetric] occ Nil
        by simp
      ultimately show ?thesis using lv nd o' by (intro exI [of _ "cs' o'"] exI [of _ "Some b"]) simp
    next
      case (Cons o2 os2)
      have "distinct occ" using nibs_sorted by (simp add: occ_def strict_sorted_iff)
      with occ Cons have "o' \<noteq> o2" by auto
      moreover have "o2 \<in> set occ" using occ Cons by simp
      then have "cs' o2 \<noteq> CNull" by (simp add: occ_def)
      ultimately have two: "\<exists>x y. x \<noteq> y \<and> cs' x \<noteq> CNull \<and> cs' y \<noteq> CNull" using o' by blast
      have "ct_ok (cs' x) \<and> (\<forall>k \<in> keys (cs' x). px (sh + 4) k = px (sh + 4) p \<and> slice_index k sh = x)"
        for x using CNode.prems(1) by (cases "x = i") (simp_all add: cs'_def)
      with two CNode.prems(1) have "ct_ok (CNode b cs' p sh)" by simp
      moreover have "unlink_leaf (CNode b cs p sh) key = Some (CNode b cs' p sh, NULL)"
        using rm occ Cons by simp
      ultimately show ?thesis using lv nd by simp
    qed
  next
    case False
    then have node: "\<not> is_null (cs i)" using di by (cases "cs i") auto
    from CNode.IH [of "cs i"] ok di obtain t' del where t':
      "unlink_leaf (cs i) key = Some (t', del)" "ct_ok t'" "t' \<noteq> CNull"
      "mset (leaves (cs i)) = add_mset (key, a, v) (mset (leaves t'))"
      "mset (delete_nodes (cs i)) = mset (delete_nodes t') + ptr_mset del"
      using False by auto
    have rm: "unlink_leaf (CNode b cs p sh) key = Some (CNode b (cs(i := t')) p sh, del)"
      using False node t'(1) by (simp add: i_def [symmetric])
    have sub: "keys t' \<subseteq> keys (cs i)"
    proof -
      have "set_mset (mset (leaves t')) \<subseteq> set_mset (mset (leaves (cs i)))" by (auto simp: t'(4))
      then show ?thesis by (auto simp: keys_def)
    qed
    obtain j l where "j \<noteq> l" "cs j \<noteq> CNull" "cs l \<noteq> CNull" using CNode.prems(1) by auto
    then have "\<exists>j l. j \<noteq> l \<and> (cs(i := t')) j \<noteq> CNull \<and> (cs(i := t')) l \<noteq> CNull"
      using t'(3) by (intro exI [of _ j] exI [of _ l]) auto
    then have "ct_ok (CNode b (cs(i := t')) p sh)"
      using CNode.prems(1) t'(2) sub by auto
    moreover have "mset (leaves (CNode b cs p sh)) =
        add_mset (key, a, v) (mset (leaves (CNode b (cs(i := t')) p sh)))"
      unfolding leaves.simps concat_nibs_upd concat_nibs [of "\<lambda>j. leaves (cs j)" i]
      by (simp add: t'(4))
    moreover have "mset (delete_nodes (CNode b cs p sh)) =
        mset (delete_nodes (CNode b (cs(i := t')) p sh)) + ptr_mset del"
      unfolding delete_nodes.simps concat_nibs_upd concat_nibs [of "\<lambda>j. delete_nodes (cs j)" i]
      by (simp add: t'(5))
    ultimately show ?thesis using rm by (intro exI [of _ "CNode b (cs(i := t')) p sh"] exI [of _ del]) simp
  qed
qed simp_all

section \<open>Ordered search\<close>

fun leaf_of :: "64 word \<times> addr \<times> ptr \<Rightarrow> ct" where
  "leaf_of (k, a, v) = CLeaf a k v"

definition last_leaf :: "(64 word \<times> addr \<times> ptr) list \<Rightarrow> ct" where
  "last_leaf es = (if es = [] then CNull else leaf_of (last es))"

definition first_leaf :: "(64 word \<times> addr \<times> ptr) list \<Rightarrow> ct" where
  "first_leaf es = (if es = [] then CNull else leaf_of (hd es))"

lemma last_leaf_append: "last_leaf (xs @ ys) = (if ys = [] then last_leaf xs else last_leaf ys)"
  by (simp add: last_leaf_def)

lemma first_leaf_append: "first_leaf (xs @ ys) = (if xs = [] then first_leaf ys else first_leaf xs)"
  by (simp add: first_leaf_def)

lemma leaf_of_not_null [simp]: "leaf_of e \<noteq> CNull"
  by (cases e) simp

lemma last_leaf_null [simp]: "last_leaf es = CNull \<longleftrightarrow> es = []"
  by (simp add: last_leaf_def)

lemma first_leaf_null [simp]: "first_leaf es = CNull \<longleftrightarrow> es = []"
  by (simp add: first_leaf_def)

lemma leaves_null [simp]: "ct_ok t \<Longrightarrow> leaves t = [] \<longleftrightarrow> t = CNull"
  using ct_ok_keys [of t] by (auto simp: keys_def)

lemma last_leaf_children:
  assumes "\<And>i. ct_ok (cs i)"
  shows "last_leaf (concat (map (\<lambda>i. leaves (cs i)) js)) =
    (case find (\<lambda>i. \<not> is_null (cs i)) (rev js) of None \<Rightarrow> CNull | Some i \<Rightarrow> last_leaf (leaves (cs i)))"
  by (induction js rule: rev_induct) (simp_all add: last_leaf_append assms)

lemma first_leaf_children:
  assumes "\<And>i. ct_ok (cs i)"
  shows "first_leaf (concat (map (\<lambda>i. leaves (cs i)) js)) =
    (case find (\<lambda>i. \<not> is_null (cs i)) js of None \<Rightarrow> CNull | Some i \<Rightarrow> first_leaf (leaves (cs i)))"
  by (induction js) (simp_all add: first_leaf_append assms)

lemma find_predecessor_eq: "ct_ok t \<Longrightarrow> find_predecessor t = last_leaf (leaves t)"
proof (induction t)
  case (CNode a cs p sh)
  then have ok: "\<And>i. ct_ok (cs i)" by auto
  then have "find_predecessor (cs i) = last_leaf (leaves (cs i))" for i using CNode.IH by blast
  then show ?case using last_leaf_children [of cs nibs, OF ok] by (simp cong: option.case_cong)
qed (simp_all add: last_leaf_def)

lemma find_successor_eq: "ct_ok t \<Longrightarrow> find_successor t = first_leaf (leaves t)"
proof (induction t)
  case (CNode a cs p sh)
  then have ok: "\<And>i. ct_ok (cs i)" by auto
  then have "find_successor (cs i) = first_leaf (leaves (cs i))" for i using CNode.IH by blast
  then show ?case using first_leaf_children [of cs nibs, OF ok] by (simp cong: option.case_cong)
qed (simp_all add: first_leaf_def)

text \<open>Where a key lies relative to a node it does not belong under, and to the children of one it does.\<close>

lemma outside_order:
  assumes ok: "ct_ok (CNode a cs p sh)" and out: "px (sh + 4) key \<noteq> px (sh + 4) p"
    and e: "e \<in> set (leaves (CNode a cs p sh))"
  shows "if p < key then fst e < key else key < fst e"
proof -
  have "fst e \<in> keys (CNode a cs p sh)" using e unfolding keys_def by (rule imageI)
  then have px: "px (sh + 4) (fst e) = px (sh + 4) p" using ok by auto
  show ?thesis
  proof (cases "p < key")
    case True
    then have "px (sh + 4) p \<le> px (sh + 4) key"
      by (simp add: px_def div_le_mono word_less_nat_alt)
    with out px have "px (sh + 4) (fst e) < px (sh + 4) key" by simp
    with True show ?thesis by (simp add: px_less_imp)
  next
    case False
    then have "px (sh + 4) key \<le> px (sh + 4) p"
      by (simp add: px_def div_le_mono word_less_nat_alt)
    with out px have "px (sh + 4) key < px (sh + 4) (fst e)" by simp
    with False show ?thesis by (simp add: px_less_imp)
  qed
qed

lemma child_order:
  assumes ok: "ct_ok (CNode a cs p sh)" and ins: "px (sh + 4) key = px (sh + 4) p"
    and e: "e \<in> set (leaves (cs i))"
  shows "i < slice_index key sh \<Longrightarrow> fst e < key" "slice_index key sh < i \<Longrightarrow> key < fst e"
proof -
  have "fst e \<in> keys (cs i)" using e unfolding keys_def by (rule imageI)
  then have "px (sh + 4) (fst e) = px (sh + 4) key" "slice_index (fst e) sh = i" using ok ins by auto
  then show "i < slice_index key sh \<Longrightarrow> fst e < key" "slice_index key sh < i \<Longrightarrow> key < fst e"
    using nib_order [of sh "fst e" key] nib_order [of sh key "fst e"] by auto
qed

lemma find_le_eq:
  "ct_ok t \<Longrightarrow> find_le t key = last_leaf (filter (\<lambda>e. fst e \<le> key) (leaves t))"
proof (induction t)
  case (CNode a cs p sh)
  let ?n = "slice_index key sh"
  have ok: "\<And>i. ct_ok (cs i)" using CNode.prems by auto
  show ?case
  proof (cases "px (sh + 4) key = px (sh + 4) p")
    case False
    note out = outside_order [OF CNode.prems False]
    show ?thesis
    proof (cases "p < key")
      case True
      with out have "filter (\<lambda>e. fst e \<le> key) (leaves (CNode a cs p sh)) = leaves (CNode a cs p sh)"
        by (force simp: filter_id_conv)
      then show ?thesis using True False find_predecessor_eq [OF CNode.prems]
        by (simp only: find_le.simps outside_iff) simp
    next
      case f: False
      with out have "filter (\<lambda>e. fst e \<le> key) (leaves (CNode a cs p sh)) = []"
        by (force simp: filter_empty_conv)
      then show ?thesis using f False by (simp only: find_le.simps outside_iff) (simp add: last_leaf_def)
    qed
  next
    case True
    note ord = child_order [OF CNode.prems True]
    let ?B = "concat (map (\<lambda>i. leaves (cs i)) (nibs_below ?n))"
    have B: "filter (\<lambda>e. fst e \<le> key) ?B = ?B"
      using ord(1) by (force simp: filter_id_conv)
    have A: "filter (\<lambda>e. fst e \<le> key) (concat (map (\<lambda>i. leaves (cs i)) (nibs_above ?n))) = []"
      using ord(2) by (force simp: filter_empty_conv)
    have flt: "filter (\<lambda>e. fst e \<le> key) (leaves (CNode a cs p sh)) =
        ?B @ filter (\<lambda>e. fst e \<le> key) (leaves (cs ?n))"
      by (simp only: leaves.simps concat_nibs [of _ ?n] filter_append A B) simp
    have sub: "find_le (cs ?n) key = last_leaf (filter (\<lambda>e. fst e \<le> key) (leaves (cs ?n)))"
      using CNode.IH ok by simp
    have pred: "find_predecessor (cs i) = last_leaf (leaves (cs i))" for i
      by (rule find_predecessor_eq [OF ok])
    have "drop_bit sh (key XOR p) AND NOT NIB = 0" using True outside_iff by blast
    then show ?thesis
      unfolding flt last_leaf_append
      by (simp add: sub Let_def last_leaf_children [of cs, OF ok] pred nibs_below_def
          cong: option.case_cong)
  qed
qed (simp_all add: last_leaf_def)

lemma find_ge_eq:
  "ct_ok t \<Longrightarrow> find_ge t key = first_leaf (filter (\<lambda>e. key \<le> fst e) (leaves t))"
proof (induction t)
  case (CNode a cs p sh)
  let ?n = "slice_index key sh"
  have ok: "\<And>i. ct_ok (cs i)" using CNode.prems by auto
  show ?case
  proof (cases "px (sh + 4) key = px (sh + 4) p")
    case False
    note out = outside_order [OF CNode.prems False]
    then have ne: "key \<noteq> p" using False by auto
    show ?thesis
    proof (cases "p < key")
      case True
      with out have "filter (\<lambda>e. key \<le> fst e) (leaves (CNode a cs p sh)) = []"
        by (force simp: filter_empty_conv)
      moreover have "\<not> key < p" using True by simp
      ultimately show ?thesis using False
        by (simp only: find_ge.simps outside_iff) (simp add: first_leaf_def)
    next
      case f: False
      with out have "filter (\<lambda>e. key \<le> fst e) (leaves (CNode a cs p sh)) = leaves (CNode a cs p sh)"
        by (force simp: filter_id_conv)
      then show ?thesis using f ne False find_successor_eq [OF CNode.prems]
        by (simp only: find_ge.simps outside_iff) simp
    qed
  next
    case True
    note ord = child_order [OF CNode.prems True]
    let ?A = "concat (map (\<lambda>i. leaves (cs i)) (nibs_above ?n))"
    have A: "filter (\<lambda>e. key \<le> fst e) ?A = ?A"
      using ord(2) by (force simp: filter_id_conv)
    have B: "filter (\<lambda>e. key \<le> fst e) (concat (map (\<lambda>i. leaves (cs i)) (nibs_below ?n))) = []"
      using ord(1) by (force simp: filter_empty_conv)
    have flt: "filter (\<lambda>e. key \<le> fst e) (leaves (CNode a cs p sh)) =
        filter (\<lambda>e. key \<le> fst e) (leaves (cs ?n)) @ ?A"
      by (simp only: leaves.simps concat_nibs [of _ ?n] filter_append A B) simp
    have sub: "find_ge (cs ?n) key = first_leaf (filter (\<lambda>e. key \<le> fst e) (leaves (cs ?n)))"
      using CNode.IH ok by simp
    have succ: "find_successor (cs i) = first_leaf (leaves (cs i))" for i
      by (rule find_successor_eq [OF ok])
    have "drop_bit sh (key XOR p) AND NOT NIB = 0" using True outside_iff by blast
    then show ?thesis
      unfolding flt first_leaf_append
      by (simp add: sub Let_def first_leaf_children [of cs, OF ok] succ nibs_above_def
          cong: option.case_cong)
  qed
qed (simp_all add: first_leaf_def)

section \<open>Iteration\<close>

text \<open>Calling \<open>func\<close> on a list of leaves until it asks to stop.\<close>

primrec visit_all ::
  "(64 word \<Rightarrow> ptr \<Rightarrow> 'p \<Rightarrow> int \<times> 'p) \<Rightarrow> (64 word \<times> addr \<times> ptr) list \<Rightarrow> 'p \<Rightarrow> bool \<times> 'p" where
  "visit_all func [] priv = (False, priv)"
| "visit_all func (e # es) priv =
     (let (k, a, v) = e; (r, priv) = func k v priv
      in if r \<noteq> 0 then (True, priv) else visit_all func es priv)"

lemma visit_all_append:
  "visit_all func (xs @ ys) priv =
     (let (stop, priv) = visit_all func xs priv
      in if stop then (True, priv) else visit_all func ys priv)"
  by (induction xs arbitrary: priv) (simp_all add: Let_def split_beta)

text \<open>
  What one call of \<open>iter\<close> does: the callback runs on the leaves up to \<open>hi\<close> in order; a
  nonzero result means that the callback asked to stop or that the rest is above \<open>hi\<close>.
\<close>

definition iter_spec :: "64 word \<Rightarrow> (64 word \<Rightarrow> ptr \<Rightarrow> 'p \<Rightarrow> int \<times> 'p) \<Rightarrow>
    (64 word \<times> addr \<times> ptr) list \<Rightarrow> 'p \<Rightarrow> int \<times> 'p \<Rightarrow> bool" where
  "iter_spec hi func es priv out \<longleftrightarrow>
     (let (stop, priv') = visit_all func (filter (\<lambda>e. fst e \<le> hi) es) priv
      in snd out = priv' \<and> (stop \<longrightarrow> fst out \<noteq> 0) \<and>
         (fst out \<noteq> 0 \<longrightarrow> stop \<or> (\<exists>e \<in> set es. hi < fst e)))"

lemma iter_children_spec:
  assumes sub: "\<And>i priv. iter_spec hi func (leaves (cs i)) priv (iter (cs i) 0 hi func priv)"
    and ord: "\<And>i j x y. i < j \<Longrightarrow> x \<in> set (leaves (cs i)) \<Longrightarrow> y \<in> set (leaves (cs j)) \<Longrightarrow> fst x < fst y"
    and srt: "sorted_wrt (<) js"
  shows "iter_spec hi func (concat (map (\<lambda>i. leaves (cs i)) js)) priv
    (iter_children (\<lambda>i. iter (cs i) 0 hi func) (\<lambda>i. \<not> is_null (cs i)) js priv)"
  using srt
proof (induction js arbitrary: priv)
  case (Cons i js)
  let ?up = "\<lambda>xs. filter (\<lambda>e. fst e \<le> hi) xs"
  let ?rest = "concat (map (\<lambda>i. leaves (cs i)) js)"
  obtain r p1 where r: "iter (cs i) 0 hi func priv = (r, p1)" by force
  obtain stop p2 where st: "visit_all func (?up (leaves (cs i))) priv = (stop, p2)" by force
  have h: "p1 = p2" "stop \<longrightarrow> r \<noteq> 0" "r \<noteq> 0 \<longrightarrow> stop \<or> (\<exists>e \<in> set (leaves (cs i)). hi < fst e)"
    using sub [of i priv] by (auto simp: iter_spec_def r st)
  have IH: "iter_spec hi func ?rest p1
      (iter_children (\<lambda>i. iter (cs i) 0 hi func) (\<lambda>i. \<not> is_null (cs i)) js p1)"
    using Cons.IH Cons.prems by simp
  show ?case
  proof (cases "r \<noteq> 0")
    case True
    then have nn: "cs i \<noteq> CNull" using r by auto
    show ?thesis
    proof (cases stop)
      case stop: True
      then show ?thesis using True nn r st h(1)
        by (simp add: iter_spec_def visit_all_append)
    next
      case False
      with h True obtain e where e: "e \<in> set (leaves (cs i))" "hi < fst e" by blast
      then have "hi < fst y" if "y \<in> set ?rest" for y
        using that ord [of i _ e y] Cons.prems by force
      then have "?up ?rest = []" by (force simp: filter_empty_conv)
      then show ?thesis using True nn r st h(1) False e
        by (auto simp: iter_spec_def visit_all_append)
    qed
  next
    case False
    then have "\<not> stop" using h by simp
    then have v: "visit_all func (?up (concat (map (\<lambda>i. leaves (cs i)) (i # js)))) priv =
        visit_all func (?up ?rest) p1"
      using st h(1) by (simp add: visit_all_append)
    have it: "iter_children (\<lambda>i. iter (cs i) 0 hi func) (\<lambda>i. \<not> is_null (cs i)) (i # js) priv =
        iter_children (\<lambda>i. iter (cs i) 0 hi func) (\<lambda>i. \<not> is_null (cs i)) js p1"
      using False r by auto
    show ?thesis using IH unfolding iter_spec_def v it by (auto split: prod.splits)
  qed
qed (simp add: iter_spec_def)

lemma iter_run: "ct_ok t \<Longrightarrow> iter_spec hi func (leaves t) priv (iter t 0 hi func priv)"
proof (induction t arbitrary: priv)
  case CNull
  then show ?case by (simp add: iter_spec_def)
next
  case (CLeaf a k v)
  show ?case by (cases "func k v priv") (auto simp: iter_spec_def split: prod.splits)
next
  case (CNode a cs p sh)
  have ok: "ct_ok (cs i)" for i using CNode.prems by auto
  have sub: "iter_spec hi func (leaves (cs i)) priv (iter (cs i) 0 hi func priv)" for i priv
    using CNode.IH ok by blast
  show ?case
  proof (cases "hi < p")
    case True
    have big: "hi < fst e" if "e \<in> set (leaves (CNode a cs p sh))" for e
    proof -
      have "fst e \<in> keys (CNode a cs p sh)" using that unfolding keys_def by (rule imageI)
      then have "p \<le> fst e" using CNode.prems masked_le [of p sh "fst e"] by auto
      with True show ?thesis by simp
    qed
    then have "filter (\<lambda>e. fst e \<le> hi) (leaves (CNode a cs p sh)) = []"
      by (force simp: filter_empty_conv)
    moreover have "leaves (CNode a cs p sh) \<noteq> []" using CNode.prems leaves_null by blast
    then have "\<exists>e \<in> set (leaves (CNode a cs p sh)). hi < fst e" using big by (meson last_in_set)
    ultimately show ?thesis using True
      by (simp add: iter_spec_def del: leaves.simps)
  next
    case False
    have "iter_spec hi func (leaves (CNode a cs p sh)) priv
      (iter_children (\<lambda>i. iter (cs i) 0 hi func) (\<lambda>i. \<not> is_null (cs i)) nibs priv)"
      unfolding leaves.simps
      by (rule iter_children_spec [OF sub _ nibs_sorted])
        (use node_keys_order [OF CNode.prems] in \<open>auto simp: keys_def\<close>)
    then show ?thesis using False by simp
  qed
qed

end
