(* ===== verification/Critnib_Correct.thy ===== *)
theory Critnib_Correct
  imports Critnib_Search
begin

text \<open>
  \<open>src/critnib.c\<close> as a map from keys to pointers.  The invariant ties the tree to the memory
  of the two allocators: every element they have handed out is exactly once in the tree, in
  the pool of free elements or among the removed elements whose grace period runs.
\<close>

section \<open>Invariant\<close>

definition pend :: "ptr list \<Rightarrow> addr multiset" where
  "pend ps = sum_list (map ptr_mset ps)"

definition own_leaves :: "critnib \<Rightarrow> addr multiset" where
  "own_leaves c = mset (delete_leaves (cn_root c)) + mset (deleted_leaf c) + pend (pending_del_leaves c)"

definition own_nodes :: "critnib \<Rightarrow> addr multiset" where
  "own_nodes c = mset (delete_nodes (cn_root c)) + mset (deleted_node c) + pend (pending_del_nodes c)"

text \<open>\<open>M\<close> are elements that the running operation holds.\<close>

definition leaves_ok :: "critnib \<Rightarrow> addr multiset \<Rightarrow> bool" where
  "leaves_ok c M \<longleftrightarrow> (\<exists>L. slab_rep (allocator_leaves c) L \<and> own_leaves c + M = mset_set L)"

definition nodes_ok :: "critnib \<Rightarrow> addr multiset \<Rightarrow> bool" where
  "nodes_ok c M \<longleftrightarrow> (\<exists>L. slab_rep (allocator_nodes c) L \<and> own_nodes c + M = mset_set L)"

definition critnib_inv :: "critnib \<Rightarrow> bool" where
  "critnib_inv c \<longleftrightarrow> ct_ok (cn_root c) \<and> leaves_ok c {#} \<and> nodes_ok c {#} \<and>
     length (pending_del_nodes c) = DELETED_LIFE \<and> length (pending_del_leaves c) = DELETED_LIFE"

definition critnib_map :: "critnib \<Rightarrow> 64 word \<rightharpoonup> ptr" where
  "critnib_map c = ct_map (cn_root c)"

text \<open>The allocators can serve one more leaf and one more node.\<close>

definition critnib_room :: "os \<Rightarrow> critnib \<Rightarrow> bool" where
  "critnib_room os c \<longleftrightarrow>
     (deleted_leaf c = [] \<longrightarrow> slab_alloc_malloc os (allocator_leaves c) \<noteq> None) \<and>
     (deleted_node c = [] \<longrightarrow> slab_alloc_malloc os (allocator_nodes c) \<noteq> None)"

lemma pend_upd:
  assumes "i < length ps"
  shows "pend (ps[i := p]) + ptr_mset (ps ! i) = pend ps + ptr_mset p"
proof -
  have "i < length ps \<Longrightarrow> sum_list (map ptr_mset (ps[i := p])) + ptr_mset (ps ! i) =
      sum_list (map ptr_mset ps) + ptr_mset p"
    by (induction ps arbitrary: i) (auto split: nat.splits simp: ac_simps)
  with assms show ?thesis by (simp add: pend_def)
qed

section \<open>The map\<close>

lemma ct_map_upd:
  assumes "ct_ok t" "ct_ok t'"
    and "set (leaves t') = insert (k, a, v) (set (leaves t) - {e. fst e = k})"
  shows "ct_map t' = (ct_map t)(k \<mapsto> v)"
proof
  fix x
  have "ct_map t' x = Some w \<longleftrightarrow> ((ct_map t)(k \<mapsto> v)) x = Some w" for w
    using assms by (auto simp: ct_map_Some)
  then show "ct_map t' x = ((ct_map t)(k \<mapsto> v)) x" by (metis not_Some_eq)
qed

lemma ct_map_del:
  assumes "ct_ok t" "ct_ok t'" "set (leaves t') = set (leaves t) - {e. fst e = k}"
  shows "ct_map t' = (ct_map t)(k := None)"
proof
  fix x
  have "ct_map t' x = Some w \<longleftrightarrow> ((ct_map t)(k := None)) x = Some w" for w
    using assms by (auto simp: ct_map_Some)
  then show "ct_map t' x = ((ct_map t)(k := None)) x" by (metis not_Some_eq)
qed

text \<open>A leaf more, or one less, in a well-formed tree.\<close>

lemma leaves_add_mset:
  assumes "ct_ok t'" "mset (leaves t') = add_mset (k, a, v) M"
  shows "\<forall>e \<in># M. fst e \<noteq> k"
proof -
  have "distinct (map fst (leaves t'))" by (rule leaves_distinct [OF assms(1)])
  moreover have "mset (map fst (leaves t')) = add_mset k (image_mset fst M)"
    using assms(2) by simp
  ultimately have "count (add_mset k (image_mset fst M)) k \<le> 1"
    by (metis distinct_count_atmost_1 le_numeral_extra(4) zero_le_one)
  then have "k \<notin># image_mset fst M" by (simp only: not_in_iff count_add_mset) simp
  then show ?thesis by auto
qed

lemma ct_map_insert:
  assumes "ct_ok t" "ct_ok t'" "mset (leaves t') = add_mset (k, a, v) (mset (leaves t))"
  shows "ct_map t' = (ct_map t)(k \<mapsto> v)"
proof (rule ct_map_upd [OF assms(1,2)])
  have "set_mset (mset (leaves t')) = insert (k, a, v) (set (leaves t))" by (simp add: assms(3))
  then show "set (leaves t') = insert (k, a, v) (set (leaves t) - {e. fst e = k})"
    using leaves_add_mset [OF assms(2,3)] by auto
qed

lemma ct_map_remove:
  assumes "ct_ok t" "ct_ok t'" "mset (leaves t) = add_mset (k, a, v) (mset (leaves t'))"
  shows "ct_map t' = (ct_map t)(k := None)"
proof (rule ct_map_del [OF assms(1,2)])
  have "set_mset (mset (leaves t)) = insert (k, a, v) (set (leaves t'))" by (simp add: assms(3))
  then show "set (leaves t') = set (leaves t) - {e. fst e = k}"
    using leaves_add_mset [OF assms(1,3)] by auto
qed

section \<open>Allocation of leaves and nodes\<close>

lemma alloc_leaf_run:
  assumes ok: "leaves_ok c {#}"
    and room: "deleted_leaf c = [] \<Longrightarrow> slab_alloc_malloc os (allocator_leaves c) \<noteq> None"
  shows "\<exists>a ds al. alloc_leaf os c = Some (Some a, c\<lparr>deleted_leaf := ds, allocator_leaves := al\<rparr>) \<and>
    leaves_ok (c\<lparr>deleted_leaf := ds, allocator_leaves := al\<rparr>) {#a#}"
proof -
  from ok obtain L where L: "slab_rep (allocator_leaves c) L" "own_leaves c = mset_set L"
    by (auto simp: leaves_ok_def)
  show ?thesis
  proof (cases "deleted_leaf c")
    case Nil
    then obtain p al where al: "slab_alloc_malloc os (allocator_leaves c) = Some (p, al)"
      using room by auto
    from slab.malloc_fresh [OF L(1) al] obtain a where
      a: "p = Some a" "a \<notin> L" "slab_rep al (insert a L)" by blast
    have "finite L" using slab_rep_card [OF L(1)] by simp
    with a L(2) have "leaves_ok (c\<lparr>deleted_leaf := [], allocator_leaves := al\<rparr>) {#a#}"
      by (auto simp: leaves_ok_def own_leaves_def Nil intro!: exI [of _ "insert a L"])
    moreover have "c\<lparr>allocator_leaves := al\<rparr> = c\<lparr>deleted_leaf := [], allocator_leaves := al\<rparr>"
      using Nil by simp
    ultimately show ?thesis using Nil al a(1)
      by (intro exI [of _ a] exI [of _ "[]"] exI [of _ al]) (simp add: alloc_leaf_def)
  next
    case (Cons a ds)
    with L have "leaves_ok (c\<lparr>deleted_leaf := ds\<rparr>) {#a#}"
      by (auto simp: leaves_ok_def own_leaves_def intro!: exI [of _ L])
    moreover have "c\<lparr>deleted_leaf := ds\<rparr> = c\<lparr>deleted_leaf := ds, allocator_leaves := allocator_leaves c\<rparr>"
      by simp
    ultimately show ?thesis using Cons
      by (intro exI [of _ a] exI [of _ ds] exI [of _ "allocator_leaves c"]) (simp add: alloc_leaf_def)
  qed
qed

lemma alloc_node_run:
  assumes ok: "nodes_ok c {#}"
    and room: "deleted_node c = [] \<Longrightarrow> slab_alloc_malloc os (allocator_nodes c) \<noteq> None"
  shows "\<exists>a ds al. alloc_node os c = Some (Some a, c\<lparr>deleted_node := ds, allocator_nodes := al\<rparr>) \<and>
    nodes_ok (c\<lparr>deleted_node := ds, allocator_nodes := al\<rparr>) {#a#}"
proof -
  from ok obtain L where L: "slab_rep (allocator_nodes c) L" "own_nodes c = mset_set L"
    by (auto simp: nodes_ok_def)
  show ?thesis
  proof (cases "deleted_node c")
    case Nil
    then obtain p al where al: "slab_alloc_malloc os (allocator_nodes c) = Some (p, al)"
      using room by auto
    from slab.malloc_fresh [OF L(1) al] obtain a where
      a: "p = Some a" "a \<notin> L" "slab_rep al (insert a L)" by blast
    have "finite L" using slab_rep_card [OF L(1)] by simp
    with a L(2) have "nodes_ok (c\<lparr>deleted_node := [], allocator_nodes := al\<rparr>) {#a#}"
      by (auto simp: nodes_ok_def own_nodes_def Nil intro!: exI [of _ "insert a L"])
    moreover have "c\<lparr>allocator_nodes := al\<rparr> = c\<lparr>deleted_node := [], allocator_nodes := al\<rparr>"
      using Nil by simp
    ultimately show ?thesis using Nil al a(1)
      by (intro exI [of _ a] exI [of _ "[]"] exI [of _ al]) (simp add: alloc_node_def)
  next
    case (Cons a ds)
    with L have "nodes_ok (c\<lparr>deleted_node := ds\<rparr>) {#a#}"
      by (auto simp: nodes_ok_def own_nodes_def intro!: exI [of _ L])
    moreover have "c\<lparr>deleted_node := ds\<rparr> = c\<lparr>deleted_node := ds, allocator_nodes := allocator_nodes c\<rparr>"
      by simp
    ultimately show ?thesis using Cons
      by (intro exI [of _ a] exI [of _ ds] exI [of _ "allocator_nodes c"]) (simp add: alloc_node_def)
  qed
qed

section \<open>Insertion\<close>

lemma two_children:
  assumes "i \<noteq> j" "f CNull = []"
  shows "mset (concat (map (\<lambda>l. f (((\<lambda>_. CNull)(i := x, j := y)) l)) nibs)) = mset (f x) + mset (f y)"
proof -
  let ?cs = "(\<lambda>_. CNull)(i := x)"
  have "mset (concat (map (\<lambda>l. f ((?cs(j := y)) l)) nibs)) =
      mset (concat (map (\<lambda>l. f (?cs l)) nibs)) + mset (f y)"
    unfolding concat_nibs_upd [of f ?cs j y] concat_nibs [of "\<lambda>l. f (?cs l)" j]
    using assms by (simp add: ac_simps)
  moreover have none: "concat (map (\<lambda>l. f CNull) js) = []" for js :: "nib list"
    using assms(2) by (induction js) auto
  then have "concat (map (\<lambda>l. f (?cs l)) nibs) = f x"
    unfolding concat_nibs_upd none by simp
  ultimately show ?thesis by simp
qed

text \<open>Linking a leaf, or a leaf and a node, into the tree.\<close>

lemma inv_link:
  assumes ok: "ct_ok (cn_root c)" and m: "ct_ok m" "m \<noteq> CNull"
    "keys m \<subseteq> insert key (keys (insert_walk (cn_root c) key))"
    and lv: "mset (leaves m) = add_mset (key, a, v) (mset (leaves (insert_walk (cn_root c) key)))"
    and nd: "mset (delete_nodes m) = mset (delete_nodes (insert_walk (cn_root c) key)) + N"
    and mem: "leaves_ok c {#a#}" "nodes_ok c N"
    and len: "length (pending_del_nodes c) = DELETED_LIFE" "length (pending_del_leaves c) = DELETED_LIFE"
  shows "critnib_inv (c\<lparr>cn_root := store_parent (cn_root c) key m\<rparr>)"
    "ct_map (store_parent (cn_root c) key m) = (ct_map (cn_root c))(key \<mapsto> v)"
proof -
  let ?t = "store_parent (cn_root c) key m"
  have ok': "ct_ok ?t" using store_parent_ok [OF ok m] by simp
  have lv': "mset (leaves ?t) = add_mset (key, a, v) (mset (leaves (cn_root c)))"
    using leaves_store_parent [of "cn_root c" key m] lv by simp
  have nd': "mset (delete_nodes ?t) = mset (delete_nodes (cn_root c)) + N"
    using nodes_store_parent [of "cn_root c" key m] nd by (simp add: ac_simps)
  have "mset (delete_leaves ?t) = add_mset a (mset (delete_leaves (cn_root c)))"
    using arg_cong [OF lv', of "image_mset (\<lambda>(k, a, v). a)"] by (simp add: delete_leaves_eq)
  then have "leaves_ok (c\<lparr>cn_root := ?t\<rparr>) {#}" "nodes_ok (c\<lparr>cn_root := ?t\<rparr>) {#}"
    using mem nd' by (auto simp: leaves_ok_def nodes_ok_def own_leaves_def own_nodes_def ac_simps)
  then show "critnib_inv (c\<lparr>cn_root := ?t\<rparr>)" using ok' len by (simp add: critnib_inv_def)
  show "ct_map ?t = (ct_map (cn_root c))(key \<mapsto> v)" by (rule ct_map_insert [OF ok ok' lv'])
qed

text \<open>Storing a new value in a leaf.\<close>

lemma inv_update:
  assumes inv: "critnib_inv c" and w: "insert_walk (cn_root c) key = CLeaf a key v0"
  shows "critnib_inv (c\<lparr>cn_root := store_parent (cn_root c) key (CLeaf a key v)\<rparr>)"
    "ct_map (store_parent (cn_root c) key (CLeaf a key v)) = (ct_map (cn_root c))(key \<mapsto> v)"
proof -
  let ?t = "store_parent (cn_root c) key (CLeaf a key v)"
  have ok: "ct_ok (cn_root c)" using inv by (simp add: critnib_inv_def)
  have ok': "ct_ok ?t" using store_parent_ok [OF ok, of "CLeaf a key v" key] by simp
  have lv: "add_mset (key, a, v0) (mset (leaves ?t)) = add_mset (key, a, v) (mset (leaves (cn_root c)))"
    using leaves_store_parent [of "cn_root c" key "CLeaf a key v"] w by simp
  have nd: "mset (delete_nodes ?t) = mset (delete_nodes (cn_root c))"
    using nodes_store_parent [of "cn_root c" key "CLeaf a key v"] w by simp
  have "mset (delete_leaves ?t) = mset (delete_leaves (cn_root c))"
    using arg_cong [OF lv, of "image_mset (\<lambda>(k, a, v). a)"] by (simp add: delete_leaves_eq)
  then show "critnib_inv (c\<lparr>cn_root := ?t\<rparr>)"
    using inv ok' nd
    by (simp add: critnib_inv_def leaves_ok_def nodes_ok_def own_leaves_def own_nodes_def)
  have "(key, a, v0) \<in># mset (leaves (cn_root c))"
  proof -
    have "(key, a, v0) \<in> set (leaves (insert_walk (cn_root c) key))" by (simp add: w)
    moreover have "set (leaves (insert_walk t key)) \<subseteq> set (leaves t)" for t by (induction t) auto
    ultimately show ?thesis by auto
  qed
  then obtain M where M: "mset (leaves (cn_root c)) = add_mset (key, a, v0) M"
    by (meson mset_add)
  with lv have M': "mset (leaves ?t) = add_mset (key, a, v) M"
    by (simp add: add_mset_commute [of "(key, a, v)"])
  show "ct_map ?t = (ct_map (cn_root c))(key \<mapsto> v)"
  proof (rule ct_map_upd [OF ok ok'])
    have "set (leaves ?t) = insert (key, a, v) (set_mset M)"
      "set (leaves (cn_root c)) = insert (key, a, v0) (set_mset M)"
      using arg_cong [OF M, of set_mset] arg_cong [OF M', of set_mset] by simp_all
    then show "set (leaves ?t) = insert (key, a, v) (set (leaves (cn_root c)) - {e. fst e = key})"
      using leaves_add_mset [OF ok M] by auto
  qed
qed

lemma critnib_insert_run:
  assumes inv: "critnib_inv c"
    and room: "critnib_room os c \<or> critnib_insert os c key val upd \<noteq> None"
  shows "\<exists>r c'. critnib_insert os c key val upd = Some (r, c') \<and> critnib_inv c' \<and>
    (if key \<in> dom (critnib_map c) \<and> \<not> upd then r = EEXIST \<and> critnib_map c' = critnib_map c
     else r = 0 \<and> critnib_map c' = (critnib_map c)(key \<mapsto> val)) \<and>
    remove_count c' = remove_count c \<and> pending_del_nodes c' = pending_del_nodes c \<and>
    pending_del_leaves c' = pending_del_leaves c"
proof -
  have ok: "ct_ok (cn_root c)" and lok: "leaves_ok c {#}" and nok: "nodes_ok c {#}"
    and len: "length (pending_del_nodes c) = DELETED_LIFE" "length (pending_del_leaves c) = DELETED_LIFE"
    using inv by (auto simp: critnib_inv_def)
  have lroom: "slab_alloc_malloc os (allocator_leaves c) \<noteq> None" if "deleted_leaf c = []"
  proof
    assume "slab_alloc_malloc os (allocator_leaves c) = None"
    moreover from this have "critnib_insert os c key val upd = None"
      using that by (simp add: critnib_insert_def alloc_leaf_def)
    ultimately show False using room that by (simp add: critnib_room_def)
  qed
  obtain ka ds al where k: "alloc_leaf os c = Some (Some ka, c\<lparr>deleted_leaf := ds, allocator_leaves := al\<rparr>)"
      "leaves_ok (c\<lparr>deleted_leaf := ds, allocator_leaves := al\<rparr>) {#ka#}"
    using alloc_leaf_run [OF lok lroom] by auto
  define c1 where "c1 = c\<lparr>deleted_leaf := ds, allocator_leaves := al\<rparr>"
  have root: "cn_root c1 = cn_root c" by (simp add: c1_def)
  have nok1: "nodes_ok c1 {#}" using nok by (simp add: nodes_ok_def own_nodes_def c1_def)
  define n where "n = insert_walk (cn_root c) key"
  define path where "path = (case n of CLeaf a lk v \<Rightarrow> lk | _ \<Rightarrow> nd_path n)"
  have nok': "ct_ok n" unfolding n_def by (rule insert_walk_ok [OF ok])
  have stop: "key AND path_mask s \<noteq> p" if "n = CNode a cs p s" for a cs p s
    using insert_walk_stop that by (auto simp: n_def)
  have fresh: "key \<notin> dom (critnib_map c)" if "\<And>a v. n \<noteq> CLeaf a key v"
  proof
    assume "key \<in> dom (critnib_map c)"
    then obtain v where "ct_map (cn_root c) key = Some v" by (auto simp: critnib_map_def)
    then obtain a where "(key, a, v) \<in> set (leaves (cn_root c))" using ct_map_Some [OF ok] by blast
    from insert_walk_key [OF ok this] that [of a v] show False by (simp add: n_def)
  qed
  consider "n = CNull" | "n \<noteq> CNull" "path = key" | "n \<noteq> CNull" "path \<noteq> key" by blast
  then show ?thesis
  proof cases
    case 1
    note link = inv_link [of c1 "CLeaf ka key val" key ka val "{#}"]
    have "critnib_insert os c key val upd =
        Some (0, c1\<lparr>cn_root := store_parent (cn_root c) key (CLeaf ka key val)\<rparr>)"
      using 1 by (simp add: critnib_insert_def k(1) c1_def [symmetric] root n_def [symmetric])
    then show ?thesis
      using link ok k(2) nok1 len 1 fresh
      by (simp add: c1_def [symmetric] root n_def [symmetric] critnib_map_def)
        (simp add: c1_def)
  next
    case 2
    then obtain a v where leaf: "n = CLeaf a key v"
      using stop nok' masked_idem by (cases n) (auto simp: path_def)
    have inv1: "critnib_inv (free_leaf c1 (Some ka))"
      using inv k(2) nok1 by (simp add: critnib_inv_def free_leaf_def c1_def leaves_ok_def
          nodes_ok_def own_leaves_def own_nodes_def)
    have root1: "cn_root (free_leaf c1 (Some ka)) = cn_root c"
      by (simp add: free_leaf_def root)
    have kd: "key \<in> dom (critnib_map c)"
    proof -
      have "set (leaves (insert_walk t key)) \<subseteq> set (leaves t)" for t by (induction t) auto
      from this [of "cn_root c"] have "(key, a, v) \<in> set (leaves (cn_root c))"
        using leaf by (simp add: n_def)
      then show ?thesis using ct_map_Some [OF ok] by (auto simp: critnib_map_def)
    qed
    have w: "insert_walk (cn_root (free_leaf c1 (Some ka))) key = CLeaf a key v"
      using leaf by (simp add: root1 n_def)
    have run: "critnib_insert os c key val upd = (if upd
        then Some (0, (free_leaf c1 (Some ka))\<lparr>cn_root := store_parent (cn_root c) key (CLeaf a key val)\<rparr>)
        else Some (EEXIST, free_leaf c1 (Some ka)))"
      using leaf by (simp add: critnib_insert_def k(1) c1_def [symmetric] root root1 n_def [symmetric] Let_def)
    show ?thesis
      using run kd inv1 inv_update [OF inv1 w, of val]
      by (cases upd) (simp_all add: critnib_map_def root1, simp_all add: free_leaf_def c1_def)
  next
    case 3
    have "slab_alloc_malloc os (allocator_nodes c1) \<noteq> None" if "deleted_node c1 = []"
    proof
      assume "slab_alloc_malloc os (allocator_nodes c1) = None"
      moreover from this have "critnib_insert os c key val upd = None"
        using that 3 by (cases n) (simp_all add: critnib_insert_def k(1) c1_def [symmetric] root
            n_def [symmetric] Let_def xor_zero_iff path_def alloc_node_def)
      ultimately show False using room that by (simp add: critnib_room_def c1_def)
    qed
    then obtain ma ns an where m: "alloc_node os c1 = Some (Some ma, c1\<lparr>deleted_node := ns, allocator_nodes := an\<rparr>)"
        "nodes_ok (c1\<lparr>deleted_node := ns, allocator_nodes := an\<rparr>) {#ma#}"
      using alloc_node_run [OF nok1, of os] by auto
    define c2 where "c2 = c1\<lparr>deleted_node := ns, allocator_nodes := an\<rparr>"
    define sh where "sh = nib_shift (path XOR key)"
    define m' where "m' = CNode ma ((\<lambda>_. CNull)(slice_index key sh := CLeaf ka key val,
      slice_index path sh := n)) (key AND path_mask sh) sh"
    have okm: "ct_ok m'" unfolding m'_def
      by (rule new_node_ok [OF nok' 3(1) path_def 3(2) stop sh_def])
    have ne: "slice_index path sh \<noteq> slice_index key sh"
      using nib_shift_differ [OF 3(2)] by (simp add: sh_def)
    have lvm: "mset (leaves m') = add_mset (key, ka, val) (mset (leaves n))"
      unfolding m'_def leaves.simps two_children [OF ne [symmetric], of leaves, OF leaves.simps(1)] by simp
    have ndm: "mset (delete_nodes m') = mset (delete_nodes n) + {#ma#}"
      unfolding m'_def delete_nodes.simps mset_append
        two_children [OF ne [symmetric], of delete_nodes, OF delete_nodes.simps(1)] by simp
    have "set_mset (mset (leaves m')) = insert (key, ka, val) (set (leaves n))" by (simp add: lvm)
    then have keys: "keys m' \<subseteq> insert key (keys n)" by (auto simp: keys_def)
    have mem: "leaves_ok c2 {#ka#}"
      using k(2) by (simp add: leaves_ok_def own_leaves_def c1_def c2_def)
    note link = inv_link [of c2 m' key ka val "{#ma#}"]
    have c2: "cn_root c2 = cn_root c" "length (pending_del_nodes c2) = DELETED_LIFE"
      "length (pending_del_leaves c2) = DELETED_LIFE" "m' \<noteq> CNull"
      using len by (simp_all add: c2_def c1_def m'_def)
    have "critnib_inv (c2\<lparr>cn_root := store_parent (cn_root c) key m'\<rparr>)"
      "ct_map (store_parent (cn_root c) key m') = (ct_map (cn_root c))(key \<mapsto> val)"
      using link ok okm keys lvm ndm mem m(2) c2 by (simp_all add: n_def c2_def [symmetric])
    moreover have "critnib_insert os c key val upd = Some (0, c2\<lparr>cn_root := store_parent (cn_root c) key m'\<rparr>)"
      using 3 m(1)
      by (cases n) (simp_all add: critnib_insert_def k(1) c1_def [symmetric] root n_def [symmetric]
          Let_def xor_zero_iff path_def c2_def [symmetric] c2(1) m'_def sh_def)
    moreover have "n \<noteq> CLeaf a key v" for a v using 3(2) by (auto simp: path_def)
    then have "key \<notin> dom (critnib_map c)" by (rule fresh)
    ultimately show ?thesis by (simp add: critnib_map_def) (simp add: c2_def c1_def)
  qed
qed

section \<open>Removal\<close>

text \<open>The turn of the ring of removed elements that starts every \<open>critnib_remove\<close>.\<close>

definition retire :: "critnib \<Rightarrow> critnib" where
  "retire c = (let del = unat (remove_count c mod 16);
      c = c\<lparr>remove_count := remove_count c + 1\<rparr>;
      c = free_node c (pending_del_nodes c ! del);
      c = free_leaf c (pending_del_leaves c ! del)
    in c\<lparr>pending_del_nodes := (pending_del_nodes c)[del := NULL],
         pending_del_leaves := (pending_del_leaves c)[del := NULL]\<rparr>)"

lemma del_index: "unat ((w::64 word) mod 16) < 16" "unat (w mod 16) = unat w mod 16"
  by (simp_all add: unat_mod)

lemma retire_sel [simp]:
  "cn_root (retire c) = cn_root c" "remove_count (retire c) = remove_count c + 1"
  "allocator_leaves (retire c) = allocator_leaves c" "allocator_nodes (retire c) = allocator_nodes c"
  "pending_del_nodes (retire c) = (pending_del_nodes c)[unat (remove_count c mod 16) := NULL]"
  "pending_del_leaves (retire c) = (pending_del_leaves c)[unat (remove_count c mod 16) := NULL]"
  "mset (deleted_leaf (retire c)) =
     mset (deleted_leaf c) + ptr_mset (pending_del_leaves c ! unat (remove_count c mod 16))"
  "mset (deleted_node (retire c)) =
     mset (deleted_node c) + ptr_mset (pending_del_nodes c ! unat (remove_count c mod 16))"
  by (simp_all add: retire_def Let_def free_node_def free_leaf_def split: option.split)

lemma own_retire:
  assumes "length (pending_del_nodes c) = DELETED_LIFE" "length (pending_del_leaves c) = DELETED_LIFE"
  shows "own_leaves (retire c) = own_leaves c" "own_nodes (retire c) = own_nodes c"
  using pend_upd [of "unat (remove_count c mod 16)" "pending_del_leaves c" NULL]
    pend_upd [of "unat (remove_count c mod 16)" "pending_del_nodes c" NULL]
    del_index(1) [of "remove_count c"] assms
  by (simp_all add: own_leaves_def own_nodes_def ac_simps)

lemma retire_inv: "critnib_inv c \<Longrightarrow> critnib_inv (retire c)"
  by (simp add: critnib_inv_def leaves_ok_def nodes_ok_def own_retire)

lemma critnib_remove_eq:
  "critnib_remove c key =
     (if is_null (cn_root c) then Some (NULL, c)
      else case dive (cn_root c) key of
          CLeaf ka k v \<Rightarrow>
            if k \<noteq> key then Some (NULL, retire c)
            else do {
              (t, n) \<leftarrow> unlink_leaf (cn_root c) key;
              Some (v, (retire c)\<lparr>cn_root := t,
                pending_del_nodes := (pending_del_nodes (retire c))[unat (remove_count c mod 16) := n],
                pending_del_leaves := (pending_del_leaves (retire c))[unat (remove_count c mod 16) := Some ka]\<rparr>) }
        | _ \<Rightarrow> Some (NULL, retire c))"
  unfolding critnib_remove_def retire_def Let_def
  by (simp add: free_node_def free_leaf_def split: option.split ct.split)

lemma critnib_remove_run:
  assumes inv: "critnib_inv c"
  shows "\<exists>c'. critnib_remove c key =
      Some (case critnib_map c key of None \<Rightarrow> NULL | Some v \<Rightarrow> v, c') \<and> critnib_inv c' \<and>
    critnib_map c' = (critnib_map c)(key := None)"
proof -
  have ok: "ct_ok (cn_root c)" and len: "length (pending_del_nodes c) = DELETED_LIFE"
      "length (pending_del_leaves c) = DELETED_LIFE"
    using inv by (auto simp: critnib_inv_def)
  let ?d = "unat (remove_count c mod 16)"
  show ?thesis
  proof (cases "\<exists>ka v. dive (cn_root c) key = CLeaf ka key v")
    case False
    have none: "critnib_map c key = None"
    proof (rule ccontr)
      assume "critnib_map c key \<noteq> None"
      then obtain v a where "(key, a, v) \<in> set (leaves (cn_root c))"
        using ct_map_Some [OF ok] by (auto simp: critnib_map_def)
      with dive_found [OF ok this] False show False by blast
    qed
    have "critnib_remove c key = Some (NULL, if is_null (cn_root c) then c else retire c)"
      using False by (auto simp: critnib_remove_eq split: ct.split)
    moreover have "critnib_map (retire c) = critnib_map c" by (simp add: critnib_map_def)
    ultimately show ?thesis using none inv retire_inv [OF inv] by auto
  next
    case True
    then obtain ka v where d: "dive (cn_root c) key = CLeaf ka key v" by blast
    from unlink_leaf_run [OF ok d] obtain t del where t: "unlink_leaf (cn_root c) key = Some (t, del)"
      "ct_ok t" "mset (leaves (cn_root c)) = add_mset (key, ka, v) (mset (leaves t))"
      "mset (delete_nodes (cn_root c)) = mset (delete_nodes t) + ptr_mset del" by blast
    define c' where "c' = (retire c)\<lparr>cn_root := t,
      pending_del_nodes := (pending_del_nodes (retire c))[?d := del],
      pending_del_leaves := (pending_del_leaves (retire c))[?d := Some ka]\<rparr>"
    have nn: "cn_root c \<noteq> CNull" using d by auto
    then have run: "critnib_remove c key = Some (v, c')"
      by (simp add: critnib_remove_eq d t(1) c'_def)
    have "mset (delete_leaves (cn_root c)) = add_mset ka (mset (delete_leaves t))"
      using arg_cong [OF t(3), of "image_mset (\<lambda>(k, a, v). a)"] by (simp add: delete_leaves_eq)
    then have "own_leaves c' = own_leaves (retire c)" "own_nodes c' = own_nodes (retire c)"
      using t(4) pend_upd [of ?d "pending_del_leaves (retire c)" "Some ka"]
        pend_upd [of ?d "pending_del_nodes (retire c)" del] del_index(1) [of "remove_count c"] len
      by (simp_all add: own_leaves_def own_nodes_def c'_def ac_simps del: list_update_overwrite)
    then have "critnib_inv c'"
      using retire_inv [OF inv] t(2)
      by (simp add: critnib_inv_def leaves_ok_def nodes_ok_def) (simp add: c'_def)
    moreover have "(key, ka, v) \<in> set (leaves (cn_root c))" by (rule dive_leaf [OF d])
    then have "critnib_map c key = Some v" using ct_map_Some [OF ok] by (auto simp: critnib_map_def)
    moreover have "critnib_map c' = (critnib_map c)(key := None)"
      using ct_map_remove [OF ok t(2,3)] by (simp add: critnib_map_def c'_def)
    ultimately show ?thesis using run by auto
  qed
qed

end
