(* ===== verification/Critnib_Api.thy ===== *)
theory Critnib_Api
  imports Critnib_Correct
begin

text \<open>
  The interface of \<open>src/critnib.c\<close> to its users: lookups, ordered lookups, iteration, the
  grace period of removed memory, and the laws a user of an ordered map from keys to
  pointers relies on.
\<close>

section \<open>Readers\<close>

text \<open>The counter of removes is far from its end, so that the staleness test does not wrap.\<close>

definition count_ok :: "critnib \<Rightarrow> bool" where
  "count_ok c \<longleftrightarrow> \<not> remove_count c + 16 \<le> remove_count c"

lemma count_okI: "unat (remove_count c) < 2 ^ 64 - 16 \<Longrightarrow> count_ok c"
  using unat_add_nowrap [of "remove_count c" 16]
  by (simp add: count_ok_def word_le_nat_alt)

lemma critnib_get_run:
  assumes "critnib_inv c" "count_ok c"
  shows "critnib_get c key = Some (case critnib_map c key of None \<Rightarrow> NULL | Some v \<Rightarrow> v)"
proof -
  have "ct_ok (cn_root c)" using assms(1) by (simp add: critnib_inv_def)
  from dive_ct_map [OF this, of key] assms(2) show ?thesis
    by (subst critnib_get.simps) (simp add: count_ok_def critnib_map_def Let_def)
qed

text \<open>The nearest keys of a finite map.\<close>

definition floor_key :: "(64 word \<rightharpoonup> 'v) \<Rightarrow> 64 word \<Rightarrow> 64 word option" where
  "floor_key m key = (let S = {k \<in> dom m. k \<le> key} in if S = {} then None else Some (Max S))"

definition ceiling_key :: "(64 word \<rightharpoonup> 'v) \<Rightarrow> 64 word \<Rightarrow> 64 word option" where
  "ceiling_key m key = (let S = {k \<in> dom m. key \<le> k} in if S = {} then None else Some (Min S))"

definition entry_of :: "(64 word \<rightharpoonup> ptr) \<Rightarrow> 64 word option \<Rightarrow> (64 word \<times> ptr) option" where
  "entry_of m k = map_option (\<lambda>k. (k, the (m k))) k"

definition leaf_entry :: "ct \<Rightarrow> (64 word \<times> ptr) option" where
  "leaf_entry n = (case n of CLeaf a k v \<Rightarrow> Some (k, v) | _ \<Rightarrow> None)"

lemma leaf_entry_simps [simp]:
  "leaf_entry CNull = None" "leaf_entry (CLeaf a k v) = Some (k, v)" "leaf_entry (CNode a cs p sh) = None"
  by (simp_all add: leaf_entry_def)

lemma sorted_last_Max:
  assumes "sorted_wrt (\<lambda>x y. fst x < (fst y :: 64 word)) es" "es \<noteq> []"
  shows "fst (last es) = Max (fst ` set es)"
proof (rule Max_eqI [symmetric])
  show "y \<le> fst (last es)" if "y \<in> fst ` set es" for y
  proof -
    have "es = butlast es @ [last es]" using assms(2) by simp
    with assms(1) have "\<forall>x \<in> set (butlast es). fst x < fst (last es)"
      by (metis list.set_intros(1) sorted_wrt_append)
    moreover have "set es = insert (last es) (set (butlast es))"
      by (metis append_butlast_last_id assms(2) list.simps(15) rotate1.simps(2) set_rotate1)
    ultimately show ?thesis using that by (auto intro: less_imp_le)
  qed
qed (use assms(2) in auto)

lemma sorted_hd_Min:
  assumes "sorted_wrt (\<lambda>x y. fst x < (fst y :: 64 word)) es" "es \<noteq> []"
  shows "fst (hd es) = Min (fst ` set es)"
proof (rule Min_eqI [symmetric])
  show "fst (hd es) \<le> y" if "y \<in> fst ` set es" for y
    using assms that by (cases es) (auto intro: less_imp_le)
qed (use assms(2) in auto)

lemma leaf_entry_of:
  assumes "ct_ok t" "e \<in> set (leaves t)"
  shows "leaf_entry (leaf_of e) = entry_of (ct_map t) (Some (fst e))"
proof -
  obtain k a v where e: "e = (k, a, v)" by (cases e)
  then have "ct_map t k = Some v" using ct_map_Some [OF assms(1)] assms(2) by auto
  then show ?thesis by (simp add: e entry_of_def)
qed

lemma find_le_entry:
  assumes "ct_ok t"
  shows "leaf_entry (find_le t key) = entry_of (ct_map t) (floor_key (ct_map t) key)"
proof -
  let ?es = "filter (\<lambda>e. fst e \<le> key) (leaves t)"
  have S: "{k \<in> dom (ct_map t). k \<le> key} = fst ` set ?es"
    unfolding dom_ct_map by (auto simp: keys_def)
  have srt: "sorted_wrt (\<lambda>x y. fst x < fst y) ?es" by (rule sorted_wrt_filter [OF leaves_sorted [OF assms]])
  show ?thesis
  proof (cases "?es = []")
    case True
    then show ?thesis using find_le_eq [OF assms, of key]
      by (simp add: floor_key_def S entry_of_def last_leaf_def)
  next
    case False
    have "last ?es \<in> set (leaves t)" using last_in_set [OF False] by simp
    then show ?thesis
      using find_le_eq [OF assms, of key] False sorted_last_Max [OF srt False]
        leaf_entry_of [OF assms, of "last ?es"]
      by (simp add: floor_key_def S last_leaf_def Let_def del: set_filter)
  qed
qed

lemma find_ge_entry:
  assumes "ct_ok t"
  shows "leaf_entry (find_ge t key) = entry_of (ct_map t) (ceiling_key (ct_map t) key)"
proof -
  let ?es = "filter (\<lambda>e. key \<le> fst e) (leaves t)"
  have S: "{k \<in> dom (ct_map t). key \<le> k} = fst ` set ?es"
    unfolding dom_ct_map by (auto simp: keys_def)
  have srt: "sorted_wrt (\<lambda>x y. fst x < fst y) ?es" by (rule sorted_wrt_filter [OF leaves_sorted [OF assms]])
  show ?thesis
  proof (cases "?es = []")
    case True
    then show ?thesis using find_ge_eq [OF assms, of key]
      by (simp add: ceiling_key_def S entry_of_def first_leaf_def)
  next
    case False
    have "hd ?es \<in> set (leaves t)" using hd_in_set [OF False] by simp
    then show ?thesis
      using find_ge_eq [OF assms, of key] False sorted_hd_Min [OF srt False]
        leaf_entry_of [OF assms, of "hd ?es"]
      by (simp add: ceiling_key_def S first_leaf_def Let_def del: set_filter)
  qed
qed

lemma critnib_find_le_run:
  assumes "critnib_inv c" "count_ok c"
  shows "critnib_find_le c key = Some (case floor_key (critnib_map c) key of
    None \<Rightarrow> NULL | Some k \<Rightarrow> the (critnib_map c k))"
proof -
  have ok: "ct_ok (cn_root c)" using assms(1) by (simp add: critnib_inv_def)
  have "(case n of CLeaf a k v \<Rightarrow> v | _ \<Rightarrow> NULL) = (case leaf_entry n of None \<Rightarrow> NULL | Some (k, v) \<Rightarrow> v)"
    for n by (cases n) auto
  then show ?thesis using assms(2) find_le_entry [OF ok, of key]
    by (subst critnib_find_le.simps)
      (simp add: count_ok_def critnib_map_def Let_def entry_of_def split: option.split)
qed

text \<open>The entry that \<open>critnib_find\<close> is asked for, by direction.\<close>

definition nearest_key :: "(64 word \<rightharpoonup> 'v) \<Rightarrow> 64 word \<Rightarrow> int \<Rightarrow> 64 word option" where
  "nearest_key m key dir =
     (if dir < -1 then (let S = {k \<in> dom m. k < key} in if S = {} then None else Some (Max S))
      else if dir = -1 then floor_key m key
      else if dir = 0 then (if key \<in> dom m then Some key else None)
      else if dir = 1 then ceiling_key m key
      else (let S = {k \<in> dom m. key < k} in if S = {} then None else Some (Min S)))"

lemma word_less_sub:
  assumes "(key::64 word) \<noteq> 0"
  shows "k \<le> key - 1 \<longleftrightarrow> k < key"
proof -
  have "unat (key - 1) = unat key - 1" "0 < unat key"
    using assms unat_sub [of 1 key] by (auto simp: word_le_nat_alt unat_gt_0 Suc_le_eq)
  then show ?thesis by (simp add: word_le_nat_alt word_less_nat_alt less_eq_Suc_le) linarith
qed

lemma word_add_le:
  assumes "(key::64 word) \<noteq> -1"
  shows "key + 1 \<le> k \<longleftrightarrow> key < k"
proof -
  have "unat key \<noteq> unat (-1 :: 64 word)" using assms by (metis word_unat_eq_iff)
  then have "unat key \<noteq> 2 ^ 64 - 1" by (simp add: unsigned_minus_1_eq_mask mask_eq_exp_minus_1)
  moreover have "unat key < 2 ^ 64" using unsigned_less [of key] by simp
  ultimately have "unat (key + 1) = unat key + 1" using unat_add_nowrap [of key 1] by simp
  then show ?thesis by (simp add: word_le_nat_alt word_less_nat_alt less_eq_Suc_le)
qed

lemma find_loop_run:
  assumes "critnib_inv c" "count_ok c"
  shows "find_loop c key dir = Some (entry_of (critnib_map c)
    (if dir < 0 then floor_key (critnib_map c) key
     else if dir > 0 then ceiling_key (critnib_map c) key
     else if key \<in> dom (critnib_map c) then Some key else None))"
proof -
  have ok: "ct_ok (cn_root c)" using assms(1) by (simp add: critnib_inv_def)
  have eq: "leaf_entry (case dive (cn_root c) key of
      CLeaf a k v \<Rightarrow> if k = key then CLeaf a k v else CNull | _ \<Rightarrow> CNull) =
    entry_of (critnib_map c) (if key \<in> dom (critnib_map c) then Some key else None)"
  proof (cases "critnib_map c key")
    case None
    then have "key \<notin> keys (cn_root c)" using dom_ct_map [of "cn_root c"] by (auto simp: critnib_map_def)
    then have "k \<noteq> key" if "dive (cn_root c) key = CLeaf a k v" for a k v
      using dive_leaf [OF that] by (force simp: keys_def)
    with None show ?thesis by (auto simp: entry_of_def domIff split: ct.split)
  next
    case (Some v)
    then obtain a where "(key, a, v) \<in> set (leaves (cn_root c))"
      using ct_map_Some [OF ok] by (auto simp: critnib_map_def)
    with dive_found [OF ok this] Some show ?thesis by (simp add: entry_of_def domIff)
  qed
  have "leaf_entry (find_leaf (cn_root c) key dir) = entry_of (critnib_map c)
    (if dir < 0 then floor_key (critnib_map c) key
     else if dir > 0 then ceiling_key (critnib_map c) key
     else if key \<in> dom (critnib_map c) then Some key else None)"
    using eq find_le_entry [OF ok, of key] find_ge_entry [OF ok, of key]
    unfolding find_leaf_def critnib_map_def [symmetric] by (cases "dir < 0"; cases "dir > 0") simp_all
  then show ?thesis using assms(2)
    by (subst find_loop.simps) (simp add: count_ok_def Let_def leaf_entry_def)
qed

lemma critnib_find_run:
  assumes "critnib_inv c" "count_ok c"
  shows "critnib_find c key dir = Some (entry_of (critnib_map c) (nearest_key (critnib_map c) key dir))"
proof -
  consider "dir < -1" "key = 0" | "dir < -1" "key \<noteq> 0" | "dir > 1" "key = -1" | "dir > 1" "key \<noteq> -1"
    | "dir = -1" | "dir = 0" | "dir = 1" by linarith
  then show ?thesis
  proof cases
    case 3
    have "\<not> (-1::64 word) < k" for k by (simp add: word_order.not_eq_extremum)
    with 3 show ?thesis by (simp add: critnib_find_def nearest_key_def entry_of_def)
  qed (simp_all add: critnib_find_def nearest_key_def find_loop_run [OF assms] floor_key_def
      ceiling_key_def word_less_sub word_add_le, simp add: entry_of_def)
qed

section \<open>Iteration\<close>

definition critnib_entries :: "critnib \<Rightarrow> (64 word \<times> ptr) list" where
  "critnib_entries c = map (\<lambda>(k, a, v). (k, v)) (leaves (cn_root c))"

text \<open>Calling \<open>func\<close> on entries in order until it returns nonzero.\<close>

primrec visit :: "(64 word \<Rightarrow> ptr \<Rightarrow> 'p \<Rightarrow> int \<times> 'p) \<Rightarrow> (64 word \<times> ptr) list \<Rightarrow> 'p \<Rightarrow> 'p" where
  "visit func [] priv = priv"
| "visit func (e # es) priv =
     (let (r, priv) = func (fst e) (snd e) priv in if r \<noteq> 0 then priv else visit func es priv)"

lemma visit_all_visit: "snd (visit_all func es priv) = visit func (map (\<lambda>(k, a, v). (k, v)) es) priv"
  by (induction es arbitrary: priv) (simp_all add: Let_def split_beta)

lemma critnib_entries_sorted:
  assumes "critnib_inv c"
  shows "sorted_wrt (<) (map fst (critnib_entries c))" "map_of (critnib_entries c) = critnib_map c"
proof -
  have "ct_ok (cn_root c)" using assms by (simp add: critnib_inv_def)
  from leaves_sorted [OF this] show "sorted_wrt (<) (map fst (critnib_entries c))"
    by (simp add: critnib_entries_def sorted_wrt_map case_prod_beta)
qed (simp add: critnib_entries_def critnib_map_def ct_map_def)

lemma critnib_iter_run:
  assumes "critnib_inv c"
  shows "critnib_iter c 0 hi func priv = visit func (filter (\<lambda>e. fst e \<le> hi) (critnib_entries c)) priv"
proof -
  have ok: "ct_ok (cn_root c)" using assms by (simp add: critnib_inv_def)
  have "filter (\<lambda>e. fst e \<le> hi) (map (\<lambda>(k, a, v). (k, v)) es) =
      map (\<lambda>(k, a, v). (k, v)) (filter (\<lambda>e. fst e \<le> hi) es)" for es :: "(64 word \<times> addr \<times> ptr) list"
    by (induction es) auto
  with iter_run [OF ok, of hi func priv] show ?thesis
    by (simp add: critnib_iter_def critnib_entries_def iter_spec_def split_beta flip: visit_all_visit)
qed

section \<open>Creation and destruction\<close>

lemma critnib_new_run:
  assumes "mmap_spec os" "critnib_new os cp leaves_at nodes_at = Some c"
  shows "critnib_inv c \<and> critnib_map c = Map.empty \<and> remove_count c = 0"
proof -
  from assms(2) obtain ret al r2 an where
    al: "slab_alloc_init os (os_mutex_init os) leaves_at 16 0 = Some (ret, al)"
    "slab_alloc_init os (os_mutex_init os) nodes_at 144 0 = Some (r2, an)"
    "c = \<lparr>cn_root = CNull, deleted_node = [], deleted_leaf = [],
           pending_del_nodes = replicate DELETED_LIFE NULL,
           pending_del_leaves = replicate DELETED_LIFE NULL, remove_count = 0,
           allocator_leaves = al, allocator_nodes = an\<rparr>"
    by (auto simp: critnib_new_def split: Option.bind_splits)
  have "slab_rep al {}" "slab_rep an {}"
    using slab_init_rep [OF assms(1) al(1)] slab_init_rep [OF assms(1) al(2)] by simp_all
  moreover have "pend (replicate n NULL) = {#}" for n by (induction n) (simp_all add: pend_def)
  ultimately show ?thesis
    by (auto simp: critnib_inv_def leaves_ok_def nodes_ok_def own_leaves_def own_nodes_def al(3)
        critnib_map_def ct_map_def intro!: exI [of _ "{}"])
qed

lemma unmapped_free: "slab_alloc_free (unmapped al) p = None"
  by (cases p) (simp_all add: slab_alloc_free_def slab_alloc_glob_freelist_push_def unmapped_def
      slab_alloc_addr_to_node_meta_def)

section \<open>The grace period\<close>

datatype critnib_op = CInsert "64 word" ptr bool | CRemove "64 word"

primrec critnib_run :: "os \<Rightarrow> critnib_op list \<Rightarrow> critnib \<Rightarrow> critnib option" where
  "critnib_run os [] c = Some c"
| "critnib_run os (x # xs) c = (case x of
     CInsert k v u \<Rightarrow> do { (r, c) \<leftarrow> critnib_insert os c k v u; critnib_run os xs c }
   | CRemove k \<Rightarrow> do { (p, c) \<leftarrow> critnib_remove c k; critnib_run os xs c })"

primrec removes :: "critnib_op list \<Rightarrow> nat" where
  "removes [] = 0"
| "removes (x # xs) = (case x of CRemove k \<Rightarrow> Suc (removes xs) | _ \<Rightarrow> removes xs)"

text \<open>How many more removes leave slot \<open>i\<close> of the ring alone.\<close>

definition gap :: "critnib \<Rightarrow> nat \<Rightarrow> nat" where
  "gap c i = (i + 16 - unat (remove_count c) mod 16) mod 16"

lemma unat_succ_mod: "unat ((w::64 word) + 1) mod 16 = (unat w mod 16 + 1) mod 16"
proof -
  have "unat (w + 1) = (unat w + 1) mod 2 ^ 64" by (simp add: unat_word_ariths)
  then have "unat (w + 1) mod 16 = (unat w + 1) mod 2 ^ 64 mod 16" by simp
  also have "\<dots> = (unat w + 1) mod 16" by (rule mod_mod_cancel) simp
  finally show ?thesis by (simp add: mod_simps)
qed

lemma ring_step:
  assumes "(r::nat) < 16" "i < 16" "r \<noteq> i"
  shows "(i + 16 - (r + 1) mod 16) mod 16 = (i + 16 - r) mod 16 - 1"
proof (cases "r < i")
  case True
  then have "i + 16 - r = 16 + (i - r)" "i + 16 - (r + 1) = 16 + (i - (r + 1))" "(r + 1) mod 16 = r + 1"
    using assms by simp_all
  then show ?thesis using assms by (simp only: mod_add_self1) simp
next
  case False
  then have "i < r" using assms(3) by simp
  then have "(i + 16 - r) mod 16 = i + 16 - r" using assms(1) by simp
  moreover have "(i + 16 - (r + 1) mod 16) mod 16 = i + 16 - (r + 1)"
    using \<open>i < r\<close> assms by (cases "r = 15") simp_all
  ultimately show ?thesis by simp
qed

lemma gap_step:
  assumes "i < 16" "0 < gap c i" "remove_count c' = remove_count c + 1"
  shows "i \<noteq> unat (remove_count c mod 16)" "gap c' i = gap c i - 1"
proof -
  define r where "r = unat (remove_count c) mod 16"
  have r: "r < 16" "r = unat (remove_count c mod 16)" by (simp_all add: r_def unat_mod)
  have g: "gap c i = (i + 16 - r) mod 16" "gap c' i = (i + 16 - (r + 1) mod 16) mod 16"
    by (simp_all add: gap_def r_def assms(3) unat_succ_mod)
  have "r \<noteq> i" using assms(2) g by auto
  then show "i \<noteq> unat (remove_count c mod 16)" using r by simp
  show "gap c' i = gap c i - 1"
    unfolding g by (rule ring_step [OF r(1) assms(1) \<open>r \<noteq> i\<close>])
qed

lemma critnib_remove_pending:
  assumes "critnib_remove c key = Some (p, c')"
  shows "c' = c \<or> remove_count c' = remove_count c + 1 \<and>
    (\<forall>i. i \<noteq> unat (remove_count c mod 16) \<longrightarrow>
       pending_del_leaves c' ! i = pending_del_leaves c ! i \<and>
       pending_del_nodes c' ! i = pending_del_nodes c ! i)"
proof (cases "is_null (cn_root c)")
  case True
  with assms show ?thesis by (simp add: critnib_remove_eq)
next
  case False
  have upd: "c' = retire c \<or> (\<exists>t n ka. c' = (retire c)\<lparr>cn_root := t,
      pending_del_nodes := (pending_del_nodes (retire c))[unat (remove_count c mod 16) := n],
      pending_del_leaves := (pending_del_leaves (retire c))[unat (remove_count c mod 16) := Some ka]\<rparr>)"
  proof (cases "dive (cn_root c) key")
    case (CLeaf ka k v)
    show ?thesis
    proof (cases "unlink_leaf (cn_root c) key")
      case None
      with assms False CLeaf show ?thesis by (cases "k = key") (simp_all add: critnib_remove_eq)
    next
      case (Some tn)
      then obtain t n where "unlink_leaf (cn_root c) key = Some (t, n)" by (cases tn) auto
      with assms False CLeaf show ?thesis by (cases "k = key") (auto simp: critnib_remove_eq)
    qed
  qed (use assms False in \<open>simp_all add: critnib_remove_eq\<close>)
  then show ?thesis by (elim disjE exE) simp_all
qed

lemma critnib_run_pending:
  assumes "critnib_inv c" "critnib_run os ops c = Some c'" "i < 16" "removes ops \<le> gap c i"
  shows "critnib_inv c' \<and> pending_del_leaves c' ! i = pending_del_leaves c ! i \<and>
    pending_del_nodes c' ! i = pending_del_nodes c ! i"
  using assms
proof (induction ops arbitrary: c)
  case (Cons x xs)
  show ?case
  proof (cases x)
    case (CInsert k v u)
    with Cons.prems(2) obtain r c1 where c1: "critnib_insert os c k v u = Some (r, c1)"
      "critnib_run os xs c1 = Some c'" by (auto split: Option.bind_splits)
    from critnib_insert_run [OF Cons.prems(1), of os k v u] c1(1)
    have "critnib_inv c1" "pending_del_leaves c1 = pending_del_leaves c"
      "pending_del_nodes c1 = pending_del_nodes c" "remove_count c1 = remove_count c" by auto
    with Cons.IH [of c1] c1(2) Cons.prems(3,4) CInsert show ?thesis by (simp add: gap_def)
  next
    case (CRemove k)
    with Cons.prems(2) obtain p c1 where c1: "critnib_remove c k = Some (p, c1)"
      "critnib_run os xs c1 = Some c'" by (auto split: Option.bind_splits)
    have inv1: "critnib_inv c1" using critnib_remove_run [OF Cons.prems(1), of k] c1(1) by auto
    from critnib_remove_pending [OF c1(1)] show ?thesis
    proof (elim disjE conjE)
      assume "c1 = c"
      with Cons.IH [of c] c1(2) Cons.prems CRemove show ?thesis by simp
    next
      assume rc: "remove_count c1 = remove_count c + 1" and same: "\<forall>i. i \<noteq> unat (remove_count c mod 16) \<longrightarrow>
        pending_del_leaves c1 ! i = pending_del_leaves c ! i \<and>
        pending_del_nodes c1 ! i = pending_del_nodes c ! i"
      have "0 < gap c i" using Cons.prems(4) CRemove by simp
      note g = gap_step [OF Cons.prems(3) this rc]
      with Cons.IH [OF inv1 c1(2) Cons.prems(3)] Cons.prems(4) CRemove same g(1) show ?thesis by simp
    qed
  qed
qed simp

lemma pend_in: "i < length ps \<Longrightarrow> ps ! i = Some a \<Longrightarrow> a \<in># pend ps"
proof -
  assume "i < length ps" "ps ! i = Some a"
  then have "ps = take i ps @ Some a # drop (Suc i) ps" using id_take_nth_drop [of i ps] by simp
  then have "pend ps = pend (take i ps) + ({#a#} + pend (drop (Suc i) ps))"
    by (metis pend_def list.simps(9) map_append ptr_mset_simps(2) sum_list.Cons sum_list.append)
  then show ?thesis by simp
qed

lemma pending_apart:
  assumes "critnib_inv c" "i < 16"
  shows "pending_del_leaves c ! i = Some a \<Longrightarrow> a \<notin> set (delete_leaves (cn_root c)) \<union> set (deleted_leaf c)"
    "pending_del_nodes c ! i = Some b \<Longrightarrow> b \<notin> set (delete_nodes (cn_root c)) \<union> set (deleted_node c)"
proof -
  have apart: "x \<notin># A \<and> x \<notin># B" if "A + B + C = mset_set L" "finite L" "x \<in># C" for A B C and L :: "addr set" and x
  proof -
    have "count (A + B + C) x \<le> 1" by (simp add: that(1) count_mset_set')
    with that(3) show ?thesis by (auto simp: not_in_iff simp flip: count_greater_zero_iff)
  qed
  have len: "length (pending_del_nodes c) = 16" "length (pending_del_leaves c) = 16"
    using assms(1) by (auto simp: critnib_inv_def)
  obtain L where L: "slab_rep (allocator_leaves c) L" "own_leaves c = mset_set L"
    using assms(1) by (auto simp: critnib_inv_def leaves_ok_def)
  obtain N where N: "slab_rep (allocator_nodes c) N" "own_nodes c = mset_set N"
    using assms(1) by (auto simp: critnib_inv_def nodes_ok_def)
  show "pending_del_leaves c ! i = Some a \<Longrightarrow> a \<notin> set (delete_leaves (cn_root c)) \<union> set (deleted_leaf c)"
    using apart [OF L(2) [unfolded own_leaves_def]] slab_rep_card [OF L(1)]
      pend_in [of i "pending_del_leaves c" a] assms(2) len by auto
  show "pending_del_nodes c ! i = Some b \<Longrightarrow> b \<notin> set (delete_nodes (cn_root c)) \<union> set (deleted_node c)"
    using apart [OF N(2) [unfolded own_nodes_def]] slab_rep_card [OF N(1)]
      pend_in [of i "pending_del_nodes c" b] assms(2) len by auto
qed

section \<open>The interface\<close>

text \<open>
  An ordered map from keys to pointers, as the tiering code uses it.  \<open>room\<close> says that the
  memory for one more entry is there.
\<close>

locale pointer_map =
  fixes inv :: "'s \<Rightarrow> bool"
    and ready :: "'s \<Rightarrow> bool"
    and room :: "'s \<Rightarrow> bool"
    and abs :: "'s \<Rightarrow> 64 word \<rightharpoonup> ptr"
    and get :: "'s \<Rightarrow> 64 word \<Rightarrow> ptr option"
    and put :: "'s \<Rightarrow> 64 word \<Rightarrow> ptr \<Rightarrow> bool \<Rightarrow> (int \<times> 's) option"
    and remove :: "'s \<Rightarrow> 64 word \<Rightarrow> (ptr \<times> 's) option"
    and find_floor :: "'s \<Rightarrow> 64 word \<Rightarrow> ptr option"
  assumes get_ok: "inv s \<Longrightarrow> ready s \<Longrightarrow>
      get s k = Some (case abs s k of None \<Rightarrow> NULL | Some v \<Rightarrow> v)"
    and put_ok: "inv s \<Longrightarrow> room s \<Longrightarrow> \<exists>r s'. put s k v u = Some (r, s') \<and> inv s' \<and>
      (if k \<in> dom (abs s) \<and> \<not> u then r = EEXIST \<and> abs s' = abs s else r = 0 \<and> abs s' = (abs s)(k \<mapsto> v)) \<and>
      (ready s \<longrightarrow> ready s')"
    and remove_ok: "inv s \<Longrightarrow> \<exists>s'. remove s k = Some (case abs s k of None \<Rightarrow> NULL | Some v \<Rightarrow> v, s') \<and>
      inv s' \<and> abs s' = (abs s)(k := None)"
    and floor_ok: "inv s \<Longrightarrow> ready s \<Longrightarrow>
      find_floor s k = Some (case floor_key (abs s) k of None \<Rightarrow> NULL | Some j \<Rightarrow> the (abs s j))"
begin

lemma put_get:
  assumes "inv s" "ready s" "room s" "put s k v True = Some (r, s')"
  shows "get s' j = (if j = k then Some v else get s j)"
proof -
  from put_ok [OF assms(1,3), of k v True] assms(2,4)
  have "inv s'" "ready s'" "abs s' = (abs s)(k \<mapsto> v)" by auto
  then show ?thesis using assms by (simp add: get_ok)
qed

lemma put_remove:
  assumes "inv s" "room s" "abs s k = None" "put s k v u = Some (r, s')"
  shows "\<exists>s''. remove s' k = Some (v, s'') \<and> inv s'' \<and> abs s'' = abs s"
proof -
  from put_ok [OF assms(1,2), of k v u] assms(3,4)
  have "inv s'" "abs s' = (abs s)(k \<mapsto> v)" by (auto simp: domIff)
  from remove_ok [OF this(1), of k] this(2) assms(3) show ?thesis
    by (auto simp: fun_upd_idem)
qed

end

interpretation crit: pointer_map critnib_inv count_ok "critnib_room os" critnib_map critnib_get
  "critnib_insert os" critnib_remove critnib_find_le for os
proof (unfold_locales, goal_cases)
  case (1 s k)
  then show ?case by (rule critnib_get_run)
next
  case (2 s k v u)
  then obtain r s' where s': "critnib_insert os s k v u = Some (r, s')" "critnib_inv s'"
    "if k \<in> dom (critnib_map s) \<and> \<not> u then r = EEXIST \<and> critnib_map s' = critnib_map s
     else r = 0 \<and> critnib_map s' = (critnib_map s)(k \<mapsto> v)" "remove_count s' = remove_count s"
    using critnib_insert_run [of s os k v u] by blast
  then have "count_ok s \<longrightarrow> count_ok s'" by (simp add: count_ok_def)
  with s' show ?case by blast
next
  case (3 s k)
  then show ?case by (rule critnib_remove_run)
next
  case (4 s k)
  then show ?case by (rule critnib_find_le_run)
qed

section \<open>A concrete tree\<close>

definition demo_crit0 :: critnib where
  "demo_crit0 = the (critnib_new demo_os (Some 64) 64 128)"

definition demo_ops :: "critnib_op list" where
  "demo_ops = [CInsert 17 (Some 100) False, CInsert 1152921504606846993 (Some 200) False,
     CInsert 20 (Some 300) False]"

definition demo_crit :: critnib where
  "demo_crit = the (critnib_run demo_os demo_ops demo_crit0)"

lemma demo_mmap: "mmap_spec demo_os"
  by (simp add: mmap_spec_def demo_os_def)

lemma demo_crit0_new: "critnib_new demo_os (Some 64) 64 128 = Some demo_crit0"
proof -
  have "critnib_new demo_os (Some 64) 64 128 \<noteq> None" by code_simp
  then show ?thesis by (auto simp: demo_crit0_def)
qed

lemma demo_crit_run: "critnib_run demo_os demo_ops demo_crit0 = Some demo_crit"
proof -
  have "critnib_run demo_os demo_ops demo_crit0 \<noteq> None" by code_simp
  then show ?thesis by (auto simp: demo_crit_def)
qed

lemma demo_crit_inv: "critnib_inv demo_crit"
proof -
  have "critnib_inv demo_crit0" using critnib_new_run [OF demo_mmap demo_crit0_new] by simp
  from critnib_run_pending [OF this demo_crit_run, of 0] show ?thesis by (simp add: demo_ops_def)
qed

lemma demo_crit_entries:
  "critnib_entries demo_crit = [(17, Some 100), (20, Some 300), (1152921504606846993, Some 200)]"
  by code_simp

lemma demo_crit_map:
  "critnib_map demo_crit = map_of [(17, Some 100), (20, Some 300), (1152921504606846993, Some 200)]"
  using critnib_entries_sorted(2) [OF demo_crit_inv] demo_crit_entries by simp

lemma demo_crit_room: "critnib_room demo_os demo_crit"
  by code_simp

lemma demo_crit_ready: "count_ok demo_crit"
  by code_simp

section \<open>Properties\<close>

text \<open>
  C9: \<open>critnib_insert\<close> returns 0 and adds the entry, returns \<open>EEXIST\<close> and changes nothing
  when the key is present and \<open>update\<close> is not asked for, and otherwise replaces the value.
  The tree stays well formed (every node has two children and the right prefix, nibble and
  shift) and every leaf and node of the two allocators stays accounted for.
\<close>

theorem critnib_insert_correct:
  assumes "critnib_inv c" "critnib_room os c"
  shows "\<exists>r c'. critnib_insert os c key val upd = Some (r, c') \<and> critnib_inv c' \<and>
    (if key \<in> dom (critnib_map c) \<and> \<not> upd then r = EEXIST \<and> critnib_map c' = critnib_map c
     else r = 0 \<and> critnib_map c' = (critnib_map c)(key \<mapsto> val))"
  using critnib_insert_run [OF assms(1), of os key val upd] assms(2) by blast

lemma critnib_insert_correct_witness:
  "(\<exists>c'. critnib_insert demo_os demo_crit 20 (Some 9) False = Some (EEXIST, c') \<and>
      critnib_map c' = critnib_map demo_crit) \<and>
   (\<exists>c'. critnib_insert demo_os demo_crit 21 (Some 9) False = Some (0, c') \<and>
      critnib_map c' = (critnib_map demo_crit)(21 \<mapsto> Some 9))"
  using critnib_insert_correct [OF demo_crit_inv demo_crit_room, of 20 "Some 9" False]
    critnib_insert_correct [OF demo_crit_inv demo_crit_room, of 21 "Some 9" False]
  by (auto simp: demo_crit_map)

text \<open>
  C10: \<open>critnib_remove\<close> always returns, gives back the value of the key or \<open>NULL\<close>, and leaves a
  well-formed tree without the key and with every other entry, whatever was pending.
\<close>

theorem critnib_remove_correct:
  assumes "critnib_inv c"
  shows "\<exists>c'. critnib_remove c key =
      Some (case critnib_map c key of None \<Rightarrow> NULL | Some v \<Rightarrow> v, c') \<and> critnib_inv c' \<and>
    critnib_map c' = (critnib_map c)(key := None)"
  using assms by (rule critnib_remove_run)

lemma critnib_remove_correct_witness:
  "\<exists>c'. critnib_remove demo_crit 20 = Some (Some 300, c') \<and>
     critnib_map c' = (critnib_map demo_crit)(20 := None)"
  using critnib_remove_correct [OF demo_crit_inv, of 20] by (auto simp: demo_crit_map)

text \<open>
  C26: The lock-free readers answer from the map: \<open>critnib_get\<close> by equality,
  \<open>critnib_find_le\<close> with the greatest key not above the one asked for, and \<open>critnib_find\<close> in
  its five directions, the ends of the key space included.  The calls return as long as the
  64-bit count of removes is not within \<open>DELETED_LIFE\<close> of wrapping.
\<close>

theorem critnib_lookup_correct:
  assumes "critnib_inv c" "unat (remove_count c) < 2 ^ 64 - 16"
  shows "critnib_get c key = Some (case critnib_map c key of None \<Rightarrow> NULL | Some v \<Rightarrow> v) \<and>
    critnib_find_le c key = Some (case floor_key (critnib_map c) key of
      None \<Rightarrow> NULL | Some k \<Rightarrow> the (critnib_map c k)) \<and>
    critnib_find c key dir = Some (entry_of (critnib_map c) (nearest_key (critnib_map c) key dir))"
  using critnib_get_run critnib_find_le_run critnib_find_run assms(1) count_okI [OF assms(2)] by simp

lemma critnib_lookup_correct_witness:
  "critnib_get demo_crit 20 = Some (Some 300) \<and>
   critnib_find demo_crit 17 2 = Some (entry_of (critnib_map demo_crit) (nearest_key (critnib_map demo_crit) 17 2))"
proof -
  have "remove_count demo_crit = 0" by code_simp
  then have rc: "unat (remove_count demo_crit) < 2 ^ 64 - 16" by simp
  show ?thesis
    using critnib_lookup_correct [OF demo_crit_inv rc, of 20]
      critnib_lookup_correct [OF demo_crit_inv rc, of 17 2]
    by (simp add: demo_crit_map)
qed

text \<open>
  C27: \<open>critnib_iter\<close> from 0 calls the function on the entries with key at most \<open>max\<close> in
  ascending order of the keys, each once, threading the private data, and stops after the
  first call that returns nonzero.
\<close>

theorem critnib_iter_correct:
  assumes "critnib_inv c"
  shows "critnib_iter c 0 hi func priv =
      visit func (filter (\<lambda>e. fst e \<le> hi) (critnib_entries c)) priv \<and>
    sorted_wrt (<) (map fst (critnib_entries c)) \<and> map_of (critnib_entries c) = critnib_map c"
  using critnib_iter_run [OF assms] critnib_entries_sorted [OF assms] by simp

lemma critnib_iter_correct_witness:
  "critnib_iter demo_crit 0 20 (\<lambda>k v ks. (0, ks @ [k])) [] = [17, 20]"
  using critnib_iter_correct [OF demo_crit_inv, of 20 "\<lambda>k v ks. (0, ks @ [k])" "[]"]
  by (simp add: demo_crit_entries)

text \<open>
  With a lower end above 0 the iteration can lose entries: the test that skips a subtree
  compares \<open>min\<close> with \<open>path | path_mask(shift)\<close> instead of the greatest key under the node.
  On a tree whose keys differ in the top nibble that value is 0, and nothing is visited
  although all three keys lie in the range asked for.
\<close>

theorem critnib_iter_skips:
  "\<exists>c. critnib_inv c \<and> critnib_map c = map_of [(17, Some 100), (20, Some 300), (1152921504606846993, Some 200)] \<and>
     critnib_iter c 1 (-1) (\<lambda>k v ks. (0, ks @ [k])) [] = []"
proof (intro exI conjI)
  show "critnib_iter demo_crit 1 (-1) (\<lambda>k v ks. (0, ks @ [k])) [] = []" by code_simp
qed (simp_all add: demo_crit_inv demo_crit_map)

text \<open>
  C28: A removed leaf, and the node unlinked with it, are not reused during the grace period:
  after any sequence of operations with at most fifteen further removes they are neither in
  the tree nor in the pools that insertions allocate from, so that a reader that started
  before the removal still finds them unchanged.
\<close>

theorem critnib_grace_period:
  assumes "critnib_inv c" "dive (cn_root c) key = CLeaf a key v"
    and "unlink_leaf (cn_root c) key = Some (t, n)" "critnib_remove c key = Some (p, c1)"
    and "critnib_run os ops c1 = Some c2" "removes ops \<le> 15"
  shows "a \<notin> set (delete_leaves (cn_root c2)) \<union> set (deleted_leaf c2) \<and>
    (\<forall>b. n = Some b \<longrightarrow> b \<notin> set (delete_nodes (cn_root c2)) \<union> set (deleted_node c2))"
proof -
  let ?i = "unat (remove_count c mod 16)"
  have len: "length (pending_del_nodes c) = 16" "length (pending_del_leaves c) = 16"
    using assms(1) by (auto simp: critnib_inv_def)
  have "\<not> is_null (cn_root c)" using assms(2) by auto
  then have c1: "pending_del_leaves c1 ! ?i = Some a" "pending_del_nodes c1 ! ?i = n"
    "remove_count c1 = remove_count c + 1"
    using assms(2,3,4) len del_index(1) [of "remove_count c"] by (auto simp: critnib_remove_eq)
  have inv1: "critnib_inv c1" using critnib_remove_run [OF assms(1), of key] assms(4) by auto
  define r where "r = unat (remove_count c) mod 16"
  have r: "r < 16" "?i = r" by (simp_all add: r_def unat_mod)
  have "gap c1 r = (r + 16 - (r + 1) mod 16) mod 16"
    by (simp add: gap_def c1(3) unat_succ_mod r_def)
  also have "\<dots> = 15" using r(1) by (cases "r = 15") simp_all
  finally have "removes ops \<le> gap c1 ?i" using assms(6) r by simp
  from critnib_run_pending [OF inv1 assms(5) _ this] r c1
  have "critnib_inv c2" "pending_del_leaves c2 ! r = Some a" "pending_del_nodes c2 ! r = n" by simp_all
  then show ?thesis using pending_apart [OF _ r(1)] by auto
qed

definition demo_crit1 :: critnib where
  "demo_crit1 = snd (the (critnib_remove demo_crit 20))"

definition demo_crit2 :: critnib where
  "demo_crit2 = the (critnib_run demo_os [CRemove 17, CInsert 20 (Some 5) False] demo_crit1)"

lemma critnib_grace_period_witness:
  "\<exists>a v. dive (cn_root demo_crit) 20 = CLeaf a 20 v \<and>
     critnib_map demo_crit2 20 = Some (Some 5) \<and>
     a \<notin> set (delete_leaves (cn_root demo_crit2)) \<union> set (deleted_leaf demo_crit2)"
proof -
  have "ct_map (cn_root demo_crit) 20 = Some (Some 300)"
    using demo_crit_map by (simp add: critnib_map_def)
  then obtain a where d: "dive (cn_root demo_crit) 20 = CLeaf a 20 (Some 300)"
    using ct_map_Some dive_found demo_crit_inv unfolding critnib_inv_def by blast
  obtain t n where t: "unlink_leaf (cn_root demo_crit) 20 = Some (t, n)"
    using unlink_leaf_run [OF _ d] demo_crit_inv by (auto simp: critnib_inv_def)
  obtain p where p: "critnib_remove demo_crit 20 = Some (p, demo_crit1)"
    using critnib_remove_run [OF demo_crit_inv, of 20] by (auto simp: demo_crit1_def)
  have "critnib_run demo_os [CRemove 17, CInsert 20 (Some 5) False] demo_crit1 \<noteq> None" by code_simp
  then have run: "critnib_run demo_os [CRemove 17, CInsert 20 (Some 5) False] demo_crit1 = Some demo_crit2"
    by (auto simp: demo_crit2_def)
  have "critnib_map demo_crit2 20 = Some (Some 5)" by code_simp
  with critnib_grace_period [OF demo_crit_inv d t p run] d show ?thesis by auto
qed

text \<open>
  \<open>critnib_delete\<close> never returns: after the two allocators have been destroyed, it hands
  the removed elements, in use or \<open>NULL\<close>, to \<open>slab_alloc_free\<close>, which asserts that its
  argument is not \<open>NULL\<close> and otherwise reads the unmapped header.
\<close>

theorem critnib_delete_aborts:
  assumes "length (pending_del_nodes c) = DELETED_LIFE"
  shows "critnib_delete ret r1 r2 c = None"
proof -
  have "free_all (unmapped al) (q # qs) = None" for al q qs by (simp add: unmapped_free)
  moreover obtain q qs where "pending_del_nodes c = q # qs" using assms by (cases "pending_del_nodes c") auto
  ultimately have "free_all (unmapped al) (pending_del_nodes c) = None" for al by simp
  then show ?thesis
    by (cases "deleted_node c")
      (auto simp: critnib_delete_def unmapped_free Let_def split: Option.bind_splits)
qed

lemma critnib_delete_aborts_witness: "critnib_delete 0 0 0 demo_crit = None"
  using critnib_delete_aborts [of demo_crit 0 0 0] demo_crit_inv by (simp add: critnib_inv_def)

end
