(* ===== verification/Lockless_Queue.thy ===== *)
theory Lockless_Queue
  imports Prelude
begin

text \<open>
  Component \<open>src/lockless_srmw_queue.c\<close>: a ring buffer with one reader and several writers.
  A cell of the ring has a metadata word and a pointer to \<open>entrySize\<close> bytes of the data
  block; the block is modelled as the array of the objects these bytes hold, so that the
  pointer \<open>&data[i * entry_size]\<close> is the index \<open>i\<close> and \<open>memcpy\<close> of \<open>entrySize\<close> bytes moves one
  object.  An entry pointer is the index of the cell.  Accesses outside the two blocks and
  the failed \<open>assert\<close> are \<^term>\<open>None\<close>.

  This theory has the functions as one thread runs them: a compare-and-exchange loop whose
  variable nobody else writes leaves after storing the new value.  The interleavings of
  several writers with the reader are the theory \<open>Lockless_Queue_Threads\<close>.
\<close>

record lq_entry =
  metadata_state :: "32 word"
  en_data :: nat

record 'a lq_buffer =
  lq_entries :: "lq_entry list"
  lq_data :: "'a list"
  lq_size :: size_t
  lq_entrySize :: size_t
  lq_head :: size_t
  lq_tail :: size_t
  lq_used :: size_t
  lq_unavailableRead :: size_t

definition META_STATE_FREE :: "32 word" where
  "META_STATE_FREE = 0"

definition META_STATE_READY :: "32 word" where
  "META_STATE_READY = 2"

text \<open>\<open>&entries[i]\<close> read and written.\<close>

definition lq_entry_at :: "'a lq_buffer \<Rightarrow> nat \<Rightarrow> lq_entry option" where
  "lq_entry_at b i = (if i < length (lq_entries b) then Some (lq_entries b ! i) else None)"

definition lq_set_state :: "nat \<Rightarrow> 32 word \<Rightarrow> 'a lq_buffer \<Rightarrow> 'a lq_buffer" where
  "lq_set_state i s b =
     b\<lparr>lq_entries := (lq_entries b)[i := (lq_entries b ! i)\<lparr>metadata_state := s\<rparr>]\<rparr>"

definition lq_cancel_reserve_write :: "'a lq_buffer \<Rightarrow> 'a lq_buffer" where
  "lq_cancel_reserve_write b = b\<lparr>lq_used := lq_used b - 1\<rparr>"

definition lq_reserve_write :: "'a lq_buffer \<Rightarrow> bool \<times> 'a lq_buffer" where
  "lq_reserve_write b0 =
     (let prev_size = lq_used b0; b = b0\<lparr>lq_used := prev_size + 1\<rparr>
      in if prev_size < lq_size b then (True, b) else (False, lq_cancel_reserve_write b))"

definition lq_cancel_reserve_read :: "'a lq_buffer \<Rightarrow> 'a lq_buffer" where
  "lq_cancel_reserve_read b = b\<lparr>lq_unavailableRead := lq_unavailableRead b - 1\<rparr>"

definition lq_reserve_read :: "'a lq_buffer \<Rightarrow> bool \<times> 'a lq_buffer" where
  "lq_reserve_read b0 =
     (let prev_size = lq_unavailableRead b0; b = b0\<lparr>lq_unavailableRead := prev_size + 1\<rparr>
      in if prev_size < lq_size b then (True, b) else (False, lq_cancel_reserve_read b))"

definition lq_request_entry_read :: "'a lq_buffer \<Rightarrow> (nat option \<times> 'a lq_buffer) option" where
  "lq_request_entry_read b0 =
     (case lq_reserve_read b0 of
        (False, b) \<Rightarrow> Some (None, b)
      | (True, b) \<Rightarrow> do {
          let head_idx_old = lq_head b;
          let head_idx_new = (head_idx_old + 1) mod lq_size b;
          let b = b\<lparr>lq_head := head_idx_new\<rparr>;
          ret \<leftarrow> lq_entry_at b (unat head_idx_old);
          if metadata_state ret \<noteq> META_STATE_READY
          then Some (None, lq_cancel_reserve_read (b\<lparr>lq_head := head_idx_old\<rparr>))
          else Some (Some (unat head_idx_old), b) })"

definition lq_request_entry_write :: "'a lq_buffer \<Rightarrow> (nat option \<times> 'a lq_buffer) option" where
  "lq_request_entry_write b0 =
     (case lq_reserve_write b0 of
        (False, b) \<Rightarrow> Some (None, b)
      | (True, b) \<Rightarrow> do {
          let tail_idx_old = lq_tail b;
          let tail_idx_new = (tail_idx_old + 1) mod lq_size b;
          let b = b\<lparr>lq_tail := tail_idx_new\<rparr>;
          ret \<leftarrow> lq_entry_at b (unat tail_idx_old);
          if metadata_state ret \<noteq> META_STATE_FREE
          then do {
            let b = lq_cancel_reserve_write b;
            c_assert False;
            Some (Some (unat tail_idx_old), b) }
          else Some (Some (unat tail_idx_old), b) })"

definition lq_post_entry_write :: "'a lq_buffer \<Rightarrow> nat \<Rightarrow> 'a lq_buffer" where
  "lq_post_entry_write b0 entry =
     (let b = lq_set_state entry META_STATE_READY b0
      in b\<lparr>lq_unavailableRead := lq_unavailableRead b - 1\<rparr>)"

definition lq_post_entry_read :: "'a lq_buffer \<Rightarrow> nat \<Rightarrow> 'a lq_buffer" where
  "lq_post_entry_read b0 entry =
     (let b = lq_set_state entry META_STATE_FREE b0
      in b\<lparr>lq_used := lq_used b - 1\<rparr>)"

text \<open>
  \<open>jemk_malloc\<close> belongs to the allocator below: \<open>malloc_entries\<close> and \<open>malloc_data\<close> give, for a
  number of bytes, the block as an array of entries and of objects with whatever it held
  before, or \<open>NULL\<close>.  The sizes passed are the wrapped products of the source.
\<close>

primrec lq_init_entries :: "lq_entry list \<Rightarrow> nat \<Rightarrow> lq_entry list option" where
  "lq_init_entries es 0 = Some es"
| "lq_init_entries es (Suc i) = do {
     es \<leftarrow> lq_init_entries es i;
     c_assert (i < length es);
     Some (es[i := \<lparr>metadata_state = META_STATE_FREE, en_data = i\<rparr>]) }"

definition lq_init ::
  "(size_t \<Rightarrow> lq_entry list option) \<Rightarrow> (size_t \<Rightarrow> 'a list option) \<Rightarrow> size_t \<Rightarrow> size_t
    \<Rightarrow> 'a lq_buffer option" where
  "lq_init malloc_entries malloc_data entry_size entries = do {
     let es = malloc_entries (entries * 16);
     let ds = malloc_data (entry_size * entries);
     es' \<leftarrow> lq_init_entries (case es of None \<Rightarrow> [] | Some e \<Rightarrow> e) (unat entries);
     Some \<lparr>lq_entries = es', lq_data = (case ds of None \<Rightarrow> [] | Some d \<Rightarrow> d),
           lq_size = entries, lq_entrySize = entry_size, lq_head = 0, lq_tail = 0,
           lq_used = 0, lq_unavailableRead = entries\<rparr> }"

text \<open>\<open>memcpy\<close> from and to the object an entry points to.\<close>

definition lq_memcpy_out :: "'a lq_buffer \<Rightarrow> nat \<Rightarrow> 'a option" where
  "lq_memcpy_out b entry = do {
     e \<leftarrow> lq_entry_at b entry;
     if en_data e < length (lq_data b) then Some (lq_data b ! en_data e) else None }"

definition lq_memcpy_in :: "'a lq_buffer \<Rightarrow> nat \<Rightarrow> 'a \<Rightarrow> 'a lq_buffer option" where
  "lq_memcpy_in b entry x = do {
     e \<leftarrow> lq_entry_at b entry;
     if en_data e < length (lq_data b)
     then Some (b\<lparr>lq_data := (lq_data b)[en_data e := x]\<rparr>) else None }"

definition lq_pop :: "'a lq_buffer \<Rightarrow> 'a \<Rightarrow> (bool \<times> 'a \<times> 'a lq_buffer) option" where
  "lq_pop b0 out = do {
     (temp, b) \<leftarrow> lq_request_entry_read b0;
     (case temp of
        None \<Rightarrow> Some (False, out, b)
      | Some e \<Rightarrow> do {
          out \<leftarrow> lq_memcpy_out b e;
          Some (True, out, lq_post_entry_read b e) }) }"

definition lq_push :: "'a lq_buffer \<Rightarrow> 'a \<Rightarrow> (bool \<times> 'a lq_buffer) option" where
  "lq_push b0 inp = do {
     (temp, b) \<leftarrow> lq_request_entry_write b0;
     (case temp of
        None \<Rightarrow> Some (False, b)
      | Some e \<Rightarrow> do {
          b \<leftarrow> lq_memcpy_in b e inp;
          Some (True, lq_post_entry_write b e) }) }"

text \<open>After \<open>lq_destroy\<close> the two blocks are gone: any access to them is an abort.\<close>

definition lq_destroy :: "'a lq_buffer \<Rightarrow> 'a lq_buffer" where
  "lq_destroy b = b\<lparr>lq_entries := [], lq_data := []\<rparr>"

section \<open>The ring as a queue\<close>

text \<open>
  \<open>lq_rep b xs\<close>: no call is in progress and the buffer holds \<open>xs\<close>, oldest first, in the
  cells that start at \<open>head\<close>.
\<close>

definition ring_shape :: "'a lq_buffer \<Rightarrow> bool" where
  "ring_shape b \<longleftrightarrow> 0 < unat (lq_size b) \<and> length (lq_entries b) = unat (lq_size b) \<and>
     length (lq_data b) = unat (lq_size b) \<and>
     (\<forall>i < unat (lq_size b). en_data (lq_entries b ! i) = i)"

definition lq_rep :: "'a lq_buffer \<Rightarrow> 'a list \<Rightarrow> bool" where
  "lq_rep b xs \<longleftrightarrow> ring_shape b \<and> length xs \<le> unat (lq_size b) \<and>
     unat (lq_head b) < unat (lq_size b) \<and>
     unat (lq_tail b) = (unat (lq_head b) + length xs) mod unat (lq_size b) \<and>
     unat (lq_used b) = length xs \<and>
     unat (lq_unavailableRead b) = unat (lq_size b) - length xs \<and>
     (\<forall>j < unat (lq_size b).
        metadata_state (lq_entries b ! ((unat (lq_head b) + j) mod unat (lq_size b))) =
          (if j < length xs then META_STATE_READY else META_STATE_FREE)) \<and>
     (\<forall>j < length xs. lq_data b ! ((unat (lq_head b) + j) mod unat (lq_size b)) = xs ! j)"

text \<open>Offsets below the size reach different cells.\<close>

lemma ring_inj:
  assumes "(h + i) mod n = (h + j) mod n" "i < n" "j < (n::nat)"
  shows "i = j"
proof -
  have *: "a = b" if "a \<le> b" "b < n" "(h + a) mod n = (h + b) mod n" for a b :: nat
  proof -
    from that(3) have "n dvd (h + b) - (h + a)"
      using mod_eq_dvd_iff_nat [of "h + a" "h + b" n] that(1) by simp
    then have "n dvd b - a" by simp
    moreover have "b - a < n" using that(2) by simp
    ultimately have "b - a = 0" using nat_dvd_not_less by blast
    with that(1) show ?thesis by simp
  qed
  show ?thesis
    using *[of i j] *[of j i] assms by (cases "i \<le> j") auto
qed

lemma unat_below: "unat (n::size_t) < 2 ^ 64"
  using unsigned_less [of n] by simp

lemma unat_next_index:
  assumes "unat (i::size_t) < unat n"
  shows "unat ((i + 1) mod n) = (unat i + 1) mod unat n"
proof -
  have "unat i + 1 < 2 ^ 64" using assms unat_below [of n] by linarith
  then have "unat (i + 1) = unat i + 1"
    using unat_add_nowrap [of i 1] by simp
  then show ?thesis by (simp add: unat_mod)
qed

lemma unat_inc_size: "unat (w::size_t) < unat (n::size_t) \<Longrightarrow> unat (w + 1) = unat w + 1"
  using unat_add_nowrap [of w 1] unat_below [of n] by simp

lemma unat_dec: "0 < unat (w::size_t) \<Longrightarrow> unat (w - 1) = unat w - 1"
  using unat_sub [of 1 w] by (simp add: word_le_nat_alt)

lemma lq_set_state_sel [simp]:
  "lq_data (lq_set_state i s b) = lq_data b"
  "lq_size (lq_set_state i s b) = lq_size b"
  "lq_entrySize (lq_set_state i s b) = lq_entrySize b"
  "lq_head (lq_set_state i s b) = lq_head b"
  "lq_tail (lq_set_state i s b) = lq_tail b"
  "lq_used (lq_set_state i s b) = lq_used b"
  "lq_unavailableRead (lq_set_state i s b) = lq_unavailableRead b"
  "length (lq_entries (lq_set_state i s b)) = length (lq_entries b)"
  by (simp_all add: lq_set_state_def)

lemma lq_set_state_nth:
  "i < length (lq_entries b) \<Longrightarrow> lq_entries (lq_set_state i s b) ! j =
     (if j = i then (lq_entries b ! i)\<lparr>metadata_state := s\<rparr> else lq_entries b ! j)"
  by (simp add: lq_set_state_def nth_list_update)

lemma ring_shape_set_state [simp]: "ring_shape b \<Longrightarrow> ring_shape (lq_set_state i s b)"
  by (cases "i < length (lq_entries b)")
    (auto simp: ring_shape_def lq_set_state_def nth_list_update)

lemma lq_push_room_run:
  assumes rep: "lq_rep b xs" and room: "length xs < unat (lq_size b)"
  shows "\<exists>b'. lq_push b x = Some (True, b') \<and> lq_rep b' (xs @ [x]) \<and> lq_size b' = lq_size b"
proof -
  define N h where "N = unat (lq_size b)" and "h = unat (lq_head b)"
  define t where "t = (h + length xs) mod N"
  note R = rep [unfolded lq_rep_def ring_shape_def, folded N_def h_def]
  have N: "0 < N" "length xs < N" using R room by (auto simp: N_def)
  have t: "unat (lq_tail b) = t" "t < N" using R N by (auto simp: t_def)
  have free: "metadata_state (lq_entries b ! t) = META_STATE_FREE"
    using R N by (auto simp: t_def)
  define b' where "b' = lq_post_entry_write (b\<lparr>lq_used := lq_used b + 1,
     lq_tail := (lq_tail b + 1) mod lq_size b, lq_data := (lq_data b)[t := x]\<rparr>) t"
  have push: "lq_push b x = Some (True, b')"
    using R N t free room
    by (simp add: lq_push_def lq_request_entry_write_def lq_reserve_write_def Let_def
        word_less_nat_alt lq_entry_at_def lq_memcpy_in_def b'_def N_def)
  have tail: "unat ((lq_tail b + 1) mod lq_size b) = (h + Suc (length xs)) mod N"
    using unat_next_index [of "lq_tail b" "lq_size b"] t
    by (simp add: N_def t_def mod_Suc_eq)
  have same: "(h + j) mod N = t \<longleftrightarrow> j = length xs" if "j < N" for j
    using ring_inj [of h j N "length xs"] that N by (auto simp: t_def)
  have used: "unat (lq_used b + 1) = Suc (length xs)"
    using unat_inc_size [of "lq_used b" "lq_size b"] R room by (simp add: N_def)
  have unav: "unat (lq_unavailableRead b - 1) = N - Suc (length xs)"
    using unat_dec [of "lq_unavailableRead b"] R N by simp
  have stR: "\<forall>j < N. metadata_state (lq_entries b ! ((h + j) mod N)) =
      (if j < length xs then META_STATE_READY else META_STATE_FREE)" using R by simp
  have dR: "\<forall>j < length xs. lq_data b ! ((h + j) mod N) = xs ! j" using R by simp
  have b'_sel [simp]: "lq_size b' = lq_size b" "lq_head b' = lq_head b"
    "lq_data b' = (lq_data b)[t := x]"
    by (simp_all add: b'_def lq_post_entry_write_def Let_def)
  have "lq_rep b' (xs @ [x])"
    unfolding lq_rep_def
  proof (intro conjI allI impI)
    show "ring_shape b'" using rep ring_shape_set_state [of b t META_STATE_READY]
      by (simp add: lq_rep_def b'_def lq_post_entry_write_def Let_def ring_shape_def
          lq_set_state_def)
  next
    fix j assume "j < unat (lq_size b')"
    then have j: "j < N" by (simp add: N_def)
    show "metadata_state (lq_entries b' ! ((unat (lq_head b') + j) mod unat (lq_size b'))) =
        (if j < length (xs @ [x]) then META_STATE_READY else META_STATE_FREE)"
      using R t(2) same [OF j] stR j
      by (simp add: b'_def lq_post_entry_write_def Let_def lq_set_state_nth
          N_def [symmetric] h_def [symmetric] less_Suc_eq)
  next
    fix j assume j: "j < length (xs @ [x])"
    then show "lq_data b' ! ((unat (lq_head b') + j) mod unat (lq_size b')) = (xs @ [x]) ! j"
      using R t(2) same [of j] dR N
      by (auto simp: N_def [symmetric] h_def [symmetric] nth_append nth_list_update)
  qed (use R N tail used unav in
      \<open>simp_all add: b'_def lq_post_entry_write_def Let_def N_def [symmetric] h_def [symmetric]\<close>)
  then show ?thesis using push by (auto simp: b'_def lq_post_entry_write_def Let_def)
qed

lemma lq_push_full_run:
  assumes "lq_rep b xs" "length xs = unat (lq_size b)"
  shows "lq_push b x = Some (False, b)"
  using assms
  by (simp add: lq_rep_def lq_push_def lq_request_entry_write_def lq_reserve_write_def Let_def
      word_less_nat_alt lq_cancel_reserve_write_def)

lemma lq_pop_front_run:
  assumes rep: "lq_rep b (x # xs)"
  shows "\<exists>b'. lq_pop b out = Some (True, x, b') \<and> lq_rep b' xs \<and> lq_size b' = lq_size b"
proof -
  define N h where "N = unat (lq_size b)" and "h = unat (lq_head b)"
  note R = rep [unfolded lq_rep_def ring_shape_def, folded N_def h_def]
  have N: "0 < N" "length xs < N" "h < N" using R by auto
  have ready: "metadata_state (lq_entries b ! h) = META_STATE_READY" "lq_data b ! h = x"
    using R N by (auto dest!: spec [where x = 0])
  define b' where "b' = lq_post_entry_read (b\<lparr>lq_unavailableRead := lq_unavailableRead b + 1,
     lq_head := (lq_head b + 1) mod lq_size b\<rparr>) h"
  have lt: "unat (lq_unavailableRead b) < unat (lq_size b)"
    using R N by (simp add: N_def)
  have pop: "lq_pop b out = Some (True, x, b')"
    using R N ready lt
    by (simp add: lq_pop_def lq_request_entry_read_def lq_reserve_read_def Let_def
        word_less_nat_alt lq_entry_at_def lq_memcpy_out_def b'_def h_def)
  have head: "unat ((lq_head b + 1) mod lq_size b) = (h + 1) mod N"
    using unat_next_index [of "lq_head b" "lq_size b"] N by (simp add: N_def h_def)
  have ix: "((h + 1) mod N + j) mod N = (h + Suc j) mod N" for j
    by (simp add: mod_add_left_eq)
  have last: "(h + Suc j) mod N = h \<longleftrightarrow> Suc j = N" if "j < N" for j
    using ring_inj [of h "Suc j" N 0] that N by (cases "Suc j = N") auto
  have unav: "unat (lq_unavailableRead b + 1) = N - length xs"
    using unat_inc_size [OF lt] R N by simp
  have used: "unat (lq_used b - 1) = length xs"
    using unat_dec [of "lq_used b"] R N by simp
  have stR: "\<forall>j < N. metadata_state (lq_entries b ! ((h + j) mod N)) =
      (if j < Suc (length xs) then META_STATE_READY else META_STATE_FREE)" using R by simp
  have dR: "\<forall>j < Suc (length xs). lq_data b ! ((h + j) mod N) = (x # xs) ! j" using R by simp
  have st: "metadata_state (lq_entries b ! ((h + Suc j) mod N)) =
      (if j < length xs then META_STATE_READY else META_STATE_FREE)" if "Suc j < N" for j
    using stR [rule_format, OF that] by simp
  have "lq_rep b' xs"
    unfolding lq_rep_def
  proof (intro conjI allI impI)
    show "ring_shape b'" using rep ring_shape_set_state [of b h META_STATE_FREE]
      by (simp add: lq_rep_def b'_def lq_post_entry_read_def Let_def ring_shape_def
          lq_set_state_def)
  next
    fix j assume "j < unat (lq_size b')"
    then have j: "j < N" by (simp add: b'_def lq_post_entry_read_def Let_def N_def)
    show "metadata_state (lq_entries b' ! ((unat (lq_head b') + j) mod unat (lq_size b'))) =
        (if j < length xs then META_STATE_READY else META_STATE_FREE)"
      using R N(2,3) head ix [of j] last [OF j] st [of j] j
      by (cases "Suc j = N") (simp_all add: b'_def lq_post_entry_read_def Let_def lq_set_state_nth
          N_def [symmetric])
  next
    fix j assume "j < length xs"
    then show "lq_data b' ! ((unat (lq_head b') + j) mod unat (lq_size b')) = xs ! j"
      using dR [rule_format, of "Suc j"] head ix [of j]
      by (simp add: b'_def lq_post_entry_read_def Let_def N_def [symmetric])
  qed (use R N head ix [of "length xs"] unav used in
      \<open>simp_all add: b'_def lq_post_entry_read_def Let_def N_def [symmetric]\<close>)
  then show ?thesis using pop by (auto simp: b'_def lq_post_entry_read_def Let_def)
qed

lemma lq_pop_empty_run:
  assumes "lq_rep b []"
  shows "lq_pop b out = Some (False, out, b)"
  using assms
  by (simp add: lq_rep_def lq_pop_def lq_request_entry_read_def lq_reserve_read_def Let_def
      word_less_nat_alt lq_cancel_reserve_read_def)

lemma lq_init_entries_run:
  assumes "n \<le> length es"
  shows "\<exists>es'. lq_init_entries es n = Some es' \<and> length es' = length es \<and>
    (\<forall>i < n. es' ! i = \<lparr>metadata_state = META_STATE_FREE, en_data = i\<rparr>)"
  using assms
proof (induction n)
  case (Suc n)
  then obtain es' where "lq_init_entries es n = Some es'" "length es' = length es"
    "\<forall>i < n. es' ! i = \<lparr>metadata_state = META_STATE_FREE, en_data = i\<rparr>" by auto
  with Suc.prems show ?case by (auto simp: nth_list_update less_Suc_eq)
qed simp

lemma lq_init_run:
  assumes "malloc_entries (entries * 16) = Some es" "malloc_data (entry_size * entries) = Some ds"
    "length es = unat entries" "length ds = unat entries" "0 < unat entries"
  shows "\<exists>b. lq_init malloc_entries malloc_data entry_size entries = Some b \<and> lq_rep b [] \<and>
    lq_size b = entries \<and> lq_head b = 0"
proof -
  obtain es' where es': "lq_init_entries es (unat entries) = Some es'" "length es' = unat entries"
    "\<forall>i < unat entries. es' ! i = \<lparr>metadata_state = META_STATE_FREE, en_data = i\<rparr>"
    using lq_init_entries_run [of "unat entries" es] assms by auto
  then show ?thesis using assms
    by (simp add: lq_init_def lq_rep_def ring_shape_def)
qed

section \<open>The interface\<close>

text \<open>
  What a user of the queue relies on.  A request is a push of an object or a pop into a
  variable whose present content is given; the reference queue is a list with a capacity.
\<close>

datatype 'a qop = QPush 'a | QPop 'a

datatype 'a qres = Pushed bool | Popped bool 'a

fun fifo_step :: "nat \<Rightarrow> 'a qop \<Rightarrow> 'a list \<Rightarrow> 'a qres \<times> 'a list" where
  "fifo_step cap (QPush x) q =
     (if length q < cap then (Pushed True, q @ [x]) else (Pushed False, q))"
| "fifo_step cap (QPop out) [] = (Popped False out, [])"
| "fifo_step cap (QPop out) (x # q) = (Popped True x, q)"

primrec fifo_run :: "nat \<Rightarrow> 'a qop list \<Rightarrow> 'a list \<Rightarrow> 'a qres list \<times> 'a list" where
  "fifo_run cap [] q = ([], q)"
| "fifo_run cap (c # cs) q =
     (let (r, q) = fifo_step cap c q; (rs, q) = fifo_run cap cs q in (r # rs, q))"

primrec queue_run ::
  "('s \<Rightarrow> 'a \<Rightarrow> (bool \<times> 's) option) \<Rightarrow> ('s \<Rightarrow> 'a \<Rightarrow> (bool \<times> 'a \<times> 's) option) \<Rightarrow> 'a qop list \<Rightarrow> 's
    \<Rightarrow> ('a qres list \<times> 's) option" where
  "queue_run push pop [] s = Some ([], s)"
| "queue_run push pop (c # cs) s = do {
     (r, s) \<leftarrow> (case c of
        QPush x \<Rightarrow> do { (ok, s) \<leftarrow> push s x; Some (Pushed ok, s) }
      | QPop out \<Rightarrow> do { (ok, out, s) \<leftarrow> pop s out; Some (Popped ok out, s) });
     (rs, s) \<leftarrow> queue_run push pop cs s;
     Some (r # rs, s) }"

locale bounded_fifo =
  fixes rep :: "'s \<Rightarrow> 'a list \<Rightarrow> bool"
    and cap :: "'s \<Rightarrow> nat"
    and push :: "'s \<Rightarrow> 'a \<Rightarrow> (bool \<times> 's) option"
    and pop :: "'s \<Rightarrow> 'a \<Rightarrow> (bool \<times> 'a \<times> 's) option"
  assumes push_room: "rep s xs \<Longrightarrow> length xs < cap s \<Longrightarrow>
      \<exists>s'. push s x = Some (True, s') \<and> rep s' (xs @ [x]) \<and> cap s' = cap s"
    and push_full: "rep s xs \<Longrightarrow> length xs \<ge> cap s \<Longrightarrow> push s x = Some (False, s)"
    and pop_front: "rep s (x # xs) \<Longrightarrow>
      \<exists>s'. pop s out = Some (True, x, s') \<and> rep s' xs \<and> cap s' = cap s"
    and pop_empty: "rep s [] \<Longrightarrow> pop s out = Some (False, out, s)"
begin

lemma run_fifo:
  "rep s xs \<Longrightarrow> \<exists>s'. queue_run push pop cs s = Some (fst (fifo_run (cap s) cs xs), s') \<and>
     rep s' (snd (fifo_run (cap s) cs xs)) \<and> cap s' = cap s"
proof (induction cs arbitrary: s xs)
  case (Cons c cs)
  have "\<exists>s'. (case c of
        QPush x \<Rightarrow> do { (ok, s) \<leftarrow> push s x; Some (Pushed ok, s) }
      | QPop out \<Rightarrow> do { (ok, out, s) \<leftarrow> pop s out; Some (Popped ok out, s) }) =
      Some (fst (fifo_step (cap s) c xs), s') \<and>
      rep s' (snd (fifo_step (cap s) c xs)) \<and> cap s' = cap s"
  proof (cases c)
    case (QPush x)
    show ?thesis
      using push_room [OF Cons.prems, of x] push_full [OF Cons.prems, of x] Cons.prems QPush
      by (cases "length xs < cap s") auto
  next
    case (QPop out)
    show ?thesis
    proof (cases xs)
      case Nil
      with pop_empty [of s out] Cons.prems QPop show ?thesis by simp
    next
      case (Cons y ys)
      with pop_front [of s y ys out] Cons.prems QPop show ?thesis by auto
    qed
  qed
  then obtain s' where s': "(case c of
        QPush x \<Rightarrow> do { (ok, s) \<leftarrow> push s x; Some (Pushed ok, s) }
      | QPop out \<Rightarrow> do { (ok, out, s) \<leftarrow> pop s out; Some (Popped ok out, s) }) =
      Some (fst (fifo_step (cap s) c xs), s')"
    "rep s' (snd (fifo_step (cap s) c xs))" "cap s' = cap s" by blast
  from Cons.IH [OF s'(2)] s'(3) show ?case
    by (auto simp: s'(1) split_beta Let_def)
qed simp

end

interpretation lq: bounded_fifo lq_rep "\<lambda>b. unat (lq_size b)" lq_push lq_pop
proof (unfold_locales, goal_cases)
  case (1 s xs x)
  then show ?case using lq_push_room_run [of s xs x] by auto
next
  case (2 s xs x)
  then have "length xs = unat (lq_size s)" by (simp add: lq_rep_def)
  with 2(1) show ?case by (rule lq_push_full_run)
next
  case (3 s x xs out)
  then show ?case using lq_pop_front_run [of s x xs out] by auto
next
  case (4 s out)
  then show ?case by (rule lq_pop_empty_run)
qed

section \<open>Properties\<close>

text \<open>
  C15: A queue that \<open>lq_init\<close> has set up over two fresh blocks answers every sequence of
  \<open>lq_push\<close> and \<open>lq_pop\<close> calls exactly as a first-in first-out list of capacity \<open>entries\<close>:
  a push is refused precisely when the list is full, a pop returns the oldest object or
  leaves the output variable alone, and no call aborts.  The counters \<open>head\<close>, \<open>tail\<close>, \<open>used\<close>
  and \<open>unavailableRead\<close> are 64-bit words throughout.
\<close>

theorem lq_refines_fifo:
  assumes "malloc_entries (entries * 16) = Some es" "malloc_data (entry_size * entries) = Some ds"
    and "length es = unat entries" "length ds = unat entries" "0 < entries"
  shows "\<exists>b b'. lq_init malloc_entries malloc_data entry_size entries = Some b \<and>
    queue_run lq_push lq_pop cs b = Some (fst (fifo_run (unat entries) cs []), b') \<and>
    lq_rep b' (snd (fifo_run (unat entries) cs []))"
proof -
  have "0 < unat entries" using assms(5) by (simp add: word_less_nat_alt)
  with assms lq_init_run [of malloc_entries entries es malloc_data entry_size ds] obtain b where
    b: "lq_init malloc_entries malloc_data entry_size entries = Some b" "lq_rep b []"
    "lq_size b = entries" by auto
  from lq.run_fifo [OF b(2), of cs] b show ?thesis by auto
qed

text \<open>The blocks of a queue of two objects, as \<open>jemk_malloc\<close> may hand them out.\<close>

definition demo_malloc_entries :: "size_t \<Rightarrow> lq_entry list option" where
  "demo_malloc_entries n = (if n = 32 then
     Some (replicate 2 \<lparr>metadata_state = 7, en_data = 9\<rparr>) else None)"

definition demo_malloc_data :: "size_t \<Rightarrow> nat list option" where
  "demo_malloc_data n = (if n = 96 then Some [41, 42] else None)"

lemma lq_refines_fifo_witness:
  "\<exists>b b'. lq_init demo_malloc_entries demo_malloc_data 48 2 = Some b \<and>
    queue_run lq_push lq_pop
      [QPop 0, QPush 10, QPush 11, QPush 12, QPop 0, QPush 13, QPop 0, QPop 0, QPop 5] b =
    Some ([Popped False 0, Pushed True, Pushed True, Pushed False, Popped True 10, Pushed True,
           Popped True 11, Popped True 13, Popped False 5], b')"
  using lq_refines_fifo [of demo_malloc_entries 2 "replicate 2 \<lparr>metadata_state = 7, en_data = 9\<rparr>"
      demo_malloc_data 48 "[41, 42]"
      "[QPop 0, QPush 10, QPush 11, QPush 12, QPop 0, QPush 13, QPop 0, QPop 0, QPop 5]"]
  by (auto simp: demo_malloc_entries_def demo_malloc_data_def simp del: queue_run.simps)

end
