(* ===== verification/Ranking_Queue.thy ===== *)
theory Ranking_Queue
  imports Lockless_Queue
begin

text \<open>
  Component \<open>src/ranking_queue.c\<close> with \<open>ranking_queue.h\<close>: the queue of events between the
  threads that allocate and the thread that ranks.  \<open>USE_MUTEX\<close> is not defined.  An entry is
  a tag with the member of the union that belongs to it; the application's addresses are
  plain 64-bit words here (0 is \<open>NULL\<close>), because they are only compared and used as keys.
\<close>

datatype EventEntry =
    EVENT_CREATE_ADD "64 word" addr size_t bool
  | EVENT_DESTROY_REMOVE addr size_t
  | EVENT_REALLOC addr addr size_t size_t bool
  | EVENT_TOUCH addr "64 word"
  | EVENT_SET_TOUCH_CALLBACK addr ptr ptr

text \<open>\<open>sizeof(EventEntry_t)\<close>: the tag, padded to 8 bytes, and the 40 bytes of \<open>EventDataRealloc\<close>.\<close>

definition sizeof_EventEntry :: size_t where
  "sizeof_EventEntry = 48"

type_synonym event_buffer = "EventEntry lq_buffer"

definition ranking_event_init ::
  "(size_t \<Rightarrow> lq_entry list option) \<Rightarrow> (size_t \<Rightarrow> EventEntry list option) \<Rightarrow> size_t
    \<Rightarrow> event_buffer option" where
  "ranking_event_init malloc_entries malloc_data n =
     lq_init malloc_entries malloc_data sizeof_EventEntry n"

text \<open>\<open>mem\<close> is the result of \<open>jemk_malloc(sizeof(lq_buffer_t))\<close>; a \<open>NULL\<close> is written through.\<close>

definition ranking_event_create ::
  "ptr \<Rightarrow> (size_t \<Rightarrow> lq_entry list option) \<Rightarrow> (size_t \<Rightarrow> EventEntry list option) \<Rightarrow> size_t
    \<Rightarrow> (addr \<times> event_buffer) option" where
  "ranking_event_create mem malloc_entries malloc_data n = do {
     buff \<leftarrow> mem;
     b \<leftarrow> ranking_event_init malloc_entries malloc_data n;
     Some (buff, b) }"

definition ranking_event_fini :: "event_buffer \<Rightarrow> event_buffer" where
  "ranking_event_fini buff = lq_destroy buff"

text \<open>
  \<open>jemk_free\<close> is a parameter: it answers \<^term>\<open>None\<close> for an address that is not a live block of
  the allocator, which is undefined behaviour.
\<close>

definition ranking_event_destroy ::
  "(ptr \<Rightarrow> unit option) \<Rightarrow> addr \<Rightarrow> event_buffer \<Rightarrow> event_buffer option" where
  "ranking_event_destroy jemk_free self buff = do {
     let buff = ranking_event_fini buff;
     jemk_free (Some self);
     Some buff }"

definition ranking_event_push :: "event_buffer \<Rightarrow> EventEntry \<Rightarrow> (bool \<times> event_buffer) option" where
  "ranking_event_push buff event = lq_push buff event"

definition ranking_event_pop ::
  "event_buffer \<Rightarrow> EventEntry \<Rightarrow> (bool \<times> EventEntry \<times> event_buffer) option" where
  "ranking_event_pop buff event = lq_pop buff event"

interpretation events: bounded_fifo lq_rep "\<lambda>b. unat (lq_size b)" ranking_event_push ranking_event_pop
  unfolding ranking_event_push_def [abs_def] ranking_event_pop_def [abs_def]
  by (rule lq.bounded_fifo_axioms)

end
