(* ===== verification/Heatmap.thy ===== *)
theory Heatmap
  imports Wre_Avl_Tree "HOL-Library.Multiset"
begin

text \<open>
  Component \<open>src/heatmap.cpp\<close>: one line of text with the hotness and the DRAM share of every
  type as bytes, hottest first.  \<open>std::sort\<close> is not stable, so the order of entries of equal
  hotness is open: the sorted list comes from a parameter, \<open>sort_spec\<close> being what the standard
  guarantees.  A conversion of NaN, or of a
  double that does not fit, to \<open>uint8_t\<close> is undefined behaviour in C++: the source has no check, and
  nothing is known of what the program does from there on, which the result \<^term>\<open>None\<close> stands
  for.  No property below speaks about such a run.
\<close>

record HeatmapEntry =
  dram_to_total :: double
  he_hotness :: real

record HeatmapByteEntry =
  hb_dram_to_total :: "8 word"
  hb_hotness :: "8 word"

definition compare_hotness_desc :: "HeatmapEntry \<Rightarrow> HeatmapEntry \<Rightarrow> bool" where
  "compare_hotness_desc a b = (he_hotness a > he_hotness b)"

definition sort_spec :: "(HeatmapEntry list \<Rightarrow> HeatmapEntry list) \<Rightarrow> bool" where
  "sort_spec srt \<longleftrightarrow> (\<forall>es. mset (srt es) = mset es \<and>
     sorted_wrt (\<lambda>a b. \<not> compare_hotness_desc b a) (srt es))"

definition to_uint8 :: "double \<Rightarrow> 8 word option" where
  "to_uint8 x = (case x of
     None \<Rightarrow> None
   | Some r \<Rightarrow> if -1 < r \<and> r < 256 then Some (word_of_int (if r \<ge> 0 then \<lfloor>r\<rfloor> else \<lceil>r\<rceil>)) else None)"

text \<open>The quotient of two doubles; division by zero gives no number.\<close>

definition ddiv :: "real \<Rightarrow> real \<Rightarrow> double" where
  "ddiv x y = (if y = 0 then None else Some (x / y))"

definition normalize_entry :: "real \<Rightarrow> HeatmapEntry \<Rightarrow> HeatmapByteEntry option" where
  "normalize_entry max_hotness entry = do {
     h \<leftarrow> to_uint8 (map_option (\<lambda>x. 255 * x) (ddiv (he_hotness entry) max_hotness));
     d \<leftarrow> to_uint8 (map_option (\<lambda>x. 255 * x) (dram_to_total entry));
     Some \<lparr>hb_dram_to_total = d, hb_hotness = h\<rparr> }"

primrec normalize_all :: "real \<Rightarrow> HeatmapEntry list \<Rightarrow> HeatmapByteEntry list option" where
  "normalize_all max_hotness [] = Some []"
| "normalize_all max_hotness (e # es) = do {
     b \<leftarrow> normalize_entry max_hotness e;
     bs \<leftarrow> normalize_all max_hotness es;
     Some (b # bs) }"

text \<open>The aggregator is its vector of entries; the call clears it.\<close>

definition CalculateNormalizedEntries ::
  "(HeatmapEntry list \<Rightarrow> HeatmapEntry list) \<Rightarrow> HeatmapEntry list \<Rightarrow>
    (HeatmapByteEntry list \<times> HeatmapEntry list) option" where
  "CalculateNormalizedEntries srt es =
     (if es = [] then Some ([], es)
      else do {
        let sorted = srt es;
        bs \<leftarrow> normalize_all (he_hotness (hd sorted)) sorted;
        Some (bs, []) })"

definition AddType :: "HeatmapEntry list \<Rightarrow> HeatmapEntry \<Rightarrow> HeatmapEntry list" where
  "AddType es entry = es @ [entry]"

definition hex_digit :: "nat \<Rightarrow> char" where
  "hex_digit n = ''0123456789abcdef'' ! n"

fun hex :: "nat \<Rightarrow> string" where
  "hex n = (if n < 16 then [hex_digit n] else hex (n div 16) @ [hex_digit (n mod 16)])"

declare hex.simps [simp del]

definition serialize_entry :: "HeatmapByteEntry \<Rightarrow> string" where
  "serialize_entry b = hex (unat (hb_hotness b)) @ '','' @ hex (unat (hb_dram_to_total b)) @ '';''"

definition Serialize ::
  "(HeatmapEntry list \<Rightarrow> HeatmapEntry list) \<Rightarrow> HeatmapEntry list \<Rightarrow> (string \<times> HeatmapEntry list) option" where
  "Serialize srt es = do {
     (normalized, es) \<leftarrow> CalculateNormalizedEntries srt es;
     Some (''heatmap_data = ['' @ concat (map serialize_entry normalized) @ '']'' @ [CHR 0x0A], es) }"

text \<open>
  The C interface.  \<open>mem\<close> is the result of \<open>jemk_malloc\<close>: constructing the aggregator, or
  copying the text, through \<open>NULL\<close> aborts.  \<open>jemk_free\<close> is a parameter that answers
  \<^term>\<open>None\<close> for anything but a live block.
\<close>

definition heatmap_aggregator_create :: "ptr \<Rightarrow> HeatmapEntry list option" where
  "heatmap_aggregator_create mem = do { a \<leftarrow> mem; Some [] }"

definition heatmap_aggregator_aggregate :: "HeatmapEntry list \<Rightarrow> HeatmapEntry \<Rightarrow> HeatmapEntry list" where
  "heatmap_aggregator_aggregate aggregator entry = AddType aggregator entry"

definition heatmap_dump_info ::
  "(HeatmapEntry list \<Rightarrow> HeatmapEntry list) \<Rightarrow> ptr \<Rightarrow> HeatmapEntry list \<Rightarrow>
    (string \<times> HeatmapEntry list) option" where
  "heatmap_dump_info srt mem aggregator = do {
     (serialized, aggregator) \<leftarrow> Serialize srt aggregator;
     a \<leftarrow> mem;
     Some (serialized, aggregator) }"

definition heatmap_aggregator_destroy :: "(ptr \<Rightarrow> unit option) \<Rightarrow> ptr \<Rightarrow> unit option" where
  "heatmap_aggregator_destroy jemk_free aggregator = jemk_free aggregator"

definition heatmap_free_info :: "(ptr \<Rightarrow> unit option) \<Rightarrow> ptr \<Rightarrow> unit option" where
  "heatmap_free_info jemk_free info = jemk_free info"

section \<open>Reading the dump back\<close>

text \<open>A reader of the format: hexadecimal numbers separated by commas and semicolons.\<close>

definition hex_val :: "char \<Rightarrow> nat option" where
  "hex_val c = (let n = of_char c :: nat in
     if 48 \<le> n \<and> n \<le> 57 then Some (n - 48) else if 97 \<le> n \<and> n \<le> 102 then Some (n - 87) else None)"

fun read_hex :: "nat \<Rightarrow> string \<Rightarrow> nat \<times> string" where
  "read_hex acc [] = (acc, [])"
| "read_hex acc (c # s) = (case hex_val c of None \<Rightarrow> (acc, c # s) | Some d \<Rightarrow> read_hex (16 * acc + d) s)"

lemma read_hex_length: "length (snd (read_hex acc s)) \<le> length s"
  by (induction acc s rule: read_hex.induct) (auto split: option.splits)

function read_entries :: "string \<Rightarrow> (nat \<times> nat) list option" where
  "read_entries s =
     (if s = '']'' @ [CHR 0x0A] then Some []
      else (case read_hex 0 s of (h, s1) \<Rightarrow>
        if s1 = [] \<or> hd s1 \<noteq> CHR '','' then None
        else (case read_hex 0 (tl s1) of (d, s2) \<Rightarrow>
          if s2 = [] \<or> hd s2 \<noteq> CHR '';'' then None
          else map_option ((#) (h, d)) (read_entries (tl s2)))))"
  by pat_completeness auto
termination
proof (relation "measure length", simp)
  fix s h s1 d s2
  assume a: "(h, s1) = read_hex 0 s" "\<not> (s1 = [] \<or> hd s1 \<noteq> CHR '','')" "(d, s2) = read_hex 0 (tl s1)"
    "\<not> (s2 = [] \<or> hd s2 \<noteq> CHR '';'')"
  have "length s1 \<le> length s" "length s2 \<le> length (tl s1)"
    using read_hex_length [of 0 s] read_hex_length [of 0 "tl s1"] by (simp_all flip: a(1) a(3))
  moreover have "0 < length s1" "0 < length s2" using a(2,4) by simp_all
  ultimately have "length (tl s2) < length s" by (simp only: length_tl)
  then show "(tl s2, s) \<in> measure length" by simp
qed

declare read_entries.simps [simp del]

lemma hex_val_digit: "n < 16 \<Longrightarrow> hex_val (hex_digit n) = Some n"
proof -
  have "list_all (\<lambda>n. hex_val (hex_digit n) = Some n) [0..<16]"
    by (simp add: upt_rec hex_val_def hex_digit_def Let_def)
  then show "n < 16 \<Longrightarrow> hex_val (hex_digit n) = Some n" by (simp add: list_all_iff)
qed

lemma read_hex_hex:
  assumes "s \<noteq> []" "hex_val (hd s) = None"
  shows "read_hex 0 (hex n @ s) = (n, s)"
proof -
  have "\<exists>k. read_hex acc (hex n @ t) = read_hex (16 ^ k * acc + n) t" for acc t
  proof (induction n arbitrary: t rule: hex.induct)
    case (1 n)
    show ?case
    proof (cases "n < 16")
      case True
      then show ?thesis by (intro exI [of _ 1]) (simp add: hex.simps hex_val_digit)
    next
      case False
      from 1 [OF False, of "hex_digit (n mod 16) # t"] obtain k
        where "read_hex acc (hex (n div 16) @ hex_digit (n mod 16) # t)
          = read_hex (16 ^ k * acc + n div 16) (hex_digit (n mod 16) # t)" by blast
      then have "read_hex acc (hex n @ t) = read_hex (16 * (16 ^ k * acc + n div 16) + n mod 16) t"
        using False by (subst hex.simps) (simp add: hex_val_digit)
      moreover have "16 * (16 ^ k * acc + n div 16) + n mod 16 = 16 ^ Suc k * acc + n"
        by (simp add: algebra_simps)
      ultimately show ?thesis by (intro exI [of _ "Suc k"]) (simp only:)
    qed
  qed
  from this [of 0 s] have "read_hex 0 (hex n @ s) = read_hex n s" by simp
  also have "\<dots> = (n, s)" using assms by (cases s) simp_all
  finally show ?thesis .
qed

lemma hex_hd: "\<exists>c cs. hex n = c # cs \<and> hex_val c \<noteq> None"
proof (induction n rule: hex.induct)
  case (1 n)
  show ?case
  proof (cases "n < 16")
    case True
    then show ?thesis by (simp add: hex.simps hex_val_digit)
  next
    case False
    with 1 show ?thesis by (subst hex.simps) auto
  qed
qed

lemma read_entries_step:
  assumes "read_hex 0 s = (h, CHR '','' # s1)" "read_hex 0 s1 = (d, CHR '';'' # s2)" "s \<noteq> '']'' @ [CHR 0x0A]"
  shows "read_entries s = map_option ((#) (h, d)) (read_entries s2)"
  using assms(3) by (subst read_entries.simps) (simp only: assms(1,2) prod.case list.sel if_False, simp)

lemma separators: "hex_val (CHR '','') = None" "hex_val (CHR '';'') = None" "hex_val (CHR '']'') = None"
  by (simp_all add: hex_val_def Let_def)

lemma read_entries_serialize:
  "read_entries (concat (map serialize_entry bs) @ '']'' @ [CHR 0x0A]) =
     Some (map (\<lambda>b. (unat (hb_hotness b), unat (hb_dram_to_total b))) bs)"
proof (induction bs)
  case (Cons b bs)
  define r where "r = concat (map serialize_entry bs) @ '']'' @ [CHR 0x0A]"
  define h d where "h = unat (hb_hotness b)" and "d = unat (hb_dram_to_total b)"
  have s: "concat (map serialize_entry (b # bs)) @ '']'' @ [CHR 0x0A] = hex h @ CHR '','' # hex d @ CHR '';'' # r"
    by (simp add: serialize_entry_def r_def h_def d_def)
  obtain c cs where c: "hex h = c # cs" "hex_val c \<noteq> None" using hex_hd by blast
  then have "c \<noteq> CHR '']''" using separators(3) by auto
  then have ne: "hex h @ CHR '','' # hex d @ CHR '';'' # r \<noteq> '']'' @ [CHR 0x0A]" using c(1) by simp
  have "read_entries (hex h @ CHR '','' # hex d @ CHR '';'' # r) = map_option ((#) (h, d)) (read_entries r)"
    by (rule read_entries_step [OF _ _ ne]) (rule read_hex_hex; simp add: separators)+
  then show ?case unfolding s using Cons.IH by (simp add: r_def h_def d_def)
next
  case Nil
  show ?case by (subst read_entries.simps) simp
qed

section \<open>Properties\<close>

lemma to_uint8_byte:
  assumes "0 \<le> r" "r \<le> 1"
  shows "\<exists>w. to_uint8 (Some (255 * r)) = Some w \<and> unat w = nat \<lfloor>255 * r\<rfloor>"
proof -
  have b: "0 \<le> \<lfloor>255 * r\<rfloor>" "\<lfloor>255 * r\<rfloor> < 256" using assms by (simp_all add: floor_less_iff)
  then have "unat (word_of_int \<lfloor>255 * r\<rfloor> :: 8 word) = nat \<lfloor>255 * r\<rfloor>"
    by (simp add: unsigned_of_int take_bit_int_eq_self)
  then show ?thesis using assms by (simp add: to_uint8_def)
qed

definition byte_of :: "real \<Rightarrow> nat" where
  "byte_of r = nat \<lfloor>255 * r\<rfloor>"

lemma normalize_all_run:
  assumes "0 < m" "\<forall>e\<in>set es. 0 \<le> he_hotness e \<and> he_hotness e \<le> m"
    and "\<forall>e\<in>set es. \<exists>r. dram_to_total e = Some r \<and> 0 \<le> r \<and> r \<le> 1"
  shows "\<exists>bs. normalize_all m es = Some bs \<and>
    map (\<lambda>b. (unat (hb_hotness b), unat (hb_dram_to_total b))) bs =
    map (\<lambda>e. (byte_of (he_hotness e / m), byte_of (the (dram_to_total e)))) es"
  using assms(2,3)
proof (induction es)
  case (Cons e es)
  then obtain bs where bs: "normalize_all m es = Some bs"
    "map (\<lambda>b. (unat (hb_hotness b), unat (hb_dram_to_total b))) bs =
     map (\<lambda>e. (byte_of (he_hotness e / m), byte_of (the (dram_to_total e)))) es" by auto
  from Cons.prems obtain r where r: "dram_to_total e = Some r" "0 \<le> r" "r \<le> 1" by auto
  have h: "0 \<le> he_hotness e / m" "he_hotness e / m \<le> 1" using Cons.prems(1) assms(1) by simp_all
  from to_uint8_byte [OF h] obtain hw where hw: "to_uint8 (Some (255 * (he_hotness e / m))) = Some hw"
    "unat hw = byte_of (he_hotness e / m)" by (auto simp: byte_of_def)
  from to_uint8_byte [OF r(2,3)] obtain dw where dw: "to_uint8 (Some (255 * r)) = Some dw"
    "unat dw = byte_of r" by (auto simp: byte_of_def)
  have "normalize_entry m e = Some \<lparr>hb_dram_to_total = dw, hb_hotness = hw\<rparr>"
    using assms(1) hw(1) dw(1) by (simp add: normalize_entry_def ddiv_def r(1))
  then have "normalize_all m (e # es) = Some (\<lparr>hb_dram_to_total = dw, hb_hotness = hw\<rparr> # bs)"
    using bs(1) by simp
  then show ?case using bs(2) hw(2) dw(2) r(1) by simp
qed simp

lemma sorted_max:
  assumes "sort_spec srt" "es \<noteq> []"
  shows "srt es \<noteq> []" "set (srt es) = set es" "\<forall>e\<in>set es. he_hotness e \<le> he_hotness (hd (srt es))"
proof -
  have m: "mset (srt es) = mset es" and so: "sorted_wrt (\<lambda>a b. \<not> compare_hotness_desc b a) (srt es)"
    using assms(1) by (auto simp: sort_spec_def)
  show st: "set (srt es) = set es" using m by (metis set_mset_mset)
  show ne: "srt es \<noteq> []" using m assms(2) by auto
  then obtain x xs where x: "srt es = x # xs" by (cases "srt es") auto
  show "\<forall>e\<in>set es. he_hotness e \<le> he_hotness (hd (srt es))"
    using so by (auto simp: x compare_hotness_desc_def simp flip: st)
qed

lemma serialize_run:
  assumes "sort_spec srt" "es \<noteq> []" "\<exists>e\<in>set es. 0 < he_hotness e" "\<forall>e\<in>set es. 0 \<le> he_hotness e"
    and "\<forall>e\<in>set es. \<exists>r. dram_to_total e = Some r \<and> 0 \<le> r \<and> r \<le> 1"
  defines "hmax \<equiv> he_hotness (hd (srt es))"
  shows "\<exists>bs. Serialize srt es = Some (''heatmap_data = ['' @ concat (map serialize_entry bs) @ '']'' @ [CHR 0x0A], []) \<and>
    map (\<lambda>b. (unat (hb_hotness b), unat (hb_dram_to_total b))) bs =
    map (\<lambda>e. (byte_of (he_hotness e / hmax), byte_of (the (dram_to_total e)))) (srt es)"
proof -
  note sm = sorted_max [OF assms(1,2)]
  have "0 < hmax" using assms(3) sm(3) unfolding hmax_def by (meson less_le_trans)
  from normalize_all_run [OF this, of "srt es"] assms(4,5) sm(2,3) obtain bs
    where "normalize_all hmax (srt es) = Some bs"
      "map (\<lambda>b. (unat (hb_hotness b), unat (hb_dram_to_total b))) bs =
       map (\<lambda>e. (byte_of (he_hotness e / hmax), byte_of (the (dram_to_total e)))) (srt es)"
    unfolding hmax_def by auto
  then show ?thesis using assms(2) by (auto simp: Serialize_def CalculateNormalizedEntries_def hmax_def)
qed

text \<open>
  C29: The dump can be read back.  When every type has a hotness of at least 0, some type has a
  positive one, and every type has a DRAM share between 0 and 1 (in particular not the 0/0 of
  a type without memory), the dump returns, lists every type once in descending order of
  hotness, and a reader of the text recovers the hotness relative to the hottest type and the
  share as the rounded-down multiples of 1/255 (quotients taken exactly).  Outside these conditions the conversion to a
  byte is undefined, and nothing is stated.
\<close>

theorem heatmap_dump_roundtrip:
  assumes "sort_spec srt" "\<forall>e\<in>set es. 0 \<le> he_hotness e" "\<exists>e\<in>set es. 0 < he_hotness e"
    and "\<forall>e\<in>set es. \<exists>r. dram_to_total e = Some r \<and> 0 \<le> r \<and> r \<le> 1"
  shows "\<exists>body. heatmap_dump_info srt (Some mem) (foldl heatmap_aggregator_aggregate [] es) =
      Some (''heatmap_data = ['' @ body, []) \<and>
    read_entries body = Some (map (\<lambda>e. (byte_of (he_hotness e / he_hotness (hd (srt es))),
      byte_of (the (dram_to_total e)))) (srt es)) \<and>
    mset (srt es) = mset es \<and> sorted_wrt (\<lambda>a b. he_hotness b \<le> he_hotness a) (srt es)"
proof -
  have "foldl heatmap_aggregator_aggregate xs es = xs @ es" for xs
    by (induction es arbitrary: xs) (simp_all add: heatmap_aggregator_aggregate_def AddType_def)
  then have ag: "foldl heatmap_aggregator_aggregate [] es = es" by simp
  have "es \<noteq> []" using assms(3) by auto
  from serialize_run [OF assms(1) this assms(3,2,4)] obtain bs
    where bs: "Serialize srt es = Some (''heatmap_data = ['' @ concat (map serialize_entry bs) @ '']'' @ [CHR 0x0A], [])"
      "map (\<lambda>b. (unat (hb_hotness b), unat (hb_dram_to_total b))) bs =
       map (\<lambda>e. (byte_of (he_hotness e / he_hotness (hd (srt es))), byte_of (the (dram_to_total e)))) (srt es)"
    by blast
  have dump: "heatmap_dump_info srt (Some mem) es =
      Some (''heatmap_data = ['' @ (concat (map serialize_entry bs) @ '']'' @ [CHR 0x0A]), [])"
    unfolding heatmap_dump_info_def bs(1) by (simp only: bind_Some prod.case)
  have srt: "mset (srt es) = mset es" "sorted_wrt (\<lambda>a b. he_hotness b \<le> he_hotness a) (srt es)"
    using assms(1) by (simp_all add: sort_spec_def compare_hotness_desc_def not_less)
  show ?thesis unfolding ag
    by (intro exI conjI, rule dump, rule read_entries_serialize [of bs, unfolded bs(2)], (rule srt)+)
qed

definition demo_sort :: "HeatmapEntry list \<Rightarrow> HeatmapEntry list" where
  "demo_sort es = sort_key (\<lambda>e. - he_hotness e) es"

lemma demo_sort_spec: "sort_spec demo_sort"
proof -
  have "sorted_wrt (\<lambda>a b. \<not> compare_hotness_desc b a) (demo_sort es)" for es
    using sorted_sort_key [of "\<lambda>e. - he_hotness e" es]
    by (simp add: demo_sort_def sorted_map compare_hotness_desc_def not_less)
  then show ?thesis by (simp add: sort_spec_def demo_sort_def)
qed

lemma heatmap_dump_roundtrip_witness:
  "\<exists>body. heatmap_dump_info demo_sort (Some 64) (foldl heatmap_aggregator_aggregate []
       [\<lparr>dram_to_total = Some 0, he_hotness = 20\<rparr>, \<lparr>dram_to_total = Some 1, he_hotness = 40\<rparr>]) =
     Some (''heatmap_data = ['' @ body, []) \<and> read_entries body = Some [(255, 255), (127, 0)]"
  using heatmap_dump_roundtrip [OF demo_sort_spec, of "[\<lparr>dram_to_total = Some 0, he_hotness = 20\<rparr>,
      \<lparr>dram_to_total = Some 1, he_hotness = 40\<rparr>]" 64]
  by (simp add: demo_sort_def byte_of_def)

end
