(* ===== verification/Tachanka.thy ===== *)
theory Tachanka
  imports Ranking_Correct Critnib_Api Ranking_Queue Heatmap
begin

text \<open>
  Component \<open>src/tachanka.c\<close>: the table of live blocks and of their allocation types, which
  feeds the ranking.  A block belongs to a type, the hash of its call stack; two critnibs
  index the blocks by address and the types by hash, two slabs hold the structures, and the
  static variables of the file are one record.  The build has \<open>CHECK_ADDED_SIZE\<close> and
  \<open>CRASH_ON_BLOCK_NOT_FOUND\<close> 0, \<open>PRINT_POLICY_LOG_TOUCH_STATISTICS\<close> and
  \<open>OFFLOAD_RANKING_OPS_TO_BACKGROUD_THREAD\<close> 1.

  The functions run in the background thread, one at a time.  Touch callbacks of the
  application are recorded in \<open>tk_calls\<close> in the order in which they are made.
\<close>

record tblock =
  tb_addr :: addr
  tb_size :: size_t
  tb_type :: ptr
  tb_is_hot :: bool

datatype Hotness = HOTNESS_HOT | HOTNESS_COLD | HOTNESS_NOT_FOUND

record tachanka =
  tblock_alloc :: slab_alloc
  ttype_alloc :: slab_alloc
  tk_blocks :: "addr \<rightharpoonup> tblock"
  tk_types :: "addr \<rightharpoonup> ttype"
  tk_ranking :: ranking
  ranking_event_buff :: event_buffer
  g_dramToTotalDesiredRatio :: double
  g_dramToTotalActualRatio :: double
  hash_to_type :: critnib
  addr_to_block :: critnib
  tk_initialized :: bool
  all_touches :: "64 word"
  successful_touches :: "64 word"
  touch_counter :: "64 word"
  tk_calls :: "(addr \<times> ptr) list"

text \<open>Writing a member of a type through its pointer.\<close>

definition upd_type :: "tachanka \<Rightarrow> addr \<Rightarrow> (ttype \<Rightarrow> ttype) \<Rightarrow> tachanka option" where
  "upd_type T t g = do { en \<leftarrow> tk_types T t; Some (T\<lparr>tk_types := (tk_types T)(t \<mapsto> g en)\<rparr>) }"

definition check_dram_total_ratio :: "double \<Rightarrow> unit option" where
  "check_dram_total_ratio ratio = c_assert (\<not> (dlt ratio 0 \<or> dgt ratio 1))"

definition HOTNESS_INITIAL :: real where
  "HOTNESS_INITIAL = of_nat (length EXPONENTIAL_COEFFS_VALS) * 10"

text \<open>\<open>memset(t, 0, sizeof(t[0]))\<close> and the assignments that follow.\<close>

definition new_ttype :: "64 word \<Rightarrow> ttype" where
  "new_ttype hash = \<lparr>tt_hash = hash, num_allocs = 0, total_size = 0, dram_size = 0, tt_t2 = 0,
     tt_t1 = 0, tt_t0 = 0, touchCb = NULL, touchCbArg = NULL, tt_f = 0,
     timestamp_state = TIMESTAMP_NOT_SET, hotness_history_coeffs = replicate 4 0\<rparr>"

definition find_or_add_type :: "os \<Rightarrow> tachanka \<Rightarrow> 64 word \<Rightarrow> (addr \<times> tachanka) option" where
  "find_or_add_type os T hash = do {
     p \<leftarrow> critnib_get (hash_to_type T) hash;
     (case p of
        Some t \<Rightarrow> Some (t, T)
      | None \<Rightarrow> do {
          (q, al) \<leftarrow> slab_alloc_malloc os (ttype_alloc T);
          t \<leftarrow> q;
          let T = T\<lparr>ttype_alloc := al, tk_types := (tk_types T)(t \<mapsto> new_ttype hash)\<rparr>;
          (ret, c) \<leftarrow> critnib_insert os (hash_to_type T) hash (Some t) False;
          let T = T\<lparr>hash_to_type := c\<rparr>;
          (t, T) \<leftarrow> (if ret = EEXIST then do {
             al \<leftarrow> slab_alloc_free (ttype_alloc T) (Some t);
             let T = T\<lparr>ttype_alloc := al\<rparr>;
             r \<leftarrow> critnib_get (hash_to_type T) hash;
             t \<leftarrow> r;
             Some (t, T) } else Some (t, T));
          T \<leftarrow> upd_type T t (tt_f_update (\<lambda>_. HOTNESS_INITIAL));
          Some (t, T) }) }"

definition register_block :: "os \<Rightarrow> tachanka \<Rightarrow> 64 word \<Rightarrow> addr \<Rightarrow> size_t \<Rightarrow> bool \<Rightarrow> tachanka option" where
  "register_block os T hash a sz is_hot = do {
     (t, T) \<leftarrow> find_or_add_type os T hash;
     T \<leftarrow> upd_type T t (\<lambda>en. en\<lparr>num_allocs := num_allocs en + 1, total_size := total_size en + sz,
       dram_size := (if is_hot then dram_size en + sz else dram_size en)\<rparr>);
     (q, al) \<leftarrow> slab_alloc_malloc os (tblock_alloc T);
     bl \<leftarrow> q;
     let T = T\<lparr>tblock_alloc := al, tk_blocks := (tk_blocks T)(bl \<mapsto>
       \<lparr>tb_addr = a, tb_size = sz, tb_type = Some t, tb_is_hot = is_hot\<rparr>)\<rparr>;
     (ret, c) \<leftarrow> critnib_insert os (addr_to_block T) a (Some bl) False;
     Some (T\<lparr>addr_to_block := c\<rparr>) }"

definition realloc_block :: "os \<Rightarrow> tachanka \<Rightarrow> addr \<Rightarrow> addr \<Rightarrow> size_t \<Rightarrow> tachanka option" where
  "realloc_block os T a new_addr sz = do {
     (p, c) \<leftarrow> critnib_remove (addr_to_block T) a;
     let T = T\<lparr>addr_to_block := c\<rparr>;
     (case p of
        None \<Rightarrow> Some T
      | Some bl \<Rightarrow> do {
          b \<leftarrow> tk_blocks T bl;
          let T = T\<lparr>tk_blocks := (tk_blocks T)(bl \<mapsto> b\<lparr>tb_addr := new_addr\<rparr>)\<rparr>;
          t \<leftarrow> tb_type b;
          T \<leftarrow> upd_type T t (\<lambda>en. en\<lparr>total_size := total_size en - tb_size b + sz\<rparr>);
          (ret, c) \<leftarrow> critnib_insert os (addr_to_block T) new_addr (Some bl) False;
          Some (T\<lparr>addr_to_block := c\<rparr>) }) }"

definition register_block_in_ranking :: "os \<Rightarrow> tachanka \<Rightarrow> addr \<Rightarrow> size_t \<Rightarrow> tachanka option" where
  "register_block_in_ranking os T a sz = do {
     p \<leftarrow> critnib_find_le (addr_to_block T) a;
     (case p of
        None \<Rightarrow> Some T
      | Some bl \<Rightarrow> do {
          b \<leftarrow> tk_blocks T bl;
          t \<leftarrow> tb_type b;
          en \<leftarrow> tk_types T t;
          R \<leftarrow> ranking_add os (tk_ranking T) (tt_f en) sz;
          Some (T\<lparr>tk_ranking := R\<rparr>) }) }"

text \<open>
  The assertions of \<open>unregister_block\<close> compare unsigned values with 0 and always hold.  The
  released structure is reset and goes back to its slab.
\<close>

definition unregister_block :: "os \<Rightarrow> tachanka \<Rightarrow> addr \<Rightarrow> tachanka option" where
  "unregister_block os T a = do {
     (p, c) \<leftarrow> critnib_remove (addr_to_block T) a;
     let T = T\<lparr>addr_to_block := c\<rparr>;
     (case p of
        None \<Rightarrow> Some T
      | Some bl \<Rightarrow> do {
          b \<leftarrow> tk_blocks T bl;
          t \<leftarrow> tb_type b;
          T \<leftarrow> upd_type T t (\<lambda>en. en\<lparr>num_allocs := num_allocs en - 1,
            total_size := total_size en - tb_size b,
            dram_size := (if tb_is_hot b then dram_size en - tb_size b else dram_size en)\<rparr>);
          en \<leftarrow> tk_types T t;
          R \<leftarrow> ranking_remove os (tk_ranking T) (tt_f en) (tb_size b);
          let T = T\<lparr>tk_ranking := R, tk_blocks := (tk_blocks T)(bl \<mapsto>
            b\<lparr>tb_addr := 0, tb_size := 0, tb_type := NULL\<rparr>)\<rparr>;
          al \<leftarrow> slab_alloc_free (tblock_alloc T) (Some bl);
          Some (T\<lparr>tblock_alloc := al\<rparr>) }) }"

definition hotness_class :: "thresh_t \<Rightarrow> real \<Rightarrow> Hotness" where
  "hotness_class thresh f =
     (if \<not> threshValid thresh \<or> threshVal thresh = Some f then HOTNESS_NOT_FOUND
      else if dlt (threshVal thresh) f then HOTNESS_HOT else HOTNESS_COLD)"

definition tachanka_get_hotness_type :: "tachanka \<Rightarrow> addr \<Rightarrow> Hotness option" where
  "tachanka_get_hotness_type T a = do {
     p \<leftarrow> critnib_find_le (addr_to_block T) a;
     (case p of
        None \<Rightarrow> Some HOTNESS_NOT_FOUND
      | Some bl \<Rightarrow> do {
          b \<leftarrow> tk_blocks T bl;
          (if a \<ge> tb_addr b + tb_size b then Some HOTNESS_NOT_FOUND
           else do {
             t \<leftarrow> tb_type b;
             en \<leftarrow> tk_types T t;
             Some (hotness_class (ranking_get_hot_threshold (tk_ranking T)) (tt_f en)) }) }) }"

definition tachanka_get_hot_thresh :: "tachanka \<Rightarrow> double" where
  "tachanka_get_hot_thresh T = threshVal (ranking_get_hot_threshold (tk_ranking T))"

text \<open>Here the cold case is asserted: a threshold that is not a number aborts.\<close>

definition tachanka_get_hotness_type_hash :: "tachanka \<Rightarrow> 64 word \<Rightarrow> Hotness option" where
  "tachanka_get_hotness_type_hash T hash = do {
     p \<leftarrow> critnib_get (hash_to_type T) hash;
     (case p of
        None \<Rightarrow> Some HOTNESS_NOT_FOUND
      | Some t \<Rightarrow> do {
          en \<leftarrow> tk_types T t;
          let thresh = ranking_get_hot_threshold (tk_ranking T);
          (if \<not> threshValid thresh \<or> threshVal thresh = Some (tt_f en) then Some HOTNESS_NOT_FOUND
           else if dlt (threshVal thresh) (tt_f en) then Some HOTNESS_HOT
           else do {
             v \<leftarrow> threshVal thresh;
             c_assert (tt_f en < v);
             Some HOTNESS_COLD }) }) }"

section \<open>Touches\<close>

definition PRINT_TOUCH_STATISTICS_INTERVAL :: "64 word" where
  "PRINT_TOUCH_STATISTICS_INTERVAL = 100000"

definition count_touch :: "ptr \<Rightarrow> tachanka \<Rightarrow> tachanka" where
  "count_touch bl T = T\<lparr>all_touches := all_touches T + 1,
     successful_touches := (if bl \<noteq> NULL then successful_touches T + 1 else successful_touches T),
     touch_counter := (if touch_counter T + 1 > PRINT_TOUCH_STATISTICS_INTERVAL then 0
                       else touch_counter T + 1)\<rparr>"

text \<open>\<open>total_size_all_types\<close> is the result of \<open>memtier_kind_get_total_size()\<close>.\<close>

definition touch :: "os \<Rightarrow> size_t \<Rightarrow> tachanka \<Rightarrow> addr \<Rightarrow> 64 word \<Rightarrow> int \<Rightarrow> tachanka option" where
  "touch os total_size_all_types T a timestamp from_malloc = do {
     p \<leftarrow> critnib_find_le (addr_to_block T) a;
     let T = count_touch p T;
     (case p of
        None \<Rightarrow> do { c_assert (from_malloc = 0); Some T }
      | Some bl \<Rightarrow> do {
          b \<leftarrow> tk_blocks T bl;
          (if a \<ge> tb_addr b + tb_size b then do { c_assert (from_malloc = 0); Some T }
           else do {
             t \<leftarrow> tb_type b;
             en \<leftarrow> tk_types T t;
             (if total_size en > 0 then
                (if from_malloc \<noteq> 0 then None
                 else do {
                   let hotness = 1 * real (unat total_size_all_types) / real (unat (total_size en));
                   (en, call, R) \<leftarrow> ranking_touch os (tk_ranking T) en timestamp hotness;
                   Some (T\<lparr>tk_ranking := R, tk_types := (tk_types T)(t \<mapsto> en),
                     tk_calls := tk_calls T @ (case call of None \<Rightarrow> [] | Some cb \<Rightarrow> [cb])\<rparr>) })
              else Some T) }) }) }"

section \<open>Set-up and interface\<close>

text \<open>
  What \<open>tachanka_init\<close> gets from its environment: the system, the two blocks for the critnibs
  with the addresses of the slabs inside them, the two blocks of the ranking with their
  uninitialised parts, the memory of the event queue, and the addresses of the static slabs.
  \<open>read_maps\<close> only prepares the hashing of call stacks.
\<close>

record boot =
  bt_os :: os
  bt_blocks_crit :: "ptr \<times> addr \<times> addr"
  bt_types_crit :: "ptr \<times> addr \<times> addr"
  bt_ranking :: "ptr \<times> ptr \<times> size_t \<times> ranking_controller"
  bt_queue_entries :: "size_t \<Rightarrow> lq_entry list option"
  bt_queue_data :: "size_t \<Rightarrow> EventEntry list option"
  bt_ttype_alloc_at :: addr
  bt_tblock_alloc_at :: addr

definition tachanka_init :: "boot \<Rightarrow> tachanka \<Rightarrow> real \<Rightarrow> size_t \<Rightarrow> tachanka option" where
  "tachanka_init bt T old_window_hotness_weight event_queue_size = do {
     let os = bt_os bt;
     (ret, al) \<leftarrow> slab_alloc_init os (os_mutex_init os) (bt_ttype_alloc_at bt) 120 0;
     c_assert (ret = 0);
     (ret, bal) \<leftarrow> slab_alloc_init os (os_mutex_init os) (bt_tblock_alloc_at bt) 32 0;
     c_assert (ret = 0);
     let (p, la, na) = bt_blocks_crit bt;
     cb \<leftarrow> critnib_new os p la na;
     let (p, la, na) = bt_types_crit bt;
     ct \<leftarrow> critnib_new os p la na;
     let (mem, tmem, junk, c0) = bt_ranking bt;
     R \<leftarrow> ranking_create os (os_mutex_init os) (os_mutex_init os) mem tmem junk c0 old_window_hotness_weight;
     q \<leftarrow> ranking_event_init (bt_queue_entries bt) (bt_queue_data bt) event_queue_size;
     Some (T\<lparr>ttype_alloc := al, tblock_alloc := bal, addr_to_block := cb, hash_to_type := ct,
       tk_ranking := R, ranking_event_buff := q, tk_initialized := True\<rparr>) }"

definition tachanka_set_dram_total_ratio :: "tachanka \<Rightarrow> double \<Rightarrow> double \<Rightarrow> tachanka option" where
  "tachanka_set_dram_total_ratio T desired actual = do {
     check_dram_total_ratio desired;
     check_dram_total_ratio actual;
     Some (T\<lparr>g_dramToTotalDesiredRatio := desired, g_dramToTotalActualRatio := actual\<rparr>) }"

definition tachanka_update_threshold :: "tachanka \<Rightarrow> tachanka option" where
  "tachanka_update_threshold T = do {
     (th, R) \<leftarrow> ranking_calculate_hot_threshold_dram_total (tk_ranking T)
        (g_dramToTotalDesiredRatio T) (g_dramToTotalActualRatio T);
     Some (T\<lparr>tk_ranking := R\<rparr>) }"

text \<open>The results \<open>r\<close>, \<open>r1\<close>, \<open>r2\<close> are those of the system calls in the slabs.\<close>

definition tachanka_destroy ::
  "int \<Rightarrow> int \<Rightarrow> int \<Rightarrow> (ptr \<Rightarrow> unit option) \<Rightarrow> addr \<Rightarrow> tachanka \<Rightarrow> tachanka option" where
  "tachanka_destroy r r1 r2 jemk_free buff_at T = do {
     let T = T\<lparr>tk_initialized := False\<rparr>;
     ranking_destroy r r1 r2 (tk_ranking T);
     q \<leftarrow> ranking_event_destroy jemk_free buff_at (ranking_event_buff T);
     cb \<leftarrow> critnib_delete r r1 r2 (addr_to_block T);
     ct \<leftarrow> critnib_delete r r1 r2 (hash_to_type T);
     slab_alloc_destroy r r1 r2 (ttype_alloc T);
     slab_alloc_destroy r r1 r2 (tblock_alloc T);
     Some (T\<lparr>ranking_event_buff := q, addr_to_block := cb, hash_to_type := ct\<rparr>) }"

definition tachanka_get_addr_hotness :: "tachanka \<Rightarrow> addr \<Rightarrow> real option" where
  "tachanka_get_addr_hotness T a = do {
     p \<leftarrow> critnib_find_le (addr_to_block T) a;
     (case p of
        None \<Rightarrow> Some (-1)
      | Some bl \<Rightarrow> do {
          b \<leftarrow> tk_blocks T bl;
          t \<leftarrow> tb_type b;
          en \<leftarrow> tk_types T t;
          Some (tt_f en) }) }"

definition tachanka_set_touch_callback :: "tachanka \<Rightarrow> addr \<Rightarrow> ptr \<Rightarrow> ptr \<Rightarrow> (int \<times> tachanka) option" where
  "tachanka_set_touch_callback T a cb arg = do {
     p \<leftarrow> critnib_find_le (addr_to_block T) a;
     (case p of
        None \<Rightarrow> Some (-1, T)
      | Some bl \<Rightarrow> do {
          b \<leftarrow> tk_blocks T bl;
          t \<leftarrow> tb_type b;
          T \<leftarrow> upd_type T t (ranking_set_touch_callback cb arg);
          Some (0, T) }) }"

definition tachanka_ranking_event_push :: "tachanka \<Rightarrow> EventEntry \<Rightarrow> (bool \<times> tachanka) option" where
  "tachanka_ranking_event_push T event = do {
     c_assert (tk_initialized T);
     (ret, q) \<leftarrow> ranking_event_push (ranking_event_buff T) event;
     Some (ret, T\<lparr>ranking_event_buff := q\<rparr>) }"

definition tachanka_ranking_event_pop ::
  "tachanka \<Rightarrow> EventEntry \<Rightarrow> (bool \<times> EventEntry \<times> tachanka) option" where
  "tachanka_ranking_event_pop T event = do {
     c_assert (tk_initialized T);
     (ret, event, q) \<leftarrow> ranking_event_pop (ranking_event_buff T) event;
     Some (ret, event, T\<lparr>ranking_event_buff := q\<rparr>) }"

text \<open>
  The heat map.  The function that \<open>critnib_iter\<close> calls reads a type through its pointer; a
  dangling pointer makes the collected result \<^term>\<open>None\<close>.
\<close>

definition aggregate_ttypes :: "tachanka \<Rightarrow> 64 word \<Rightarrow> ptr \<Rightarrow> HeatmapEntry list option \<Rightarrow>
    int \<times> HeatmapEntry list option" where
  "aggregate_ttypes T key value privdata = (0, do {
     aggregator \<leftarrow> privdata;
     t \<leftarrow> value;
     en \<leftarrow> tk_types T t;
     Some (heatmap_aggregator_aggregate aggregator
       \<lparr>dram_to_total = ddiv (real (unat (dram_size en))) (real (unat (total_size en))),
        he_hotness = tt_f en\<rparr>) })"

definition tachanka_dump_heatmap ::
  "(HeatmapEntry list \<Rightarrow> HeatmapEntry list) \<Rightarrow> (ptr \<Rightarrow> unit option) \<Rightarrow> ptr \<Rightarrow> ptr \<Rightarrow> tachanka
    \<Rightarrow> string option option" where
  "tachanka_dump_heatmap srt jemk_free mem infomem T =
     (if \<not> tk_initialized T then Some None
      else do {
        aggregator \<leftarrow> heatmap_aggregator_create mem;
        aggregator \<leftarrow> critnib_iter (hash_to_type T) 0 (-1) (aggregate_ttypes T) (Some aggregator);
        (info, aggregator) \<leftarrow> heatmap_dump_info srt infomem aggregator;
        heatmap_free_info jemk_free infomem;
        heatmap_aggregator_destroy jemk_free mem;
        Some (Some info) })"

text \<open>Operations that the source leaves to be written again.\<close>

definition tachanka_get_obj_hotness :: "int \<Rightarrow> real" where
  "tachanka_get_obj_hotness sz = -1"

definition tachanka_ranking_touch_all :: "tachanka \<Rightarrow> 64 word \<Rightarrow> real \<Rightarrow> tachanka" where
  "tachanka_ranking_touch_all T timestamp add_hotness = T"

definition tachanka_get_frequency :: "size_t \<Rightarrow> real" where
  "tachanka_get_frequency index = 0"

definition tachanka_get_timestamp_state :: "size_t \<Rightarrow> TimestampState" where
  "tachanka_get_timestamp_state index = TIMESTAMP_NOT_SET"

end
