(* ===== verification/Ranking_Interface.thy ===== *)
theory Ranking_Interface
  imports Ranking_Correct
begin

text \<open>
  What a user of the ranking relies on: sizes by hotness, with addition, removal and the
  move of a type to its new hotness.  The laws are stated once as a locale and discharged
  for the functions of \<open>src/ranking.cpp\<close>.
\<close>

definition move_size :: "(real \<Rightarrow> size_t) \<Rightarrow> real \<Rightarrow> real \<Rightarrow> size_t \<Rightarrow> real \<Rightarrow> size_t" where
  "move_size m q q' n = (let m1 = m(q := m q - n) in m1(q' := m1 q' + n))"

locale hotness_sizes =
  fixes rep :: "'s \<Rightarrow> (real \<Rightarrow> size_t) \<Rightarrow> bool"
    and room :: "'s \<Rightarrow> bool"
    and keeps :: "'s \<Rightarrow> 's \<Rightarrow> bool"
    and add :: "'s \<Rightarrow> real \<Rightarrow> size_t \<Rightarrow> 's option"
    and remove :: "'s \<Rightarrow> real \<Rightarrow> size_t \<Rightarrow> 's option"
    and touched :: "'s \<Rightarrow> ttype \<Rightarrow> 64 word \<Rightarrow> real \<Rightarrow> (ttype \<times> (addr \<times> ptr) option \<times> 's) option"
  assumes add_ok: "rep s m \<Longrightarrow> room s \<Longrightarrow>
      \<exists>s'. add s h n = Some s' \<and> rep s' (m(h := m h + n)) \<and> keeps s s'"
    and remove_ok: "rep s m \<Longrightarrow> \<exists>s'. remove s h n = Some s' \<and>
      rep s' (if m h = 0 then m else m(h := m h - n)) \<and> keeps s s' \<and> (room s \<longrightarrow> room s')"
    and touch_ok: "rep s m \<Longrightarrow> room s \<Longrightarrow> coeffs_ok (hotness_history_coeffs en) \<Longrightarrow> 0 \<le> hot \<Longrightarrow>
      (m (tt_f en) = 0 \<Longrightarrow> total_size en = 0) \<Longrightarrow>
      \<exists>en' call s'. touched s en ts hot = Some (en', call, s') \<and>
        ranking_touch_entry_internal en ts hot = Some (en', call) \<and>
        rep s' (move_size m (tt_f en) (tt_f en') (min (total_size en) (m (tt_f en)))) \<and> keeps s s'"
begin

lemma remove_covered:
  assumes "rep s m" "n \<le> m h"
  shows "\<exists>s'. remove s h n = Some s' \<and> rep s' (m(h := m h - n)) \<and> keeps s s' \<and> (room s \<longrightarrow> room s')"
proof -
  have "(if m h = 0 then m else m(h := m h - n)) = m(h := m h - n)"
    using assms(2) by (auto simp: fun_upd_idem)
  with remove_ok [OF assms(1), of h n] show ?thesis by simp
qed

lemma touch_covered:
  assumes "rep s m" "room s" "coeffs_ok (hotness_history_coeffs en)" "0 \<le> hot"
    and "total_size en \<le> m (tt_f en)"
  shows "\<exists>en' call s'. touched s en ts hot = Some (en', call, s') \<and>
    ranking_touch_entry_internal en ts hot = Some (en', call) \<and>
    rep s' (move_size m (tt_f en) (tt_f en') (total_size en)) \<and> keeps s s'"
proof -
  have "min (total_size en) (m (tt_f en)) = total_size en" using assms(5) by (rule min_absorb1)
  moreover have "m (tt_f en) = 0 \<Longrightarrow> total_size en = 0" using assms(5) by simp
  ultimately show ?thesis using touch_ok [OF assms(1-4), of ts] by metis
qed

end

lemma ranking_remove_room:
  assumes inv: "ranking_inv R es" and room: "ranking_room os R" and rm: "ranking_remove os R h s = Some R'"
  shows "ranking_room os R'"
proof (cases "s \<noteq> 0 \<and> (\<exists>e\<in>set es. quantifiedHotness (fst e) = h)")
  case True
  from take_out [OF inv, of h] True obtain v T es'
    where v: "wre_remove (entries R) (lookup_key h) = Some (Some v, T)" "taken R T v es'"
      "\<forall>os. tree_room os T" by auto
  from rm True v(1) have "put_back os (R\<lparr>entries := T\<rparr>) (v\<lparr>ah_size := ah_size v - s\<rparr>) = Some R'"
    by (simp add: ranking_remove_def)
  from put_back_room [OF v(2,1) inv room _ this] v(3) show ?thesis by blast
next
  case False
  have "R\<lparr>entries := entries R\<rparr> = R" by simp
  then have "R' = R" using False take_out [OF inv, of h] rm
    by (cases "s = 0") (auto simp: ranking_remove_def)
  then show ?thesis using room by simp
qed

interpretation rank: hotness_sizes ranking_rep "ranking_room os" same_settings "ranking_add os"
    "ranking_remove os" "ranking_touch os" for os
proof (unfold_locales, goal_cases)
  case (1 s m h n)
  then obtain es where "ranking_inv s es" "m = size_at es" by (auto simp: ranking_rep_def)
  with ranking_add_run [of s es h os n] 1(2) show ?case by (blast intro: ranking_repI)
next
  case (2 s m h n)
  then obtain es where es: "ranking_inv s es" "m = size_at es" by (auto simp: ranking_rep_def)
  from ranking_remove_run [OF es(1), of os h n] obtain R' es' where R': "ranking_remove os s h n = Some R'"
    "ranking_inv R' es'" "size_at es' = (if m h = 0 then m else m(h := m h - n))" "same_settings s R'"
    unfolding es(2) by blast
  with ranking_remove_room [OF es(1) _ R'(1)] show ?case by (blast intro: ranking_repI)
next
  case (3 s m en hot ts)
  then obtain es where es: "ranking_inv s es" "m = size_at es" by (auto simp: ranking_rep_def)
  from ranking_touch_run [OF es(1) 3(2-4), of ts, folded es(2)] 3(5) obtain en' call R' es'
    where t: "ranking_touch os s en ts hot = Some (en', call, R')" "ranking_inv R' es'"
      "size_at es' = move_size m (tt_f en) (tt_f en') (min (total_size en) (m (tt_f en)))"
      "same_settings s R'" "ranking_touch_entry_internal en ts hot = Some (en', call)"
    by (auto simp: move_size_def Let_def)
  then show ?case by (blast intro: ranking_repI)
qed

end
