(* ===== verification/Tachanka_Spec.thy ===== *)
theory Tachanka_Spec
  imports Tachanka Ranking_Interface
begin

text \<open>
  What \<open>src/tachanka.c\<close> is for, without pointers: a map of live blocks, a map of types by
  hash, and the size of all blocks by the hotness of their type.  \<open>acct\<close> is the accounting
  that ties the three together; every event keeps it.
\<close>

datatype sblock = SBlock (sb_hash: "64 word") (sb_size: size_t) (sb_hot: bool)

record tk_spec =
  sp_blocks :: "addr \<rightharpoonup> sblock"
  sp_types :: "64 word \<rightharpoonup> ttype"
  sp_weight :: "real \<Rightarrow> size_t"
  sp_calls :: "(addr \<times> ptr) list"

definition type_or_new :: "64 word \<Rightarrow> ttype option \<Rightarrow> ttype" where
  "type_or_new hash found = (case found of Some en \<Rightarrow> en | None \<Rightarrow> (new_ttype hash)\<lparr>tt_f := HOTNESS_INITIAL\<rparr>)"

definition grow_type :: "size_t \<Rightarrow> bool \<Rightarrow> ttype \<Rightarrow> ttype" where
  "grow_type sz hot en = en\<lparr>num_allocs := num_allocs en + 1, total_size := total_size en + sz,
     dram_size := (if hot then dram_size en + sz else dram_size en)\<rparr>"

definition shrink_type :: "size_t \<Rightarrow> bool \<Rightarrow> ttype \<Rightarrow> ttype" where
  "shrink_type sz hot en = en\<lparr>num_allocs := num_allocs en - 1, total_size := total_size en - sz,
     dram_size := (if hot then dram_size en - sz else dram_size en)\<rparr>"

definition spec_create :: "64 word \<Rightarrow> addr \<Rightarrow> size_t \<Rightarrow> bool \<Rightarrow> tk_spec \<Rightarrow> tk_spec" where
  "spec_create hash a sz hot s =
     (let en = type_or_new hash (sp_types s hash)
      in s\<lparr>sp_blocks := (sp_blocks s)(a \<mapsto> SBlock hash sz hot),
           sp_types := (sp_types s)(hash \<mapsto> grow_type sz hot en),
           sp_weight := (sp_weight s)(tt_f en := sp_weight s (tt_f en) + sz)\<rparr>)"

definition spec_destroy :: "addr \<Rightarrow> tk_spec \<Rightarrow> tk_spec" where
  "spec_destroy a s = (case sp_blocks s a of
     None \<Rightarrow> s
   | Some b \<Rightarrow> (case sp_types s (sb_hash b) of
        None \<Rightarrow> s
      | Some en \<Rightarrow> s\<lparr>sp_blocks := (sp_blocks s)(a := None),
           sp_types := (sp_types s)(sb_hash b \<mapsto> shrink_type (sb_size b) (sb_hot b) en),
           sp_weight := (sp_weight s)(tt_f en := sp_weight s (tt_f en) - sb_size b)\<rparr>))"

text \<open>The block at or below an address, with its address, and the block that contains it.\<close>

definition block_below :: "tk_spec \<Rightarrow> addr \<Rightarrow> (addr \<times> sblock) option" where
  "block_below s a = do { k \<leftarrow> floor_key (sp_blocks s) a; b \<leftarrow> sp_blocks s k; Some (k, b) }"

definition block_at :: "tk_spec \<Rightarrow> addr \<Rightarrow> sblock option" where
  "block_at s a = do { (k, b) \<leftarrow> block_below s a; (if a < k + sb_size b then Some b else None) }"

definition spec_touch :: "size_t \<Rightarrow> addr \<Rightarrow> 64 word \<Rightarrow> tk_spec \<Rightarrow> tk_spec" where
  "spec_touch all_sizes a ts s = (case block_at s a of
     None \<Rightarrow> s
   | Some b \<Rightarrow> (case sp_types s (sb_hash b) of
        None \<Rightarrow> s
      | Some en \<Rightarrow>
          if total_size en = 0 then s
          else (case ranking_touch_entry_internal en ts
                  (real (unat all_sizes) / real (unat (total_size en))) of
              None \<Rightarrow> s
            | Some (en', call) \<Rightarrow>
                s\<lparr>sp_types := (sp_types s)(sb_hash b \<mapsto> en'),
                  sp_weight := move_size (sp_weight s) (tt_f en) (tt_f en') (total_size en),
                  sp_calls := sp_calls s @ (case call of None \<Rightarrow> [] | Some cb \<Rightarrow> [cb])\<rparr>)))"

definition spec_callback :: "addr \<Rightarrow> ptr \<Rightarrow> ptr \<Rightarrow> tk_spec \<Rightarrow> tk_spec" where
  "spec_callback a cb arg s = (case block_below s a of
     None \<Rightarrow> s
   | Some (k, b) \<Rightarrow> (case sp_types s (sb_hash b) of
        None \<Rightarrow> s
      | Some en \<Rightarrow> s\<lparr>sp_types := (sp_types s)(sb_hash b \<mapsto> ranking_set_touch_callback cb arg en)\<rparr>))"

text \<open>A reallocation forgets the type: the new block gets the hash 0.\<close>

primrec spec_event :: "size_t \<Rightarrow> EventEntry \<Rightarrow> tk_spec \<Rightarrow> tk_spec" where
  "spec_event all_sizes (EVENT_CREATE_ADD hash a sz hot) s = spec_create hash a sz hot s"
| "spec_event all_sizes (EVENT_DESTROY_REMOVE a sz) s = spec_destroy a s"
| "spec_event all_sizes (EVENT_REALLOC a a' sz sz' hot) s = spec_create 0 a' sz' hot (spec_destroy a s)"
| "spec_event all_sizes (EVENT_TOUCH a ts) s = spec_touch all_sizes a ts s"
| "spec_event all_sizes (EVENT_SET_TOUCH_CALLBACK a cb arg) s = spec_callback a cb arg s"

section \<open>Sums over the live blocks\<close>

definition nsum :: "('b \<Rightarrow> nat) \<Rightarrow> (addr \<rightharpoonup> 'b) \<Rightarrow> nat" where
  "nsum g B = (\<Sum>a\<in>dom B. g (the (B a)))"

lemma nsum_insert:
  assumes "finite (dom B)" "B a = None"
  shows "nsum g (B(a \<mapsto> b)) = nsum g B + g b"
proof -
  have "(\<Sum>x\<in>dom B. g (the ((B(a \<mapsto> b)) x))) = (\<Sum>x\<in>dom B. g (the (B x)))"
    using assms(2) by (intro sum.cong) auto
  then show ?thesis using assms by (simp add: nsum_def domIff)
qed

lemma nsum_remove:
  assumes "finite (dom B)" "B a = Some b"
  shows "nsum g B = nsum g (B(a := None)) + g b"
proof -
  have "finite (dom (B(a := None)))" using assms(1) by simp
  from nsum_insert [OF this, of a g b] assms(2) show ?thesis by (simp add: fun_upd_idem map_upd_triv)
qed

lemma nsum_cong:
  assumes "\<And>a b. B a = Some b \<Longrightarrow> g b = g' b"
  shows "nsum g B = nsum g' B"
  unfolding nsum_def using assms by (intro sum.cong) auto

lemma nsum_mono:
  assumes "\<And>a b. B a = Some b \<Longrightarrow> g b \<le> g' b"
  shows "nsum g B \<le> nsum g' B"
  unfolding nsum_def using assms by (intro sum_mono) auto

lemma nsum_add: "nsum (\<lambda>b. g b + g' b) B = nsum g B + nsum g' B"
  by (simp add: nsum_def sum.distrib)

lemma nsum_0: "nsum (\<lambda>b. 0) B = 0"
  by (simp add: nsum_def)

lemma nsum_empty [simp]: "nsum g Map.empty = 0"
  by (simp add: nsum_def)

text \<open>The contributions of a block to the count, size and DRAM share of a type, and to a hotness.\<close>

definition cnt_of :: "64 word \<Rightarrow> sblock \<Rightarrow> nat" where
  "cnt_of h b = (if sb_hash b = h then 1 else 0)"

definition size_of :: "64 word \<Rightarrow> sblock \<Rightarrow> nat" where
  "size_of h b = (if sb_hash b = h then unat (sb_size b) else 0)"

definition dram_of :: "64 word \<Rightarrow> sblock \<Rightarrow> nat" where
  "dram_of h b = (if sb_hash b = h \<and> sb_hot b then unat (sb_size b) else 0)"

definition hotness_of :: "(64 word \<rightharpoonup> ttype) \<Rightarrow> real \<Rightarrow> sblock \<Rightarrow> nat" where
  "hotness_of M q b = (if tt_f (the (M (sb_hash b))) = q then unat (sb_size b) else 0)"

definition all_of :: "sblock \<Rightarrow> nat" where
  "all_of b = unat (sb_size b)"

definition type_acct :: "(addr \<rightharpoonup> sblock) \<Rightarrow> 64 word \<Rightarrow> ttype \<Rightarrow> bool" where
  "type_acct B h en \<longleftrightarrow> tt_hash en = h \<and> coeffs_ok (hotness_history_coeffs en) \<and>
     num_allocs en = of_nat (nsum (cnt_of h) B) \<and> total_size en = of_nat (nsum (size_of h) B) \<and>
     dram_size en = of_nat (nsum (dram_of h) B)"

definition acct :: "tk_spec \<Rightarrow> bool" where
  "acct s \<longleftrightarrow> finite (dom (sp_blocks s)) \<and>
     (\<forall>a b. sp_blocks s a = Some b \<longrightarrow> sb_hash b \<in> dom (sp_types s)) \<and>
     (\<forall>h en. sp_types s h = Some en \<longrightarrow> type_acct (sp_blocks s) h en) \<and>
     (\<forall>q. sp_weight s q = of_nat (nsum (hotness_of (sp_types s) q) (sp_blocks s))) \<and>
     nsum all_of (sp_blocks s) < 2 ^ 64"

lemma of_nat_below: "n < 2 ^ 64 \<Longrightarrow> unat (of_nat n :: 64 word) = n"
  by (simp add: unsigned_of_nat take_bit_nat_eq_self)

lemma acct_type:
  assumes "acct s" "sp_types s h = Some en"
  shows "type_acct (sp_blocks s) h en"
  using assms by (simp add: acct_def)

lemma acct_covered:
  assumes "acct s" "sp_types s h = Some en"
  shows "total_size en \<le> sp_weight s (tt_f en)"
proof -
  let ?B = "sp_blocks s"
  have "nsum (size_of h) ?B \<le> nsum (hotness_of (sp_types s) (tt_f en)) ?B"
    by (rule nsum_mono) (simp add: size_of_def hotness_of_def assms(2))
  moreover have "nsum (hotness_of (sp_types s) (tt_f en)) ?B \<le> nsum all_of ?B"
    by (rule nsum_mono) (simp add: hotness_of_def all_of_def)
  ultimately show ?thesis using assms
    by (simp add: acct_def type_acct_def word_le_nat_alt of_nat_below)
qed

lemma acct_block_covered:
  assumes "acct s" "sp_blocks s a = Some b" "sp_types s (sb_hash b) = Some en"
  shows "sb_size b \<le> sp_weight s (tt_f en)"
proof -
  let ?B = "sp_blocks s"
  have fin: "finite (dom ?B)" using assms(1) by (simp add: acct_def)
  have "nsum (size_of (sb_hash b)) ?B = nsum (size_of (sb_hash b)) (?B(a := None)) + unat (sb_size b)"
    using nsum_remove [OF fin assms(2), of "size_of (sb_hash b)"] by (simp add: size_of_def)
  moreover have "nsum (size_of (sb_hash b)) ?B \<le> nsum all_of ?B"
    by (rule nsum_mono) (simp add: size_of_def all_of_def)
  moreover have "nsum all_of ?B < 2 ^ 64" using assms(1) by (simp add: acct_def)
  ultimately have "unat (sb_size b) \<le> unat (of_nat (nsum (size_of (sb_hash b)) ?B) :: 64 word)"
    by (subst of_nat_below) linarith+
  then have "sb_size b \<le> total_size en"
    using acct_type [OF assms(1,3)] by (simp add: type_acct_def word_le_nat_alt)
  then show ?thesis using acct_covered [OF assms(1,3)] by (rule order_trans)
qed

section \<open>Every event keeps the accounting\<close>

lemma coeffs_ok_new: "coeffs_ok (replicate 4 0)"
  by (simp add: coeffs_ok_def)

lemma acct_create:
  assumes ac: "acct s" and fresh: "sp_blocks s a = None"
    and small: "nsum all_of (sp_blocks s) + unat sz < 2 ^ 64"
  shows "acct (spec_create hash a sz hot s)"
proof -
  let ?B = "sp_blocks s"
  define en where "en = type_or_new hash (sp_types s hash)"
  let ?M = "(sp_types s)(hash \<mapsto> grow_type sz hot en)"
  let ?b = "SBlock hash sz hot"
  have fin: "finite (dom ?B)" and hd: "\<And>a b. ?B a = Some b \<Longrightarrow> sb_hash b \<in> dom (sp_types s)"
    and w: "\<And>q. sp_weight s q = of_nat (nsum (hotness_of (sp_types s) q) ?B)"
    using ac by (auto simp: acct_def)
  note ins = nsum_insert [OF fin fresh]
  have en: "type_acct ?B hash en"
  proof (cases "sp_types s hash")
    case None
    then have "sb_hash b \<noteq> hash" if "?B x = Some b" for x b using hd [OF that] by auto
    then have "nsum (size_of hash) ?B = nsum (\<lambda>b. 0) ?B" "nsum (dram_of hash) ?B = nsum (\<lambda>b. 0) ?B"
        "nsum (cnt_of hash) ?B = nsum (\<lambda>b. 0) ?B"
      by (auto intro!: nsum_cong simp: size_of_def dram_of_def cnt_of_def)
    then show ?thesis
      by (simp add: en_def None type_or_new_def type_acct_def new_ttype_def coeffs_ok_new nsum_0)
  next
    case (Some e)
    with acct_type [OF ac Some] show ?thesis by (simp add: en_def type_or_new_def)
  qed
  have types: "type_acct (?B(a \<mapsto> ?b)) h e" if "?M h = Some e" for h e
  proof (cases "h = hash")
    case True
    then have "e = grow_type sz hot en" using that by simp
    with en True show ?thesis
      by (auto simp: type_acct_def ins grow_type_def cnt_of_def size_of_def dram_of_def)
  next
    case False
    then have "type_acct ?B h e" using that acct_type [OF ac] by simp
    with False show ?thesis by (simp add: type_acct_def ins cnt_of_def size_of_def dram_of_def)
  qed
  have same: "tt_f (the (?M (sb_hash b))) = tt_f (the (sp_types s (sb_hash b)))" if "?B x = Some b" for x b
    using hd [OF that] by (auto simp: en_def type_or_new_def grow_type_def)
  have weights: "sp_weight (spec_create hash a sz hot s) q = of_nat (nsum (hotness_of ?M q) (?B(a \<mapsto> ?b)))" for q
  proof -
    have "nsum (hotness_of ?M q) ?B = nsum (hotness_of (sp_types s) q) ?B"
      by (rule nsum_cong) (simp only: hotness_of_def same)
    then show ?thesis
      by (simp add: spec_create_def Let_def en_def [symmetric] ins w hotness_of_def grow_type_def)
  qed
  have "nsum all_of (?B(a \<mapsto> ?b)) < 2 ^ 64" using small by (simp add: ins all_of_def)
  then show ?thesis using fin hd types weights
    by (auto simp: acct_def spec_create_def Let_def en_def [symmetric])
qed

lemma acct_destroy:
  assumes ac: "acct s"
  shows "acct (spec_destroy a s)"
proof (cases "sp_blocks s a")
  case None
  then show ?thesis using ac by (simp add: spec_destroy_def)
next
  case (Some b)
  let ?B = "sp_blocks s"
  have fin: "finite (dom ?B)" and hd: "\<And>a b. ?B a = Some b \<Longrightarrow> sb_hash b \<in> dom (sp_types s)"
    and w: "\<And>q. sp_weight s q = of_nat (nsum (hotness_of (sp_types s) q) ?B)"
    and lt: "nsum all_of ?B < 2 ^ 64"
    using ac by (auto simp: acct_def)
  from hd [OF Some] obtain en where en: "sp_types s (sb_hash b) = Some en" by blast
  note rm = nsum_remove [OF fin Some]
  let ?M = "(sp_types s)(sb_hash b \<mapsto> shrink_type (sb_size b) (sb_hot b) en)"
  have sd: "spec_destroy a s = s\<lparr>sp_blocks := ?B(a := None), sp_types := ?M,
      sp_weight := (sp_weight s)(tt_f en := sp_weight s (tt_f en) - sb_size b)\<rparr>"
    by (simp add: spec_destroy_def Some en)
  have types: "type_acct (?B(a := None)) h e" if "?M h = Some e" for h e
  proof (cases "h = sb_hash b")
    case True
    then have e: "e = shrink_type (sb_size b) (sb_hot b) en" using that by simp
    have "type_acct ?B h en" using acct_type [OF ac en] True by simp
    with True show ?thesis unfolding e
      by (auto simp: type_acct_def rm shrink_type_def cnt_of_def size_of_def dram_of_def)
  next
    case False
    then have "type_acct ?B h e" using that acct_type [OF ac] by simp
    with False show ?thesis by (simp add: type_acct_def rm cnt_of_def size_of_def dram_of_def)
  qed
  have same: "tt_f (the (?M h)) = tt_f (the (sp_types s h))" for h
    by (simp add: shrink_type_def en)
  have hs: "hotness_of ?M = hotness_of (sp_types s)" by (simp only: hotness_of_def [abs_def] same)
  have "(sp_weight (spec_destroy a s)) q = of_nat (nsum (hotness_of ?M q) (?B(a := None)))" for q
    unfolding hs by (auto simp: sd w rm hotness_of_def en)
  moreover have "nsum all_of (?B(a := None)) < 2 ^ 64" using lt rm [of all_of] by simp
  ultimately show ?thesis using fin hd types by (auto simp: acct_def sd)
qed

lemma acct_retype:
  assumes ac: "acct s" and en: "sp_types s h = Some en" and en': "type_acct (sp_blocks s) h en'"
  shows "acct (s\<lparr>sp_types := (sp_types s)(h \<mapsto> en'),
     sp_weight := move_size (sp_weight s) (tt_f en) (tt_f en') (total_size en), sp_calls := cs\<rparr>)"
proof -
  let ?B = "sp_blocks s" and ?M = "(sp_types s)(h \<mapsto> en')"
  define rest where "rest q = nsum (\<lambda>b. if sb_hash b \<noteq> h then hotness_of (sp_types s) q b else 0) ?B" for q
  define n where "n = nsum (size_of h) ?B"
  have hd: "\<And>a b. ?B a = Some b \<Longrightarrow> sb_hash b \<in> dom (sp_types s)"
    and w: "\<And>q. sp_weight s q = of_nat (nsum (hotness_of (sp_types s) q) ?B)"
    using ac by (auto simp: acct_def)
  have tot: "total_size en = of_nat n" using acct_type [OF ac en] by (simp add: type_acct_def n_def)
  have split: "nsum (hotness_of N q) ?B = (if tt_f e = q then n else 0) + rest q"
    if "N h = Some e" "\<forall>x. x \<noteq> h \<longrightarrow> N x = sp_types s x" for N e q
  proof -
    have "hotness_of N q = (\<lambda>b. (if tt_f e = q then size_of h b else 0) +
        (if sb_hash b \<noteq> h then hotness_of (sp_types s) q b else 0))"
      using that by (auto simp: fun_eq_iff hotness_of_def size_of_def)
    then have "nsum (hotness_of N q) ?B = nsum (\<lambda>b. if tt_f e = q then size_of h b else 0) ?B + rest q"
      by (simp add: nsum_add rest_def)
    then show ?thesis by (simp add: n_def nsum_0)
  qed
  have old: "sp_weight s q = (if tt_f en = q then of_nat n else 0) + of_nat (rest q)" for q
    using split [of "sp_types s" en q] en by (simp add: w)
  have new: "of_nat (nsum (hotness_of ?M q) ?B) = (if tt_f en' = q then of_nat n else 0) + (of_nat (rest q) :: 64 word)" for q
    using split [of ?M en' q] by simp
  have "move_size (sp_weight s) (tt_f en) (tt_f en') (total_size en) q = of_nat (nsum (hotness_of ?M q) ?B)" for q
    unfolding new by (auto simp: move_size_def Let_def old tot)
  moreover have "type_acct ?B k e" if "?M k = Some e" for k e
    using that en' acct_type [OF ac, of k e] by (auto split: if_splits)
  ultimately show ?thesis using ac hd by (auto simp: acct_def)
qed

lemma move_size_self: "move_size m q q n = m"
  by (simp add: move_size_def Let_def fun_upd_idem)

lemma acct_touch:
  assumes ac: "acct s"
  shows "acct (spec_touch all_sizes a ts s)"
proof (cases "block_at s a")
  case (Some b)
  show ?thesis
  proof (cases "sp_types s (sb_hash b)")
    case en: (Some en)
    have ta: "type_acct (sp_blocks s) (sb_hash b) en" by (rule acct_type [OF ac en])
    define hot where "hot = real (unat all_sizes) / real (unat (total_size en))"
    have "0 \<le> hot" unfolding hot_def by (intro divide_nonneg_nonneg of_nat_0_le_iff)
    moreover have "coeffs_ok (hotness_history_coeffs en)" using ta by (simp add: type_acct_def)
    ultimately have "coeffs_ok (hotness_history_coeffs en)" "0 \<le> hot" by simp_all
    from touch_entry_run [OF this, of ts] obtain en' call
      where t: "ranking_touch_entry_internal en ts hot = Some (en', call)"
        "coeffs_ok (hotness_history_coeffs en')" "total_size en' = total_size en" "tt_hash en' = tt_hash en"
      by blast
    have "num_allocs en' = num_allocs en" "dram_size en' = dram_size en"
      using t(1) by (auto simp: ranking_touch_entry_internal_def Let_def bind_eq_Some_conv split: prod.splits)
    then have "type_acct (sp_blocks s) (sb_hash b) en'" using ta t by (simp add: type_acct_def)
    from acct_retype [OF ac en this] show ?thesis
      using ac by (simp add: spec_touch_def Some en t(1) [unfolded hot_def, simplified])
  qed (use ac in \<open>simp add: spec_touch_def Some\<close>)
qed (use ac in \<open>simp add: spec_touch_def\<close>)

lemma acct_callback:
  assumes ac: "acct s"
  shows "acct (spec_callback a cb arg s)"
proof (cases "block_below s a")
  case (Some kb)
  obtain k b where kb: "kb = (k, b)" by (cases kb)
  show ?thesis
  proof (cases "sp_types s (sb_hash b)")
    case en: (Some en)
    let ?en = "ranking_set_touch_callback cb arg en"
    have "type_acct (sp_blocks s) (sb_hash b) ?en" "tt_f ?en = tt_f en"
      using acct_type [OF ac en] by (simp_all add: type_acct_def ranking_set_touch_callback_def)
    from acct_retype [OF ac en this(1), of "sp_calls s"] this(2) show ?thesis
      by (simp add: spec_callback_def Some kb en move_size_self)
  qed (use ac in \<open>simp add: spec_callback_def Some kb\<close>)
qed (use ac in \<open>simp add: spec_callback_def\<close>)

text \<open>What an event needs: a new block must not lie at the address of a live one, and all sizes fit.\<close>

primrec event_ok :: "tk_spec \<Rightarrow> EventEntry \<Rightarrow> bool" where
  "event_ok s (EVENT_CREATE_ADD hash a sz hot) \<longleftrightarrow>
     sp_blocks s a = None \<and> nsum all_of (sp_blocks s) + unat sz < 2 ^ 64"
| "event_ok s (EVENT_DESTROY_REMOVE a sz) \<longleftrightarrow> True"
| "event_ok s (EVENT_REALLOC a a' sz sz' hot) \<longleftrightarrow>
     ((sp_blocks s)(a := None)) a' = None \<and> nsum all_of ((sp_blocks s)(a := None)) + unat sz' < 2 ^ 64"
| "event_ok s (EVENT_TOUCH a ts) \<longleftrightarrow> True"
| "event_ok s (EVENT_SET_TOUCH_CALLBACK a cb arg) \<longleftrightarrow> True"

lemma destroy_blocks:
  assumes "acct s"
  shows "sp_blocks (spec_destroy a s) = (sp_blocks s)(a := None)"
proof (cases "sp_blocks s a")
  case (Some b)
  then have "sb_hash b \<in> dom (sp_types s)" using assms by (auto simp: acct_def)
  then show ?thesis using Some by (auto simp: spec_destroy_def)
qed (simp add: spec_destroy_def fun_upd_idem)

lemma acct_event:
  assumes "acct s" "event_ok s ev"
  shows "acct (spec_event all_sizes ev s)"
proof (cases ev)
  case (EVENT_REALLOC a a' sz sz' hot)
  have "acct (spec_create 0 a' sz' hot (spec_destroy a s))"
    by (rule acct_create [OF acct_destroy [OF assms(1)]])
      (use assms(2) EVENT_REALLOC in \<open>simp_all add: destroy_blocks [OF assms(1)]\<close>)
  then show ?thesis by (simp add: EVENT_REALLOC)
qed (use assms in \<open>simp_all add: acct_create acct_destroy acct_touch acct_callback\<close>)

end
