(* ===== verification/Tachanka_Correct.thy ===== *)
theory Tachanka_Correct
  imports Tachanka_Spec
begin

text \<open>
  The pointer structures of \<open>src/tachanka.c\<close> implement \<open>Tachanka_Spec\<close>.  The invariant \<open>tk_inv\<close>
  says that both indices are well formed, that every entry leads to a live structure which
  names its own key, and that exactly the indexed structures are allocated in the slabs.
  The proofs use the critnibs, slabs and the ranking through the laws of their interfaces.
\<close>

section \<open>Indices\<close>

definition idx :: "critnib \<Rightarrow> 64 word \<rightharpoonup> addr" where
  "idx c k = (case critnib_map c k of Some (Some p) \<Rightarrow> Some p | _ \<Rightarrow> None)"

definition index_ok :: "critnib \<Rightarrow> bool" where
  "index_ok c \<longleftrightarrow> critnib_inv c \<and> (\<forall>k. critnib_map c k \<noteq> Some None)"

lemma index_map: "index_ok c \<Longrightarrow> critnib_map c k = map_option Some (idx c k)"
  by (auto simp: index_ok_def idx_def split: option.splits)

lemma index_get:
  assumes "index_ok c" "count_ok c"
  shows "critnib_get c k = Some (idx c k)"
proof -
  have "critnib_inv c" using assms(1) by (simp add: index_ok_def)
  from crit.get_ok [OF this assms(2), of k] show ?thesis
    by (simp add: index_map [OF assms(1)] split: option.splits)
qed

lemma floor_key_SomeD:
  assumes "floor_key m k = Some j"
  shows "j \<in> dom m" "j \<le> k" "\<And>i. i \<in> dom m \<Longrightarrow> i \<le> k \<Longrightarrow> i \<le> j"
proof -
  let ?S = "{i \<in> dom m. i \<le> k}"
  have S: "?S \<noteq> {}" "j = Max ?S" using assms by (auto simp: floor_key_def Let_def split: if_splits)
  have "j \<in> ?S" unfolding S(2) by (rule Max_in) (use S(1) in \<open>simp_all add: finite\<close>)
  then show "j \<in> dom m" "j \<le> k" by simp_all
  show "i \<le> j" if "i \<in> dom m" "i \<le> k" for i
    unfolding S(2) by (rule Max_ge) (use that in \<open>simp_all add: finite\<close>)
qed

lemma floor_key_present:
  assumes "k \<in> dom m"
  shows "floor_key m k = Some k"
proof (cases "floor_key m k")
  case None
  then show ?thesis using assms by (auto simp: floor_key_def Let_def split: if_splits)
next
  case (Some j)
  from floor_key_SomeD [OF this] assms have "j \<le> k" "k \<le> j" by auto
  then show ?thesis using Some by simp
qed

lemma floor_key_dom: "dom m = dom m' \<Longrightarrow> floor_key m k = floor_key m' k"
  by (simp add: floor_key_def)

lemma index_floor:
  assumes "index_ok c" "count_ok c"
  shows "critnib_find_le c k = Some (case floor_key (idx c) k of None \<Rightarrow> NULL | Some j \<Rightarrow> idx c j)"
proof -
  have inv: "critnib_inv c" using assms(1) by (simp add: index_ok_def)
  have "dom (critnib_map c) = dom (idx c)" using index_map [OF assms(1)] by (auto simp: dom_def)
  then have f: "floor_key (critnib_map c) k = floor_key (idx c) k" by (rule floor_key_dom)
  have "the (critnib_map c j) = idx c j" if "floor_key (idx c) k = Some j" for j
    using floor_key_SomeD(1) [OF that] by (auto simp: index_map [OF assms(1)])
  with crit.floor_ok [OF inv assms(2), of k] f show ?thesis by (simp split: option.splits)
qed

lemma index_insert:
  assumes "index_ok c" "critnib_room os c" "idx c k = None"
  shows "\<exists>c'. critnib_insert os c k (Some p) u = Some (0, c') \<and> index_ok c' \<and> idx c' = (idx c)(k \<mapsto> p) \<and>
    remove_count c' = remove_count c"
proof -
  have inv: "critnib_inv c" using assms(1) by (simp add: index_ok_def)
  have no: "k \<notin> dom (critnib_map c)" using assms(3) index_map [OF assms(1), of k] by (simp add: domIff)
  from critnib_insert_run [OF inv, of os k "Some p" u] assms(2) no obtain c'
    where c': "critnib_insert os c k (Some p) u = Some (0, c')" "critnib_inv c'"
      "critnib_map c' = (critnib_map c)(k \<mapsto> Some p)" "remove_count c' = remove_count c" by auto
  then show ?thesis using assms(1) by (auto simp: index_ok_def idx_def fun_eq_iff)
qed

lemma index_remove:
  assumes "index_ok c"
  shows "\<exists>c'. critnib_remove c k = Some (idx c k, c') \<and> index_ok c' \<and> idx c' = (idx c)(k := None)"
proof -
  have inv: "critnib_inv c" using assms(1) by (simp add: index_ok_def)
  from crit.remove_ok [OF inv, of k] obtain c'
    where c': "critnib_remove c k = Some (case critnib_map c k of None \<Rightarrow> NULL | Some v \<Rightarrow> v, c')"
      "critnib_inv c'" "critnib_map c' = (critnib_map c)(k := None)" by blast
  moreover have "(case critnib_map c k of None \<Rightarrow> NULL | Some v \<Rightarrow> v) = idx c k"
    by (simp add: index_map [OF assms] split: option.splits)
  ultimately show ?thesis using assms(1) by (auto simp: index_ok_def idx_def fun_eq_iff)
qed

text \<open>A removal never takes memory away from later insertions.\<close>

lemma remove_room:
  assumes "critnib_remove c k = Some (p, c')" "critnib_room os c"
  shows "critnib_room os c'" "unat (remove_count c') \<le> unat (remove_count c) + 1"
proof -
  have al: "allocator_leaves c' = allocator_leaves c" "allocator_nodes c' = allocator_nodes c"
    "deleted_leaf c' = [] \<longrightarrow> deleted_leaf c = []" "deleted_node c' = [] \<longrightarrow> deleted_node c = []"
    using assms(1)
    by (auto simp: critnib_remove_def Let_def free_node_def free_leaf_def bind_eq_Some_conv
        split: if_splits ct.splits option.splits prod.splits)
  then show "critnib_room os c'" using assms(2) by (auto simp: critnib_room_def)
  have "unat (remove_count c + 1) \<le> unat (remove_count c) + 1"
    unfolding unat_word_ariths(1) by (rule order_trans [OF mod_less_eq_dividend]) simp
  moreover have "remove_count c' = remove_count c \<or> remove_count c' = remove_count c + 1"
    using critnib_remove_pending [OF assms(1)] by blast
  ultimately show "unat (remove_count c') \<le> unat (remove_count c) + 1"
    by (elim disjE) (simp_all only: le_add1)
qed

section \<open>Representation\<close>

definition types_ok :: "tachanka \<Rightarrow> bool" where
  "types_ok T \<longleftrightarrow> index_ok (hash_to_type T) \<and> remove_count (hash_to_type T) = 0 \<and>
     slab_rep (ttype_alloc T) (ran (idx (hash_to_type T))) \<and>
     (\<forall>h t. idx (hash_to_type T) h = Some t \<longrightarrow> (\<exists>en. tk_types T t = Some en \<and> tt_hash en = h))"

definition blocks_ok :: "tachanka \<Rightarrow> bool" where
  "blocks_ok T \<longleftrightarrow> index_ok (addr_to_block T) \<and>
     slab_rep (tblock_alloc T) (ran (idx (addr_to_block T))) \<and>
     (\<forall>a p. idx (addr_to_block T) a = Some p \<longrightarrow> (\<exists>b t en. tk_blocks T p = Some b \<and> tb_addr b = a \<and>
        tb_type b = Some t \<and> tk_types T t = Some en \<and> idx (hash_to_type T) (tt_hash en) = Some t))"

definition abs_types :: "tachanka \<Rightarrow> 64 word \<rightharpoonup> ttype" where
  "abs_types T h = do { t \<leftarrow> idx (hash_to_type T) h; tk_types T t }"

definition abs_blocks :: "tachanka \<Rightarrow> addr \<rightharpoonup> sblock" where
  "abs_blocks T a = do {
     p \<leftarrow> idx (addr_to_block T) a;
     b \<leftarrow> tk_blocks T p;
     t \<leftarrow> tb_type b;
     en \<leftarrow> tk_types T t;
     Some (SBlock (tt_hash en) (tb_size b) (tb_is_hot b)) }"

definition tk_rep :: "tachanka \<Rightarrow> tk_spec \<Rightarrow> bool" where
  "tk_rep T s \<longleftrightarrow> types_ok T \<and> blocks_ok T \<and> sp_types s = abs_types T \<and> sp_blocks s = abs_blocks T \<and>
     ranking_rep (tk_ranking T) (sp_weight s) \<and> sp_calls s = tk_calls T"

text \<open>The parts of the state that the handling of an event leaves alone.\<close>

definition tk_frame :: "tachanka \<Rightarrow> tachanka \<Rightarrow> bool" where
  "tk_frame T T' \<longleftrightarrow> ranking_event_buff T' = ranking_event_buff T \<and> tk_initialized T' = tk_initialized T \<and>
     g_dramToTotalDesiredRatio T' = g_dramToTotalDesiredRatio T \<and>
     g_dramToTotalActualRatio T' = g_dramToTotalActualRatio T \<and> same_settings (tk_ranking T) (tk_ranking T')"

lemma tk_frame_trans: "tk_frame T T' \<Longrightarrow> tk_frame T' T'' \<Longrightarrow> tk_frame T T''"
  by (simp add: tk_frame_def same_settings_def)

lemma same_settings_refl [simp]: "same_settings R R"
  by (simp add: same_settings_def)

text \<open>Everything that the next event may ask of the memory below, with \<open>k\<close> removes to go.\<close>

definition tk_room :: "os \<Rightarrow> nat \<Rightarrow> tachanka \<Rightarrow> bool" where
  "tk_room os k T \<longleftrightarrow> critnib_room os (hash_to_type T) \<and> critnib_room os (addr_to_block T) \<and>
     slab_alloc_malloc os (ttype_alloc T) \<noteq> None \<and> slab_alloc_malloc os (tblock_alloc T) \<noteq> None \<and>
     ranking_room os (tk_ranking T) \<and> unat (remove_count (addr_to_block T)) + k < 2 ^ 64 - 16"

lemma tk_room_count: "tk_room os k T \<Longrightarrow> count_ok (addr_to_block T)"
  by (rule count_okI) (simp add: tk_room_def)

lemma types_ok_count: "types_ok T \<Longrightarrow> count_ok (hash_to_type T)"
  by (rule count_okI) (simp add: types_ok_def)

lemma types_ok_inj:
  assumes "types_ok T" "idx (hash_to_type T) h = Some t" "idx (hash_to_type T) h' = Some t"
  shows "h' = h"
  using assms unfolding types_ok_def by (metis option.inject)

lemma abs_types_Some:
  assumes "types_ok T" "abs_types T h = Some en"
  obtains t where "idx (hash_to_type T) h = Some t" "tk_types T t = Some en" "tt_hash en = h"
proof -
  from assms(2) obtain t where t: "idx (hash_to_type T) h = Some t" "tk_types T t = Some en"
    by (auto simp: abs_types_def bind_eq_Some_conv)
  with assms(1) have "tt_hash en = h" unfolding types_ok_def by (metis option.inject)
  with that t show thesis by blast
qed

lemma abs_blocks_Some:
  assumes "blocks_ok T" "abs_blocks T a = Some sb"
  obtains p b t en where "idx (addr_to_block T) a = Some p" "tk_blocks T p = Some b" "tb_addr b = a"
    "tb_type b = Some t" "tk_types T t = Some en" "idx (hash_to_type T) (tt_hash en) = Some t"
    "sb = SBlock (tt_hash en) (tb_size b) (tb_is_hot b)" "abs_types T (sb_hash sb) = Some en"
proof -
  from assms(2) obtain p where p: "idx (addr_to_block T) a = Some p"
    by (auto simp: abs_blocks_def bind_eq_Some_conv)
  with assms(1) obtain b t en where b: "tk_blocks T p = Some b" "tb_addr b = a" "tb_type b = Some t"
    "tk_types T t = Some en" "idx (hash_to_type T) (tt_hash en) = Some t" unfolding blocks_ok_def by metis
  then have sb: "sb = SBlock (tt_hash en) (tb_size b) (tb_is_hot b)"
    using assms(2) p by (simp add: abs_blocks_def)
  with b have "abs_types T (sb_hash sb) = Some en" by (simp add: abs_types_def)
  with that p b sb show thesis by blast
qed

lemma abs_blocks_dom:
  assumes "blocks_ok T"
  shows "dom (abs_blocks T) = dom (idx (addr_to_block T))"
proof -
  have "abs_blocks T a \<noteq> None" if "idx (addr_to_block T) a = Some p" for a p
  proof -
    from assms that obtain b t en where "tk_blocks T p = Some b" "tb_type b = Some t" "tk_types T t = Some en"
      unfolding blocks_ok_def by metis
    then show ?thesis using that by (simp add: abs_blocks_def)
  qed
  moreover have "idx (addr_to_block T) a \<noteq> None" if "abs_blocks T a \<noteq> None" for a
    using that by (cases "idx (addr_to_block T) a") (simp_all add: abs_blocks_def)
  ultimately have "abs_blocks T a \<noteq> None \<longleftrightarrow> idx (addr_to_block T) a \<noteq> None" for a by blast
  then show ?thesis by (simp add: dom_def)
qed

section \<open>Changing a type\<close>

lemma upd_type_run:
  assumes ty: "types_ok T" and bl: "blocks_ok T" and t: "idx (hash_to_type T) h = Some t"
    and en: "tk_types T t = Some en" and g: "tt_hash (g en) = tt_hash en"
  shows "\<exists>T'. upd_type T t g = Some T' \<and> T' = T\<lparr>tk_types := (tk_types T)(t \<mapsto> g en)\<rparr> \<and>
    types_ok T' \<and> blocks_ok T' \<and> abs_types T' = (abs_types T)(h \<mapsto> g en) \<and> abs_blocks T' = abs_blocks T"
proof -
  define T' where "T' = T\<lparr>tk_types := (tk_types T)(t \<mapsto> g en)\<rparr>"
  have h: "tt_hash en = h" using ty t en unfolding types_ok_def by (metis option.inject)
  have ranks: "\<exists>e. tk_types T' x = Some e \<and> tt_hash e = k" if "idx (hash_to_type T') k = Some x" for k x
  proof (cases "x = t")
    case True
    then have "k = h" using that types_ok_inj [OF ty t] by (simp add: T'_def)
    then show ?thesis using True g h by (simp add: T'_def)
  next
    case False
    then show ?thesis using that ty by (simp add: T'_def types_ok_def)
  qed
  then have "types_ok T'" using ty by (simp add: types_ok_def T'_def)
  moreover have hash: "tk_types T' x = Some e' \<Longrightarrow> \<exists>e. tk_types T x = Some e \<and> tt_hash e = tt_hash e'"
    and hash': "tk_types T x = Some e \<Longrightarrow> \<exists>e'. tk_types T' x = Some e' \<and> tt_hash e' = tt_hash e" for x e e'
    using en g by (auto simp: T'_def split: if_splits)
  moreover have "blocks_ok T'"
    unfolding blocks_ok_def
  proof (intro conjI allI impI)
    show "index_ok (addr_to_block T')" "slab_rep (tblock_alloc T') (ran (idx (addr_to_block T')))"
      using bl by (simp_all add: blocks_ok_def T'_def)
    fix a p assume "idx (addr_to_block T') a = Some p"
    then have "idx (addr_to_block T) a = Some p" by (simp add: T'_def)
    with bl obtain b x e where "tk_blocks T p = Some b" "tb_addr b = a" "tb_type b = Some x"
      "tk_types T x = Some e" "idx (hash_to_type T) (tt_hash e) = Some x" unfolding blocks_ok_def by metis
    moreover from hash' [OF this(4)] obtain e' where "tk_types T' x = Some e'" "tt_hash e' = tt_hash e" by blast
    ultimately show "\<exists>b t en. tk_blocks T' p = Some b \<and> tb_addr b = a \<and> tb_type b = Some t \<and>
        tk_types T' t = Some en \<and> idx (hash_to_type T') (tt_hash en) = Some t"
      by (auto simp: T'_def)
  qed
  moreover have "abs_types T' k = ((abs_types T)(h \<mapsto> g en)) k" for k
  proof (cases "k = h")
    case False
    then have "idx (hash_to_type T) k \<noteq> Some t" using types_ok_inj [OF ty t] by blast
    then show ?thesis using False by (cases "idx (hash_to_type T) k") (auto simp: abs_types_def T'_def)
  qed (simp add: abs_types_def T'_def t)
  moreover have "abs_blocks T' = abs_blocks T"
  proof -
    have "do { en \<leftarrow> tk_types T' x; Some (SBlock (tt_hash en) (tb_size b) (tb_is_hot b)) } =
        do { en \<leftarrow> tk_types T x; Some (SBlock (tt_hash en) (tb_size b) (tb_is_hot b)) }" for x and b :: tblock
      using en g by (cases "x = t") (simp_all add: T'_def)
    moreover have "addr_to_block T' = addr_to_block T" "tk_blocks T' = tk_blocks T" by (simp_all add: T'_def)
    ultimately show ?thesis unfolding abs_blocks_def [abs_def] by (simp only:)
  qed
  moreover have "upd_type T t g = Some T'" using en by (simp add: upd_type_def T'_def)
  ultimately show ?thesis by (intro exI [of _ T'] conjI ext) (assumption | simp only: T'_def)+
qed

text \<open>Finding or adding the type of a hash.\<close>

lemma find_or_add_type_run:
  fixes hash :: "64 word"
  assumes ty: "types_ok T" and bl: "blocks_ok T"
    and room: "critnib_room os (hash_to_type T)" "slab_alloc_malloc os (ttype_alloc T) \<noteq> None"
  defines "en \<equiv> type_or_new hash (abs_types T hash)"
  shows "\<exists>t T'. find_or_add_type os T hash = Some (t, T') \<and> types_ok T' \<and> blocks_ok T' \<and>
    idx (hash_to_type T') hash = Some t \<and> tk_types T' t = Some en \<and>
    abs_types T' = (abs_types T)(hash \<mapsto> en) \<and> abs_blocks T' = abs_blocks T \<and>
    (\<exists>al m c. T' = T\<lparr>ttype_alloc := al, tk_types := m, hash_to_type := c\<rparr>)"
proof (cases "idx (hash_to_type T) hash")
  case (Some t)
  with ty obtain e where e: "tk_types T t = Some e" "abs_types T hash = Some e"
    unfolding types_ok_def abs_types_def by (metis bind.bind_lunit)
  have g: "critnib_get (hash_to_type T) hash = Some (Some t)"
    using index_get [OF _ types_ok_count [OF ty], of hash] ty Some by (simp add: types_ok_def)
  have "\<exists>al m c. T = T\<lparr>ttype_alloc := al, tk_types := m, hash_to_type := c\<rparr>"
    by (rule exI [of _ "ttype_alloc T"], rule exI [of _ "tk_types T"], rule exI [of _ "hash_to_type T"]) simp
  moreover have "find_or_add_type os T hash = Some (t, T)" using g by (simp add: find_or_add_type_def)
  moreover have "en = e" by (simp add: en_def type_or_new_def e(2))
  ultimately show ?thesis using ty bl Some e by (metis fun_upd_idem)
next
  case None
  have ix: "index_ok (hash_to_type T)" and rep: "slab_rep (ttype_alloc T) (ran (idx (hash_to_type T)))"
    using ty by (simp_all add: types_ok_def)
  have g: "critnib_get (hash_to_type T) hash = Some NULL"
    using index_get [OF ix types_ok_count [OF ty], of hash] None by simp
  obtain q al where q: "slab_alloc_malloc os (ttype_alloc T) = Some (q, al)" using room(2) by auto
  from slab.malloc_fresh [OF rep q] obtain t where t: "q = Some t" "t \<notin> ran (idx (hash_to_type T))"
    "slab_rep al (insert t (ran (idx (hash_to_type T))))" by blast
  from index_insert [OF ix room(1) None, of t False] obtain c
    where c: "critnib_insert os (hash_to_type T) hash (Some t) False = Some (0, c)" "index_ok c"
      "idx c = (idx (hash_to_type T))(hash \<mapsto> t)" "remove_count c = remove_count (hash_to_type T)" by blast
  have an: "abs_types T hash = None" by (simp add: abs_types_def None)
  have en: "en = (new_ttype hash)\<lparr>tt_f := HOTNESS_INITIAL\<rparr>" by (simp add: en_def an type_or_new_def)
  define T' where "T' = T\<lparr>ttype_alloc := al, tk_types := (tk_types T)(t \<mapsto> en), hash_to_type := c\<rparr>"
  have run: "find_or_add_type os T hash = Some (t, T')"
    using g q t(1) c(1) by (simp add: find_or_add_type_def EEXIST_def upd_type_def T'_def en Let_def)
  have nt: "idx (hash_to_type T) k \<noteq> Some t" for k using t(2) by (auto simp: ran_def)
  have "types_ok T'"
    unfolding types_ok_def
  proof (intro conjI allI impI)
    show "index_ok (hash_to_type T')" "remove_count (hash_to_type T') = 0"
      using c ty by (simp_all add: T'_def types_ok_def)
    show "slab_rep (ttype_alloc T') (ran (idx (hash_to_type T')))"
      using t(3) None by (simp add: T'_def c(3))
    fix h x assume "idx (hash_to_type T') h = Some x"
    then show "\<exists>en. tk_types T' x = Some en \<and> tt_hash en = h"
      using ty nt by (auto simp: T'_def c(3) en new_ttype_def types_ok_def split: if_splits)
  qed
  moreover have "blocks_ok T'"
    unfolding blocks_ok_def
  proof (intro conjI allI impI)
    show "index_ok (addr_to_block T')" "slab_rep (tblock_alloc T') (ran (idx (addr_to_block T')))"
      using bl by (simp_all add: blocks_ok_def T'_def)
    fix a p assume "idx (addr_to_block T') a = Some p"
    then have "idx (addr_to_block T) a = Some p" by (simp add: T'_def)
    with bl obtain b x e where b: "tk_blocks T p = Some b" "tb_addr b = a" "tb_type b = Some x"
      "tk_types T x = Some e" "idx (hash_to_type T) (tt_hash e) = Some x" unfolding blocks_ok_def by metis
    then have "x \<noteq> t" "tt_hash e \<noteq> hash" using nt None by auto
    with b show "\<exists>b t en. tk_blocks T' p = Some b \<and> tb_addr b = a \<and> tb_type b = Some t \<and>
        tk_types T' t = Some en \<and> idx (hash_to_type T') (tt_hash en) = Some t"
      by (auto simp: T'_def c(3))
  qed
  moreover have "abs_types T' k = ((abs_types T)(hash \<mapsto> en)) k" for k
    using nt [of k] by (cases "idx (hash_to_type T) k") (auto simp: abs_types_def T'_def c(3))
  moreover have "abs_blocks T' a = abs_blocks T a" for a
  proof (cases "idx (addr_to_block T) a")
    case (Some p)
    with bl obtain b x e where "tk_blocks T p = Some b" "tb_type b = Some x"
      "tk_types T x = Some e" "idx (hash_to_type T) (tt_hash e) = Some x" unfolding blocks_ok_def by metis
    moreover have "x \<noteq> t" using nt calculation by auto
    ultimately show ?thesis using Some by (simp add: abs_blocks_def T'_def)
  qed (simp add: abs_blocks_def T'_def)
  ultimately show ?thesis using run
    by (intro exI [of _ t] exI [of _ T']) (auto simp: T'_def c(3) fun_eq_iff)
qed

section \<open>Creating a block\<close>

lemma add_block_run:
  assumes ty: "types_ok T" and bl: "blocks_ok T" and t: "idx (hash_to_type T) h = Some t"
    and fresh: "idx (addr_to_block T) a = None" and room: "critnib_room os (addr_to_block T)"
    and ma: "slab_alloc_malloc os (tblock_alloc T) = Some (q, al)"
  shows "\<exists>p c T'. q = Some p \<and> critnib_insert os (addr_to_block T) a (Some p) False = Some (0, c) \<and>
    T' = T\<lparr>tblock_alloc := al, tk_blocks := (tk_blocks T)(p \<mapsto>
       \<lparr>tb_addr = a, tb_size = sz, tb_type = Some t, tb_is_hot = hot\<rparr>), addr_to_block := c\<rparr> \<and>
    types_ok T' \<and> blocks_ok T' \<and> abs_types T' = abs_types T \<and>
    abs_blocks T' = (abs_blocks T)(a \<mapsto> SBlock h sz hot) \<and> remove_count c = remove_count (addr_to_block T)"
proof -
  have ix: "index_ok (addr_to_block T)" and rep: "slab_rep (tblock_alloc T) (ran (idx (addr_to_block T)))"
    using bl by (simp_all add: blocks_ok_def)
  from slab.malloc_fresh [OF rep ma] obtain p where p: "q = Some p" "p \<notin> ran (idx (addr_to_block T))"
    "slab_rep al (insert p (ran (idx (addr_to_block T))))" by blast
  from index_insert [OF ix room fresh, of p False] obtain c
    where c: "critnib_insert os (addr_to_block T) a (Some p) False = Some (0, c)" "index_ok c"
      "idx c = (idx (addr_to_block T))(a \<mapsto> p)" "remove_count c = remove_count (addr_to_block T)" by blast
  let ?b = "\<lparr>tb_addr = a, tb_size = sz, tb_type = Some t, tb_is_hot = hot\<rparr>"
  define T' where "T' = T\<lparr>tblock_alloc := al, tk_blocks := (tk_blocks T)(p \<mapsto> ?b), addr_to_block := c\<rparr>"
  from ty t obtain en where en: "tk_types T t = Some en" "tt_hash en = h" unfolding types_ok_def by metis
  have np: "idx (addr_to_block T) k \<noteq> Some p" for k using p(2) by (auto simp: ran_def)
  have "blocks_ok T'"
    unfolding blocks_ok_def
  proof (intro conjI allI impI)
    show "index_ok (addr_to_block T')" using c by (simp add: T'_def)
    show "slab_rep (tblock_alloc T') (ran (idx (addr_to_block T')))"
      using p(3) fresh by (simp add: T'_def c(3))
    fix k x assume k: "idx (addr_to_block T') k = Some x"
    show "\<exists>b t en. tk_blocks T' x = Some b \<and> tb_addr b = k \<and> tb_type b = Some t \<and>
        tk_types T' t = Some en \<and> idx (hash_to_type T') (tt_hash en) = Some t"
    proof (cases "k = a")
      case True
      then show ?thesis using k en t by (simp add: T'_def c(3))
    next
      case False
      then have "idx (addr_to_block T) k = Some x" "x \<noteq> p" using k np by (auto simp: T'_def c(3))
      with bl show ?thesis by (simp add: T'_def blocks_ok_def)
    qed
  qed
  moreover have "types_ok T'" using ty by (simp add: types_ok_def T'_def)
  moreover have "abs_types T' = abs_types T" by (simp add: abs_types_def [abs_def] T'_def)
  moreover have "abs_blocks T' k = ((abs_blocks T)(a \<mapsto> SBlock h sz hot)) k" for k
  proof (cases "k = a")
    case True
    then show ?thesis using en by (simp add: abs_blocks_def T'_def c(3))
  next
    case False
    then show ?thesis using np [of k]
      by (cases "idx (addr_to_block T) k") (simp_all add: abs_blocks_def T'_def c(3))
  qed
  ultimately show ?thesis using p(1) c(1,4) unfolding T'_def by blast
qed

lemma register_block_run:
  assumes ty: "types_ok T" and bl: "blocks_ok T" and fresh: "abs_blocks T a = None"
    and room: "tk_room os k T"
  shows "\<exists>T'. register_block os T hash a sz hot = Some T' \<and> types_ok T' \<and> blocks_ok T' \<and>
    abs_types T' = (abs_types T)(hash \<mapsto> grow_type sz hot (type_or_new hash (abs_types T hash))) \<and>
    abs_blocks T' = (abs_blocks T)(a \<mapsto> SBlock hash sz hot) \<and> tk_ranking T' = tk_ranking T \<and>
    tk_calls T' = tk_calls T \<and> tk_frame T T' \<and> count_ok (addr_to_block T')"
proof -
  let ?en = "type_or_new hash (abs_types T hash)"
  from find_or_add_type_run [OF ty bl, of os hash] room obtain t T1 al m c
    where T1: "find_or_add_type os T hash = Some (t, T1)" "types_ok T1" "blocks_ok T1"
      "idx (hash_to_type T1) hash = Some t" "tk_types T1 t = Some ?en"
      "abs_types T1 = (abs_types T)(hash \<mapsto> ?en)" "abs_blocks T1 = abs_blocks T"
      "T1 = T\<lparr>ttype_alloc := al, tk_types := m, hash_to_type := c\<rparr>" by (auto simp: tk_room_def)
  from upd_type_run [OF T1(2-5), of "grow_type sz hot"] obtain T2
    where T2: "upd_type T1 t (grow_type sz hot) = Some T2"
      "T2 = T1\<lparr>tk_types := (tk_types T1)(t \<mapsto> grow_type sz hot ?en)\<rparr>" "types_ok T2" "blocks_ok T2"
      "abs_types T2 = (abs_types T1)(hash \<mapsto> grow_type sz hot ?en)" "abs_blocks T2 = abs_blocks T1"
    by (auto simp: grow_type_def)
  have same: "addr_to_block T2 = addr_to_block T" "tblock_alloc T2 = tblock_alloc T"
    "tk_ranking T2 = tk_ranking T" "tk_calls T2 = tk_calls T" "hash_to_type T2 = hash_to_type T1"
    "tk_frame T T2" by (simp_all add: T2(2) T1(8) tk_frame_def)
  have fr: "idx (addr_to_block T2) a = None" using fresh abs_blocks_dom [OF bl] by (auto simp: same)
  obtain q al2 where q: "slab_alloc_malloc os (tblock_alloc T2) = Some (q, al2)"
    using room by (auto simp: tk_room_def same)
  from add_block_run [OF T2(3,4) _ fr _ q, of hash t sz hot] room T1(4) obtain p c2 T3
    where T3: "q = Some p" "critnib_insert os (addr_to_block T2) a (Some p) False = Some (0, c2)"
      "T3 = T2\<lparr>tblock_alloc := al2, tk_blocks := (tk_blocks T2)(p \<mapsto>
         \<lparr>tb_addr = a, tb_size = sz, tb_type = Some t, tb_is_hot = hot\<rparr>), addr_to_block := c2\<rparr>"
      "types_ok T3" "blocks_ok T3" "abs_types T3 = abs_types T2"
      "abs_blocks T3 = (abs_blocks T2)(a \<mapsto> SBlock hash sz hot)"
      "remove_count c2 = remove_count (addr_to_block T2)" by (auto simp: same tk_room_def)
  have "register_block os T hash a sz hot = Some T3"
    using T1(1) T2(1) q T3(1,2)
    by (simp add: register_block_def T3(3) Let_def grow_type_def [abs_def])
  moreover have "count_ok (addr_to_block T3)"
    using tk_room_count [OF room] by (simp add: T3(3,8) same count_ok_def)
  moreover have "tk_frame T T3" using same(6) by (simp add: T3(3) tk_frame_def)
  ultimately show ?thesis using T3(4-7) T2(5,6) T1(6,7) same by (simp add: T3(3))
qed

text \<open>The block below an address, as the index finds it.\<close>

lemma find_block:
  assumes bl: "blocks_ok T" and co: "count_ok (addr_to_block T)"
  shows "case floor_key (abs_blocks T) a of
      None \<Rightarrow> critnib_find_le (addr_to_block T) a = Some NULL
    | Some k \<Rightarrow> \<exists>p b t en. critnib_find_le (addr_to_block T) a = Some (Some p) \<and> tk_blocks T p = Some b \<and>
        tb_addr b = k \<and> tb_type b = Some t \<and> tk_types T t = Some en \<and>
        idx (hash_to_type T) (tt_hash en) = Some t \<and> abs_types T (tt_hash en) = Some en \<and>
        abs_blocks T k = Some (SBlock (tt_hash en) (tb_size b) (tb_is_hot b))"
proof -
  have fk: "floor_key (idx (addr_to_block T)) a = floor_key (abs_blocks T) a"
    by (rule floor_key_dom) (simp add: abs_blocks_dom [OF bl])
  have "index_ok (addr_to_block T)" using bl by (simp add: blocks_ok_def)
  note fl = index_floor [OF this co, of a, unfolded fk]
  show ?thesis
  proof (cases "floor_key (abs_blocks T) a")
    case None
    then show ?thesis using fl by simp
  next
    case (Some k)
    from floor_key_SomeD(1) [OF this] obtain sb where sb: "abs_blocks T k = Some sb" by blast
    from abs_blocks_Some [OF bl sb] obtain p b t en where "idx (addr_to_block T) k = Some p"
      "tk_blocks T p = Some b" "tb_addr b = k" "tb_type b = Some t" "tk_types T t = Some en"
      "idx (hash_to_type T) (tt_hash en) = Some t" "sb = SBlock (tt_hash en) (tb_size b) (tb_is_hot b)"
      "abs_types T (sb_hash sb) = Some en" by metis
    then show ?thesis using fl sb Some by simp
  qed
qed

lemma block_below_eq:
  "sp_blocks s = B \<Longrightarrow> floor_key B a = Some k \<Longrightarrow> B k = Some b \<Longrightarrow> block_below s a = Some (k, b)"
  "sp_blocks s = B \<Longrightarrow> floor_key B a = None \<Longrightarrow> block_below s a = None"
  by (simp_all add: block_below_def)

lemma create_run:
  assumes rep: "tk_rep T s" and fresh: "sp_blocks s a = None" and room: "tk_room os k T"
  shows "\<exists>T1 T2. register_block os T hash a sz hot = Some T1 \<and>
    register_block_in_ranking os T1 a sz = Some T2 \<and> tk_rep T2 (spec_create hash a sz hot s) \<and> tk_frame T T2 \<and>
    count_ok (addr_to_block T2)"
proof -
  have ok: "types_ok T" "blocks_ok T" "abs_blocks T a = None" and s: "sp_types s = abs_types T"
    "sp_blocks s = abs_blocks T" "ranking_rep (tk_ranking T) (sp_weight s)" "sp_calls s = tk_calls T"
    using rep fresh by (simp_all add: tk_rep_def)
  let ?en = "type_or_new hash (abs_types T hash)"
  from register_block_run [OF ok room, of hash sz hot] obtain T1
    where T1: "register_block os T hash a sz hot = Some T1" "types_ok T1" "blocks_ok T1"
      "abs_types T1 = (abs_types T)(hash \<mapsto> grow_type sz hot ?en)"
      "abs_blocks T1 = (abs_blocks T)(a \<mapsto> SBlock hash sz hot)" "tk_ranking T1 = tk_ranking T"
      "tk_calls T1 = tk_calls T" "tk_frame T T1" "count_ok (addr_to_block T1)" by blast
  have "floor_key (abs_blocks T1) a = Some a" by (rule floor_key_present) (simp add: T1(5))
  with find_block [OF T1(3,9), of a] obtain p b t en
    where p: "critnib_find_le (addr_to_block T1) a = Some (Some p)" "tk_blocks T1 p = Some b"
      "tb_type b = Some t" "tk_types T1 t = Some en" "abs_types T1 (tt_hash en) = Some en"
      "abs_blocks T1 a = Some (SBlock (tt_hash en) (tb_size b) (tb_is_hot b))" by auto
  have en: "en = grow_type sz hot ?en" using p(5,6) by (simp add: T1(4,5))
  have rr: "ranking_room os (tk_ranking T1)" using room by (simp add: T1(6) tk_room_def)
  from rank.add_ok [OF s(3) rr [unfolded T1(6)], of "tt_f ?en" sz] obtain R
    where R: "ranking_add os (tk_ranking T1) (tt_f ?en) sz = Some R" "same_settings (tk_ranking T1) R"
      "ranking_rep R ((sp_weight s)(tt_f ?en := sp_weight s (tt_f ?en) + sz))" by (auto simp: T1(6))
  have f: "tt_f en = tt_f ?en" unfolding en by (simp add: grow_type_def)
  define T2 where "T2 = T1\<lparr>tk_ranking := R\<rparr>"
  have "register_block_in_ranking os T1 a sz = Some T2"
    using p(1-4) R(1) f by (simp add: register_block_in_ranking_def T2_def)
  moreover have "types_ok T2" "blocks_ok T2" "abs_types T2 = abs_types T1" "abs_blocks T2 = abs_blocks T1"
    using T1(2,3) by (simp_all add: T2_def types_ok_def blocks_ok_def abs_types_def [abs_def] abs_blocks_def [abs_def])
  then have "tk_rep T2 (spec_create hash a sz hot s)"
    using T1(4,5,7) R(3) s by (simp add: tk_rep_def spec_create_def Let_def T2_def)
  moreover have "tk_frame T T2" using T1(6,8) R(2) by (simp add: T2_def tk_frame_def)
  moreover have "count_ok (addr_to_block T2)" using T1(9) by (simp add: T2_def)
  ultimately show ?thesis using T1(1) by blast
qed

section \<open>Destroying a block\<close>

lemma drop_block_run:
  assumes ty: "types_ok T" and bl: "blocks_ok T" and p: "idx (addr_to_block T) a = Some p"
    and c: "index_ok c" "idx c = (idx (addr_to_block T))(a := None)"
  shows "\<exists>al. slab_alloc_free (tblock_alloc T) (Some p) = Some al \<and>
    (\<forall>b R. let T' = T\<lparr>addr_to_block := c, tk_ranking := R, tk_blocks := (tk_blocks T)(p \<mapsto> b), tblock_alloc := al\<rparr>
       in types_ok T' \<and> blocks_ok T' \<and> abs_types T' = abs_types T \<and> abs_blocks T' = (abs_blocks T)(a := None))"
proof -
  have rep: "slab_rep (tblock_alloc T) (ran (idx (addr_to_block T)))" using bl by (simp add: blocks_ok_def)
  from slab.release_live [OF rep, of p] p obtain al where al: "slab_alloc_free (tblock_alloc T) (Some p) = Some al"
    "slab_rep al (ran (idx (addr_to_block T)) - {p})" by (auto simp: ran_def)
  have np: "idx (addr_to_block T) k \<noteq> Some p" if "k \<noteq> a" for k
  proof
    assume k: "idx (addr_to_block T) k = Some p"
    from bl k obtain b where "tk_blocks T p = Some b" "tb_addr b = k" unfolding blocks_ok_def by metis
    moreover from bl p obtain b' where "tk_blocks T p = Some b'" "tb_addr b' = a" unfolding blocks_ok_def by metis
    ultimately show False using that by simp
  qed
  have ran: "ran (idx c) = ran (idx (addr_to_block T)) - {p}"
    (is "?L = ?R")
  proof (intro set_eqI iffI)
    fix x assume "x \<in> ?L"
    then show "x \<in> ?R" using np by (auto simp: c(2) ran_def split: if_splits)
  next
    fix x assume "x \<in> ?R"
    then obtain k where k: "idx (addr_to_block T) k = Some x" "x \<noteq> p" by (auto simp: ran_def)
    then have "k \<noteq> a" using p by auto
    then have "idx c k = Some x" using k by (simp add: c(2))
    then show "x \<in> ?L" by (auto simp: ran_def)
  qed
  have "types_ok T' \<and> blocks_ok T' \<and> abs_types T' = abs_types T \<and> abs_blocks T' = (abs_blocks T)(a := None)"
    if T': "T' = T\<lparr>addr_to_block := c, tk_ranking := R, tk_blocks := (tk_blocks T)(p \<mapsto> b), tblock_alloc := al\<rparr>" for T' b R
  proof (intro conjI ext)
    show "types_ok T'" using ty by (simp add: types_ok_def T')
    show "abs_types T' h = abs_types T h" for h by (simp add: abs_types_def T')
    show "blocks_ok T'"
      unfolding blocks_ok_def
    proof (intro conjI allI impI)
      show "index_ok (addr_to_block T')" using c by (simp add: T')
      show "slab_rep (tblock_alloc T') (ran (idx (addr_to_block T')))" using al(2) ran by (simp add: T')
      fix k x assume "idx (addr_to_block T') k = Some x"
      then have k: "idx (addr_to_block T) k = Some x" "k \<noteq> a" by (auto simp: T' c(2) split: if_splits)
      then have "x \<noteq> p" using np by blast
      with bl k show "\<exists>b t en. tk_blocks T' x = Some b \<and> tb_addr b = k \<and> tb_type b = Some t \<and>
          tk_types T' t = Some en \<and> idx (hash_to_type T') (tt_hash en) = Some t"
        by (simp add: T' blocks_ok_def)
    qed
    show "abs_blocks T' k = ((abs_blocks T)(a := None)) k" for k
      using np [of k] by (cases "idx (addr_to_block T) k") (auto simp: abs_blocks_def T' c(2))
  qed
  then show ?thesis using al(1) by (simp add: Let_def)
qed

lemma destroy_run:
  assumes rep: "tk_rep T s" and ac: "acct s"
  shows "\<exists>T'. unregister_block os T a = Some T' \<and> tk_rep T' (spec_destroy a s) \<and> tk_frame T T' \<and>
    (tk_room os (Suc k) T \<longrightarrow> tk_room os k T')"
proof -
  have ok: "types_ok T" "blocks_ok T" and s: "sp_types s = abs_types T"
    "sp_blocks s = abs_blocks T" "ranking_rep (tk_ranking T) (sp_weight s)" "sp_calls s = tk_calls T"
    using rep by (simp_all add: tk_rep_def)
  from index_remove [of "addr_to_block T" a] ok(2) obtain c
    where c: "critnib_remove (addr_to_block T) a = Some (idx (addr_to_block T) a, c)" "index_ok c"
      "idx c = (idx (addr_to_block T))(a := None)" by (auto simp: blocks_ok_def)
  have cr: "critnib_room os c" "unat (remove_count c) + k < 2 ^ 64 - 16" if "tk_room os (Suc k) T"
    using remove_room [OF c(1), of os] that by (auto simp: tk_room_def)
  show ?thesis
  proof (cases "abs_blocks T a")
    case None
    then have n: "idx (addr_to_block T) a = None" using abs_blocks_dom [OF ok(2)] by auto
    then have ic: "idx c = idx (addr_to_block T)" using c(3) by (simp add: fun_upd_idem)
    define T' where "T' = T\<lparr>addr_to_block := c\<rparr>"
    have "unregister_block os T a = Some T'" using c(1) n by (simp add: unregister_block_def T'_def)
    moreover have "types_ok T'" "blocks_ok T'" "abs_types T' = abs_types T" "abs_blocks T' = abs_blocks T"
      using ok c(2) by (simp_all add: T'_def types_ok_def blocks_ok_def abs_types_def [abs_def]
          abs_blocks_def [abs_def] ic)
    then have "tk_rep T' s" using s by (simp add: tk_rep_def T'_def)
    moreover have "spec_destroy a s = s" by (simp add: spec_destroy_def s None)
    moreover have "tk_room os (Suc k) T \<longrightarrow> tk_room os k T'"
      using cr by (auto simp: tk_room_def T'_def)
    ultimately show ?thesis by (auto simp: T'_def tk_frame_def)
  next
    case (Some sb)
    from abs_blocks_Some [OF ok(2) Some] obtain p b t en
      where b: "idx (addr_to_block T) a = Some p" "tk_blocks T p = Some b" "tb_type b = Some t"
        "tk_types T t = Some en" "idx (hash_to_type T) (tt_hash en) = Some t"
        "sb = SBlock (tt_hash en) (tb_size b) (tb_is_hot b)" "abs_types T (sb_hash sb) = Some en" by metis
    let ?en = "shrink_type (tb_size b) (tb_is_hot b) en"
    from upd_type_run [OF ok b(5,4), of "shrink_type (tb_size b) (tb_is_hot b)"] obtain T1
      where T1: "T1 = T\<lparr>tk_types := (tk_types T)(t \<mapsto> ?en)\<rparr>" "types_ok T1" "blocks_ok T1"
        "abs_types T1 = (abs_types T)(tt_hash en \<mapsto> ?en)" "abs_blocks T1 = abs_blocks T"
      by (auto simp: shrink_type_def)
    have up: "upd_type (T\<lparr>addr_to_block := c\<rparr>) t (shrink_type (tb_size b) (tb_is_hot b)) = Some (T1\<lparr>addr_to_block := c\<rparr>)"
      by (simp add: upd_type_def b(4) T1(1))
    have le: "tb_size b \<le> sp_weight s (tt_f en)"
      using acct_block_covered [OF ac, of a sb en] Some b(6,7) by (simp add: s)
    from rank.remove_covered [OF s(3) le, of os] obtain R where R: "ranking_remove os (tk_ranking T) (tt_f en) (tb_size b) = Some R"
      "ranking_rep R ((sp_weight s)(tt_f en := sp_weight s (tt_f en) - tb_size b))"
      "same_settings (tk_ranking T) R" "ranking_room os (tk_ranking T) \<longrightarrow> ranking_room os R" by blast
    have p1: "idx (addr_to_block T1) a = Some p" "idx c = (idx (addr_to_block T1))(a := None)"
      using b(1) c(3) by (simp_all add: T1(1))
    from drop_block_run [OF T1(2,3) p1(1) c(2) p1(2)] obtain al
      where al: "slab_alloc_free (tblock_alloc T1) (Some p) = Some al"
        "\<And>(b :: tblock) R. let T' = T1\<lparr>addr_to_block := c, tk_ranking := R, tk_blocks := (tk_blocks T1)(p \<mapsto> b), tblock_alloc := al\<rparr>
       in types_ok T' \<and> blocks_ok T' \<and> abs_types T' = abs_types T1 \<and> abs_blocks T' = (abs_blocks T1)(a := None)"
      by blast
    define T' where "T' = T1\<lparr>addr_to_block := c, tk_ranking := R, tk_blocks := (tk_blocks T1)(p \<mapsto>
      b\<lparr>tb_addr := 0, tb_size := 0, tb_type := NULL\<rparr>), tblock_alloc := al\<rparr>"
    have T': "types_ok T'" "blocks_ok T'" "abs_types T' = abs_types T1" "abs_blocks T' = (abs_blocks T1)(a := None)"
      using al(2) [of "b\<lparr>tb_addr := 0, tb_size := 0, tb_type := NULL\<rparr>" R] by (simp_all add: T'_def Let_def)
    have f: "tt_f ?en = tt_f en" by (simp add: shrink_type_def)
    have "unregister_block os T a = Some T'"
      using c(1) b(1,2,3) R(1) al(1) up f
      by (simp add: unregister_block_def shrink_type_def [abs_def] T1(1) T'_def)
    moreover have "tk_rep T' (spec_destroy a s)"
      using T' T1(4,5) R(2) s b(6,7) Some by (simp add: tk_rep_def spec_destroy_def T'_def T1(1))
    moreover have "tk_frame T T'" using R(3) by (simp add: T'_def T1(1) tk_frame_def)
    moreover have "tk_room os (Suc k) T \<longrightarrow> tk_room os k T'"
    proof
      assume r: "tk_room os (Suc k) T"
      have "slab_rep (tblock_alloc T) (ran (idx (addr_to_block T)))" "p \<in> ran (idx (addr_to_block T))"
        using ok(2) b(1) by (auto simp: blocks_ok_def ran_def)
      from slab_free_room [OF this, of al os] al(1) have "slab_alloc_malloc os al \<noteq> None" by (simp add: T1(1))
      then show "tk_room os k T'" using cr [OF r] r R(4) by (simp add: tk_room_def T'_def T1(1))
    qed
    ultimately show ?thesis by blast
  qed
qed

section \<open>Touches and callbacks\<close>

lemma count_touch_sel [simp]:
  "addr_to_block (count_touch p T) = addr_to_block T" "hash_to_type (count_touch p T) = hash_to_type T"
  "tk_blocks (count_touch p T) = tk_blocks T" "tk_types (count_touch p T) = tk_types T"
  "tk_ranking (count_touch p T) = tk_ranking T" "tk_calls (count_touch p T) = tk_calls T"
  "ttype_alloc (count_touch p T) = ttype_alloc T" "tblock_alloc (count_touch p T) = tblock_alloc T"
  by (simp_all add: count_touch_def)

lemma count_touch_rep [simp]: "tk_rep (count_touch p T) s \<longleftrightarrow> tk_rep T s"
  by (simp add: tk_rep_def types_ok_def blocks_ok_def abs_types_def [abs_def] abs_blocks_def [abs_def])

lemma count_touch_frame [simp]: "tk_frame T (count_touch p T)"
  by (simp add: tk_frame_def count_touch_def)

lemma touch_run:
  assumes rep: "tk_rep T s" and ac: "acct s" and room: "tk_room os k T"
  shows "\<exists>T'. touch os all_sizes T a ts 0 = Some T' \<and> tk_rep T' (spec_touch all_sizes a ts s) \<and> tk_frame T T'"
proof -
  have ok: "types_ok T" "blocks_ok T" and s: "sp_types s = abs_types T"
    "sp_blocks s = abs_blocks T" "ranking_rep (tk_ranking T) (sp_weight s)" "sp_calls s = tk_calls T"
    using rep by (simp_all add: tk_rep_def)
  note fb = find_block [OF ok(2) tk_room_count [OF room], of a]
  show ?thesis
  proof (cases "floor_key (abs_blocks T) a")
    case None
    then have "block_at s a = None" by (simp add: block_at_def block_below_eq(2) [OF s(2)])
    then show ?thesis using fb None rep by (auto simp: touch_def spec_touch_def)
  next
    case (Some k)
    with fb obtain p b t en where p: "critnib_find_le (addr_to_block T) a = Some (Some p)"
      "tk_blocks T p = Some b" "tb_addr b = k" "tb_type b = Some t" "tk_types T t = Some en"
      "idx (hash_to_type T) (tt_hash en) = Some t" "abs_types T (tt_hash en) = Some en"
      "abs_blocks T k = Some (SBlock (tt_hash en) (tb_size b) (tb_is_hot b))" by auto
    have bb: "block_below s a = Some (k, SBlock (tt_hash en) (tb_size b) (tb_is_hot b))"
      by (rule block_below_eq(1) [OF s(2) Some p(8)])
    let ?T = "count_touch (Some p) T"
    show ?thesis
    proof (cases "a < k + tb_size b \<and> total_size en \<noteq> 0")
      case False
      then have "spec_touch all_sizes a ts s = s"
        using bb p(7) by (auto simp: spec_touch_def block_at_def s(1))
      moreover have "touch os all_sizes T a ts 0 = Some ?T"
        using False p(1-5) by (cases "a < k + tb_size b") (simp_all add: touch_def Let_def not_less word_gt_0)
      ultimately show ?thesis using rep by simp
    next
      case True
      define hot where "hot = real (unat all_sizes) / real (unat (total_size en))"
      have se: "sp_types s (tt_hash en) = Some en" using p(7) s(1) by simp
      have hot: "0 \<le> hot" unfolding hot_def by (intro divide_nonneg_nonneg of_nat_0_le_iff)
      have co: "coeffs_ok (hotness_history_coeffs en)"
        using acct_type [OF ac se] by (simp add: type_acct_def)
      have "ranking_room os (tk_ranking T)" using room by (simp add: tk_room_def)
      with hot co obtain en' call R where R: "ranking_touch os (tk_ranking T) en ts hot = Some (en', call, R)"
        "ranking_touch_entry_internal en ts hot = Some (en', call)"
        "ranking_rep R (move_size (sp_weight s) (tt_f en) (tt_f en') (total_size en))"
        "same_settings (tk_ranking T) R"
        using rank.touch_covered [OF s(3) _ _ _ acct_covered [OF ac se], of os hot ts] by blast
      have he: "tt_hash en' = tt_hash en"
        using touch_entry_run [OF co hot, of ts] R(2) by auto
      from upd_type_run [OF ok p(6,5), of "\<lambda>_. en'"] he obtain T1
        where T1: "T1 = T\<lparr>tk_types := (tk_types T)(t \<mapsto> en')\<rparr>" "types_ok T1" "blocks_ok T1"
          "abs_types T1 = (abs_types T)(tt_hash en \<mapsto> en')" "abs_blocks T1 = abs_blocks T" by auto
      define T' where "T' = ?T\<lparr>tk_ranking := R, tk_types := (tk_types T)(t \<mapsto> en'),
        tk_calls := tk_calls T @ (case call of None \<Rightarrow> [] | Some cb \<Rightarrow> [cb])\<rparr>"
      have "touch os all_sizes T a ts 0 = Some T'"
        using True p(1-5) R(1) [unfolded hot_def, simplified] leD [of "k + tb_size b" a]
        by (auto simp: touch_def Let_def T'_def word_gt_0)
      moreover have "types_ok T'" "blocks_ok T'" "abs_types T' = abs_types T1" "abs_blocks T' = abs_blocks T1"
        using T1(2,3) by (simp_all add: T'_def T1(1) types_ok_def blocks_ok_def abs_types_def [abs_def]
            abs_blocks_def [abs_def])
      moreover have "spec_touch all_sizes a ts s = s\<lparr>sp_types := (sp_types s)(tt_hash en \<mapsto> en'),
          sp_weight := move_size (sp_weight s) (tt_f en) (tt_f en') (total_size en),
          sp_calls := sp_calls s @ (case call of None \<Rightarrow> [] | Some cb \<Rightarrow> [cb])\<rparr>"
        using True bb se R(2) [unfolded hot_def, simplified] by (simp add: spec_touch_def block_at_def)
      ultimately show ?thesis using s T1(4,5) R(3,4)
        by (auto simp: tk_rep_def T'_def tk_frame_def count_touch_def)
    qed
  qed
qed

lemma callback_run:
  assumes rep: "tk_rep T s" and co: "count_ok (addr_to_block T)"
  shows "\<exists>r T'. tachanka_set_touch_callback T a cb arg = Some (r, T') \<and> tk_rep T' (spec_callback a cb arg s) \<and>
    tk_frame T T' \<and> (r = 0 \<longleftrightarrow> block_below s a \<noteq> None)"
proof -
  have ok: "types_ok T" "blocks_ok T" and s: "sp_types s = abs_types T"
    "sp_blocks s = abs_blocks T" "ranking_rep (tk_ranking T) (sp_weight s)" "sp_calls s = tk_calls T"
    using rep by (simp_all add: tk_rep_def)
  note fb = find_block [OF ok(2) co, of a]
  show ?thesis
  proof (cases "floor_key (abs_blocks T) a")
    case None
    then have "block_below s a = None" by (rule block_below_eq(2) [OF s(2)])
    then show ?thesis using fb None rep
      by (auto simp: tachanka_set_touch_callback_def spec_callback_def tk_frame_def)
  next
    case (Some k)
    with fb obtain p b t en where p: "critnib_find_le (addr_to_block T) a = Some (Some p)"
      "tk_blocks T p = Some b" "tb_addr b = k" "tb_type b = Some t" "tk_types T t = Some en"
      "idx (hash_to_type T) (tt_hash en) = Some t" "abs_types T (tt_hash en) = Some en"
      "abs_blocks T k = Some (SBlock (tt_hash en) (tb_size b) (tb_is_hot b))" by auto
    have bb: "block_below s a = Some (k, SBlock (tt_hash en) (tb_size b) (tb_is_hot b))"
      by (rule block_below_eq(1) [OF s(2) Some p(8)])
    let ?g = "ranking_set_touch_callback cb arg"
    from upd_type_run [OF ok p(6,5), of ?g] obtain T1
      where T1: "upd_type T t ?g = Some T1" "T1 = T\<lparr>tk_types := (tk_types T)(t \<mapsto> ?g en)\<rparr>"
        "types_ok T1" "blocks_ok T1" "abs_types T1 = (abs_types T)(tt_hash en \<mapsto> ?g en)"
        "abs_blocks T1 = abs_blocks T" by (auto simp: ranking_set_touch_callback_def)
    have "tachanka_set_touch_callback T a cb arg = Some (0, T1)"
      using p(1,2,4) T1(1) by (simp add: tachanka_set_touch_callback_def)
    moreover have "tk_rep T1 (spec_callback a cb arg s)"
      using s T1(3-6) bb p(7) by (simp add: tk_rep_def spec_callback_def T1(2))
    moreover have "tk_frame T T1" by (simp add: tk_frame_def T1(2))
    ultimately show ?thesis using bb by simp
  qed
qed

end
