(* ===== verification/Tachanka_Api.thy ===== *)
theory Tachanka_Api
  imports Tachanka_Correct
begin

text \<open>
  Set-up and queries of \<open>src/tachanka.c\<close> over the specification, the concrete instance used
  by the witnesses, and the properties of the component.
\<close>

section \<open>Set-up\<close>

text \<open>The system calls succeed and give fresh memory.\<close>

definition os_ok :: "os \<Rightarrow> bool" where
  "os_ok os \<longleftrightarrow> mmap_spec os \<and> os_mutex_init os = 0 \<and>
     (\<exists>area. os_mmap os 17179869184 = Some area \<and> os_mmap_fixed os area 2097152)"

definition boot_ok :: "boot \<Rightarrow> size_t \<Rightarrow> bool" where
  "boot_ok bt n \<longleftrightarrow> os_ok (bt_os bt) \<and> fst (bt_blocks_crit bt) \<noteq> NULL \<and> fst (bt_types_crit bt) \<noteq> NULL \<and>
     fst (bt_ranking bt) \<noteq> NULL \<and> fst (snd (bt_ranking bt)) \<noteq> NULL \<and> 0 < n \<and>
     (\<exists>es ds. bt_queue_entries bt (n * 16) = Some es \<and> length es = unat n \<and>
        bt_queue_data bt (sizeof_EventEntry * n) = Some ds \<and> length ds = unat n)"

definition empty_spec :: "(addr \<times> ptr) list \<Rightarrow> tk_spec" where
  "empty_spec calls = \<lparr>sp_blocks = Map.empty, sp_types = Map.empty, sp_weight = (\<lambda>_. 0), sp_calls = calls\<rparr>"

lemma acct_empty: "acct (empty_spec calls)"
  by (simp add: acct_def empty_spec_def)

lemma critnib_new_returns:
  assumes "os_ok os"
  shows "\<exists>c. critnib_new os (Some mem) la na = Some c \<and> index_ok c \<and> idx c = Map.empty \<and> remove_count c = 0"
proof -
  from assms obtain area where o: "mmap_spec os" "os_mutex_init os = 0" "os_mmap os 17179869184 = Some area"
    "os_mmap_fixed os area 2097152" by (auto simp: os_ok_def)
  from slab_default_run [OF o, of 16 0 la] slab_default_run [OF o, of 144 0 na]
  have "critnib_new os (Some mem) la na \<noteq> None" using o(2) by (auto simp: critnib_new_def)
  then obtain c where c: "critnib_new os (Some mem) la na = Some c" by blast
  from critnib_new_run [OF o(1) c] have "critnib_inv c" "critnib_map c = Map.empty" "remove_count c = 0" by auto
  then show ?thesis using c by (simp add: index_ok_def idx_def [abs_def])
qed

lemma tachanka_init_run:
  assumes bt: "boot_ok bt n"
  shows "\<exists>T'. tachanka_init bt T w n = Some T' \<and> tk_rep T' (empty_spec (tk_calls T)) \<and>
    tk_initialized T' \<and> lq_rep (ranking_event_buff T') [] \<and> lq_size (ranking_event_buff T') = n \<and>
    \<not> threshValid (hotThreshold (tk_ranking T'))"
proof -
  let ?os = "bt_os bt"
  from bt have ok: "os_ok ?os" by (simp add: boot_ok_def)
  then obtain area where o: "mmap_spec ?os" "os_mutex_init ?os = 0" "os_mmap ?os 17179869184 = Some area"
    "os_mmap_fixed ?os area 2097152" by (auto simp: os_ok_def)
  obtain m1 la na where b1: "bt_blocks_crit bt = (Some m1, la, na)" using bt
    by (cases "bt_blocks_crit bt") (auto simp: boot_ok_def)
  obtain m2 la2 na2 where b2: "bt_types_crit bt = (Some m2, la2, na2)" using bt
    by (cases "bt_types_crit bt") (auto simp: boot_ok_def)
  obtain m3 m4 junk c0 where b3: "bt_ranking bt = (Some m3, Some m4, junk, c0)" using bt
    by (cases "bt_ranking bt") (auto simp: boot_ok_def)
  from slab_default_run [OF o, of 120 0 "bt_ttype_alloc_at bt"] obtain al
    where al: "slab_alloc_init ?os 0 (bt_ttype_alloc_at bt) 120 0 = Some (0, al)" "slab_rep al {}" by auto
  from slab_default_run [OF o, of 32 0 "bt_tblock_alloc_at bt"] obtain bal
    where bal: "slab_alloc_init ?os 0 (bt_tblock_alloc_at bt) 32 0 = Some (0, bal)" "slab_rep bal {}" by auto
  from critnib_new_returns [OF ok, of m1 la na] obtain cb where cb: "critnib_new ?os (Some m1) la na = Some cb"
    "index_ok cb" "idx cb = Map.empty" "remove_count cb = 0" by blast
  from critnib_new_returns [OF ok, of m2 la2 na2] obtain ct where ct: "critnib_new ?os (Some m2) la2 na2 = Some ct"
    "index_ok ct" "idx ct = Map.empty" "remove_count ct = 0" by blast
  from ranking_create_run [OF o, of m3 m4 junk c0 w] obtain R
    where R: "ranking_create ?os 0 0 (Some m3) (Some m4) junk c0 w = Some R" "ranking_rep R (\<lambda>_. 0)"
      "\<not> threshValid (hotThreshold R)" by blast
  from bt obtain es ds where q: "bt_queue_entries bt (n * 16) = Some es" "length es = unat n"
    "bt_queue_data bt (sizeof_EventEntry * n) = Some ds" "length ds = unat n" "0 < n" by (auto simp: boot_ok_def)
  then have "0 < unat n" by (simp add: word_gt_0 unat_gt_0)
  with lq_init_run [of "bt_queue_entries bt" n es "bt_queue_data bt" sizeof_EventEntry ds] q obtain b
    where b: "ranking_event_init (bt_queue_entries bt) (bt_queue_data bt) n = Some b" "lq_rep b []" "lq_size b = n"
    by (auto simp: ranking_event_init_def)
  define T' where "T' = T\<lparr>ttype_alloc := al, tblock_alloc := bal, addr_to_block := cb, hash_to_type := ct,
     tk_ranking := R, ranking_event_buff := b, tk_initialized := True\<rparr>"
  have "tachanka_init bt T w n = Some T'"
    using al(1) bal(1) cb(1) ct(1) R(1) b(1) by (simp add: tachanka_init_def o(2) b1 b2 b3 Let_def T'_def)
  moreover have "tk_rep T' (empty_spec (tk_calls T))"
    using al(2) bal(2) cb ct R(2)
    by (simp add: tk_rep_def types_ok_def blocks_ok_def abs_types_def [abs_def] abs_blocks_def [abs_def]
        empty_spec_def T'_def)
  ultimately show ?thesis using b R(3) by (auto simp: T'_def)
qed

section \<open>Queries\<close>

lemma hotness_type_run:
  assumes rep: "tk_rep T s" and co: "count_ok (addr_to_block T)"
  shows "tachanka_get_hotness_type T a = Some (case block_at s a of
      None \<Rightarrow> HOTNESS_NOT_FOUND
    | Some b \<Rightarrow> hotness_class (hotThreshold (tk_ranking T)) (tt_f (the (sp_types s (sb_hash b)))))"
proof -
  have ok: "blocks_ok T" and s: "sp_types s = abs_types T" "sp_blocks s = abs_blocks T"
    using rep by (simp_all add: tk_rep_def)
  note fb = find_block [OF ok co, of a]
  show ?thesis
  proof (cases "floor_key (abs_blocks T) a")
    case None
    then show ?thesis using fb by (simp add: tachanka_get_hotness_type_def block_at_def block_below_eq(2) [OF s(2)])
  next
    case (Some k)
    with fb obtain p b t en where p: "critnib_find_le (addr_to_block T) a = Some (Some p)"
      "tk_blocks T p = Some b" "tb_addr b = k" "tb_type b = Some t" "tk_types T t = Some en"
      "abs_types T (tt_hash en) = Some en"
      "abs_blocks T k = Some (SBlock (tt_hash en) (tb_size b) (tb_is_hot b))" by auto
    have "block_below s a = Some (k, SBlock (tt_hash en) (tb_size b) (tb_is_hot b))"
      by (rule block_below_eq(1) [OF s(2) Some p(7)])
    then show ?thesis using p s(1)
      by (auto simp: tachanka_get_hotness_type_def block_at_def ranking_get_hot_threshold_def not_less)
  qed
qed

lemma addr_hotness_run:
  assumes rep: "tk_rep T s" and co: "count_ok (addr_to_block T)"
  shows "tachanka_get_addr_hotness T a = Some (case block_below s a of
      None \<Rightarrow> -1 | Some (k, b) \<Rightarrow> tt_f (the (sp_types s (sb_hash b))))"
proof -
  have ok: "blocks_ok T" and s: "sp_types s = abs_types T" "sp_blocks s = abs_blocks T"
    using rep by (simp_all add: tk_rep_def)
  note fb = find_block [OF ok co, of a]
  show ?thesis
  proof (cases "floor_key (abs_blocks T) a")
    case None
    then show ?thesis using fb by (simp add: tachanka_get_addr_hotness_def block_below_eq(2) [OF s(2)])
  next
    case (Some k)
    with fb obtain p b t en where p: "critnib_find_le (addr_to_block T) a = Some (Some p)"
      "tk_blocks T p = Some b" "tb_type b = Some t" "tk_types T t = Some en"
      "abs_types T (tt_hash en) = Some en"
      "abs_blocks T k = Some (SBlock (tt_hash en) (tb_size b) (tb_is_hot b))" by auto
    have "block_below s a = Some (k, SBlock (tt_hash en) (tb_size b) (tb_is_hot b))"
      by (rule block_below_eq(1) [OF s(2) Some p(6)])
    then show ?thesis using p s(1) by (simp add: tachanka_get_addr_hotness_def)
  qed
qed

lemma hotness_hash_run:
  assumes rep: "tk_rep T s" and th: "threshVal (hotThreshold (tk_ranking T)) = Some v"
  shows "tachanka_get_hotness_type_hash T h = Some (case sp_types s h of
      None \<Rightarrow> HOTNESS_NOT_FOUND
    | Some en \<Rightarrow> hotness_class (hotThreshold (tk_ranking T)) (tt_f en))"
proof -
  have ty: "types_ok T" and s: "sp_types s = abs_types T" using rep by (simp_all add: tk_rep_def)
  have g: "critnib_get (hash_to_type T) h = Some (idx (hash_to_type T) h)"
    using index_get [OF _ types_ok_count [OF ty], of h] ty by (simp add: types_ok_def)
  show ?thesis
  proof (cases "idx (hash_to_type T) h")
    case None
    then show ?thesis using g by (simp add: tachanka_get_hotness_type_hash_def s abs_types_def)
  next
    case (Some t)
    with ty obtain en where en: "tk_types T t = Some en" unfolding types_ok_def by metis
    then have "sp_types s h = Some en" using Some by (simp add: s abs_types_def)
    then show ?thesis using g Some en th
      by (auto simp: tachanka_get_hotness_type_hash_def hotness_class_def ranking_get_hot_threshold_def dlt_def)
  qed
qed

section \<open>A concrete instance\<close>

definition demo_boot :: boot where
  "demo_boot = \<lparr>bt_os = demo_os, bt_blocks_crit = (Some 64, 64, 128), bt_types_crit = (Some 256, 256, 320),
     bt_ranking = (Some 512, Some 640, 0, \<lparr>integrated_error = Some 0, proportional = 0, integral = 0,
       hotTierSize = Some 0, coldTierSize = Some 0\<rparr>),
     bt_queue_entries = (\<lambda>n. if n = 32 then Some (replicate 2 \<lparr>metadata_state = 7, en_data = 9\<rparr>) else None),
     bt_queue_data = (\<lambda>n. if n = 96 then Some (replicate 2 (EVENT_TOUCH 0 0)) else None),
     bt_ttype_alloc_at = 1024, bt_tblock_alloc_at = 2048\<rparr>"

definition demo_tk0 :: tachanka where
  "demo_tk0 = \<lparr>tblock_alloc = demo_slab, ttype_alloc = demo_slab, tk_blocks = Map.empty, tk_types = Map.empty,
     tk_ranking = demo_ranking, ranking_event_buff = \<lparr>lq_entries = [], lq_data = [], lq_size = 0,
       lq_entrySize = 0, lq_head = 0, lq_tail = 0, lq_used = 0, lq_unavailableRead = 0\<rparr>,
     g_dramToTotalDesiredRatio = Some 1, g_dramToTotalActualRatio = Some 1, hash_to_type = demo_crit0,
     addr_to_block = demo_crit0, tk_initialized = False, all_touches = 0, successful_touches = 0,
     touch_counter = 0, tk_calls = []\<rparr>"

definition demo_tk :: tachanka where
  "demo_tk = the (tachanka_init demo_boot demo_tk0 (4 / 10) 2)"

lemma demo_boot_ok: "boot_ok demo_boot 2"
  by (simp add: boot_ok_def demo_boot_def os_ok_def demo_mmap sizeof_EventEntry_def)
    (simp add: demo_os_def)

lemma demo_tk_init: "tachanka_init demo_boot demo_tk0 (4 / 10) 2 = Some demo_tk"
  using tachanka_init_run [OF demo_boot_ok, of demo_tk0 "4 / 10"] by (auto simp: demo_tk_def)

lemma demo_tk_rep: "tk_rep demo_tk (empty_spec [])" "tk_initialized demo_tk"
    "lq_rep (ranking_event_buff demo_tk) []"
proof -
  have "tk_calls demo_tk0 = []" by (simp add: demo_tk0_def)
  with tachanka_init_run [OF demo_boot_ok, of demo_tk0 "4 / 10"] demo_tk_init
  show "tk_rep demo_tk (empty_spec [])" "tk_initialized demo_tk" "lq_rep (ranking_event_buff demo_tk) []"
    by auto
qed

lemma demo_tk_memory:
  "critnib_room demo_os (hash_to_type demo_tk)" "critnib_room demo_os (addr_to_block demo_tk)"
  "slab_alloc_malloc demo_os (ttype_alloc demo_tk) \<noteq> None" "slab_alloc_malloc demo_os (tblock_alloc demo_tk) \<noteq> None"
  "ranking_room demo_os (tk_ranking demo_tk)" "remove_count (addr_to_block demo_tk) = 0"
  by code_simp+

lemma demo_tk_room: "tk_room demo_os 1 demo_tk"
  using demo_tk_memory by (simp add: tk_room_def)

section \<open>Properties\<close>

text \<open>
  \<open>tachanka_init\<close> sets everything up.  When the system calls and the allocations succeed it
  returns; the table then has no block and no type, the ranking holds no memory and has no
  valid threshold, and the event queue is an empty queue of the requested size.
\<close>

theorem tachanka_init_correct:
  assumes "boot_ok bt n"
  shows "\<exists>T'. tachanka_init bt T w n = Some T' \<and> tk_rep T' (empty_spec (tk_calls T)) \<and>
    acct (empty_spec (tk_calls T)) \<and> tk_initialized T' \<and> lq_rep (ranking_event_buff T') [] \<and>
    lq_size (ranking_event_buff T') = n \<and> \<not> threshValid (hotThreshold (tk_ranking T'))"
  using tachanka_init_run [OF assms, of T w] acct_empty by blast

lemma tachanka_init_correct_witness:
  "\<exists>T'. tachanka_init demo_boot demo_tk0 (4 / 10) 2 = Some T' \<and> tk_rep T' (empty_spec []) \<and>
     lq_size (ranking_event_buff T') = 2"
  using tachanka_init_correct [OF demo_boot_ok, of demo_tk0 "4 / 10"] by (auto simp: demo_tk0_def)

text \<open>
  The queries answer from the table of live blocks.  An address counts as hot or cold only
  if it lies inside a live block, and then by comparing the hotness of the type of that
  block with the threshold; the query by hash compares the type itself; the hotness of an
  address is that of the block at or below it, or -1.  No query aborts while the threshold is
  a number.
\<close>

theorem tachanka_queries_correct:
  assumes "tk_rep T s" "count_ok (addr_to_block T)"
    and "threshVal (hotThreshold (tk_ranking T)) \<noteq> None"
  shows "tachanka_get_hotness_type T a = Some (case block_at s a of
      None \<Rightarrow> HOTNESS_NOT_FOUND
    | Some b \<Rightarrow> hotness_class (hotThreshold (tk_ranking T)) (tt_f (the (sp_types s (sb_hash b))))) \<and>
    tachanka_get_hotness_type_hash T h = Some (case sp_types s h of
      None \<Rightarrow> HOTNESS_NOT_FOUND
    | Some en \<Rightarrow> hotness_class (hotThreshold (tk_ranking T)) (tt_f en)) \<and>
    tachanka_get_addr_hotness T a = Some (case block_below s a of
      None \<Rightarrow> -1 | Some (k, b) \<Rightarrow> tt_f (the (sp_types s (sb_hash b))))"
proof -
  from assms(3) obtain v where v: "threshVal (hotThreshold (tk_ranking T)) = Some v" by blast
  from hotness_type_run [OF assms(1,2), of a] hotness_hash_run [OF assms(1) v, of h]
    addr_hotness_run [OF assms(1,2), of a] show ?thesis by blast
qed

lemma tachanka_queries_correct_witness:
  "\<exists>T1 T2. register_block demo_os demo_tk 7 4096 100 True = Some T1 \<and>
     register_block_in_ranking demo_os T1 4096 100 = Some T2 \<and>
     tachanka_get_addr_hotness T2 4150 = Some 40 \<and> tachanka_get_addr_hotness T2 4000 = Some (-1) \<and>
     tachanka_get_hotness_type T2 4196 = Some HOTNESS_NOT_FOUND"
proof -
  have "sp_blocks (empty_spec []) 4096 = None" by (simp add: empty_spec_def)
  from create_run [OF demo_tk_rep(1) this demo_tk_room, of 7 100 True] obtain T1 T2
    where T: "register_block demo_os demo_tk 7 4096 100 True = Some T1"
      "register_block_in_ranking demo_os T1 4096 100 = Some T2" "tk_frame demo_tk T2" "count_ok (addr_to_block T2)"
      and rep: "tk_rep T2 (spec_create 7 4096 100 True (empty_spec []))" by blast
  have "threshVal (hotThreshold (tk_ranking demo_tk)) \<noteq> None" by code_simp
  then have th: "threshVal (hotThreshold (tk_ranking T2)) \<noteq> None"
    using T(3) by (simp add: tk_frame_def same_settings_def)
  let ?s = "spec_create 7 4096 100 True (empty_spec [])"
  have b: "sp_blocks ?s = [4096 \<mapsto> SBlock 7 100 True]" "tt_f (the (sp_types ?s 7)) = 40"
    by (simp_all add: spec_create_def empty_spec_def Let_def type_or_new_def grow_type_def HOTNESS_INITIAL_def
        EXPONENTIAL_COEFFS_VALS_def)
  have "{k. k = 4096 \<and> k \<le> (x::64 word)} = (if 4096 \<le> x then {4096} else {})" for x by auto
  then have "block_below ?s x = (if 4096 \<le> x then Some (4096, SBlock 7 100 True) else None)" for x
    by (simp add: block_below_def b(1) floor_key_def)
  then show ?thesis using T(1,2) b(2)
      tachanka_queries_correct [OF rep T(4) th, of 4150 7] tachanka_queries_correct [OF rep T(4) th, of 4000 7]
      tachanka_queries_correct [OF rep T(4) th, of 4196 7]
    by (auto simp: block_at_def)
qed

end
