(* ===== verification/Pebs.thy ===== *)
theory Pebs
  imports Tachanka_Api
begin

text \<open>
  Component \<open>src/pebs.c\<close>: the background thread.  Every cycle it handles queued events, then
  the samples that the kernel has written into the shared ring, and recomputes the hot
  threshold.  The kernel and the clock are parameters: the successive values of \<open>data_head\<close>
  that the thread reads, the records in the ring, the value of
  \<open>memtier_kind_get_total_size()\<close> at each use, and the readings of the clock.  The build has
  \<open>RANKING_TOUCH_ALL\<close> and \<open>PEBS_LOG_TO_FILE\<close> 0.
\<close>

section \<open>Deadlines\<close>

record timespec =
  tv_sec :: "64 word"
  tv_nsec :: "64 word"

definition S_TO_NS :: "64 word" where
  "S_TO_NS = 1000000000"

definition timespec_add :: "timespec \<Rightarrow> timespec \<Rightarrow> timespec" where
  "timespec_add modified toadd =
     (let sec = tv_sec modified + tv_sec toadd;
          nsec = tv_nsec modified + tv_nsec toadd
      in \<lparr>tv_sec = sec + nsec div S_TO_NS, tv_nsec = nsec mod S_TO_NS\<rparr>)"

text \<open>The casts truncate towards zero; \<open>millis\<close> is not negative.\<close>

definition timespec_millis_to_timespec :: "real \<Rightarrow> timespec" where
  "timespec_millis_to_timespec millis =
     (let sec = word_of_int \<lfloor>millis / 1000\<rfloor>;
          ms_to_convert = millis - real (unat (sec * 1000 :: 64 word))
      in \<lparr>tv_sec = sec, tv_nsec = word_of_int \<lfloor>ms_to_convert * 1000000\<rfloor>\<rparr>)"

definition timespec_is_he :: "timespec \<Rightarrow> timespec \<Rightarrow> bool" where
  "timespec_is_he tv1 tv2 =
     (tv_sec tv1 > tv_sec tv2 \<or> (tv_sec tv1 = tv_sec tv2 \<and> tv_nsec tv1 > tv_nsec tv2))"

section \<open>Events\<close>

datatype ThreadState = THREAD_INIT | THREAD_RUNNING | THREAD_FINISHED

record pebs =
  pb_tk :: tachanka
  g_queue_pop_counter :: size_t
  g_queue_counter_malloc :: size_t
  g_queue_counter_realloc :: size_t
  g_queue_counter_callback :: size_t
  g_queue_counter_free :: size_t
  g_queue_counter_touch :: size_t
  shouldProcessTouches :: bool
  pb_last_head :: "64 word"
  pb_data_tail :: "64 word"
  pb_ntime :: timespec

definition pebs_set_process_hardware_touches :: "pebs \<Rightarrow> bool \<Rightarrow> pebs" where
  "pebs_set_process_hardware_touches P process = P\<lparr>shouldProcessTouches := process\<rparr>"

definition HOTNESS_RANKING_EVENT_ITERATIONS_PER_CYCLE :: nat where
  "HOTNESS_RANKING_EVENT_ITERATIONS_PER_CYCLE = 200000"

definition process_event :: "os \<Rightarrow> size_t \<Rightarrow> EventEntry \<Rightarrow> pebs \<Rightarrow> pebs option" where
  "process_event os all_sizes event P = (case event of
     EVENT_CREATE_ADD hash a sz isHot \<Rightarrow> do {
       T \<leftarrow> register_block os (pb_tk P) hash a sz isHot;
       T \<leftarrow> register_block_in_ranking os T a sz;
       Some (P\<lparr>pb_tk := T, g_queue_counter_malloc := g_queue_counter_malloc P + 1\<rparr>) }
   | EVENT_DESTROY_REMOVE a sz \<Rightarrow> do {
       T \<leftarrow> unregister_block os (pb_tk P) a;
       Some (P\<lparr>pb_tk := T, g_queue_counter_free := g_queue_counter_free P + 1\<rparr>) }
   | EVENT_REALLOC addressOld addressNew sizeOld sizeNew isHot \<Rightarrow> do {
       T \<leftarrow> unregister_block os (pb_tk P) addressOld;
       T \<leftarrow> register_block os T 0 addressNew sizeNew isHot;
       T \<leftarrow> register_block_in_ranking os T addressNew sizeNew;
       Some (P\<lparr>pb_tk := T, g_queue_counter_realloc := g_queue_counter_realloc P + 1\<rparr>) }
   | EVENT_SET_TOUCH_CALLBACK a cb arg \<Rightarrow> do {
       (r, T) \<leftarrow> tachanka_set_touch_callback (pb_tk P) a cb arg;
       Some (P\<lparr>pb_tk := T, g_queue_counter_callback := g_queue_counter_callback P + 1\<rparr>) }
   | EVENT_TOUCH a timestamp \<Rightarrow> do {
       T \<leftarrow> touch os all_sizes (pb_tk P) a timestamp 0;
       Some (P\<lparr>pb_tk := T, g_queue_counter_touch := g_queue_counter_touch P + 1\<rparr>) })"

text \<open>
  The loop over the queue: at most \<open>n\<close> events.  \<open>event\<close> is the variable on the stack, with
  whatever it holds; \<open>sizes i\<close> is the total size at the \<open>i\<close>-th event of the cycle.
\<close>

primrec event_loop :: "os \<Rightarrow> (nat \<Rightarrow> size_t) \<Rightarrow> nat \<Rightarrow> nat \<Rightarrow> EventEntry \<Rightarrow> pebs \<Rightarrow> pebs option" where
  "event_loop os sizes 0 i event P = Some P"
| "event_loop os sizes (Suc n) i event P = do {
     (pop_success, event, T) \<leftarrow> tachanka_ranking_event_pop (pb_tk P) event;
     let P = P\<lparr>pb_tk := T\<rparr>;
     (if \<not> pop_success then Some P
      else do {
        P \<leftarrow> process_event os (sizes i) event P;
        event_loop os sizes n (Suc i) event
          (P\<lparr>g_queue_pop_counter := g_queue_pop_counter P + 1\<rparr>) }) }"

section \<open>Samples\<close>

record perf_event =
  pe_type :: "32 word"
  pe_size :: "16 word"
  pe_time :: "64 word"
  pe_addr :: "64 word"

definition PERF_RECORD_SAMPLE :: "32 word" where
  "PERF_RECORD_SAMPLE = 9"

definition MMAP_DATA_SIZE :: "64 word" where
  "MMAP_DATA_SIZE = 8"

text \<open>
  The kernel's side of a cycle: \<open>heads j\<close> is the \<open>j\<close>-th value read from \<open>data_head\<close>,
  \<open>ring off\<close> the record at that offset of the data area, \<open>page\<close> the page size.  The counter of
  touches grows with every sample, whether or not touches are processed.
\<close>

record kernel =
  heads :: "nat \<Rightarrow> 64 word"
  ring :: "64 word \<Rightarrow> perf_event"
  page :: "64 word"
  sample_sizes :: "nat \<Rightarrow> size_t"

definition process_sample :: "os \<Rightarrow> size_t \<Rightarrow> perf_event \<Rightarrow> pebs \<Rightarrow> pebs option" where
  "process_sample os all_sizes e P =
     (if pe_type e = PERF_RECORD_SAMPLE then do {
        T \<leftarrow> (if shouldProcessTouches P then touch os all_sizes (pb_tk P) (pe_addr e) (pe_time e) 0
              else Some (pb_tk P));
        Some (P\<lparr>pb_tk := T, g_queue_counter_touch := g_queue_counter_touch P + 1\<rparr>) }
      else Some P)"

text \<open>A record of size 0 makes the loop run forever.  The result is the number of reads done.\<close>

partial_function (option) sample_loop :: "os \<Rightarrow> kernel \<Rightarrow> nat \<Rightarrow> pebs \<Rightarrow> (nat \<times> pebs) option" where
  "sample_loop os K j P =
     (if pb_last_head P < heads K j then do {
        let e = ring K (pb_last_head P mod (MMAP_DATA_SIZE * page K));
        P \<leftarrow> process_sample os (sample_sizes K j) e P;
        sample_loop os K (Suc j) (P\<lparr>pb_last_head := pb_last_head P + ucast (pe_size e)\<rparr>) }
      else Some (Suc j, P))"

definition read_samples :: "os \<Rightarrow> kernel \<Rightarrow> pebs \<Rightarrow> pebs option" where
  "read_samples os K P = do {
     (j, P) \<leftarrow> (if pb_last_head P < heads K 0 then sample_loop os K 1 P else Some (1, P));
     let P = P\<lparr>pb_last_head := heads K j\<rparr>;
     Some (P\<lparr>pb_data_tail := heads K (Suc j)\<rparr>) }"

section \<open>The thread\<close>

text \<open>
  One cycle, and the thread as a sequence of cycles.  What a cycle sees of its environment is
  a record: the state of the thread, the kernel, the sizes, the content of the stack, and
  whether the clock can be read.
\<close>

record cycle_env =
  ce_state :: ThreadState
  ce_kernel :: kernel
  ce_sizes :: "nat \<Rightarrow> size_t"
  ce_stack :: EventEntry
  ce_clock_ok :: bool

definition pebs_cycle :: "os \<Rightarrow> timespec \<Rightarrow> cycle_env \<Rightarrow> pebs \<Rightarrow> pebs option" where
  "pebs_cycle os tv_period ce P = do {
     P \<leftarrow> event_loop os (ce_sizes ce) HOTNESS_RANKING_EVENT_ITERATIONS_PER_CYCLE 0 (ce_stack ce) P;
     P \<leftarrow> read_samples os (ce_kernel ce) P;
     T \<leftarrow> tachanka_update_threshold (pb_tk P);
     let P = P\<lparr>pb_tk := T\<rparr>;
     c_assert (ce_clock_ok ce);
     Some (P\<lparr>pb_ntime := timespec_add (pb_ntime P) tv_period\<rparr>) }"

primrec monitor_loop :: "os \<Rightarrow> timespec \<Rightarrow> cycle_env list \<Rightarrow> pebs \<Rightarrow> pebs option" where
  "monitor_loop os tv_period [] P = Some P"
| "monitor_loop os tv_period (ce # ces) P =
     (if ce_state ce = THREAD_FINISHED then Some P
      else do { P \<leftarrow> pebs_cycle os tv_period ce P; monitor_loop os tv_period ces P })"

text \<open>\<open>now\<close> is the reading of the clock at the start, if it succeeds.\<close>

definition pebs_monitor :: "os \<Rightarrow> real \<Rightarrow> timespec option \<Rightarrow> cycle_env list \<Rightarrow> pebs \<Rightarrow> pebs option" where
  "pebs_monitor os pebs_freq_hz now ces P = do {
     let tv_period = timespec_millis_to_timespec (1000 / pebs_freq_hz);
     let P = P\<lparr>pb_last_head := 0\<rparr>;
     ntime \<leftarrow> now;
     monitor_loop os tv_period ces (P\<lparr>pb_ntime := timespec_add ntime tv_period\<rparr>) }"

end
