(* ===== verification/Pebs_Correct.thy ===== *)
theory Pebs_Correct
  imports Pebs
begin

text \<open>
  Correctness of the background thread: an event is handled as the specification says, a
  cycle takes events off the queue in order, the walk over the samples ends, and the
  deadlines advance by exactly the period.
\<close>

section \<open>Events\<close>

definition pb_same :: "pebs \<Rightarrow> pebs \<Rightarrow> bool" where
  "pb_same P P' \<longleftrightarrow> g_queue_pop_counter P' = g_queue_pop_counter P \<and>
     shouldProcessTouches P' = shouldProcessTouches P \<and> pb_last_head P' = pb_last_head P \<and>
     pb_data_tail P' = pb_data_tail P \<and> pb_ntime P' = pb_ntime P"

lemma process_event_run:
  assumes rep: "tk_rep (pb_tk P) s" and ac: "acct s" and ok: "event_ok s ev" and room: "tk_room os 1 (pb_tk P)"
  shows "\<exists>P'. process_event os n ev P = Some P' \<and> tk_rep (pb_tk P') (spec_event n ev s) \<and>
    tk_frame (pb_tk P) (pb_tk P') \<and> pb_same P P'"
proof (cases ev)
  case (EVENT_CREATE_ADD hash a sz hot)
  with create_run [OF rep _ room, of a hash sz hot] ok show ?thesis
    by (auto simp: process_event_def pb_same_def)
next
  case (EVENT_DESTROY_REMOVE a sz)
  with destroy_run [OF rep ac, of os a] show ?thesis
    by (fastforce simp: process_event_def pb_same_def)
next
  case (EVENT_REALLOC a a' sz sz' hot)
  from destroy_run [OF rep ac, of os a 0] room obtain T1
    where T1: "unregister_block os (pb_tk P) a = Some T1" "tk_rep T1 (spec_destroy a s)"
      "tk_frame (pb_tk P) T1" "tk_room os 0 T1" by auto
  have "sp_blocks (spec_destroy a s) a' = None" using ok EVENT_REALLOC by (simp add: destroy_blocks [OF ac])
  from create_run [OF T1(2) this T1(4), of 0 sz' hot] obtain T2 T3
    where "register_block os T1 0 a' sz' hot = Some T2" "register_block_in_ranking os T2 a' sz' = Some T3"
      "tk_rep T3 (spec_create 0 a' sz' hot (spec_destroy a s))" "tk_frame T1 T3" by blast
  then show ?thesis using T1(1) tk_frame_trans [OF T1(3)]
    by (auto simp: process_event_def pb_same_def EVENT_REALLOC)
next
  case (EVENT_TOUCH a ts)
  with touch_run [OF rep ac room, of n a ts] show ?thesis
    by (auto simp: process_event_def pb_same_def)
next
  case (EVENT_SET_TOUCH_CALLBACK a cb arg)
  with callback_run [OF rep tk_room_count [OF room], of a cb arg] show ?thesis
    by (auto simp: process_event_def pb_same_def)
qed

text \<open>The events of a cycle, on the specification and on the queue.\<close>

primrec spec_events :: "(nat \<Rightarrow> size_t) \<Rightarrow> nat \<Rightarrow> EventEntry list \<Rightarrow> tk_spec \<Rightarrow> tk_spec" where
  "spec_events sizes i [] s = s"
| "spec_events sizes i (ev # evs) s = spec_events sizes (Suc i) evs (spec_event (sizes i) ev s)"

primrec events_ok :: "(nat \<Rightarrow> size_t) \<Rightarrow> nat \<Rightarrow> EventEntry list \<Rightarrow> tk_spec \<Rightarrow> bool" where
  "events_ok sizes i [] s \<longleftrightarrow> True"
| "events_ok sizes i (ev # evs) s \<longleftrightarrow>
     event_ok s ev \<and> events_ok sizes (Suc i) evs (spec_event (sizes i) ev s)"

text \<open>Memory is available whenever the loop takes an event off the queue.\<close>

primrec loop_room :: "os \<Rightarrow> (nat \<Rightarrow> size_t) \<Rightarrow> nat \<Rightarrow> nat \<Rightarrow> EventEntry \<Rightarrow> pebs \<Rightarrow> bool" where
  "loop_room os sizes 0 i event P \<longleftrightarrow> True"
| "loop_room os sizes (Suc n) i event P \<longleftrightarrow> (case tachanka_ranking_event_pop (pb_tk P) event of
     Some (True, ev, T) \<Rightarrow> tk_room os 1 T \<and> (case process_event os (sizes i) ev (P\<lparr>pb_tk := T\<rparr>) of
        None \<Rightarrow> True
      | Some P' \<Rightarrow> loop_room os sizes n (Suc i) ev
          (P'\<lparr>g_queue_pop_counter := g_queue_pop_counter P' + 1\<rparr>))
   | _ \<Rightarrow> True)"

lemma queue_rep [simp]: "tk_rep (T\<lparr>ranking_event_buff := q\<rparr>) s \<longleftrightarrow> tk_rep T s"
  by (simp add: tk_rep_def types_ok_def blocks_ok_def abs_types_def [abs_def] abs_blocks_def [abs_def])

lemma event_pop_run:
  assumes "lq_rep (ranking_event_buff T) evs" "tk_initialized T"
  shows "case evs of
      [] \<Rightarrow> tachanka_ranking_event_pop T event = Some (False, event, T)
    | ev # evs' \<Rightarrow> \<exists>q. tachanka_ranking_event_pop T event = Some (True, ev, T\<lparr>ranking_event_buff := q\<rparr>) \<and>
        lq_rep q evs' \<and> lq_size q = lq_size (ranking_event_buff T)"
proof (cases evs)
  case Nil
  with events.pop_empty [of "ranking_event_buff T" event] assms show ?thesis
    by (simp add: tachanka_ranking_event_pop_def)
next
  case (Cons ev evs')
  with events.pop_front [of "ranking_event_buff T" ev evs' event] assms obtain q
    where "ranking_event_pop (ranking_event_buff T) event = Some (True, ev, q)" "lq_rep q evs'"
      "unat (lq_size q) = unat (lq_size (ranking_event_buff T))" by auto
  moreover have "lq_size q = lq_size (ranking_event_buff T)" using calculation(3) by (simp add: unsigned_word_eqI)
  ultimately show ?thesis using Cons assms(2)
    by (simp add: tachanka_ranking_event_pop_def) blast
qed

lemma event_loop_run:
  assumes "tk_rep (pb_tk P) s" "acct s" "lq_rep (ranking_event_buff (pb_tk P)) evs" "tk_initialized (pb_tk P)"
    and "events_ok sizes i (take n evs) s" "loop_room os sizes n i event P"
  shows "\<exists>P'. event_loop os sizes n i event P = Some P' \<and>
    tk_rep (pb_tk P') (spec_events sizes i (take n evs) s) \<and> acct (spec_events sizes i (take n evs) s) \<and>
    lq_rep (ranking_event_buff (pb_tk P')) (drop n evs) \<and> tk_initialized (pb_tk P') \<and>
    g_queue_pop_counter P' = g_queue_pop_counter P + of_nat (length (take n evs)) \<and>
    same_settings (tk_ranking (pb_tk P)) (tk_ranking (pb_tk P'))"
  using assms
proof (induction n arbitrary: P s evs i event)
  case (Suc n)
  note pop = event_pop_run [OF Suc.prems(3,4), of event]
  show ?case
  proof (cases evs)
    case Nil
    with pop have "tachanka_ranking_event_pop (pb_tk P) event = Some (False, event, pb_tk P)" by simp
    then show ?thesis using Suc.prems Nil by auto
  next
    case (Cons ev evs')
    with pop obtain q where q: "tachanka_ranking_event_pop (pb_tk P) event =
        Some (True, ev, (pb_tk P)\<lparr>ranking_event_buff := q\<rparr>)" "lq_rep q evs'" by auto
    define P0 where "P0 = P\<lparr>pb_tk := (pb_tk P)\<lparr>ranking_event_buff := q\<rparr>\<rparr>"
    have rep: "tk_rep (pb_tk P0) s" and room: "tk_room os 1 (pb_tk P0)" and ok: "event_ok s ev"
      using Suc.prems Cons q(1) by (simp_all add: P0_def)
    from process_event_run [OF rep Suc.prems(2) ok room, of "sizes i"] obtain P1
      where P1: "process_event os (sizes i) ev P0 = Some P1"
        "tk_rep (pb_tk P1) (spec_event (sizes i) ev s)" "tk_frame (pb_tk P0) (pb_tk P1)" "pb_same P0 P1" by blast
    let ?P = "P1\<lparr>g_queue_pop_counter := g_queue_pop_counter P1 + 1\<rparr>"
    have "\<exists>P'. event_loop os sizes n (Suc i) ev ?P = Some P' \<and>
        tk_rep (pb_tk P') (spec_events sizes (Suc i) (take n evs') (spec_event (sizes i) ev s)) \<and>
        acct (spec_events sizes (Suc i) (take n evs') (spec_event (sizes i) ev s)) \<and>
        lq_rep (ranking_event_buff (pb_tk P')) (drop n evs') \<and> tk_initialized (pb_tk P') \<and>
        g_queue_pop_counter P' = g_queue_pop_counter ?P + of_nat (length (take n evs')) \<and>
        same_settings (tk_ranking (pb_tk ?P)) (tk_ranking (pb_tk P'))"
    proof (rule Suc.IH)
      show "tk_rep (pb_tk ?P) (spec_event (sizes i) ev s)" using P1(2) by simp
      show "acct (spec_event (sizes i) ev s)" by (rule acct_event [OF Suc.prems(2) ok])
      show "lq_rep (ranking_event_buff (pb_tk ?P)) evs'" "tk_initialized (pb_tk ?P)"
        using P1(3) q(2) Suc.prems(4) by (simp_all add: tk_frame_def P0_def)
      show "events_ok sizes (Suc i) (take n evs') (spec_event (sizes i) ev s)"
        using Suc.prems(5) Cons by simp
      show "loop_room os sizes n (Suc i) ev ?P"
        using Suc.prems(6) q(1) P1(1) by (simp add: P0_def)
    qed
    moreover have "event_loop os sizes (Suc n) i event P = event_loop os sizes n (Suc i) ev ?P"
      using q(1) P1(1) by (simp add: P0_def)
    moreover have "g_queue_pop_counter P1 = g_queue_pop_counter P"
      "same_settings (tk_ranking (pb_tk P)) (tk_ranking (pb_tk P1))"
      using P1(3,4) by (simp_all add: pb_same_def P0_def tk_frame_def)
    ultimately show ?thesis using Cons by (auto simp: same_settings_def)
  qed
qed auto

section \<open>Samples\<close>

text \<open>
  The walk over the ring: where the reader stands after \<open>n\<close> records from offset \<open>h\<close>, and what
  the records mean.  With the processing of touches on, a sample is a touch of its address at
  its time; the \<open>i\<close>-th record is handled when \<open>data_head\<close> has been read \<open>j + i\<close> times.
\<close>

definition record_at :: "kernel \<Rightarrow> 64 word \<Rightarrow> perf_event" where
  "record_at K h = ring K (h mod (MMAP_DATA_SIZE * page K))"

primrec walk :: "kernel \<Rightarrow> nat \<Rightarrow> 64 word \<Rightarrow> 64 word" where
  "walk K 0 h = h"
| "walk K (Suc n) h = walk K n (h + ucast (pe_size (record_at K h)))"

definition spec_sample :: "bool \<Rightarrow> size_t \<Rightarrow> perf_event \<Rightarrow> tk_spec \<Rightarrow> tk_spec" where
  "spec_sample on all_sizes e s = (if on \<and> pe_type e = PERF_RECORD_SAMPLE
     then spec_event all_sizes (EVENT_TOUCH (pe_addr e) (pe_time e)) s else s)"

primrec spec_walk :: "kernel \<Rightarrow> bool \<Rightarrow> nat \<Rightarrow> nat \<Rightarrow> 64 word \<Rightarrow> tk_spec \<Rightarrow> tk_spec" where
  "spec_walk K on 0 j h s = s"
| "spec_walk K on (Suc n) j h s = spec_walk K on n (Suc j) (h + ucast (pe_size (record_at K h)))
     (spec_sample on (sample_sizes K j) (record_at K h) s)"

text \<open>Memory is available whenever the loop handles a record.\<close>

primrec after_records :: "os \<Rightarrow> kernel \<Rightarrow> nat \<Rightarrow> nat \<Rightarrow> pebs \<Rightarrow> pebs option" where
  "after_records os K 0 j P = Some P"
| "after_records os K (Suc n) j P = (if pb_last_head P < heads K j then do {
     let e = record_at K (pb_last_head P);
     P \<leftarrow> process_sample os (sample_sizes K j) e P;
     after_records os K n (Suc j) (P\<lparr>pb_last_head := pb_last_head P + ucast (pe_size e)\<rparr>) } else None)"

definition walk_room :: "os \<Rightarrow> kernel \<Rightarrow> nat \<Rightarrow> pebs \<Rightarrow> bool" where
  "walk_room os K j P \<longleftrightarrow> (\<forall>n P'. after_records os K n j P = Some P' \<and> pb_last_head P' < heads K (j + n) \<longrightarrow>
     tk_room os 1 (pb_tk P'))"

lemma unat_ucast_up_16: "unat (ucast (x :: 16 word) :: 64 word) = unat x"
  by (simp add: unsigned_ucast_eq take_bit_nat_eq_self unsigned_less [THEN less_trans])

lemma process_sample_run:
  assumes "tk_rep (pb_tk P) s" "acct s" "shouldProcessTouches P \<longrightarrow> tk_room os 1 (pb_tk P)"
  shows "\<exists>P'. process_sample os n e P = Some P' \<and>
    tk_rep (pb_tk P') (spec_sample (shouldProcessTouches P) n e s) \<and>
    acct (spec_sample (shouldProcessTouches P) n e s) \<and> pb_same P P'"
proof (cases "shouldProcessTouches P \<and> pe_type e = PERF_RECORD_SAMPLE")
  case True
  have ok: "event_ok s (EVENT_TOUCH (pe_addr e) (pe_time e))" by simp
  from process_event_run [OF assms(1,2) ok, of os n] assms(3) True obtain P' where
    "process_event os n (EVENT_TOUCH (pe_addr e) (pe_time e)) P = Some P'"
    "tk_rep (pb_tk P') (spec_event n (EVENT_TOUCH (pe_addr e) (pe_time e)) s)" "pb_same P P'" by blast
  moreover have "process_sample os n e P = process_event os n (EVENT_TOUCH (pe_addr e) (pe_time e)) P"
    using True by (simp add: process_sample_def process_event_def)
  ultimately show ?thesis using True acct_event [OF assms(2) ok, of n] by (simp add: spec_sample_def)
next
  case False
  then show ?thesis using assms by (auto simp: process_sample_def spec_sample_def pb_same_def)
qed

lemma walk_room_step:
  assumes "walk_room os K j P" "pb_last_head P < heads K j"
    and "process_sample os (sample_sizes K j) (record_at K (pb_last_head P)) P = Some P1"
    and "pb_last_head P1 = pb_last_head P"
  shows "tk_room os 1 (pb_tk P)"
    and "walk_room os K (Suc j) (P1\<lparr>pb_last_head := pb_last_head P + ucast (pe_size (record_at K (pb_last_head P)))\<rparr>)"
proof -
  from assms(1) [unfolded walk_room_def, THEN spec [of _ 0]] assms(2) show "tk_room os 1 (pb_tk P)" by simp
  show "walk_room os K (Suc j) (P1\<lparr>pb_last_head := pb_last_head P + ucast (pe_size (record_at K (pb_last_head P)))\<rparr>)"
    unfolding walk_room_def
  proof (intro allI)
    fix n P'
    from assms(1) [unfolded walk_room_def, THEN spec [of _ "Suc n"], THEN spec [of _ P']] assms(2-)
    show "after_records os K n (Suc j)
        (P1\<lparr>pb_last_head := pb_last_head P + ucast (pe_size (record_at K (pb_last_head P)))\<rparr>) = Some P' \<and>
      pb_last_head P' < heads K (Suc j + n) \<longrightarrow> tk_room os 1 (pb_tk P')"
      by (simp add: Let_def)
  qed
qed

lemma record_advance:
  assumes "\<forall>off. pe_size (ring K off) \<noteq> 0" "l < h" "unat h + 65536 \<le> 2 ^ 64"
  shows "unat l < unat (l + ucast (pe_size (record_at K l)))"
proof -
  let ?w = "ucast (pe_size (record_at K l)) :: 64 word"
  have w: "unat ?w = unat (pe_size (record_at K l))" by (rule unat_ucast_up_16)
  have "pe_size (record_at K l) \<noteq> 0" using assms(1) by (simp add: record_at_def)
  then have "0 < unat ?w" by (simp add: w unat_gt_0)
  moreover have "unat ?w < 65536" unfolding w using unsigned_less [of "pe_size (record_at K l)"] by simp
  moreover have "unat l < unat h" using assms(2) by (simp add: word_less_nat_alt)
  ultimately have "unat l + unat ?w < 2 ^ LENGTH(64)" "unat l < unat l + unat ?w" using assms(3) by simp_all
  then show ?thesis using unat_add_nowrap [of l ?w] by simp
qed

lemma sample_loop_run:
  assumes "\<forall>i. heads K i \<le> h" "\<forall>off. pe_size (ring K off) \<noteq> 0" "unat h + 65536 \<le> 2 ^ 64"
    and "tk_rep (pb_tk P) s" "acct s" "shouldProcessTouches P \<longrightarrow> walk_room os K j P"
  shows "\<exists>n P'. sample_loop os K j P = Some (j + n + 1, P') \<and> n \<le> unat h - unat (pb_last_head P) \<and>
    pb_last_head P' = walk K n (pb_last_head P) \<and> heads K (j + n) \<le> pb_last_head P' \<and>
    (\<forall>m<n. walk K m (pb_last_head P) < heads K (j + m)) \<and>
    tk_rep (pb_tk P') (spec_walk K (shouldProcessTouches P) n j (pb_last_head P) s) \<and>
    acct (spec_walk K (shouldProcessTouches P) n j (pb_last_head P) s)"
  using assms(4-)
proof (induction "unat h - unat (pb_last_head P)" arbitrary: P j s rule: less_induct)
  case less
  define l on where "l = pb_last_head P" and "on = shouldProcessTouches P"
  show ?case
  proof (cases "l < heads K j")
    case False
    then have "sample_loop os K j P = Some (Suc j, P)"
      by (subst sample_loop.simps) (simp add: l_def)
    then show ?thesis using False less.prems by (intro exI [of _ 0] exI [of _ P]) (simp add: l_def)
  next
    case True
    define e s1 l1 where "e = record_at K l" and "s1 = spec_sample on (sample_sizes K j) e s"
      and "l1 = l + ucast (pe_size e)"
    have lt: "l < h" using True assms(1) by (meson less_le_trans)
    have adv: "unat l < unat l1" unfolding l1_def e_def by (rule record_advance [OF assms(2) lt assms(3)])
    have room: "shouldProcessTouches P \<longrightarrow> tk_room os 1 (pb_tk P)"
      using less.prems(3) True [unfolded l_def]
      by (auto simp: walk_room_def dest: spec [of _ 0])
    from process_sample_run [OF less.prems(1,2) room, of "sample_sizes K j" e] obtain P1 where
      P1: "process_sample os (sample_sizes K j) e P = Some P1" "tk_rep (pb_tk P1) s1" "acct s1" "pb_same P P1"
      by (auto simp: s1_def on_def)
    let ?P = "P1\<lparr>pb_last_head := l1\<rparr>"
    have same: "pb_last_head P1 = l" "shouldProcessTouches ?P = on"
      using P1(4) by (simp_all add: pb_same_def l_def on_def)
    have step: "sample_loop os K j P = sample_loop os K (Suc j) ?P"
      using True P1(1) same(1) by (subst sample_loop.simps) (simp add: l_def e_def record_at_def l1_def Let_def)
    have dec: "unat h - unat (pb_last_head ?P) < unat h - unat (pb_last_head P)"
      using adv lt by (simp add: l_def word_less_nat_alt diff_less_mono2)
    have "shouldProcessTouches ?P \<longrightarrow> walk_room os K (Suc j) ?P"
      using walk_room_step(2) [of os K j P P1] less.prems(3) True P1(1) same by (simp add: on_def l_def e_def l1_def)
    from less.hyps [OF dec _ P1(3) this] P1(2) obtain n P' where
      r: "sample_loop os K (Suc j) ?P = Some (Suc j + n + 1, P')" "n \<le> unat h - unat l1"
        "pb_last_head P' = walk K n l1" "heads K (Suc j + n) \<le> pb_last_head P'"
        "\<forall>m<n. walk K m l1 < heads K (Suc j + m)" "tk_rep (pb_tk P') (spec_walk K on n (Suc j) l1 s1)"
        "acct (spec_walk K on n (Suc j) l1 s1)" using same(2) by auto
    have wk: "walk K (Suc m) l = walk K m l1" "spec_walk K on (Suc m) j l s = spec_walk K on m (Suc j) l1 s1" for m
      by (simp_all add: l1_def e_def s1_def)
    have "\<forall>m<Suc n. walk K m l < heads K (j + m)"
    proof (intro allI impI)
      fix m assume "m < Suc n"
      then show "walk K m l < heads K (j + m)" using r(5) True wk by (cases m) simp_all
    qed
    moreover have "Suc n \<le> unat h - unat l" using r(2) dec by (simp add: l_def)
    ultimately show ?thesis using step r unfolding l_def [symmetric] on_def [symmetric]
      by (intro exI [of _ "Suc n"] exI [of _ P']) (simp only: wk, simp)
  qed
qed

section \<open>Deadlines\<close>

definition nanos :: "timespec \<Rightarrow> nat" where
  "nanos t = unat (tv_sec t) * 1000000000 + unat (tv_nsec t)"

definition normal :: "timespec \<Rightarrow> bool" where
  "normal t \<longleftrightarrow> unat (tv_nsec t) < 1000000000"

lemma timespec_add_run:
  assumes "normal t" "normal d" "unat (tv_sec t) + unat (tv_sec d) + 1 < 2 ^ 64"
  shows "nanos (timespec_add t d) = nanos t + nanos d" "normal (timespec_add t d)"
    "unat (tv_sec (timespec_add t d)) \<le> unat (tv_sec t) + unat (tv_sec d) + 1"
proof -
  define n where "n = unat (tv_nsec t) + unat (tv_nsec d)"
  have n: "n < 2000000000" using assms(1,2) by (simp add: normal_def n_def)
  have ns: "unat (tv_nsec t + tv_nsec d) = n" unfolding n_def
    by (rule unat_add_nowrap) (use n in \<open>simp add: n_def\<close>)
  have q: "n div 1000000000 \<le> 1" using n by linarith
  have sec: "unat (tv_sec t + tv_sec d) = unat (tv_sec t) + unat (tv_sec d)"
    by (rule unat_add_nowrap) (use assms(3) in simp)
  have dv: "unat ((tv_nsec t + tv_nsec d) div S_TO_NS) = n div 1000000000"
    by (simp add: unat_div ns S_TO_NS_def)
  have md: "unat ((tv_nsec t + tv_nsec d) mod S_TO_NS) = n mod 1000000000"
    by (simp add: unat_mod ns S_TO_NS_def)
  have s: "unat (tv_sec (timespec_add t d)) = unat (tv_sec t) + unat (tv_sec d) + n div 1000000000"
    unfolding timespec_add_def Let_def
    by (simp, subst unat_add_nowrap) (use sec dv q assms(3) in simp_all)
  have m: "unat (tv_nsec (timespec_add t d)) = n mod 1000000000"
    by (simp add: timespec_add_def Let_def md)
  have "n div 1000000000 * 1000000000 + n mod 1000000000 = n" by simp
  then show "nanos (timespec_add t d) = nanos t + nanos d"
    by (simp add: nanos_def s m n_def algebra_simps)
  show "normal (timespec_add t d)" by (simp add: normal_def m)
  show "unat (tv_sec (timespec_add t d)) \<le> unat (tv_sec t) + unat (tv_sec d) + 1" using s q by simp
qed

section \<open>Properties\<close>

text \<open>
  C4: Every event of the queue is handled as the specification says.  While the memory below
  has room, a new block does not sit at the address of a live one and all sizes together
  stay below 2^64, the handler returns and has the specified effect on the live blocks, the
  types, the ranking and the callbacks made; and the accounting holds again: the count, size
  and DRAM size of every type are the sums over its live blocks, and the ranking holds at
  every hotness exactly the size of the blocks whose type has that hotness.
\<close>

theorem process_event_correct:
  assumes "tk_rep (pb_tk P) s" "acct s" "event_ok s ev" "tk_room os 1 (pb_tk P)"
  shows "\<exists>P'. process_event os n ev P = Some P' \<and> tk_rep (pb_tk P') (spec_event n ev s) \<and>
    acct (spec_event n ev s) \<and> tk_frame (pb_tk P) (pb_tk P')"
  using process_event_run [OF assms, of n] acct_event [OF assms(2,3), of n] by blast

definition demo_pebs :: pebs where
  "demo_pebs = \<lparr>pb_tk = demo_tk, g_queue_pop_counter = 0, g_queue_counter_malloc = 0,
     g_queue_counter_realloc = 0, g_queue_counter_callback = 0, g_queue_counter_free = 0,
     g_queue_counter_touch = 0, shouldProcessTouches = False, pb_last_head = 16, pb_data_tail = 0,
     pb_ntime = \<lparr>tv_sec = 5, tv_nsec = 999999999\<rparr>\<rparr>"

lemma process_event_correct_witness:
  "\<exists>P'. process_event demo_os 100 (EVENT_CREATE_ADD 7 4096 100 True) demo_pebs = Some P' \<and>
     tk_rep (pb_tk P') (spec_create 7 4096 100 True (empty_spec []))"
  using process_event_correct [of demo_pebs "empty_spec []" "EVENT_CREATE_ADD 7 4096 100 True" demo_os 100]
    demo_tk_rep(1) acct_empty demo_tk_room by (auto simp: demo_pebs_def empty_spec_def)

text \<open>
  C16: A cycle of the background thread takes events off the queue first in, first out, at most
  as many as its bound, handles each of them, and leaves the rest of the queue in order; the
  counter of events grows by the number handled.
\<close>

theorem event_loop_correct:
  assumes "tk_rep (pb_tk P) s" "acct s" "lq_rep (ranking_event_buff (pb_tk P)) evs" "tk_initialized (pb_tk P)"
    and "events_ok sizes i (take n evs) s" "loop_room os sizes n i event P"
  shows "\<exists>P'. event_loop os sizes n i event P = Some P' \<and>
    tk_rep (pb_tk P') (spec_events sizes i (take n evs) s) \<and> acct (spec_events sizes i (take n evs) s) \<and>
    lq_rep (ranking_event_buff (pb_tk P')) (drop n evs) \<and>
    g_queue_pop_counter P' = g_queue_pop_counter P + of_nat (length (take n evs))"
  using event_loop_run [OF assms] by blast

lemma demo_push:
  "\<exists>q. tachanka_ranking_event_push demo_tk (EVENT_CREATE_ADD 7 4096 100 True) =
     Some (True, demo_tk\<lparr>ranking_event_buff := q\<rparr>) \<and> lq_rep q [EVENT_CREATE_ADD 7 4096 100 True]"
proof -
  have "unat (lq_size (ranking_event_buff demo_tk)) = 2"
    using tachanka_init_run [OF demo_boot_ok, of demo_tk0 "4 / 10"] demo_tk_init by auto
  with events.push_room [OF demo_tk_rep(3), of "EVENT_CREATE_ADD 7 4096 100 True"] show ?thesis
    by (auto simp: tachanka_ranking_event_push_def demo_tk_rep(2))
qed

lemma event_loop_correct_witness:
  "\<exists>T P'. tachanka_ranking_event_push demo_tk (EVENT_CREATE_ADD 7 4096 100 True) = Some (True, T) \<and>
     event_loop demo_os (\<lambda>_. 100) 1 0 (EVENT_TOUCH 0 0) (demo_pebs\<lparr>pb_tk := T\<rparr>) = Some P' \<and>
     tk_rep (pb_tk P') (spec_create 7 4096 100 True (empty_spec [])) \<and>
     lq_rep (ranking_event_buff (pb_tk P')) [] \<and> g_queue_pop_counter P' = 1"
proof -
  let ?ev = "EVENT_CREATE_ADD 7 4096 100 True"
  from demo_push obtain q where q: "tachanka_ranking_event_push demo_tk ?ev =
      Some (True, demo_tk\<lparr>ranking_event_buff := q\<rparr>)" "lq_rep q [?ev]" by blast
  let ?T = "demo_tk\<lparr>ranking_event_buff := q\<rparr>" and ?P = "demo_pebs\<lparr>pb_tk := demo_tk\<lparr>ranking_event_buff := q\<rparr>\<rparr>"
  from event_pop_run [of ?T "[?ev]" "EVENT_TOUCH 0 0"] q(2) demo_tk_rep(2) obtain q' where
    "tachanka_ranking_event_pop ?T (EVENT_TOUCH 0 0) = Some (True, ?ev, ?T\<lparr>ranking_event_buff := q'\<rparr>)" by auto
  then have room: "loop_room demo_os (\<lambda>_. 100) 1 0 (EVENT_TOUCH 0 0) ?P"
    using demo_tk_room by (simp add: tk_room_def split: option.splits)
  have ok: "events_ok (\<lambda>_. 100) 0 (take 1 [?ev]) (empty_spec [])" by (simp add: empty_spec_def)
  have "tk_rep (pb_tk ?P) (empty_spec [])" "lq_rep (ranking_event_buff (pb_tk ?P)) [?ev]" "tk_initialized (pb_tk ?P)"
    using demo_tk_rep q(2) by simp_all
  from event_loop_correct [OF this(1) acct_empty this(2,3) ok room] q(1) show ?thesis
    by (auto simp: demo_pebs_def)
qed

text \<open>
  C30: The walk over the ring of samples ends, and does what the samples say.  The kernel may move
  its head while the thread reads, but not beyond a bound \<open>h\<close>, since it does not overwrite what
  the thread has not released, and the bound is not within 64 KiB of wrapping; no record has
  size 0; and, if hardware touches are processed, memory is available for every record.  Then
  the loop returns after at most as many records as there are bytes up to \<open>h\<close>.  It stops at the
  first record boundary at or after the head it reads there, and the table and the ranking have
  changed as by the touches of the samples in the order of the ring, or not at all when the
  processing of touches is off; the accounting holds again.
\<close>

theorem sample_loop_terminates:
  assumes "\<forall>i. heads K i \<le> h" "\<forall>off. pe_size (ring K off) \<noteq> 0" "unat h + 65536 \<le> 2 ^ 64"
    and "tk_rep (pb_tk P) s" "acct s" "shouldProcessTouches P \<longrightarrow> walk_room os K j P"
  shows "\<exists>n P'. sample_loop os K j P = Some (j + n + 1, P') \<and> n \<le> unat h - unat (pb_last_head P) \<and>
    pb_last_head P' = walk K n (pb_last_head P) \<and> heads K (j + n) \<le> pb_last_head P' \<and>
    (\<forall>m<n. walk K m (pb_last_head P) < heads K (j + m)) \<and>
    tk_rep (pb_tk P') (spec_walk K (shouldProcessTouches P) n j (pb_last_head P) s) \<and>
    acct (spec_walk K (shouldProcessTouches P) n j (pb_last_head P) s)"
  by (rule sample_loop_run [OF assms])

text \<open>A ring with one sample, and the processing of touches on.\<close>

definition demo_samples :: kernel where
  "demo_samples = \<lparr>heads = (\<lambda>_. 40), ring = (\<lambda>_. \<lparr>pe_type = 9, pe_size = 24, pe_time = 1000, pe_addr = 4150\<rparr>),
     page = 4096, sample_sizes = (\<lambda>_. 100)\<rparr>"

lemma demo_walk_room:
  "walk_room demo_os demo_samples 1 (demo_pebs\<lparr>shouldProcessTouches := True\<rparr>)"
  unfolding walk_room_def
proof (intro allI impI)
  fix n P'
  let ?P = "demo_pebs\<lparr>shouldProcessTouches := True\<rparr>"
  have same: "pb_last_head P1 = pb_last_head P" if "process_sample os m e P = Some P1" for os m e P P1
    using that by (auto simp: process_sample_def split: if_splits bind_splits)
  have h: "heads demo_samples i = 40" "pe_size (record_at demo_samples l) = 24" "pb_last_head ?P = 16" for i l
    by (simp_all add: demo_samples_def record_at_def demo_pebs_def)
  assume "after_records demo_os demo_samples n 1 ?P = Some P' \<and> pb_last_head P' < heads demo_samples (1 + n)"
  moreover have "\<not> (after_records demo_os demo_samples (Suc m) 1 ?P = Some P' \<and> pb_last_head P' < 40)" for m
    by (cases m) (auto simp: h Let_def split: bind_splits dest!: same)
  ultimately have "n = 0" unfolding h by (cases n) blast+
  then show "tk_room demo_os 1 (pb_tk P')"
    using \<open>after_records demo_os demo_samples n 1 ?P = Some P' \<and> _\<close> demo_tk_room by (auto simp: demo_pebs_def)
qed

lemma sample_loop_terminates_witness:
  "\<exists>n P'. sample_loop demo_os demo_samples 1 (demo_pebs\<lparr>shouldProcessTouches := True\<rparr>) = Some (n, P') \<and>
     40 \<le> pb_last_head P'"
proof -
  let ?P = "demo_pebs\<lparr>shouldProcessTouches := True\<rparr>"
  have "\<forall>i. heads demo_samples i \<le> 40" "\<forall>off. pe_size (ring demo_samples off) \<noteq> 0" "unat (40 :: 64 word) + 65536 \<le> 2 ^ 64"
    "tk_rep (pb_tk ?P) (empty_spec [])" "acct (empty_spec [])"
    using demo_tk_rep(1) acct_empty by (simp_all add: demo_samples_def demo_pebs_def)
  then obtain n P' where "sample_loop demo_os demo_samples 1 ?P = Some (1 + n + 1, P')"
    "heads demo_samples (1 + n) \<le> pb_last_head P'"
    using sample_loop_terminates [of demo_samples 40 ?P "empty_spec []" demo_os 1] demo_walk_room by blast
  then show ?thesis by (auto simp: demo_samples_def)
qed

text \<open>
  The deadlines do not drift: adding a period to a deadline gives exactly the sum of the
  nanoseconds, with a normalised nanosecond part, as long as the seconds do not wrap.
\<close>

theorem timespec_add_exact:
  assumes "normal t" "normal d" "unat (tv_sec t) + unat (tv_sec d) + 1 < 2 ^ 64"
  shows "nanos (timespec_add t d) = nanos t + nanos d \<and> normal (timespec_add t d)"
  using timespec_add_run [OF assms] by blast

lemma timespec_add_exact_witness:
  "nanos (timespec_add \<lparr>tv_sec = 5, tv_nsec = 999999999\<rparr> \<lparr>tv_sec = 0, tv_nsec = 100000000\<rparr>) = 6099999999"
  using timespec_add_exact [of "\<lparr>tv_sec = 5, tv_nsec = 999999999\<rparr>" "\<lparr>tv_sec = 0, tv_nsec = 100000000\<rparr>"]
  by (simp add: normal_def nanos_def)

end
