(* ===== verification/Float32.thy ===== *)
theory Float32
  imports Prelude
begin

text \<open>
  The C type \<open>float\<close>: binary32 arithmetic with rounding to nearest, ties to even.  Ratios can
  divide by zero, so there are infinities beside NaN; the sign of zero is not modelled.  Every
  operation rounds its exact result once, as the arithmetic of the processors the library is
  built for does; a conversion from an integer rounds as well.
\<close>

datatype float_t = Fin real | PInf | MInf | NaN

section \<open>Rounding\<close>

text \<open>To the nearest integer, in the middle between two to the even one.\<close>

definition rne :: "real \<Rightarrow> int" where
  "rne y = (let f = \<lfloor>y\<rfloor>; d = y - of_int f
     in if d < 1 / 2 then f else if d > 1 / 2 then f + 1 else if even f then f else f + 1)"

text \<open>
  The unit in the last place for a number of magnitude \<open>x\<close>: the least power of two, from the
  smallest subnormal up to the unit of the largest binade, of which \<open>x\<close> is less than 2^24.
\<close>

primrec ulp_from :: "nat \<Rightarrow> real \<Rightarrow> real \<Rightarrow> real" where
  "ulp_from 0 u x = u"
| "ulp_from (Suc n) u x = (if x < 16777216 * u then u else ulp_from n (2 * u) x)"

definition ulp :: "real \<Rightarrow> real" where
  "ulp x = ulp_from 253 (1 / 2 ^ 149) \<bar>x\<bar>"

definition rnd :: "real \<Rightarrow> real" where
  "rnd x = ulp x * of_int (rne (x / ulp x))"

definition f32 :: "real \<Rightarrow> float_t" where
  "f32 x = (if \<bar>rnd x\<bar> < 2 ^ 128 then Fin (rnd x) else if x > 0 then PInf else MInf)"

section \<open>Operations\<close>

text \<open>The conversion of an unsigned integer.\<close>

definition of_word :: "'a::len word \<Rightarrow> float_t" where
  "of_word w = f32 (real (unat w))"

fun fdiv :: "float_t \<Rightarrow> float_t \<Rightarrow> float_t" where
  "fdiv (Fin x) (Fin y) = (if y \<noteq> 0 then f32 (x / y) else if x > 0 then PInf else if x < 0 then MInf else NaN)"
| "fdiv (Fin x) PInf = Fin 0"
| "fdiv (Fin x) MInf = Fin 0"
| "fdiv PInf (Fin y) = (if y < 0 then MInf else PInf)"
| "fdiv MInf (Fin y) = (if y < 0 then PInf else MInf)"
| "fdiv _ _ = NaN"

fun fmul :: "float_t \<Rightarrow> float_t \<Rightarrow> float_t" where
  "fmul (Fin x) (Fin y) = f32 (x * y)"
| "fmul (Fin x) PInf = (if x > 0 then PInf else if x < 0 then MInf else NaN)"
| "fmul (Fin x) MInf = (if x > 0 then MInf else if x < 0 then PInf else NaN)"
| "fmul PInf (Fin y) = (if y > 0 then PInf else if y < 0 then MInf else NaN)"
| "fmul MInf (Fin y) = (if y > 0 then MInf else if y < 0 then PInf else NaN)"
| "fmul PInf PInf = PInf"
| "fmul PInf MInf = MInf"
| "fmul MInf PInf = MInf"
| "fmul MInf MInf = PInf"
| "fmul _ _ = NaN"

fun fadd :: "float_t \<Rightarrow> float_t \<Rightarrow> float_t" where
  "fadd (Fin x) (Fin y) = f32 (x + y)"
| "fadd (Fin x) z = z"
| "fadd z (Fin y) = z"
| "fadd PInf PInf = PInf"
| "fadd MInf MInf = MInf"
| "fadd _ _ = NaN"

text \<open>\<open>fabs(x - y)\<close>.\<close>

fun fneg :: "float_t \<Rightarrow> float_t" where
  "fneg (Fin x) = Fin (- x)" | "fneg PInf = MInf" | "fneg MInf = PInf" | "fneg NaN = NaN"

fun fabs :: "float_t \<Rightarrow> float_t" where
  "fabs (Fin x) = Fin \<bar>x\<bar>" | "fabs MInf = PInf" | "fabs z = z"

definition fdist :: "float_t \<Rightarrow> float_t \<Rightarrow> float_t" where
  "fdist x y = fabs (fadd x (fneg y))"

fun flt :: "float_t \<Rightarrow> float_t \<Rightarrow> bool" where
  "flt (Fin x) (Fin y) \<longleftrightarrow> x < y"
| "flt (Fin x) PInf \<longleftrightarrow> True"
| "flt MInf (Fin y) \<longleftrightarrow> True"
| "flt MInf PInf \<longleftrightarrow> True"
| "flt _ _ \<longleftrightarrow> False"

text \<open>\<open>(size_t)ceilf(x)\<close>; a value that does not fit is undefined behaviour.\<close>

fun fceil_size :: "float_t \<Rightarrow> size_t option" where
  "fceil_size (Fin x) = (if 0 \<le> \<lceil>x\<rceil> \<and> \<lceil>x\<rceil> < 2 ^ 64 then Some (of_int \<lceil>x\<rceil>) else None)"
| "fceil_size _ = None"

section \<open>How far rounding moves a number\<close>

lemma rne_error: "\<bar>of_int (rne y) - y\<bar> \<le> 1 / 2"
proof -
  have "of_int \<lfloor>y\<rfloor> \<le> y" "y < of_int \<lfloor>y\<rfloor> + 1" by linarith+
  then show ?thesis by (auto simp: rne_def Let_def)
qed

lemma rne_int [simp]: "rne (of_int k) = k"
  by (simp add: rne_def)

lemma rne_le_int:
  assumes "y \<le> of_int k"
  shows "rne y \<le> k"
proof (cases "\<lfloor>y\<rfloor> = k")
  case True
  then have "y = of_int k" using assms by linarith
  then show ?thesis by simp
next
  case False
  then have "\<lfloor>y\<rfloor> + 1 \<le> k" using assms by linarith
  then show ?thesis by (simp add: rne_def Let_def)
qed

lemma rne_nonneg: "0 \<le> y \<Longrightarrow> 0 \<le> rne y"
  by (simp add: rne_def Let_def)

text \<open>The unit is a power of two, and either the smallest one or not too large for the number.\<close>

lemma ulp_from_cases:
  assumes "0 \<le> x"
  obtains k where "k \<le> n" "ulp_from n u x = 2 ^ k * u" "k = 0 \<or> 8388608 * ulp_from n u x \<le> x"
    "k < n \<longrightarrow> x < 16777216 * ulp_from n u x"
  using assms
proof (induction n arbitrary: u thesis)
  case 0
  show ?case by (rule "0.prems"(1) [of 0]) simp_all
next
  case (Suc n)
  show ?case
  proof (cases "x < 16777216 * u")
    case True
    then show ?thesis by (intro Suc.prems(1) [of 0]) simp_all
  next
    case False
    from Suc.IH [of "2 * u"] Suc.prems(2) obtain k where
      k: "k \<le> n" "ulp_from n (2 * u) x = 2 ^ k * (2 * u)" "k = 0 \<or> 8388608 * ulp_from n (2 * u) x \<le> x"
        "k < n \<longrightarrow> x < 16777216 * ulp_from n (2 * u) x" by blast
    then show ?thesis using False by (intro Suc.prems(1) [of "Suc k"]) auto
  qed
qed

lemma ulp_cases:
  obtains k where "k \<le> 253" "ulp x = 2 ^ k / 2 ^ 149" "k = 0 \<or> 8388608 * ulp x \<le> \<bar>x\<bar>"
    "k < 253 \<longrightarrow> \<bar>x\<bar> < 16777216 * ulp x"
  by (rule ulp_from_cases [of "\<bar>x\<bar>" 253 "1 / 2 ^ 149"]) (auto simp: ulp_def)

lemma ulp_pos: "0 < ulp x"
proof (rule ulp_cases [of x])
  fix k :: nat
  assume "ulp x = 2 ^ k / 2 ^ 149"
  then show ?thesis by (simp only: zero_less_divide_iff zero_less_power zero_less_numeral simp_thms)
qed

lemma ulp_eq:
  assumes "j \<le> 253" "8388608 * (2 ^ j / 2 ^ 149) \<le> \<bar>x\<bar>" "\<bar>x\<bar> < 16777216 * (2 ^ j / 2 ^ 149)"
  shows "ulp x = 2 ^ j / 2 ^ 149"
proof (rule ulp_cases [of x])
  fix k :: nat
  assume k: "k \<le> 253" "ulp x = 2 ^ k / 2 ^ 149" "k = 0 \<or> 8388608 * ulp x \<le> \<bar>x\<bar>"
    "k < 253 \<longrightarrow> \<bar>x\<bar> < 16777216 * ulp x"
  have half: "2 * (2 ^ i / 2 ^ 149 :: real) \<le> 2 ^ l / 2 ^ 149" if "i < l" for i l
  proof -
    have "2 * (2 ^ i / 2 ^ 149 :: real) = 2 ^ Suc i / 2 ^ 149" by simp
    also have "\<dots> \<le> 2 ^ l / 2 ^ 149" using that by (intro divide_right_mono power_increasing) simp_all
    finally show ?thesis .
  qed
  consider "k < j" | "k = j" | "j < k" by linarith
  then show ?thesis
  proof cases
    case 1
    then show ?thesis using half [OF 1] k(2,4) assms by simp
  next
    case 3
    then show ?thesis using half [OF 3] k(2,3) assms by simp
  qed (use k(2) in simp)
qed

lemma rnd_error: "\<bar>rnd x - x\<bar> \<le> ulp x / 2"
proof -
  have "rnd x - x = ulp x * (of_int (rne (x / ulp x)) - x / ulp x)"
    using ulp_pos [of x] by (simp add: rnd_def right_diff_distrib)
  then have "\<bar>rnd x - x\<bar> = ulp x * \<bar>of_int (rne (x / ulp x)) - x / ulp x\<bar>"
    using ulp_pos [of x] by (simp add: abs_mult)
  also have "\<dots> \<le> ulp x * (1 / 2)" using ulp_pos [of x] rne_error by (intro mult_left_mono) auto
  finally show ?thesis by simp
qed

lemma ulp_le: "ulp x / 2 \<le> \<bar>x\<bar> / 16777216 + 1 / 2 ^ 150"
proof (rule ulp_cases [of x])
  fix k :: nat
  assume k: "ulp x = 2 ^ k / 2 ^ 149" "k = 0 \<or> 8388608 * ulp x \<le> \<bar>x\<bar>"
  show ?thesis
  proof (cases "k = 0")
    case True
    then show ?thesis using k(1) by simp
  next
    case False
    then have "ulp x / 2 \<le> \<bar>x\<bar> / 16777216" using k(2) by simp
    then show ?thesis by (simp add: add_increasing2)
  qed
qed

lemma ulp_le_normal:
  assumes "1 / 2 ^ 126 \<le> \<bar>x\<bar>"
  shows "ulp x / 2 \<le> \<bar>x\<bar> / 16777216"
proof (rule ulp_cases [of x])
  fix k :: nat
  assume k: "ulp x = 2 ^ k / 2 ^ 149" "k = 0 \<or> 8388608 * ulp x \<le> \<bar>x\<bar>"
  show ?thesis
  proof (cases "k = 0")
    case True
    have "ulp x / 2 = (1 / 2 ^ 126) / 16777216" unfolding k(1) True by simp
    also have "\<dots> \<le> \<bar>x\<bar> / 16777216" using assms by (intro divide_right_mono) simp_all
    finally show ?thesis .
  next
    case False
    then show ?thesis using k(2) by simp
  qed
qed

lemma rnd_nonneg: "0 \<le> x \<Longrightarrow> 0 \<le> rnd x"
  using ulp_pos [of x] by (simp add: rnd_def rne_nonneg)

lemma rnd_upper:
  assumes "0 \<le> x"
  shows "rnd x \<le> x * (1 + 1 / 16777216) + 1 / 2 ^ 150"
proof -
  have "rnd x \<le> x + ulp x / 2" using rnd_error [of x] by linarith
  also have "\<dots> \<le> x + (x / 16777216 + 1 / 2 ^ 150)" using ulp_le [of x] assms by (intro add_left_mono) simp
  also have "\<dots> = x * (1 + 1 / 16777216) + 1 / 2 ^ 150" by (simp add: distrib_left)
  finally show ?thesis .
qed

text \<open>In the normal range the relative error is at most 2^-24.\<close>

lemma rnd_normal:
  assumes "1 / 2 ^ 126 \<le> x \<or> x = 0"
  shows "x * (1 - 1 / 16777216) \<le> rnd x" "rnd x \<le> x * (1 + 1 / 16777216)"
proof -
  have "x * (1 - 1 / 16777216) \<le> rnd x \<and> rnd x \<le> x * (1 + 1 / 16777216)"
  proof (cases "x = 0")
    case True
    then show ?thesis using rne_int [of 0] by (simp add: rnd_def)
  next
    case False
    then have "1 / 2 ^ 126 \<le> \<bar>x\<bar>" "0 \<le> x" using assms by (auto intro: order_trans [of 0 "1 / 2 ^ 126"])
    then have "\<bar>rnd x - x\<bar> \<le> x / 16777216" using rnd_error [of x] ulp_le_normal [of x] by linarith
    then have "x - x / 16777216 \<le> rnd x" "rnd x \<le> x + x / 16777216" by linarith+
    then show ?thesis by (simp only: distrib_left right_diff_distrib) simp
  qed
  then show "x * (1 - 1 / 16777216) \<le> rnd x" "rnd x \<le> x * (1 + 1 / 16777216)" by blast+
qed

text \<open>
  An integer of at most 24 bits is a multiple of the unit of every smaller number, so it is a
  float, and a number below it is not rounded beyond it.
\<close>

lemma nat_multiple:
  assumes "0 \<le> x" "x \<le> real n" "n \<le> 16777216"
  obtains z where "real n = ulp x * of_int z"
proof (rule ulp_cases [of x])
  fix k :: nat
  assume k: "ulp x = 2 ^ k / 2 ^ 149" "k = 0 \<or> 8388608 * ulp x \<le> \<bar>x\<bar>"
  show ?thesis
  proof (cases "k \<le> 149")
    case True
    have "ulp x = 1 / 2 ^ (149 - k)" using True by (simp add: k(1) power_diff)
    then have "real n = ulp x * of_int (int n * 2 ^ (149 - k))" by simp
    then show ?thesis by (rule that)
  next
    case False
    then obtain j where j: "k = Suc (149 + j)" using less_imp_Suc_add [of 149 k] by auto
    have u: "ulp x = 2 * 2 ^ j" unfolding k(1) j by (simp add: power_add)
    have "8388608 * ulp x \<le> x" using k(2) j assms(1) by simp
    then have "8388608 * (2 * 2 ^ j) \<le> real n" using assms(2) unfolding u by linarith
    moreover have "real n \<le> 16777216" using assms(3) by simp
    moreover have "1 \<le> (2 :: real) ^ j" by simp
    ultimately have "real n = 16777216" "(2 :: real) ^ j = 1" by linarith+
    then have "real n = ulp x * of_int 8388608" unfolding u by simp
    then show ?thesis by (rule that)
  qed
qed

lemma rnd_le_nat:
  assumes "0 \<le> x" "x \<le> real n" "n \<le> 16777216"
  shows "rnd x \<le> real n"
proof -
  from nat_multiple [OF assms] obtain z where z: "real n = ulp x * of_int z" .
  then have "x / ulp x \<le> of_int z" using assms(2) ulp_pos [of x] by (simp add: divide_le_eq mult.commute)
  then have "rne (x / ulp x) \<le> z" by (rule rne_le_int)
  then show ?thesis unfolding z rnd_def using ulp_pos [of x] by (intro mult_left_mono) simp_all
qed

lemma rnd_nat:
  assumes "n \<le> 16777216"
  shows "rnd (real n) = real n"
proof -
  from nat_multiple [of "real n" n] assms obtain z where z: "real n = ulp (real n) * of_int z" by auto
  have "real n / ulp (real n) = of_int z"
    using ulp_pos [of "real n"] by (subst z) simp
  then show ?thesis unfolding rnd_def using z by simp
qed

text \<open>Numbers far below the largest float are rounded to a finite one.\<close>

lemma f32_finite:
  assumes "0 \<le> x" "x \<le> 2 ^ 127"
  shows "f32 x = Fin (rnd x)"
proof -
  have "rnd x \<le> x * (1 + 1 / 16777216) + 1 / 2 ^ 150" by (rule rnd_upper [OF assms(1)])
  also have "\<dots> \<le> 2 ^ 127 * (1 + 1 / 16777216) + 1 / 2 ^ 150" using assms by (intro add_right_mono mult_right_mono) simp_all
  also have "\<dots> < 2 ^ 128" by simp
  finally show ?thesis using rnd_nonneg [OF assms(1)] by (simp add: f32_def)
qed

lemma f32_nat: "n \<le> 16777216 \<Longrightarrow> f32 (real n) = Fin (real n)"
  using f32_finite [of "real n"] rnd_nat [of n] order_trans [of "real n" 16777216 "2 ^ 127"] by simp

lemma rnd_of_nat: "real n * (1 - 1 / 16777216) \<le> rnd (real n)" "rnd (real n) \<le> real n * (1 + 1 / 16777216)"
proof -
  have "1 / 2 ^ 126 \<le> real n \<or> real n = 0"
  proof (cases n)
    case (Suc m)
    have "1 / 2 ^ 126 \<le> (1 :: real)" by simp
    also have "\<dots> \<le> real n" using Suc by simp
    finally show ?thesis ..
  qed simp
  then show "real n * (1 - 1 / 16777216) \<le> rnd (real n)" "rnd (real n) \<le> real n * (1 + 1 / 16777216)"
    by (rule rnd_normal)+
qed

lemma of_word_finite:
  fixes w :: "'a::len word"
  assumes "LENGTH('a) \<le> 64"
  shows "of_word w = Fin (rnd (real (unat w)))"
proof -
  have "unat w < 2 ^ LENGTH('a)" by (rule unsigned_less)
  also have "\<dots> \<le> 2 ^ 64" using assms by (intro power_increasing) simp_all
  finally have "real (unat w) \<le> real (2 ^ 64)" by (simp only: of_nat_le_iff less_imp_le)
  also have "\<dots> \<le> 2 ^ 127" by simp
  finally show ?thesis unfolding of_word_def by (rule f32_finite [OF of_nat_0_le_iff])
qed

lemma f32_not_negative [simp]: "0 \<le> x \<Longrightarrow> \<not> flt (f32 x) (Fin 0)"
  using rnd_nonneg [of x] rnd_nat [of 0] by (cases "x = 0") (auto simp: f32_def)

text \<open>An integer with more than 24 bits that the conversion rounds up.\<close>

lemma rnd_16777219: "rnd 16777219 = 16777220"
proof -
  have "ulp 16777219 = 2" using ulp_eq [of 150 16777219] by simp
  then show ?thesis by (simp add: rnd_def rne_def)
qed

end
