(* ===== verification/Memtier.thy ===== *)
theory Memtier
  imports Pebs_Correct Float32
begin

text \<open>
  Component \<open>src/memkind_memtier.c\<close>: memory made of several tiers (kinds), a policy that picks
  the tier of an allocation, and the accounting of the allocated sizes per kind.  The build
  options are those of \<open>memkind_memtier.h\<close>; log output is left out.

  The static variables of the file are one record, with the heap and the table of
  \<open>tachanka.c\<close> beside them.  The allocator below (\<open>memkind_malloc\<close> and its companions, which
  end in jemalloc) is an environment: the heap maps the address of a live block to its kind
  and usable size, and \<open>me_result\<close> is the address and usable size the allocator picks for the
  call at hand, \<^term>\<open>None\<close> when it fails.
\<close>

section \<open>Floats\<close>

text \<open>A float read as a double.\<close>

definition to_double :: "float_t \<Rightarrow> double" where
  "to_double z = (case z of Fin x \<Rightarrow> Some x | _ \<Rightarrow> None)"

section \<open>State\<close>

text \<open>A kind is an object with an address; \<open>partition\<close> indexes the tables of sizes.\<close>

datatype memkind = Memkind (kind_at: addr) (partition: nat)

type_synonym heap = "addr \<rightharpoonup> memkind \<times> size_t"

definition MEMKIND_MAX_KIND :: nat where
  "MEMKIND_MAX_KIND = 512"

definition MEMKIND_TOTAL_IDX :: nat where
  "MEMKIND_TOTAL_IDX = MEMKIND_MAX_KIND"

definition THREAD_BUCKETS :: nat where
  "THREAD_BUCKETS = 256"

definition MEMTIER_POLICY_STATIC_RATIO :: nat where "MEMTIER_POLICY_STATIC_RATIO = 0"
definition MEMTIER_POLICY_DYNAMIC_THRESHOLD :: nat where "MEMTIER_POLICY_DYNAMIC_THRESHOLD = 1"
definition MEMTIER_POLICY_DATA_HOTNESS :: nat where "MEMTIER_POLICY_DATA_HOTNESS = 2"

datatype add_site = ADD_MALLOC | ADD_REALLOC0 | ADD_REALLOC1 | ADD_REALLOC2 | ADD_FREE

record memtier =
  t_alloc_size :: "nat \<Rightarrow> nat \<Rightarrow> 64 word"
  g_alloc_size :: "nat \<Rightarrow> size_t"
  g_totalTiers :: size_t
  g_hotTierId :: size_t
  g_hotTotalDesiredRatio :: double
  g_hotTotalActualRatio :: double
  g_totalSize :: size_t
  pol :: nat
  MEMKIND_DEFAULT :: memkind
  mt_heap :: heap
  mt_tk :: tachanka
  g_memtier_free_called :: size_t
  g_memtier_hotness_free_called :: size_t
  g_successful_adds :: "add_site \<Rightarrow> size_t"
  g_failed_adds :: "add_site \<Rightarrow> size_t"
  hotness_log_counter :: "64 word"
  hotness_counter :: "Hotness \<Rightarrow> 64 word"
  hotness_alloc_counter :: "Hotness \<Rightarrow> 64 word"
  statistics_counter :: "64 word"

text \<open>
  The surroundings of one call: the thread, the hash of its call stack, the results of
  \<open>pthread_getattr_np\<close> and \<open>clock_gettime\<close>, and the block the allocator picks.
\<close>

record menv =
  me_tid :: "64 word"
  me_hash :: "64 word"
  me_getattr :: int
  me_clock :: int
  me_result :: "(addr \<times> size_t) option"

record memtier_tier_cfg =
  tier_kind :: memkind
  kind_ratio :: float_t

record memtier_threshold_cfg =
  th_val :: size_t
  th_min :: size_t
  th_max :: size_t
  exp_norm_ratio :: float_t
  current_ratio_diff :: float_t

text \<open>The function pointers of a memory, by the functions they point to.\<close>

datatype get_kind_fn = SINGLE_GET_KIND | STATIC_RATIO_GET_KIND | DYNAMIC_THRESHOLD_GET_KIND | DATA_HOTNESS_GET_KIND
datatype post_alloc_fn = EMPTY_POST_ALLOC | DATA_HOTNESS_POST_ALLOC
datatype update_cfg_fn = STATIC_RATIO_UPDATE | DATA_HOTNESS_UPDATE | DYNAMIC_THRESHOLD_UPDATE

record memtier_memory =
  mem_cfg :: "memtier_tier_cfg list"
  mem_thres :: "memtier_threshold_cfg list"
  thres_check_cnt :: "32 word"
  thres_init_check_cnt :: "32 word"
  thres_trigger :: float_t
  thres_degree :: float_t
  hot_tier_id :: int
  cold_tier_id :: int
  get_kind :: get_kind_fn
  post_alloc :: post_alloc_fn
  update_cfg :: update_cfg_fn

section \<open>The allocator below\<close>

definition memkind_malloc :: "menv \<Rightarrow> memkind \<Rightarrow> memtier \<Rightarrow> ptr \<times> memtier" where
  "memkind_malloc e k M = (case me_result e of
     None \<Rightarrow> (NULL, M)
   | Some (a, u) \<Rightarrow> (Some a, M\<lparr>mt_heap := (mt_heap M)(a \<mapsto> (k, u))\<rparr>))"

text \<open>A failed reallocation leaves the block as it is.\<close>

definition memkind_realloc :: "menv \<Rightarrow> memkind \<Rightarrow> addr \<Rightarrow> memtier \<Rightarrow> ptr \<times> memtier" where
  "memkind_realloc e k p M = (case me_result e of
     None \<Rightarrow> (NULL, M)
   | Some (a, u) \<Rightarrow> (Some a, M\<lparr>mt_heap := ((mt_heap M)(p := None))(a \<mapsto> (k, u))\<rparr>))"

definition memkind_free :: "ptr \<Rightarrow> memtier \<Rightarrow> memtier option" where
  "memkind_free p M = (case p of
     None \<Rightarrow> Some M
   | Some a \<Rightarrow> do { mt_heap M a; Some (M\<lparr>mt_heap := (mt_heap M)(a := None)\<rparr>) })"

definition jemk_malloc_usable_size :: "memtier \<Rightarrow> ptr \<Rightarrow> size_t option" where
  "jemk_malloc_usable_size M p = (case p of None \<Rightarrow> Some 0 | Some a \<Rightarrow> map_option snd (mt_heap M a))"

text \<open>For \<open>NULL\<close> no kind is found; a dangling pointer is undefined behaviour.\<close>

definition memkind_detect_kind :: "memtier \<Rightarrow> ptr \<Rightarrow> memkind option option" where
  "memkind_detect_kind M p = (case p of None \<Rightarrow> Some None | Some a \<Rightarrow> map_option (\<lambda>x. Some (fst x)) (mt_heap M a))"

section \<open>Accounting of sizes\<close>

definition memtier_reset_size :: "nat \<Rightarrow> memtier \<Rightarrow> memtier" where
  "memtier_reset_size kind_id M = M\<lparr>
     t_alloc_size := (t_alloc_size M)(kind_id :=
       (\<lambda>b. if b < THREAD_BUCKETS then 0 else t_alloc_size M kind_id b)),
     g_alloc_size := (g_alloc_size M)(kind_id := 0)\<rparr>"

definition t_hash_64 :: "64 word \<Rightarrow> nat" where
  "t_hash_64 self =
     (let x = self + 0x9e3779b97f4a7c15;
          x = (x XOR drop_bit 30 x) * 0xbf58476d1ce4e5b9;
          x = (x XOR drop_bit 27 x) * 0x94d049bb133111eb
      in unat ((x XOR drop_bit 31 x) AND (of_nat THREAD_BUCKETS - 1)))"

definition update_actual_ratios :: "size_t \<Rightarrow> memtier \<Rightarrow> memtier option" where
  "update_actual_ratios tsize M = do {
     c_assert (g_hotTierId M \<le> of_nat MEMKIND_MAX_KIND);
     let hot = g_alloc_size M (unat (g_hotTierId M));
     let hot_tier_size = real (unat hot);
     let tsize = (if hot_tier_size > real (unat tsize) then hot else tsize);
     let M = M\<lparr>g_totalSize := tsize,
       g_hotTotalActualRatio := ddiv hot_tier_size (real (unat tsize))\<rparr>;
     T \<leftarrow> tachanka_set_dram_total_ratio (mt_tk M) (g_hotTotalDesiredRatio M) (g_hotTotalActualRatio M);
     Some (M\<lparr>mt_tk := T\<rparr>) }"

text \<open>Arithmetic on \<open>long long\<close>; overflow is undefined behaviour.\<close>

definition in_ll :: "int \<Rightarrow> bool" where
  "in_ll x \<longleftrightarrow> - (2 ^ 63) \<le> x \<and> x < 2 ^ 63"

definition apply_temporary_buffer_alloc_size :: "nat \<Rightarrow> nat \<Rightarrow> memtier \<Rightarrow> memtier option" where
  "apply_temporary_buffer_alloc_size kind_id bucket_id M = do {
     let size_f = t_alloc_size M kind_id bucket_id;
     let M = M\<lparr>t_alloc_size := (t_alloc_size M)(kind_id := (t_alloc_size M kind_id)(bucket_id := 0))\<rparr>;
     let M = M\<lparr>g_alloc_size := (g_alloc_size M)(kind_id := g_alloc_size M kind_id + size_f)\<rparr>;
     let old_total_size = g_alloc_size M MEMKIND_TOTAL_IDX;
     let M = M\<lparr>g_alloc_size := (g_alloc_size M)(MEMKIND_TOTAL_IDX := old_total_size + size_f)\<rparr>;
     c_assert (in_ll (sint size_f + sint old_total_size));
     update_actual_ratios (size_f + old_total_size) M }"

text \<open>
  \<open>FLUSH_THRESHOLD\<close> is 0.  In the increment the comparison is unsigned (\<open>long long\<close> plus
  \<open>size_t\<close>), in the decrement it is signed.
\<close>

definition increment_alloc_size :: "menv \<Rightarrow> nat \<Rightarrow> size_t \<Rightarrow> memtier \<Rightarrow> memtier option" where
  "increment_alloc_size e kind_id n M = do {
     c_assert (kind_id < MEMKIND_MAX_KIND);
     let bucket_id = t_hash_64 (me_tid e);
     let old_talloc = t_alloc_size M kind_id bucket_id;
     let M = M\<lparr>t_alloc_size := (t_alloc_size M)(kind_id :=
       (t_alloc_size M kind_id)(bucket_id := old_talloc + n))\<rparr>;
     (if old_talloc + n > 0 then apply_temporary_buffer_alloc_size kind_id bucket_id M else Some M) }"

definition decrement_alloc_size :: "menv \<Rightarrow> nat \<Rightarrow> size_t \<Rightarrow> memtier \<Rightarrow> memtier option" where
  "decrement_alloc_size e kind_id n M = do {
     c_assert (kind_id < MEMKIND_MAX_KIND);
     let bucket_id = t_hash_64 (me_tid e);
     let old_talloc = t_alloc_size M kind_id bucket_id;
     let M = M\<lparr>t_alloc_size := (t_alloc_size M)(kind_id :=
       (t_alloc_size M kind_id)(bucket_id := old_talloc - n))\<rparr>;
     c_assert (in_ll (sint old_talloc - sint n));
     (if sint old_talloc - sint n < 0 then apply_temporary_buffer_alloc_size kind_id bucket_id M
      else Some M) }"

section \<open>Choice of the tier\<close>

definition memtier_single_get_kind :: "memtier_memory \<Rightarrow> memkind option" where
  "memtier_single_get_kind m = (case mem_cfg m of [] \<Rightarrow> None | c # _ \<Rightarrow> Some (tier_kind c))"

text \<open>\<open>memkind_atomic_get\<close> of the size of a tier.\<close>

definition tier_size :: "memtier \<Rightarrow> memtier_tier_cfg \<Rightarrow> size_t" where
  "tier_size M c = g_alloc_size M (partition (tier_kind c))"

primrec static_ratio_loop :: "memtier \<Rightarrow> size_t \<Rightarrow> nat \<Rightarrow> memtier_tier_cfg list \<Rightarrow> nat \<Rightarrow> nat" where
  "static_ratio_loop M size_0 i [] dest_tier = dest_tier"
| "static_ratio_loop M size_0 i (c # cs) dest_tier =
     static_ratio_loop M size_0 (Suc i) cs
       (if flt (fmul (of_word (tier_size M c)) (kind_ratio c)) (of_word size_0)
        then i else dest_tier)"

definition memtier_policy_static_ratio_get_kind :: "memtier \<Rightarrow> memtier_memory \<Rightarrow> memkind option" where
  "memtier_policy_static_ratio_get_kind M m = (case mem_cfg m of
     [] \<Rightarrow> None
   | c # cs \<Rightarrow> Some (tier_kind (mem_cfg m ! static_ratio_loop M (tier_size M c) 1 cs 0)))"

primrec dynamic_threshold_loop :: "size_t \<Rightarrow> nat \<Rightarrow> memtier_threshold_cfg list \<Rightarrow> nat" where
  "dynamic_threshold_loop n i [] = i"
| "dynamic_threshold_loop n i (t # ts) = (if n < th_val t then i else dynamic_threshold_loop n (Suc i) ts)"

text \<open>\<open>THRESHOLD_NUM\<close>, in unsigned arithmetic; an access out of range is undefined behaviour.\<close>

definition memtier_policy_dynamic_threshold_get_kind :: "memtier_memory \<Rightarrow> size_t \<Rightarrow> memkind option" where
  "memtier_policy_dynamic_threshold_get_kind m n = do {
     c_assert (length (mem_cfg m) \<noteq> 0 \<and> length (mem_thres m) \<ge> length (mem_cfg m) - 1);
     let i = dynamic_threshold_loop n 0 (take (length (mem_cfg m) - 1) (mem_thres m));
     Some (tier_kind (mem_cfg m ! i)) }"

definition PRINT_POLICY_LOG_STATISTICS_INTERVAL :: "64 word" where
  "PRINT_POLICY_LOG_STATISTICS_INTERVAL = 80000"

definition memtier_policy_data_hotness_calculate_hotness_type ::
  "menv \<Rightarrow> memtier \<Rightarrow> 64 word \<Rightarrow> size_t \<Rightarrow> (Hotness \<times> memtier) option" where
  "memtier_policy_data_hotness_calculate_hotness_type e M hash n = do {
     hotness \<leftarrow> tachanka_get_hotness_type_hash (mt_tk M) hash;
     let M = M\<lparr>hotness_log_counter := hotness_log_counter M + 1\<rparr>;
     M \<leftarrow> (if hotness_log_counter M > PRINT_POLICY_LOG_STATISTICS_INTERVAL
        then do { c_assert (me_clock e = 0); Some (M\<lparr>hotness_log_counter := 0\<rparr>) }
        else Some M);
     Some (hotness, M\<lparr>
       hotness_counter := (hotness_counter M)(hotness := hotness_counter M hotness + 1),
       hotness_alloc_counter :=
         (hotness_alloc_counter M)(hotness := hotness_alloc_counter M hotness + n)\<rparr>) }"

definition tier_at :: "memtier_memory \<Rightarrow> int \<Rightarrow> memkind option" where
  "tier_at m i = do {
     c_assert (0 \<le> i \<and> nat i < length (mem_cfg m));
     Some (tier_kind (mem_cfg m ! nat i)) }"

text \<open>\<open>FALLBACK_TO_STATIC\<close> is 1.  The second component of the result is \<open>*data\<close>.\<close>

definition memtier_policy_data_hotness_get_kind ::
  "menv \<Rightarrow> memtier \<Rightarrow> memtier_memory \<Rightarrow> size_t \<Rightarrow> (memkind \<times> 64 word \<times> memtier) option" where
  "memtier_policy_data_hotness_get_kind e M m n = do {
     c_assert (me_getattr e = 0);
     let hash = me_hash e;
     (hotness, M) \<leftarrow> memtier_policy_data_hotness_calculate_hotness_type e M hash n;
     k \<leftarrow> (case hotness of
        HOTNESS_COLD \<Rightarrow> tier_at m (cold_tier_id m)
      | HOTNESS_NOT_FOUND \<Rightarrow> memtier_policy_static_ratio_get_kind M m
      | HOTNESS_HOT \<Rightarrow> tier_at m (hot_tier_id m));
     Some (k, hash, M) }"

text \<open>The call \<open>memory->get_kind(memory, size, &data)\<close>; only one policy writes \<open>data\<close>.\<close>

definition call_get_kind ::
  "menv \<Rightarrow> memtier \<Rightarrow> memtier_memory \<Rightarrow> size_t \<Rightarrow> (memkind \<times> 64 word \<times> memtier) option" where
  "call_get_kind e M m n = (case get_kind m of
     SINGLE_GET_KIND \<Rightarrow> map_option (\<lambda>k. (k, 0, M)) (memtier_single_get_kind m)
   | STATIC_RATIO_GET_KIND \<Rightarrow> map_option (\<lambda>k. (k, 0, M)) (memtier_policy_static_ratio_get_kind M m)
   | DYNAMIC_THRESHOLD_GET_KIND \<Rightarrow> map_option (\<lambda>k. (k, 0, M)) (memtier_policy_dynamic_threshold_get_kind m n)
   | DATA_HOTNESS_GET_KIND \<Rightarrow> memtier_policy_data_hotness_get_kind e M m n)"

section \<open>Events for the background thread\<close>

definition addr_of :: "ptr \<Rightarrow> addr" where
  "addr_of p = (case p of None \<Rightarrow> 0 | Some a \<Rightarrow> a)"

definition push_event :: "add_site \<Rightarrow> EventEntry \<Rightarrow> memtier \<Rightarrow> memtier option" where
  "push_event site entry M = do {
     (success, T) \<leftarrow> tachanka_ranking_event_push (mt_tk M) entry;
     let M = M\<lparr>mt_tk := T\<rparr>;
     Some (if success
       then M\<lparr>g_successful_adds := (g_successful_adds M)(site := g_successful_adds M site + 1)\<rparr>
       else M\<lparr>g_failed_adds := (g_failed_adds M)(site := g_failed_adds M site + 1)\<rparr>) }"

text \<open>The calls outside a memory look at the global policy.\<close>

definition notify :: "add_site \<Rightarrow> EventEntry \<Rightarrow> memtier \<Rightarrow> memtier option" where
  "notify site entry M =
     (if pol M = MEMTIER_POLICY_DATA_HOTNESS then push_event site entry M else Some M)"

definition memtier_policy_data_hotness_post_alloc ::
  "64 word \<Rightarrow> ptr \<Rightarrow> size_t \<Rightarrow> bool \<Rightarrow> memtier \<Rightarrow> memtier option" where
  "memtier_policy_data_hotness_post_alloc hash p n is_hot M =
     push_event ADD_MALLOC (EVENT_CREATE_ADD hash (addr_of p) n is_hot) M"

definition call_post_alloc ::
  "memtier_memory \<Rightarrow> 64 word \<Rightarrow> ptr \<Rightarrow> size_t \<Rightarrow> bool \<Rightarrow> memtier \<Rightarrow> memtier option" where
  "call_post_alloc m hash p n is_hot M = (case post_alloc m of
     EMPTY_POST_ALLOC \<Rightarrow> Some M
   | DATA_HOTNESS_POST_ALLOC \<Rightarrow> memtier_policy_data_hotness_post_alloc hash p n is_hot M)"

definition PRINT_MEMDUMP_INTERVAL :: "64 word" where
  "PRINT_MEMDUMP_INTERVAL = 10000"

definition print_memory_statistics :: "memtier \<Rightarrow> memtier" where
  "print_memory_statistics M = M\<lparr>statistics_counter :=
     (if statistics_counter M + 1 > PRINT_MEMDUMP_INTERVAL then 0 else statistics_counter M + 1)\<rparr>"

section \<open>Adjustment of the thresholds\<close>

text \<open>
  One round of the loop of \<open>memtier_policy_dynamic_threshold_update_config\<close> for a threshold
  between tiers of the given sizes.
\<close>

definition move_threshold ::
  "float_t \<Rightarrow> bool \<Rightarrow> memtier_threshold_cfg \<Rightarrow> memtier_threshold_cfg option" where
  "move_threshold degree higher t = do {
     threshold \<leftarrow> fceil_size (fmul (of_word (th_val t)) degree);
     Some (if higher
       then (let higher_threshold = th_val t + threshold in
             if higher_threshold \<le> th_max t then t\<lparr>th_val := higher_threshold\<rparr> else t)
       else (let lower_threshold = th_val t - threshold in
             if lower_threshold \<ge> th_min t then t\<lparr>th_val := lower_threshold\<rparr> else t)) }"

definition adjust_threshold :: "float_t \<Rightarrow> float_t \<Rightarrow> size_t \<Rightarrow> size_t \<Rightarrow> memtier_threshold_cfg \<Rightarrow>
    memtier_threshold_cfg option" where
  "adjust_threshold trigger degree prev_alloc_size next_alloc_size t =
     (if prev_alloc_size > 0 then
        (let current_ratio = fdiv (of_word next_alloc_size) (of_word prev_alloc_size);
             prev_ratio_diff = current_ratio_diff t;
             t = t\<lparr>current_ratio_diff := fdist current_ratio (exp_norm_ratio t)\<rparr>
         in if flt (current_ratio_diff t) trigger \<or> flt (current_ratio_diff t) prev_ratio_diff
            then Some t
            else move_threshold degree (flt (exp_norm_ratio t) current_ratio) t)
      else move_threshold degree True t)"

primrec adjust_thresholds :: "memtier \<Rightarrow> float_t \<Rightarrow> float_t \<Rightarrow> memtier_tier_cfg \<Rightarrow> memtier_tier_cfg list \<Rightarrow>
    memtier_threshold_cfg list \<Rightarrow> memtier_threshold_cfg list option" where
  "adjust_thresholds M trigger degree c [] ts = Some ts"
| "adjust_thresholds M trigger degree c (c' # cs) ts = (case ts of
     [] \<Rightarrow> None
   | t # ts' \<Rightarrow> do {
       t' \<leftarrow> adjust_threshold trigger degree (tier_size M c) (tier_size M c') t;
       ts'' \<leftarrow> adjust_thresholds M trigger degree c' cs ts';
       Some (t' # ts'') })"

definition memtier_policy_dynamic_threshold_update_config ::
  "memtier \<Rightarrow> memtier_memory \<Rightarrow> memtier_memory option" where
  "memtier_policy_dynamic_threshold_update_config M m = (
     let m = m\<lparr>thres_check_cnt := thres_check_cnt m - 1\<rparr> in
     if thres_check_cnt m > 0 then Some m
     else (case mem_cfg m of
        [] \<Rightarrow> None
      | c # cs \<Rightarrow> do {
          ts \<leftarrow> adjust_thresholds M (thres_trigger m) (thres_degree m) c cs (mem_thres m);
          Some (m\<lparr>mem_thres := ts, thres_check_cnt := thres_init_check_cnt m\<rparr>) }))"

definition call_update_cfg :: "memtier \<Rightarrow> memtier_memory \<Rightarrow> memtier_memory option" where
  "call_update_cfg M m = (case update_cfg m of
     DYNAMIC_THRESHOLD_UPDATE \<Rightarrow> memtier_policy_dynamic_threshold_update_config M m
   | STATIC_RATIO_UPDATE \<Rightarrow> Some m
   | DATA_HOTNESS_UPDATE \<Rightarrow> Some m)"

section \<open>Allocation\<close>

definition is_default :: "memtier \<Rightarrow> memkind \<Rightarrow> bool" where
  "is_default M k \<longleftrightarrow> k = MEMKIND_DEFAULT M"

definition memtier_kind_malloc :: "menv \<Rightarrow> memkind \<Rightarrow> memtier \<Rightarrow> (ptr \<times> memtier) option" where
  "memtier_kind_malloc e k M = do {
     let (p, M) = memkind_malloc e k M;
     u \<leftarrow> jemk_malloc_usable_size M p;
     M \<leftarrow> increment_alloc_size e (partition k) u M;
     Some (p, M) }"

text \<open>\<open>calloc\<close> differs in what the allocator writes into the block, which is not modelled.\<close>

definition memtier_kind_calloc :: "menv \<Rightarrow> memkind \<Rightarrow> memtier \<Rightarrow> (ptr \<times> memtier) option" where
  "memtier_kind_calloc e k M = do {
     let (p, M) = memkind_malloc e k M;
     u \<leftarrow> jemk_malloc_usable_size M p;
     M \<leftarrow> increment_alloc_size e (partition k) u M;
     Some (p, M) }"

definition memtier_malloc ::
  "menv \<Rightarrow> memtier_memory \<Rightarrow> size_t \<Rightarrow> memtier \<Rightarrow> (ptr \<times> memtier_memory \<times> memtier) option" where
  "memtier_malloc e m n M = do {
     (k, hash, M) \<leftarrow> call_get_kind e M m n;
     (p, M) \<leftarrow> memtier_kind_malloc e k M;
     M \<leftarrow> call_post_alloc m hash p n (is_default M k) M;
     m \<leftarrow> call_update_cfg M m;
     Some (p, m, print_memory_statistics M) }"

text \<open>The policy and the event see the size of one element only.\<close>

definition memtier_calloc ::
  "menv \<Rightarrow> memtier_memory \<Rightarrow> size_t \<Rightarrow> size_t \<Rightarrow> memtier \<Rightarrow> (ptr \<times> memtier_memory \<times> memtier) option" where
  "memtier_calloc e m num n M = do {
     (k, hash, M) \<leftarrow> call_get_kind e M m n;
     (p, M) \<leftarrow> memtier_kind_calloc e k M;
     M \<leftarrow> call_post_alloc m hash p n (is_default M k) M;
     m \<leftarrow> call_update_cfg M m;
     Some (p, m, print_memory_statistics M) }"

definition memtier_kind_realloc :: "menv \<Rightarrow> memkind \<Rightarrow> ptr \<Rightarrow> size_t \<Rightarrow> memtier \<Rightarrow> (ptr \<times> memtier) option" where
  "memtier_kind_realloc e k p n M = (case p of
     Some a \<Rightarrow>
       if n = 0 then do {
         old_size \<leftarrow> jemk_malloc_usable_size M p;
         M \<leftarrow> notify ADD_REALLOC0 (EVENT_DESTROY_REMOVE a old_size) M;
         M \<leftarrow> decrement_alloc_size e (partition k) old_size M;
         M \<leftarrow> memkind_free p M;
         Some (NULL, M) }
       else do {
         old_size \<leftarrow> jemk_malloc_usable_size M p;
         M \<leftarrow> decrement_alloc_size e (partition k) old_size M;
         let (n_ptr, M) = memkind_realloc e k a M;
         M \<leftarrow> notify ADD_REALLOC1 (EVENT_REALLOC a (addr_of n_ptr) 0 n (is_default M k)) M;
         u \<leftarrow> jemk_malloc_usable_size M n_ptr;
         M \<leftarrow> increment_alloc_size e (partition k) u M;
         Some (n_ptr, M) }
   | None \<Rightarrow> do {
       M \<leftarrow> notify ADD_REALLOC2 (EVENT_CREATE_ADD 0 0 n (is_default M k)) M;
       memtier_kind_malloc e k M })"

text \<open>A block without a kind makes \<open>kind->partition\<close> an access through \<open>NULL\<close>.\<close>

definition memtier_realloc ::
  "menv \<Rightarrow> memtier_memory \<Rightarrow> ptr \<Rightarrow> size_t \<Rightarrow> memtier \<Rightarrow> (ptr \<times> memtier_memory \<times> memtier) option" where
  "memtier_realloc e m p n M =
     (if p \<noteq> NULL then do {
        kd \<leftarrow> memkind_detect_kind M p;
        k \<leftarrow> kd;
        (p, M) \<leftarrow> memtier_kind_realloc e k p n M;
        m \<leftarrow> call_update_cfg M m;
        Some (p, m, if n \<noteq> 0 then print_memory_statistics M else M) }
      else if n = 0 then Some (NULL, m, M)
      else memtier_malloc e m n M)"

text \<open>
  \<open>memptr\<close> is the value of \<open>*memptr\<close> before the call; a failed call leaves it, and the code
  goes on to ask for its usable size.  The failure code stands for \<open>EINVAL\<close> and \<open>ENOMEM\<close>.
\<close>

definition memkind_posix_memalign :: "menv \<Rightarrow> memkind \<Rightarrow> ptr \<Rightarrow> memtier \<Rightarrow> bool \<times> ptr \<times> memtier" where
  "memkind_posix_memalign e k memptr M = (case memkind_malloc e k M of
     (None, M) \<Rightarrow> (False, memptr, M)
   | (Some a, M) \<Rightarrow> (True, Some a, M))"

definition memtier_kind_posix_memalign ::
  "menv \<Rightarrow> memkind \<Rightarrow> ptr \<Rightarrow> memtier \<Rightarrow> (bool \<times> ptr \<times> memtier) option" where
  "memtier_kind_posix_memalign e k memptr M = do {
     let (res, memptr, M) = memkind_posix_memalign e k memptr M;
     u \<leftarrow> jemk_malloc_usable_size M memptr;
     M \<leftarrow> increment_alloc_size e (partition k) u M;
     Some (res, memptr, M) }"

definition memtier_posix_memalign :: "menv \<Rightarrow> memtier_memory \<Rightarrow> ptr \<Rightarrow> size_t \<Rightarrow> memtier \<Rightarrow>
    (bool \<times> ptr \<times> memtier_memory \<times> memtier) option" where
  "memtier_posix_memalign e m memptr n M = do {
     (k, hash, M) \<leftarrow> call_get_kind e M m n;
     (ret, memptr, M) \<leftarrow> memtier_kind_posix_memalign e k memptr M;
     M \<leftarrow> call_post_alloc m hash memptr n (is_default M k) M;
     m \<leftarrow> call_update_cfg M m;
     Some (ret, memptr, m, M) }"

definition memtier_usable_size :: "memtier \<Rightarrow> ptr \<Rightarrow> size_t option" where
  "memtier_usable_size M p = jemk_malloc_usable_size M p"

definition memtier_kind_free :: "menv \<Rightarrow> memkind option \<Rightarrow> ptr \<Rightarrow> memtier \<Rightarrow> memtier option" where
  "memtier_kind_free e kd p M = do {
     kd \<leftarrow> (case kd of None \<Rightarrow> memkind_detect_kind M p | Some k \<Rightarrow> Some (Some k));
     (case kd of
        None \<Rightarrow> Some M
      | Some k \<Rightarrow> do {
          let M = M\<lparr>g_memtier_free_called := g_memtier_free_called M + 1\<rparr>;
          M \<leftarrow> notify ADD_FREE (EVENT_DESTROY_REMOVE (addr_of p) 0) M;
          let M = (if pol M = MEMTIER_POLICY_DATA_HOTNESS
            then M\<lparr>g_memtier_hotness_free_called := g_memtier_hotness_free_called M + 1\<rparr> else M);
          u \<leftarrow> jemk_malloc_usable_size M p;
          M \<leftarrow> decrement_alloc_size e (partition k) u M;
          memkind_free p M }) }"

definition memtier_free :: "menv \<Rightarrow> ptr \<Rightarrow> memtier \<Rightarrow> memtier option" where
  "memtier_free e p M = memtier_kind_free e None p M"

definition memtier_kind_allocated_size :: "memkind \<Rightarrow> memtier \<Rightarrow> size_t \<times> memtier" where
  "memtier_kind_allocated_size k M =
     (let size_all = (\<Sum>b = 0..<THREAD_BUCKETS. t_alloc_size M (partition k) b);
          size_ret = g_alloc_size M (partition k)
      in (size_ret + size_all, M\<lparr>
        t_alloc_size := (t_alloc_size M)(partition k :=
          (\<lambda>b. if b < THREAD_BUCKETS then 0 else t_alloc_size M (partition k) b)),
        g_alloc_size := (g_alloc_size M)(partition k := size_ret + size_all)\<rparr>))"

definition memtier_kind_get_actual_hot_to_total_allocated_ratio :: "memtier \<Rightarrow> double" where
  "memtier_kind_get_actual_hot_to_total_allocated_ratio M = g_hotTotalActualRatio M"

definition memtier_kind_get_actual_hot_to_total_desired_ratio :: "memtier \<Rightarrow> double" where
  "memtier_kind_get_actual_hot_to_total_desired_ratio M = g_hotTotalDesiredRatio M"

definition memtier_kind_get_total_size :: "memtier \<Rightarrow> size_t" where
  "memtier_kind_get_total_size M = g_totalSize M"

end
