(* ===== verification/Memtier_Sizes.thy ===== *)
theory Memtier_Sizes
  imports Memtier
begin

text \<open>
  The accounting of \<open>src/memkind_memtier.c\<close>: the tables of sizes agree with the live blocks of
  the heap, whatever tier the policy picks and whichever thread calls.
\<close>

section \<open>Signed reading of sizes\<close>

lemma sint_small:
  fixes w :: "64 word"
  assumes "unat w < 2 ^ 63"
  shows "sint w = int (unat w)" "sint (- w) = - int (unat w)"
proof -
  define m where "m = unat w"
  have m: "uint w = int m" "int m < int (2 ^ 63)" using assms by (simp_all only: of_nat_less_iff m_def) simp
  then show p: "sint w = int (unat w)" unfolding m_def [symmetric] sint_uint
    by (simp add: signed_take_bit_int_eq_self)
  have "sint (- w) = signed_take_bit 63 (- sint w)" by (simp only: sint_word_ariths) simp
  also have "\<dots> = - int m" unfolding p m_def [symmetric]
    using m(2) by (intro signed_take_bit_int_eq_self) simp_all
  finally show "sint (- w) = - int (unat w)" by (simp only: m_def)
qed

lemma in_ll_diff:
  assumes "a < 2 ^ 63" "b < 2 ^ 63"
  shows "in_ll (int a - int b)"
proof -
  have "int a < int (2 ^ 63)" "int b < int (2 ^ 63)" using assms by (simp_all only: of_nat_less_iff)
  then show ?thesis unfolding in_ll_def by simp
qed

lemma in_ll_sum:
  assumes "a + b < 2 ^ 63"
  shows "in_ll (int a + int b)"
proof -
  have "int (a + b) < int (2 ^ 63)" using assms by (simp only: of_nat_less_iff)
  then show ?thesis unfolding in_ll_def by simp
qed

section \<open>The tables\<close>

definition share_ok :: "double \<Rightarrow> bool" where
  "share_ok d \<longleftrightarrow> \<not> dlt d 0 \<and> \<not> dgt d 1"

definition sum_kinds :: "(nat \<Rightarrow> nat) \<Rightarrow> nat" where
  "sum_kinds L = (\<Sum>k<MEMKIND_MAX_KIND. L k)"

text \<open>\<open>tables M L\<close>: no size is buffered, and \<open>L\<close> gives the size of every kind.\<close>

definition tables :: "memtier \<Rightarrow> (nat \<Rightarrow> nat) \<Rightarrow> bool" where
  "tables M L \<longleftrightarrow> (\<forall>k b. k < MEMKIND_MAX_KIND \<longrightarrow> b < THREAD_BUCKETS \<longrightarrow> t_alloc_size M k b = 0) \<and>
     (\<forall>k. k < MEMKIND_MAX_KIND \<longrightarrow> g_alloc_size M k = of_nat (L k)) \<and>
     g_alloc_size M MEMKIND_TOTAL_IDX = of_nat (sum_kinds L) \<and> sum_kinds L < 2 ^ 63 \<and>
     unat (g_hotTierId M) < MEMKIND_MAX_KIND \<and> share_ok (g_hotTotalDesiredRatio M) \<and>
     g_totalSize M = of_nat (sum_kinds L)"

text \<open>What the accounting leaves alone.\<close>

definition tk_ratios :: "tachanka \<Rightarrow> tachanka \<Rightarrow> bool" where
  "tk_ratios T T' \<longleftrightarrow> (\<exists>x y. T' = T\<lparr>g_dramToTotalDesiredRatio := x, g_dramToTotalActualRatio := y\<rparr>)"

definition mt_frame :: "memtier \<Rightarrow> memtier \<Rightarrow> bool" where
  "mt_frame M M' \<longleftrightarrow> mt_heap M' = mt_heap M \<and> pol M' = pol M \<and> MEMKIND_DEFAULT M' = MEMKIND_DEFAULT M \<and>
     g_hotTierId M' = g_hotTierId M \<and> g_hotTotalDesiredRatio M' = g_hotTotalDesiredRatio M \<and>
     g_successful_adds M' = g_successful_adds M \<and> g_failed_adds M' = g_failed_adds M \<and>
     tk_ratios (mt_tk M) (mt_tk M')"

text \<open>After a flush the measured share is that of the tables, and the ranking knows it.\<close>

definition measured :: "memtier \<Rightarrow> (nat \<Rightarrow> nat) \<Rightarrow> bool" where
  "measured M L \<longleftrightarrow> g_hotTotalActualRatio M = ddiv (real (L (unat (g_hotTierId M)))) (real (sum_kinds L)) \<and>
     g_dramToTotalActualRatio (mt_tk M) = g_hotTotalActualRatio M"

lemma tk_ratios_refl [simp]: "tk_ratios T T"
  unfolding tk_ratios_def by (rule exI [of _ "g_dramToTotalDesiredRatio T"], rule exI [of _ "g_dramToTotalActualRatio T"]) simp

lemma mt_frame_refl [simp]: "mt_frame M M"
  by (simp add: mt_frame_def)

lemma t_hash_64_bound: "t_hash_64 tid < THREAD_BUCKETS"
proof -
  have "unat (y AND (255 :: 64 word)) < 256" for y
    using word_and_le1 [of y 255] by (simp add: word_le_nat_alt)
  then show ?thesis by (simp add: t_hash_64_def Let_def THREAD_BUCKETS_def)
qed

lemma kind_le_sum: "k < MEMKIND_MAX_KIND \<Longrightarrow> L k \<le> sum_kinds L"
  unfolding sum_kinds_def by (rule member_le_sum) auto

lemma sum_kinds_upd:
  assumes "k < MEMKIND_MAX_KIND"
  shows "sum_kinds (L(k := x)) + L k = sum_kinds L + x"
proof -
  have "sum_kinds L = L k + (\<Sum>i\<in>{..<MEMKIND_MAX_KIND} - {k}. L i)"
    unfolding sum_kinds_def using assms by (intro sum.remove) auto
  moreover have "sum_kinds (L(k := x)) = x + (\<Sum>i\<in>{..<MEMKIND_MAX_KIND} - {k}. L i)"
    unfolding sum_kinds_def using assms by (subst sum.remove [of _ k]) (auto intro!: sum.cong)
  ultimately show ?thesis by simp
qed

lemma share_ok_quotient:
  assumes "h \<le> t"
  shows "share_ok (ddiv (real h) (real t))"
  using assms by (cases "t = 0") (auto simp: share_ok_def ddiv_def not_less divide_le_eq)

lemma update_ratios_run:
  assumes hot: "unat (g_hotTierId M) < MEMKIND_MAX_KIND" and d: "share_ok (g_hotTotalDesiredRatio M)"
    and le: "unat (g_alloc_size M (unat (g_hotTierId M))) \<le> unat n"
  shows "\<exists>M'. update_actual_ratios n M = Some M' \<and> g_totalSize M' = n \<and>
    t_alloc_size M' = t_alloc_size M \<and> g_alloc_size M' = g_alloc_size M \<and> mt_frame M M' \<and>
    g_hotTotalActualRatio M' = ddiv (real (unat (g_alloc_size M (unat (g_hotTierId M))))) (real (unat n)) \<and>
    g_dramToTotalActualRatio (mt_tk M') = g_hotTotalActualRatio M'"
proof -
  have "g_hotTierId M \<le> of_nat MEMKIND_MAX_KIND"
    using hot by (simp add: word_le_nat_alt MEMKIND_MAX_KIND_def)
  moreover have "\<not> real (unat (g_alloc_size M (unat (g_hotTierId M)))) > real (unat n)"
    using le by (simp only: of_nat_less_iff not_less)
  moreover have "share_ok (ddiv (real (unat (g_alloc_size M (unat (g_hotTierId M))))) (real (unat n)))"
    using le by (rule share_ok_quotient)
  ultimately show ?thesis using d
    by (auto simp: update_actual_ratios_def Let_def tachanka_set_dram_total_ratio_def
        check_dram_total_ratio_def share_ok_def mt_frame_def tk_ratios_def)
qed

text \<open>The flush of a bucket that holds the change \<open>d\<close> of one kind.\<close>

lemma flush_run:
  assumes tb: "tables M L" and k: "k < MEMKIND_MAX_KIND" and b: "b < THREAD_BUCKETS"
    and L': "L' = L(k := l)" "of_nat l = of_nat (L k) + d" "sum_kinds L' < 2 ^ 63"
    and d: "in_ll (sint d + int (sum_kinds L))"
  shows "\<exists>M'. apply_temporary_buffer_alloc_size k b
      (M\<lparr>t_alloc_size := (t_alloc_size M)(k := (t_alloc_size M k)(b := d))\<rparr>) = Some M' \<and>
    tables M' L' \<and> mt_frame M M' \<and> measured M' L'"
proof -
  have s: "of_nat (sum_kinds L') = (of_nat (sum_kinds L) + d :: 64 word)"
  proof -
    have "sum_kinds L' + L k = sum_kinds L + l" using sum_kinds_upd [OF k, of L l] L'(1) by simp
    then have "(of_nat (sum_kinds L') + of_nat (L k) :: 64 word) = of_nat (sum_kinds L) + of_nat l"
      by (simp flip: of_nat_add)
    then show ?thesis using L'(2) by (simp add: algebra_simps)
  qed
  have kT: "k \<noteq> MEMKIND_TOTAL_IDX" using k by (simp add: MEMKIND_TOTAL_IDX_def)
  define M1 where "M1 = M\<lparr>t_alloc_size := (t_alloc_size M)(k := (t_alloc_size M k)(b := 0)),
    g_alloc_size := (g_alloc_size M)(k := of_nat l, MEMKIND_TOTAL_IDX := of_nat (sum_kinds L'))\<rparr>"
  have g: "g_alloc_size M1 i = of_nat (L' i)" if "i < MEMKIND_MAX_KIND" for i
    using tb that by (simp add: M1_def tables_def L'(1) MEMKIND_TOTAL_IDX_def)
  have us: "unat (of_nat (sum_kinds L') :: 64 word) = sum_kinds L'" using L'(3) by (simp add: of_nat_below)
  have hot: "unat (g_hotTierId M1) < MEMKIND_MAX_KIND" using tb by (simp add: M1_def tables_def)
  have hl: "L' (unat (g_hotTierId M1)) \<le> sum_kinds L'" by (rule kind_le_sum [OF hot])
  then have uh: "unat (g_alloc_size M1 (unat (g_hotTierId M1))) = L' (unat (g_hotTierId M1))"
    using g [OF hot] L'(3) by (simp add: of_nat_below)
  then have "unat (g_alloc_size M1 (unat (g_hotTierId M1))) \<le> unat (of_nat (sum_kinds L') :: 64 word)"
    using hl us by simp
  from update_ratios_run [OF hot _ this] tb obtain M' where M': "update_actual_ratios (of_nat (sum_kinds L')) M1 = Some M'"
      "g_totalSize M' = of_nat (sum_kinds L')" "t_alloc_size M' = t_alloc_size M1"
      "g_alloc_size M' = g_alloc_size M1" "mt_frame M1 M'"
      "g_hotTotalActualRatio M' = ddiv (real (L' (unat (g_hotTierId M1)))) (real (sum_kinds L'))"
      "g_dramToTotalActualRatio (mt_tk M') = g_hotTotalActualRatio M'"
    unfolding uh us by (auto simp: M1_def tables_def)
  have ms: "measured M' L'" using M'(5-7) by (simp add: measured_def mt_frame_def)
  have "sint (of_nat (sum_kinds L) :: 64 word) = int (sum_kinds L)"
    using tb by (subst sint_small) (simp_all add: tables_def of_nat_below)
  then have "apply_temporary_buffer_alloc_size k b
      (M\<lparr>t_alloc_size := (t_alloc_size M)(k := (t_alloc_size M k)(b := d))\<rparr>) =
      update_actual_ratios (of_nat (sum_kinds L')) M1"
    using tb k kT d L'(2) s
    by (simp add: apply_temporary_buffer_alloc_size_def Let_def M1_def tables_def add.commute)
  moreover have "tables M' L'" using tb M' g L'(3) hot
    by (auto simp: tables_def M1_def mt_frame_def)
  moreover have "mt_frame M M'" using M'(5) by (simp add: mt_frame_def M1_def)
  ultimately show ?thesis using M'(1) ms by auto
qed

lemma increment_run:
  assumes tb: "tables M L" and k: "k < MEMKIND_MAX_KIND" and n: "sum_kinds L + unat n < 2 ^ 63"
  shows "\<exists>M'. increment_alloc_size e k n M = Some M' \<and> tables M' (L(k := L k + unat n)) \<and> mt_frame M M'"
proof (cases "n = 0")
  case True
  have z: "t_alloc_size M k (t_hash_64 (me_tid e)) = 0" using tb k t_hash_64_bound by (simp add: tables_def)
  then have "increment_alloc_size e k n M = Some M" using k True
    by (simp add: increment_alloc_size_def Let_def fun_upd_idem)
  then show ?thesis using tb True by simp
next
  case False
  let ?b = "t_hash_64 (me_tid e)"
  have z: "t_alloc_size M k ?b = 0" using tb k t_hash_64_bound by (simp add: tables_def)
  have s: "sum_kinds (L(k := L k + unat n)) = sum_kinds L + unat n" using sum_kinds_upd [OF k, of L "L k + unat n"] by simp
  have "in_ll (sint n + int (sum_kinds L))"
  proof -
    have "sint n = int (unat n)" using n by (intro sint_small) simp
    then show ?thesis using in_ll_sum [of "unat n" "sum_kinds L"] n by (simp only: add.commute)
  qed
  from flush_run [OF tb k t_hash_64_bound refl _ _ this, of "L k + unat n" "me_tid e"] n s obtain M' where
    "apply_temporary_buffer_alloc_size k ?b (M\<lparr>t_alloc_size := (t_alloc_size M)(k := (t_alloc_size M k)(?b := n))\<rparr>) = Some M'"
    "tables M' (L(k := L k + unat n))" "mt_frame M M'" by auto
  then show ?thesis using False k z
    by (auto simp: increment_alloc_size_def Let_def word_gt_0)
qed

lemma decrement_run:
  assumes tb: "tables M L" and k: "k < MEMKIND_MAX_KIND" and n: "unat n \<le> L k"
  shows "\<exists>M'. decrement_alloc_size e k n M = Some M' \<and> tables M' (L(k := L k - unat n)) \<and> mt_frame M M' \<and>
    (n \<noteq> 0 \<longrightarrow> measured M' (L(k := L k - unat n)))"
proof -
  let ?b = "t_hash_64 (me_tid e)"
  have z: "t_alloc_size M k ?b = 0" using tb k t_hash_64_bound by (simp add: tables_def)
  have sL: "sum_kinds L < 2 ^ 63" using tb by (simp add: tables_def)
  have nn: "unat n < 2 ^ 63" using n kind_le_sum [OF k, of L] sL by linarith
  have sn: "sint n = int (unat n)" "sint (- n) = - int (unat n)"
    using nn by (simp_all only: sint_small)
  show ?thesis
  proof (cases "n = 0")
    case True
    then have "decrement_alloc_size e k n M = Some M" using k z
      by (simp add: decrement_alloc_size_def Let_def fun_upd_idem in_ll_def)
    then show ?thesis using tb True by simp
  next
    case False
    then have pos: "0 < int (unat n)" unfolding of_nat_0_less_iff by (simp add: unat_gt_0)
    have le: "unat n \<le> sum_kinds L" using n kind_le_sum [OF k, of L] by linarith
    have s: "sum_kinds (L(k := L k - unat n)) = sum_kinds L - unat n"
      using sum_kinds_upd [OF k, of L "L k - unat n"] n by simp
    have "of_nat (L k - unat n) = (of_nat (L k) + - n :: 64 word)" using n by (simp add: of_nat_diff)
    moreover have "in_ll (sint (- n) + int (sum_kinds L))" 
      unfolding sn using in_ll_diff [OF sL nn] by (simp only: uminus_add_conv_diff)
    moreover have "sum_kinds (L(k := L k - unat n)) < 2 ^ 63" using s sL by simp
    ultimately obtain M' where
      "apply_temporary_buffer_alloc_size k ?b (M\<lparr>t_alloc_size := (t_alloc_size M)(k := (t_alloc_size M k)(?b := - n))\<rparr>) = Some M'"
      "tables M' (L(k := L k - unat n))" "mt_frame M M'" "measured M' (L(k := L k - unat n))"
      using flush_run [OF tb k t_hash_64_bound refl, of "L k - unat n" "- n" "me_tid e"] by blast
    moreover have "in_ll (- sint n)" "- sint n < 0" 
      using in_ll_diff [of 0, OF _ nn] pos by (simp_all only: sn) simp
    ultimately show ?thesis using k z by (simp add: decrement_alloc_size_def Let_def)
  qed
qed

end
