(* ===== verification/Memtier_Builder.thy ===== *)
theory Memtier_Builder
  imports Memtier
begin

text \<open>
  Component \<open>src/memkind_memtier.c\<close>, the builder: collecting tiers, setting the parameters of
  the dynamic threshold policy by name, and constructing a memory for each policy.  The
  results of the allocator are parameters: \<open>ok i\<close> tells whether the \<open>i\<close>-th allocation of the
  call succeeds.
\<close>

record memtier_builder =
  bd_cfg :: "memtier_tier_cfg list"
  bd_thres :: "memtier_threshold_cfg list"
  check_cnt :: "32 word"
  trigger :: float_t
  degree :: float_t
  bd_policy :: nat

section \<open>Collecting tiers\<close>

definition THRESHOLD_CHECK_CNT :: "32 word" where
  "THRESHOLD_CHECK_CNT = 20"

definition THRESHOLD_STEP :: nat where
  "THRESHOLD_STEP = 1024"

text \<open>The policy is stored before it is checked.  \<open>bd_policy\<close> stands for the three operations.\<close>

definition memtier_builder_new :: "bool \<Rightarrow> nat \<Rightarrow> memtier \<Rightarrow> memtier_builder option \<times> memtier" where
  "memtier_builder_new ok policy M = (if \<not> ok then (None, M) else
     (let M = M\<lparr>pol := policy\<rparr>;
          b = \<lparr>bd_cfg = [], bd_thres = [], check_cnt = 0, trigger = Fin 0, degree = Fin 0, bd_policy = policy\<rparr>
      in if policy = MEMTIER_POLICY_STATIC_RATIO \<or> policy = MEMTIER_POLICY_DATA_HOTNESS then (Some b, M)
         else if policy = MEMTIER_POLICY_DYNAMIC_THRESHOLD
         then (Some (b\<lparr>check_cnt := THRESHOLD_CHECK_CNT, trigger := f32 (2 / 100), degree := f32 (15 / 100)\<rparr>), M)
         else (None, M)))"

text \<open>
  The array of thresholds grows with \<open>realloc\<close>; entries beyond the one written are not
  initialised and not listed.  \<open>cfg_size\<close> is an \<open>unsigned\<close>, and so is its product with the step.
\<close>

definition default_threshold :: "memtier_threshold_cfg \<Rightarrow> nat \<Rightarrow> memtier_threshold_cfg" where
  "default_threshold junk th_indx = junk\<lparr>
     th_min := of_nat (nat \<lfloor>real THRESHOLD_STEP * (1 / 2 + real th_indx)\<rfloor>),
     th_val := ucast (of_nat THRESHOLD_STEP * of_nat (th_indx + 1) :: 32 word),
     th_max := of_nat (nat \<lfloor>real THRESHOLD_STEP * (3 / 2 + real th_indx) - 1\<rfloor>)\<rparr>"

definition builder_dynamic_update ::
  "bool \<Rightarrow> memtier_threshold_cfg \<Rightarrow> memtier_builder \<Rightarrow> int \<times> memtier_builder" where
  "builder_dynamic_update ok junk b =
     (if length (bd_cfg b) < 1 then (0, b)
      else if \<not> ok then (-1, b)
      else (let th_indx = length (bd_cfg b) - 1 in
        (0, b\<lparr>bd_thres := take th_indx (bd_thres b) @ [default_threshold junk th_indx]\<rparr>)))"

definition memtier_builder_add_tier ::
  "(nat \<Rightarrow> bool) \<Rightarrow> memtier_threshold_cfg \<Rightarrow> memtier_builder \<Rightarrow> memkind option \<Rightarrow> 32 word \<Rightarrow>
    int \<times> memtier_builder" where
  "memtier_builder_add_tier ok junk b kd ratio = (case kd of
     None \<Rightarrow> (-1, b)
   | Some k \<Rightarrow>
       if k \<in> tier_kind ` set (bd_cfg b) then (-1, b)
       else (let (ret, b) = (if bd_policy b = MEMTIER_POLICY_DYNAMIC_THRESHOLD
               then builder_dynamic_update (ok 0) junk b else (0, b))
             in if ret \<noteq> 0 then (-1, b)
                else if \<not> ok 1 then (-1, b)
                else (0, b\<lparr>bd_cfg := bd_cfg b @
                  [\<lparr>tier_kind = k, kind_ratio = of_word ratio\<rparr>]\<rparr>)))"

section \<open>Constructing a memory\<close>

text \<open>\<open>m0\<close> is the uninitialised memory, \<open>k0\<close> and \<open>Fin 0\<close> the zeroed configuration.\<close>

definition memtier_memory_init ::
  "(nat \<Rightarrow> bool) \<Rightarrow> memtier_memory \<Rightarrow> memkind \<Rightarrow> nat \<Rightarrow> bool \<Rightarrow> bool \<Rightarrow> memtier_memory option" where
  "memtier_memory_init ok m0 k0 tier_sz is_dynamic_threshold is_data_hotness =
     (if tier_sz = 0 then None
      else if \<not> ok 0 then None
      else if \<not> ok 1 then None
      else (let m = m0\<lparr>mem_cfg := replicate tier_sz \<lparr>tier_kind = k0, kind_ratio = Fin 0\<rparr>\<rparr>;
                m = (if is_dynamic_threshold
                  then m\<lparr>get_kind := DYNAMIC_THRESHOLD_GET_KIND, post_alloc := EMPTY_POST_ALLOC,
                    update_cfg := DYNAMIC_THRESHOLD_UPDATE, thres_check_cnt := THRESHOLD_CHECK_CNT\<rparr>
                  else if is_data_hotness
                  then m\<lparr>get_kind := DATA_HOTNESS_GET_KIND, post_alloc := DATA_HOTNESS_POST_ALLOC,
                    update_cfg := DATA_HOTNESS_UPDATE\<rparr>
                  else m\<lparr>get_kind := (if tier_sz = 1 then SINGLE_GET_KIND else STATIC_RATIO_GET_KIND),
                    post_alloc := EMPTY_POST_ALLOC, update_cfg := STATIC_RATIO_UPDATE\<rparr>)
            in Some (m\<lparr>mem_thres := []\<rparr>)))"

text \<open>The ratio of a tier relative to the first tier.\<close>

definition static_cfg :: "memtier_tier_cfg list \<Rightarrow> memtier_tier_cfg list" where
  "static_cfg cfg = (case cfg of
     [] \<Rightarrow> []
   | c # cs \<Rightarrow> c\<lparr>kind_ratio := Fin 1\<rparr> #
       map (\<lambda>c'. c'\<lparr>kind_ratio := fdiv (kind_ratio c) (kind_ratio c')\<rparr>) cs)"

definition builder_static_create_memory ::
  "(nat \<Rightarrow> bool) \<Rightarrow> memtier_memory \<Rightarrow> memkind \<Rightarrow> memtier_builder \<Rightarrow> memtier_memory option" where
  "builder_static_create_memory ok m0 k0 b = do {
     m \<leftarrow> memtier_memory_init ok m0 k0 (length (bd_cfg b)) False False;
     Some (m\<lparr>mem_cfg := static_cfg (bd_cfg b)\<rparr>) }"

definition create_threshold ::
  "memtier_tier_cfg \<Rightarrow> memtier_tier_cfg \<Rightarrow> memtier_threshold_cfg \<Rightarrow> memtier_threshold_cfg" where
  "create_threshold c c' t = \<lparr>th_val = th_val t, th_min = th_min t, th_max = th_max t,
     exp_norm_ratio = fdiv (kind_ratio c') (kind_ratio c), current_ratio_diff = Fin 0\<rparr>"

fun create_thresholds ::
  "memtier_tier_cfg list \<Rightarrow> memtier_threshold_cfg list \<Rightarrow> memtier_threshold_cfg list" where
  "create_thresholds (c # c' # cs) (t # ts) = create_threshold c c' t # create_thresholds (c' # cs) ts"
| "create_thresholds _ _ = []"

text \<open>The loop that validates; \<open>prev\<close> is the threshold before, if there is one.\<close>

primrec validate_thresholds :: "memtier_threshold_cfg option \<Rightarrow> memtier_threshold_cfg list \<Rightarrow> bool" where
  "validate_thresholds prev [] \<longleftrightarrow> True"
| "validate_thresholds prev (t # ts) \<longleftrightarrow>
     \<not> th_min t > th_val t \<and> \<not> th_val t > th_max t \<and>
     \<not> (case prev of None \<Rightarrow> False | Some p \<Rightarrow> th_max p > th_min t) \<and>
     validate_thresholds (Some t) ts"

text \<open>The allocations are those of the thresholds, of the memory and of its configuration.\<close>

definition builder_dynamic_create_memory ::
  "(nat \<Rightarrow> bool) \<Rightarrow> memtier_memory \<Rightarrow> memkind \<Rightarrow> memtier_builder \<Rightarrow> memtier_memory option" where
  "builder_dynamic_create_memory ok m0 k0 b =
     (if length (bd_cfg b) < 2 then None
      else if \<not> ok 0 then None
      else do {
        m \<leftarrow> memtier_memory_init (\<lambda>i. ok (i + 1)) m0 k0 (length (bd_cfg b)) True False;
        let m = m\<lparr>thres_init_check_cnt := check_cnt b, thres_check_cnt := check_cnt b,
          thres_trigger := trigger b, thres_degree := degree b,
          mem_thres := create_thresholds (bd_cfg b) (bd_thres b)\<rparr>;
        (if \<not> validate_thresholds None (mem_thres m) then None
         else if flt (thres_degree m) (Fin 0) then None
         else if flt (thres_trigger m) (Fin 0) then None
         else Some (m\<lparr>mem_cfg := static_cfg (bd_cfg b)\<rparr>)) })"

text \<open>
  The policy by hotness.  The parsing of environment variables is left out: \<open>old_weight\<close> is
  the value of \<open>OLD_TIME_WINDOW_HOTNESS_WEIGHT\<close> or its default.  A memory that could not be
  allocated is written through \<open>NULL\<close>; the other failures exit.
\<close>

definition RANKING_BUFFER_SIZE_ELEMENTS :: size_t where
  "RANKING_BUFFER_SIZE_ELEMENTS = 1000000"

text \<open>
  The share of a tier in a sum of ratios that came from integers: only \<open>0/0\<close> is not a number.
  The sum is one of floats; the quotient is taken in doubles and stored as a float, which
  is the same as one rounding to a float.
\<close>

definition share :: "float_t \<Rightarrow> float_t \<Rightarrow> float_t \<Rightarrow> float_t" where
  "share r r0 r1 = fdiv r (fadd r0 r1)"

definition builder_hot_create_memory ::
  "boot \<Rightarrow> real \<Rightarrow> (nat \<Rightarrow> bool) \<Rightarrow> memtier_memory \<Rightarrow> memkind \<Rightarrow> memtier_builder \<Rightarrow> memtier \<Rightarrow>
    (memtier_memory \<times> memtier) option" where
  "builder_hot_create_memory bt old_weight ok m0 k0 b M = do {
     T \<leftarrow> tachanka_init bt (mt_tk M) old_weight RANKING_BUFFER_SIZE_ELEMENTS;
     let M = M\<lparr>mt_tk := T\<rparr>;
     m \<leftarrow> memtier_memory_init ok m0 k0 (length (bd_cfg b)) False True;
     let m = m\<lparr>hot_tier_id := -1\<rparr>;
     (case bd_cfg b of
        [c0, c1] \<Rightarrow> do {
          let s0 = share (kind_ratio c0) (kind_ratio c0) (kind_ratio c1);
          let s1 = share (kind_ratio c1) (kind_ratio c0) (kind_ratio c1);
          let m = (if tier_kind c0 = MEMKIND_DEFAULT M then m\<lparr>hot_tier_id := 0, cold_tier_id := 1\<rparr> else m);
          let m = (if tier_kind c1 = MEMKIND_DEFAULT M then m\<lparr>hot_tier_id := 1, cold_tier_id := 0\<rparr> else m);
          c_assert (hot_tier_id m \<noteq> -1);
          let hot_total_ratio = to_double (if hot_tier_id m = 0 then s0 else s1);
          let M = M\<lparr>g_hotTotalDesiredRatio := hot_total_ratio,
            g_hotTierId := of_int (hot_tier_id m), g_totalTiers := 2\<rparr>;
          T \<leftarrow> tachanka_set_dram_total_ratio (mt_tk M) hot_total_ratio hot_total_ratio;
          Some (m\<lparr>mem_cfg := [c0\<lparr>kind_ratio := Fin 1\<rparr>,
              c1\<lparr>kind_ratio := fdiv s0 s1\<rparr>]\<rparr>, M\<lparr>mt_tk := T\<rparr>) }
      | _ \<Rightarrow> None) }"

text \<open>The call \<open>builder->create_mem(builder)\<close>: a memory or \<open>NULL\<close>, or the end of the process.\<close>

definition memtier_builder_construct_memtier_memory ::
  "boot \<Rightarrow> real \<Rightarrow> (nat \<Rightarrow> bool) \<Rightarrow> memtier_memory \<Rightarrow> memkind \<Rightarrow> memtier_builder \<Rightarrow> memtier \<Rightarrow>
    (memtier_memory option \<times> memtier) option" where
  "memtier_builder_construct_memtier_memory bt old_weight ok m0 k0 b M =
     (if bd_policy b = MEMTIER_POLICY_STATIC_RATIO then Some (builder_static_create_memory ok m0 k0 b, M)
      else if bd_policy b = MEMTIER_POLICY_DYNAMIC_THRESHOLD
      then Some (builder_dynamic_create_memory ok m0 k0 b, M)
      else map_option (\<lambda>(m, M). (Some m, M)) (builder_hot_create_memory bt old_weight ok m0 k0 b M))"

end
