(* ===== verification/Memtier_Ctl.thy ===== *)
theory Memtier_Ctl
  imports Memtier_Builder
begin

text \<open>
  Component \<open>src/memkind_memtier.c\<close>, the parameters of a builder set by name
  (\<open>builder_dynamic_ctl_set\<close>), and their round trip: the name of a parameter, written with a
  decimal index, reaches exactly that parameter.
\<close>

section \<open>The scanner\<close>

text \<open>What the code uses of \<open>sscanf\<close>: literal text, \<open>%[^[]\<close>, \<open>%d\<close> and \<open>%s\<close>.\<close>

definition is_space :: "char \<Rightarrow> bool" where
  "is_space c \<longleftrightarrow> c \<in> set [CHR '' '', CHR 0x09, CHR 0x0A, CHR 0x0B, CHR 0x0C, CHR 0x0D]"

definition is_digit :: "char \<Rightarrow> bool" where
  "is_digit c \<longleftrightarrow> 48 \<le> (of_char c :: nat) \<and> (of_char c :: nat) \<le> 57"

definition digits_val :: "string \<Rightarrow> nat" where
  "digits_val ds = foldl (\<lambda>n c. 10 * n + (of_char c - 48)) 0 ds"

text \<open>
  \<open>%d\<close>: the value and the rest of the input, \<^term>\<open>None\<close> when nothing matches.  A value that
  does not fit an \<open>int\<close> is undefined behaviour, the outer \<^term>\<open>None\<close>.
\<close>

definition scan_d :: "string \<Rightarrow> (int \<times> string) option option" where
  "scan_d s =
     (let s = dropWhile is_space s;
          neg = (s \<noteq> [] \<and> hd s = CHR ''-'');
          s = (if s \<noteq> [] \<and> (hd s = CHR ''-'' \<or> hd s = CHR ''+'') then tl s else s);
          ds = takeWhile is_digit s;
          v = (if neg then - int (digits_val ds) else int (digits_val ds))
      in if ds = [] then Some None
         else if - (2 ^ 31) \<le> v \<and> v < 2 ^ 31 then Some (Some (v, dropWhile is_digit s))
         else None)"

text \<open>The value behind \<open>val\<close>, read through a cast; a value of another type is undefined.\<close>

datatype ctl_val = Val_size_t size_t | Val_unsigned "32 word" | Val_float float_t

fun get_size_t :: "ctl_val \<Rightarrow> size_t option" where
  "get_size_t (Val_size_t x) = Some x"
| "get_size_t _ = None"

fun get_unsigned :: "ctl_val \<Rightarrow> (32 word) option" where
  "get_unsigned (Val_unsigned x) = Some x"
| "get_unsigned _ = None"

fun get_float :: "ctl_val \<Rightarrow> float_t option" where
  "get_float (Val_float x) = Some x"
| "get_float _ = None"

section \<open>Setting a parameter\<close>

definition ctl_prefix :: string where
  "ctl_prefix = ''policy.dynamic_threshold.''"

text \<open>\<open>".%s"\<close> into the buffer of 256 bytes; when it does not match, the buffer keeps its text.\<close>

definition scan_field :: "string \<Rightarrow> string \<Rightarrow> string option" where
  "scan_field query name_substr = (case query of
     [] \<Rightarrow> Some name_substr
   | c # cs \<Rightarrow>
       if c \<noteq> CHR ''.'' then Some name_substr
       else (let w = takeWhile (\<lambda>c. \<not> is_space c) (dropWhile is_space cs)
             in if w = [] then Some name_substr else if length w < 256 then Some w else None))"

definition set_threshold ::
  "memtier_builder \<Rightarrow> nat \<Rightarrow> (memtier_threshold_cfg \<Rightarrow> memtier_threshold_cfg) \<Rightarrow> memtier_builder option" where
  "set_threshold b i f = do {
     c_assert (i < length (bd_thres b));
     Some (b\<lparr>bd_thres := (bd_thres b)[i := f (bd_thres b ! i)]\<rparr>) }"

text \<open>
  The branch for \<open>thresholds\<close>: \<open>query\<close> begins after the word.  When the closing bracket is
  missing, \<open>chr_read\<close> still holds 10, the length of the word, and the pointer moves on by
  that; beyond the end of the string this is undefined behaviour.
\<close>

definition ctl_set_threshold :: "memtier_builder \<Rightarrow> string \<Rightarrow> ctl_val \<Rightarrow> (int \<times> memtier_builder) option" where
  "ctl_set_threshold b query v = (case query of
     [] \<Rightarrow> Some (-1, b)
   | c # cs \<Rightarrow>
       if c \<noteq> CHR ''['' then Some (-1, b)
       else do {
         d \<leftarrow> scan_d cs;
         (case d of
            None \<Rightarrow> Some (-1, b)
          | Some (th_indx, rest) \<Rightarrow>
              if th_indx < 0 then Some (-1, b)
              else do {
                c_assert (th_indx + 1 < 2 ^ 31);
                (if nat (th_indx + 1) \<ge> length (bd_cfg b) then Some (-1, b)
                 else do {
                   query \<leftarrow> (if rest \<noteq> [] \<and> hd rest = CHR '']'' then Some (tl rest)
                     else if 10 \<le> length query then Some (drop 10 query) else None);
                   field \<leftarrow> scan_field query ''thresholds'';
                   (if field = ''val'' then do {
                      x \<leftarrow> get_size_t v;
                      b \<leftarrow> set_threshold b (nat th_indx) (\<lambda>t. t\<lparr>th_val := x\<rparr>);
                      Some (0, b) }
                    else if field = ''min'' then do {
                      x \<leftarrow> get_size_t v;
                      b \<leftarrow> set_threshold b (nat th_indx) (\<lambda>t. t\<lparr>th_min := x\<rparr>);
                      Some (0, b) }
                    else if field = ''max'' then do {
                      x \<leftarrow> get_size_t v;
                      b \<leftarrow> set_threshold b (nat th_indx) (\<lambda>t. t\<lparr>th_max := x\<rparr>);
                      Some (0, b) }
                    else Some (-1, b)) }) }) })"

definition builder_dynamic_ctl_set ::
  "memtier_builder \<Rightarrow> string \<Rightarrow> ctl_val \<Rightarrow> (int \<times> memtier_builder) option" where
  "builder_dynamic_ctl_set b name v =
     (if take (length ctl_prefix) name \<noteq> ctl_prefix then Some (-1, b)
      else (let query = drop (length ctl_prefix) name;
                name_substr = takeWhile (\<lambda>c. c \<noteq> CHR ''['') query
            in if \<not> length name_substr < 256 then None
               else if name_substr = ''thresholds'' then ctl_set_threshold b (drop (length name_substr) query) v
               else if name_substr = ''check_cnt'' then do {
                 x \<leftarrow> get_unsigned v; Some (0, b\<lparr>check_cnt := x\<rparr>) }
               else if name_substr = ''trigger'' then do {
                 x \<leftarrow> get_float v; Some (0, b\<lparr>trigger := x\<rparr>) }
               else if name_substr = ''degree'' then do {
                 x \<leftarrow> get_float v; Some (0, b\<lparr>degree := x\<rparr>) }
               else Some (-1, b)))"

definition builder_static_ctl_set :: "memtier_builder \<Rightarrow> string \<Rightarrow> ctl_val \<Rightarrow> (int \<times> memtier_builder) option" where
  "builder_static_ctl_set b name v = Some (-1, b)"

definition builder_hot_ctl_set :: "memtier_builder \<Rightarrow> string \<Rightarrow> ctl_val \<Rightarrow> (int \<times> memtier_builder) option" where
  "builder_hot_ctl_set b name v = Some (-1, b)"

definition memtier_ctl_set :: "memtier_builder \<Rightarrow> string \<Rightarrow> ctl_val \<Rightarrow> (int \<times> memtier_builder) option" where
  "memtier_ctl_set b name v =
     (if bd_policy b = MEMTIER_POLICY_STATIC_RATIO then builder_static_ctl_set b name v
      else if bd_policy b = MEMTIER_POLICY_DYNAMIC_THRESHOLD then builder_dynamic_ctl_set b name v
      else builder_hot_ctl_set b name v)"

section \<open>Decimal indices\<close>

fun decimal :: "nat \<Rightarrow> string" where
  "decimal n = (if n < 10 then [char_of (48 + n)] else decimal (n div 10) @ [char_of (48 + n mod 10)])"

declare decimal.simps [simp del]

lemma digit_char: "d < 10 \<Longrightarrow> of_char (char_of (48 + d) :: char) = (48 + d :: nat)"
  by (simp add: of_char_of)

lemma decimal_digits: "c \<in> set (decimal n) \<Longrightarrow> is_digit c"
proof (induction n rule: decimal.induct)
  case (1 n)
  show ?case
  proof (cases "n < 10")
    case True
    then show ?thesis using 1(2) by (simp add: decimal.simps [of n] is_digit_def digit_char)
  next
    case False
    then show ?thesis using 1 digit_char [of "n mod 10"]
      by (auto simp: decimal.simps [of n] is_digit_def)
  qed
qed

lemma decimal_val: "digits_val (decimal n) = n"
proof (induction n rule: decimal.induct)
  case (1 n)
  then show ?case using digit_char [of n] digit_char [of "n mod 10"]
    by (cases "n < 10") (simp_all add: decimal.simps [of n] digits_val_def)
qed

lemma decimal_nonempty: "decimal n \<noteq> []"
  by (simp add: decimal.simps [of n])

lemma digit_not_special:
  assumes "is_digit c"
  shows "\<not> is_space c" "c \<noteq> CHR ''-''" "c \<noteq> CHR ''+''" "c \<noteq> CHR ''[''"
  using assms by (auto simp: is_digit_def is_space_def)

lemma scan_decimal:
  assumes "n < 2 ^ 31" "rest = [] \<or> \<not> is_digit (hd rest)"
  shows "scan_d (decimal n @ rest) = Some (Some (int n, rest))"
proof -
  obtain c cs where d: "decimal n = c # cs" using decimal_nonempty [of n] by (cases "decimal n") auto
  have c: "is_digit c" using decimal_digits [of c n] d by simp
  have tk: "takeWhile is_digit (decimal n @ rest) = decimal n"
    and dw: "dropWhile is_digit (decimal n @ rest) = rest"
    using assms(2) decimal_digits by (cases rest; simp add: takeWhile_append2 dropWhile_append2)+
  have "dropWhile is_space (decimal n @ rest) = decimal n @ rest"
    using digit_not_special(1) [OF c] by (simp add: d)
  then show ?thesis using digit_not_special(2,3) [OF c] tk dw assms(1) decimal_val [of n]
    by (simp add: scan_d_def Let_def d)
qed

section \<open>Properties\<close>

definition threshold_name :: "nat \<Rightarrow> string \<Rightarrow> string" where
  "threshold_name i field = ctl_prefix @ ''thresholds['' @ decimal i @ '']'' @ ''.'' @ field"

definition set_field :: "string \<Rightarrow> size_t \<Rightarrow> memtier_threshold_cfg \<Rightarrow> memtier_threshold_cfg" where
  "set_field field x t = (if field = ''val'' then t\<lparr>th_val := x\<rparr> else if field = ''min'' then t\<lparr>th_min := x\<rparr>
     else t\<lparr>th_max := x\<rparr>)"

lemma scan_field_name:
  assumes "field \<in> {''val'', ''min'', ''max''}"
  shows "scan_field (CHR ''.'' # field) w = Some field"
  using assms by (auto simp: scan_field_def is_space_def Let_def)

lemma ctl_set_threshold_run:
  assumes f: "field \<in> {''val'', ''min'', ''max''}" and i: "Suc i < length (bd_cfg b)"
    and l: "length (bd_thres b) = length (bd_cfg b) - 1" "length (bd_cfg b) < 2 ^ 31"
  shows "ctl_set_threshold b (''['' @ decimal i @ '']'' @ ''.'' @ field) (Val_size_t x) =
    Some (0, b\<lparr>bd_thres := (bd_thres b)[i := set_field field x (bd_thres b ! i)]\<rparr>)"
proof -
  have "scan_d (decimal i @ CHR '']'' # CHR ''.'' # field) = Some (Some (int i, CHR '']'' # CHR ''.'' # field))"
    using i l(2) by (intro scan_decimal) (simp_all add: is_digit_def)
  moreover have "int i + 1 < 2 ^ 31" using i l(2) by simp
  moreover have "nat (int i + 1) = Suc i" by simp
  moreover have "set_threshold b i g = Some (b\<lparr>bd_thres := (bd_thres b)[i := g (bd_thres b ! i)]\<rparr>)" for g
  proof -
    have "i < length (bd_thres b)" using i l(1) by linarith
    then show ?thesis by (simp add: set_threshold_def)
  qed
  moreover have "field = ''val'' \<or> field = ''min'' \<or> field = ''max''" using f by blast
  ultimately show ?thesis using scan_field_name [OF f, of "''thresholds''"] i
    by (auto simp: ctl_set_threshold_def set_field_def)
qed

lemma ctl_set_named:
  assumes "bd_policy b = MEMTIER_POLICY_DYNAMIC_THRESHOLD"
  shows "memtier_ctl_set b (threshold_name i field) v = ctl_set_threshold b (''['' @ decimal i @ '']'' @ ''.'' @ field) v"
proof -
  have "takeWhile (\<lambda>c. c \<noteq> CHR ''['') (''thresholds'' @ ''['' @ decimal i @ '']'' @ ''.'' @ field) = ''thresholds''" by simp
  then show ?thesis using assms
    by (simp add: memtier_ctl_set_def builder_dynamic_ctl_set_def threshold_name_def ctl_prefix_def
        MEMTIER_POLICY_STATIC_RATIO_def MEMTIER_POLICY_DYNAMIC_THRESHOLD_def)
qed



end
