(* ===== verification/Memtier_Policy.thy ===== *)
theory Memtier_Policy
  imports Memtier_Ctl
begin

text \<open>
  The policies of \<open>src/memkind_memtier.c\<close>: what the static ratio and the thresholds pick, that
  a memory made by the builder is well formed, and that the adjustment of the thresholds
  keeps it so.
\<close>

section \<open>Well-formed memories\<close>

text \<open>
  A degree that never moves a threshold by more than its value, in spite of the rounding of
  floats: below 1 by at least 2^-22, or at most 1 if the thresholds have no more than 24 bits.
\<close>

definition degree_ok :: "float_t \<Rightarrow> nat \<Rightarrow> bool" where
  "degree_ok d n \<longleftrightarrow> (\<exists>x. d = Fin x \<and> 0 \<le> x \<and> (x \<le> 1 - 1 / 4194304 \<or> x \<le> 1 \<and> n \<le> 16777216))"

definition thr_ok :: "memtier_threshold_cfg \<Rightarrow> bool" where
  "thr_ok t \<longleftrightarrow> th_min t \<le> th_val t \<and> th_val t \<le> th_max t \<and> unat (th_max t) < 2 ^ 63"

definition tier_ids :: "memtier_memory \<Rightarrow> int set" where
  "tier_ids m = {0..<int (length (mem_cfg m))}"

definition mem_ok :: "memtier_memory \<Rightarrow> bool" where
  "mem_ok m \<longleftrightarrow> mem_cfg m \<noteq> [] \<and>
     (\<forall>c\<in>set (mem_cfg m). partition (tier_kind c) < MEMKIND_MAX_KIND) \<and>
     (get_kind m = DYNAMIC_THRESHOLD_GET_KIND \<longrightarrow> length (mem_thres m) \<ge> length (mem_cfg m) - 1) \<and>
     (update_cfg m = DYNAMIC_THRESHOLD_UPDATE \<longrightarrow> length (mem_thres m) \<ge> length (mem_cfg m) - 1 \<and>
        (\<forall>t\<in>set (mem_thres m). thr_ok t \<and> degree_ok (thres_degree m) (unat (th_max t)))) \<and>
     (get_kind m = DATA_HOTNESS_GET_KIND \<longrightarrow> hot_tier_id m \<in> tier_ids m \<and> cold_tier_id m \<in> tier_ids m)"

section \<open>Moving a threshold\<close>

definition same_limits :: "memtier_threshold_cfg \<Rightarrow> memtier_threshold_cfg \<Rightarrow> bool" where
  "same_limits t t' \<longleftrightarrow> th_min t' = th_min t \<and> th_max t' = th_max t \<and> exp_norm_ratio t' = exp_norm_ratio t"

lemma degree_ok_mono: "degree_ok d n \<Longrightarrow> k \<le> n \<Longrightarrow> degree_ok d k"
  by (auto simp: degree_ok_def)

lemma product_run:
  assumes "degree_ok d n" "n < 2 ^ 64"
  shows "\<exists>p. fmul (Fin (rnd (real n))) d = Fin p \<and> 0 \<le> p \<and> p \<le> real n"
proof -
  from assms(1) obtain x where x: "d = Fin x" "0 \<le> x" "x \<le> 1" "x \<le> 1 - 1 / 4194304 \<or> n \<le> 16777216"
    by (auto simp: degree_ok_def)
  define a where "a = rnd (real n)"
  have a: "0 \<le> a" "a \<le> real n * (1 + 1 / 16777216)" unfolding a_def using rnd_nonneg [of "real n"] rnd_of_nat(2) [of n] by simp_all
  have "real n \<le> real (2 ^ 64)" using assms(2) by (simp only: of_nat_le_iff less_imp_le)
  then have "a \<le> 2 ^ 65" using a(2) by simp
  moreover have ax: "0 \<le> a * x" "a * x \<le> a" using a(1) x by (simp_all add: mult_left_le)
  ultimately have f: "fmul (Fin a) d = Fin (rnd (a * x))" using x(1) f32_finite [of "a * x"] by simp
  have "rnd (a * x) \<le> real n"
  proof (cases "n \<le> 16777216")
    case True
    then have "a * x \<le> real n" using ax(2) by (simp add: a_def rnd_nat)
    then show ?thesis by (rule rnd_le_nat [OF ax(1) _ True])
  next
    case False
    then have x': "x \<le> 1 - 1 / 4194304" and n: "1 \<le> real n" using x(4) by simp_all
    have "a * x \<le> (real n * (1 + 1 / 16777216)) * (1 - 1 / 4194304)" using a x(2) x' by (intro mult_mono) simp_all
    then have "rnd (a * x) \<le> (real n * (1 + 1 / 16777216)) * (1 - 1 / 4194304) * (1 + 1 / 16777216) + 1 / 2 ^ 150"
      by (intro order_trans [OF rnd_upper [OF ax(1)]] add_right_mono mult_right_mono) simp_all
    also have "\<dots> \<le> real n" using n by simp
    finally show ?thesis .
  qed
  then show ?thesis using f rnd_nonneg [OF ax(1)] unfolding a_def by blast
qed

lemma fceil_run:
  assumes "degree_ok d (unat v)"
  shows "\<exists>w. fceil_size (fmul (of_word v) d) = Some w \<and> w \<le> (v :: size_t)"
proof -
  define n where "n = unat v"
  have nb: "n < 2 ^ 64" unfolding n_def using unsigned_less [of v] by simp
  from product_run [OF assms [folded n_def] nb] obtain p where
    p: "fmul (Fin (rnd (real n))) d = Fin p" "0 \<le> p" "p \<le> real n" by blast
  have ow: "of_word v = Fin (rnd (real n))" unfolding n_def by (rule of_word_finite) simp
  define c where "c = \<lceil>p\<rceil>"
  have c1: "c \<le> int n" unfolding c_def using p(3) by (simp add: ceiling_le_iff)
  have c0: "0 \<le> c" unfolding c_def using p(2) by (simp add: le_ceiling_iff less_le_trans [of _ 0])
  have "int n < int (2 ^ 64)" using nb by (simp only: of_nat_less_iff)
  then have c2: "c < 2 ^ 64" using c1 by simp
  have nc: "nat c \<le> n" using c1 by simp
  moreover have "unat (of_nat (nat c) :: 64 word) = nat c"
    by (rule of_nat_below) (rule order_le_less_trans [OF nc nb])
  ultimately have "(of_nat (nat c) :: 64 word) \<le> v" by (simp add: word_le_nat_alt n_def)
  moreover have "(of_nat (nat c) :: 64 word) = of_int c" using c0 by simp
  ultimately show ?thesis using c0 c2 unfolding ow p(1) c_def by simp
qed

lemma move_threshold_run:
  assumes "degree_ok d (unat (th_max t))" "thr_ok t"
  shows "\<exists>t'. move_threshold d higher t = Some t' \<and> thr_ok t' \<and> same_limits t t'"
proof -
  have "degree_ok d (unat (th_val t))"
    by (rule degree_ok_mono [OF assms(1)]) (use assms(2) in \<open>simp add: thr_ok_def word_le_nat_alt\<close>)
  from fceil_run [OF this] obtain w
    where w: "fceil_size (fmul (of_word (th_val t)) d) = Some w" "w \<le> th_val t" by blast
  have t: "th_min t \<le> th_val t" "th_val t \<le> th_max t" "unat (th_max t) < 2 ^ 63"
    using assms(2) by (simp_all add: thr_ok_def)
  have "unat w \<le> unat (th_val t)" "unat (th_val t) \<le> unat (th_max t)"
    using w(2) t(2) by (simp_all add: word_le_nat_alt)
  then have "unat (th_val t) + unat w < 2 ^ 64" using t(3) by simp
  then have "th_val t \<le> th_val t + w" by (simp add: word_le_nat_alt unat_add_nowrap)
  then have up: "th_min t \<le> th_val t + w" using t(1) by (rule order_trans [rotated])
  have "th_val t - w \<le> th_val t" using w(2) by (rule word_sub_le)
  then have down: "th_val t - w \<le> th_max t" using t(2) by (rule order_trans)
  show ?thesis using w(1) t up down
    by (auto simp: move_threshold_def Let_def thr_ok_def same_limits_def)
qed

lemma adjust_threshold_run:
  assumes "degree_ok d (unat (th_max t))" "thr_ok t"
  shows "\<exists>t'. adjust_threshold g d p n t = Some t' \<and> thr_ok t' \<and> same_limits t t'"
proof -
  define q where "q = fdiv (of_word n) (of_word p)"
  define t1 where "t1 = t\<lparr>current_ratio_diff := fdist q (exp_norm_ratio t)\<rparr>"
  have "thr_ok t1" "same_limits t t1" "degree_ok d (unat (th_max t1))"
    using assms by (simp_all add: t1_def thr_ok_def same_limits_def)
  then show ?thesis
    using move_threshold_run [OF \<open>degree_ok d (unat (th_max t1))\<close> \<open>thr_ok t1\<close>, of "flt (exp_norm_ratio t) q"]
      move_threshold_run [OF assms, of True]
    by (auto simp: adjust_threshold_def Let_def t1_def q_def same_limits_def)
qed

lemma adjust_thresholds_run:
  assumes "\<forall>t\<in>set ts. thr_ok t \<and> degree_ok d (unat (th_max t))" "length ts \<ge> length cs"
  shows "\<exists>ts'. adjust_thresholds M g d c cs ts = Some ts' \<and>
    (\<forall>t\<in>set ts'. thr_ok t \<and> degree_ok d (unat (th_max t))) \<and> list_all2 same_limits ts ts'"
  using assms
proof (induction cs arbitrary: c ts)
  case Nil
  then show ?case by (auto simp: same_limits_def list_all2_refl)
next
  case (Cons c' cs)
  then obtain t ts' where ts: "ts = t # ts'" by (cases ts) auto
  from adjust_threshold_run [of d t g "tier_size M c" "tier_size M c'"] Cons.prems ts
  obtain t' where t': "adjust_threshold g d (tier_size M c) (tier_size M c') t = Some t'" "thr_ok t'" "same_limits t t'"
    by auto
  from Cons.IH [of ts' c'] Cons.prems ts obtain ts''
    where "adjust_thresholds M g d c' cs ts' = Some ts''" "\<forall>t\<in>set ts''. thr_ok t \<and> degree_ok d (unat (th_max t))"
      "list_all2 same_limits ts' ts''"
    by auto
  moreover have "th_max t' = th_max t" using t'(3) by (simp add: same_limits_def)
  ultimately show ?case using t' ts Cons.prems(1) by simp
qed

lemma update_config_run:
  assumes "mem_ok m"
  shows "\<exists>m'. call_update_cfg M m = Some m' \<and> mem_ok m' \<and> mem_cfg m' = mem_cfg m \<and> get_kind m' = get_kind m \<and>
    post_alloc m' = post_alloc m \<and> update_cfg m' = update_cfg m \<and>
    hot_tier_id m' = hot_tier_id m \<and> cold_tier_id m' = cold_tier_id m \<and> list_all2 same_limits (mem_thres m) (mem_thres m')"
proof -
  have rf: "list_all2 same_limits ts ts" for ts by (simp add: same_limits_def list_all2_refl)
  show ?thesis
  proof (cases "update_cfg m = DYNAMIC_THRESHOLD_UPDATE")
    case False
    then show ?thesis using assms rf by (cases "update_cfg m") (auto simp: call_update_cfg_def)
  next
    case True
    obtain c cs where cf: "mem_cfg m = c # cs" using assms by (cases "mem_cfg m") (auto simp: mem_ok_def)
    have "\<forall>t\<in>set (mem_thres m). thr_ok t \<and> degree_ok (thres_degree m) (unat (th_max t))"
      "length (mem_thres m) \<ge> length cs"
      using assms True cf by (auto simp: mem_ok_def)
    from adjust_thresholds_run [OF this, of M "thres_trigger m" c] obtain ts
      where ts: "adjust_thresholds M (thres_trigger m) (thres_degree m) c cs (mem_thres m) = Some ts"
        "\<forall>t\<in>set ts. thr_ok t \<and> degree_ok (thres_degree m) (unat (th_max t))" "list_all2 same_limits (mem_thres m) ts" by blast
    have "length ts = length (mem_thres m)" using ts(3) by (simp add: list_all2_lengthD)
    then show ?thesis using assms True cf ts rf
      by (auto simp: call_update_cfg_def memtier_policy_dynamic_threshold_update_config_def Let_def
          mem_ok_def tier_ids_def)
  qed
qed

section \<open>The tier of an allocation\<close>

definition below_share :: "memtier \<Rightarrow> size_t \<Rightarrow> memtier_tier_cfg \<Rightarrow> bool" where
  "below_share M size_0 c \<longleftrightarrow>
     flt (fmul (of_word (tier_size M c)) (kind_ratio c)) (of_word size_0)"

text \<open>The loop returns the last tier below its share, or the initial value.\<close>

lemma static_loop:
  "let r = static_ratio_loop M s0 i cs d in
     (r = d \<and> (\<forall>c\<in>set cs. \<not> below_share M s0 c)) \<or>
     (\<exists>j<length cs. r = i + j \<and> below_share M s0 (cs ! j) \<and>
        (\<forall>l. j < l \<longrightarrow> l < length cs \<longrightarrow> \<not> below_share M s0 (cs ! l)))"
proof (induction cs arbitrary: i d)
  case (Cons c cs)
  define d' where "d' = (if below_share M s0 c then i else d)"
  have r: "static_ratio_loop M s0 i (c # cs) d = static_ratio_loop M s0 (Suc i) cs d'"
    by (simp add: d'_def below_share_def)
  from Cons.IH [of "Suc i" d'] consider
      "static_ratio_loop M s0 (Suc i) cs d' = d'" "\<forall>c\<in>set cs. \<not> below_share M s0 c"
    | j where "j < length cs" "static_ratio_loop M s0 (Suc i) cs d' = Suc i + j" "below_share M s0 (cs ! j)"
        "\<forall>l. j < l \<longrightarrow> l < length cs \<longrightarrow> \<not> below_share M s0 (cs ! l)"
    by (auto simp: Let_def)
  then show ?case
  proof cases
    case 1
    then show ?thesis
    proof (cases "below_share M s0 c")
      case True
      then have "\<forall>l. 0 < l \<longrightarrow> l < length (c # cs) \<longrightarrow> \<not> below_share M s0 ((c # cs) ! l)"
        using 1(2) by (auto simp: nth_Cons split: nat.split)
      then show ?thesis unfolding r Let_def using 1(1) True by (auto simp: d'_def intro!: exI [of _ 0])
    next
      case False
      then show ?thesis unfolding r Let_def using 1 by (intro disjI1) (simp add: d'_def)
    qed
  next
    case (2 j)
    then have "\<forall>l. Suc j < l \<longrightarrow> l < length (c # cs) \<longrightarrow> \<not> below_share M s0 ((c # cs) ! l)"
      by (auto simp: nth_Cons split: nat.split)
    then show ?thesis unfolding r Let_def using 2 by (intro disjI2 exI [of _ "Suc j"]) auto
  qed
qed simp

lemma dynamic_loop:
  "dynamic_threshold_loop n i ts = i + length (takeWhile (\<lambda>t. \<not> n < th_val t) ts)"
  by (induction ts arbitrary: i) auto

lemma static_get_kind_run:
  assumes "mem_ok m"
  shows "\<exists>c\<in>set (mem_cfg m). memtier_policy_static_ratio_get_kind M m = Some (tier_kind c)"
proof -
  obtain c cs where cf: "mem_cfg m = c # cs" using assms by (cases "mem_cfg m") (auto simp: mem_ok_def)
  have "static_ratio_loop M (tier_size M c) 1 cs 0 < length (mem_cfg m)"
    using static_loop [of M "tier_size M c" 1 cs 0] cf by (auto simp: Let_def)
  from nth_mem [OF this] show ?thesis unfolding memtier_policy_static_ratio_get_kind_def
    by (intro bexI [of _ "mem_cfg m ! static_ratio_loop M (tier_size M c) 1 cs 0"]) (simp_all add: cf)
qed

lemma dynamic_get_kind_run:
  assumes "mem_ok m" "get_kind m = DYNAMIC_THRESHOLD_GET_KIND"
  shows "\<exists>c\<in>set (mem_cfg m). memtier_policy_dynamic_threshold_get_kind m n = Some (tier_kind c)"
proof -
  let ?ts = "take (length (mem_cfg m) - 1) (mem_thres m)"
  have ne: "mem_cfg m \<noteq> []" "length (mem_thres m) \<ge> length (mem_cfg m) - 1" using assms by (auto simp: mem_ok_def)
  have "length (takeWhile (\<lambda>t. \<not> n < th_val t) ?ts) \<le> length ?ts" by (rule length_takeWhile_le)
  also have "\<dots> < length (mem_cfg m)" using ne by (cases "mem_cfg m") auto
  finally have "dynamic_threshold_loop n 0 ?ts < length (mem_cfg m)" by (simp add: dynamic_loop)
  then show ?thesis using ne by (auto simp: memtier_policy_dynamic_threshold_get_kind_def Let_def intro!: bexI)
qed

lemma tier_at_run: "i \<in> tier_ids m \<Longrightarrow> \<exists>c\<in>set (mem_cfg m). tier_at m i = Some (tier_kind c)"
  by (intro bexI [of _ "mem_cfg m ! nat i"]) (auto simp: tier_at_def tier_ids_def nat_less_iff)

section \<open>Memories of the threshold policy\<close>

lemma create_thresholds_length:
  "length ts = length cs - 1 \<Longrightarrow> length (create_thresholds cs ts) = length cs - 1"
  by (induction cs ts rule: create_thresholds.induct) auto

lemma create_thresholds_max:
  "t \<in> set (create_thresholds cs ts) \<Longrightarrow> \<exists>t'\<in>set ts. th_max t = th_max t'"
  by (induction cs ts rule: create_thresholds.induct) (auto simp: create_threshold_def)

text \<open>Adjacent ranges do not overlap; the relation only looks at the limits.\<close>

definition ranges_ascend :: "memtier_threshold_cfg list \<Rightarrow> bool" where
  "ranges_ascend ts \<longleftrightarrow> sorted_wrt (\<lambda>t t'. th_max t \<le> th_min t') ts"

lemma validated:
  assumes "validate_thresholds prev ts"
  shows "(\<forall>t\<in>set ts. th_min t \<le> th_val t \<and> th_val t \<le> th_max t) \<and> ranges_ascend ts \<and>
    (\<forall>p. prev = Some p \<longrightarrow> (\<forall>t\<in>set ts. th_max p \<le> th_min t))"
  using assms
proof (induction ts arbitrary: prev)
  case (Cons t ts)
  then have IH: "\<forall>t\<in>set ts. th_min t \<le> th_val t \<and> th_val t \<le> th_max t" "ranges_ascend ts"
    "\<forall>t'\<in>set ts. th_max t \<le> th_min t'" by auto
  have t: "th_min t \<le> th_val t" "th_val t \<le> th_max t" using Cons.prems by auto
  have p: "th_max q \<le> th_min t" if "prev = Some q" for q using Cons.prems that by auto
  have "th_max q \<le> th_min t'" if "prev = Some q" "t' \<in> set ts" for q t'
    using p [OF that(1)] t IH(3) that(2) by (meson order_trans)
  then show ?case using IH t p by (auto simp: ranges_ascend_def)
qed (simp add: ranges_ascend_def)

lemma limits_ascend:
  "list_all2 same_limits ts ts' \<Longrightarrow> ranges_ascend ts' \<longleftrightarrow> ranges_ascend ts"
proof (induction rule: list_all2_induct)
  case (Cons t ts t' ts')
  have "(\<forall>x\<in>set ts'. th_max t' \<le> th_min x) \<longleftrightarrow> (\<forall>x\<in>set ts. th_max t \<le> th_min x)"
    using Cons.hyps by (auto simp: same_limits_def list_all2_conv_all_nth in_set_conv_nth Ball_def)
  then show ?case using Cons.IH by (simp add: ranges_ascend_def)
qed simp

lemma ranges_vals_sorted:
  assumes "ranges_ascend ts" "\<forall>t\<in>set ts. th_min t \<le> th_val t \<and> th_val t \<le> th_max t"
  shows "sorted_wrt (\<lambda>t t'. th_val t \<le> th_val t') ts"
proof (rule sorted_wrt_mono_rel)
  show "sorted_wrt (\<lambda>t t'. th_max t \<le> th_min t') ts" using assms(1) by (simp add: ranges_ascend_def)
  fix t t' assume "t \<in> set ts" "t' \<in> set ts" "th_max t \<le> th_min t'"
  then show "th_val t \<le> th_val t'" using assms(2) by (meson order_trans)
qed

lemma takeWhile_filter_sorted:
  "sorted_wrt (\<lambda>t t'. th_val t \<le> th_val t') ts \<Longrightarrow>
    takeWhile (\<lambda>t. \<not> n < th_val t) ts = filter (\<lambda>t. th_val t \<le> n) ts"
proof (induction ts)
  case (Cons t ts)
  show ?case
  proof (cases "n < th_val t")
    case True
    then have "\<forall>t'\<in>set ts. \<not> th_val t' \<le> n" using Cons.prems by (auto simp: not_le intro: less_le_trans)
    then show ?thesis using True by (simp add: leD filter_empty_conv)
  qed (use Cons in \<open>simp add: not_less\<close>)
qed simp

text \<open>The configuration checks after calls of other threads, in states \<open>Ms\<close>.\<close>

primrec updates :: "memtier list \<Rightarrow> memtier_memory \<Rightarrow> memtier_memory option" where
  "updates [] m = Some m"
| "updates (M # Ms) m = do { m' \<leftarrow> call_update_cfg M m; updates Ms m' }"

lemma updates_run:
  assumes "mem_ok m"
  shows "\<exists>m'. updates Ms m = Some m' \<and> mem_ok m' \<and> mem_cfg m' = mem_cfg m \<and> get_kind m' = get_kind m \<and>
    list_all2 same_limits (mem_thres m) (mem_thres m') \<and> update_cfg m' = update_cfg m"
  using assms
proof (induction Ms arbitrary: m)
  case Nil
  then show ?case by (simp add: same_limits_def list_all2_refl)
next
  case (Cons M Ms)
  from update_config_run [OF Cons.prems, of M] obtain m1 where m1: "call_update_cfg M m = Some m1" "mem_ok m1"
    "mem_cfg m1 = mem_cfg m" "get_kind m1 = get_kind m" "list_all2 same_limits (mem_thres m) (mem_thres m1)"
    "update_cfg m1 = update_cfg m" by blast
  from Cons.IH [OF m1(2)] obtain m' where m': "updates Ms m1 = Some m'" "mem_ok m'" "mem_cfg m' = mem_cfg m1"
    "get_kind m' = get_kind m1" "list_all2 same_limits (mem_thres m1) (mem_thres m')" "update_cfg m' = update_cfg m1" by blast
  have "list_all2 same_limits (mem_thres m) (mem_thres m')"
    by (rule list_all2_trans [OF _ m1(5) m'(5)]) (simp add: same_limits_def)
  then show ?case using m1 m' by simp
qed

lemma static_cfg_kinds: "map tier_kind (static_cfg cfg) = map tier_kind cfg"
  by (simp add: static_cfg_def split: list.split)

definition thresholds_fit :: "memtier_builder \<Rightarrow> bool" where
  "thresholds_fit b \<longleftrightarrow> length (bd_thres b) = length (bd_cfg b) - 1 \<and>
     (\<forall>c\<in>set (bd_cfg b). partition (tier_kind c) < MEMKIND_MAX_KIND) \<and>
     (\<forall>t\<in>set (bd_thres b). unat (th_max t) < 2 ^ 63 \<and> degree_ok (degree b) (unat (th_max t)))"

lemma dynamic_create_run:
  assumes b: "thresholds_fit b" and m: "builder_dynamic_create_memory ok m0 k0 b = Some m"
  shows "mem_ok m \<and> ranges_ascend (mem_thres m) \<and> length (mem_thres m) = length (bd_cfg b) - 1 \<and>
    map tier_kind (mem_cfg m) = map tier_kind (bd_cfg b) \<and>
    get_kind m = DYNAMIC_THRESHOLD_GET_KIND \<and> update_cfg m = DYNAMIC_THRESHOLD_UPDATE"
proof -
  let ?ts = "create_thresholds (bd_cfg b) (bd_thres b)"
  have v: "validate_thresholds None ?ts" and l: "length (bd_cfg b) \<ge> 2"
    and f: "mem_thres m = ?ts" "mem_cfg m = static_cfg (bd_cfg b)" "thres_degree m = degree b"
      "get_kind m = DYNAMIC_THRESHOLD_GET_KIND" "update_cfg m = DYNAMIC_THRESHOLD_UPDATE"
    using m by (auto simp: builder_dynamic_create_memory_def memtier_memory_init_def Let_def split: if_splits)
  have lt: "length ?ts = length (bd_cfg b) - 1" using b by (simp add: thresholds_fit_def create_thresholds_length)
  have k: "map tier_kind (mem_cfg m) = map tier_kind (bd_cfg b)" using f(2) static_cfg_kinds by simp
  then have len: "length (mem_cfg m) = length (bd_cfg b)" by (metis length_map)
  have "\<forall>c\<in>set (mem_cfg m). partition (tier_kind c) < MEMKIND_MAX_KIND"
  proof
    fix c assume "c \<in> set (mem_cfg m)"
    then have "tier_kind c \<in> set (map tier_kind (bd_cfg b))" unfolding k [symmetric] by simp
    then show "partition (tier_kind c) < MEMKIND_MAX_KIND" using b by (auto simp: thresholds_fit_def)
  qed
  moreover have "\<forall>t\<in>set ?ts. thr_ok t \<and> degree_ok (degree b) (unat (th_max t))"
    using validated [OF v] create_thresholds_max b unfolding thr_ok_def thresholds_fit_def by metis
  moreover have "mem_cfg m \<noteq> []" using len l by auto
  ultimately have "mem_ok m" using b f lt len by (simp add: mem_ok_def thresholds_fit_def)
  then show ?thesis using validated [OF v] f lt k by simp
qed

text \<open>
  A degree of exactly 1 can make a lowered threshold wrap around and leave its range: the
  value 16777219 is rounded up to 16777220 on its way to a float.
\<close>

lemma threshold_wraps:
  "map_option th_val (move_threshold (Fin 1) False \<lparr>th_val = 16777219, th_min = 1, th_max = 16777220,
     exp_norm_ratio = Fin 1, current_ratio_diff = Fin 0\<rparr>) = Some (- 1) \<and> (16777220 :: size_t) < - 1"
proof -
  have "f32 16777220 = Fin 16777220"
    using f32_finite [of 16777220] ulp_eq [of 150 16777220] by (simp add: rnd_def rne_def)
  moreover have "of_word (16777219 :: size_t) = Fin 16777220"
    using of_word_finite [of "16777219 :: size_t"] rnd_16777219 by simp
  moreover have "(1 :: size_t) \<le> - 1" "(16777220 :: size_t) < - 1" by code_simp+
  ultimately show ?thesis by (simp add: move_threshold_def Let_def)
qed

section \<open>The default thresholds\<close>

lemma default_threshold_values:
  assumes "i < 2 ^ 20"
  shows "unat (th_min (default_threshold junk i)) = 1024 * i + 512"
    and "unat (th_val (default_threshold junk i)) = 1024 * i + 1024"
    and "unat (th_max (default_threshold junk i)) = 1024 * i + 1535"
proof -
  have "real THRESHOLD_STEP * (1 / 2 + real i) = real (1024 * i + 512)"
    "real THRESHOLD_STEP * (3 / 2 + real i) - 1 = real (1024 * i + 1535)"
    by (simp_all add: THRESHOLD_STEP_def algebra_simps)
  then have fl: "nat \<lfloor>real THRESHOLD_STEP * (1 / 2 + real i)\<rfloor> = 1024 * i + 512"
    "nat \<lfloor>real THRESHOLD_STEP * (3 / 2 + real i) - 1\<rfloor> = 1024 * i + 1535"
    by (simp_all only: floor_of_nat nat_int)
  show "unat (th_min (default_threshold junk i)) = 1024 * i + 512"
    "unat (th_max (default_threshold junk i)) = 1024 * i + 1535"
    using assms unfolding default_threshold_def fl by (simp_all add: of_nat_below del: of_nat_add of_nat_mult)
  have "(of_nat THRESHOLD_STEP * of_nat (i + 1) :: 32 word) = of_nat (1024 * i + 1024)"
    by (simp add: THRESHOLD_STEP_def algebra_simps)
  moreover have "unat (of_nat (1024 * i + 1024) :: 32 word) = 1024 * i + 1024"
    using assms by (simp add: unat_of_nat take_bit_nat_eq_self del: of_nat_add of_nat_mult)
  moreover have "take_bit 64 (1024 * i + 1024) = 1024 * i + 1024" using assms by (intro take_bit_nat_eq_self) simp
  ultimately show "unat (th_val (default_threshold junk i)) = 1024 * i + 1024"
    by (simp add: default_threshold_def unsigned_ucast_eq)
qed

text \<open>A builder of the policy that has only been given tiers.\<close>

primrec add_tiers :: "memtier_threshold_cfg \<Rightarrow> memtier_builder \<Rightarrow> (memkind \<times> 32 word) list \<Rightarrow> memtier_builder option" where
  "add_tiers junk b [] = Some b"
| "add_tiers junk b (kr # krs) =
     (case memtier_builder_add_tier (\<lambda>_. True) junk b (Some (fst kr)) (snd kr) of
        (ret, b') \<Rightarrow> if ret = 0 then add_tiers junk b' krs else None)"

definition tier_of :: "memkind \<times> 32 word \<Rightarrow> memtier_tier_cfg" where
  "tier_of kr = \<lparr>tier_kind = fst kr, kind_ratio = of_word (snd kr)\<rparr>"

lemma add_tiers_run:
  assumes "bd_policy b = MEMTIER_POLICY_DYNAMIC_THRESHOLD"
    and "distinct (map tier_kind (bd_cfg b) @ map fst krs)"
    and "bd_thres b = map (default_threshold junk) [0..<length (bd_cfg b) - 1]"
  shows "\<exists>b'. add_tiers junk b krs = Some b' \<and> bd_cfg b' = bd_cfg b @ map tier_of krs \<and>
    bd_thres b' = map (default_threshold junk) [0..<length (bd_cfg b') - 1] \<and>
    check_cnt b' = check_cnt b \<and> trigger b' = trigger b \<and> degree b' = degree b \<and> bd_policy b' = bd_policy b"
  using assms
proof (induction krs arbitrary: b)
  case (Cons kr krs)
  let ?n = "length (bd_cfg b)"
  define b1 where "b1 = b\<lparr>bd_thres := map (default_threshold junk) [0..<?n], bd_cfg := bd_cfg b @ [tier_of kr]\<rparr>"
  have new: "fst kr \<notin> tier_kind ` set (bd_cfg b)" using Cons.prems(2) by auto
  have th: "take (?n - 1) (bd_thres b) @ [default_threshold junk (?n - 1)] = map (default_threshold junk) [0..<?n]"
    if "?n \<ge> 1" using that Cons.prems(3) by (cases ?n) simp_all
  have "memtier_builder_add_tier (\<lambda>_. True) junk b (Some (fst kr)) (snd kr) = (0, b1)"
  proof (cases "bd_cfg b = []")
    case True
    then show ?thesis using Cons.prems(1,3)
      by (cases b) (simp add: memtier_builder_add_tier_def builder_dynamic_update_def Let_def b1_def tier_of_def)
  next
    case False
    then have "?n \<ge> 1" by (simp add: Suc_le_eq)
    then show ?thesis using new Cons.prems(1) th False
      by (simp add: memtier_builder_add_tier_def builder_dynamic_update_def Let_def b1_def tier_of_def)
  qed
  moreover have "tier_kind (tier_of kr) = fst kr" by (simp add: tier_of_def)
  with Cons.IH [of b1] Cons.prems obtain b'
    where "add_tiers junk b1 krs = Some b'" "bd_cfg b' = bd_cfg b1 @ map tier_of krs"
      "bd_thres b' = map (default_threshold junk) [0..<length (bd_cfg b') - 1]"
      "check_cnt b' = check_cnt b1" "trigger b' = trigger b1" "degree b' = degree b1" "bd_policy b' = bd_policy b1"
    by (auto simp: b1_def)
  ultimately show ?case by (simp add: b1_def)
qed simp

lemma default_thresholds_valid:
  assumes "n < 2 ^ 20" "\<And>i. i < n \<Longrightarrow> th_val (ts ! i) = th_val (default_threshold junk (k + i)) \<and>
      th_min (ts ! i) = th_min (default_threshold junk (k + i)) \<and> th_max (ts ! i) = th_max (default_threshold junk (k + i))"
    and "length ts = n" "k + n < 2 ^ 20"
    and "\<And>p. prev = Some p \<Longrightarrow> unat (th_max p) < 1024 * k + 512"
  shows "validate_thresholds prev ts"
  using assms
proof (induction ts arbitrary: n k prev)
  case (Cons t ts)
  then obtain n' where n': "n = Suc n'" by (cases n) auto
  have t: "unat (th_min t) = 1024 * k + 512" "unat (th_val t) = 1024 * k + 1024" "unat (th_max t) = 1024 * k + 1535"
    using Cons.prems(2) [of 0] n' default_threshold_values [of k junk] Cons.prems(4) by auto
  have "validate_thresholds (Some t) ts"
  proof (rule Cons.IH [of n' "Suc k"])
    show "th_val (ts ! i) = th_val (default_threshold junk (Suc k + i)) \<and>
        th_min (ts ! i) = th_min (default_threshold junk (Suc k + i)) \<and>
        th_max (ts ! i) = th_max (default_threshold junk (Suc k + i))" if "i < n'" for i
      using Cons.prems(2) [of "Suc i"] n' that by simp
  qed (use Cons.prems n' t in auto)
  moreover have "\<not> th_min t > th_val t" "\<not> th_val t > th_max t" using t by (simp_all add: word_less_nat_alt)
  moreover have "\<not> th_max p > th_min t" if "prev = Some p" for p
    using Cons.prems(5) [OF that] t by (simp add: word_less_nat_alt)
  ultimately show ?case by (simp split: option.split)
qed simp

lemma create_thresholds_nth:
  assumes "length ts = length cs - 1" "i < length ts"
  shows "create_thresholds cs ts ! i = create_threshold (cs ! i) (cs ! Suc i) (ts ! i)"
  using assms
proof (induction cs ts arbitrary: i rule: create_thresholds.induct)
  case (1 c c' cs t ts)
  then show ?case by (cases i) auto
qed auto

section \<open>Properties\<close>

text \<open>
  C14: the thresholds of a memory stay well formed.  If the builder has one threshold between
  every two tiers, the limits stay below half of the address range and the degree is at most
  1 - 2^-22, or at most 1 for limits of at most 2^24 (beyond that, rounding the threshold to a
  float can make it wrap around, see \<open>threshold_wraps\<close>), then after any number of adjustments, in whatever states of the sizes, every threshold is
  between its limits, the thresholds are in ascending order, and an allocation goes to the
  tier given by the number of thresholds it reaches.
\<close>

theorem dynamic_thresholds_correct:
  assumes "thresholds_fit b" "builder_dynamic_create_memory ok m0 k0 b = Some m"
  shows "\<exists>m'. updates Ms m = Some m' \<and> length (mem_thres m') = length (bd_cfg b) - 1 \<and>
    (\<forall>i<length (mem_thres m'). th_min (mem_thres m ! i) \<le> th_val (mem_thres m' ! i) \<and>
      th_val (mem_thres m' ! i) \<le> th_max (mem_thres m ! i)) \<and>
    sorted_wrt (\<lambda>t t'. th_val t \<le> th_val t') (mem_thres m') \<and>
    (\<forall>n. memtier_policy_dynamic_threshold_get_kind m' n =
      Some (tier_kind (bd_cfg b ! length (filter (\<lambda>t. th_val t \<le> n) (mem_thres m')))))"
proof -
  note c = dynamic_create_run [OF assms]
  from updates_run [of m Ms] c obtain m' where m': "updates Ms m = Some m'" "mem_ok m'" "mem_cfg m' = mem_cfg m"
    "list_all2 same_limits (mem_thres m) (mem_thres m')" "update_cfg m' = DYNAMIC_THRESHOLD_UPDATE" by auto
  have len: "length (mem_thres m') = length (bd_cfg b) - 1" "length (mem_thres m) = length (mem_thres m')"
    using m'(4) c by (simp_all add: list_all2_lengthD [symmetric])
  have ok: "\<forall>t\<in>set (mem_thres m'). th_min t \<le> th_val t \<and> th_val t \<le> th_max t"
    using m'(2,5) by (auto simp: mem_ok_def thr_ok_def)
  have srt: "sorted_wrt (\<lambda>t t'. th_val t \<le> th_val t') (mem_thres m')"
    using limits_ascend [OF m'(4)] c ok by (intro ranges_vals_sorted) simp_all
  have cfg: "length (mem_cfg m) = length (bd_cfg b)" using c by (metis length_map)
  have "same_limits (mem_thres m ! i) (mem_thres m' ! i)" if "i < length (mem_thres m')" for i
    using m'(4) that len(2) by (simp add: list_all2_conv_all_nth)
  then have lim: "th_min (mem_thres m ! i) \<le> th_val (mem_thres m' ! i) \<and>
      th_val (mem_thres m' ! i) \<le> th_max (mem_thres m ! i)" if "i < length (mem_thres m')" for i
    using bspec [OF ok nth_mem [OF that]] that by (simp add: same_limits_def)
  have "memtier_policy_dynamic_threshold_get_kind m' n =
      Some (tier_kind (bd_cfg b ! length (filter (\<lambda>t. th_val t \<le> n) (mem_thres m'))))" for n
  proof -
    have ne: "mem_cfg m' \<noteq> []" using m'(2) by (simp add: mem_ok_def)
    let ?k = "length (filter (\<lambda>t. th_val t \<le> n) (mem_thres m'))"
    have "?k \<le> length (mem_thres m')" by simp
    also have "\<dots> < length (bd_cfg b)" using len ne cfg m'(3) by (cases "bd_cfg b") auto
    finally have "tier_kind (mem_cfg m ! ?k) = tier_kind (bd_cfg b ! ?k)"
      using c cfg by (metis nth_map)
    moreover have "bd_cfg b \<noteq> []" using ne cfg m'(3) by auto
    ultimately show ?thesis using ne len cfg m'(3) takeWhile_filter_sorted [OF srt, of n]
      by (simp add: memtier_policy_dynamic_threshold_get_kind_def Let_def dynamic_loop)
  qed
  then show ?thesis using m'(1) len(1) srt lim by blast
qed

definition dyn_builder :: memtier_builder where
  "dyn_builder = \<lparr>bd_cfg = [], bd_thres = [], check_cnt = THRESHOLD_CHECK_CNT, trigger = f32 (2 / 100),
     degree = f32 (15 / 100), bd_policy = MEMTIER_POLICY_DYNAMIC_THRESHOLD\<rparr>"

lemma default_builder_run:
  assumes "distinct (map fst krs)" "2 \<le> length krs" "length krs < 2 ^ 20"
    and "\<forall>kr\<in>set krs. partition (fst kr) < MEMKIND_MAX_KIND"
  shows "\<exists>b m. add_tiers junk dyn_builder krs = Some b \<and> thresholds_fit b \<and>
    builder_dynamic_create_memory (\<lambda>_. True) m0 k0 b = Some m \<and> bd_cfg b = map tier_of krs"
proof -
  from add_tiers_run [of dyn_builder krs junk] assms(1) obtain b where b: "add_tiers junk dyn_builder krs = Some b"
    "bd_cfg b = map tier_of krs" "bd_thres b = map (default_threshold junk) [0..<length krs - 1]"
    "trigger b = f32 (2 / 100)" "degree b = f32 (15 / 100)" by (auto simp: dyn_builder_def)
  have max: "unat (th_max t) < 2 ^ 63" if "t \<in> set (bd_thres b)" for t
    using that assms(3) by (auto simp: b(3) default_threshold_values)
  have f: "degree b = Fin (rnd (15 / 100))" "trigger b = Fin (rnd (2 / 100))" unfolding b(4,5) by (rule f32_finite; simp)+
  have "rnd (15 / 100) \<le> 1 - 1 / 4194304" using rnd_upper [of "15 / 100"] by simp
  then have "degree_ok (degree b) n" for n using rnd_nonneg [of "15 / 100"] by (auto simp: degree_ok_def f(1))
  then have fit: "thresholds_fit b" using b(2,3) assms(4) max by (auto simp: thresholds_fit_def tier_of_def)
  let ?ts = "create_thresholds (bd_cfg b) (bd_thres b)"
  have l: "length (bd_thres b) = length (bd_cfg b) - 1" "length (bd_cfg b) = length krs" using b(2,3) by simp_all
  have "validate_thresholds None ?ts"
  proof (rule default_thresholds_valid [of "length krs - 1" _ junk 0])
    show "th_val (?ts ! i) = th_val (default_threshold junk (0 + i)) \<and>
        th_min (?ts ! i) = th_min (default_threshold junk (0 + i)) \<and>
        th_max (?ts ! i) = th_max (default_threshold junk (0 + i))" if "i < length krs - 1" for i
      using that l b(3) by (subst create_thresholds_nth; simp add: create_threshold_def)+
  qed (use assms(2,3) create_thresholds_length l in auto)
  then have "\<exists>m. builder_dynamic_create_memory (\<lambda>_. True) m0 k0 b = Some m"
    using assms(2) l f rnd_nonneg [of "15 / 100"] rnd_nonneg [of "2 / 100"]
    by (auto simp: builder_dynamic_create_memory_def memtier_memory_init_def Let_def)
  then show ?thesis using b fit by blast
qed

definition demo_kind0 :: memkind where "demo_kind0 = Memkind 8192 0"
definition demo_kind1 :: memkind where "demo_kind1 = Memkind 8448 18"

definition demo_thres0 :: memtier_threshold_cfg where
  "demo_thres0 = \<lparr>th_val = 0, th_min = 0, th_max = 0, exp_norm_ratio = Fin 0, current_ratio_diff = Fin 0\<rparr>"

definition demo_mem0 :: memtier_memory where
  "demo_mem0 = \<lparr>mem_cfg = [], mem_thres = [], thres_check_cnt = 9, thres_init_check_cnt = 9, thres_trigger = NaN,
     thres_degree = NaN, hot_tier_id = 9, cold_tier_id = 9, get_kind = SINGLE_GET_KIND,
     post_alloc = EMPTY_POST_ALLOC, update_cfg = STATIC_RATIO_UPDATE\<rparr>"

definition demo_memtier :: memtier where
  "demo_memtier = \<lparr>t_alloc_size = (\<lambda>_ _. 0), g_alloc_size = (\<lambda>_. 0), g_totalTiers = 2, g_hotTierId = 0,
     g_hotTotalDesiredRatio = Some (1 / 5), g_hotTotalActualRatio = Some 0, g_totalSize = 0,
     pol = MEMTIER_POLICY_DATA_HOTNESS, MEMKIND_DEFAULT = demo_kind0, mt_heap = Map.empty, mt_tk = demo_tk,
     g_memtier_free_called = 0, g_memtier_hotness_free_called = 0, g_successful_adds = (\<lambda>_. 0),
     g_failed_adds = (\<lambda>_. 0), hotness_log_counter = 0, hotness_counter = (\<lambda>_. 0),
     hotness_alloc_counter = (\<lambda>_. 0), statistics_counter = 0\<rparr>"

theorem dynamic_thresholds_correct_witness:
  "\<exists>b m m'. add_tiers demo_thres0 dyn_builder [(demo_kind0, 1), (demo_kind1, 4)] = Some b \<and>
    builder_dynamic_create_memory (\<lambda>_. True) demo_mem0 demo_kind0 b = Some m \<and>
    updates [demo_memtier, demo_memtier] m = Some m' \<and> length (mem_thres m') = 1 \<and>
    th_min (mem_thres m ! 0) \<le> th_val (mem_thres m' ! 0)"
proof -
  from default_builder_run [of "[(demo_kind0, 1), (demo_kind1, 4)]" demo_thres0 demo_mem0 demo_kind0] obtain b m
    where b: "add_tiers demo_thres0 dyn_builder [(demo_kind0, 1), (demo_kind1, 4)] = Some b" "thresholds_fit b"
      "builder_dynamic_create_memory (\<lambda>_. True) demo_mem0 demo_kind0 b = Some m"
      "bd_cfg b = map tier_of [(demo_kind0, 1), (demo_kind1, 4)]"
    by (auto simp: demo_kind0_def demo_kind1_def MEMKIND_MAX_KIND_def)
  from dynamic_thresholds_correct [OF b(2,3), of "[demo_memtier, demo_memtier]"] b(1,3,4) show ?thesis by auto
qed

text \<open>
  The ratios as the builder has stored them.  A ratio given as a positive unsigned integer is
  stored as a float in this range.
\<close>

definition ratio_at :: "memtier_builder \<Rightarrow> nat \<Rightarrow> real" where
  "ratio_at b i = (case kind_ratio (bd_cfg b ! i) of Fin x \<Rightarrow> x | _ \<Rightarrow> 0)"

definition ratios_positive :: "memtier_builder \<Rightarrow> bool" where
  "ratios_positive b \<longleftrightarrow> (\<forall>c\<in>set (bd_cfg b). \<exists>x. kind_ratio c = Fin x \<and> 1 \<le> x \<and> x \<le> 2 ^ 33)"

lemma unsigned_ratio:
  fixes r :: "32 word"
  assumes "r \<noteq> 0"
  shows "\<exists>x. of_word r = Fin x \<and> 1 \<le> x \<and> x \<le> 2 ^ 33"
proof -
  define n where "n = unat r"
  have n: "1 \<le> n" "n < 2 ^ 32" using assms unsigned_less [of r] by (simp_all add: n_def Suc_le_eq unat_gt_0)
  have "1 \<le> rnd (real n)"
  proof (cases "n \<le> 16777216")
    case True
    then show ?thesis using n(1) by (simp add: rnd_nat)
  next
    case False
    then have "2 \<le> real n" by simp
    then show ?thesis using rnd_of_nat(1) [of n] by simp
  qed
  moreover have "real n \<le> 2 ^ 32" using n(2) by simp
  then have "rnd (real n) \<le> 2 ^ 33" using rnd_of_nat(2) [of n] by simp
  ultimately show ?thesis using of_word_finite [of r] by (simp add: n_def)
qed

lemma given_ratios:
  "bd_cfg b = map tier_of krs \<Longrightarrow> \<forall>kr\<in>set krs. snd kr \<noteq> 0 \<Longrightarrow> ratios_positive b"
  using unsigned_ratio by (auto simp: ratios_positive_def tier_of_def)

text \<open>The float product of a size and a quotient of ratios, and the bounds of its error.\<close>

lemma rnd_product:
  assumes "1 / 2 ^ 126 \<le> y \<or> y = 0" "l \<le> y" "y \<le> h" "0 \<le> h"
  shows "l * (1 - 1 / 16777216) \<le> rnd y" "rnd y \<le> h * (1 + 1 / 16777216)"
proof -
  have "l * (1 - 1 / 16777216) \<le> y * (1 - 1 / 16777216)" "y * (1 + 1 / 16777216) \<le> h * (1 + 1 / 16777216)"
    using assms(2,3) by (intro mult_right_mono; simp)+
  then show "l * (1 - 1 / 16777216) \<le> rnd y" "rnd y \<le> h * (1 + 1 / 16777216)"
    using rnd_normal [OF assms(1)] by linarith+
qed

lemma share_product:
  assumes "1 \<le> x" "x \<le> 2 ^ 33" "1 \<le> y" "y \<le> 2 ^ 33" "n < 2 ^ 64"
  shows "\<exists>p. fmul (Fin (rnd (real n))) (fdiv (Fin x) (Fin y)) = Fin p \<and>
    real n * (x / y) * (1 - 1 / 16777216) ^ 3 \<le> p \<and> p \<le> real n * (x / y) * (1 + 1 / 16777216) ^ 3"
proof -
  define d e q a :: real where "d = 1 - 1 / 16777216" and "e = 1 + 1 / 16777216" and "q = x / y" and "a = rnd (real n)"
  have de: "0 \<le> d" "0 \<le> e" by (simp_all add: d_def e_def)
  have q: "1 / 2 ^ 33 \<le> q" "q \<le> 2 ^ 33"
    using frac_le [of x 1 y "2 ^ 33"] frac_le [of "2 ^ 33" x 1 y] assms unfolding q_def by simp_all
  have q0: "0 \<le> q" using q(1) by (rule order_trans [rotated]) simp
  have "1 / 2 ^ 126 \<le> (1 / 2 ^ 33 :: real)" by simp
  then have qn: "1 / 2 ^ 126 \<le> q \<or> q = 0" using q(1) by linarith
  have fq: "fdiv (Fin x) (Fin y) = Fin (rnd q)" using f32_finite [of q] q q0 assms(3) by (simp add: q_def)
  have rq: "q * d \<le> rnd q" "rnd q \<le> q * e" using rnd_normal [OF qn] by (simp_all only: d_def e_def)
  have ra: "real n * d \<le> a" "a \<le> real n * e" using rnd_of_nat [of n] by (simp_all only: d_def e_def a_def)
  have a0: "0 \<le> a" "0 \<le> rnd q" by (simp_all add: a_def rnd_nonneg q0)
  have lo: "(real n * d) * (q * d) \<le> a * rnd q" using de q0 a0 by (intro mult_mono ra rq) simp_all
  have hi: "a * rnd q \<le> (real n * e) * (q * e)" using de q0 a0 by (intro mult_mono ra rq) simp_all
  have nz: "1 / 2 ^ 126 \<le> a * rnd q \<or> a * rnd q = 0"
  proof (cases "n = 0")
    case True
    then show ?thesis using rnd_nat [of 0] by (simp add: a_def)
  next
    case False
    then have "1 * (1 / 2 ^ 33) \<le> real n * q" using q(1) by (intro mult_mono) simp_all
    then have "(1 * (1 / 2 ^ 33)) * (d * d) \<le> (real n * q) * (d * d)" using de by (intro mult_right_mono) simp_all
    moreover have "1 / 2 ^ 126 \<le> (1 * (1 / 2 ^ 33)) * (d * d)" by (simp add: d_def)
    ultimately have "1 / 2 ^ 126 \<le> (real n * d) * (q * d)" by (simp only: ac_simps)
    then show ?thesis using lo by linarith
  qed
  have "real n \<le> 2 ^ 64" using assms(5) by simp
  then have "(real n * e) * (q * e) \<le> (2 ^ 64 * e) * (2 ^ 33 * e)" using q q0 de by (intro mult_mono) simp_all
  also have "\<dots> \<le> 2 ^ 127" by (simp add: e_def)
  finally have fin: "fmul (Fin a) (Fin (rnd q)) = Fin (rnd (a * rnd q))"
    using hi a0 f32_finite [of "a * rnd q"] by simp
  have "0 \<le> (real n * e) * (q * e)" using de q0 by simp
  note p = rnd_product [OF nz lo hi this, folded d_def e_def]
  show ?thesis unfolding fq q_def [symmetric] a_def [symmetric] d_def [symmetric] e_def [symmetric]
    using fin p by (auto simp: power3_eq_cube ac_simps)
qed

lemma share_compare:
  fixes A B p b :: real
  assumes "A * (1 - 1 / 16777216) ^ 3 \<le> p" "p \<le> A * (1 + 1 / 16777216) ^ 3"
    and "B * (1 - 1 / 16777216) \<le> b" "b \<le> B * (1 + 1 / 16777216)" "0 \<le> A" "0 \<le> B"
  shows "p < b \<Longrightarrow> A < B * (1 + 1 / 2097152)" "\<not> p < b \<Longrightarrow> B * (1 - 1 / 2097152) \<le> A"
proof -
  assume "p < b"
  then have lt: "A * (1 - 1 / 16777216) ^ 3 < B * (1 + 1 / 16777216)" using assms(1,4) by linarith
  have "B * (1 + 1 / 16777216) \<le> B * (1 + 1 / 2097152) * (1 - 1 / 16777216) ^ 3"
    using assms(6) by (simp add: power3_eq_cube)
  with lt have "A * (1 - 1 / 16777216) ^ 3 < B * (1 + 1 / 2097152) * (1 - 1 / 16777216) ^ 3" by linarith
  then show "A < B * (1 + 1 / 2097152)" by (rule mult_right_less_imp_less) simp
next
  assume "\<not> p < b"
  then have le: "B * (1 - 1 / 16777216) \<le> A * (1 + 1 / 16777216) ^ 3" using assms(2,3) by linarith
  have "B * (1 - 1 / 2097152) * (1 + 1 / 16777216) ^ 3 \<le> B * (1 - 1 / 16777216)"
    using assms(6) by (simp add: power3_eq_cube)
  with le have "B * (1 - 1 / 2097152) * (1 + 1 / 16777216) ^ 3 \<le> A * (1 + 1 / 16777216) ^ 3" by linarith
  then show "B * (1 - 1 / 2097152) \<le> A" by (rule mult_right_le_imp_le) simp
qed
lemma static_below_share:
  fixes M :: memtier and s0 :: size_t
  assumes b: "ratios_positive b" and i: "Suc i < length (bd_cfg b)"
  defines "n \<equiv> real (unat (tier_size M (bd_cfg b ! Suc i)))" and "q \<equiv> real (unat s0)"
  shows "below_share M s0 (tl (static_cfg (bd_cfg b)) ! i) \<Longrightarrow>
      n * ratio_at b 0 < q * ratio_at b (Suc i) * (1 + 1 / 2097152)"
    and "\<not> below_share M s0 (tl (static_cfg (bd_cfg b)) ! i) \<Longrightarrow>
      q * ratio_at b (Suc i) * (1 - 1 / 2097152) \<le> n * ratio_at b 0"
proof -
  obtain c cs where cf: "bd_cfg b = c # cs" using i by (cases "bd_cfg b") auto
  have "\<exists>x. kind_ratio c = Fin x \<and> 1 \<le> x \<and> x \<le> 2 ^ 33" "\<exists>x. kind_ratio (cs ! i) = Fin x \<and> 1 \<le> x \<and> x \<le> 2 ^ 33"
    using b i nth_mem [of i cs] by (auto simp: ratios_positive_def cf)
  then obtain x y where xy: "kind_ratio c = Fin x" "1 \<le> x" "x \<le> 2 ^ 33" "kind_ratio (cs ! i) = Fin y" "1 \<le> y" "y \<le> 2 ^ 33" by blast
  define w where "w = tier_size M (cs ! i)"
  have n: "n = real (unat w)" by (simp add: n_def cf w_def)
  have ts: "tier_size M ((cs ! i)\<lparr>kind_ratio := z\<rparr>) = w" for z by (simp add: tier_size_def w_def)
  have ow: "of_word w = Fin (rnd (real (unat w)))" "of_word s0 = Fin (rnd (real (unat s0)))"
    by (simp_all add: of_word_finite)
  have "unat w < 2 ^ 64" using unsigned_less [of w] by simp
  from share_product [OF xy(2,3,5,6) this] obtain p where
    p: "fmul (of_word w) (fdiv (Fin x) (Fin y)) = Fin p" "n * (x / y) * (1 - 1 / 16777216) ^ 3 \<le> p"
      "p \<le> n * (x / y) * (1 + 1 / 16777216) ^ 3" unfolding ow n by blast
  have sh: "below_share M s0 (tl (static_cfg (bd_cfg b)) ! i) \<longleftrightarrow> p < rnd q"
    using i xy(1,4) p(1) by (simp add: static_cfg_def cf below_share_def ts ow(2) q_def)
  have "0 \<le> n" "0 \<le> q" unfolding n q_def by (rule of_nat_0_le_iff)+
  then have "0 \<le> n * (x / y)" "0 \<le> q" using xy by simp_all
  note cmp = share_compare [OF p(2,3) rnd_of_nat [of "unat s0", folded q_def] this]
  have ra: "ratio_at b 0 = x" "ratio_at b (Suc i) = y" using xy by (simp_all add: ratio_at_def cf)
  have y: "0 < y" using xy(5) by simp
  show "n * ratio_at b 0 < q * ratio_at b (Suc i) * (1 + 1 / 2097152)" if "below_share M s0 (tl (static_cfg (bd_cfg b)) ! i)"
  proof -
    have "n * (x / y) * y < q * (1 + 1 / 2097152) * y" using cmp(1) that y unfolding sh by (intro mult_strict_right_mono)
    then show ?thesis using y unfolding ra by (simp add: ac_simps)
  qed
  show "q * ratio_at b (Suc i) * (1 - 1 / 2097152) \<le> n * ratio_at b 0" if "\<not> below_share M s0 (tl (static_cfg (bd_cfg b)) ! i)"
  proof -
    have "q * (1 - 1 / 2097152) * y \<le> n * (x / y) * y" using cmp(2) that y unfolding sh by (intro mult_right_mono) simp_all
    then show ?thesis using y unfolding ra by (simp add: ac_simps)
  qed
qed

text \<open>
  C31: the static ratio policy.  With ratios given as positive integers, an allocation goes to
  some tier such that every later tier has at least its share of memory relative to the first
  tier, and that has itself less than its share unless it is the first tier.  The sizes are
  compared as floats, so both hold up to a relative error of 2^-21: a tier within that
  distance of its share can be taken for either.
\<close>

theorem static_ratio_correct:
  assumes "builder_static_create_memory ok m0 k0 b = Some m" "ratios_positive b" "2 \<le> length (bd_cfg b)"
  shows "\<exists>r<length (bd_cfg b). call_get_kind e M m n = Some (tier_kind (bd_cfg b ! r), 0, M) \<and>
    (\<forall>i. r < i \<longrightarrow> i < length (bd_cfg b) \<longrightarrow>
      real (unat (tier_size M (bd_cfg b ! i))) * ratio_at b 0 \<ge>
        real (unat (tier_size M (bd_cfg b ! 0))) * ratio_at b i * (1 - 1 / 2097152)) \<and>
    (0 < r \<longrightarrow>
      real (unat (tier_size M (bd_cfg b ! r))) * ratio_at b 0 <
        real (unat (tier_size M (bd_cfg b ! 0))) * ratio_at b r * (1 + 1 / 2097152))"
proof -
  obtain c cs where cf: "bd_cfg b = c # cs" using assms(3) by (cases "bd_cfg b") auto
  define ds where "ds = tl (static_cfg (bd_cfg b))"
  have m: "mem_cfg m = static_cfg (bd_cfg b)" "get_kind m = STATIC_RATIO_GET_KIND"
    using assms(1,3) by (auto simp: builder_static_create_memory_def memtier_memory_init_def Let_def split: if_splits)
  have ld: "length ds = length cs" by (simp add: ds_def static_cfg_def cf)
  have hd: "static_cfg (bd_cfg b) = c\<lparr>kind_ratio := Fin 1\<rparr> # ds" by (simp add: ds_def static_cfg_def cf)
  define s0 where "s0 = tier_size M c"
  define r where "r = static_ratio_loop M s0 1 ds 0"
  have get: "call_get_kind e M m n = Some (tier_kind (static_cfg (bd_cfg b) ! r), 0, M)"
    using m hd by (simp add: call_get_kind_def memtier_policy_static_ratio_get_kind_def r_def s0_def tier_size_def)
  have s00: "tier_size M (bd_cfg b ! 0) = s0" by (simp add: cf s0_def)
  consider "r = 0" "\<forall>d\<in>set ds. \<not> below_share M s0 d"
    | j where "j < length ds" "r = 1 + j" "below_share M s0 (ds ! j)"
        "\<forall>l. j < l \<longrightarrow> l < length ds \<longrightarrow> \<not> below_share M s0 (ds ! l)"
    using static_loop [of M s0 1 ds 0] unfolding r_def [symmetric] Let_def by blast
  then have r: "r < length (bd_cfg b)"
    "\<And>i. r < i \<Longrightarrow> i < length (bd_cfg b) \<Longrightarrow> \<not> below_share M s0 (ds ! (i - 1))"
    "0 < r \<Longrightarrow> below_share M s0 (ds ! (r - 1))"
    by (cases; auto simp: cf ld [symmetric])+
  have k: "tier_kind (static_cfg (bd_cfg b) ! r) = tier_kind (bd_cfg b ! r)"
    using r(1) static_cfg_kinds [of "bd_cfg b"] hd ld cf by (metis length_Cons nth_map)
  note sh = static_below_share [OF assms(2), of "i - 1" M s0 for i, folded ds_def]
  show ?thesis
  proof (intro exI [of _ r] conjI allI impI)
    show "call_get_kind e M m n = Some (tier_kind (bd_cfg b ! r), 0, M)" using get k by simp
    show "real (unat (tier_size M (bd_cfg b ! 0))) * ratio_at b i * (1 - 1 / 2097152)
        \<le> real (unat (tier_size M (bd_cfg b ! i))) * ratio_at b 0" if "r < i" "i < length (bd_cfg b)" for i
      using sh(2) [of i] r(2) [OF that] that unfolding s00 by simp
    show "real (unat (tier_size M (bd_cfg b ! r))) * ratio_at b 0
        < real (unat (tier_size M (bd_cfg b ! 0))) * ratio_at b r * (1 + 1 / 2097152)" if "0 < r"
      using sh(1) [of r] r(1) r(3) [OF that] that unfolding s00 by simp
  qed (rule r(1))
qed

text \<open>
  Sizes that the comparison cannot tell apart: with equal ratios and these sizes in the first
  and the second tier, the second has less than its share and is passed over.
\<close>

lemma sizes_equal_as_floats: "of_word (268435472 :: size_t) = of_word (268435456 :: size_t)"
proof -
  have "ulp 268435472 = 32" "ulp 268435456 = 32"
    using ulp_eq [of 154 268435472] ulp_eq [of 154 268435456] by simp_all
  then have "rnd 268435472 = 268435456" "rnd 268435456 = 268435456" by (simp_all add: rnd_def rne_def)
  then show ?thesis by (simp add: of_word_finite)
qed

definition demo_builder :: memtier_builder where
  "demo_builder = \<lparr>bd_cfg = [\<lparr>tier_kind = demo_kind0, kind_ratio = Fin 1\<rparr>, \<lparr>tier_kind = demo_kind1, kind_ratio = Fin 4\<rparr>],
     bd_thres = [], check_cnt = 0, trigger = Fin 0, degree = Fin 0, bd_policy = MEMTIER_POLICY_STATIC_RATIO\<rparr>"

definition demo_env :: menv where
  "demo_env = \<lparr>me_tid = 1, me_hash = 7, me_getattr = 0, me_clock = 0, me_result = Some (4096, 128)\<rparr>"

text \<open>With 10 bytes in the first tier and 30 in the second, the second still lacks 10.\<close>

theorem static_ratio_correct_witness:
  "\<exists>m. builder_static_create_memory (\<lambda>_. True) demo_mem0 demo_kind0 demo_builder = Some m \<and>
    call_get_kind demo_env (demo_memtier\<lparr>g_alloc_size := (\<lambda>_. 0)(0 := 10, 18 := 30)\<rparr>) m 100 =
      Some (demo_kind1, 0, demo_memtier\<lparr>g_alloc_size := (\<lambda>_. 0)(0 := 10, 18 := 30)\<rparr>)"
proof -
  let ?M = "demo_memtier\<lparr>g_alloc_size := (\<lambda>_. 0)(0 := 10, 18 := 30)\<rparr>"
  obtain m where m: "builder_static_create_memory (\<lambda>_. True) demo_mem0 demo_kind0 demo_builder = Some m"
    by (simp add: builder_static_create_memory_def memtier_memory_init_def Let_def demo_builder_def)
  have len: "length (bd_cfg demo_builder) = 2" by (simp add: demo_builder_def)
  have "ratios_positive demo_builder" "2 \<le> length (bd_cfg demo_builder)"
    by (auto simp: ratios_positive_def demo_builder_def)
  from static_ratio_correct [OF m this, of demo_env ?M 100] obtain r where r: "r < 2"
      "call_get_kind demo_env ?M m 100 = Some (tier_kind (bd_cfg demo_builder ! r), 0, ?M)"
      "\<forall>i. r < i \<longrightarrow> i < 2 \<longrightarrow> real (unat (tier_size ?M (bd_cfg demo_builder ! i))) * ratio_at demo_builder 0 \<ge>
        real (unat (tier_size ?M (bd_cfg demo_builder ! 0))) * ratio_at demo_builder i * (1 - 1 / 2097152)"
    unfolding len by blast
  have "r \<noteq> 0" using spec [OF r(3), of 1]
    by (auto simp: demo_builder_def tier_size_def ratio_at_def demo_kind0_def demo_kind1_def)
  then have "r = 1" using r(1) by simp
  then show ?thesis using m r(2) by (auto simp: demo_builder_def)
qed

end
