(* ===== verification/Memtier_Correct.thy ===== *)
theory Memtier_Correct
  imports Memtier_Sizes Memtier_Policy
begin

text \<open>
  Correctness of the operations of \<open>src/memkind_memtier.c\<close>: allocation, reallocation and
  release keep the tables of sizes equal to the live blocks of the heap, never abort, and
  send the events from which the background thread rebuilds the blocks.
\<close>

section \<open>Sizes of the live blocks\<close>

definition live :: "heap \<Rightarrow> nat \<Rightarrow> nat" where
  "live h k = nsum (\<lambda>ku. if partition (fst ku) = k then unat (snd ku) else 0) h"

definition sizes_ok :: "memtier \<Rightarrow> bool" where
  "sizes_ok M \<longleftrightarrow> finite (dom (mt_heap M)) \<and> (\<forall>a k u. mt_heap M a = Some (k, u) \<longrightarrow> partition k < MEMKIND_MAX_KIND) \<and>
     tables M (live (mt_heap M))"

lemma live_insert:
  assumes "finite (dom h)" "h a = None"
  shows "live (h(a \<mapsto> (k, u))) = (live h)(partition k := live h (partition k) + unat u)"
  by (rule ext) (simp add: live_def nsum_insert [OF assms])

lemma live_remove:
  assumes "finite (dom h)" "h a = Some (k, u)"
  shows "live (h(a := None)) = (live h)(partition k := live h (partition k) - unat u)"
    and "unat u \<le> live h (partition k)"
proof -
  have "live h j = live (h(a := None)) j + (if partition k = j then unat u else 0)" for j
    unfolding live_def by (subst nsum_remove [OF assms]) simp
  then show "live (h(a := None)) = (live h)(partition k := live h (partition k) - unat u)"
    "unat u \<le> live h (partition k)" by (auto simp: fun_eq_iff)
qed

lemma tables_frame:
  "tables (M\<lparr>mt_heap := h\<rparr>) L = tables M L" "tables (M\<lparr>mt_tk := T\<rparr>) L = tables M L"
  "tables (M\<lparr>g_memtier_free_called := x\<rparr>) L = tables M L"
  "tables (M\<lparr>g_memtier_hotness_free_called := x\<rparr>) L = tables M L"
  "tables (M\<lparr>statistics_counter := x\<rparr>) L = tables M L"
  "tables (M\<lparr>g_successful_adds := y\<rparr>) L = tables M L" "tables (M\<lparr>g_failed_adds := y\<rparr>) L = tables M L"
  "tables (M\<lparr>hotness_log_counter := x\<rparr>) L = tables M L" "tables (M\<lparr>hotness_counter := z\<rparr>) L = tables M L"
  "tables (M\<lparr>hotness_alloc_counter := z\<rparr>) L = tables M L"
  by (simp_all add: tables_def)

lemmas sizes_frame = sizes_ok_def tables_frame

section \<open>The table behind the events\<close>

definition hot_ok :: "memtier \<Rightarrow> EventEntry list \<Rightarrow> tk_spec \<Rightarrow> bool" where
  "hot_ok M evs s \<longleftrightarrow> tk_initialized (mt_tk M) \<and> lq_rep (ranking_event_buff (mt_tk M)) evs \<and> tk_rep (mt_tk M) s \<and>
     (\<exists>v. threshVal (hotThreshold (tk_ranking (mt_tk M))) = Some v)"

definition capacity :: "memtier \<Rightarrow> nat" where
  "capacity M = unat (lq_size (ranking_event_buff (mt_tk M)))"

lemma ratios_rep [simp]:
  "tk_rep (T\<lparr>g_dramToTotalDesiredRatio := x, g_dramToTotalActualRatio := y\<rparr>) s \<longleftrightarrow> tk_rep T s"
  by (simp add: tk_rep_def types_ok_def blocks_ok_def abs_types_def [abs_def] abs_blocks_def [abs_def])

lemma hot_frame:
  assumes "mt_frame M M'"
  shows "hot_ok M' evs s \<longleftrightarrow> hot_ok M evs s" "capacity M' = capacity M"
  using assms by (auto simp: mt_frame_def tk_ratios_def hot_ok_def capacity_def)

text \<open>What the queue holds after a push.\<close>

definition pushed :: "nat \<Rightarrow> EventEntry \<Rightarrow> EventEntry list \<Rightarrow> EventEntry list" where
  "pushed c ev evs = (if length evs < c then evs @ [ev] else evs)"

definition tk_env :: "tachanka \<Rightarrow> tachanka \<Rightarrow> bool" where
  "tk_env T T' \<longleftrightarrow> (\<exists>x y q. T' = T\<lparr>g_dramToTotalDesiredRatio := x, g_dramToTotalActualRatio := y, ranking_event_buff := q\<rparr>)"

lemma tk_env_refl [simp]: "tk_env T T"
  unfolding tk_env_def by (rule exI [of _ "g_dramToTotalDesiredRatio T"], rule exI [of _ "g_dramToTotalActualRatio T"],
      rule exI [of _ "ranking_event_buff T"]) simp

lemma tk_env_trans: "tk_env T T' \<Longrightarrow> tk_env T' T'' \<Longrightarrow> tk_env T T''"
  unfolding tk_env_def by clarsimp (intro exI, rule refl)

lemma tk_ratios_env: "tk_ratios T T' \<Longrightarrow> tk_env T T'"
  unfolding tk_ratios_def tk_env_def by (clarsimp, rule exI, rule exI, rule exI [of _ "ranking_event_buff T"]) simp

lemma tk_env_ranking: "tk_env T T' \<Longrightarrow> tk_ranking T' = tk_ranking T"
  by (auto simp: tk_env_def)

lemma push_event_run:
  assumes "hot_ok M evs s" "tables M L"
  shows "\<exists>M'. push_event site ev M = Some M' \<and> tk_env (mt_tk M) (mt_tk M') \<and> hot_ok M' (pushed (capacity M) ev evs) s \<and> capacity M' = capacity M \<and>
    tables M' L \<and> mt_heap M' = mt_heap M \<and> pol M' = pol M \<and> MEMKIND_DEFAULT M' = MEMKIND_DEFAULT M"
proof -
  let ?q = "ranking_event_buff (mt_tk M)"
  have q: "lq_rep ?q evs" "tk_initialized (mt_tk M)" using assms(1) by (simp_all add: hot_ok_def)
  have "\<exists>r q'. ranking_event_push ?q ev = Some (r, q') \<and> lq_rep q' (pushed (capacity M) ev evs) \<and>
      unat (lq_size q') = unat (lq_size ?q)"
  proof (cases "length evs < capacity M")
    case True
    with events.push_room [OF q(1), of ev] show ?thesis by (auto simp: capacity_def pushed_def)
  next
    case False
    with events.push_full [OF q(1), of ev] q(1) show ?thesis by (auto simp: capacity_def pushed_def)
  qed
  then obtain r q' where "ranking_event_push ?q ev = Some (r, q')" "lq_rep q' (pushed (capacity M) ev evs)"
    "unat (lq_size q') = unat (lq_size ?q)" by blast
  moreover have "tk_env (mt_tk M) ((mt_tk M)\<lparr>ranking_event_buff := q'\<rparr>)" unfolding tk_env_def
    by (rule exI [of _ "g_dramToTotalDesiredRatio (mt_tk M)"], rule exI [of _ "g_dramToTotalActualRatio (mt_tk M)"], rule exI) simp
  ultimately show ?thesis using assms q(2)
    by (simp add: push_event_def tachanka_ranking_event_push_def Let_def hot_ok_def capacity_def tables_frame)
qed

definition notified :: "memtier \<Rightarrow> EventEntry \<Rightarrow> EventEntry list \<Rightarrow> EventEntry list" where
  "notified M ev evs = (if pol M = MEMTIER_POLICY_DATA_HOTNESS then pushed (capacity M) ev evs else evs)"

lemma notify_run:
  assumes h: "pol M = MEMTIER_POLICY_DATA_HOTNESS \<Longrightarrow> hot_ok M evs s" and t: "tables M L"
  shows "\<exists>M'. notify site ev M = Some M' \<and> tk_env (mt_tk M) (mt_tk M') \<and> (hot_ok M evs s \<longrightarrow> hot_ok M' (notified M ev evs) s) \<and>
    capacity M' = capacity M \<and> tables M' L \<and> mt_heap M' = mt_heap M \<and> pol M' = pol M \<and>
    MEMKIND_DEFAULT M' = MEMKIND_DEFAULT M"
proof (cases "pol M = MEMTIER_POLICY_DATA_HOTNESS")
  case True
  from push_event_run [OF h [OF True] t, of site ev] True show ?thesis by (auto simp: notify_def notified_def)
qed (use t in \<open>simp add: notify_def notified_def\<close>)

section \<open>Allocation\<close>

text \<open>The allocator picks a fresh block that fits, or fails.\<close>

definition result_fits :: "menv \<Rightarrow> heap \<Rightarrow> bool" where
  "result_fits e h \<longleftrightarrow> (case me_result e of None \<Rightarrow> True
     | Some (a, u) \<Rightarrow> h a = None \<and> a \<noteq> 0 \<and> sum_kinds (live h) + unat u < 2 ^ 63)"

definition alloc_heap :: "menv \<Rightarrow> memkind \<Rightarrow> heap \<Rightarrow> heap" where
  "alloc_heap e k h = (case me_result e of None \<Rightarrow> h | Some (a, u) \<Rightarrow> h(a \<mapsto> (k, u)))"

lemma kind_malloc_run:
  assumes M: "sizes_ok M" and k: "partition k < MEMKIND_MAX_KIND" and e: "result_fits e (mt_heap M)"
  shows "\<exists>M'. memtier_kind_malloc e k M = Some (map_option fst (me_result e), M') \<and> sizes_ok M' \<and>
    mt_frame (M\<lparr>mt_heap := alloc_heap e k (mt_heap M)\<rparr>) M'"
proof (cases "me_result e")
  case None
  have tb: "tables M (live (mt_heap M))" using M by (simp add: sizes_ok_def)
  then have "sum_kinds (live (mt_heap M)) + unat (0 :: size_t) < 2 ^ 63" by (simp add: tables_def)
  from increment_run [OF tb k this, of e] obtain M' where M': "increment_alloc_size e (partition k) 0 M = Some M'"
    "tables M' (live (mt_heap M))" "mt_frame M M'" by auto
  then show ?thesis using None M
    by (auto simp: memtier_kind_malloc_def memkind_malloc_def jemk_malloc_usable_size_def alloc_heap_def
        sizes_ok_def mt_frame_def)
next
  case (Some au)
  obtain a u where au: "au = (a, u)" by (cases au)
  let ?h = "(mt_heap M)(a \<mapsto> (k, u))" and ?M = "M\<lparr>mt_heap := (mt_heap M)(a \<mapsto> (k, u))\<rparr>"
  have f: "mt_heap M a = None" "sum_kinds (live (mt_heap M)) + unat u < 2 ^ 63" "finite (dom (mt_heap M))"
    using e M Some au by (simp_all add: result_fits_def sizes_ok_def)
  have tb: "tables ?M (live (mt_heap M))" using M by (simp add: sizes_frame)
  from increment_run [OF tb k f(2), of e] obtain M' where M': "increment_alloc_size e (partition k) u ?M = Some M'"
    "tables M' ((live (mt_heap M))(partition k := live (mt_heap M) (partition k) + unat u))" "mt_frame ?M M'" by auto
  have "sizes_ok M'" using M M' k f(3) live_insert [OF f(3,1), of k u]
    by (auto simp: sizes_ok_def mt_frame_def)
  then show ?thesis using M' Some au
    by (auto simp: memtier_kind_malloc_def memkind_malloc_def jemk_malloc_usable_size_def alloc_heap_def)
qed

lemma kind_calloc_malloc: "memtier_kind_calloc = memtier_kind_malloc"
  by (simp add: fun_eq_iff memtier_kind_calloc_def memtier_kind_malloc_def)

text \<open>The tier: the call returns a tier of the memory and changes counters only.\<close>

definition env_ok :: "menv \<Rightarrow> bool" where
  "env_ok e \<longleftrightarrow> me_getattr e = 0 \<and> me_clock e = 0"

definition uses_hotness :: "memtier_memory \<Rightarrow> memtier \<Rightarrow> bool" where
  "uses_hotness m M \<longleftrightarrow> pol M = MEMTIER_POLICY_DATA_HOTNESS \<or> get_kind m = DATA_HOTNESS_GET_KIND \<or>
     post_alloc m = DATA_HOTNESS_POST_ALLOC"

text \<open>Everything but the counters of the log.\<close>

definition log_frame :: "memtier \<Rightarrow> memtier \<Rightarrow> bool" where
  "log_frame M M' \<longleftrightarrow> (\<exists>x y z c. M' = M\<lparr>hotness_log_counter := x, hotness_counter := y, hotness_alloc_counter := z,
     statistics_counter := c\<rparr>)"

lemma log_frame_refl [simp]: "log_frame M M"
  unfolding log_frame_def by (rule exI [of _ "hotness_log_counter M"], rule exI [of _ "hotness_counter M"],
      rule exI [of _ "hotness_alloc_counter M"], rule exI [of _ "statistics_counter M"]) simp

lemma log_frame_sel:
  assumes "log_frame M M'"
  shows "mt_heap M' = mt_heap M" "mt_tk M' = mt_tk M" "pol M' = pol M" "MEMKIND_DEFAULT M' = MEMKIND_DEFAULT M"
    "g_alloc_size M' = g_alloc_size M" "sizes_ok M' = sizes_ok M" "hot_ok M' evs s = hot_ok M evs s" "capacity M' = capacity M"
proof -
  from assms obtain x y z c where M': "M' = M\<lparr>hotness_log_counter := x, hotness_counter := y,
      hotness_alloc_counter := z, statistics_counter := c\<rparr>" by (auto simp: log_frame_def)
  show "mt_heap M' = mt_heap M" "mt_tk M' = mt_tk M" "pol M' = pol M" "MEMKIND_DEFAULT M' = MEMKIND_DEFAULT M"
    "g_alloc_size M' = g_alloc_size M" "sizes_ok M' = sizes_ok M" "hot_ok M' evs s = hot_ok M evs s" "capacity M' = capacity M"
    unfolding M' by (simp_all add: sizes_frame hot_ok_def capacity_def)
qed

text \<open>The tier picked by the hotness policy, on the specification of the table.\<close>

definition hotness_tier :: "memtier \<Rightarrow> memtier_memory \<Rightarrow> tk_spec \<Rightarrow> 64 word \<Rightarrow> memkind option" where
  "hotness_tier M m s hash = (case (case sp_types s hash of
        None \<Rightarrow> HOTNESS_NOT_FOUND
      | Some en \<Rightarrow> hotness_class (hotThreshold (tk_ranking (mt_tk M))) (tt_f en)) of
     HOTNESS_COLD \<Rightarrow> tier_at m (cold_tier_id m)
   | HOTNESS_NOT_FOUND \<Rightarrow> memtier_policy_static_ratio_get_kind M m
   | HOTNESS_HOT \<Rightarrow> tier_at m (hot_tier_id m))"

lemma static_get_kind_frame:
  "g_alloc_size M' = g_alloc_size M \<Longrightarrow>
    memtier_policy_static_ratio_get_kind M' m = memtier_policy_static_ratio_get_kind M m"
proof -
  assume g: "g_alloc_size M' = g_alloc_size M"
  have "static_ratio_loop M' s0 i cs d = static_ratio_loop M s0 i cs d" for s0 i cs d
    by (induction cs arbitrary: i d) (simp_all add: tier_size_def g)
  then show ?thesis by (simp add: memtier_policy_static_ratio_get_kind_def tier_size_def g split: list.split)
qed

lemma calculate_run:
  assumes "tachanka_get_hotness_type_hash (mt_tk M) hash = Some ho" "env_ok e"
  shows "\<exists>M'. memtier_policy_data_hotness_calculate_hotness_type e M hash n = Some (ho, M') \<and> log_frame M M'"
proof -
  define c where "c = (if hotness_log_counter M + 1 > PRINT_POLICY_LOG_STATISTICS_INTERVAL then 0 else hotness_log_counter M + 1)"
  have "memtier_policy_data_hotness_calculate_hotness_type e M hash n = Some (ho, M\<lparr>hotness_log_counter := c,
      hotness_counter := (hotness_counter M)(ho := hotness_counter M ho + 1),
      hotness_alloc_counter := (hotness_alloc_counter M)(ho := hotness_alloc_counter M ho + n),
      statistics_counter := statistics_counter M\<rparr>)"
    using assms by (simp add: memtier_policy_data_hotness_calculate_hotness_type_def Let_def env_ok_def c_def)
  then show ?thesis unfolding log_frame_def by blast
qed

lemma hotness_get_kind_run:
  assumes m: "mem_ok m" "get_kind m = DATA_HOTNESS_GET_KIND" and h: "hot_ok M evs s" and e: "env_ok e"
  shows "\<exists>M' k. call_get_kind e M m n = Some (k, me_hash e, M') \<and> hotness_tier M m s (me_hash e) = Some k \<and>
    log_frame M M' \<and> (\<exists>c\<in>set (mem_cfg m). k = tier_kind c)"
proof -
  obtain v where v: "threshVal (hotThreshold (tk_ranking (mt_tk M))) = Some v" and rep: "tk_rep (mt_tk M) s"
    using h by (auto simp: hot_ok_def)
  define ho where "ho = (case sp_types s (me_hash e) of None \<Rightarrow> HOTNESS_NOT_FOUND
      | Some en \<Rightarrow> hotness_class (hotThreshold (tk_ranking (mt_tk M))) (tt_f en))"
  have "tachanka_get_hotness_type_hash (mt_tk M) (me_hash e) = Some ho"
    using hotness_hash_run [OF rep v] by (simp add: ho_def)
  then obtain M' where M': "memtier_policy_data_hotness_calculate_hotness_type e M (me_hash e) n = Some (ho, M')"
    "log_frame M M'" using calculate_run [OF _ e] by blast
  have st: "memtier_policy_static_ratio_get_kind M' m = memtier_policy_static_ratio_get_kind M m"
    by (rule static_get_kind_frame) (rule log_frame_sel [OF M'(2)])
  have ids: "hot_tier_id m \<in> tier_ids m" "cold_tier_id m \<in> tier_ids m" using m by (simp_all add: mem_ok_def)
  have "\<exists>c\<in>set (mem_cfg m). hotness_tier M m s (me_hash e) = Some (tier_kind c)"
    unfolding hotness_tier_def ho_def [symmetric]
    using tier_at_run [OF ids(1)] tier_at_run [OF ids(2)] static_get_kind_run [OF m(1), of M] by (cases ho) auto
  then obtain c where c: "c \<in> set (mem_cfg m)" "hotness_tier M m s (me_hash e) = Some (tier_kind c)" by blast
  have "call_get_kind e M m n = Some (tier_kind c, me_hash e, M')"
    using M'(1) e m(2) c(2) st
    by (cases ho) (auto simp: call_get_kind_def memtier_policy_data_hotness_get_kind_def env_ok_def hotness_tier_def ho_def [symmetric])
  then show ?thesis using c M'(2) by blast
qed

lemma get_kind_run:
  assumes m: "mem_ok m" and h: "uses_hotness m M \<Longrightarrow> hot_ok M evs s" and e: "env_ok e"
  shows "\<exists>M' k hash. call_get_kind e M m n = Some (k, hash, M') \<and> log_frame M M' \<and> partition k < MEMKIND_MAX_KIND"
proof -
  have p: "partition (tier_kind c) < MEMKIND_MAX_KIND" if "c \<in> set (mem_cfg m)" for c using m that by (simp add: mem_ok_def)
  show ?thesis
  proof (cases "get_kind m")
    case SINGLE_GET_KIND
    then show ?thesis using m p by (cases "mem_cfg m") (auto simp: call_get_kind_def memtier_single_get_kind_def mem_ok_def)
  next
    case STATIC_RATIO_GET_KIND
    then show ?thesis using static_get_kind_run [OF m, of M] p by (auto simp: call_get_kind_def)
  next
    case DYNAMIC_THRESHOLD_GET_KIND
    then show ?thesis using dynamic_get_kind_run [OF m, of n] p by (auto simp: call_get_kind_def)
  next
    case DATA_HOTNESS_GET_KIND
    then have "hot_ok M evs s" using h by (simp add: uses_hotness_def)
    from hotness_get_kind_run [OF m DATA_HOTNESS_GET_KIND this e, of n] p show ?thesis by blast
  qed
qed

text \<open>The common end of the allocating calls.\<close>

definition same_ops :: "memtier_memory \<Rightarrow> memtier_memory \<Rightarrow> bool" where
  "same_ops m m' \<longleftrightarrow> get_kind m' = get_kind m \<and> post_alloc m' = post_alloc m"

definition alloc_events :: "memtier \<Rightarrow> memtier_memory \<Rightarrow> EventEntry \<Rightarrow> EventEntry list \<Rightarrow> EventEntry list" where
  "alloc_events M m ev evs = (if post_alloc m = DATA_HOTNESS_POST_ALLOC then pushed (capacity M) ev evs else evs)"

lemma finish_run:
  assumes M: "sizes_ok M" and m: "mem_ok m" and h: "post_alloc m = DATA_HOTNESS_POST_ALLOC \<Longrightarrow> hot_ok M evs s"
  shows "\<exists>M' m'. call_post_alloc m hash p n b M = Some M' \<and> call_update_cfg M' m = Some m' \<and> sizes_ok M' \<and>
    mem_ok m' \<and> same_ops m m' \<and> mt_heap M' = mt_heap M \<and> pol M' = pol M \<and> capacity M' = capacity M \<and>
    MEMKIND_DEFAULT M' = MEMKIND_DEFAULT M \<and>
    (hot_ok M evs s \<longrightarrow> hot_ok M' (alloc_events M m (EVENT_CREATE_ADD hash (addr_of p) n b) evs) s)"
proof -
  have "\<exists>M'. call_post_alloc m hash p n b M = Some M' \<and> sizes_ok M' \<and> mt_heap M' = mt_heap M \<and> pol M' = pol M \<and>
      capacity M' = capacity M \<and> MEMKIND_DEFAULT M' = MEMKIND_DEFAULT M \<and>
      (hot_ok M evs s \<longrightarrow> hot_ok M' (alloc_events M m (EVENT_CREATE_ADD hash (addr_of p) n b) evs) s)"
  proof (cases "post_alloc m")
    case EMPTY_POST_ALLOC
    then show ?thesis using M by (simp add: call_post_alloc_def alloc_events_def)
  next
    case DATA_HOTNESS_POST_ALLOC
    from push_event_run [OF h [OF this], of "live (mt_heap M)" ADD_MALLOC "EVENT_CREATE_ADD hash (addr_of p) n b"]
      DATA_HOTNESS_POST_ALLOC M
    show ?thesis
      by (auto simp: call_post_alloc_def memtier_policy_data_hotness_post_alloc_def alloc_events_def sizes_ok_def)
  qed
  then obtain M' where M': "call_post_alloc m hash p n b M = Some M'" "sizes_ok M'" "mt_heap M' = mt_heap M"
      "pol M' = pol M" "capacity M' = capacity M" "MEMKIND_DEFAULT M' = MEMKIND_DEFAULT M"
      "hot_ok M evs s \<longrightarrow> hot_ok M' (alloc_events M m (EVENT_CREATE_ADD hash (addr_of p) n b) evs) s" by blast
  from update_config_run [OF m, of M'] M' show ?thesis by (auto simp: same_ops_def)
qed

lemma malloc_run:
  assumes M: "sizes_ok M" and m: "mem_ok m" and h: "uses_hotness m M \<Longrightarrow> hot_ok M evs s" and e: "env_ok e"
    and fit: "result_fits e (mt_heap M)"
  shows "\<exists>k hash M0 m' M'. call_get_kind e M m n = Some (k, hash, M0) \<and> partition k < MEMKIND_MAX_KIND \<and>
    memtier_malloc e m n M = Some (map_option fst (me_result e), m', M') \<and> sizes_ok M' \<and> mem_ok m' \<and> same_ops m m' \<and>
    pol M' = pol M \<and> mt_heap M' = alloc_heap e k (mt_heap M) \<and> capacity M' = capacity M \<and>
    (hot_ok M evs s \<longrightarrow> hot_ok M' (alloc_events M m
      (EVENT_CREATE_ADD hash (addr_of (map_option fst (me_result e))) n (is_default M k)) evs) s)"
proof -
  let ?p = "map_option fst (me_result e)"
  from get_kind_run [OF m h e, where n = n] obtain M0 k hash
    where g: "call_get_kind e M m n = Some (k, hash, M0)" "log_frame M M0" "partition k < MEMKIND_MAX_KIND" by blast
  note f0 = log_frame_sel [OF g(2)]
  from kind_malloc_run [of M0 k e] M fit g(3) f0 obtain M1
    where M1: "memtier_kind_malloc e k M0 = Some (?p, M1)" "sizes_ok M1"
      "mt_frame (M0\<lparr>mt_heap := alloc_heap e k (mt_heap M0)\<rparr>) M1" by auto
  have hp: "hot_ok (M0\<lparr>mt_heap := x\<rparr>) es s' = hot_ok M es s'" "capacity (M0\<lparr>mt_heap := x\<rparr>) = capacity M" for x es s'
    using f0 by (simp_all add: hot_ok_def capacity_def)
  note f1 = hot_frame [OF M1(3), unfolded hp]
  have d1: "mt_heap M1 = alloc_heap e k (mt_heap M)" "pol M1 = pol M" "is_default M1 k = is_default M k"
    using M1(3) f0 by (simp_all add: mt_frame_def is_default_def)
  have "hot_ok M1 evs s" if "post_alloc m = DATA_HOTNESS_POST_ALLOC" using h that f1 by (simp add: uses_hotness_def)
  from finish_run [OF M1(2) m this, of hash ?p n "is_default M k"] obtain M2 m2
    where M2: "call_post_alloc m hash ?p n (is_default M k) M1 = Some M2" "call_update_cfg M2 m = Some m2"
      "sizes_ok M2" "mem_ok m2" "same_ops m m2" "mt_heap M2 = mt_heap M1" "pol M2 = pol M1" "capacity M2 = capacity M1"
      "hot_ok M1 evs s \<longrightarrow> hot_ok M2 (alloc_events M1 m (EVENT_CREATE_ADD hash (addr_of ?p) n (is_default M k)) evs) s"
    by blast
  define M3 where "M3 = print_memory_statistics M2"
  have "log_frame M2 M3" unfolding log_frame_def M3_def print_memory_statistics_def
    by (rule exI [of _ "hotness_log_counter M2"], rule exI [of _ "hotness_counter M2"],
        rule exI [of _ "hotness_alloc_counter M2"]) auto
  note f3 = log_frame_sel [OF this]
  have run: "memtier_malloc e m n M = Some (?p, m2, M3)"
    using g(1) M1(1) M2(1,2) d1(3) by (simp add: memtier_malloc_def M3_def)
  have "hot_ok M evs s \<longrightarrow> hot_ok M3 (alloc_events M m (EVENT_CREATE_ADD hash (addr_of ?p) n (is_default M k)) evs) s"
    using M2(9) f1 f3 by (auto simp: alloc_events_def)
  then show ?thesis using g(1,3) run M2 f1 f3 d1 by auto
qed

lemma calloc_malloc: "memtier_calloc e m num n M = memtier_malloc e m n M"
  by (simp add: memtier_calloc_def memtier_malloc_def kind_calloc_malloc)

lemma kind_memalign_malloc:
  assumes "me_result e = None \<Longrightarrow> memptr = NULL"
  shows "memtier_kind_posix_memalign e k memptr M =
    map_option (\<lambda>(p, M'). (p \<noteq> NULL, p, M')) (memtier_kind_malloc e k M)"
  using assms
  by (cases "me_result e") (auto simp: memtier_kind_posix_memalign_def memtier_kind_malloc_def
      memkind_posix_memalign_def memkind_malloc_def Let_def map_option_case split: option.split bind_splits)

section \<open>Release and reallocation\<close>

text \<open>The size of a live block leaves the tables, the block the heap.\<close>

lemma release_run:
  assumes M: "sizes_ok M" and a: "mt_heap M a = Some (k, u)"
  shows "\<exists>M'. decrement_alloc_size e (partition k) u M = Some M' \<and> mt_frame M M' \<and>
    tables M' (live ((mt_heap M)(a := None))) \<and> sizes_ok (M'\<lparr>mt_heap := (mt_heap M)(a := None)\<rparr>) \<and>
    (u \<noteq> 0 \<longrightarrow> measured M' (live ((mt_heap M)(a := None))))"
proof -
  have fin: "finite (dom (mt_heap M))" and tb: "tables M (live (mt_heap M))" and k: "partition k < MEMKIND_MAX_KIND"
    using M a by (auto simp: sizes_ok_def)
  note lr = live_remove [OF fin a]
  from decrement_run [OF tb k lr(2), of e] obtain M' where "decrement_alloc_size e (partition k) u M = Some M'"
    "tables M' (live ((mt_heap M)(a := None)))" "mt_frame M M'"
    "u \<noteq> 0 \<longrightarrow> measured M' (live ((mt_heap M)(a := None)))" unfolding lr(1) by blast
  moreover have "sizes_ok (M'\<lparr>mt_heap := (mt_heap M)(a := None)\<rparr>)"
    using M calculation(2) by (auto simp: sizes_ok_def tables_frame)
  ultimately show ?thesis by blast
qed

lemma hot_heap [simp]: "hot_ok (M\<lparr>mt_heap := h\<rparr>) evs s = hot_ok M evs s"
  by (simp add: hot_ok_def)

lemma free_run:
  assumes M: "sizes_ok M" and h: "pol M = MEMTIER_POLICY_DATA_HOTNESS \<Longrightarrow> hot_ok M evs s"
    and p: "\<And>a. p = Some a \<Longrightarrow> mt_heap M a \<noteq> None"
  shows "\<exists>M'. memtier_free e p M = Some M' \<and> sizes_ok M' \<and> pol M' = pol M \<and> capacity M' = capacity M \<and>
    mt_heap M' = (case p of None \<Rightarrow> mt_heap M | Some a \<Rightarrow> (mt_heap M)(a := None)) \<and>
    (hot_ok M evs s \<longrightarrow> hot_ok M' (case p of None \<Rightarrow> evs | Some a \<Rightarrow> notified M (EVENT_DESTROY_REMOVE a 0) evs) s) \<and>
    tk_env (mt_tk M) (mt_tk M') \<and>
    (\<forall>a k u. p = Some a \<longrightarrow> mt_heap M a = Some (k, u) \<longrightarrow> u \<noteq> 0 \<longrightarrow> measured M' (live (mt_heap M')))"
proof (cases p)
  case None
  then show ?thesis using M by (simp add: memtier_free_def memtier_kind_free_def memkind_detect_kind_def)
next
  case (Some a)
  with p obtain k u where a: "mt_heap M a = Some (k, u)" by fastforce
  define M0 where "M0 = M\<lparr>g_memtier_free_called := g_memtier_free_called M + 1\<rparr>"
  have M0: "tables M0 (live (mt_heap M))" "mt_heap M0 = mt_heap M" "pol M0 = pol M" "capacity M0 = capacity M"
    "\<And>es s'. hot_ok M0 es s' = hot_ok M es s'"
    using M by (simp_all add: M0_def sizes_frame hot_ok_def capacity_def)
  let ?ev = "EVENT_DESTROY_REMOVE a 0"
  from notify_run [of M0 evs s, OF _ M0(1), of ADD_FREE ?ev] h M0 obtain M1 where
    M1: "notify ADD_FREE ?ev M0 = Some M1" "hot_ok M evs s \<longrightarrow> hot_ok M1 (notified M0 ?ev evs) s"
      "capacity M1 = capacity M" "tables M1 (live (mt_heap M))" "mt_heap M1 = mt_heap M" "pol M1 = pol M"
      "tk_env (mt_tk M0) (mt_tk M1)" by auto
  define M2 where "M2 = (if pol M1 = MEMTIER_POLICY_DATA_HOTNESS
    then M1\<lparr>g_memtier_hotness_free_called := g_memtier_hotness_free_called M1 + 1\<rparr> else M1)"
  have M2: "sizes_ok M2" "mt_heap M2 = mt_heap M" "pol M2 = pol M" "capacity M2 = capacity M"
    "\<And>es s'. hot_ok M2 es s' = hot_ok M1 es s'"
    using M M1 by (simp_all add: M2_def sizes_frame hot_ok_def capacity_def)
  from release_run [OF M2(1), of a k u e] a M2(2) obtain M3 where M3: "decrement_alloc_size e (partition k) u M2 = Some M3"
    "mt_frame M2 M3" "sizes_ok (M3\<lparr>mt_heap := (mt_heap M)(a := None)\<rparr>)"
    "u \<noteq> 0 \<longrightarrow> measured M3 (live ((mt_heap M)(a := None)))" by auto
  have "tk_env (mt_tk M2) (mt_tk M3)" using M3(2) by (simp add: mt_frame_def tk_ratios_env)
  moreover have "mt_tk M2 = mt_tk M1" "mt_tk M0 = mt_tk M" by (simp_all add: M2_def M0_def)
  ultimately have env: "tk_env (mt_tk M) (mt_tk M3)" using M1(7) tk_env_trans by metis
  have ms: "measured (M3\<lparr>mt_heap := x\<rparr>) L = measured M3 L" for x L by (simp add: measured_def)
  have "mt_heap M3 = mt_heap M" "pol M3 = pol M" using M3(2) M2 by (simp_all add: mt_frame_def)
  then have "memtier_free e p M = Some (M3\<lparr>mt_heap := (mt_heap M)(a := None)\<rparr>)"
    using a Some M1(1) M2(2) M3(1)
    by (simp add: memtier_free_def memtier_kind_free_def memkind_detect_kind_def M0_def [symmetric] addr_of_def
        M2_def [symmetric] Let_def jemk_malloc_usable_size_def memkind_free_def)
  moreover have "capacity (M3\<lparr>mt_heap := x\<rparr>) = capacity M" for x
    using hot_frame(2) [OF M3(2)] M2(4) by (simp add: capacity_def)
  moreover have "notified M0 ?ev evs = notified M ?ev evs" using M0 by (simp add: notified_def)
  ultimately show ?thesis using M3(3) M1(2) M2(5) hot_frame(1) [OF M3(2)] Some \<open>pol M3 = pol M\<close> env M3(4) a ms
    by simp
qed

lemma realloc_run:
  assumes M: "sizes_ok M" and h: "pol M = MEMTIER_POLICY_DATA_HOTNESS \<Longrightarrow> hot_ok M evs s"
    and a: "mt_heap M a = Some (k, u)" and n: "n \<noteq> 0" and res: "me_result e = Some (a', u')"
    and fit: "result_fits e ((mt_heap M)(a := None))"
  shows "\<exists>M'. memtier_kind_realloc e k (Some a) n M = Some (Some a', M') \<and> sizes_ok M' \<and> pol M' = pol M \<and>
    capacity M' = capacity M \<and> mt_heap M' = ((mt_heap M)(a := None))(a' \<mapsto> (k, u')) \<and>
    (hot_ok M evs s \<longrightarrow> hot_ok M' (notified M (EVENT_REALLOC a a' 0 n (is_default M k)) evs) s)"
proof -
  let ?h = "(mt_heap M)(a := None)" and ?ev = "EVENT_REALLOC a a' 0 n (is_default M k)"
  from release_run [OF M a, of e] obtain M1 where M1: "decrement_alloc_size e (partition k) u M = Some M1"
    "mt_frame M M1" "tables M1 (live ?h)" by blast
  have k: "partition k < MEMKIND_MAX_KIND" using M a by (auto simp: sizes_ok_def)
  define M2 where "M2 = M1\<lparr>mt_heap := ?h(a' \<mapsto> (k, u'))\<rparr>"
  have M2: "pol M2 = pol M" "is_default M2 k = is_default M k" "capacity M2 = capacity M"
      "\<And>es s'. hot_ok M2 es s' = hot_ok M es s'" "memkind_realloc e k a M1 = (Some a', M2)"
    using M1(2) hot_frame [OF M1(2)] res
    by (simp_all add: M2_def mt_frame_def capacity_def is_default_def memkind_realloc_def)
  have tb2: "tables M2 (live ?h)" using M1(3) by (simp add: M2_def tables_frame)
  from notify_run [of M2 evs s, OF _ tb2, of ADD_REALLOC1 ?ev] h M2 obtain M3 where
    M3: "notify ADD_REALLOC1 ?ev M2 = Some M3" "hot_ok M evs s \<longrightarrow> hot_ok M3 (notified M2 ?ev evs) s"
      "capacity M3 = capacity M" "tables M3 (live ?h)" "mt_heap M3 = ?h(a' \<mapsto> (k, u'))" "pol M3 = pol M"
    by (auto simp: M2_def)
  have f: "?h a' = None" "sum_kinds (live ?h) + unat u' < 2 ^ 63" "finite (dom ?h)"
    using fit res M by (simp_all add: result_fits_def sizes_ok_def)
  from increment_run [OF M3(4) k f(2), of e] obtain M4 where
    M4: "increment_alloc_size e (partition k) u' M3 = Some M4" "mt_frame M3 M4"
      "tables M4 (live (?h(a' \<mapsto> (k, u'))))" unfolding live_insert [OF f(3,1), of k u'] by blast
  have h4: "mt_heap M4 = ?h(a' \<mapsto> (k, u'))" "pol M4 = pol M" using M4(2) M3 by (simp_all add: mt_frame_def)
  have "sizes_ok M4" using M M4(3) h4 k f(3) by (auto simp: sizes_ok_def split: if_splits)
  moreover have "memtier_kind_realloc e k (Some a) n M = Some (Some a', M4)"
    using a n M1(1) M2(2,5) M3(1,5) M4(1)
    by (simp add: memtier_kind_realloc_def jemk_malloc_usable_size_def addr_of_def)
  moreover have "notified M2 ?ev evs = notified M ?ev evs" using M2 by (simp add: notified_def)
  ultimately show ?thesis using h4 M3(2,3) hot_frame [OF M4(2)] by auto
qed

lemma realloc_free_run:
  assumes M: "sizes_ok M" and h: "pol M = MEMTIER_POLICY_DATA_HOTNESS \<Longrightarrow> hot_ok M evs s"
    and a: "mt_heap M a = Some (k, u)"
  shows "\<exists>M'. memtier_kind_realloc e k (Some a) 0 M = Some (NULL, M') \<and> sizes_ok M' \<and> pol M' = pol M \<and>
    capacity M' = capacity M \<and> mt_heap M' = (mt_heap M)(a := None) \<and>
    (hot_ok M evs s \<longrightarrow> hot_ok M' (notified M (EVENT_DESTROY_REMOVE a u) evs) s)"
proof -
  let ?ev = "EVENT_DESTROY_REMOVE a u"
  have "tables M (live (mt_heap M))" using M by (simp add: sizes_ok_def)
  from notify_run [of M evs s, OF h this, of ADD_REALLOC0 ?ev] obtain M1 where
    M1: "notify ADD_REALLOC0 ?ev M = Some M1" "hot_ok M evs s \<longrightarrow> hot_ok M1 (notified M ?ev evs) s"
      "capacity M1 = capacity M" "tables M1 (live (mt_heap M))" "mt_heap M1 = mt_heap M" "pol M1 = pol M" by auto
  have "sizes_ok M1" using M M1 by (simp add: sizes_ok_def)
  from release_run [OF this, of a k u e] a M1(5) obtain M2 where M2: "decrement_alloc_size e (partition k) u M1 = Some M2"
    "mt_frame M1 M2" "sizes_ok (M2\<lparr>mt_heap := (mt_heap M)(a := None)\<rparr>)" by auto
  have h2: "mt_heap M2 = mt_heap M" "pol M2 = pol M" using M2(2) M1 by (simp_all add: mt_frame_def)
  have "memtier_kind_realloc e k (Some a) 0 M = Some (NULL, M2\<lparr>mt_heap := (mt_heap M)(a := None)\<rparr>)"
    using a M1(1) M2(1) h2 by (simp add: memtier_kind_realloc_def jemk_malloc_usable_size_def memkind_free_def)
  moreover have "capacity (M2\<lparr>mt_heap := x\<rparr>) = capacity M" for x
    using hot_frame(2) [OF M2(2)] M1(3) by (simp add: capacity_def)
  ultimately show ?thesis using M2(3) h2 M1(2) hot_frame(1) [OF M2(2)] by simp
qed

end
