(* ===== verification/Memtier_Api.thy ===== *)
theory Memtier_Api
  imports Memtier_Correct
begin

text \<open>
  The operations of \<open>src/memkind_memtier.c\<close> in sequence and together with the background
  thread, the controller and the ranking: the accounting over any run of calls, the way of an
  allocation to the table of blocks, and what happens when the measured share is \<open>0/0\<close>.
\<close>

section \<open>Runs of calls\<close>

datatype mop = OMalloc size_t | OCalloc size_t size_t | ORealloc ptr size_t | OFree ptr | OMemalign ptr size_t

fun run_op :: "menv \<Rightarrow> mop \<Rightarrow> memtier_memory \<times> memtier \<Rightarrow> (memtier_memory \<times> memtier) option" where
  "run_op e (OMalloc n) (m, M) = map_option snd (memtier_malloc e m n M)"
| "run_op e (OCalloc num n) (m, M) = map_option snd (memtier_calloc e m num n M)"
| "run_op e (ORealloc p n) (m, M) = map_option snd (memtier_realloc e m p n M)"
| "run_op e (OFree p) (m, M) = map_option (\<lambda>M'. (m, M')) (memtier_free e p M)"
| "run_op e (OMemalign memptr n) (m, M) = map_option (\<lambda>(_, _, x). x) (memtier_posix_memalign e m memptr n M)"

text \<open>
  Correct use: pointers are live or \<open>NULL\<close>, the allocator picks fresh blocks, and neither a
  reallocation nor an aligned allocation into a stale pointer fails.
\<close>

definition live_ptr :: "memtier \<Rightarrow> ptr \<Rightarrow> bool" where
  "live_ptr M p \<longleftrightarrow> (\<forall>a. p = Some a \<longrightarrow> mt_heap M a \<noteq> None)"

fun op_ok :: "menv \<Rightarrow> mop \<Rightarrow> memtier \<Rightarrow> bool" where
  "op_ok e (OMalloc n) M \<longleftrightarrow> env_ok e \<and> result_fits e (mt_heap M)"
| "op_ok e (OCalloc num n) M \<longleftrightarrow> env_ok e \<and> result_fits e (mt_heap M)"
| "op_ok e (OMemalign memptr n) M \<longleftrightarrow> env_ok e \<and> result_fits e (mt_heap M) \<and> (me_result e = None \<longrightarrow> memptr = NULL)"
| "op_ok e (OFree p) M \<longleftrightarrow> live_ptr M p"
| "op_ok e (ORealloc p n) M \<longleftrightarrow> env_ok e \<and> live_ptr M p \<and> (case p of
     None \<Rightarrow> result_fits e (mt_heap M)
   | Some a \<Rightarrow> n \<noteq> 0 \<longrightarrow> me_result e \<noteq> None \<and> result_fits e ((mt_heap M)(a := None)))"

definition mt_inv :: "memtier_memory \<Rightarrow> memtier \<Rightarrow> bool" where
  "mt_inv m M \<longleftrightarrow> sizes_ok M \<and> mem_ok m \<and> (uses_hotness m M \<longrightarrow> (\<exists>evs s. hot_ok M evs s))"

primrec run_ops :: "(menv \<times> mop) list \<Rightarrow> memtier_memory \<times> memtier \<Rightarrow> (memtier_memory \<times> memtier) option" where
  "run_ops [] x = Some x"
| "run_ops (c # cs) x = do { x \<leftarrow> run_op (fst c) (snd c) x; run_ops cs x }"

primrec ops_ok :: "(menv \<times> mop) list \<Rightarrow> memtier_memory \<times> memtier \<Rightarrow> bool" where
  "ops_ok [] x \<longleftrightarrow> True"
| "ops_ok (c # cs) x \<longleftrightarrow> op_ok (fst c) (snd c) (snd x) \<and>
     (case run_op (fst c) (snd c) x of None \<Rightarrow> True | Some x' \<Rightarrow> ops_ok cs x')"

lemma uses_hotness_same:
  "same_ops m m' \<Longrightarrow> pol M' = pol M \<Longrightarrow> uses_hotness m' M' = uses_hotness m M"
  by (simp add: uses_hotness_def same_ops_def)

lemma malloc_inv:
  assumes "mt_inv m M" "env_ok e" "result_fits e (mt_heap M)"
  shows "\<exists>p m' M'. memtier_malloc e m n M = Some (p, m', M') \<and> mt_inv m' M'"
proof -
  obtain evs s where h: "uses_hotness m M \<Longrightarrow> hot_ok M evs s" using assms(1) by (auto simp: mt_inv_def)
  from malloc_run [of M m evs s e n] assms h obtain m' M' k hash where
    "memtier_malloc e m n M = Some (map_option fst (me_result e), m', M')" "sizes_ok M'" "mem_ok m'" "same_ops m m'" "pol M' = pol M"
    "hot_ok M evs s \<longrightarrow> hot_ok M' (alloc_events M m (EVENT_CREATE_ADD hash (addr_of (map_option fst (me_result e))) n (is_default M k)) evs) s"
    by (auto simp: mt_inv_def)
  then show ?thesis using h uses_hotness_same [of m m' M' M] by (auto simp: mt_inv_def)
qed

text \<open>An aligned allocation differs from \<open>memtier_malloc\<close> in the counter of the log only.\<close>

lemma memalign_inv:
  assumes "mt_inv m M" "env_ok e" "result_fits e (mt_heap M)" "me_result e = None \<longrightarrow> memptr = NULL"
  shows "\<exists>r p m' M'. memtier_posix_memalign e m memptr n M = Some (r, p, m', M') \<and> mt_inv m' M'"
proof -
  from malloc_inv [OF assms(1-3), of n] obtain p m' M' where ml: "memtier_malloc e m n M = Some (p, m', M')" "mt_inv m' M'" by blast
  from ml(1) obtain k hash M0 M1 M2 where st: "call_get_kind e M m n = Some (k, hash, M0)" "memtier_kind_malloc e k M0 = Some (p, M1)"
    "call_post_alloc m hash p n (is_default M1 k) M1 = Some M2" "call_update_cfg M2 m = Some m'" "M' = print_memory_statistics M2"
    by (auto simp: memtier_malloc_def split: bind_splits)
  have "memtier_posix_memalign e m memptr n M = Some (p \<noteq> NULL, p, m', M2)"
    using st kind_memalign_malloc [of e memptr k M0] assms(4) by (simp add: memtier_posix_memalign_def)
  moreover have "mt_inv m' M2" using ml(2) unfolding st(5)
    by (simp add: mt_inv_def print_memory_statistics_def sizes_frame uses_hotness_def hot_ok_def)
  ultimately show ?thesis by blast
qed

lemma realloc_inv:
  assumes inv: "mt_inv m M" and ok: "op_ok e (ORealloc p n) M"
  shows "\<exists>p' m' M'. memtier_realloc e m p n M = Some (p', m', M') \<and> mt_inv m' M'"
proof (cases p)
  case None
  then show ?thesis using malloc_inv [OF inv, of e n] ok inv by (cases "n = 0") (auto simp: memtier_realloc_def)
next
  case (Some a)
  obtain evs s where h: "uses_hotness m M \<Longrightarrow> hot_ok M evs s" using inv by (auto simp: mt_inv_def)
  have hp: "hot_ok M evs s" if "pol M = MEMTIER_POLICY_DATA_HOTNESS" using h that by (simp add: uses_hotness_def)
  obtain k u where a: "mt_heap M a = Some (k, u)" using ok Some by (auto simp: live_ptr_def)
  have M: "sizes_ok M" "mem_ok m" using inv by (simp_all add: mt_inv_def)
  have "\<exists>p' M1. memtier_kind_realloc e k (Some a) n M = Some (p', M1) \<and> sizes_ok M1 \<and> pol M1 = pol M \<and>
      (hot_ok M evs s \<longrightarrow> (\<exists>evs'. hot_ok M1 evs' s))"
  proof (cases "n = 0")
    case True
    from realloc_free_run [OF M(1) hp a, of e] True show ?thesis by blast
  next
    case False
    then obtain a' u' where "me_result e = Some (a', u')" "result_fits e ((mt_heap M)(a := None))"
      using ok Some by auto
    from realloc_run [OF M(1) hp a False this] show ?thesis by blast
  qed
  then obtain p' M1 where M1: "memtier_kind_realloc e k (Some a) n M = Some (p', M1)" "sizes_ok M1" "pol M1 = pol M"
    "hot_ok M evs s \<longrightarrow> (\<exists>evs'. hot_ok M1 evs' s)" by blast
  from update_config_run [OF M(2), of M1] obtain m' where m': "call_update_cfg M1 m = Some m'" "mem_ok m'"
    "get_kind m' = get_kind m" "post_alloc m' = post_alloc m" by blast
  have inv1: "mt_inv m' M1" using M1 m' h by (auto simp: mt_inv_def uses_hotness_def)
  then have "mt_inv m' (print_memory_statistics M1)"
    by (simp add: mt_inv_def print_memory_statistics_def sizes_frame uses_hotness_def hot_ok_def)
  then show ?thesis using inv1 M1(1) m'(1) a Some by (simp add: memtier_realloc_def memkind_detect_kind_def)
qed

lemma run_op_inv:
  assumes inv: "mt_inv m M" and ok: "op_ok e c M"
  shows "\<exists>m' M'. run_op e c (m, M) = Some (m', M') \<and> mt_inv m' M'"
proof (cases c)
  case (OMalloc n)
  then show ?thesis using malloc_inv [OF inv, of e n] ok by auto
next
  case (OCalloc num n)
  then show ?thesis using malloc_inv [OF inv, of e n] ok by (auto simp: calloc_malloc)
next
  case (ORealloc p n)
  then show ?thesis using realloc_inv [OF inv, of e p n] ok by auto
next
  case (OMemalign memptr n)
  then show ?thesis using memalign_inv [OF inv, of e memptr n] ok by auto
next
  case (OFree p)
  obtain evs s where h: "uses_hotness m M \<Longrightarrow> hot_ok M evs s" using inv by (auto simp: mt_inv_def)
  have hp: "hot_ok M evs s" if "pol M = MEMTIER_POLICY_DATA_HOTNESS" using h that by (simp add: uses_hotness_def)
  have "mt_heap M a \<noteq> None" if "p = Some a" for a using ok that OFree by (simp add: live_ptr_def)
  from free_run [of M evs s p e, OF _ hp this] inv obtain M' where "memtier_free e p M = Some M'" "sizes_ok M'" "pol M' = pol M"
    "hot_ok M evs s \<longrightarrow> hot_ok M' (case p of None \<Rightarrow> evs | Some a \<Rightarrow> notified M (EVENT_DESTROY_REMOVE a 0) evs) s"
    by (auto simp: mt_inv_def)
  then show ?thesis using OFree inv h by (auto simp: mt_inv_def uses_hotness_def)
qed

lemma run_ops_inv:
  "mt_inv m M \<Longrightarrow> ops_ok cs (m, M) \<Longrightarrow> \<exists>m' M'. run_ops cs (m, M) = Some (m', M') \<and> mt_inv m' M'"
proof (induction cs arbitrary: m M)
  case (Cons c cs)
  from run_op_inv [OF Cons.prems(1), of "fst c" "snd c"] Cons.prems(2) obtain m1 M1
    where "run_op (fst c) (snd c) (m, M) = Some (m1, M1)" "mt_inv m1 M1" by auto
  then show ?case using Cons.IH [of m1 M1] Cons.prems(2) by simp
qed simp

definition usable_total :: "heap \<Rightarrow> nat" where
  "usable_total h = nsum (\<lambda>ku. unat (snd ku)) h"

lemma sum_live:
  assumes "\<And>a k u. h a = Some (k, u) \<Longrightarrow> partition k < MEMKIND_MAX_KIND"
  shows "sum_kinds (live h) = usable_total h"
proof -
  let ?g = "\<lambda>k a. if partition (fst (the (h a))) = k then unat (snd (the (h a))) else 0"
  have "sum_kinds (live h) = (\<Sum>k<MEMKIND_MAX_KIND. \<Sum>a\<in>dom h. ?g k a)"
    by (simp add: sum_kinds_def live_def nsum_def)
  also have "\<dots> = (\<Sum>a\<in>dom h. \<Sum>k<MEMKIND_MAX_KIND. ?g k a)" by (rule sum.swap)
  also have "\<dots> = (\<Sum>a\<in>dom h. unat (snd (the (h a))))"
  proof (rule sum.cong [OF refl])
    fix a assume "a \<in> dom h"
    then obtain k u where "h a = Some (k, u)" by force
    then show "(\<Sum>k<MEMKIND_MAX_KIND. ?g k a) = unat (snd (the (h a)))"
      using assms [of a k u] by simp
  qed
  finally show ?thesis by (simp add: usable_total_def nsum_def)
qed

lemma allocated_size_run:
  assumes "sizes_ok M" "partition k < MEMKIND_MAX_KIND"
  shows "memtier_kind_allocated_size k M = (of_nat (live (mt_heap M) (partition k)), M)"
proof -
  have z: "b < THREAD_BUCKETS \<Longrightarrow> t_alloc_size M (partition k) b = 0" for b using assms by (simp add: sizes_ok_def tables_def)
  have "(\<lambda>b. if b < THREAD_BUCKETS then 0 else t_alloc_size M (partition k) b) = t_alloc_size M (partition k)"
    using z by (auto simp: fun_eq_iff)
  moreover have "g_alloc_size M (partition k) = of_nat (live (mt_heap M) (partition k))"
    using assms by (simp add: sizes_ok_def tables_def)
  ultimately show ?thesis using z by (simp add: memtier_kind_allocated_size_def Let_def fun_upd_idem)
qed

lemma inv_reports:
  assumes "mt_inv m M"
  shows "partition k < MEMKIND_MAX_KIND \<Longrightarrow> memtier_kind_allocated_size k M = (of_nat (live (mt_heap M) (partition k)), M)"
    and "memtier_kind_get_total_size M = of_nat (usable_total (mt_heap M))" "usable_total (mt_heap M) < 2 ^ 63"
proof -
  have ok: "sizes_ok M" using assms by (simp add: mt_inv_def)
  then have "sum_kinds (live (mt_heap M)) = usable_total (mt_heap M)" by (intro sum_live) (auto simp: sizes_ok_def)
  then show "partition k < MEMKIND_MAX_KIND \<Longrightarrow> memtier_kind_allocated_size k M = (of_nat (live (mt_heap M) (partition k)), M)"
    "memtier_kind_get_total_size M = of_nat (usable_total (mt_heap M))" "usable_total (mt_heap M) < 2 ^ 63"
    using allocated_size_run [OF ok] ok by (auto simp: memtier_kind_get_total_size_def sizes_ok_def tables_def)
qed

lemma live_empty [simp]: "live Map.empty = (\<lambda>_. 0)" "sum_kinds (\<lambda>_. 0) = 0"
  by (auto simp: fun_eq_iff live_def sum_kinds_def)

section \<open>A share that is not a number\<close>

text \<open>The weighted search with NaN stops at the root, and asserts that the root has no right neighbour.\<close>

lemma nan_search:
  assumes inv: "wre_inv T (Nd a l d ow sw ht r)" and r: "r \<noteq> Nil" and sw: "sw \<noteq> 0"
  shows "wre_find_weighted_interpolated T None = None"
proof -
  have z: "zrep T (Nd a l d ow sw ht r) []" using inv unfolding wre_inv_def by blast
  have "wre_find_weighted_nodes_internal T None (Some 0) = Some (Some a, None)"
    unfolding wre_find_weighted_nodes_internal_def
    using zrep_ld [OF z] zrep_depths(3) [OF z] z sw
    by (subst wre_find_weighted_nodes_loop.simps) (simp add: Let_def zrep_def)
  moreover from find_node_right_run [OF z] r obtain m where "wre_find_node_right T (Some a) = Some (Some m)" by auto
  ultimately show ?thesis
    using zrep_ld [OF z] by (simp add: wre_find_weighted_interpolated_def data_of_def)
qed

lemma nan_threshold:
  assumes "wre_inv (entries R) (Nd a l d ow sw ht r)" "r \<noteq> Nil" "sw \<noteq> 0"
    and "integrated_error (controller R) = None \<or> desired = None \<or> actual = None"
  shows "ranking_calculate_hot_threshold_dram_total R desired actual = None"
proof -
  from controller_nan(1) [OF assms(4)] obtain c where "ranking_controller_calculate_fixed_thresh
      (ranking_controller_set_expected_dram_total (controller R) desired) actual = (None, c)"
    by (metis prod.collapse)
  then show ?thesis using nan_search [OF assms(1-3)]
    by (simp add: ranking_calculate_hot_threshold_dram_total_def Let_def)
qed

text \<open>An update that gets through leaves NaN in the controller.\<close>

lemma nan_kept:
  assumes "ranking_calculate_hot_threshold_dram_total R desired actual = Some (th, R')"
    and "integrated_error (controller R) = None \<or> desired = None \<or> actual = None"
  shows "integrated_error (controller R') = None"
proof -
  obtain q c where qc: "ranking_controller_calculate_fixed_thresh
      (ranking_controller_set_expected_dram_total (controller R) desired) actual = (q, c)" by fastforce
  have "integrated_error c = None" using controller_nan(2) [OF assms(2)] qc by simp
  moreover have "controller R' = c" using assms(1) qc
    by (auto simp: ranking_calculate_hot_threshold_dram_total_def Let_def split: bind_splits)
  ultimately show ?thesis by simp
qed

lemma last_free_run:
  assumes M: "sizes_ok M" and h: "pol M = MEMTIER_POLICY_DATA_HOTNESS \<Longrightarrow> hot_ok M evs s"
    and a: "mt_heap M = [a \<mapsto> (k, u)]" and u: "u \<noteq> 0"
  shows "\<exists>M'. memtier_free e (Some a) M = Some M' \<and> mt_heap M' = Map.empty \<and> g_hotTotalActualRatio M' = None \<and>
    g_dramToTotalActualRatio (mt_tk M') = None \<and> tk_env (mt_tk M) (mt_tk M')"
proof -
  have "mt_heap M b \<noteq> None" if "Some a = Some b" for b using a that by simp
  from free_run [where e = e and p = "Some a" and evs = evs and s = s, OF M h this] obtain M' where M': "memtier_free e (Some a) M = Some M'"
    "mt_heap M' = (mt_heap M)(a := None)" "tk_env (mt_tk M) (mt_tk M')" "measured M' (live (mt_heap M'))"
    using a u by (auto split: if_splits)
  have "mt_heap M' = Map.empty" using M'(2) a by auto
  then show ?thesis using M' by (auto simp: measured_def ddiv_def)
qed

section \<open>A concrete instance\<close>

definition demo_mem :: memtier_memory where
  "demo_mem = demo_mem0\<lparr>mem_cfg := [\<lparr>tier_kind = demo_kind0, kind_ratio = Fin 1\<rparr>, \<lparr>tier_kind = demo_kind1, kind_ratio = Fin (1 / 4)\<rparr>],
     hot_tier_id := 0, cold_tier_id := 1, get_kind := DATA_HOTNESS_GET_KIND, post_alloc := DATA_HOTNESS_POST_ALLOC,
     update_cfg := DATA_HOTNESS_UPDATE\<rparr>"

lemma demo_tk_threshold: "threshVal (hotThreshold (tk_ranking demo_tk)) = Some 0"
  by code_simp

lemma demo_hot: "hot_ok demo_memtier [] (empty_spec [])"
  using demo_tk_rep demo_tk_threshold by (simp add: hot_ok_def demo_memtier_def)

lemma demo_inv: "mt_inv demo_mem demo_memtier"
proof -
  have "sizes_ok demo_memtier"
    by (simp add: sizes_ok_def tables_def demo_memtier_def share_ok_def MEMKIND_MAX_KIND_def)
  moreover have "mem_ok demo_mem"
    by (simp add: mem_ok_def demo_mem_def demo_mem0_def tier_ids_def demo_kind0_def demo_kind1_def MEMKIND_MAX_KIND_def)
  ultimately show ?thesis using demo_hot by (auto simp: mt_inv_def)
qed

lemma demo_fits: "env_ok demo_env" "result_fits demo_env (mt_heap demo_memtier)"
  by (simp_all add: env_ok_def demo_env_def result_fits_def demo_memtier_def)

lemma demo_malloc_run:
  "\<exists>m M. memtier_malloc demo_env demo_mem 100 demo_memtier = Some (Some 4096, m, M) \<and> mt_inv m M \<and>
     mt_heap M 4096 \<noteq> None"
proof -
  have h: "hot_ok demo_memtier [] (empty_spec [])" by (rule demo_hot)
  have inv: "sizes_ok demo_memtier" "mem_ok demo_mem" using demo_inv by (simp_all add: mt_inv_def)
  from malloc_run [OF inv h demo_fits, of 100] obtain k m M where
    "memtier_malloc demo_env demo_mem 100 demo_memtier = Some (map_option fst (me_result demo_env), m, M)"
    "mt_heap M = alloc_heap demo_env k (mt_heap demo_memtier)" by blast
  moreover from malloc_inv [OF demo_inv demo_fits, of 100] calculation(1) have "mt_inv m M" by auto
  ultimately show ?thesis by (auto simp: demo_env_def alloc_heap_def)
qed

section \<open>Properties\<close>

text \<open>
  C2: the accounting of memory.  Take any run of calls that allocate, reallocate and release, by
  any threads and under any policy, on a well-formed memory (with sliding thresholds: limits and
  a degree as the property of the thresholds requires), in which pointers are live, the allocator gives fresh
  blocks, less than 2^63 bytes are in use, and no reallocation fails.  Then no call aborts, and
  afterwards the size reported for every kind is the sum of the usable sizes of its live
  blocks, the total size is the sum over all of them, and the invariants hold again.
\<close>

theorem memtier_accounting:
  assumes "mt_inv m M" "ops_ok cs (m, M)"
  shows "\<exists>m' M'. run_ops cs (m, M) = Some (m', M') \<and> mt_inv m' M' \<and>
    (\<forall>k. partition k < MEMKIND_MAX_KIND \<longrightarrow>
      memtier_kind_allocated_size k M' = (of_nat (live (mt_heap M') (partition k)), M')) \<and>
    memtier_kind_get_total_size M' = of_nat (usable_total (mt_heap M')) \<and> usable_total (mt_heap M') < 2 ^ 63"
proof -
  from run_ops_inv [OF assms] obtain m' M' where r: "run_ops cs (m, M) = Some (m', M')" "mt_inv m' M'" by blast
  then show ?thesis using inv_reports [OF r(2)] by blast
qed

theorem memtier_accounting_witness:
  "\<exists>m M. run_ops [(demo_env, OMalloc 100), (demo_env, OFree (Some 4096))] (demo_mem, demo_memtier) = Some (m, M) \<and>
     memtier_kind_get_total_size M = of_nat (usable_total (mt_heap M))"
proof -
  from demo_malloc_run obtain m M where
    ml: "memtier_malloc demo_env demo_mem 100 demo_memtier = Some (Some 4096, m, M)" "mt_heap M 4096 \<noteq> None" by blast
  have "ops_ok [(demo_env, OMalloc 100), (demo_env, OFree (Some 4096))] (demo_mem, demo_memtier)"
    using ml demo_fits by (simp add: live_ptr_def split: option.split)
  from memtier_accounting [OF demo_inv this] show ?thesis by blast
qed

text \<open>
  C36: a reallocation that fails corrupts the accounting.  The block stays live, but its size has
  left the tables, so they are short by it from then on.
\<close>

theorem realloc_failure_drifts:
  assumes "sizes_ok M" "mt_heap M a = Some (k, u)" "n \<noteq> 0" "me_result e = None" "pol M \<noteq> MEMTIER_POLICY_DATA_HOTNESS"
  shows "\<exists>M'. memtier_kind_realloc e k (Some a) n M = Some (NULL, M') \<and> mt_heap M' = mt_heap M \<and>
    g_alloc_size M' (partition k) = of_nat (live (mt_heap M) (partition k) - unat u) \<and>
    memtier_kind_get_total_size M' = of_nat (usable_total (mt_heap M) - unat u)"
proof -
  let ?L = "live ((mt_heap M)(a := None))"
  from release_run [OF assms(1,2), of e] obtain M1 where M1: "decrement_alloc_size e (partition k) u M = Some M1"
    "mt_frame M M1" "tables M1 ?L" by blast
  have k: "partition k < MEMKIND_MAX_KIND" and fin: "finite (dom (mt_heap M))" using assms(1,2) by (auto simp: sizes_ok_def)
  have f: "mt_heap M1 = mt_heap M" "pol M1 = pol M" using M1(2) by (simp_all add: mt_frame_def)
  have "sum_kinds ?L + unat (0 :: size_t) < 2 ^ 63" using M1(3) by (simp add: tables_def)
  from increment_run [OF M1(3) k this, of e] obtain M2 where
    M2: "increment_alloc_size e (partition k) 0 M1 = Some M2" "tables M2 ?L" "mt_frame M1 M2" by auto
  have "memtier_kind_realloc e k (Some a) n M = Some (NULL, M2)"
    using assms M1(1) M2(1) f
    by (simp add: memtier_kind_realloc_def jemk_malloc_usable_size_def memkind_realloc_def notify_def)
  moreover have "mt_heap M2 = mt_heap M" using M2(3) f by (simp add: mt_frame_def)
  moreover have "?L (partition k) = live (mt_heap M) (partition k) - unat u"
    by (simp add: live_remove(1) [OF fin assms(2)])
  moreover have "sum_kinds ?L = usable_total (mt_heap M) - unat u"
  proof -
    have "sum_kinds ?L = usable_total ((mt_heap M)(a := None))"
      using assms(1) by (intro sum_live) (auto simp: sizes_ok_def split: if_splits)
    then show ?thesis using nsum_remove [OF fin assms(2), of "\<lambda>ku. unat (snd ku)"] by (simp add: usable_total_def)
  qed
  ultimately show ?thesis using M2(2) k by (auto simp: tables_def memtier_kind_get_total_size_def)
qed

theorem realloc_failure_drifts_witness:
  "\<exists>M. mt_heap M 4096 = Some (demo_kind0, 128) \<and> live (mt_heap M) 0 = 128 \<and>
    (\<exists>M'. memtier_kind_realloc (demo_env\<lparr>me_result := None\<rparr>) demo_kind0 (Some 4096) 500 M = Some (NULL, M') \<and>
      mt_heap M' = mt_heap M \<and> g_alloc_size M' 0 = 0)"
proof -
  let ?M0 = "demo_memtier\<lparr>pol := MEMTIER_POLICY_STATIC_RATIO\<rparr>"
  have p0: "partition demo_kind0 = 0" "partition demo_kind0 < MEMKIND_MAX_KIND"
    by (simp_all add: demo_kind0_def MEMKIND_MAX_KIND_def)
  have "sizes_ok ?M0" using demo_inv by (simp add: mt_inv_def sizes_ok_def tables_def)
  from kind_malloc_run [OF this p0(2), of demo_env] demo_fits(2) obtain M where
    M: "sizes_ok M" "mt_frame (?M0\<lparr>mt_heap := alloc_heap demo_env demo_kind0 (mt_heap ?M0)\<rparr>) M" by auto
  have h: "mt_heap M = [4096 \<mapsto> (demo_kind0, 128)]" "pol M = 0"
    using M(2) by (simp_all add: mt_frame_def alloc_heap_def demo_env_def demo_memtier_def MEMTIER_POLICY_STATIC_RATIO_def)
  then have "live (mt_heap M) 0 = 128" using live_insert [of Map.empty 4096 demo_kind0 128] p0(1) by simp
  moreover from realloc_failure_drifts [OF M(1), of 4096 demo_kind0 128 500 "demo_env\<lparr>me_result := None\<rparr>"] h p0 calculation
  have "\<exists>M'. memtier_kind_realloc (demo_env\<lparr>me_result := None\<rparr>) demo_kind0 (Some 4096) 500 M = Some (NULL, M') \<and>
      mt_heap M' = mt_heap M \<and> g_alloc_size M' 0 = 0"
    by (auto simp: MEMTIER_POLICY_DATA_HOTNESS_def)
  moreover have "mt_heap M 4096 = Some (demo_kind0, 128)" using h by simp
  ultimately show ?thesis by blast
qed

text \<open>
  C37: releasing the last block makes the measured share \<open>0/0\<close>.  The check of the ratio lets it
  through.  If the background thread then updates the threshold while the ranking still holds
  entries on both sides of its root, the process aborts; if the update gets through, the
  controller keeps NaN, and from then on every update aborts in such a ranking, whatever is
  measured.
\<close>

theorem last_free_poisons_threshold:
  assumes "sizes_ok M" "pol M = MEMTIER_POLICY_DATA_HOTNESS \<longrightarrow> hot_ok M evs s"
    and "mt_heap M = [a \<mapsto> (k, u)]" "u \<noteq> 0"
  shows "\<exists>M'. memtier_free e (Some a) M = Some M' \<and>
    memtier_kind_get_actual_hot_to_total_allocated_ratio M' = None \<and>
    ((\<exists>b l d ow sw ht r. wre_inv (entries (tk_ranking (mt_tk M))) (Nd b l d ow sw ht r) \<and> r \<noteq> Nil \<and> sw \<noteq> 0) \<longrightarrow>
      tachanka_update_threshold (mt_tk M') = None) \<and>
    (\<forall>T1 T2. tachanka_update_threshold (mt_tk M') = Some T1 \<longrightarrow> controller (tk_ranking T2) = controller (tk_ranking T1) \<longrightarrow>
      (\<exists>b l d ow sw ht r. wre_inv (entries (tk_ranking T2)) (Nd b l d ow sw ht r) \<and> r \<noteq> Nil \<and> sw \<noteq> 0) \<longrightarrow>
      tachanka_update_threshold T2 = None)"
proof -
  from last_free_run [OF assms(1) _ assms(3,4), of evs s e] assms(2) obtain M' where
    M': "memtier_free e (Some a) M = Some M'" "g_hotTotalActualRatio M' = None"
      "g_dramToTotalActualRatio (mt_tk M') = None" "tk_env (mt_tk M) (mt_tk M')" by auto
  have r: "tk_ranking (mt_tk M') = tk_ranking (mt_tk M)" by (rule tk_env_ranking [OF M'(4)])
  have "tachanka_update_threshold (mt_tk M') = None"
    if "wre_inv (entries (tk_ranking (mt_tk M))) (Nd b l d ow sw ht r)" "r \<noteq> Nil" "sw \<noteq> 0" for b l d ow sw ht r
    using nan_threshold [OF that, of _ "g_dramToTotalActualRatio (mt_tk M')"] M'(3)
    by (simp add: tachanka_update_threshold_def r)
  moreover have "tachanka_update_threshold T2 = None"
    if T: "tachanka_update_threshold (mt_tk M') = Some T1" "controller (tk_ranking T2) = controller (tk_ranking T1)"
      and w: "wre_inv (entries (tk_ranking T2)) (Nd b l d ow sw ht r)" "r \<noteq> Nil" "sw \<noteq> 0" for T1 T2 b l d ow sw ht r
  proof -
    have "integrated_error (controller (tk_ranking T1)) = None"
      using T(1) M'(3) by (auto simp: tachanka_update_threshold_def split: bind_splits dest!: nan_kept)
    then show ?thesis using nan_threshold [OF w] T(2) by (simp add: tachanka_update_threshold_def)
  qed
  ultimately show ?thesis using M'(1,2)
    by (auto simp: memtier_kind_get_actual_hot_to_total_allocated_ratio_def)
qed

theorem last_free_poisons_threshold_witness:
  "\<exists>M M'. mt_heap M 4096 \<noteq> None \<and> memtier_free demo_env (Some 4096) M = Some M' \<and>
     tachanka_update_threshold (mt_tk M') = None"
proof -
  let ?M0 = "demo_memtier\<lparr>pol := MEMTIER_POLICY_STATIC_RATIO, mt_tk := demo_tk0\<rparr>"
  have p0: "partition demo_kind0 < MEMKIND_MAX_KIND" by (simp add: demo_kind0_def MEMKIND_MAX_KIND_def)
  have "sizes_ok ?M0" using demo_inv by (simp add: mt_inv_def sizes_ok_def tables_def)
  from kind_malloc_run [OF this p0, of demo_env] demo_fits(2) obtain M where
    M: "sizes_ok M" "mt_frame (?M0\<lparr>mt_heap := alloc_heap demo_env demo_kind0 (mt_heap ?M0)\<rparr>) M" by auto
  have h: "mt_heap M = [4096 \<mapsto> (demo_kind0, 128)]" "pol M = 0" "tk_ranking (mt_tk M) = demo_ranking"
    using M(2) by (auto simp: mt_frame_def tk_ratios_def alloc_heap_def demo_env_def demo_memtier_def demo_tk0_def
        MEMTIER_POLICY_STATIC_RATIO_def)
  have "\<exists>b l d ow sw ht r. wre_inv (entries (tk_ranking (mt_tk M))) (Nd b l d ow sw ht r) \<and> r \<noteq> Nil \<and> sw \<noteq> 0"
    using demo_agg_inv unfolding demo_agg_tree_def h(3) by (intro exI conjI) auto
  moreover have "pol M = MEMTIER_POLICY_DATA_HOTNESS \<longrightarrow> hot_ok M [] (empty_spec [])"
    using h(2) by (simp add: MEMTIER_POLICY_DATA_HOTNESS_def)
  ultimately obtain M' where "memtier_free demo_env (Some 4096) M = Some M'" "tachanka_update_threshold (mt_tk M') = None"
    using last_free_poisons_threshold [OF M(1) _ h(1), of "[]" "empty_spec []" demo_env] by auto
  moreover have "mt_heap M 4096 \<noteq> None" using h(1) by simp
  ultimately show ?thesis by blast
qed

end
