(* ===== verification/Memtier_Pipeline.thy ===== *)
theory Memtier_Pipeline
  imports Memtier_Api
begin

text \<open>
  From the allocating threads to the table of blocks: the calls of \<open>src/memkind_memtier.c\<close>
  send events, the background thread of \<open>src/pebs.c\<close> handles them, and once the queue is
  drained the table of \<open>src/tachanka.c\<close> has exactly the live blocks of the heap.
\<close>

section \<open>Pending events\<close>

lemma spec_events_append:
  "spec_events sizes i (evs @ [ev]) s = spec_event (sizes (i + length evs)) ev (spec_events sizes i evs s)"
  by (induction evs arbitrary: i s) simp_all

lemma events_ok_append:
  "events_ok sizes i (evs @ [ev]) s \<longleftrightarrow> events_ok sizes i evs s \<and> event_ok (spec_events sizes i evs s) ev"
  by (induction evs arbitrary: i s) simp_all

lemma acct_events: "acct s \<Longrightarrow> events_ok sizes i evs s \<Longrightarrow> acct (spec_events sizes i evs s)"
  by (induction evs arbitrary: i s) (simp_all add: acct_event)

text \<open>A table of blocks that mirrors the heap: the same addresses, sizes within the usable ones.\<close>

definition mirror :: "heap \<Rightarrow> (addr \<rightharpoonup> sblock) \<Rightarrow> bool" where
  "mirror h B \<longleftrightarrow> dom B = dom h \<and> (\<forall>a b k u. B a = Some b \<longrightarrow> h a = Some (k, u) \<longrightarrow> sb_size b \<le> u)"

lemma mirror_sizes:
  assumes "mirror h B"
  shows "nsum all_of B \<le> usable_total h"
proof -
  have "all_of (the (B a)) \<le> unat (snd (the (h a)))" if a: "a \<in> dom h" for a
  proof -
    obtain b k u where "B a = Some b" "h a = Some (k, u)"
      using a assms by (cases "h a") (force simp: mirror_def)+
    then show ?thesis using assms by (auto simp: mirror_def all_of_def word_le_nat_alt)
  qed
  then show ?thesis using assms unfolding nsum_def usable_total_def mirror_def by (auto intro: sum_mono)
qed

lemma mirror_create:
  assumes "mirror h B" "h a = None" "n \<le> u"
  shows "mirror (h(a \<mapsto> (k, u))) (B(a \<mapsto> SBlock hash n hot))" "B a = None"
  using assms by (auto simp: mirror_def split: if_splits)

lemma mirror_destroy: "mirror h B \<Longrightarrow> mirror (h(a := None)) (B(a := None))"
  by (auto simp: mirror_def split: if_splits)

definition sync :: "(nat \<Rightarrow> size_t) \<Rightarrow> memtier \<Rightarrow> EventEntry list \<Rightarrow> tk_spec \<Rightarrow> bool" where
  "sync sizes M evs s \<longleftrightarrow> sizes_ok M \<and> hot_ok M evs s \<and> acct s \<and> events_ok sizes 0 evs s \<and>
     mirror (mt_heap M) (sp_blocks (spec_events sizes 0 evs s))"

lemma heap_bound:
  assumes "\<forall>a k u. h a = Some (k, u) \<longrightarrow> partition k < MEMKIND_MAX_KIND"
    and "result_fits e h" "me_result e = Some (a, u)"
  shows "usable_total h + unat u < 2 ^ 63" "h a = None"
proof -
  have "sum_kinds (live h) = usable_total h" by (rule sum_live) (use assms(1) in blast)
  then show "usable_total h + unat u < 2 ^ 63" "h a = None" using assms(2,3) by (auto simp: result_fits_def)
qed

text \<open>One more event in the queue.\<close>

lemma sync_push:
  assumes "sync sizes M evs s" "sizes_ok M'" "hot_ok M' (evs @ [ev]) s"
    and "event_ok (spec_events sizes 0 evs s) ev"
    and "mirror (mt_heap M') (sp_blocks (spec_event (sizes (length evs)) ev (spec_events sizes 0 evs s)))"
  shows "sync sizes M' (evs @ [ev]) s"
  using assms by (simp add: sync_def spec_events_append events_ok_append)

lemma sync_create:
  assumes sy: "sync sizes M evs s" and fit: "result_fits e (mt_heap M)" and res: "me_result e = Some (a, u)" "n \<le> u"
    and M': "sizes_ok M'" "hot_ok M' (evs @ [EVENT_CREATE_ADD hash a n b]) s" "mt_heap M' = (mt_heap M)(a \<mapsto> (k, u))"
  shows "sync sizes M' (evs @ [EVENT_CREATE_ADD hash a n b]) s"
proof (rule sync_push [OF sy M'(1,2)])
  let ?s = "spec_events sizes 0 evs s"
  have mi: "mirror (mt_heap M) (sp_blocks ?s)" using sy by (simp add: sync_def)
  have "\<forall>a k u. mt_heap M a = Some (k, u) \<longrightarrow> partition k < MEMKIND_MAX_KIND"
    using sy by (auto simp: sync_def sizes_ok_def)
  note hb = heap_bound [OF this fit res(1)]
  have "unat n \<le> unat u" using res(2) by (simp add: word_le_nat_alt)
  then have "nsum all_of (sp_blocks ?s) + unat n < 2 ^ 64" using mirror_sizes [OF mi] hb(1) by simp
  then show "event_ok ?s (EVENT_CREATE_ADD hash a n b)" using mirror_create(2) [OF mi hb(2) res(2)] by simp
  show "mirror (mt_heap M') (sp_blocks (spec_event (sizes (length evs)) (EVENT_CREATE_ADD hash a n b) ?s))"
    using mirror_create(1) [OF mi hb(2) res(2)] M'(3) by (simp add: spec_create_def Let_def)
qed

lemma sync_destroy:
  assumes sy: "sync sizes M evs s"
    and M': "sizes_ok M'" "hot_ok M' (evs @ [EVENT_DESTROY_REMOVE a n]) s" "mt_heap M' = (mt_heap M)(a := None)"
  shows "sync sizes M' (evs @ [EVENT_DESTROY_REMOVE a n]) s"
proof (rule sync_push [OF sy M'(1,2)])
  let ?s = "spec_events sizes 0 evs s"
  have "acct ?s" "mirror (mt_heap M) (sp_blocks ?s)" using sy by (simp_all add: sync_def acct_events)
  then show "mirror (mt_heap M') (sp_blocks (spec_event (sizes (length evs)) (EVENT_DESTROY_REMOVE a n) ?s))"
    using M'(3) by (simp add: destroy_blocks mirror_destroy)
qed simp

lemma sync_realloc:
  assumes sy: "sync sizes M evs s" and fit: "result_fits e ((mt_heap M)(a := None))"
    and res: "me_result e = Some (a', u)" "n \<le> u"
    and M': "sizes_ok M'" "hot_ok M' (evs @ [EVENT_REALLOC a a' x n b]) s"
      "mt_heap M' = ((mt_heap M)(a := None))(a' \<mapsto> (k, u))"
  shows "sync sizes M' (evs @ [EVENT_REALLOC a a' x n b]) s"
proof (rule sync_push [OF sy M'(1,2)])
  let ?s = "spec_events sizes 0 evs s" and ?h = "(mt_heap M)(a := None)"
  have ac: "acct ?s" and mi: "mirror ?h ((sp_blocks ?s)(a := None))"
    using sy by (simp_all add: sync_def acct_events mirror_destroy)
  have "\<forall>a k u. ?h a = Some (k, u) \<longrightarrow> partition k < MEMKIND_MAX_KIND"
    using sy by (auto simp: sync_def sizes_ok_def split: if_splits)
  note hb = heap_bound [of ?h, OF this fit res(1)]
  have "unat n \<le> unat u" using res(2) by (simp add: word_le_nat_alt)
  then have "nsum all_of ((sp_blocks ?s)(a := None)) + unat n < 2 ^ 64" using mirror_sizes [OF mi] hb(1) by simp
  then show "event_ok ?s (EVENT_REALLOC a a' x n b)" using mirror_create(2) [OF mi hb(2) res(2)] by simp
  show "mirror (mt_heap M') (sp_blocks (spec_event (sizes (length evs)) (EVENT_REALLOC a a' x n b) ?s))"
    unfolding M'(3) using mirror_create(1) [of ?h "(sp_blocks ?s)(a := None)" a' n u k 0 b] mi hb(2) res(2)
    by (simp add: spec_create_def Let_def destroy_blocks [OF ac])
qed

section \<open>Calls under the hotness policy\<close>

definition hot_mem :: "memtier_memory \<Rightarrow> memtier \<Rightarrow> bool" where
  "hot_mem m M \<longleftrightarrow> mem_ok m \<and> get_kind m = DATA_HOTNESS_GET_KIND \<and> post_alloc m = DATA_HOTNESS_POST_ALLOC \<and>
     pol M = MEMTIER_POLICY_DATA_HOTNESS"

text \<open>Correct use in which every request is served with at least the requested size.\<close>

definition served :: "menv \<Rightarrow> size_t \<Rightarrow> bool" where
  "served e n \<longleftrightarrow> (\<exists>a u. me_result e = Some (a, u) \<and> n \<le> u)"

fun op_served :: "menv \<Rightarrow> mop \<Rightarrow> bool" where
  "op_served e (OMalloc n) \<longleftrightarrow> served e n"
| "op_served e (OCalloc num n) \<longleftrightarrow> served e n"
| "op_served e (OMemalign memptr n) \<longleftrightarrow> served e n"
| "op_served e (ORealloc p n) \<longleftrightarrow> n \<noteq> 0 \<longrightarrow> served e n"
| "op_served e (OFree p) \<longleftrightarrow> True"

definition step_ok :: "(nat \<Rightarrow> size_t) \<Rightarrow> tk_spec \<Rightarrow> nat \<Rightarrow> memtier_memory \<Rightarrow> memtier \<Rightarrow> EventEntry list \<Rightarrow> bool" where
  "step_ok sizes s c m M evs \<longleftrightarrow> sync sizes M evs s \<and> hot_mem m M \<and> capacity M = c"

lemma sync_sizes: "sync sizes M evs s \<Longrightarrow> sizes_ok M" "sync sizes M evs s \<Longrightarrow> hot_ok M evs s"
  by (simp_all add: sync_def)

lemma malloc_step:
  assumes st: "step_ok sizes s c m M evs" and e: "env_ok e" "result_fits e (mt_heap M)" "served e n"
    and room: "length evs < c"
  shows "\<exists>p m' M' ev. memtier_malloc e m n M = Some (p, m', M') \<and> step_ok sizes s c m' M' (evs @ [ev])"
proof -
  have sy: "sync sizes M evs s" and m: "hot_mem m M" and c: "capacity M = c" using st by (simp_all add: step_ok_def)
  obtain a u where res: "me_result e = Some (a, u)" "n \<le> u" using e(3) by (auto simp: served_def)
  have "mem_ok m" using m by (simp add: hot_mem_def)
  from malloc_run [OF sync_sizes(1) [OF sy] this sync_sizes(2) [OF sy] e(1,2), of n] res(1) obtain k hash m' M'
    where M': "memtier_malloc e m n M = Some (Some a, m', M')" "sizes_ok M'" "mem_ok m'" "same_ops m m'" "pol M' = pol M"
      "mt_heap M' = (mt_heap M)(a \<mapsto> (k, u))" "capacity M' = capacity M"
      "hot_ok M' (alloc_events M m (EVENT_CREATE_ADD hash a n (is_default M k)) evs) s"
    using sync_sizes(2) [OF sy] by (auto simp: alloc_heap_def addr_of_def)
  have "hot_ok M' (evs @ [EVENT_CREATE_ADD hash a n (is_default M k)]) s"
    using M'(8) m room c by (simp add: alloc_events_def pushed_def hot_mem_def)
  from sync_create [OF sy e(2) res M'(2) this M'(6)] have "sync sizes M' (evs @ [EVENT_CREATE_ADD hash a n (is_default M k)]) s" .
  moreover have "hot_mem m' M'" using m M'(3,4,5) by (simp add: hot_mem_def same_ops_def)
  ultimately show ?thesis using M'(1,7) c by (auto simp: step_ok_def)
qed

lemma memalign_step:
  assumes st: "step_ok sizes s c m M evs" and e: "env_ok e" "result_fits e (mt_heap M)" "served e n"
    and room: "length evs < c"
  shows "\<exists>r p m' M' ev. memtier_posix_memalign e m memptr n M = Some (r, p, m', M') \<and> step_ok sizes s c m' M' (evs @ [ev])"
proof -
  from malloc_step [OF assms] obtain p m' M' ev where ml: "memtier_malloc e m n M = Some (p, m', M')"
    "step_ok sizes s c m' M' (evs @ [ev])" by blast
  from ml(1) obtain k hash M0 M1 M2 where st: "call_get_kind e M m n = Some (k, hash, M0)" "memtier_kind_malloc e k M0 = Some (p, M1)"
    "call_post_alloc m hash p n (is_default M1 k) M1 = Some M2" "call_update_cfg M2 m = Some m'" "M' = print_memory_statistics M2"
    by (auto simp: memtier_malloc_def split: bind_splits)
  have "memtier_posix_memalign e m memptr n M = Some (p \<noteq> NULL, p, m', M2)"
    using st kind_memalign_malloc [of e memptr k M0] e(3) by (auto simp: memtier_posix_memalign_def served_def)
  moreover have "step_ok sizes s c m' M2 (evs @ [ev])" using ml(2) unfolding st(5)
    by (simp add: step_ok_def sync_def hot_mem_def print_memory_statistics_def sizes_frame hot_ok_def capacity_def)
  ultimately show ?thesis by blast
qed

lemma free_step:
  assumes st: "step_ok sizes s c m M evs" and p: "live_ptr M p" and room: "length evs < c"
  shows "\<exists>M' evs'. memtier_free e p M = Some M' \<and> step_ok sizes s c m M' evs' \<and> length evs' \<le> Suc (length evs)"
proof (cases p)
  case None
  then have "memtier_free e p M = Some M" by (simp add: memtier_free_def memtier_kind_free_def memkind_detect_kind_def)
  then show ?thesis using st by (intro exI [of _ M] exI [of _ evs]) simp
next
  case (Some a)
  have sy: "sync sizes M evs s" and m: "hot_mem m M" and c: "capacity M = c" using st by (simp_all add: step_ok_def)
  have "mt_heap M b \<noteq> None" if "p = Some b" for b using p that by (simp add: live_ptr_def)
  from free_run [where p = p and e = e, OF sync_sizes(1) [OF sy] sync_sizes(2) [OF sy] this] obtain M'
    where M': "memtier_free e p M = Some M'" "sizes_ok M'" "pol M' = pol M" "capacity M' = capacity M"
      "mt_heap M' = (mt_heap M)(a := None)" "hot_ok M' (notified M (EVENT_DESTROY_REMOVE a 0) evs) s"
    using sync_sizes(2) [OF sy] Some by auto
  have "hot_ok M' (evs @ [EVENT_DESTROY_REMOVE a 0]) s"
    using M'(6) m room c by (simp add: notified_def pushed_def hot_mem_def)
  from sync_destroy [OF sy M'(2) this M'(5)] have "sync sizes M' (evs @ [EVENT_DESTROY_REMOVE a 0]) s" .
  moreover have "hot_mem m M'" using m M'(3) by (simp add: hot_mem_def)
  ultimately show ?thesis using M'(1,4) c
    by (intro exI [of _ M'] exI [of _ "evs @ [EVENT_DESTROY_REMOVE a 0]"]) (simp add: step_ok_def)
qed

lemma kind_realloc_step:
  assumes sy: "sync sizes M evs s" and m: "hot_mem m M" and a: "mt_heap M a = Some (k, u)"
    and e: "n \<noteq> 0 \<longrightarrow> served e n \<and> result_fits e ((mt_heap M)(a := None))" and room: "length evs < capacity M"
  shows "\<exists>p M' ev. memtier_kind_realloc e k (Some a) n M = Some (p, M') \<and> sync sizes M' (evs @ [ev]) s \<and>
    pol M' = pol M \<and> capacity M' = capacity M"
proof (cases "n = 0")
  case True
  from realloc_free_run [where e = e, OF sync_sizes(1) [OF sy] sync_sizes(2) [OF sy] a] obtain M'
    where M': "memtier_kind_realloc e k (Some a) 0 M = Some (NULL, M')" "sizes_ok M'" "pol M' = pol M" "capacity M' = capacity M"
      "mt_heap M' = (mt_heap M)(a := None)" "hot_ok M' (notified M (EVENT_DESTROY_REMOVE a u) evs) s"
    using sync_sizes(2) [OF sy] by auto
  have "hot_ok M' (evs @ [EVENT_DESTROY_REMOVE a u]) s"
    using M'(6) m room by (simp add: notified_def pushed_def hot_mem_def)
  from sync_destroy [OF sy M'(2) this M'(5)] show ?thesis using M' True by blast
next
  case False
  then obtain a' u' where res: "me_result e = Some (a', u')" "n \<le> u'" using e by (auto simp: served_def)
  have fit: "result_fits e ((mt_heap M)(a := None))" using e False by simp
  let ?ev = "EVENT_REALLOC a a' 0 n (is_default M k)"
  from realloc_run [OF sync_sizes(1) [OF sy] sync_sizes(2) [OF sy] a False res(1) fit] obtain M'
    where M': "memtier_kind_realloc e k (Some a) n M = Some (Some a', M')" "sizes_ok M'" "pol M' = pol M" "capacity M' = capacity M"
      "mt_heap M' = ((mt_heap M)(a := None))(a' \<mapsto> (k, u'))" "hot_ok M' (notified M ?ev evs) s"
    using sync_sizes(2) [OF sy] by auto
  have "hot_ok M' (evs @ [?ev]) s" using M'(6) m room by (simp add: notified_def pushed_def hot_mem_def)
  from sync_realloc [OF sy fit res M'(2) this M'(5)] show ?thesis using M' by blast
qed

lemma realloc_step:
  assumes st: "step_ok sizes s c m M evs" and ok: "op_ok e (ORealloc p n) M" "op_served e (ORealloc p n)"
    and room: "length evs < c"
  shows "\<exists>p' m' M' evs'. memtier_realloc e m p n M = Some (p', m', M') \<and> step_ok sizes s c m' M' evs' \<and>
    length evs' \<le> Suc (length evs)"
proof (cases p)
  case None
  show ?thesis
  proof (cases "n = 0")
    case True
    then show ?thesis using None st
      by (intro exI [of _ NULL] exI [of _ m] exI [of _ M] exI [of _ evs]) (simp add: memtier_realloc_def)
  next
    case False
    then have "env_ok e" "result_fits e (mt_heap M)" "served e n" using ok None by auto
    from malloc_step [OF st this room] obtain p' m' M' ev where "memtier_malloc e m n M = Some (p', m', M')"
      "step_ok sizes s c m' M' (evs @ [ev])" by blast
    then show ?thesis using None False
      by (intro exI [of _ p'] exI [of _ m'] exI [of _ M'] exI [of _ "evs @ [ev]"]) (simp add: memtier_realloc_def)
  qed
next
  case (Some a)
  have sy: "sync sizes M evs s" and m: "hot_mem m M" and c: "capacity M = c" using st by (simp_all add: step_ok_def)
  obtain k u where a: "mt_heap M a = Some (k, u)" using ok(1) Some by (auto simp: live_ptr_def)
  have "n \<noteq> 0 \<longrightarrow> served e n \<and> result_fits e ((mt_heap M)(a := None))" using ok Some by simp
  from kind_realloc_step [OF sy m a this] room c obtain p' M1 ev where
    M1: "memtier_kind_realloc e k (Some a) n M = Some (p', M1)" "sync sizes M1 (evs @ [ev]) s" "pol M1 = pol M" "capacity M1 = c"
    by auto
  from update_config_run [of m M1] m obtain m' where m': "call_update_cfg M1 m = Some m'" "mem_ok m'"
    "get_kind m' = get_kind m" "post_alloc m' = post_alloc m" by (auto simp: hot_mem_def)
  define M2 where "M2 = (if n \<noteq> 0 then print_memory_statistics M1 else M1)"
  have "memtier_realloc e m p n M = Some (p', m', M2)"
    using M1(1) m'(1) a Some by (simp add: memtier_realloc_def memkind_detect_kind_def M2_def)
  moreover have "step_ok sizes s c m' M2 (evs @ [ev])" using M1 m' m
    by (simp add: M2_def step_ok_def sync_def hot_mem_def print_memory_statistics_def sizes_frame hot_ok_def capacity_def)
  ultimately show ?thesis
    by (intro exI [of _ p'] exI [of _ m'] exI [of _ M2] exI [of _ "evs @ [ev]"]) simp
qed

lemma run_op_step:
  assumes st: "step_ok sizes s c m M evs" and ok: "op_ok e x M" "op_served e x" and room: "length evs < c"
  shows "\<exists>m' M' evs'. run_op e x (m, M) = Some (m', M') \<and> step_ok sizes s c m' M' evs' \<and> length evs' \<le> Suc (length evs)"
proof (cases x)
  case (OMalloc n)
  then show ?thesis using malloc_step [OF st _ _ _ room, of e n] ok by fastforce
next
  case (OCalloc num n)
  then show ?thesis using malloc_step [OF st _ _ _ room, of e n] ok by (fastforce simp: calloc_malloc)
next
  case (ORealloc p n)
  then show ?thesis using realloc_step [OF st _ _ room, of e p n] ok by fastforce
next
  case (OMemalign memptr n)
  then show ?thesis using memalign_step [OF st _ _ _ room, of e n memptr] ok by fastforce
next
  case (OFree p)
  then show ?thesis using free_step [OF st _ room, of p e] ok by fastforce
qed

primrec ops_served :: "(menv \<times> mop) list \<Rightarrow> bool" where
  "ops_served [] \<longleftrightarrow> True"
| "ops_served (x # xs) \<longleftrightarrow> op_served (fst x) (snd x) \<and> ops_served xs"

lemma run_ops_step:
  assumes "step_ok sizes s c m M evs" "ops_ok xs (m, M)" "ops_served xs" "length evs + length xs \<le> c"
  shows "\<exists>m' M' evs'. run_ops xs (m, M) = Some (m', M') \<and> step_ok sizes s c m' M' evs'"
  using assms
proof (induction xs arbitrary: m M evs)
  case (Cons x xs)
  from run_op_step [OF Cons.prems(1), of "fst x" "snd x"] Cons.prems obtain m1 M1 evs1 where
    "run_op (fst x) (snd x) (m, M) = Some (m1, M1)" "step_ok sizes s c m1 M1 evs1" "length evs1 \<le> Suc (length evs)" by auto
  then show ?case using Cons.IH [of m1 M1 evs1] Cons.prems by simp
qed auto

section \<open>Properties\<close>

text \<open>
  C1: the table of blocks catches up with the heap.  Under the hotness policy, start from a state
  in which the pending events account for the difference between the heap and the table, and
  make any run of served calls for which the queue has room.  The calls return; and when the
  background thread then drains the queue with enough memory, it returns, the queue is empty,
  and the table has a block at exactly the live addresses of the heap, none larger than its
  usable size, with types and ranking in agreement.
\<close>

theorem pipeline_correct:
  assumes "sync sizes M evs s" "hot_mem m M" "ops_ok xs (m, M)" "ops_served xs" "length evs + length xs \<le> capacity M"
  shows "\<exists>m' M' evs'. run_ops xs (m, M) = Some (m', M') \<and> sync sizes M' evs' s \<and>
    (\<forall>os n ev0 P. pb_tk P = mt_tk M' \<longrightarrow> length evs' \<le> n \<longrightarrow> loop_room os sizes n 0 ev0 P \<longrightarrow>
      (\<exists>P' s'. event_loop os sizes n 0 ev0 P = Some P' \<and> lq_rep (ranking_event_buff (pb_tk P')) [] \<and>
        tk_rep (pb_tk P') s' \<and> acct s' \<and> mirror (mt_heap M') (sp_blocks s')))"
proof -
  from run_ops_step [of sizes s "capacity M" m M evs xs] assms obtain m' M' evs' where
    r: "run_ops xs (m, M) = Some (m', M')" "step_ok sizes s (capacity M) m' M' evs'" by (auto simp: step_ok_def)
  have sy: "sync sizes M' evs' s" using r(2) by (simp add: step_ok_def)
  have "\<exists>P' s'. event_loop os sizes n 0 ev0 P = Some P' \<and> lq_rep (ranking_event_buff (pb_tk P')) [] \<and>
        tk_rep (pb_tk P') s' \<and> acct s' \<and> mirror (mt_heap M') (sp_blocks s')"
    if P: "pb_tk P = mt_tk M'" "length evs' \<le> n" "loop_room os sizes n 0 ev0 P" for os n ev0 P
    using event_loop_run [of P s evs' sizes 0 n os ev0] sy P by (auto simp: sync_def hot_ok_def)
  then show ?thesis using r(1) sy by blast
qed

theorem pipeline_correct_witness:
  "\<exists>m M. run_ops [(demo_env, OMalloc 100)] (demo_mem, demo_memtier) = Some (m, M) \<and>
     (\<exists>evs. sync (\<lambda>_. 0) M evs (empty_spec []))"
proof -
  have "sync (\<lambda>_. 0) demo_memtier [] (empty_spec [])"
    using demo_inv demo_hot acct_empty
    by (simp add: sync_def mt_inv_def mirror_def) (simp add: empty_spec_def demo_memtier_def)
  moreover have "hot_mem demo_mem demo_memtier"
    using demo_inv by (simp add: hot_mem_def mt_inv_def) (simp add: demo_mem_def demo_memtier_def)
  moreover have "ops_ok [(demo_env, OMalloc 100)] (demo_mem, demo_memtier)"
    using demo_fits by (simp split: option.split)
  moreover have "ops_served [(demo_env, OMalloc 100)]" by (simp add: served_def demo_env_def word_le_nat_alt)
  moreover have "unat (lq_size (ranking_event_buff demo_tk)) = 2"
    using tachanka_init_run [OF demo_boot_ok, of demo_tk0 "4 / 10"] demo_tk_init by auto
  then have "length [] + length [(demo_env, OMalloc 100)] \<le> capacity demo_memtier"
    by (simp add: capacity_def demo_memtier_def)
  ultimately show ?thesis using pipeline_correct by blast
qed

end
