(* ===== verification/Lockless_Queue_Threads.thy ===== *)
theory Lockless_Queue_Threads
  imports Lockless_Queue
begin

text \<open>
  Component \<open>src/lockless_srmw_queue.c\<close> with several writers and one reader running at once.
  A step is one atomic access of the source (an atomic read-modify-write, a load or a store
  of a shared word, one \<open>memcpy\<close>), and the threads interleave in any order; the memory is
  sequentially consistent, which is what the fences of the source are there to give.  A
  compare-and-exchange may also fail without cause, as the weak form is allowed to.  The
  \<open>memcpy\<close> of a writer passes through a state in which the object holds arbitrary bytes, so
  that reading an object while it is being written would be visible.

  The two ghost fields record what the interface promises about: \<open>claimed\<close> is the sequence
  of objects in the order in which the writers won the exchange on \<open>tail\<close>, \<open>popped\<close> what the
  reader has copied out.
\<close>

datatype 'a wpc =
    W_Idle
  | W_Cancel            \<comment> \<open>\<open>lq_cancel_reserve_write\<close> of a full queue\<close>
  | W_Load 'a           \<comment> \<open>reads \<open>tail\<close>\<close>
  | W_Cas 'a size_t     \<comment> \<open>exchanges \<open>tail\<close>, expecting the word read\<close>
  | W_Check 'a nat      \<comment> \<open>reads \<open>metadata_state\<close> of the cell\<close>
  | W_Copy 'a nat       \<comment> \<open>\<open>memcpy\<close> starts\<close>
  | W_Torn 'a nat       \<comment> \<open>\<open>memcpy\<close> ends\<close>
  | W_Ready 'a nat      \<comment> \<open>stores \<open>META_STATE_READY\<close>\<close>
  | W_Post              \<comment> \<open>decrements \<open>unavailableRead\<close>\<close>
  | W_Abort             \<comment> \<open>the assertion has failed\<close>

datatype rpc =
    R_Idle
  | R_Cancel            \<comment> \<open>\<open>lq_cancel_reserve_read\<close>\<close>
  | R_Load              \<comment> \<open>reads \<open>head\<close>\<close>
  | R_Cas size_t        \<comment> \<open>exchanges \<open>head\<close>\<close>
  | R_Check nat         \<comment> \<open>reads \<open>metadata_state\<close> of the cell\<close>
  | R_Rollback nat      \<comment> \<open>stores the old \<open>head\<close>\<close>
  | R_Copy nat          \<comment> \<open>\<open>memcpy\<close>\<close>
  | R_Free nat          \<comment> \<open>stores \<open>META_STATE_FREE\<close>\<close>
  | R_Post              \<comment> \<open>decrements \<open>used\<close>\<close>

record 'a lq_sys =
  buf :: "'a lq_buffer"
  wpcs :: "'a wpc list"
  rd :: rpc
  claimed :: "'a list"
  popped :: "'a list"

definition set_w :: "nat \<Rightarrow> 'a wpc \<Rightarrow> 'a lq_sys \<Rightarrow> 'a lq_sys" where
  "set_w k p s = s\<lparr>wpcs := (wpcs s)[k := p]\<rparr>"

text \<open>The steps of writer \<open>k\<close>.\<close>

inductive w_step :: "nat \<Rightarrow> 'a lq_sys \<Rightarrow> 'a lq_sys \<Rightarrow> bool" for k :: nat where
  w_reserve: "wpcs s ! k = W_Idle \<Longrightarrow> prev = lq_used (buf s) \<Longrightarrow>
     w_step k s (set_w k (if prev < lq_size (buf s) then W_Load x else W_Cancel)
                   (s\<lparr>buf := (buf s)\<lparr>lq_used := prev + 1\<rparr>\<rparr>))"
| w_cancel: "wpcs s ! k = W_Cancel \<Longrightarrow>
     w_step k s (set_w k W_Idle (s\<lparr>buf := (buf s)\<lparr>lq_used := lq_used (buf s) - 1\<rparr>\<rparr>))"
| w_load: "wpcs s ! k = W_Load x \<Longrightarrow> w_step k s (set_w k (W_Cas x (lq_tail (buf s))) s)"
| w_cas: "wpcs s ! k = W_Cas x (lq_tail (buf s)) \<Longrightarrow>
     w_step k s (set_w k (W_Check x (unat (lq_tail (buf s))))
                   (s\<lparr>buf := (buf s)\<lparr>lq_tail := (lq_tail (buf s) + 1) mod lq_size (buf s)\<rparr>,
                      claimed := claimed s @ [x]\<rparr>))"
| w_cas_fail: "wpcs s ! k = W_Cas x old \<Longrightarrow> w_step k s (set_w k (W_Load x) s)"
| w_check: "wpcs s ! k = W_Check x i \<Longrightarrow>
     metadata_state (lq_entries (buf s) ! i) = META_STATE_FREE \<Longrightarrow>
     w_step k s (set_w k (W_Copy x i) s)"
| w_check_fail: "wpcs s ! k = W_Check x i \<Longrightarrow>
     metadata_state (lq_entries (buf s) ! i) \<noteq> META_STATE_FREE \<Longrightarrow>
     w_step k s (set_w k W_Abort (s\<lparr>buf := (buf s)\<lparr>lq_used := lq_used (buf s) - 1\<rparr>\<rparr>))"
| w_copy: "wpcs s ! k = W_Copy x i \<Longrightarrow>
     w_step k s (set_w k (W_Torn x i)
       (s\<lparr>buf := (buf s)\<lparr>lq_data := (lq_data (buf s))[en_data (lq_entries (buf s) ! i) := y]\<rparr>\<rparr>))"
| w_torn: "wpcs s ! k = W_Torn x i \<Longrightarrow>
     w_step k s (set_w k (W_Ready x i)
       (s\<lparr>buf := (buf s)\<lparr>lq_data := (lq_data (buf s))[en_data (lq_entries (buf s) ! i) := x]\<rparr>\<rparr>))"
| w_ready: "wpcs s ! k = W_Ready x i \<Longrightarrow>
     w_step k s (set_w k W_Post (s\<lparr>buf := lq_set_state i META_STATE_READY (buf s)\<rparr>))"
| w_post: "wpcs s ! k = W_Post \<Longrightarrow>
     w_step k s (set_w k W_Idle
       (s\<lparr>buf := (buf s)\<lparr>lq_unavailableRead := lq_unavailableRead (buf s) - 1\<rparr>\<rparr>))"

text \<open>The steps of the reader.\<close>

inductive r_step :: "'a lq_sys \<Rightarrow> 'a lq_sys \<Rightarrow> bool" where
  r_reserve: "rd s = R_Idle \<Longrightarrow> prev = lq_unavailableRead (buf s) \<Longrightarrow>
     r_step s (s\<lparr>buf := (buf s)\<lparr>lq_unavailableRead := prev + 1\<rparr>,
                 rd := if prev < lq_size (buf s) then R_Load else R_Cancel\<rparr>)"
| r_cancel: "rd s = R_Cancel \<Longrightarrow>
     r_step s (s\<lparr>buf := (buf s)\<lparr>lq_unavailableRead := lq_unavailableRead (buf s) - 1\<rparr>,
                 rd := R_Idle\<rparr>)"
| r_load: "rd s = R_Load \<Longrightarrow> r_step s (s\<lparr>rd := R_Cas (lq_head (buf s))\<rparr>)"
| r_cas: "rd s = R_Cas (lq_head (buf s)) \<Longrightarrow>
     r_step s (s\<lparr>buf := (buf s)\<lparr>lq_head := (lq_head (buf s) + 1) mod lq_size (buf s)\<rparr>,
                 rd := R_Check (unat (lq_head (buf s)))\<rparr>)"
| r_cas_fail: "rd s = R_Cas old \<Longrightarrow> r_step s (s\<lparr>rd := R_Load\<rparr>)"
| r_check: "rd s = R_Check i \<Longrightarrow>
     r_step s (s\<lparr>rd := if metadata_state (lq_entries (buf s) ! i) \<noteq> META_STATE_READY
                       then R_Rollback i else R_Copy i\<rparr>)"
| r_rollback: "rd s = R_Rollback i \<Longrightarrow>
     r_step s (s\<lparr>buf := (buf s)\<lparr>lq_head := of_nat i\<rparr>, rd := R_Cancel\<rparr>)"
| r_copy: "rd s = R_Copy i \<Longrightarrow>
     r_step s (s\<lparr>rd := R_Free i,
       popped := popped s @ [lq_data (buf s) ! en_data (lq_entries (buf s) ! i)]\<rparr>)"
| r_free: "rd s = R_Free i \<Longrightarrow>
     r_step s (s\<lparr>buf := lq_set_state i META_STATE_FREE (buf s), rd := R_Post\<rparr>)"
| r_post: "rd s = R_Post \<Longrightarrow>
     r_step s (s\<lparr>buf := (buf s)\<lparr>lq_used := lq_used (buf s) - 1\<rparr>, rd := R_Idle\<rparr>)"

text \<open>All states that the threads can reach from a freshly initialised queue.\<close>

definition lq_start :: "'a lq_buffer \<Rightarrow> nat \<Rightarrow> 'a lq_sys" where
  "lq_start b n = \<lparr>buf = b, wpcs = replicate n W_Idle, rd = R_Idle, claimed = [], popped = []\<rparr>"

inductive lq_reachable :: "'a lq_sys \<Rightarrow> 'a lq_sys \<Rightarrow> bool" for s0 :: "'a lq_sys" where
  lq_init_state: "lq_reachable s0 s0"
| lq_writer: "lq_reachable s0 s \<Longrightarrow> k < length (wpcs s) \<Longrightarrow> w_step k s s' \<Longrightarrow> lq_reachable s0 s'"
| lq_reader: "lq_reachable s0 s \<Longrightarrow> r_step s s' \<Longrightarrow> lq_reachable s0 s'"

section \<open>The invariant\<close>

text \<open>
  What a thread contributes to the counters at its program point: a reservation that has
  not yet claimed a cell, a failed reservation still to be cancelled, a claimed cell not yet
  posted; and the cell a writer owns.
\<close>

fun w_resv :: "'a wpc \<Rightarrow> nat" where
  "w_resv (W_Load x) = 1" | "w_resv (W_Cas x u) = 1" | "w_resv _ = 0"

fun w_canc :: "'a wpc \<Rightarrow> nat" where
  "w_canc W_Cancel = 1" | "w_canc _ = 0"

fun w_unposted :: "'a wpc \<Rightarrow> nat" where
  "w_unposted (W_Check x i) = 1" | "w_unposted (W_Copy x i) = 1" | "w_unposted (W_Torn x i) = 1"
| "w_unposted (W_Ready x i) = 1" | "w_unposted W_Post = 1" | "w_unposted _ = 0"

fun w_owns :: "'a wpc \<Rightarrow> ('a \<times> nat) option" where
  "w_owns (W_Check x i) = Some (x, i)" | "w_owns (W_Copy x i) = Some (x, i)"
| "w_owns (W_Torn x i) = Some (x, i)" | "w_owns (W_Ready x i) = Some (x, i)" | "w_owns _ = None"

fun r_pend :: "rpc \<Rightarrow> nat" where
  "r_pend R_Idle = 0" | "r_pend (R_Free i) = 0" | "r_pend R_Post = 0" | "r_pend _ = 1"

fun r_res :: "rpc \<Rightarrow> nat" where
  "r_res R_Load = 1" | "r_res (R_Cas u) = 1" | "r_res (R_Check i) = 1" | "r_res (R_Copy i) = 1"
| "r_res _ = 0"

fun r_ahead :: "rpc \<Rightarrow> nat" where
  "r_ahead (R_Check i) = 1" | "r_ahead (R_Rollback i) = 1" | "r_ahead (R_Copy i) = 1"
| "r_ahead _ = 0"

fun r_unfreed :: "rpc \<Rightarrow> nat" where
  "r_unfreed (R_Free i) = 1" | "r_unfreed _ = 0"

fun r_hold :: "rpc \<Rightarrow> nat" where
  "r_hold (R_Free i) = 1" | "r_hold R_Post = 1" | "r_hold _ = 0"

definition pc_sum :: "('a wpc \<Rightarrow> nat) \<Rightarrow> 'a lq_sys \<Rightarrow> nat" where
  "pc_sum c s = sum_list (map c (wpcs s))"

abbreviation capacity :: "'a lq_sys \<Rightarrow> nat" where
  "capacity s \<equiv> unat (lq_size (buf s))"

abbreviation state_of :: "'a lq_sys \<Rightarrow> nat \<Rightarrow> 32 word" where
  "state_of s m \<equiv> metadata_state (lq_entries (buf s) ! (m mod capacity s))"

definition count_inv :: "'a lq_sys \<Rightarrow> bool" where
  "count_inv s \<longleftrightarrow>
     unat (lq_used (buf s)) + length (popped s) =
       length (claimed s) + pc_sum w_resv s + pc_sum w_canc s + r_hold (rd s) \<and>
     length (claimed s) + pc_sum w_resv s + r_hold (rd s) \<le> capacity s + length (popped s) \<and>
     unat (lq_unavailableRead (buf s)) + length (claimed s) =
       capacity s + pc_sum w_unposted s + length (popped s) + r_pend (rd s) \<and>
     length (popped s) + pc_sum w_unposted s + r_res (rd s) \<le> length (claimed s) \<and>
     unat (lq_tail (buf s)) = length (claimed s) mod capacity s \<and>
     unat (lq_head (buf s)) = (length (popped s) + r_ahead (rd s)) mod capacity s"

definition owner_ok :: "'a lq_sys \<Rightarrow> 'a wpc \<Rightarrow> 'a \<Rightarrow> nat \<Rightarrow> bool" where
  "owner_ok s p x i \<longleftrightarrow> (\<exists>m. length (popped s) \<le> m \<and> m < length (claimed s) \<and>
     i = m mod capacity s \<and> claimed s ! m = x) \<and>
     metadata_state (lq_entries (buf s) ! i) = META_STATE_FREE \<and>
     (p = W_Ready x i \<longrightarrow> lq_data (buf s) ! i = x)"

definition owner_inv :: "'a lq_sys \<Rightarrow> bool" where
  "owner_inv s \<longleftrightarrow>
     (\<forall>k x i. k < length (wpcs s) \<and> w_owns (wpcs s ! k) = Some (x, i) \<longrightarrow>
        owner_ok s (wpcs s ! k) x i) \<and>
     (\<forall>k l x y i. k < length (wpcs s) \<and> l < length (wpcs s) \<and>
        w_owns (wpcs s ! k) = Some (x, i) \<and> w_owns (wpcs s ! l) = Some (y, i) \<longrightarrow> k = l) \<and>
     W_Abort \<notin> set (wpcs s)"

definition owned :: "'a lq_sys \<Rightarrow> nat \<Rightarrow> bool" where
  "owned s i \<longleftrightarrow> (\<exists>k < length (wpcs s). \<exists>x. w_owns (wpcs s ! k) = Some (x, i))"

definition cell_inv :: "'a lq_sys \<Rightarrow> bool" where
  "cell_inv s \<longleftrightarrow>
     (\<forall>m. length (popped s) \<le> m \<and> m < length (claimed s) \<longrightarrow> owned s (m mod capacity s) \<or>
        state_of s m = META_STATE_READY \<and> lq_data (buf s) ! (m mod capacity s) = claimed s ! m) \<and>
     (\<forall>m. length (claimed s) \<le> m \<and> m + r_unfreed (rd s) < length (popped s) + capacity s \<longrightarrow>
        state_of s m = META_STATE_FREE) \<and>
     popped s = take (length (popped s)) (claimed s)"

definition reader_inv :: "'a lq_sys \<Rightarrow> bool" where
  "reader_inv s \<longleftrightarrow> (case rd s of
     R_Check i \<Rightarrow> i = length (popped s) mod capacity s
   | R_Rollback i \<Rightarrow> i = length (popped s) mod capacity s
   | R_Copy i \<Rightarrow> i = length (popped s) mod capacity s \<and> state_of s i = META_STATE_READY
   | R_Free i \<Rightarrow> 0 < length (popped s) \<and> i = (length (popped s) - 1) mod capacity s
   | _ \<Rightarrow> True)"

definition lq_inv :: "nat \<Rightarrow> 'a lq_sys \<Rightarrow> bool" where
  "lq_inv n s \<longleftrightarrow> ring_shape (buf s) \<and> length (wpcs s) = n \<and>
     capacity s + n + 1 < 2 ^ 64 \<and>
     count_inv s \<and> owner_inv s \<and> cell_inv s \<and> reader_inv s"

lemma set_w_sel [simp]:
  "buf (set_w k p s) = buf s" "rd (set_w k p s) = rd s" "claimed (set_w k p s) = claimed s"
  "popped (set_w k p s) = popped s" "wpcs (set_w k p s) = (wpcs s)[k := p]"
  by (simp_all add: set_w_def)

lemma pc_sum_upd [simp]:
  "pc_sum c (s\<lparr>buf := b\<rparr>) = pc_sum c s" "pc_sum c (s\<lparr>rd := r\<rparr>) = pc_sum c s"
  "pc_sum c (s\<lparr>claimed := xs\<rparr>) = pc_sum c s" "pc_sum c (s\<lparr>popped := xs\<rparr>) = pc_sum c s"
  by (simp_all add: pc_sum_def)

lemma pc_sum_set_w_upd [simp]:
  "pc_sum c (set_w k p (s\<lparr>buf := b\<rparr>)) = pc_sum c (set_w k p s)"
  "pc_sum c (set_w k p (s\<lparr>claimed := xs\<rparr>)) = pc_sum c (set_w k p s)"
  by (simp_all add: pc_sum_def)

lemma pc_sum_set_w:
  "k < length (wpcs s) \<Longrightarrow> pc_sum c (set_w k p s) + c (wpcs s ! k) = pc_sum c s + c p"
proof -
  have "k < length ws \<Longrightarrow> sum_list (map c (ws[k := p])) + c (ws ! k) = sum_list (map c ws) + c p"
    for ws
    by (induction ws arbitrary: k) (auto split: nat.splits)
  then show "k < length (wpcs s) \<Longrightarrow> ?thesis" by (simp add: pc_sum_def)
qed

lemma pc_sum_ge: "k < length (wpcs s) \<Longrightarrow> c (wpcs s ! k) \<le> pc_sum c s"
  using elem_le_sum_list [of k "map c (wpcs s)"] by (simp add: pc_sum_def)

lemma pc_sum_canc_le: "pc_sum w_canc s \<le> length (wpcs s)"
proof -
  have one: "w_canc p \<le> 1" for p :: "'a wpc" by (cases p) auto
  have "sum_list (map w_canc ws) \<le> length ws" for ws :: "'a wpc list"
  proof (induction ws)
    case (Cons p ws)
    from add_mono [OF one [of p] Cons.IH] show ?case by simp
  qed simp
  then show ?thesis by (simp add: pc_sum_def)
qed

lemma owner_invD:
  "owner_inv s \<Longrightarrow> k < length (wpcs s) \<Longrightarrow> w_owns (wpcs s ! k) = Some (x, i) \<Longrightarrow>
     owner_ok s (wpcs s ! k) x i"
  by (simp add: owner_inv_def)

lemma owner_inv_apart:
  "owner_inv s \<Longrightarrow> k < length (wpcs s) \<Longrightarrow> w_owns (wpcs s ! k) = Some (x, i) \<Longrightarrow>
     l < length (wpcs s) \<Longrightarrow> l \<noteq> k \<Longrightarrow> w_owns (wpcs s ! l) \<noteq> Some (y, i)"
  unfolding owner_inv_def by blast

lemma w_count:
  assumes inv: "lq_inv n s" and k: "k < length (wpcs s)" and step: "w_step k s s'"
  shows "count_inv s'"
proof -
  note T = pc_sum_set_w [OF k, of w_resv] pc_sum_set_w [OF k, of w_canc]
    pc_sum_set_w [OF k, of w_unposted]
  note G = pc_sum_ge [OF k, of w_resv] pc_sum_ge [OF k, of w_canc] pc_sum_ge [OF k, of w_unposted]
  have C: "count_inv s" and cap: "capacity s + n + 1 < 2 ^ 64" "length (wpcs s) = n"
    "0 < capacity s"
    using inv by (auto simp: lq_inv_def ring_shape_def)
  from step show ?thesis
  proof cases
    case (w_reserve prev x)
    have "unat prev \<le> capacity s + pc_sum w_canc s"
      using C w_reserve by (simp add: count_inv_def)
    then have "unat prev + 1 < 2 ^ 64" using cap pc_sum_canc_le [of s] by linarith
    then have inc: "unat (prev + 1) = unat prev + 1"
      using unat_add_nowrap [of prev 1] by simp
    show ?thesis
    proof (cases "prev < lq_size (buf s)")
      case True
      then have "unat prev < capacity s" by (simp add: word_less_nat_alt)
      then show ?thesis
        using C w_reserve inc True T [of "W_Load x"] G
        by (simp add: count_inv_def)
    next
      case False
      then show ?thesis
        using C w_reserve inc T [of W_Cancel]
        by (simp add: count_inv_def)
    qed
  next
    case w_cancel
    then show ?thesis using C G T [of W_Idle] unat_dec [of "lq_used (buf s)"]
      by (simp add: count_inv_def)
  next
    case (w_load x)
    then show ?thesis using C T [of "W_Cas x (lq_tail (buf s))"] by (simp add: count_inv_def)
  next
    case (w_cas x)
    have "unat (lq_tail (buf s)) < capacity s" using C cap by (simp add: count_inv_def)
    from unat_next_index [OF this]
    show ?thesis using w_cas C G T [of "W_Check x (unat (lq_tail (buf s)))"]
      by (simp add: count_inv_def mod_Suc_eq)
  next
    case (w_cas_fail x u)
    then show ?thesis using C T [of "W_Load x"] by (simp add: count_inv_def)
  next
    case (w_check x i)
    then show ?thesis using C T [of "W_Copy x i"] by (simp add: count_inv_def)
  next
    case (w_check_fail x i)
    then have "owner_ok s (wpcs s ! k) x i"
      using inv owner_invD [OF _ k, of x i] by (simp add: lq_inv_def)
    with w_check_fail show ?thesis by (simp add: owner_ok_def)
  next
    case (w_copy x i y)
    then show ?thesis using C T [of "W_Torn x i"] by (simp add: count_inv_def)
  next
    case (w_torn x i)
    then show ?thesis using C T [of "W_Ready x i"] by (simp add: count_inv_def)
  next
    case (w_ready x i)
    then show ?thesis using C T [of W_Post] by (simp add: count_inv_def)
  next
    case w_post
    then show ?thesis using C G cap T [of W_Idle] unat_dec [of "lq_unavailableRead (buf s)"]
      by (simp add: count_inv_def)
  qed
qed

lemma r_count:
  assumes inv: "lq_inv n s" and step: "r_step s s'"
  shows "count_inv s'"
proof -
  have C: "count_inv s" and cap: "capacity s + n + 1 < 2 ^ 64" "0 < capacity s"
    and rd: "reader_inv s"
    using inv by (auto simp: lq_inv_def ring_shape_def)
  from step show ?thesis
  proof cases
    case (r_reserve prev)
    then have "unat prev \<le> capacity s" using C by (simp add: count_inv_def)
    then have "unat prev + 1 < 2 ^ 64" using cap by linarith
    then have inc: "unat (prev + 1) = unat prev + 1"
      using unat_add_nowrap [of prev 1] by simp
    show ?thesis
    proof (cases "prev < lq_size (buf s)")
      case True
      then have "unat prev < capacity s" by (simp add: word_less_nat_alt)
      then show ?thesis using C r_reserve inc True by (simp add: count_inv_def)
    next
      case False
      then show ?thesis using C r_reserve inc by (simp add: count_inv_def)
    qed
  next
    case r_cancel
    then show ?thesis using C unat_dec [of "lq_unavailableRead (buf s)"] cap
      by (simp add: count_inv_def)
  next
    case r_cas
    have "unat (lq_head (buf s)) < capacity s" using C cap by (simp add: count_inv_def)
    from unat_next_index [OF this] show ?thesis
      using r_cas C by (simp add: count_inv_def mod_Suc_eq)
  next
    case (r_rollback i)
    have "i < capacity s" using r_rollback rd cap by (simp add: reader_inv_def)
    then have "unat (of_nat i :: size_t) = i" using cap
      by (simp add: unsigned_of_nat take_bit_nat_eq_self)
    then show ?thesis using C r_rollback rd by (simp add: count_inv_def reader_inv_def)
  next
    case r_post
    then show ?thesis using C unat_dec [of "lq_used (buf s)"] by (simp add: count_inv_def)
  qed (use C in \<open>simp_all add: count_inv_def\<close>)
qed

text \<open>Positions less than one lap apart are in different cells.\<close>

lemma window_inj:
  assumes "m mod N = m' mod N" "m < m' + N" "m' < m + (N::nat)"
  shows "m = m'"
proof (cases "m \<le> m'")
  case True
  moreover have "m' - m < N" using assms(3) True by linarith
  ultimately show ?thesis using ring_inj [of m 0 N "m' - m"] assms by simp
next
  case False
  moreover have "m - m' < N" using assms(2) False by linarith
  ultimately show ?thesis using ring_inj [of m' 0 N "m - m'"] assms by simp
qed

lemma owner_invI:
  assumes inv: "owner_inv s" and k: "k < length (wpcs s)" and w: "wpcs s' = (wpcs s)[k := p]"
    and others: "\<And>l x i. l < length (wpcs s) \<Longrightarrow> l \<noteq> k \<Longrightarrow> w_owns (wpcs s ! l) = Some (x, i) \<Longrightarrow>
      owner_ok s (wpcs s ! l) x i \<Longrightarrow> owner_ok s' (wpcs s ! l) x i"
    and own: "\<And>x i. w_owns p = Some (x, i) \<Longrightarrow> owner_ok s' p x i"
    and apart: "\<And>l x y i. w_owns p = Some (x, i) \<Longrightarrow> l < length (wpcs s) \<Longrightarrow> l \<noteq> k \<Longrightarrow>
      w_owns (wpcs s ! l) \<noteq> Some (y, i)"
    and p: "p \<noteq> W_Abort"
  shows "owner_inv s'"
proof -
  have 1: "owner_ok s' (wpcs s' ! l) x i"
    if "l < length (wpcs s')" "w_owns (wpcs s' ! l) = Some (x, i)" for l x i
    using that inv own others k by (cases "l = k") (auto simp: w owner_inv_def)
  have 2: "l = l'" if "l < length (wpcs s')" "l' < length (wpcs s')"
    "w_owns (wpcs s' ! l) = Some (x, i)" "w_owns (wpcs s' ! l') = Some (y, i)" for l l' x y i
    using that inv apart [of x i l'] apart [of y i l] k
    by (cases "l = k"; cases "l' = k") (auto simp: w owner_inv_def)
  have "W_Abort \<notin> set (wpcs s')"
    using inv p set_update_subset_insert [of "wpcs s" k p] by (auto simp: w owner_inv_def)
  with 1 2 show ?thesis unfolding owner_inv_def by blast
qed

text \<open>A step after which the writer owns what it owned before, without touching the cells.\<close>

lemma owner_inv_keep:
  assumes inv: "owner_inv s" and k: "k < length (wpcs s)"
    and p: "w_owns p = w_owns (wpcs s ! k)" "p \<noteq> W_Abort" "\<And>x i. p \<noteq> W_Ready x i"
    and b: "lq_entries b = lq_entries (buf s)" "lq_data b = lq_data (buf s)"
      "lq_size b = lq_size (buf s)"
  shows "owner_inv (set_w k p (s\<lparr>buf := b\<rparr>))"
proof (rule owner_invI [OF inv k, where p = p])
  fix x i assume "w_owns p = Some (x, i)"
  with p(1) owner_invD [OF inv k, of x i] have "owner_ok s (wpcs s ! k) x i" by simp
  with p b show "owner_ok (set_w k p (s\<lparr>buf := b\<rparr>)) p x i" by (simp add: owner_ok_def)
next
  fix l x y i assume "w_owns p = Some (x, i)" "l < length (wpcs s)" "l \<noteq> k"
  with p(1) show "w_owns (wpcs s ! l) \<noteq> Some (y, i)"
    using owner_inv_apart [OF inv k, of x i l] by simp
qed (use p b in \<open>auto simp: owner_ok_def\<close>)

lemma owned_keep:
  assumes "w_owns p = w_owns (wpcs s ! k)" "k < length (wpcs s)"
  shows "owned (set_w k p (s\<lparr>buf := b\<rparr>)) i = owned s i"
  using assms by (auto simp: owned_def nth_list_update)

lemma owned_mono:
  assumes "owned s j" "wpcs s' = (wpcs s)[k := p]"
    and "\<And>x. w_owns (wpcs s ! k) = Some (x, j) \<Longrightarrow> \<exists>y. w_owns p = Some (y, j)"
  shows "owned s' j"
proof -
  from assms(1) obtain l x where l: "l < length (wpcs s)" "w_owns (wpcs s ! l) = Some (x, j)"
    by (auto simp: owned_def)
  then have "\<exists>y. w_owns (wpcs s' ! l) = Some (y, j)"
    using assms(2,3) by (cases "l = k") auto
  with l assms(2) show ?thesis by (auto simp: owned_def)
qed

lemma owned_self: "k < length (wpcs s) \<Longrightarrow> wpcs s' = (wpcs s)[k := p] \<Longrightarrow>
    w_owns p = Some (x, j) \<Longrightarrow> owned s' j"
  by (auto simp: owned_def intro!: exI [of _ k])

lemma cell_inv_keep:
  assumes inv: "cell_inv s" and k: "k < length (wpcs s)"
    and p: "w_owns p = w_owns (wpcs s ! k)"
    and b: "lq_entries b = lq_entries (buf s)" "lq_data b = lq_data (buf s)"
      "lq_size b = lq_size (buf s)"
  shows "cell_inv (set_w k p (s\<lparr>buf := b\<rparr>))"
  using inv b by (simp add: cell_inv_def owned_keep [OF p k])

lemma reader_inv_keep:
  "lq_entries b = lq_entries (buf s) \<Longrightarrow> lq_size b = lq_size (buf s) \<Longrightarrow>
     reader_inv (set_w k p (s\<lparr>buf := b\<rparr>)) = reader_inv s"
  by (simp add: reader_inv_def cong: rpc.case_cong)

lemma inv_window:
  assumes "lq_inv n s"
  shows "length (claimed s) + pc_sum w_resv s + r_hold (rd s) \<le> capacity s + length (popped s)"
    "length (popped s) + r_res (rd s) \<le> length (claimed s)" "0 < capacity s"
  using assms by (auto simp: lq_inv_def count_inv_def ring_shape_def)

lemma unfreed_le_hold: "r_unfreed r \<le> r_hold r"
  by (cases r) auto

lemma owner_cell:
  assumes "owner_ok s p x i" "0 < capacity s" "ring_shape (buf s)"
  shows "i < capacity s" "i < length (lq_entries (buf s))" "i < length (lq_data (buf s))"
    "en_data (lq_entries (buf s) ! i) = i"
  using assms by (auto simp: owner_ok_def ring_shape_def)

text \<open>Winning the exchange on \<open>tail\<close>: the cell is free and nobody else's.\<close>

lemma w_cas_cells:
  assumes inv: "lq_inv n s" and k: "k < length (wpcs s)" and pc: "wpcs s ! k = W_Cas x u"
    and s': "s' = set_w k (W_Check x (unat (lq_tail (buf s))))
               (s\<lparr>buf := (buf s)\<lparr>lq_tail := t\<rparr>, claimed := claimed s @ [x]\<rparr>)"
  shows "owner_inv s' \<and> cell_inv s' \<and> reader_inv s'"
proof -
  define P T N i where "P = length (popped s)" and "T = length (claimed s)"
    and "N = capacity s" and "i = T mod N"
  have oi: "owner_inv s" and ci: "cell_inv s" and ri: "reader_inv s" and tail: "unat (lq_tail (buf s)) = i"
    using inv by (auto simp: lq_inv_def count_inv_def i_def T_def N_def)
  have "1 \<le> pc_sum w_resv s" using pc_sum_ge [OF k, of w_resv] pc by simp
  with inv_window [OF inv] have win: "T + r_hold (rd s) < P + N" "P \<le> T" "0 < N"
    by (auto simp: P_def T_def N_def)
  have free: "metadata_state (lq_entries (buf s) ! i) = META_STATE_FREE"
    using ci win(1) unfreed_le_hold [of "rd s"] unfolding cell_inv_def i_def
    by (simp add: P_def T_def N_def)
  have o': "owner_inv s'"
  proof (rule owner_invI [OF oi k])
    show "wpcs s' = (wpcs s)[k := W_Check x i]" by (simp add: s' tail)
  next
    fix l y j
    assume "owner_ok s (wpcs s ! l) y j"
    then obtain m where "P \<le> m" "m < T" "j = m mod N" "claimed s ! m = y"
      "metadata_state (lq_entries (buf s) ! j) = META_STATE_FREE"
      "wpcs s ! l = W_Ready y j \<longrightarrow> lq_data (buf s) ! j = y"
      by (auto simp: owner_ok_def P_def T_def N_def)
    then show "owner_ok s' (wpcs s ! l) y j"
      by (auto simp: owner_ok_def s' P_def T_def N_def nth_append intro!: exI [of _ m])
  next
    fix y j assume "w_owns (W_Check x i) = Some (y, j)"
    then show "owner_ok s' (W_Check x i) y j"
      using free win by (auto simp: owner_ok_def s' P_def T_def N_def i_def intro!: exI [of _ T])
  next
    fix l y z j
    assume j: "w_owns (W_Check x i) = Some (y, j)" and l: "l < length (wpcs s)" "l \<noteq> k"
    show "w_owns (wpcs s ! l) \<noteq> Some (z, j)"
    proof
      assume "w_owns (wpcs s ! l) = Some (z, j)"
      from owner_invD [OF oi l(1) this] obtain m where "P \<le> m" "m < T" "j = m mod N"
        by (auto simp: owner_ok_def P_def T_def N_def)
      with window_inj [of m N T] j win show False by (simp add: i_def)
    qed
  qed simp
  have w': "wpcs s' = (wpcs s)[k := W_Check x i]" by (simp add: s' tail)
  have own: "owned s' i" "\<And>j. owned s j \<Longrightarrow> owned s' j"
    using owned_self [OF k w', of x i] owned_mono [OF _ w'] pc by auto
  have c': "cell_inv s'"
    using ci own win
    unfolding cell_inv_def
    by (auto simp: s' P_def T_def N_def i_def nth_append less_Suc_eq simp del: set_w_sel(5))
  show ?thesis using o' c' ri by (simp add: reader_inv_def s' cong: rpc.case_cong)
qed

text \<open>A writer writes the object of the cell it owns.\<close>

lemma w_write_cells:
  assumes inv: "lq_inv n s" and k: "k < length (wpcs s)"
    and own: "w_owns (wpcs s ! k) = Some (x, i)" and p: "w_owns p = Some (x, i)" "p \<noteq> W_Abort"
      "p = W_Ready x i \<longrightarrow> y = x"
    and s': "s' = set_w k p (s\<lparr>buf := (buf s)\<lparr>lq_data :=
               (lq_data (buf s))[en_data (lq_entries (buf s) ! i) := y]\<rparr>\<rparr>)"
  shows "owner_inv s' \<and> cell_inv s' \<and> reader_inv s'"
proof -
  have oi: "owner_inv s" and ci: "cell_inv s" and ri: "reader_inv s" and rs: "ring_shape (buf s)"
    using inv by (auto simp: lq_inv_def)
  note ok = owner_invD [OF oi k own]
  note i = owner_cell [OF ok inv_window(3) [OF inv] rs]
  have o': "owner_inv s'"
  proof (rule owner_invI [OF oi k])
    show "wpcs s' = (wpcs s)[k := p]" by (simp add: s')
  next
    fix l z j assume l: "l < length (wpcs s)" "l \<noteq> k" "w_owns (wpcs s ! l) = Some (z, j)"
      and "owner_ok s (wpcs s ! l) z j"
    moreover from owner_inv_apart [OF oi k own l(1,2)] l(3) have "j \<noteq> i" by auto
    ultimately show "owner_ok s' (wpcs s ! l) z j"
      by (auto simp: owner_ok_def s' i)
  next
    fix z j assume "w_owns p = Some (z, j)"
    with ok p i show "owner_ok s' p z j" by (auto simp: owner_ok_def s')
  next
    fix l z y' j assume "w_owns p = Some (z, j)" "l < length (wpcs s)" "l \<noteq> k"
    with p owner_inv_apart [OF oi k own, of l] show "w_owns (wpcs s ! l) \<noteq> Some (y', j)" by auto
  qed (rule p(2))
  have "w_owns p = w_owns (wpcs s ! k)" using p own by simp
  note same = owned_keep [OF this k]
  have "metadata_state (lq_entries (buf s) ! i) \<noteq> META_STATE_READY"
    using ok by (simp add: owner_ok_def META_STATE_FREE_def META_STATE_READY_def)
  then have c': "cell_inv s'"
    using ci i by (auto simp: cell_inv_def s' same nth_list_update)
  show ?thesis using o' c' ri by (simp add: reader_inv_def s' cong: rpc.case_cong)
qed

lemma lq_set_state_metadata:
  "metadata_state (lq_entries (lq_set_state i v b) ! j) =
     (if j = i \<and> i < length (lq_entries b) then v else metadata_state (lq_entries b ! j))"
  by (cases "i < length (lq_entries b)")
    (auto simp: lq_set_state_def nth_list_update linorder_not_less list_update_beyond)

lemma lq_set_state_en_data [simp]:
  "en_data (lq_entries (lq_set_state i v b) ! j) = en_data (lq_entries b ! j)"
  by (cases "i < length (lq_entries b)"; cases "i = j")
    (auto simp: lq_set_state_def linorder_not_less list_update_beyond)

text \<open>A writer publishes the cell it owns.\<close>

lemma w_ready_cells:
  assumes inv: "lq_inv n s" and k: "k < length (wpcs s)" and pc: "wpcs s ! k = W_Ready x i"
    and s': "s' = set_w k W_Post (s\<lparr>buf := lq_set_state i META_STATE_READY (buf s)\<rparr>)"
  shows "owner_inv s' \<and> cell_inv s' \<and> reader_inv s'"
proof -
  have oi: "owner_inv s" and ci: "cell_inv s" and ri: "reader_inv s" and rs: "ring_shape (buf s)"
    using inv by (auto simp: lq_inv_def)
  have own: "w_owns (wpcs s ! k) = Some (x, i)" using pc by simp
  note ok = owner_invD [OF oi k own]
  note i = owner_cell [OF ok inv_window(3) [OF inv] rs]
  from ok obtain m where m: "length (popped s) \<le> m" "m < length (claimed s)"
    "i = m mod capacity s" "claimed s ! m = x" "lq_data (buf s) ! i = x"
    "metadata_state (lq_entries (buf s) ! i) = META_STATE_FREE"
    by (auto simp: owner_ok_def pc)
  note win = inv_window [OF inv]
  have o': "owner_inv s'"
  proof (rule owner_invI [OF oi k])
    show "wpcs s' = (wpcs s)[k := W_Post]" by (simp add: s')
  next
    fix l z j assume l: "l < length (wpcs s)" "l \<noteq> k" "w_owns (wpcs s ! l) = Some (z, j)"
      and "owner_ok s (wpcs s ! l) z j"
    moreover from owner_inv_apart [OF oi k own l(1,2)] l(3) have "j \<noteq> i" by auto
    ultimately show "owner_ok s' (wpcs s ! l) z j"
      by (auto simp: owner_ok_def s' lq_set_state_metadata)
  qed auto
  have w': "wpcs s' = (wpcs s)[k := W_Post]" by (simp add: s')
  have own': "owned s' j" if "owned s j" "j \<noteq> i" for j
    using owned_mono [OF that(1) w'] pc that(2) by simp
  have c': "cell_inv s'"
    unfolding cell_inv_def
  proof (intro conjI allI impI; (elim conjE)?)
    fix m' assume m': "length (popped s') \<le> m'" "m' < length (claimed s')"
    show "owned s' (m' mod capacity s') \<or> state_of s' m' = META_STATE_READY \<and>
      lq_data (buf s') ! (m' mod capacity s') = claimed s' ! m'"
    proof (cases "m' mod capacity s = i")
      case True
      with window_inj [of m' "capacity s" m] m m' win have "m' = m" by (simp add: s')
      then show ?thesis using m i by (simp add: s' lq_set_state_metadata)
    next
      case False
      with ci m' own' show ?thesis by (auto simp: cell_inv_def s' lq_set_state_metadata)
    qed
  next
    fix m' assume m': "length (claimed s') \<le> m'"
      "m' + r_unfreed (rd s') < length (popped s') + capacity s'"
    then have "m' mod capacity s \<noteq> i"
      using window_inj [of m' "capacity s" m] m by (auto simp: s')
    with ci m' show "state_of s' m' = META_STATE_FREE"
      by (simp add: cell_inv_def s' lq_set_state_metadata)
  qed (use ci in \<open>simp add: cell_inv_def s'\<close>)
  have "reader_inv s'" using ri
    by (auto simp: reader_inv_def s' lq_set_state_metadata split: rpc.split)
  with o' c' show ?thesis by simp
qed

text \<open>The reader's steps that leave the cells alone.\<close>

lemma r_idle_cells:
  assumes "owner_inv s \<and> cell_inv s"
    and "lq_entries b = lq_entries (buf s)" "lq_data b = lq_data (buf s)"
      "lq_size b = lq_size (buf s)" "r_unfreed r = r_unfreed (rd s)"
  shows "owner_inv (s\<lparr>buf := b, rd := r\<rparr>) \<and> cell_inv (s\<lparr>buf := b, rd := r\<rparr>)"
  using assms by (simp add: owner_inv_def owner_ok_def cell_inv_def owned_def)

text \<open>The reader takes the oldest object.\<close>

lemma r_copy_cells:
  assumes inv: "lq_inv n s" and pc: "rd s = R_Copy i"
    and s': "s' = s\<lparr>rd := R_Free i,
       popped := popped s @ [lq_data (buf s) ! en_data (lq_entries (buf s) ! i)]\<rparr>"
  shows "owner_inv s' \<and> cell_inv s' \<and> reader_inv s'"
proof -
  define P T N where "P = length (popped s)" and "T = length (claimed s)" and "N = capacity s"
  have oi: "owner_inv s" and ci: "cell_inv s" and rs: "ring_shape (buf s)"
    and i: "i = P mod N" "metadata_state (lq_entries (buf s) ! i) = META_STATE_READY"
    using inv pc inv_window(3) [OF inv] by (auto simp: lq_inv_def reader_inv_def P_def N_def)
  have win: "P < T" "0 < N" using inv_window [OF inv] pc by (auto simp: P_def T_def N_def)
  have en: "en_data (lq_entries (buf s) ! i) = i" using rs win by (simp add: ring_shape_def i N_def)
  have not_own: "\<not> owner_ok s p x i" for p x
    using i(2) by (simp add: owner_ok_def META_STATE_FREE_def META_STATE_READY_def)
  then have "\<not> owned s i" using oi unfolding owned_def owner_inv_def by blast
  then have data: "lq_data (buf s) ! i = claimed s ! P"
    using ci win i unfolding cell_inv_def by (auto simp: P_def T_def N_def)
  have later: "owner_ok s' p x j" if "owner_ok s p x j" for p x j
  proof -
    from that obtain m where m: "P \<le> m" "m < T" "j = m mod N" "claimed s ! m = x"
      by (auto simp: owner_ok_def P_def T_def N_def)
    moreover have "m \<noteq> P" using that not_own i(1) m(3) by auto
    ultimately show ?thesis using that
      by (auto simp: owner_ok_def s' P_def T_def N_def intro!: exI [of _ m])
  qed
  have "owner_inv s'" using oi later by (simp add: owner_inv_def s')
  moreover have "cell_inv s'"
    using ci win unfolding cell_inv_def
    by (auto simp: s' pc en data owned_def P_def T_def N_def take_Suc_conv_app_nth)
  moreover have "reader_inv s'" by (simp add: reader_inv_def s' i P_def N_def)
  ultimately show ?thesis by simp
qed

text \<open>The reader gives the cell back.\<close>

lemma r_free_cells:
  assumes inv: "lq_inv n s" and pc: "rd s = R_Free i"
    and s': "s' = s\<lparr>buf := lq_set_state i META_STATE_FREE (buf s), rd := R_Post\<rparr>"
  shows "owner_inv s' \<and> cell_inv s' \<and> reader_inv s'"
proof -
  define P T N where "P = length (popped s)" and "T = length (claimed s)" and "N = capacity s"
  have oi: "owner_inv s" and ci: "cell_inv s" and rs: "ring_shape (buf s)"
    and i: "i = (P - 1) mod N" "0 < P"
    using inv pc by (auto simp: lq_inv_def reader_inv_def P_def N_def)
  have win: "T < P + N" "P \<le> T" "0 < N"
    using inv_window [OF inv] pc by (auto simp: P_def T_def N_def)
  have iN: "i < length (lq_entries (buf s))" using rs win by (simp add: ring_shape_def i N_def)
  have ne: "m mod N \<noteq> i" if "P \<le> m" "m + 1 < P + N" for m
  proof
    assume "m mod N = i"
    moreover have "m < P - 1 + N" "P - 1 < m + N" using that i(2) win(3) by linarith+
    ultimately have "m = P - 1" using window_inj [of m N "P - 1"] i(1) by blast
    with that(1) i(2) show False by simp
  qed
  have "owner_inv s'"
    using oi by (auto simp: owner_inv_def owner_ok_def s' lq_set_state_metadata)
  moreover have "cell_inv s'"
    unfolding cell_inv_def
  proof (intro conjI allI impI; (elim conjE)?)
    fix m assume "length (popped s') \<le> m" "m < length (claimed s')"
    moreover from this have "m mod N \<noteq> i" using ne [of m] win by (simp add: s' P_def T_def)
    ultimately show "owned s' (m mod capacity s') \<or> state_of s' m = META_STATE_READY \<and>
      lq_data (buf s') ! (m mod capacity s') = claimed s' ! m"
      using ci by (auto simp: cell_inv_def s' owned_def N_def lq_set_state_metadata)
  next
    fix m assume m: "length (claimed s') \<le> m" "m + r_unfreed (rd s') < length (popped s') + capacity s'"
    show "state_of s' m = META_STATE_FREE"
    proof (cases "m mod N = i")
      case True
      then show ?thesis using iN by (simp add: s' N_def lq_set_state_metadata)
    next
      case False
      have "m + 1 \<noteq> P + N"
      proof
        assume "m + 1 = P + N"
        then have "m = P - 1 + N" using i(2) by simp
        then have "m mod N = i" using i(1) by simp
        with False show False by simp
      qed
      then have "m + 1 < P + N" using m by (simp add: s' P_def N_def)
      with m ci pc False show ?thesis
        by (simp add: cell_inv_def s' N_def P_def lq_set_state_metadata)
    qed
  qed (use ci in \<open>simp add: cell_inv_def s'\<close>)
  moreover have "reader_inv s'" by (simp add: reader_inv_def s')
  ultimately show ?thesis by simp
qed

lemma w_step_shape:
  assumes "w_step k s s'" "ring_shape (buf s)"
  shows "ring_shape (buf s')" "lq_size (buf s') = lq_size (buf s)"
    "length (wpcs s') = length (wpcs s)"
  using assms by (auto elim!: w_step.cases simp: ring_shape_def)

lemma w_step_inv:
  assumes inv: "lq_inv n s" and k: "k < length (wpcs s)" and step: "w_step k s s'"
  shows "lq_inv n s'"
proof -
  have oi: "owner_inv s" and ci: "cell_inv s" and ri: "reader_inv s" and rs: "ring_shape (buf s)"
    using inv by (auto simp: lq_inv_def)
  note keep = owner_inv_keep [OF oi k] cell_inv_keep [OF ci k]
  have "owner_inv s' \<and> cell_inv s' \<and> reader_inv s'"
    using step
  proof cases
    case (w_load x)
    then show ?thesis
      using keep(1) [of "W_Cas x (lq_tail (buf s))" "buf s"]
        keep(2) [of "W_Cas x (lq_tail (buf s))" "buf s"] ri
      by (simp add: reader_inv_keep [of "buf s" s, simplified])
  next
    case (w_cas x)
    with w_cas_cells [OF inv k, of x] show ?thesis by simp
  next
    case (w_cas_fail x u)
    then show ?thesis
      using keep(1) [of "W_Load x" "buf s"] keep(2) [of "W_Load x" "buf s"] ri
      by (simp add: reader_inv_keep [of "buf s" s, simplified])
  next
    case (w_check x i)
    then show ?thesis
      using keep(1) [of "W_Copy x i" "buf s"] keep(2) [of "W_Copy x i" "buf s"] ri
      by (simp add: reader_inv_keep [of "buf s" s, simplified])
  next
    case (w_check_fail x i)
    with owner_invD [OF oi k, of x i] show ?thesis by (simp add: owner_ok_def)
  next
    case (w_copy x i y)
    with w_write_cells [OF inv k, of x i "W_Torn x i" y] show ?thesis by simp
  next
    case (w_torn x i)
    with w_write_cells [OF inv k, of x i "W_Ready x i" x] show ?thesis by simp
  next
    case (w_ready x i)
    with w_ready_cells [OF inv k, of x i] show ?thesis by simp
  qed (use keep ri in \<open>simp_all add: reader_inv_keep split: if_split\<close>)
  then show ?thesis
    using inv w_count [OF inv k step] w_step_shape [OF step rs] by (simp add: lq_inv_def)
qed

lemma r_step_inv:
  assumes inv: "lq_inv n s" and step: "r_step s s'"
  shows "lq_inv n s'"
proof -
  have oi: "owner_inv s \<and> cell_inv s" and ri: "reader_inv s" and rs: "ring_shape (buf s)"
    and hd: "unat (lq_head (buf s)) = (length (popped s) + r_ahead (rd s)) mod capacity s"
    using inv by (auto simp: lq_inv_def count_inv_def)
  note keep = r_idle_cells [OF oi] r_idle_cells [OF oi, of "buf s"]
  have "owner_inv s' \<and> cell_inv s' \<and> reader_inv s'"
    using step
  proof cases
    case (r_copy i)
    with r_copy_cells [OF inv] show ?thesis by simp
  next
    case (r_free i)
    with r_free_cells [OF inv] show ?thesis by simp
  qed (use keep ri hd in \<open>simp_all add: reader_inv_def split: if_split\<close>)
  moreover have "ring_shape (buf s') \<and> lq_size (buf s') = lq_size (buf s) \<and> wpcs s' = wpcs s"
    using step rs by (auto elim!: r_step.cases simp: ring_shape_def)
  ultimately show ?thesis
    using inv r_count [OF inv step] by (simp add: lq_inv_def)
qed

lemma lq_start_inv:
  assumes "lq_rep b []" "lq_head b = 0" "unat (lq_size b) + n + 1 < 2 ^ 64"
  shows "lq_inv n (lq_start b n)"
proof -
  have N: "0 < unat (lq_size b)" "ring_shape b"
    using assms(1) by (auto simp: lq_rep_def ring_shape_def)
  have sum: "pc_sum c (lq_start b n) = n * c W_Idle" for c :: "'a wpc \<Rightarrow> nat"
    by (simp add: pc_sum_def lq_start_def sum_list_replicate)
  have "count_inv (lq_start b n)"
    using assms N by (simp add: count_inv_def sum lq_rep_def) (simp add: lq_start_def)
  moreover have "owner_inv (lq_start b n)"
    by (auto simp: owner_inv_def lq_start_def)
  moreover have "cell_inv (lq_start b n)"
    using assms by (simp add: cell_inv_def lq_rep_def lq_start_def)
  ultimately show ?thesis using assms N
    by (simp add: lq_inv_def reader_inv_def) (simp add: lq_start_def)
qed

lemma lq_reachable_inv:
  assumes "lq_reachable s0 s" "lq_inv n s0"
  shows "lq_inv n s"
  using assms
proof (induction rule: lq_reachable.induct)
  case (lq_writer s k s')
  then show ?case using w_step_inv by blast
next
  case (lq_reader s s')
  then show ?case using r_step_inv by blast
qed

lemma lq_reachable_start_inv:
  assumes "malloc_entries (entries * 16) = Some es" "malloc_data (entry_size * entries) = Some ds"
    and "length es = unat entries" "length ds = unat entries" "0 < entries"
    and "lq_init malloc_entries malloc_data entry_size entries = Some b"
    and "unat entries + n + 1 < 2 ^ 64" "lq_reachable (lq_start b n) s"
  shows "lq_inv n s" "lq_size (buf s) = entries"
proof -
  have "0 < unat entries" using assms(5) by (simp add: word_less_nat_alt)
  with assms lq_init_run [of malloc_entries entries es malloc_data entry_size ds]
  have b: "lq_rep b []" "lq_size b = entries" "lq_head b = 0" by auto
  show "lq_inv n s"
    using lq_reachable_inv [OF assms(8)] lq_start_inv [OF b(1,3)] assms(7) b(2) by simp
  have "lq_size (buf t) = lq_size (buf (lq_start b n))" if "lq_reachable (lq_start b n) t" for t
    using that
    by (induction rule: lq_reachable.induct) (auto elim!: w_step.cases r_step.cases)
  from this [OF assms(8)] b show "lq_size (buf s) = entries" by (simp add: lq_start_def)
qed

section \<open>Running one thread alone\<close>

text \<open>
  One step of a writer, or of the reader, in which a compare-and-exchange succeeds whenever it
  can: one of the steps the relations allow, used to run schedules and to show that a thread
  is never stuck.  What is proved of the calls is proved of the relations.
\<close>

definition w_exec :: "nat \<Rightarrow> 'a \<Rightarrow> 'a lq_sys \<Rightarrow> 'a lq_sys" where
  "w_exec k x s = (case wpcs s ! k of
     W_Idle \<Rightarrow> set_w k (if lq_used (buf s) < lq_size (buf s) then W_Load x else W_Cancel)
                (s\<lparr>buf := (buf s)\<lparr>lq_used := lq_used (buf s) + 1\<rparr>\<rparr>)
   | W_Cancel \<Rightarrow> set_w k W_Idle (s\<lparr>buf := (buf s)\<lparr>lq_used := lq_used (buf s) - 1\<rparr>\<rparr>)
   | W_Load y \<Rightarrow> set_w k (W_Cas y (lq_tail (buf s))) s
   | W_Cas y old \<Rightarrow> if old = lq_tail (buf s)
       then set_w k (W_Check y (unat (lq_tail (buf s))))
              (s\<lparr>buf := (buf s)\<lparr>lq_tail := (lq_tail (buf s) + 1) mod lq_size (buf s)\<rparr>,
                 claimed := claimed s @ [y]\<rparr>)
       else set_w k (W_Load y) s
   | W_Check y i \<Rightarrow> if metadata_state (lq_entries (buf s) ! i) = META_STATE_FREE
       then set_w k (W_Copy y i) s
       else set_w k W_Abort (s\<lparr>buf := (buf s)\<lparr>lq_used := lq_used (buf s) - 1\<rparr>\<rparr>)
   | W_Copy y i \<Rightarrow> set_w k (W_Torn y i)
       (s\<lparr>buf := (buf s)\<lparr>lq_data := (lq_data (buf s))[en_data (lq_entries (buf s) ! i) := y]\<rparr>\<rparr>)
   | W_Torn y i \<Rightarrow> set_w k (W_Ready y i)
       (s\<lparr>buf := (buf s)\<lparr>lq_data := (lq_data (buf s))[en_data (lq_entries (buf s) ! i) := y]\<rparr>\<rparr>)
   | W_Ready y i \<Rightarrow> set_w k W_Post (s\<lparr>buf := lq_set_state i META_STATE_READY (buf s)\<rparr>)
   | W_Post \<Rightarrow> set_w k W_Idle
       (s\<lparr>buf := (buf s)\<lparr>lq_unavailableRead := lq_unavailableRead (buf s) - 1\<rparr>\<rparr>)
   | W_Abort \<Rightarrow> s)"

definition r_exec :: "'a lq_sys \<Rightarrow> 'a lq_sys" where
  "r_exec s = (case rd s of
     R_Idle \<Rightarrow> s\<lparr>buf := (buf s)\<lparr>lq_unavailableRead := lq_unavailableRead (buf s) + 1\<rparr>,
                 rd := if lq_unavailableRead (buf s) < lq_size (buf s) then R_Load else R_Cancel\<rparr>
   | R_Cancel \<Rightarrow> s\<lparr>buf := (buf s)\<lparr>lq_unavailableRead := lq_unavailableRead (buf s) - 1\<rparr>,
                   rd := R_Idle\<rparr>
   | R_Load \<Rightarrow> s\<lparr>rd := R_Cas (lq_head (buf s))\<rparr>
   | R_Cas old \<Rightarrow> if old = lq_head (buf s)
       then s\<lparr>buf := (buf s)\<lparr>lq_head := (lq_head (buf s) + 1) mod lq_size (buf s)\<rparr>,
              rd := R_Check (unat (lq_head (buf s)))\<rparr>
       else s\<lparr>rd := R_Load\<rparr>
   | R_Check i \<Rightarrow> s\<lparr>rd := if metadata_state (lq_entries (buf s) ! i) \<noteq> META_STATE_READY
                          then R_Rollback i else R_Copy i\<rparr>
   | R_Rollback i \<Rightarrow> s\<lparr>buf := (buf s)\<lparr>lq_head := of_nat i\<rparr>, rd := R_Cancel\<rparr>
   | R_Copy i \<Rightarrow> s\<lparr>rd := R_Free i,
       popped := popped s @ [lq_data (buf s) ! en_data (lq_entries (buf s) ! i)]\<rparr>
   | R_Free i \<Rightarrow> s\<lparr>buf := lq_set_state i META_STATE_FREE (buf s), rd := R_Post\<rparr>
   | R_Post \<Rightarrow> s\<lparr>buf := (buf s)\<lparr>lq_used := lq_used (buf s) - 1\<rparr>, rd := R_Idle\<rparr>)"

lemma w_exec_step: "wpcs s ! k \<noteq> W_Abort \<Longrightarrow> w_step k s (w_exec k x s)"
  using w_reserve [of s k "lq_used (buf s)" x]
  by (cases "wpcs s ! k") (auto simp: w_exec_def intro: w_step.intros)

lemma r_exec_step: "r_step s (r_exec s)"
  using r_reserve [of s "lq_unavailableRead (buf s)"] r_check [of s]
  by (cases "rd s") (auto simp: r_exec_def intro: r_step.intros)

text \<open>How many steps a call in progress still takes when its thread runs undisturbed and no exchange
  fails without cause.\<close>

definition w_left :: "nat \<Rightarrow> 'a lq_sys \<Rightarrow> nat" where
  "w_left k s = (case wpcs s ! k of
     W_Idle \<Rightarrow> 0 | W_Cancel \<Rightarrow> 1 | W_Load y \<Rightarrow> 7
   | W_Cas y old \<Rightarrow> (if old = lq_tail (buf s) then 6 else 8)
   | W_Check y i \<Rightarrow> 5 | W_Copy y i \<Rightarrow> 4 | W_Torn y i \<Rightarrow> 3 | W_Ready y i \<Rightarrow> 2 | W_Post \<Rightarrow> 1
   | W_Abort \<Rightarrow> 0)"

definition r_left :: "'a lq_sys \<Rightarrow> nat" where
  "r_left s = (case rd s of
     R_Idle \<Rightarrow> 0 | R_Cancel \<Rightarrow> 1 | R_Load \<Rightarrow> 6
   | R_Cas old \<Rightarrow> (if old = lq_head (buf s) then 5 else 7)
   | R_Check i \<Rightarrow> 4 | R_Rollback i \<Rightarrow> 2 | R_Copy i \<Rightarrow> 3 | R_Free i \<Rightarrow> 2 | R_Post \<Rightarrow> 1)"

lemma inv_no_abort: "lq_inv n s \<Longrightarrow> k < n \<Longrightarrow> wpcs s ! k \<noteq> W_Abort"
  by (metis lq_inv_def nth_mem owner_inv_def)

lemma w_left_le: "w_left k s \<le> 8"
  by (simp add: w_left_def split: wpc.split)

lemma r_left_le: "r_left s \<le> 7"
  by (simp add: r_left_def split: rpc.split)

text \<open>
  A run of writer \<open>k\<close> alone, up to the return of the call it is in.  The two numbers are the
  steps taken and, among them, the exchanges that failed although \<open>tail\<close> still had the word
  read, which \<open>atomic_compare_exchange_weak\<close> is free to do.
\<close>

definition w_spurious :: "nat \<Rightarrow> 'a lq_sys \<Rightarrow> 'a lq_sys \<Rightarrow> bool" where
  "w_spurious k s t = (case wpcs s ! k of
     W_Cas x old \<Rightarrow> old = lq_tail (buf s) \<and> (case wpcs t ! k of W_Load y \<Rightarrow> True | _ \<Rightarrow> False)
   | _ \<Rightarrow> False)"

inductive w_run :: "nat \<Rightarrow> nat \<Rightarrow> nat \<Rightarrow> 'a lq_sys \<Rightarrow> 'a lq_sys \<Rightarrow> bool" for k :: nat where
  w_run_start: "w_run k 0 0 s s"
| w_run_step: "w_run k m f s t \<Longrightarrow> wpcs t ! k \<noteq> W_Idle \<Longrightarrow> w_step k t u \<Longrightarrow>
     w_run k (Suc m) (f + of_bool (w_spurious k t u)) s u"

definition r_spurious :: "'a lq_sys \<Rightarrow> 'a lq_sys \<Rightarrow> bool" where
  "r_spurious s t = (case rd s of R_Cas old \<Rightarrow> old = lq_head (buf s) \<and> rd t = R_Load | _ \<Rightarrow> False)"

inductive r_run :: "nat \<Rightarrow> nat \<Rightarrow> 'a lq_sys \<Rightarrow> 'a lq_sys \<Rightarrow> bool" where
  r_run_start: "r_run 0 0 s s"
| r_run_step: "r_run m f s t \<Longrightarrow> rd t \<noteq> R_Idle \<Longrightarrow> r_step t u \<Longrightarrow>
     r_run (Suc m) (f + of_bool (r_spurious t u)) s u"

lemma w_step_left:
  assumes inv: "lq_inv n s" and k: "k < n" and pc: "wpcs s ! k \<noteq> W_Idle" and st: "w_step k s t"
  shows "w_left k t < w_left k s + 2 * of_bool (w_spurious k s t)"
proof -
  have len: "k < length (wpcs s)" using inv k by (simp add: lq_inv_def)
  have "metadata_state (lq_entries (buf s) ! i) = META_STATE_FREE"
    if "wpcs s ! k = W_Check y i" for y i
    using owner_invD [OF _ len, of y i] inv that by (simp add: lq_inv_def owner_ok_def)
  note free = this
  from st show ?thesis
  proof cases
    case (w_check_fail x i)
    with free show ?thesis by blast
  next
    case w_reserve
    with pc show ?thesis by blast
  qed (use len in \<open>simp_all add: w_left_def w_spurious_def\<close>)
qed

lemma w_run_bound:
  assumes "w_run k m f s t" "lq_inv n s" "k < n"
  shows "lq_inv n t \<and> m + w_left k t \<le> w_left k s + 2 * f"
  using assms
proof (induction rule: w_run.induct)
  case (w_run_step m f s t u)
  then have inv: "lq_inv n t" and le: "m + w_left k t \<le> w_left k s + 2 * f" by auto
  have len: "k < length (wpcs t)" using inv w_run_step.prems by (simp add: lq_inv_def)
  from w_step_left [OF inv w_run_step.prems(2) w_run_step.hyps(2,3)] le
    w_step_inv [OF inv len w_run_step.hyps(3)]
  show ?case by simp
qed simp

lemma w_exec_not_spurious:
  "k < length (wpcs s) \<Longrightarrow> \<not> w_spurious k s (w_exec k x s)"
  by (cases "wpcs s ! k") (auto simp: w_spurious_def w_exec_def)

lemma r_step_left:
  "rd s \<noteq> R_Idle \<Longrightarrow> r_step s t \<Longrightarrow> r_left t < r_left s + 2 * of_bool (r_spurious s t)"
  by (erule r_step.cases) (auto simp: r_left_def r_spurious_def)

lemma r_run_bound: "r_run m f s t \<Longrightarrow> m + r_left t \<le> r_left s + 2 * f"
proof (induction rule: r_run.induct)
  case (r_run_step m f s t u)
  from r_step_left [OF r_run_step.hyps(2,3)] r_run_step.IH show ?case by simp
qed simp

lemma r_exec_not_spurious: "\<not> r_spurious s (r_exec s)"
  by (cases "rd s") (auto simp: r_spurious_def r_exec_def)

text \<open>Between calls the buffer holds exactly what was claimed and not yet popped.\<close>

lemma quiescent_rep:
  assumes inv: "lq_inv n s" and idle: "\<forall>k < n. wpcs s ! k = W_Idle" "rd s = R_Idle"
  shows "lq_rep (buf s) (drop (length (popped s)) (claimed s))"
proof -
  define P T N where "P = length (popped s)" and "T = length (claimed s)" and "N = capacity s"
  have w: "wpcs s = replicate n W_Idle"
    using inv idle(1) by (simp add: lq_inv_def list_eq_iff_nth_eq)
  have sum: "pc_sum c s = n * c W_Idle" for c
    by (simp add: pc_sum_def w sum_list_replicate)
  have no: "\<not> owned s i" for i by (simp add: owned_def w)
  have C: "count_inv s" and ci: "cell_inv s" and rs: "ring_shape (buf s)"
    using inv by (auto simp: lq_inv_def)
  have cnt: "unat (lq_used (buf s)) + P = T" "T \<le> N + P" "P \<le> T"
    "unat (lq_unavailableRead (buf s)) + T = N + P"
    "unat (lq_tail (buf s)) = T mod N" "unat (lq_head (buf s)) = P mod N"
    using C idle(2) by (auto simp: count_inv_def sum P_def T_def N_def)
  have N: "0 < N" using rs by (simp add: ring_shape_def N_def)
  have ix: "(P mod N + j) mod N = (P + j) mod N" for j by (simp add: mod_add_left_eq)
  have ready: "state_of s (P + j) = META_STATE_READY" "lq_data (buf s) ! ((P + j) mod N) = claimed s ! (P + j)"
    if "j < T - P" for j
    using ci no that cnt by (auto simp: cell_inv_def P_def T_def N_def)
  have free: "state_of s (P + j) = META_STATE_FREE" if "\<not> j < T - P" "j < N" for j
    using ci idle(2) that cnt(3) by (auto simp: cell_inv_def P_def T_def N_def)
  show ?thesis
    unfolding lq_rep_def P_def [symmetric] N_def [symmetric] cnt(5,6) ix
    using rs N cnt ready free
    by (auto simp: T_def [symmetric] N_def [symmetric])
qed

text \<open>Running a schedule: \<open>Some (k, x)\<close> lets writer \<open>k\<close> take a step (pushing \<open>x\<close> next), \<open>None\<close> the reader.\<close>

primrec lq_sched :: "(nat \<times> 'a) option list \<Rightarrow> 'a lq_sys \<Rightarrow> 'a lq_sys" where
  "lq_sched [] s = s"
| "lq_sched (c # cs) s =
     lq_sched cs (case c of None \<Rightarrow> r_exec s | Some (k, x) \<Rightarrow> w_exec k x s)"

lemma lq_sched_reachable:
  assumes "lq_reachable s0 s" "lq_inv n s" "\<forall>k x. Some (k, x) \<in> set cs \<longrightarrow> k < n"
  shows "lq_reachable s0 (lq_sched cs s)"
  using assms
proof (induction cs arbitrary: s)
  case (Cons c cs)
  let ?t = "case c of None \<Rightarrow> r_exec s | Some (k, x) \<Rightarrow> w_exec k x s"
  have "lq_reachable s0 ?t \<and> lq_inv n ?t"
  proof (cases c)
    case None
    then show ?thesis
      using lq_reader [OF Cons.prems(1) r_exec_step] r_step_inv [OF Cons.prems(2) r_exec_step]
      by simp
  next
    case (Some a)
    then obtain k x where c: "c = Some (k, x)" by (cases a) auto
    then have k: "k < n" using Cons.prems(3) by auto
    have len: "k < length (wpcs s)" using Cons.prems(2) k by (simp add: lq_inv_def)
    note step = w_exec_step [OF inv_no_abort [OF Cons.prems(2) k], of x]
    show ?thesis
      using lq_writer [OF Cons.prems(1) len step] w_step_inv [OF Cons.prems(2) len step] c by simp
  qed
  with Cons.IH [of ?t] Cons.prems(3) show ?case by auto
qed simp

section \<open>Properties\<close>

text \<open>
  C5: Whatever the interleaving of \<open>n\<close> writers and the one reader, the assertion of
  \<open>lq_request_entry_write\<close> never fails, and what the reader has copied out is a prefix of
  the objects in the order in which the writers claimed their cells: no object is lost,
  repeated, reordered or read while it is being written.  At most \<open>entries\<close> objects are in
  the ring.
\<close>

theorem lq_threads_fifo:
  assumes "malloc_entries (entries * 16) = Some es" "malloc_data (entry_size * entries) = Some ds"
    and "length es = unat entries" "length ds = unat entries" "0 < entries"
    and "lq_init malloc_entries malloc_data entry_size entries = Some b"
    and "unat entries + n + 1 < 2 ^ 64" "lq_reachable (lq_start b n) s"
  shows "W_Abort \<notin> set (wpcs s) \<and>
    (\<exists>rest. claimed s = popped s @ rest \<and> length rest \<le> unat entries)"
proof -
  note inv = lq_reachable_start_inv [OF assms]
  have "claimed s = popped s @ drop (length (popped s)) (claimed s)"
    using inv(1) by (metis lq_inv_def cell_inv_def append_take_drop_id)
  moreover have "length (drop (length (popped s)) (claimed s)) \<le> unat entries"
    using inv_window(1) [OF inv(1)] inv(2) by simp
  ultimately show ?thesis using inv(1) unfolding lq_inv_def owner_inv_def by blast
qed

definition demo_sched :: "(nat \<times> nat) option list" where
  "demo_sched = [Some (0, 10), Some (1, 11), Some (0, 10), Some (1, 11), Some (1, 11)]
     @ replicate 8 (Some (0, 10)) @ replicate 6 None @ replicate 5 (Some (1, 11)) @ replicate 5 None"

definition demo_queue :: "nat lq_buffer" where
  "demo_queue = \<lparr>lq_entries = [\<lparr>metadata_state = 0, en_data = 0\<rparr>, \<lparr>metadata_state = 0, en_data = 1\<rparr>],
     lq_data = [41, 42], lq_size = 2, lq_entrySize = 48, lq_head = 0, lq_tail = 0, lq_used = 0,
     lq_unavailableRead = 2\<rparr>"

lemma demo_queue_entries:
  "lq_init_entries (replicate 2 \<lparr>metadata_state = 7, en_data = 9\<rparr>) 2 =
     Some [\<lparr>metadata_state = 0, en_data = 0\<rparr>, \<lparr>metadata_state = 0, en_data = 1\<rparr>]"
  by (simp add: numeral_2_eq_2 META_STATE_FREE_def)

lemma demo_queue_init: "lq_init demo_malloc_entries demo_malloc_data 48 2 = Some demo_queue"
  using demo_queue_entries
  by (simp add: lq_init_def demo_malloc_entries_def demo_malloc_data_def demo_queue_def)

lemma demo_sched_run:
  "popped (lq_sched demo_sched (lq_start demo_queue 2)) = [11] \<and>
   claimed (lq_sched demo_sched (lq_start demo_queue 2)) = [11, 10]"
  by code_simp

lemma demo_reachable:
  assumes "\<forall>k x. Some (k, x) \<in> set cs \<longrightarrow> k < 2"
  shows "lq_reachable (lq_start demo_queue 2) (lq_sched cs (lq_start demo_queue 2))"
proof (rule lq_sched_reachable [OF lq_init_state _ assms])
  show "lq_inv 2 (lq_start demo_queue 2)"
  proof (rule lq_start_inv)
    show "lq_rep demo_queue []"
      using lq_init_run [of demo_malloc_entries 2 "replicate 2 \<lparr>metadata_state = 7, en_data = 9\<rparr>"
        demo_malloc_data 48 "[41, 42]"] demo_queue_init
      by (simp add: demo_malloc_entries_def demo_malloc_data_def)
  qed (simp_all add: demo_queue_def)
qed

lemma demo_sched_reachable:
  "lq_reachable (lq_start demo_queue 2) (lq_sched demo_sched (lq_start demo_queue 2))"
  by (rule demo_reachable) (auto simp: demo_sched_def)

lemma lq_threads_fifo_witness:
  "\<exists>s rest. lq_reachable (lq_start demo_queue 2) s \<and> popped s = [11] \<and>
     claimed s = [11] @ rest \<and> length rest \<le> 2 \<and> W_Abort \<notin> set (wpcs s)"
  using lq_threads_fifo [OF _ _ _ _ _ demo_queue_init _ demo_sched_reachable,
      of "replicate 2 \<lparr>metadata_state = 7, en_data = 9\<rparr>" "[41, 42]"]
    demo_sched_run demo_sched_reachable
  by (auto simp: demo_malloc_entries_def demo_malloc_data_def)

text \<open>
  C25: No call waits for another thread.  In every reachable state, when one thread runs
  alone, the call it is in returns: a writer takes at most eight steps, the reader at most
  seven, and two more for each time the weak compare-and-exchange fails without cause, which
  the model allows at every attempt.  Until the call has returned the thread always has a
  step to take that is not such a failure, so the call returns unless the exchange fails
  for ever; a thread stopped in the middle of its own call blocks nobody.
\<close>

theorem lq_calls_return:
  assumes "malloc_entries (entries * 16) = Some es" "malloc_data (entry_size * entries) = Some ds"
    and "length es = unat entries" "length ds = unat entries" "0 < entries"
    and "lq_init malloc_entries malloc_data entry_size entries = Some b"
    and "unat entries + n + 1 < 2 ^ 64" "lq_reachable (lq_start b n) s" "k < n"
  shows "(\<forall>m f t. w_run k m f s t \<longrightarrow> m \<le> 8 + 2 * f \<and>
      (wpcs t ! k = W_Idle \<or> (\<exists>u. w_step k t u \<and> \<not> w_spurious k t u))) \<and>
    (\<forall>m f t. r_run m f s t \<longrightarrow> m \<le> 7 + 2 * f \<and>
      (rd t = R_Idle \<or> (\<exists>u. r_step t u \<and> \<not> r_spurious t u)))"
proof (intro conjI allI impI)
  note inv = lq_reachable_start_inv(1) [OF assms(1-8)]
  fix m f t
  assume run: "w_run k m f s t"
  note b = w_run_bound [OF run inv assms(9)]
  show "m \<le> 8 + 2 * f" using b w_left_le [of k s] by linarith
  have len: "k < length (wpcs t)" using b assms(9) by (simp add: lq_inv_def)
  show "wpcs t ! k = W_Idle \<or> (\<exists>u. w_step k t u \<and> \<not> w_spurious k t u)"
    by (rule disjI2, rule exI, rule conjI, rule w_exec_step [OF inv_no_abort [OF conjunct1 [OF b] assms(9)]],
        rule w_exec_not_spurious [OF len])
next
  fix m f t
  assume "r_run m f s t"
  from r_run_bound [OF this] show "m \<le> 7 + 2 * f" using r_left_le [of s] by linarith
  show "rd t = R_Idle \<or> (\<exists>u. r_step t u \<and> \<not> r_spurious t u)"
    by (rule disjI2, rule exI, rule conjI, rule r_exec_step, rule r_exec_not_spurious)
qed

lemma lq_calls_return_witness:
  "\<exists>s. lq_reachable (lq_start demo_queue 2) s \<and> popped s = [11] \<and>
     (\<forall>m f t. w_run 1 m f s t \<longrightarrow> m \<le> 8 + 2 * f \<and>
        (wpcs t ! 1 = W_Idle \<or> (\<exists>u. w_step 1 t u \<and> \<not> w_spurious 1 t u))) \<and>
     (\<forall>m f t. r_run m f s t \<longrightarrow> m \<le> 7 + 2 * f \<and>
        (rd t = R_Idle \<or> (\<exists>u. r_step t u \<and> \<not> r_spurious t u)))"
proof -
  have "unat (2 :: size_t) + 2 + 1 < 2 ^ 64" "(1 :: nat) < 2" "(0 :: size_t) < 2" by simp_all
  from lq_calls_return [OF _ _ _ _ this(3) demo_queue_init this(1) demo_sched_reachable this(2),
      of "replicate 2 \<lparr>metadata_state = 7, en_data = 9\<rparr>" "[41, 42]"]
    demo_sched_run demo_sched_reachable
  show ?thesis by (simp add: demo_malloc_entries_def demo_malloc_data_def) blast
qed

text \<open>
  Once all threads are between calls, the buffer is again a sequential queue and holds
  exactly the objects claimed and not yet popped, oldest first, so that the next
  \<open>lq_pop\<close> calls return them in that order.
\<close>

theorem lq_threads_quiescent:
  assumes "malloc_entries (entries * 16) = Some es" "malloc_data (entry_size * entries) = Some ds"
    and "length es = unat entries" "length ds = unat entries" "0 < entries"
    and "lq_init malloc_entries malloc_data entry_size entries = Some b"
    and "unat entries + n + 1 < 2 ^ 64" "lq_reachable (lq_start b n) s"
    and "\<forall>k < n. wpcs s ! k = W_Idle" "rd s = R_Idle"
  shows "lq_rep (buf s) (drop (length (popped s)) (claimed s)) \<and> lq_size (buf s) = entries"
  using quiescent_rep [OF lq_reachable_start_inv(1) [OF assms(1-8)] assms(9,10)]
    lq_reachable_start_inv(2) [OF assms(1-8)] by simp

definition demo_sched2 :: "(nat \<times> nat) option list" where
  "demo_sched2 = demo_sched @ [None, None]"

lemma demo_sched2_run:
  "popped (lq_sched demo_sched2 (lq_start demo_queue 2)) = [11] \<and>
   claimed (lq_sched demo_sched2 (lq_start demo_queue 2)) = [11, 10] \<and>
   wpcs (lq_sched demo_sched2 (lq_start demo_queue 2)) = [W_Idle, W_Idle] \<and>
   rd (lq_sched demo_sched2 (lq_start demo_queue 2)) = R_Idle"
  by code_simp

lemma demo_sched2_reachable:
  "lq_reachable (lq_start demo_queue 2) (lq_sched demo_sched2 (lq_start demo_queue 2))"
  by (rule demo_reachable) (auto simp: demo_sched2_def demo_sched_def)

lemma lq_threads_quiescent_witness:
  "\<exists>s. lq_reachable (lq_start demo_queue 2) s \<and> lq_rep (buf s) [10] \<and> lq_size (buf s) = 2"
proof -
  have idle: "\<forall>k < 2. wpcs (lq_sched demo_sched2 (lq_start demo_queue 2)) ! k = W_Idle"
    using demo_sched2_run by (auto simp: less_2_cases_iff)
  show ?thesis
    using lq_threads_quiescent [OF _ _ _ _ _ demo_queue_init _ demo_sched2_reachable idle,
        of "replicate 2 \<lparr>metadata_state = 7, en_data = 9\<rparr>" "[41, 42]"]
      demo_sched2_run demo_sched2_reachable
    by (auto simp: demo_malloc_entries_def demo_malloc_data_def)
qed

end
