(* ===== verification/Memkind_Extents.thy ===== *)
theory Memkind_Extents
  imports Prelude
begin

unbundle bit_operations_syntax

text \<open>
  How kinds obtain address space from the kernel: \<open>memkind_default_mmap\<close>
  (\<open>src/src/memkind_default.c\<close>), the extents of arenas (\<open>src/src/memkind_arena.c\<close>) and the
  file-backed extents of persistent memory (\<open>src/src/memkind_pmem.c\<close>).  The address space maps
  every mapped byte to what backs it.
\<close>

section \<open>The kernel\<close>

datatype backing = Anon | File nat nat

type_synonym vm = "nat \<rightharpoonup> backing"

abbreviation MAP_FAILED :: ptr where
  "MAP_FAILED \<equiv> None"

text \<open>
  The answers of the kernel: where \<open>mmap\<close> places a mapping for a hint and a size,
  \<open>posix_fallocate\<close>, the descriptor and the file that \<open>mkstemp\<close> creates, the result and
  \<open>errno\<close> of \<open>madvise\<close>, and whether \<open>munmap\<close> succeeds: it may fail, for want of memory, when it has
  to split a mapping.
\<close>

record kern =
  k_mmap :: "ptr \<Rightarrow> size_t \<Rightarrow> vm \<Rightarrow> ptr"
  k_fallocate :: "int \<Rightarrow> int \<Rightarrow> int \<Rightarrow> int"
  k_mkstemp :: "vm \<Rightarrow> (int \<times> nat) option"
  k_madvise :: "addr \<Rightarrow> size_t \<Rightarrow> int \<times> int"
  k_munmap :: "addr \<Rightarrow> size_t \<Rightarrow> vm \<Rightarrow> bool"

definition PAGE_SIZE :: nat where
  "PAGE_SIZE = 4096"

definition region :: "addr \<Rightarrow> size_t \<Rightarrow> nat set" where
  "region a n = {unat a ..< unat a + round_up PAGE_SIZE (unat n)}"

definition sys_mmap :: "kern \<Rightarrow> ptr \<Rightarrow> size_t \<Rightarrow> (nat \<Rightarrow> backing) \<Rightarrow> vm \<Rightarrow> ptr \<times> vm" where
  "sys_mmap K hint n b v = (case k_mmap K hint n v of
     None \<Rightarrow> (MAP_FAILED, v)
   | Some a \<Rightarrow> (Some a, \<lambda>x. if x \<in> region a n then Some (b (x - unat a)) else v x))"

text \<open>\<open>munmap\<close> rejects an unaligned address, such as \<open>MAP_FAILED\<close>, and the length 0.\<close>

definition sys_munmap :: "kern \<Rightarrow> ptr \<Rightarrow> size_t \<Rightarrow> vm \<Rightarrow> bool \<times> vm" where
  "sys_munmap K p n v = (case p of
     None \<Rightarrow> (False, v)
   | Some a \<Rightarrow> if PAGE_SIZE dvd unat a \<and> n \<noteq> 0 \<and> k_munmap K a n v
       then (True, v |` (- region a n)) else (False, v))"

section \<open>Kinds and their operations\<close>

datatype mmap_fn = MMAP_NULL | MMAP_GBTLB | MMAP_PMEM

text \<open>
  The operations of a kind that the extents use.  An operation that is \<open>NULL\<close> is
  \<^term>\<open>None\<close>; the others are given by what they return.
\<close>

record extent_ops =
  mmap_op :: mmap_fn
  get_mmap_flags :: "int option"
  mbind_op :: "(ptr \<Rightarrow> size_t \<Rightarrow> int) option"
  madvise_op :: "(ptr \<Rightarrow> size_t \<Rightarrow> int) option"
  check_available :: "int option"

text \<open>
  \<open>struct memkind_pmem\<close>.  \<open>pm_file\<close> is the file behind the descriptor.  \<open>pm_dir\<close> is
  \<^term>\<open>None\<close> if the copied path has no terminating zero.
\<close>

record memkind_pmem =
  pm_fd :: int
  pm_file :: nat
  pm_offset :: "64 word"
  pm_max_size :: size_t
  pm_current_size :: size_t
  pm_dir :: "string option"

definition memkind_check_available :: "extent_ops \<Rightarrow> int" where
  "memkind_check_available ops = (case check_available ops of None \<Rightarrow> 0 | Some err \<Rightarrow> err)"

text \<open>A policy call of \<open>memkind_default_mmap\<close>: on an error the mapping is released.\<close>

definition apply_or_unmap ::
  "kern \<Rightarrow> (ptr \<Rightarrow> size_t \<Rightarrow> int) option \<Rightarrow> size_t \<Rightarrow> ptr \<times> vm \<Rightarrow> ptr \<times> vm" where
  "apply_or_unmap K f n rv = (case rv of (result, v) \<Rightarrow> (case f of
     None \<Rightarrow> (result, v)
   | Some g \<Rightarrow> if g result n \<noteq> 0 then (MAP_FAILED, snd (sys_munmap K result n v)) else (result, v)))"

definition memkind_default_mmap :: "kern \<Rightarrow> extent_ops \<Rightarrow> ptr \<Rightarrow> size_t \<Rightarrow> vm \<Rightarrow> ptr \<times> vm" where
  "memkind_default_mmap K ops hint n v =
     (let err = (case get_mmap_flags ops of None \<Rightarrow> 0 | Some e \<Rightarrow> e);
          (result, v) = (if err = 0 then sys_mmap K hint n (\<lambda>_. Anon) v else (MAP_FAILED, v))
      in if err = 0 \<and> result = MAP_FAILED then (MAP_FAILED, v)
         else apply_or_unmap K (madvise_op ops) n (apply_or_unmap K (mbind_op ops) n (result, v)))"

section \<open>Files of persistent memory\<close>

definition MEMKIND_ERROR_INVALID :: int where "MEMKIND_ERROR_INVALID = -13"
definition PATH_MAX :: nat where "PATH_MAX = 4096"
definition EFBIG :: int where "EFBIG = 27"
definition EOPNOTSUPP :: int where "EOPNOTSUPP = 95"

definition memkind_pmem_create_tmpfile :: "kern \<Rightarrow> string \<Rightarrow> vm \<Rightarrow> int \<times> (int \<times> nat) option" where
  "memkind_pmem_create_tmpfile K dir v =
     (if length dir > PATH_MAX then (MEMKIND_ERROR_INVALID, None)
      else case k_mkstemp K v of
        None \<Rightarrow> (MEMKIND_ERROR_INVALID, None)
      | Some f \<Rightarrow> (0, Some f))"

text \<open>Reading an unterminated path is undefined behaviour.  The descriptor of a new file that
  cannot be extended stays open.\<close>

definition memkind_pmem_recreate_file :: "kern \<Rightarrow> memkind_pmem \<Rightarrow> size_t \<Rightarrow> vm \<Rightarrow> (int \<times> memkind_pmem) option" where
  "memkind_pmem_recreate_file K P n v = do {
     dir \<leftarrow> pm_dir P;
     Some (case memkind_pmem_create_tmpfile K dir v of
       (err, None) \<Rightarrow> (-1, P)
     | (err, Some (fd, f)) \<Rightarrow>
         if k_fallocate K fd 0 (sint n) \<noteq> 0 then (-1, P)
         else (0, P\<lparr>pm_fd := fd, pm_file := f, pm_offset := 0\<rparr>)) }"

text \<open>Make room for \<open>n\<close> bytes at the offset, in a new file when the current one is too large.\<close>

definition pmem_extend_file :: "kern \<Rightarrow> memkind_pmem \<Rightarrow> size_t \<Rightarrow> vm \<Rightarrow> (int \<times> memkind_pmem) option" where
  "pmem_extend_file K P n v =
     (let e = k_fallocate K (pm_fd P) (sint (pm_offset P)) (sint n)
      in if e \<noteq> 0 then if e = EFBIG then memkind_pmem_recreate_file K P n v else Some (-1, P)
         else Some (0, P))"

definition memkind_pmem_mmap :: "kern \<Rightarrow> memkind_pmem \<Rightarrow> size_t \<Rightarrow> vm \<Rightarrow> (ptr \<times> memkind_pmem \<times> vm) option" where
  "memkind_pmem_mmap K P n v =
     (if pm_max_size P \<noteq> 0 \<and> pm_current_size P + n > pm_max_size P then Some (MAP_FAILED, P, v)
      else do {
        (status, P) \<leftarrow> pmem_extend_file K P n v;
        Some (if status \<noteq> 0 then (MAP_FAILED, P, v)
          else case sys_mmap K NULL n (\<lambda>i. File (pm_file P) (unat (pm_offset P) + i)) v of
            (None, v) \<Rightarrow> (MAP_FAILED, P, v)
          | (Some a, v) \<Rightarrow> (Some a,
              P\<lparr>pm_offset := pm_offset P + n, pm_current_size := pm_current_size P + n\<rparr>, v)) })"

definition ONE_GB :: size_t where
  "ONE_GB = 1073741824"

definition memkind_gbtlb_ceil_size :: "size_t \<Rightarrow> size_t" where
  "memkind_gbtlb_ceil_size n = (if n mod ONE_GB \<noteq> 0 then (n div ONE_GB + 1) * ONE_GB else n)"

definition gbtlb_mmap :: "kern \<Rightarrow> extent_ops \<Rightarrow> ptr \<Rightarrow> size_t \<Rightarrow> vm \<Rightarrow> ptr \<times> vm" where
  "gbtlb_mmap K ops hint n v = memkind_default_mmap K ops hint (memkind_gbtlb_ceil_size n) v"

definition kind_mmap :: "kern \<Rightarrow> extent_ops \<Rightarrow> memkind_pmem \<Rightarrow> ptr \<Rightarrow> size_t \<Rightarrow> vm \<Rightarrow>
    (ptr \<times> memkind_pmem \<times> vm) option" where
  "kind_mmap K ops P hint n v = (case mmap_op ops of
     MMAP_NULL \<Rightarrow> (case memkind_default_mmap K ops hint n v of (r, v) \<Rightarrow> Some (r, P, v))
   | MMAP_GBTLB \<Rightarrow> (case gbtlb_mmap K ops hint n v of (r, v) \<Rightarrow> Some (r, P, v))
   | MMAP_PMEM \<Rightarrow> memkind_pmem_mmap K P n v)"

section \<open>Extents of arenas\<close>

text \<open>Release the head and the tail of a mapping around an aligned extent.\<close>

definition trim_extent :: "kern \<Rightarrow> addr \<Rightarrow> addr \<Rightarrow> size_t \<Rightarrow> size_t \<Rightarrow> vm \<Rightarrow> vm" where
  "trim_extent K a aligned_addr n extended_size v =
     (let head_len = aligned_addr - a;
          v = (if head_len > 0 then snd (sys_munmap K (Some a) head_len v) else v);
          tail_addr = aligned_addr + n;
          tail_len = (a + extended_size) - (aligned_addr + n)
      in if tail_len > 0 then snd (sys_munmap K (Some tail_addr) tail_len v) else v)"

definition alloc_aligned_slow :: "kern \<Rightarrow> extent_ops \<Rightarrow> memkind_pmem \<Rightarrow> size_t \<Rightarrow> size_t \<Rightarrow> vm \<Rightarrow>
    (ptr \<times> memkind_pmem \<times> vm) option" where
  "alloc_aligned_slow K ops P n alignment v = do {
     let extended_size = n + alignment;
     (p, P, v) \<leftarrow> kind_mmap K ops P NULL extended_size v;
     (case p of
        None \<Rightarrow> Some (NULL, P, v)
      | Some a \<Rightarrow>
          let aligned_addr = (a + alignment) AND NOT (alignment - 1)
          in Some (Some aligned_addr, P, trim_extent K a aligned_addr n extended_size v)) }"

definition arena_extent_alloc :: "kern \<Rightarrow> extent_ops \<Rightarrow> memkind_pmem \<Rightarrow> ptr \<Rightarrow> size_t \<Rightarrow> size_t \<Rightarrow> vm \<Rightarrow>
    (ptr \<times> memkind_pmem \<times> vm) option" where
  "arena_extent_alloc K ops P new_addr n alignment v =
     (if memkind_check_available ops \<noteq> 0 then Some (NULL, P, v)
      else do {
        (p, P, v) \<leftarrow> kind_mmap K ops P new_addr n v;
        (case p of
           None \<Rightarrow> Some (NULL, P, v)
         | Some a \<Rightarrow>
             if new_addr \<noteq> NULL \<and> p \<noteq> new_addr then Some (NULL, P, snd (sys_munmap K p n v))
             else if a AND (alignment - 1) \<noteq> 0
             then alloc_aligned_slow K ops P n alignment (snd (sys_munmap K p n v))
             else Some (p, P, v)) })"

definition HUGE_PAGE_SIZE :: size_t where
  "HUGE_PAGE_SIZE = 0x200000"

definition arena_extent_alloc_hugetlb :: "kern \<Rightarrow> extent_ops \<Rightarrow> memkind_pmem \<Rightarrow> ptr \<Rightarrow> size_t \<Rightarrow> size_t \<Rightarrow> vm \<Rightarrow>
    (ptr \<times> memkind_pmem \<times> vm) option" where
  "arena_extent_alloc_hugetlb K ops P new_addr n alignment v =
     arena_extent_alloc K ops P new_addr ((n + (HUGE_PAGE_SIZE - 1)) AND NOT (HUGE_PAGE_SIZE - 1)) alignment v"

section \<open>Extents of persistent memory\<close>

text \<open>\<open>kd\<close> is what \<open>get_kind_by_arena\<close> returns for the arena.\<close>

definition pmem_extent_alloc :: "kern \<Rightarrow> (extent_ops \<times> memkind_pmem) option \<Rightarrow> ptr \<Rightarrow> size_t \<Rightarrow> vm \<Rightarrow>
    (ptr \<times> memkind_pmem option \<times> vm) option" where
  "pmem_extent_alloc K kd new_addr n v =
     (if new_addr \<noteq> NULL then Some (NULL, map_option snd kd, v)
      else case kd of
        None \<Rightarrow> Some (NULL, None, v)
      | Some (ops, P) \<Rightarrow>
          if memkind_check_available ops \<noteq> 0 then Some (NULL, Some P, v)
          else do {
            (a, P, v) \<leftarrow> memkind_pmem_mmap K P n v;
            Some (a, Some P, v) })"

definition pmem_extent_dalloc :: "kern \<Rightarrow> memkind_pmem option \<Rightarrow> addr \<Rightarrow> size_t \<Rightarrow> vm \<Rightarrow>
    (bool \<times> memkind_pmem option \<times> vm) option" where
  "pmem_extent_dalloc K kd a n v = do {
     let (status, e) = k_madvise K a n;
     kd \<leftarrow> (if status = 0
        then do {
          P \<leftarrow> kd;
          c_assert (pm_current_size P \<ge> n);
          Some (Some (P\<lparr>pm_current_size := pm_current_size P - n\<rparr>)) }
        else do { c_assert (e \<noteq> EOPNOTSUPP); Some kd });
     let (ok, v) = sys_munmap K (Some a) n v;
     Some (\<not> ok, kd, v) }"

definition pmem_extent_dalloc_hog_memory :: "vm \<Rightarrow> bool \<times> vm" where
  "pmem_extent_dalloc_hog_memory v = (True, v)"

definition pmem_extent_destroy :: "kern \<Rightarrow> addr \<Rightarrow> size_t \<Rightarrow> vm \<Rightarrow> vm" where
  "pmem_extent_destroy K a n v = snd (sys_munmap K (Some a) n v)"

end
