(* ===== verification/Memkind_Extents_Correct.thy ===== *)
theory Memkind_Extents_Correct
  imports Memkind_Extents
begin

unbundle bit_operations_syntax

text \<open>
  Extents never overlap: what an arena gets is aligned and was free, what is mapped already is
  never touched, and what a call maps beyond its extent it gives back unless the kernel refuses
  to unmap.  The bytes of a persistent-memory kind are backed by different bytes of its files,
  within the limit of the kind.
\<close>

section \<open>The address space\<close>

text \<open>A new mapping is aligned to a page and takes bytes that were free.\<close>

definition vm_spec :: "kern \<Rightarrow> bool" where
  "vm_spec K \<longleftrightarrow> (\<forall>hint n v a. k_mmap K hint n v = Some a \<longrightarrow>
     n \<noteq> 0 \<and> PAGE_SIZE dvd unat a \<and> unat a + round_up PAGE_SIZE (unat n) < 2 ^ 64 \<and>
     (\<forall>x\<in>region a n. v x = None))"

text \<open>Nothing above says that \<open>munmap\<close> succeeds; where it matters, it is this condition.\<close>

definition munmap_ok :: "kern \<Rightarrow> bool" where
  "munmap_ok K \<longleftrightarrow> (\<forall>a n v. k_munmap K a n v)"

definition bytes :: "addr \<Rightarrow> size_t \<Rightarrow> nat set" where
  "bytes a n = {unat a ..< unat a + unat n}"

text \<open>
  From \<open>v\<close> to \<open>v'\<close> the bytes \<open>A\<close> have been mapped anonymously.  No byte mapped before has
  changed, and other bytes have been mapped only if \<open>munmap\<close> can fail.
\<close>

definition granted :: "kern \<Rightarrow> nat set \<Rightarrow> vm \<Rightarrow> vm \<Rightarrow> bool" where
  "granted K A v v' \<longleftrightarrow> (\<forall>x. if x \<in> A then v x = None \<and> v' x = Some Anon
     else v' x = v x \<or> v x = None \<and> v' x = Some Anon \<and> \<not> munmap_ok K)"

lemma granted_refl: "granted K {} v v"
  by (simp add: granted_def)

lemma granted_trans:
  assumes "granted K {} v v1" "granted K A v1 v2"
  shows "granted K A v v2"
  unfolding granted_def
proof
  fix x
  show "if x \<in> A then v x = None \<and> v2 x = Some Anon
     else v2 x = v x \<or> v x = None \<and> v2 x = Some Anon \<and> \<not> munmap_ok K"
    using assms [unfolded granted_def, THEN spec [of _ x]] by (auto split: if_splits)
qed

lemma munmap_granted:
  assumes "granted K A v w" "region a n \<subseteq> A" "PAGE_SIZE dvd unat a" "n \<noteq> 0"
  shows "granted K (A - region a n) v (snd (sys_munmap K (Some a) n w))"
  unfolding granted_def
proof
  fix x
  show "if x \<in> A - region a n then v x = None \<and> snd (sys_munmap K (Some a) n w) x = Some Anon
     else snd (sys_munmap K (Some a) n w) x = v x \<or>
       v x = None \<and> snd (sys_munmap K (Some a) n w) x = Some Anon \<and> \<not> munmap_ok K"
    using assms(1) [unfolded granted_def, THEN spec [of _ x]] assms(2-)
    by (auto simp: sys_munmap_def munmap_ok_def restrict_map_def split: if_splits)
qed

lemma region_pages: "PAGE_SIZE dvd unat n \<Longrightarrow> region a n = bytes a n"
  by (simp add: region_def bytes_def round_up_eq PAGE_SIZE_def)

lemma mmap_facts:
  assumes "vm_spec K" "k_mmap K hint n v = Some a" "PAGE_SIZE dvd unat n"
  shows "n \<noteq> 0" "PAGE_SIZE dvd unat a" "unat a + unat n < 2 ^ 64" "\<forall>x\<in>bytes a n. v x = None"
proof -
  have "round_up PAGE_SIZE (unat n) = unat n" using assms(3) by (intro round_up_eq) (simp_all add: PAGE_SIZE_def)
  then show "n \<noteq> 0" "PAGE_SIZE dvd unat a" "unat a + unat n < 2 ^ 64" "\<forall>x\<in>bytes a n. v x = None"
    using assms(1,2) region_pages [OF assms(3), of a] unfolding vm_spec_def by metis+
qed

lemma sys_mmap_granted:
  assumes "vm_spec K"
  shows "(case sys_mmap K hint n (\<lambda>_. Anon) v of (None, w) \<Rightarrow> w = v
    | (Some a, w) \<Rightarrow> k_mmap K hint n v = Some a \<and> granted K (region a n) v w)"
proof (cases "k_mmap K hint n v")
  case (Some a)
  with assms have "\<forall>x\<in>region a n. v x = None" unfolding vm_spec_def by blast
  with Some show ?thesis by (simp add: sys_mmap_def granted_def)
qed (simp add: sys_mmap_def)

text \<open>What the kernel has been asked for, and what is left of it.\<close>

definition mmap_result :: "kern \<Rightarrow> ptr \<Rightarrow> size_t \<Rightarrow> vm \<Rightarrow> ptr \<times> vm \<Rightarrow> bool" where
  "mmap_result K hint n v rw \<longleftrightarrow> (case rw of (None, w) \<Rightarrow> granted K {} v w
     | (Some a, w) \<Rightarrow> k_mmap K hint n v = Some a \<and> granted K (region a n) v w)"

lemma apply_result:
  assumes "vm_spec K" "mmap_result K hint n v rw"
  shows "mmap_result K hint n v (apply_or_unmap K f n rw)"
proof (cases rw)
  case (Pair r w)
  show ?thesis
  proof (cases r)
    case None
    then show ?thesis using assms(2) Pair
      by (auto simp: mmap_result_def apply_or_unmap_def sys_munmap_def split: option.splits)
  next
    case (Some a)
    then have m: "k_mmap K hint n v = Some a" "granted K (region a n) v w"
      using assms(2) Pair by (simp_all add: mmap_result_def)
    then have "PAGE_SIZE dvd unat a" "n \<noteq> 0" using assms(1) unfolding vm_spec_def by blast+
    from munmap_granted [OF m(2) order_refl this] m show ?thesis
      by (simp add: mmap_result_def apply_or_unmap_def Pair Some split: option.split)
  qed
qed

lemma default_mmap_run:
  assumes "vm_spec K"
  shows "mmap_result K hint n v (memkind_default_mmap K ops hint n v)"
proof -
  note r = apply_result [OF assms]
  have f: "mmap_result K hint n v (MAP_FAILED, v)" by (simp add: mmap_result_def granted_refl)
  obtain p w where s: "sys_mmap K hint n (\<lambda>_. Anon) v = (p, w)" by fastforce
  have "mmap_result K hint n v (p, w)"
    using sys_mmap_granted [OF assms, where hint = hint and n = n and v = v] s granted_refl [of K v] f
    by (cases p) (auto simp: mmap_result_def)
  moreover have "p = None \<Longrightarrow> w = v" using sys_mmap_granted [OF assms, where hint = hint and n = n and v = v] s by simp
  ultimately show ?thesis using f s r
    by (auto simp: memkind_default_mmap_def Let_def split: option.split)
qed

section \<open>Aligned extents\<close>

lemma unat_p2: "j < 64 \<Longrightarrow> unat (2 ^ j :: addr) = 2 ^ j"
  using unat_of_nat [of "2 ^ j", where 'a = 64] power_strict_increasing [of j 64 "2 :: nat"] by simp

lemma align_up_word:
  fixes a :: addr
  assumes "j < 64" "unat a + 2 ^ j < 2 ^ 64"
  shows "unat ((a + 2 ^ j) AND NOT (2 ^ j - 1)) = (unat a + 2 ^ j) div 2 ^ j * 2 ^ j"
proof -
  have "unat (2 ^ j :: addr) = 2 ^ j" using assms(1) by (simp add: unat_p2)
  then have "unat (a + 2 ^ j) = unat a + 2 ^ j" using assms(2) by (simp add: unat_add_nowrap)
  moreover have "(2 ^ j - 1 :: addr) = mask j" by (simp add: mask_eq_exp_minus_1)
  ultimately show ?thesis using unat_and_not_mask [of j "a + 2 ^ j"] assms(1) by simp
qed

lemma align_up_bounds:
  fixes x A :: nat
  assumes "0 < A"
  shows "x < (x + A) div A * A" "(x + A) div A * A \<le> x + A"
  using div_mult_mod_eq [of "x + A" A] mod_less_divisor [OF assms, of "x + A"] by linarith+

lemma page_dvd_p2: "12 \<le> j \<Longrightarrow> PAGE_SIZE dvd 2 ^ j"
  using le_imp_power_dvd [of 12 j "2 :: nat"] by (simp add: PAGE_SIZE_def)

lemma trim_run:
  fixes a n :: addr
  assumes a: "PAGE_SIZE dvd unat a" and n: "PAGE_SIZE dvd unat n" and j: "12 \<le> j" "j < 64"
    and no: "unat a + unat n + 2 ^ j < 2 ^ 64" and g: "granted K (bytes a (n + 2 ^ j)) v w"
  defines "z \<equiv> (a + 2 ^ j) AND NOT (2 ^ j - 1)"
  shows "granted K (bytes z n) v (trim_extent K a z n (n + 2 ^ j) w)"
    and "2 ^ j dvd unat z" "unat z + unat n < 2 ^ 64"
proof -
  let ?x = "unat a" and ?A = "2 ^ j :: nat"
  have p2: "unat (2 ^ j :: addr) = ?A" by (rule unat_p2 [OF j(2)])
  have z: "unat z = (?x + ?A) div ?A * ?A" unfolding z_def by (rule align_up_word) (use j no in auto)
  have b: "?x < unat z" "unat z \<le> ?x + ?A" using align_up_bounds [of ?A ?x] by (simp_all only: z) simp_all
  show dz: "?A dvd unat z" by (simp add: z)
  have pz: "PAGE_SIZE dvd unat z" using dvd_trans [OF page_dvd_p2 [OF j(1)] dz] .
  show zn: "unat z + unat n < 2 ^ 64" using b no by linarith
  have e: "unat (n + 2 ^ j) = unat n + ?A" using no p2 by (simp add: unat_add_nowrap)
  define H L where "H = z - a" and "L = a + (n + 2 ^ j) - (z + n)"
  have h: "unat H = unat z - ?x" unfolding H_def using b(1) by (intro unat_diff_nowrap) (simp add: word_le_nat_alt)
  have t1: "unat (z + n) = unat z + unat n" using zn by (simp add: unat_add_nowrap)
  have t2: "unat (a + (n + 2 ^ j)) = ?x + unat n + ?A" using no e by (simp add: unat_add_nowrap)
  have t: "unat L = ?x + ?A - unat z"
    unfolding L_def using b t1 t2 by (subst unat_diff_nowrap) (simp_all add: word_le_nat_alt)
  have ph: "PAGE_SIZE dvd unat H" using a pz by (simp add: h)
  have pt: "PAGE_SIZE dvd unat L" unfolding t using a pz page_dvd_p2 [OF j(1)] by (intro dvd_diff_nat dvd_add)
  have ptn: "PAGE_SIZE dvd unat (z + n)" using pz n by (simp add: t1)
  have H: "H > 0" using b(1) by (simp add: word_less_nat_alt h)
  have rh: "region a H = {?x ..< unat z}" using b by (simp add: region_pages [OF ph] bytes_def h)
  have rt: "region (z + n) L = {unat z + unat n ..< ?x + unat n + ?A}"
  proof -
    have "unat z + unat n + (?x + ?A - unat z) = ?x + unat n + ?A" using b by linarith
    then show ?thesis by (simp only: region_pages [OF pt] bytes_def t t1)
  qed
  have all: "bytes a (n + 2 ^ j) = {?x ..< ?x + unat n + ?A}" by (simp add: bytes_def e add.assoc)
  have g1: "granted K ({?x ..< ?x + unat n + ?A} - {?x ..< unat z}) v (snd (sys_munmap K (Some a) H w))"
    using munmap_granted [OF g _ a, of H] H b unfolding rh all by (simp add: word_neq_0_conv)
  have d1: "{?x ..< ?x + unat n + ?A} - {?x ..< unat z} = {unat z ..< ?x + unat n + ?A}" using b by auto
  have d2: "{unat z ..< ?x + unat n + ?A} - {unat z + unat n ..< ?x + unat n + ?A} = bytes z n"
    using b by (auto simp: bytes_def)
  have g2: "granted K (bytes z n) v (snd (sys_munmap K (Some (z + n)) L (snd (sys_munmap K (Some a) H w))))" if "L \<noteq> 0"
    using munmap_granted [OF g1 [unfolded d1] _ ptn that] unfolding rt d2 by simp
  have "{unat z ..< ?x + unat n + ?A} = bytes z n" if "L = 0"
  proof -
    have "?x + unat n + ?A = unat z + unat n" using t b that by simp
    then show ?thesis by (simp only: bytes_def)
  qed
  then show "granted K (bytes z n) v (trim_extent K a z n (n + 2 ^ j) w)"
    using H g1 [unfolded d1] g2 by (cases "L = 0") (simp_all add: trim_extent_def Let_def L_def [symmetric] H_def [symmetric] word_neq_0_conv)
qed

lemma kind_mmap_run:
  assumes "vm_spec K" "mmap_op ops = MMAP_NULL"
  obtains r w where "kind_mmap K ops P hint n v = Some (r, P, w)" "mmap_result K hint n v (r, w)"
  using default_mmap_run [OF assms(1), where hint = hint and n = n and v = v and ops = ops] assms(2)
  by (cases "memkind_default_mmap K ops hint n v") (auto simp: kind_mmap_def)

text \<open>The result of an extent call: nothing, or an aligned extent.\<close>

definition extent_result :: "kern \<Rightarrow> nat \<Rightarrow> size_t \<Rightarrow> vm \<Rightarrow> ptr \<Rightarrow> vm \<Rightarrow> bool" where
  "extent_result K A n v r w \<longleftrightarrow> (case r of None \<Rightarrow> granted K {} v w
     | Some a \<Rightarrow> A dvd unat a \<and> unat a + unat n < 2 ^ 64 \<and> granted K (bytes a n) v w)"

lemma aligned_slow_run:
  fixes n :: size_t
  assumes K: "vm_spec K" "mmap_op ops = MMAP_NULL" and n: "PAGE_SIZE dvd unat n"
    and j: "12 \<le> j" "j < 64" and no: "unat n + 2 ^ j < 2 ^ 64"
  obtains r w where "alloc_aligned_slow K ops P n (2 ^ j) v = Some (r, P, w)" "extent_result K (2 ^ j) n v r w"
proof (rule kind_mmap_run [OF K, of P NULL "n + 2 ^ j" v])
  fix r w
  assume m: "kind_mmap K ops P NULL (n + 2 ^ j) v = Some (r, P, w)" "mmap_result K NULL (n + 2 ^ j) v (r, w)"
  show thesis
  proof (cases r)
    case None
    then show ?thesis using m that by (simp add: alloc_aligned_slow_def mmap_result_def extent_result_def)
  next
    case (Some a)
    have e: "unat (n + 2 ^ j) = unat n + 2 ^ j" using no unat_p2 [OF j(2)] by (simp add: unat_add_nowrap)
    have pe: "PAGE_SIZE dvd unat (n + 2 ^ j)" using n page_dvd_p2 [OF j(1)] by (simp add: e)
    have k: "k_mmap K NULL (n + 2 ^ j) v = Some a" "granted K (bytes a (n + 2 ^ j)) v w"
      using m(2) Some by (simp_all add: mmap_result_def region_pages [OF pe])
    have s: "PAGE_SIZE dvd unat a" "unat a + unat n + 2 ^ j < 2 ^ 64" using mmap_facts [OF K(1) k(1) pe] e by simp_all
    show ?thesis
      by (rule that, simp add: alloc_aligned_slow_def m(1) Some Let_def)
        (use trim_run [OF s(1) n j s(2) k(2)] in \<open>simp add: extent_result_def\<close>)
  qed
qed

lemma aligned_test:
  fixes a :: addr
  assumes "j < 64"
  shows "a AND (2 ^ j - 1) = 0 \<longleftrightarrow> 2 ^ j dvd unat a"
proof -
  have "a AND (2 ^ j - 1) = take_bit j a" by (simp add: take_bit_eq_mask flip: mask_eq_exp_minus_1)
  moreover have "unat (take_bit j a) = unat a mod 2 ^ j" by (simp add: unsigned_take_bit_eq flip: take_bit_eq_mod)
  ultimately show ?thesis by (metis dvd_eq_mod_eq_0 unat_eq_0)
qed

lemma extent_alloc_run:
  fixes n :: size_t
  assumes K: "vm_spec K" "mmap_op ops = MMAP_NULL" and n: "PAGE_SIZE dvd unat n"
    and j: "12 \<le> j" "j < 64" and no: "unat n + 2 ^ j < 2 ^ 64"
    and new: "\<forall>a. new_addr = Some a \<longrightarrow> 2 ^ j dvd unat a"
  shows "\<exists>r w. arena_extent_alloc K ops P new_addr n (2 ^ j) v = Some (r, P, w) \<and> extent_result K (2 ^ j) n v r w \<and>
    (r \<noteq> None \<and> new_addr \<noteq> NULL \<longrightarrow> r = new_addr)"
proof (cases "memkind_check_available ops = 0")
  case av: True
  from kind_mmap_run [OF K, of P new_addr n v] obtain r w where
    m: "kind_mmap K ops P new_addr n v = Some (r, P, w)" "mmap_result K new_addr n v (r, w)" by blast
  show ?thesis
  proof (cases r)
    case None
    then show ?thesis using m av by (simp add: arena_extent_alloc_def mmap_result_def extent_result_def)
  next
    case (Some a)
    have k: "k_mmap K new_addr n v = Some a" "granted K (region a n) v w" using m(2) Some by (simp_all add: mmap_result_def)
    note f = mmap_facts [OF K(1) k(1) n] and t = aligned_test [OF j(2), of a]
    have u: "granted K {} v (snd (sys_munmap K (Some a) n w))" using munmap_granted [OF k(2) order_refl f(2,1)] by simp
    consider "new_addr \<noteq> NULL" "Some a \<noteq> new_addr" | "2 ^ j dvd unat a" "new_addr = NULL \<or> new_addr = Some a"
      | "\<not> 2 ^ j dvd unat a" "new_addr = NULL"
      using new by fastforce
    then show ?thesis
    proof cases
      case 1
      then show ?thesis using av m(1) Some u by (simp add: arena_extent_alloc_def extent_result_def)
    next
      case 2
      then show ?thesis using av m(1) Some f k(2) t
        by (auto simp: arena_extent_alloc_def extent_result_def region_pages [OF n])
    next
      case 3
      from aligned_slow_run [OF K n j no, of P "snd (sys_munmap K (Some a) n w)"] obtain r' w' where
        s: "alloc_aligned_slow K ops P n (2 ^ j) (snd (sys_munmap K (Some a) n w)) = Some (r', P, w')"
        "extent_result K (2 ^ j) n (snd (sys_munmap K (Some a) n w)) r' w'" by blast
      then have "extent_result K (2 ^ j) n v r' w'"
        using granted_trans [OF u] by (auto simp: extent_result_def split: option.splits)
      then show ?thesis using 3 av m(1) Some s(1) t by (simp add: arena_extent_alloc_def)
    qed
  qed
next
  case False
  then show ?thesis by (simp add: arena_extent_alloc_def extent_result_def granted_refl)
qed

section \<open>Persistent memory\<close>

text \<open>
  \<open>pmem_inv P v S\<close>: the bytes \<open>S\<close> that a kind has handed out are backed by files, no two of
  them by the same byte of a file, those of the current file below its offset; their number is
  the current size, which respects the limit.
\<close>

definition pmem_inv :: "memkind_pmem \<Rightarrow> vm \<Rightarrow> nat set \<Rightarrow> bool" where
  "pmem_inv P v S \<longleftrightarrow> S \<subseteq> {..<2 ^ 64 - 1} \<and> (\<forall>x\<in>S. \<exists>f i. v x = Some (File f i)) \<and> inj_on v S \<and>
     (\<forall>x\<in>S. \<forall>i. v x = Some (File (pm_file P) i) \<longrightarrow> i < unat (pm_offset P)) \<and>
     card S = unat (pm_current_size P) \<and> (pm_max_size P \<noteq> 0 \<longrightarrow> pm_current_size P \<le> pm_max_size P) \<and>
     unat (pm_offset P) < 2 ^ 63"

text \<open>
  The path of the kind is read only to create a new file, when the current one has grown too
  large.  It then has to be terminated, which the code that stores it does not see to
  (\<open>memkind_create_pmem\<close> copies the path without its final zero).
\<close>

definition path_ok :: "kern \<Rightarrow> memkind_pmem \<Rightarrow> bool" where
  "path_ok K P \<longleftrightarrow> pm_dir P \<noteq> None \<or> (\<forall>fd off len. k_fallocate K fd off len \<noteq> EFBIG)"

text \<open>
  \<open>posix_fallocate\<close> succeeds only for a range within \<open>off_t\<close>, and \<open>mkstemp\<close> creates a file
  that backs no mapping yet.
\<close>

definition file_spec :: "kern \<Rightarrow> bool" where
  "file_spec K \<longleftrightarrow> (\<forall>fd off len. k_fallocate K fd off len = 0 \<longrightarrow> 0 \<le> off \<and> 0 < len \<and> off + len < 2 ^ 63) \<and>
     (\<forall>v fd f x i. k_mkstemp K v = Some (fd, f) \<longrightarrow> v x \<noteq> Some (File f i))"

lemma sint_nonneg:
  fixes w :: "64 word"
  assumes "0 \<le> sint w"
  shows "sint w = int (unat w)" "unat w < 2 ^ 63"
proof -
  define k where "k = uint w"
  have "take_bit 64 (uint w) = uint w" using uint_lt2p [of w] by (intro take_bit_int_eq_self) simp_all
  then have t: "take_bit (Suc 63) k = k" by (simp add: k_def)
  have s: "sint w = signed_take_bit 63 k" by (simp add: sint_uint k_def)
  then have nb: "\<not> bit k 63" using assms by (simp only: signed_take_bit_nonnegative_iff) simp
  then have b: "take_bit 63 k = k" using t by (simp only: take_bit_Suc_from_most) simp
  then show "sint w = int (unat w)" using signed_take_bit_eq_if_positive [OF nb] by (simp add: s k_def)
  have "k < 2 ^ 63" using take_bit_int_less_exp [of 63 k] by (simp only: b)
  then have "int (unat w) < int (2 ^ 63)" by (simp add: k_def)
  then show "unat w < 2 ^ 63" by (simp only: of_nat_less_iff)
qed

lemma extend_run:
  assumes K: "file_spec K" and inv: "pmem_inv P v S" and path: "path_ok K P"
  shows "\<exists>st P'. pmem_extend_file K P n v = Some (st, P') \<and> pmem_inv P' v S \<and>
    pm_max_size P' = pm_max_size P \<and> pm_current_size P' = pm_current_size P \<and> pm_dir P' = pm_dir P \<and>
    (st = 0 \<longrightarrow> unat (pm_offset P') + unat n < 2 ^ 63)"
proof -
  have fit: "unat off + unat n < 2 ^ 63" if "k_fallocate K fd (sint off) (sint n) = 0" for fd and off :: "64 word"
  proof -
    from that K have "0 \<le> sint off \<and> 0 < sint n \<and> sint off + sint n < 2 ^ 63" unfolding file_spec_def by blast
    then have b: "0 \<le> sint off" "0 \<le> sint n" "sint off + sint n < 2 ^ 63" by simp_all
    have "int (unat off) + int (unat n) < int (2 ^ 63)"
      using b(3) unfolding sint_nonneg(1) [OF b(1)] sint_nonneg(1) [OF b(2)] by simp
    then show ?thesis by (simp only: of_nat_add [symmetric] of_nat_less_iff)
  qed
  show ?thesis
  proof (cases "k_fallocate K (pm_fd P) (sint (pm_offset P)) (sint n) = 0")
    case True
    then show ?thesis using inv fit by (simp add: pmem_extend_file_def)
  next
    case False
    have new: "pmem_inv (P\<lparr>pm_fd := fd, pm_file := f, pm_offset := 0\<rparr>) v S" if "k_mkstemp K v = Some (fd, f)" for fd f
      using inv K that by (auto simp: pmem_inv_def file_spec_def)
    have "unat n < 2 ^ 63" if "k_fallocate K fd 0 (sint n) = 0" for fd
      using fit [of fd 0] that by simp
    then show ?thesis using False inv new path
      by (cases "pm_dir P") (auto simp: pmem_extend_file_def memkind_pmem_recreate_file_def
          memkind_pmem_create_tmpfile_def path_ok_def split: option.split prod.split)
  qed
qed

lemma map_file_run:
  fixes n :: size_t
  assumes K: "vm_spec K" and inv: "pmem_inv P v S" and n: "PAGE_SIZE dvd unat n" and a: "k_mmap K NULL n v = Some a"
    and off: "unat (pm_offset P) + unat n < 2 ^ 63"
    and lim: "pm_max_size P \<noteq> 0 \<longrightarrow> pm_current_size P + n \<le> pm_max_size P"
  defines "v' \<equiv> \<lambda>x. if x \<in> region a n then Some (File (pm_file P) (unat (pm_offset P) + (x - unat a))) else v x"
  shows "bytes a n \<inter> S = {}" "unat (pm_current_size P + n) = unat (pm_current_size P) + unat n"
    "pmem_inv (P\<lparr>pm_offset := pm_offset P + n, pm_current_size := pm_current_size P + n\<rparr>) v' (S \<union> bytes a n)"
proof -
  note m = mmap_facts [OF K a n]
  have S: "S \<subseteq> {..<2 ^ 64 - 1}" "\<And>x. x \<in> S \<Longrightarrow> \<exists>f i. v x = Some (File f i)" "inj_on v S"
    "\<And>x i. x \<in> S \<Longrightarrow> v x = Some (File (pm_file P) i) \<Longrightarrow> i < unat (pm_offset P)" "card S = unat (pm_current_size P)"
    using inv unfolding pmem_inv_def by blast+
  show dis: "bytes a n \<inter> S = {}" using S(2) m(4) by fastforce
  have fS: "finite S" using S(1) finite_subset by blast
  have sub: "S \<union> bytes a n \<subseteq> {..<2 ^ 64 - 1}" using S(1) m(3) by (auto simp: bytes_def)
  have cardU: "card (S \<union> bytes a n) = unat (pm_current_size P) + unat n"
    using card_Un_disjoint [OF fS, of "bytes a n"] dis S(5) by (simp add: bytes_def Int_commute)
  have "card (S \<union> bytes a n) \<le> card {..<2 ^ 64 - 1 :: nat}" by (rule card_mono [OF _ sub]) simp
  then have "unat (pm_current_size P) + unat n < 2 ^ 64" unfolding cardU by simp
  then show cur: "unat (pm_current_size P + n) = unat (pm_current_size P) + unat n"
    by (intro unat_add_nowrap) simp
  have o: "unat (pm_offset P + n) = unat (pm_offset P) + unat n" using off by (intro unat_add_nowrap) simp
  have v': "v' x = v x" if "x \<in> S" for x using that dis by (auto simp: v'_def region_pages [OF n])
  have vb: "v' x = Some (File (pm_file P) (unat (pm_offset P) + (x - unat a)))" if "x \<in> bytes a n" for x
    using that by (simp add: v'_def region_pages [OF n])
  have "inj_on v' (S \<union> bytes a n)"
  proof (rule inj_onI)
    fix x y
    assume xy: "x \<in> S \<union> bytes a n" "y \<in> S \<union> bytes a n" "v' x = v' y"
    consider "x \<in> S" "y \<in> S" | "x \<in> S" "y \<in> bytes a n" | "x \<in> bytes a n" "y \<in> S" | "x \<in> bytes a n" "y \<in> bytes a n"
      using xy by blast
    then show "x = y"
    proof cases
      case 1
      then show ?thesis using xy(3) S(3) v' by (auto dest: inj_onD)
    next
      case 2
      then show ?thesis using xy(3) v' [of x] vb [of y] S(4) [of x "unat (pm_offset P) + (y - unat a)"] by simp
    next
      case 3
      then show ?thesis using xy(3) v' [of y] vb [of x] S(4) [of y "unat (pm_offset P) + (x - unat a)"] by simp
    next
      case 4
      then show ?thesis using xy(3) vb [of x] vb [of y] by (auto simp: bytes_def)
    qed
  qed
  moreover have "i < unat (pm_offset P) + unat n" if "x \<in> S \<union> bytes a n" "v' x = Some (File (pm_file P) i)" for x i
    using that S(4) [of x i] v' [of x] vb [of x] by (auto simp: bytes_def)
  moreover have "\<exists>f i. v' x = Some (File f i)" if "x \<in> S \<union> bytes a n" for x using that S(2) v' vb by auto
  ultimately show "pmem_inv (P\<lparr>pm_offset := pm_offset P + n, pm_current_size := pm_current_size P + n\<rparr>) v' (S \<union> bytes a n)"
    using sub cardU cur o off lim by (simp add: pmem_inv_def)
qed

lemma pmem_mmap_run:
  fixes n :: size_t
  assumes K: "vm_spec K" "file_spec K" and inv: "pmem_inv P v S" and path: "path_ok K P" and n: "PAGE_SIZE dvd unat n"
  shows "\<exists>r P' v'. memkind_pmem_mmap K P n v = Some (r, P', v') \<and> pm_max_size P' = pm_max_size P \<and>
    pm_dir P' = pm_dir P \<and> (case r of
      None \<Rightarrow> v' = v \<and> pmem_inv P' v S
    | Some a \<Rightarrow> bytes a n \<inter> S = {} \<and> (\<forall>x. x \<notin> bytes a n \<longrightarrow> v' x = v x) \<and> pmem_inv P' v' (S \<union> bytes a n))"
proof (cases "pm_max_size P \<noteq> 0 \<and> pm_current_size P + n > pm_max_size P")
  case True
  then show ?thesis using inv by (simp add: memkind_pmem_mmap_def)
next
  case False
  from extend_run [OF K(2) inv path, of n] obtain st P' where e: "pmem_extend_file K P n v = Some (st, P')" "pmem_inv P' v S"
    "pm_max_size P' = pm_max_size P" "pm_current_size P' = pm_current_size P"
    "st = 0 \<longrightarrow> unat (pm_offset P') + unat n < 2 ^ 63" "pm_dir P' = pm_dir P" by blast
  have lim: "pm_max_size P' \<noteq> 0 \<longrightarrow> pm_current_size P' + n \<le> pm_max_size P'" using False e(3,4) by (auto simp: not_less)
  show ?thesis
  proof (cases "st = 0")
    case True
    show ?thesis
    proof (cases "k_mmap K NULL n v")
      case None
      then show ?thesis using False e True by (auto simp: memkind_pmem_mmap_def sys_mmap_def)
    next
      case (Some a)
      note m = map_file_run [OF K(1) e(2) n Some _ lim]
      show ?thesis using False e(1,3,5,6) True Some m
        by (auto simp: memkind_pmem_mmap_def sys_mmap_def region_pages [OF n])
    qed
  next
    case st: False
    then show ?thesis using False e(1-3,6) by (auto simp: memkind_pmem_mmap_def)
  qed
qed

lemma pmem_dalloc_run:
  fixes n :: size_t
  assumes inv: "pmem_inv P v S" and a: "PAGE_SIZE dvd unat a" "PAGE_SIZE dvd unat n" "n \<noteq> 0"
    and sub: "bytes a n \<subseteq> S" and adv: "fst (k_madvise K a n) = 0" and un: "k_munmap K a n v"
  shows "pmem_extent_dalloc K (Some P) a n v =
      Some (False, Some (P\<lparr>pm_current_size := pm_current_size P - n\<rparr>), v |` (- bytes a n))"
    and "pmem_inv (P\<lparr>pm_current_size := pm_current_size P - n\<rparr>) (v |` (- bytes a n)) (S - bytes a n)"
proof -
  have S: "S \<subseteq> {..<2 ^ 64 - 1}" and c: "card S = unat (pm_current_size P)"
    and lim: "pm_max_size P \<noteq> 0 \<longrightarrow> pm_current_size P \<le> pm_max_size P" using inv by (simp_all add: pmem_inv_def)
  have fS: "finite S" using S finite_subset by blast
  have "card (bytes a n) \<le> card S" by (rule card_mono [OF fS sub])
  then have le: "n \<le> pm_current_size P" by (simp add: c bytes_def word_le_nat_alt)
  then show "pmem_extent_dalloc K (Some P) a n v =
      Some (False, Some (P\<lparr>pm_current_size := pm_current_size P - n\<rparr>), v |` (- bytes a n))"
    using adv a un region_pages [OF a(2), of a]
    by (cases "k_madvise K a n") (simp add: pmem_extent_dalloc_def sys_munmap_def)
  have d: "unat (pm_current_size P - n) = unat (pm_current_size P) - unat n" by (rule unat_diff_nowrap [OF le])
  have "card (S - bytes a n) = unat (pm_current_size P - n)"
    using card_Diff_subset [OF _ sub] finite_subset [OF sub fS] by (simp add: c d bytes_def)
  moreover have "pm_current_size P - n \<le> pm_current_size P" by (simp add: word_le_nat_alt d)
  moreover have "inj_on (v |` (- bytes a n)) (S - bytes a n)"
    using inv by (auto simp: pmem_inv_def inj_on_def)
  ultimately show "pmem_inv (P\<lparr>pm_current_size := pm_current_size P - n\<rparr>) (v |` (- bytes a n)) (S - bytes a n)"
    using inv lim by (auto simp: pmem_inv_def restrict_map_def intro: order_trans)
qed

section \<open>Runs of extent operations\<close>

datatype extent_op = Extent_Alloc size_t | Extent_Dalloc addr size_t

text \<open>The set of bytes handed out is carried along.\<close>

fun extent_step :: "kern \<Rightarrow> extent_ops \<Rightarrow> extent_op \<Rightarrow> memkind_pmem \<times> vm \<times> nat set \<Rightarrow> (memkind_pmem \<times> vm \<times> nat set) option" where
  "extent_step K ops (Extent_Alloc n) (P, v, S) = do {
     (r, kd, v') \<leftarrow> pmem_extent_alloc K (Some (ops, P)) NULL n v;
     P' \<leftarrow> kd;
     Some (P', v', case r of None \<Rightarrow> S | Some a \<Rightarrow> S \<union> bytes a n) }"
| "extent_step K ops (Extent_Dalloc a n) (P, v, S) = do {
     (kept, kd, v') \<leftarrow> pmem_extent_dalloc K (Some P) a n v;
     P' \<leftarrow> kd;
     Some (P', v', if kept then S else S - bytes a n) }"

text \<open>
  Whole pages are asked for; what is released has been handed out, and the kernel both removes
  its bytes from the file and unmaps it.
\<close>

fun extent_op_ok :: "kern \<Rightarrow> extent_op \<Rightarrow> vm \<Rightarrow> nat set \<Rightarrow> bool" where
  "extent_op_ok K (Extent_Alloc n) v S \<longleftrightarrow> PAGE_SIZE dvd unat n"
| "extent_op_ok K (Extent_Dalloc a n) v S \<longleftrightarrow> PAGE_SIZE dvd unat a \<and> PAGE_SIZE dvd unat n \<and> n \<noteq> 0 \<and>
     bytes a n \<subseteq> S \<and> fst (k_madvise K a n) = 0 \<and> k_munmap K a n v"

primrec extent_run :: "kern \<Rightarrow> extent_ops \<Rightarrow> extent_op list \<Rightarrow> memkind_pmem \<times> vm \<times> nat set \<Rightarrow>
    (memkind_pmem \<times> vm \<times> nat set) option" where
  "extent_run K ops [] st = Some st"
| "extent_run K ops (x # xs) st = do { st \<leftarrow> extent_step K ops x st; extent_run K ops xs st }"

primrec extent_run_ok :: "kern \<Rightarrow> extent_ops \<Rightarrow> extent_op list \<Rightarrow> memkind_pmem \<times> vm \<times> nat set \<Rightarrow> bool" where
  "extent_run_ok K ops [] st \<longleftrightarrow> True"
| "extent_run_ok K ops (x # xs) st \<longleftrightarrow> extent_op_ok K x (fst (snd st)) (snd (snd st)) \<and>
     (\<forall>st'. extent_step K ops x st = Some st' \<longrightarrow> extent_run_ok K ops xs st')"

lemma extent_step_run:
  assumes K: "vm_spec K" "file_spec K" and inv: "pmem_inv P v S" and path: "path_ok K P" and ok: "extent_op_ok K x v S"
  shows "\<exists>P' v' S'. extent_step K ops x (P, v, S) = Some (P', v', S') \<and> pmem_inv P' v' S' \<and>
    pm_max_size P' = pm_max_size P \<and> pm_dir P' = pm_dir P"
proof (cases x)
  case (Extent_Alloc n)
  from pmem_mmap_run [OF K inv path, of n] ok Extent_Alloc obtain r P' v' where m:
    "memkind_pmem_mmap K P n v = Some (r, P', v')" "pm_max_size P' = pm_max_size P" "pm_dir P' = pm_dir P" "case r of
      None \<Rightarrow> v' = v \<and> pmem_inv P' v S
    | Some a \<Rightarrow> bytes a n \<inter> S = {} \<and> (\<forall>x. x \<notin> bytes a n \<longrightarrow> v' x = v x) \<and> pmem_inv P' v' (S \<union> bytes a n)" by auto
  then show ?thesis using inv Extent_Alloc by (cases r) (auto simp: pmem_extent_alloc_def)
next
  case (Extent_Dalloc a n)
  then show ?thesis using pmem_dalloc_run [OF inv, of a n K] ok by simp
qed

lemma extent_run_run:
  assumes K: "vm_spec K" "file_spec K"
  shows "pmem_inv P v S \<Longrightarrow> path_ok K P \<Longrightarrow> extent_run_ok K ops xs (P, v, S) \<Longrightarrow>
    \<exists>P' v' S'. extent_run K ops xs (P, v, S) = Some (P', v', S') \<and> pmem_inv P' v' S' \<and> pm_max_size P' = pm_max_size P"
proof (induction xs arbitrary: P v S)
  case (Cons x xs)
  from extent_step_run [OF K Cons.prems(1,2), of x ops] Cons.prems(3) obtain P1 v1 S1 where
    s: "extent_step K ops x (P, v, S) = Some (P1, v1, S1)" "pmem_inv P1 v1 S1" "pm_max_size P1 = pm_max_size P"
      "pm_dir P1 = pm_dir P" by auto
  have "path_ok K P1" using Cons.prems(2) s(4) by (simp add: path_ok_def)
  from Cons.IH [OF s(2) this] Cons.prems(3) s(1,3) show ?case by auto
qed auto

section \<open>Properties\<close>

text \<open>
  C17: the extents of an arena.  For a size in pages, a power of two of at least a page as the
  alignment, and a requested place that is aligned, \<open>arena_extent_alloc\<close> returns.  If it grants
  an extent, the extent is aligned, at the requested place if there was one, and all its bytes
  were free and are now mapped.  Whether or not it grants one, a byte that was mapped before
  keeps its mapping.  The code ignores the result of \<open>munmap\<close>: other free bytes can stay mapped
  if the kernel refuses to unmap, and if it never refuses nothing else changes.
\<close>

theorem arena_extent_correct:
  fixes n alignment :: size_t
  assumes "vm_spec K" "mmap_op ops = MMAP_NULL" "PAGE_SIZE dvd unat n"
    and "alignment = 2 ^ j" "12 \<le> j" "j < 64" "unat n + unat alignment < 2 ^ 64"
    and "\<forall>a. new_addr = Some a \<longrightarrow> unat alignment dvd unat a"
  shows "\<exists>r v'. arena_extent_alloc K ops P new_addr n alignment v = Some (r, P, v') \<and>
    (let A = (case r of None \<Rightarrow> {} | Some a \<Rightarrow> bytes a n) in
      (\<forall>x\<in>A. v x = None \<and> v' x = Some Anon) \<and>
      (\<forall>x. v x \<noteq> None \<longrightarrow> v' x = v x) \<and>
      (\<forall>x. x \<notin> A \<and> v' x \<noteq> v x \<longrightarrow> v' x = Some Anon \<and> \<not> (\<forall>a n w. k_munmap K a n w))) \<and>
    (\<forall>a. r = Some a \<longrightarrow> unat alignment dvd unat a \<and> (new_addr \<noteq> NULL \<longrightarrow> r = new_addr) \<and> unat a + unat n < 2 ^ 64)"
proof -
  have al: "unat alignment = 2 ^ j" using assms(4,6) by (simp add: unat_p2)
  have h: "unat n + 2 ^ j < 2 ^ 64" "\<forall>a. new_addr = Some a \<longrightarrow> 2 ^ j dvd unat a" using assms(7,8) by (simp_all add: al)
  from extent_alloc_run [OF assms(1-3,5,6) h, of P v] obtain r v' where
    r: "arena_extent_alloc K ops P new_addr n alignment v = Some (r, P, v')" "extent_result K (2 ^ j) n v r v'"
      "r \<noteq> None \<and> new_addr \<noteq> NULL \<longrightarrow> r = new_addr" unfolding assms(4) by blast
  define A where "A = (case r of None \<Rightarrow> {} | Some a \<Rightarrow> bytes a n)"
  have "granted K A v v'" using r(2) by (simp add: extent_result_def A_def split: option.splits)
  then have "\<forall>x\<in>A. v x = None \<and> v' x = Some Anon" "\<forall>x. v x \<noteq> None \<longrightarrow> v' x = v x"
    "\<forall>x. x \<notin> A \<and> v' x \<noteq> v x \<longrightarrow> v' x = Some Anon \<and> \<not> (\<forall>a n w. k_munmap K a n w)"
    unfolding granted_def munmap_ok_def by metis+
  moreover have "\<forall>a. r = Some a \<longrightarrow> unat alignment dvd unat a \<and> (new_addr \<noteq> NULL \<longrightarrow> r = new_addr) \<and> unat a + unat n < 2 ^ 64"
    using r(2,3) al by (auto simp: extent_result_def)
  ultimately show ?thesis using r(1) unfolding Let_def A_def by blast
qed

definition demo_kern :: kern where
  "demo_kern = \<lparr>k_mmap = (\<lambda>hint n v. if n \<noteq> 0 \<and> 12288 + round_up PAGE_SIZE (unat n) < 2 ^ 64 \<and>
       (\<forall>x\<in>region 12288 n. v x = None) then Some 12288 else None),
     k_fallocate = (\<lambda>fd off len. if 0 \<le> off \<and> 0 < len \<and> off + len < 2 ^ 63 then 0 else EFBIG),
     k_mkstemp = (\<lambda>v. if \<forall>x i. v x \<noteq> Some (File 7 i) then Some (5, 7) else None),
     k_madvise = (\<lambda>_ _. (0, 0)), k_munmap = (\<lambda>_ _ _. True)\<rparr>"

definition demo_ops :: extent_ops where
  "demo_ops = \<lparr>mmap_op = MMAP_NULL, get_mmap_flags = None, mbind_op = None, madvise_op = None, check_available = None\<rparr>"

definition demo_pmem :: memkind_pmem where
  "demo_pmem = \<lparr>pm_fd = 4, pm_file = 6, pm_offset = 0, pm_max_size = 8192, pm_current_size = 0, pm_dir = Some ''/mnt''\<rparr>"

lemma demo_kern_spec: "vm_spec demo_kern" "file_spec demo_kern"
  by (auto simp: vm_spec_def file_spec_def demo_kern_def PAGE_SIZE_def EFBIG_def split: if_splits)

text \<open>A kernel that unmaps nothing.\<close>

definition stubborn_kern :: kern where
  "stubborn_kern = demo_kern\<lparr>k_mmap := (\<lambda>hint n v. if n \<noteq> 0 \<and> round_up PAGE_SIZE (unat n) \<le> 1048576 then
       if \<forall>x\<in>region 12288 n. v x = None then Some 12288
       else if \<forall>x\<in>region 2097152 n. v x = None then Some 2097152 else None else None),
     k_munmap := (\<lambda>_ _ _. False)\<rparr>"

lemma stubborn_kern_spec: "vm_spec stubborn_kern"
  by (auto simp: vm_spec_def stubborn_kern_def PAGE_SIZE_def split: if_splits)

theorem arena_extent_correct_witness:
  "(\<exists>a v'. arena_extent_alloc demo_kern demo_ops demo_pmem NULL 4096 8192 Map.empty = Some (Some a, demo_pmem, v') \<and>
     8192 dvd unat a \<and> v' (unat a) = Some Anon) \<and>
   (\<exists>r v'. arena_extent_alloc stubborn_kern demo_ops demo_pmem NULL 4096 8192 [5 \<mapsto> File 1 2] = Some (r, demo_pmem, v') \<and>
     v' 5 = Some (File 1 2))"
proof
  have e: "round_up 4096 12288 = 12288" "round_up 4096 4096 = 4096" by (simp_all add: round_up_def)
  have al: "(8192 :: size_t) = 2 ^ 13" by simp
  have u: "unat (4096 :: size_t) = 4096" "unat (8192 :: size_t) = 8192" by simp_all
  from u arena_extent_correct [OF demo_kern_spec(1) _ _ al, of demo_ops 4096 NULL demo_pmem Map.empty] obtain r v' where
    r: "arena_extent_alloc demo_kern demo_ops demo_pmem NULL 4096 8192 Map.empty = Some (r, demo_pmem, v')"
      "\<forall>a. r = Some a \<longrightarrow> 8192 dvd unat a" "\<forall>a x. r = Some a \<and> x \<in> bytes a 4096 \<longrightarrow> v' x = Some Anon"
    by (auto simp: demo_ops_def PAGE_SIZE_def Let_def)
  moreover have "r \<noteq> None"
    using r(1) e by (auto simp: arena_extent_alloc_def alloc_aligned_slow_def kind_mmap_def memkind_default_mmap_def
        apply_or_unmap_def sys_mmap_def sys_munmap_def restrict_map_def demo_kern_def demo_ops_def memkind_check_available_def PAGE_SIZE_def
        Let_def region_def split: if_splits)
  moreover have "unat a \<in> bytes a 4096" for a by (simp add: bytes_def)
  ultimately show "\<exists>a v'. arena_extent_alloc demo_kern demo_ops demo_pmem NULL 4096 8192 Map.empty =
    Some (Some a, demo_pmem, v') \<and> 8192 dvd unat a \<and> v' (unat a) = Some Anon" by (cases r) auto
  from u arena_extent_correct [OF stubborn_kern_spec _ _ al, of demo_ops 4096 NULL demo_pmem "[5 \<mapsto> File 1 2]"]
  show "\<exists>r v'. arena_extent_alloc stubborn_kern demo_ops demo_pmem NULL 4096 8192 [5 \<mapsto> File 1 2] = Some (r, demo_pmem, v') \<and>
     v' 5 = Some (File 1 2)"
    by (auto simp: demo_ops_def PAGE_SIZE_def Let_def)
qed

text \<open>
  C6: the extents of persistent memory.  Take any run of allocations in pages and releases of
  parts of what was handed out, in which for every release the kernel removes the bytes from the
  file and unmaps them.  Suppose also that the kernel never finds the file too large, or that the
  stored path of the kind is terminated, so that a new file can be created; the code that stores
  the path does not terminate it.  Then no assertion fails; different bytes handed out are always
  backed by different bytes of a file, also after a change to a new file; their number is the
  recorded size; and it never exceeds the limit of the kind.  The two lemmas after the property
  show what happens without a terminated path and with a refused \<open>munmap\<close>.
\<close>

theorem pmem_extents_correct:
  assumes "vm_spec K" "file_spec K" "pmem_inv P v S" "path_ok K P" "extent_run_ok K ops xs (P, v, S)"
  shows "\<exists>P' v' S'. extent_run K ops xs (P, v, S) = Some (P', v', S') \<and> pmem_inv P' v' S' \<and>
    (\<forall>x\<in>S'. \<exists>f i. v' x = Some (File f i) \<and> (\<forall>y\<in>S'. v' y = Some (File f i) \<longrightarrow> y = x)) \<and>
    card S' = unat (pm_current_size P') \<and> (pm_max_size P \<noteq> 0 \<longrightarrow> card S' \<le> unat (pm_max_size P))"
proof -
  from extent_run_run [OF assms] obtain P' v' S' where r: "extent_run K ops xs (P, v, S) = Some (P', v', S')"
    "pmem_inv P' v' S'" "pm_max_size P' = pm_max_size P" by blast
  have i: "inj_on v' S'" "\<And>x. x \<in> S' \<Longrightarrow> \<exists>f i. v' x = Some (File f i)" "card S' = unat (pm_current_size P')"
    "pm_max_size P \<noteq> 0 \<longrightarrow> pm_current_size P' \<le> pm_max_size P" using r(2,3) unfolding pmem_inv_def by auto
  have "\<exists>f i. v' x = Some (File f i) \<and> (\<forall>y\<in>S'. v' y = Some (File f i) \<longrightarrow> y = x)" if "x \<in> S'" for x
    using i(2) [OF that] inj_onD [OF i(1) _ _ that] by fastforce
  then show ?thesis using r(1,2) i(3,4) by (auto simp: word_le_nat_alt)
qed

theorem pmem_extents_correct_witness:
  "\<exists>P v S. extent_run demo_kern demo_ops [Extent_Alloc 4096, Extent_Alloc 8192] (demo_pmem, Map.empty, {}) = Some (P, v, S) \<and>
     card S \<le> 8192"
proof -
  have "pmem_inv demo_pmem Map.empty {}" "path_ok demo_kern demo_pmem"
    by (simp_all add: pmem_inv_def path_ok_def demo_pmem_def)
  moreover have "extent_run_ok demo_kern demo_ops [Extent_Alloc 4096, Extent_Alloc 8192] (demo_pmem, Map.empty, {})"
    by (simp add: PAGE_SIZE_def)
  ultimately show ?thesis
    using pmem_extents_correct [OF demo_kern_spec, of demo_pmem Map.empty "{}" demo_ops "[Extent_Alloc 4096, Extent_Alloc 8192]"]
    by (auto simp: demo_pmem_def simp del: extent_run.simps)
qed

text \<open>
  Without a terminated path, an allocation for which the kernel finds the file too large reads
  beyond the copy of the path.
\<close>

lemma unterminated_path_undefined:
  assumes "pm_dir P = None" "k_fallocate K (pm_fd P) (sint (pm_offset P)) (sint n) = EFBIG"
    and "pm_max_size P = 0"
  shows "memkind_pmem_mmap K P n v = None"
  using assms by (simp add: memkind_pmem_mmap_def pmem_extend_file_def memkind_pmem_recreate_file_def EFBIG_def)

text \<open>
  When \<open>munmap\<close> fails after the bytes have been removed from the file, the caller keeps the
  extent, but the recorded size no longer counts it.
\<close>

lemma refused_munmap_miscounts:
  assumes "fst (k_madvise K a n) = 0" "\<not> k_munmap K a n v" "n \<le> pm_current_size P"
  shows "pmem_extent_dalloc K (Some P) a n v =
    Some (True, Some (P\<lparr>pm_current_size := pm_current_size P - n\<rparr>), v)"
  using assms by (cases "k_madvise K a n") (simp add: pmem_extent_dalloc_def sys_munmap_def)

end
