(* ===== verification/Memkind_Arena.thy ===== *)
theory Memkind_Arena
  imports Prelude
begin

unbundle bit_operations_syntax

text \<open>
  The arenas of a kind (\<open>src/src/memkind_arena.c\<close>): the number of arenas, the table from arenas to
  kinds, the arena of a thread, and the allocation calls over jemalloc.  The build has no
  \<open>MEMKIND_TLS\<close>.
\<close>

section \<open>Model\<close>

datatype get_arena_fn = BIJECTIVE_GET_ARENA | THREAD_GET_ARENA

text \<open>The functions a kind points to with \<open>ops->destroy\<close> and \<open>ops->finalize\<close>.\<close>

datatype kind_fn = DEFAULT_DESTROY | ARENA_DESTROY | PMEM_DESTROY

record kind =
  k_get_arena :: get_arena_fn
  k_destroy :: kind_fn
  k_finalize :: "kind_fn option"
  k_partition :: "32 word"
  k_name :: string
  arena_map_len :: "32 word"
  arena_map_mask :: "32 word"
  arena_zero :: "32 word"
  k_priv :: ptr

type_synonym arena_registry = "32 word \<rightharpoonup> addr"

definition MALLOCX_ARENA_MAX :: "32 word" where
  "MALLOCX_ARENA_MAX = 0xffe"

definition ARENA_LIMIT_PER_KIND :: nat where
  "ARENA_LIMIT_PER_KIND = 256"

definition MEMKIND_ERROR_ENVIRON :: int where "MEMKIND_ERROR_ENVIRON = -12"
definition MEMKIND_ERROR_ARENAS_CREATE :: int where "MEMKIND_ERROR_ARENAS_CREATE = -22"

text \<open>\<open>__builtin_clz\<close> of 0 is undefined, and so is a shift of 1 into the sign bit of \<open>int\<close>.\<close>

definition builtin_clz :: "32 word \<Rightarrow> nat option" where
  "builtin_clz v = (if v = 0 then None else Some (length (takeWhile (\<lambda>i. \<not> bit v i) (rev [0..<32]))))"

definition integer_log2 :: "32 word \<Rightarrow> nat option" where
  "integer_log2 v = do { c \<leftarrow> builtin_clz v; Some (32 - (c + 1)) }"

definition int_shl :: "nat \<Rightarrow> (32 word) option" where
  "int_shl n = (if n < 31 then Some (2 ^ n) else None)"

definition round_pow2_up :: "32 word \<Rightarrow> (32 word) option" where
  "round_pow2_up v = do {
     v_log2 \<leftarrow> integer_log2 v;
     p \<leftarrow> int_shl v_log2;
     (if v \<noteq> p then int_shl (v_log2 + 1) else Some v) }"

text \<open>
  \<open>env_num\<close> is the value of \<open>MEMKIND_ARENA_NUM_PER_KIND\<close> as read by \<open>strtoul\<close>, if it is set;
  \<open>cpus\<close> is the number of configured processors.
\<close>

definition memkind_set_arena_map_len :: "nat option \<Rightarrow> nat \<Rightarrow> kind \<Rightarrow> (int \<times> kind) option" where
  "memkind_set_arena_map_len env_num cpus k = (case k_get_arena k of
     BIJECTIVE_GET_ARENA \<Rightarrow> Some (0, k\<lparr>arena_map_len := 1, arena_map_mask := 0\<rparr>)
   | THREAD_GET_ARENA \<Rightarrow> (case env_num of
       Some arena_num_value \<Rightarrow>
         if arena_num_value = 0 \<or> arena_num_value > 2 ^ 31 - 1 then Some (MEMKIND_ERROR_ENVIRON, k)
         else do {
           len \<leftarrow> round_pow2_up (of_nat arena_num_value);
           Some (0, k\<lparr>arena_map_len := len, arena_map_mask := len - 1\<rparr>) }
     | None \<Rightarrow> do {
         len \<leftarrow> round_pow2_up (of_nat (min ARENA_LIMIT_PER_KIND (cpus * 4)));
         Some (0, k\<lparr>arena_map_len := len, arena_map_mask := len - 1\<rparr>) }))"

definition get_kind_by_arena :: "arena_registry \<Rightarrow> 32 word \<Rightarrow> ptr option" where
  "get_kind_by_arena R arena_ind = do {
     c_assert (arena_ind < MALLOCX_ARENA_MAX);
     Some (R arena_ind) }"

text \<open>
  The loop of \<open>memkind_arena_create_map\<close>, with what jemalloc answers to the requests: the result
  and the index of every new arena, and the result of installing the hooks.  A store outside
  the table is undefined.
\<close>

record arena_env =
  arenas_create :: "nat \<Rightarrow> int \<times> 32 word"
  set_extent_hooks :: "32 word \<Rightarrow> int"
  arena_init_status :: int
  arena_num_env :: "nat option"
  num_cpus :: nat

primrec create_arenas :: "arena_env \<Rightarrow> addr \<Rightarrow> nat \<Rightarrow> nat \<Rightarrow> kind \<Rightarrow> arena_registry \<Rightarrow>
    (int \<times> kind \<times> arena_registry) option" where
  "create_arenas e kp 0 i k R = Some (0, k, R)"
| "create_arenas e kp (Suc left_over) i k R =
     (case arenas_create e i of (err, arena_index) \<Rightarrow>
        if err \<noteq> 0 then Some (MEMKIND_ERROR_ARENAS_CREATE, k, R)
        else
          let k = (if arena_zero k > arena_index then k\<lparr>arena_zero := arena_index\<rparr> else k);
              err = set_extent_hooks e arena_index
          in if err \<noteq> 0 then Some (err, k, R)
             else do {
               c_assert (arena_index < MALLOCX_ARENA_MAX);
               create_arenas e kp left_over (Suc i) k (R(arena_index \<mapsto> kp)) })"

definition memkind_arena_create_map :: "arena_env \<Rightarrow> addr \<Rightarrow> kind \<Rightarrow> arena_registry \<Rightarrow>
    (int \<times> kind \<times> arena_registry) option" where
  "memkind_arena_create_map e kp k R =
     (if arena_init_status e \<noteq> 0 then Some (arena_init_status e, k, R)
      else do {
        (err, k) \<leftarrow> memkind_set_arena_map_len (arena_num_env e) (num_cpus e) k;
        (if err \<noteq> 0 then Some (err, k, R)
         else create_arenas e kp (unat (arena_map_len k)) 0 (k\<lparr>arena_zero := - 1\<rparr>) R) })"

primrec destroy_arenas :: "kind \<Rightarrow> nat \<Rightarrow> arena_registry \<Rightarrow> arena_registry option" where
  "destroy_arenas k 0 R = Some R"
| "destroy_arenas k (Suc i) R = do {
     R \<leftarrow> destroy_arenas k i R;
     c_assert (arena_zero k + of_nat i < MALLOCX_ARENA_MAX);
     Some (R(arena_zero k + of_nat i := None)) }"

definition memkind_arena_destroy :: "kind \<Rightarrow> arena_registry \<Rightarrow> arena_registry option" where
  "memkind_arena_destroy k R = destroy_arenas k (unat (arena_map_len k)) R"

section \<open>The arena of a thread\<close>

definition hash64 :: "64 word \<Rightarrow> 64 word" where
  "hash64 x =
     (let x = x + 0x9e3779b97f4a7c15;
          x = (x XOR drop_bit 30 x) * 0xbf58476d1ce4e5b9;
          x = (x XOR drop_bit 27 x) * 0x94d049bb133111eb
      in x XOR drop_bit 31 x)"

definition memkind_bijective_get_arena :: "kind \<Rightarrow> 32 word" where
  "memkind_bijective_get_arena k = arena_zero k"

definition memkind_thread_get_arena :: "64 word \<Rightarrow> kind \<Rightarrow> 32 word" where
  "memkind_thread_get_arena self k =
     (let arena_idx = ucast (hash64 self AND ucast (arena_map_mask k)) in arena_zero k + arena_idx)"

definition get_arena :: "64 word \<Rightarrow> kind \<Rightarrow> 32 word" where
  "get_arena self k = (case k_get_arena k of
     BIJECTIVE_GET_ARENA \<Rightarrow> memkind_bijective_get_arena k
   | THREAD_GET_ARENA \<Rightarrow> memkind_thread_get_arena self k)"

section \<open>Allocation\<close>

text \<open>
  The blocks of jemalloc: the arena and the size a block was requested with.  \<open>pick\<close> is the
  address jemalloc chooses.  Thread caches do not change what is allocated.
\<close>

type_synonym jemk = "addr \<rightharpoonup> 32 word \<times> size_t"

definition jemk_mallocx :: "ptr \<Rightarrow> size_t \<Rightarrow> 32 word \<Rightarrow> jemk \<Rightarrow> ptr \<times> jemk" where
  "jemk_mallocx pick n arena J = (case pick of None \<Rightarrow> (NULL, J) | Some a \<Rightarrow> (Some a, J(a \<mapsto> (arena, n))))"

definition jemk_rallocx :: "ptr \<Rightarrow> addr \<Rightarrow> size_t \<Rightarrow> 32 word \<Rightarrow> jemk \<Rightarrow> ptr \<times> jemk" where
  "jemk_rallocx pick p n arena J =
     (case pick of None \<Rightarrow> (NULL, J) | Some a \<Rightarrow> (Some a, (J(p := None))(a \<mapsto> (arena, n))))"

definition LLONG_MAX :: size_t where
  "LLONG_MAX = 0x7fffffffffffffff"

definition jemk_mallocx_check :: "ptr \<Rightarrow> size_t \<Rightarrow> 32 word \<Rightarrow> jemk \<Rightarrow> ptr \<times> jemk" where
  "jemk_mallocx_check pick n arena J =
     (if n \<ge> LLONG_MAX then (NULL, J) else if n \<noteq> 0 then jemk_mallocx pick n arena J else (NULL, J))"

definition jemk_rallocx_check :: "ptr \<Rightarrow> addr \<Rightarrow> size_t \<Rightarrow> 32 word \<Rightarrow> jemk \<Rightarrow> ptr \<times> jemk" where
  "jemk_rallocx_check pick p n arena J = (if n \<ge> LLONG_MAX then (NULL, J) else jemk_rallocx pick p n arena J)"

definition memkind_arena_malloc :: "64 word \<Rightarrow> ptr \<Rightarrow> kind \<Rightarrow> size_t \<Rightarrow> jemk \<Rightarrow> ptr \<times> jemk" where
  "memkind_arena_malloc self pick k n J = jemk_mallocx_check pick n (get_arena self k) J"

definition memkind_arena_calloc :: "64 word \<Rightarrow> ptr \<Rightarrow> kind \<Rightarrow> size_t \<Rightarrow> size_t \<Rightarrow> jemk \<Rightarrow> ptr \<times> jemk" where
  "memkind_arena_calloc self pick k num n J = jemk_mallocx_check pick (num * n) (get_arena self k) J"

text \<open>Releasing a pointer that is not a live block is undefined.\<close>

definition jemk_dallocx :: "addr \<Rightarrow> jemk \<Rightarrow> jemk option" where
  "jemk_dallocx a J = do { J a; Some (J(a := None)) }"

definition memkind_arena_realloc :: "64 word \<Rightarrow> ptr \<Rightarrow> kind \<Rightarrow> ptr \<Rightarrow> size_t \<Rightarrow> jemk \<Rightarrow> (ptr \<times> jemk) option" where
  "memkind_arena_realloc self pick k p n J = (case p of
     Some a \<Rightarrow>
       if n = 0 then do { J \<leftarrow> jemk_dallocx a J; Some (NULL, J) }
       else do { J a; Some (jemk_rallocx_check pick a n (get_arena self k) J) }
   | None \<Rightarrow> Some (jemk_mallocx_check pick n (get_arena self k) J))"

definition memkind_arena_free :: "ptr \<Rightarrow> jemk \<Rightarrow> jemk option" where
  "memkind_arena_free p J = (case p of None \<Rightarrow> Some J | Some a \<Rightarrow> jemk_dallocx a J)"

definition ERR_EINVAL :: int where "ERR_EINVAL = 22"
definition ERR_ENOMEM :: int where "ERR_ENOMEM = 12"

definition memkind_posix_check_alignment :: "size_t \<Rightarrow> int" where
  "memkind_posix_check_alignment alignment =
     (if alignment < 8 \<or> (alignment - 1) AND alignment \<noteq> 0 then ERR_EINVAL else 0)"

definition size_out_of_bounds :: "size_t \<Rightarrow> bool" where
  "size_out_of_bounds n \<longleftrightarrow> n = 0"

definition memkind_arena_posix_memalign :: "64 word \<Rightarrow> ptr \<Rightarrow> kind \<Rightarrow> size_t \<Rightarrow> size_t \<Rightarrow> jemk \<Rightarrow> int \<times> ptr \<times> jemk" where
  "memkind_arena_posix_memalign self pick k alignment n J =
     (let err = memkind_posix_check_alignment alignment
      in if err \<noteq> 0 then (err, NULL, J)
         else if size_out_of_bounds n then (0, NULL, J)
         else case jemk_mallocx_check pick n (get_arena self k) J of
           (p, J) \<Rightarrow> (if p \<noteq> NULL then 0 else ERR_ENOMEM, p, J))"

text \<open>
  \<open>jemk_arenalookupx\<close> finds the arena of a live block; a block of no registered arena belongs to
  the default kind.
\<close>

definition memkind_arena_detect_kind :: "addr \<Rightarrow> jemk \<Rightarrow> arena_registry \<Rightarrow> ptr \<Rightarrow> ptr option" where
  "memkind_arena_detect_kind default_kind J R p = (case p of
     None \<Rightarrow> Some NULL
   | Some a \<Rightarrow> do {
       (arena, n) \<leftarrow> J a;
       kd \<leftarrow> get_kind_by_arena R arena;
       Some (if kd \<noteq> NULL then kd else Some default_kind) })"

section \<open>The number of arenas\<close>

definition lead :: "(nat \<Rightarrow> bool) \<Rightarrow> nat \<Rightarrow> nat" where
  "lead P m = length (takeWhile (\<lambda>i. \<not> P i) (rev [0..<m]))"

lemma lead_Suc: "lead P (Suc m) = (if P m then 0 else Suc (lead P m))"
  by (simp add: lead_def)

lemma lead_below:
  "\<exists>i<m. P i \<Longrightarrow> lead P m < m \<and> P (m - 1 - lead P m) \<and> (\<forall>i. m - 1 - lead P m < i \<and> i < m \<longrightarrow> \<not> P i)"
proof (induction m)
  case (Suc m)
  show ?case
  proof (cases "P m")
    case True
    then show ?thesis by (auto simp: lead_Suc)
  next
    case False
    from Suc.prems obtain i where i: "i < Suc m" "P i" by blast
    then have "i < m" using False by (cases "i = m") simp_all
    then have "\<exists>i<m. P i" using i(2) by blast
    from Suc.IH [OF this] False show ?thesis by (auto simp: lead_Suc less_Suc_eq)
  qed
qed simp

lemma integer_log2_run:
  assumes "v \<noteq> 0"
  shows "\<exists>n<32. integer_log2 v = Some n \<and> 2 ^ n \<le> unat v \<and> unat v < 2 ^ (n + 1)"
proof -
  from assms obtain i where i: "bit v i" by (auto simp: bit_eq_iff)
  then have "i < 32" using bit_imp_le_length [OF i] by simp
  then have ex: "\<exists>i<32. bit v i" using i by blast
  define c where "c = lead (bit v) 32"
  have m: "(32 :: nat) - 1 = 31" by simp
  note cz = lead_below [of 32 "bit v", folded c_def, unfolded m, OF ex]
  then have c: "c < 32" "bit v (31 - c)" "\<And>i. 31 - c < i \<Longrightarrow> i < 32 \<Longrightarrow> \<not> bit v i" by blast+
  have "bit (unat v) (31 - c)" using c(2) by (simp add: bit_unsigned_iff)
  then have "odd (unat v div 2 ^ (31 - c))" unfolding bit_iff_odd .
  then have "unat v div 2 ^ (31 - c) \<noteq> 0" by (metis even_zero)
  then have lo: "2 ^ (31 - c) \<le> unat v" by (metis div_less not_le)
  have "take_bit (31 - c + 1) v = v"
  proof (rule bit_eqI)
    fix i
    show "bit (take_bit (31 - c + 1) v) i = bit v i"
      using c(3) [of i] bit_imp_le_length [of v i]
      by (cases "31 - c < i") (auto simp: bit_take_bit_iff less_Suc_eq_le)
  qed
  then have "unat v = take_bit (31 - c + 1) (unat v)" using unsigned_take_bit_eq [of "31 - c + 1" v] by (simp only:)
  then have "unat v = unat v mod 2 ^ (31 - c + 1)" unfolding take_bit_eq_mod .
  also have "\<dots> < 2 ^ (31 - c + 1)" by simp
  finally have hi: "unat v < 2 ^ (31 - c + 1)" .
  have "integer_log2 v = Some (31 - c)" 
    unfolding integer_log2_def builtin_clz_def lead_def [symmetric] c_def [symmetric] using assms c(1) by simp
  then show ?thesis using lo hi by (intro exI [of _ "31 - c"]) simp
qed

lemma round_pow2_up_run:
  assumes "0 < n" "n \<le> 2 ^ 30"
  shows "\<exists>p\<le>30. round_pow2_up (of_nat n) = Some (2 ^ p) \<and> n \<le> 2 ^ p \<and> 2 ^ p < 2 * n"
proof -
  let ?v = "of_nat n :: 32 word"
  have u: "unat ?v = n" using assms(2) by (simp add: unat_of_nat take_bit_nat_eq_self)
  then have "?v \<noteq> 0" using assms(1) by auto
  from integer_log2_run [OF this] obtain l where l: "integer_log2 ?v = Some l" "2 ^ l \<le> n" "n < 2 ^ (l + 1)"
    unfolding u by blast
  have l30: "l \<le> 30" by (rule power_le_imp_le_exp [OF _ order_trans [OF l(2) assms(2)]]) simp
  have p: "unat (2 ^ l :: 32 word) = 2 ^ l"
    using unat_of_nat [of "2 ^ l", where 'a = 32] power_strict_increasing [of l 32 "2 :: nat"] l30 by simp
  show ?thesis
  proof (cases "n = 2 ^ l")
    case True
    then have "?v = 2 ^ l" by simp
    then show ?thesis using l30 True l(1) by (intro exI [of _ l]) (simp add: round_pow2_up_def int_shl_def)
  next
    case False
    have "?v \<noteq> 2 ^ l"
    proof
      assume "?v = 2 ^ l"
      then show False using False u p by (simp only:)
    qed
    moreover have "l < 30"
    proof (rule ccontr)
      assume "\<not> l < 30"
      then have "l = 30" using l30 by simp
      then show False using False l(2) assms(2) by simp
    qed
    ultimately show ?thesis using l False by (intro exI [of _ "l + 1"]) (simp add: round_pow2_up_def int_shl_def)
  qed
qed

definition arena_num_ok :: "arena_env \<Rightarrow> bool" where
  "arena_num_ok e \<longleftrightarrow> (case arena_num_env e of None \<Rightarrow> 0 < num_cpus e | Some n \<Rightarrow> 0 < n \<and> n \<le> 2 ^ 30)"

lemma map_len_run:
  assumes "arena_num_ok e"
  shows "\<exists>p\<le>30. memkind_set_arena_map_len (arena_num_env e) (num_cpus e) k =
    Some (0, k\<lparr>arena_map_len := 2 ^ p, arena_map_mask := 2 ^ p - 1\<rparr>)"
proof (cases "k_get_arena k")
  case BIJECTIVE_GET_ARENA
  then show ?thesis by (intro exI [of _ 0]) (simp add: memkind_set_arena_map_len_def)
next
  case THREAD_GET_ARENA
  show ?thesis
  proof (cases "arena_num_env e")
    case None
    have "0 < min ARENA_LIMIT_PER_KIND (num_cpus e * 4)" "min ARENA_LIMIT_PER_KIND (num_cpus e * 4) \<le> 2 ^ 30"
      using assms None by (simp_all add: arena_num_ok_def ARENA_LIMIT_PER_KIND_def)
    from round_pow2_up_run [OF this] obtain p where "p \<le> 30"
      "round_pow2_up (of_nat (min ARENA_LIMIT_PER_KIND (num_cpus e * 4))) = Some (2 ^ p)" by blast
    then show ?thesis using THREAD_GET_ARENA None
      by (intro exI [of _ p]) (simp add: memkind_set_arena_map_len_def)
  next
    case (Some n)
    then have n: "0 < n" "n \<le> 2 ^ 30" using assms by (simp_all add: arena_num_ok_def)
    from round_pow2_up_run [OF n] obtain p where "p \<le> 30" "round_pow2_up (of_nat n) = Some (2 ^ p)" by blast
    then show ?thesis using THREAD_GET_ARENA Some n
      by (intro exI [of _ p]) (simp add: memkind_set_arena_map_len_def)
  qed
qed

section \<open>The table of arenas\<close>

definition arena_index :: "arena_env \<Rightarrow> nat \<Rightarrow> 32 word" where
  "arena_index e i = snd (arenas_create e i)"

definition arena_range :: "32 word \<Rightarrow> nat \<Rightarrow> (32 word) set" where
  "arena_range z n = {a. unat z \<le> unat a \<and> unat a < unat z + n}"

text \<open>
  jemalloc gives a kind \<open>n\<close> consecutive unused arenas from \<open>z\<close> on, in whatever order, and
  accepts the hooks.
\<close>

definition consecutive :: "arena_env \<Rightarrow> arena_registry \<Rightarrow> 32 word \<Rightarrow> nat \<Rightarrow> bool" where
  "consecutive e R z n \<longleftrightarrow> (\<forall>i<n. fst (arenas_create e i) = 0) \<and> arena_index e ` {..<n} = arena_range z n \<and>
     (\<forall>a\<in>arena_range z n. set_extent_hooks e a = 0 \<and> R a = None) \<and> unat z + n \<le> unat MALLOCX_ARENA_MAX"

lemma create_arenas_run:
  assumes "\<forall>j. i \<le> j \<and> j < i + m \<longrightarrow> fst (arenas_create e j) = 0 \<and> set_extent_hooks e (arena_index e j) = 0 \<and>
    arena_index e j < MALLOCX_ARENA_MAX"
  shows "\<exists>z. create_arenas e kp m i k R =
      Some (0, k\<lparr>arena_zero := z\<rparr>, \<lambda>a. if a \<in> arena_index e ` {i..<i + m} then Some kp else R a) \<and>
    z \<in> insert (arena_zero k) (arena_index e ` {i..<i + m}) \<and>
    (\<forall>a\<in>insert (arena_zero k) (arena_index e ` {i..<i + m}). z \<le> a)"
  using assms
proof (induction m arbitrary: i k R)
  case 0
  then show ?case by (intro exI [of _ "arena_zero k"]) simp
next
  case (Suc m)
  let ?a = "arena_index e i"
  let ?k = "k\<lparr>arena_zero := min ?a (arena_zero k)\<rparr>"
  have a: "arenas_create e i = (0, ?a)" "set_extent_hooks e ?a = 0" "?a < MALLOCX_ARENA_MAX"
    using Suc.prems by (auto simp: arena_index_def prod_eq_iff)
  have k: "(if arena_zero k > ?a then k\<lparr>arena_zero := ?a\<rparr> else k) = ?k" by (simp add: min_def)
  have step: "create_arenas e kp (Suc m) i k R = create_arenas e kp m (Suc i) ?k (R(?a \<mapsto> kp))"
    unfolding create_arenas.simps a(1) by (simp add: k Let_def a(2,3))
  have ins: "{i..<i + Suc m} = insert i {Suc i..<Suc i + m}" by auto
  have "\<forall>j. Suc i \<le> j \<and> j < Suc i + m \<longrightarrow> fst (arenas_create e j) = 0 \<and>
      set_extent_hooks e (arena_index e j) = 0 \<and> arena_index e j < MALLOCX_ARENA_MAX" using Suc.prems by simp
  from Suc.IH [OF this, of ?k "R(?a \<mapsto> kp)"] obtain z where z:
    "create_arenas e kp m (Suc i) ?k (R(?a \<mapsto> kp)) = Some (0, ?k\<lparr>arena_zero := z\<rparr>,
       \<lambda>x. if x \<in> arena_index e ` {Suc i..<Suc i + m} then Some kp else (R(?a \<mapsto> kp)) x)"
    "z \<in> insert (arena_zero ?k) (arena_index e ` {Suc i..<Suc i + m})"
    "\<forall>x\<in>insert (arena_zero ?k) (arena_index e ` {Suc i..<Suc i + m}). z \<le> x" by blast
  show ?case unfolding step z(1) ins
    using z(2,3) by (intro exI [of _ z]) (auto simp: fun_eq_iff min_def split: if_splits)
qed

lemma create_map_run:
  assumes "arena_init_status e = 0" "memkind_set_arena_map_len (arena_num_env e) (num_cpus e) k = Some (0, k1)"
    and c: "consecutive e R z (unat (arena_map_len k1))" and pos: "0 < unat (arena_map_len k1)"
  shows "memkind_arena_create_map e kp k R = Some (0, k1\<lparr>arena_zero := z\<rparr>,
    \<lambda>a. if a \<in> arena_range z (unat (arena_map_len k1)) then Some kp else R a)"
proof -
  let ?n = "unat (arena_map_len k1)"
  have im: "arena_index e ` {0..<?n} = arena_range z ?n" using c by (simp add: consecutive_def lessThan_atLeast0)
  have "\<forall>j. 0 \<le> j \<and> j < 0 + ?n \<longrightarrow> fst (arenas_create e j) = 0 \<and> set_extent_hooks e (arena_index e j) = 0 \<and>
    arena_index e j < MALLOCX_ARENA_MAX"
  proof (intro allI impI)
    fix j
    assume "0 \<le> j \<and> j < 0 + ?n"
    then have j: "j < ?n" "arena_index e j \<in> arena_range z ?n" using im by auto
    then have "arena_index e j < MALLOCX_ARENA_MAX"
      using c by (auto simp: consecutive_def arena_range_def word_less_nat_alt)
    then show "fst (arenas_create e j) = 0 \<and> set_extent_hooks e (arena_index e j) = 0 \<and> arena_index e j < MALLOCX_ARENA_MAX"
      using c j by (simp add: consecutive_def)
  qed
  from create_arenas_run [OF this, of kp "k1\<lparr>arena_zero := - 1\<rparr>" R] obtain z' where z':
    "create_arenas e kp ?n 0 (k1\<lparr>arena_zero := - 1\<rparr>) R =
      Some (0, k1\<lparr>arena_zero := z'\<rparr>, \<lambda>a. if a \<in> arena_range z ?n then Some kp else R a)"
    "z' \<in> insert (- 1) (arena_range z ?n)" "\<forall>a\<in>insert (- 1) (arena_range z ?n). z' \<le> a" by (auto simp: im)
  have "z \<in> arena_range z ?n" using pos by (simp add: arena_range_def)
  then have "z' \<le> z" using z'(3) by blast
  moreover have "z \<le> z'"
  proof (cases "z' = - 1")
    case False
    then show ?thesis using z'(2) by (simp add: arena_range_def word_le_nat_alt)
  qed simp
  ultimately have "z' = z" by simp
  then show ?thesis using assms(1,2) z'(1) by (simp add: memkind_arena_create_map_def)
qed

lemma destroy_arenas_run:
  assumes "unat (arena_zero k) + n \<le> unat MALLOCX_ARENA_MAX"
  shows "destroy_arenas k n R = Some (\<lambda>a. if a \<in> arena_range (arena_zero k) n then None else R a)"
  using assms
proof (induction n)
  case 0
  then show ?case by (auto simp: arena_range_def fun_eq_iff)
next
  case (Suc n)
  let ?a = "arena_zero k + of_nat n"
  have u: "unat ?a = unat (arena_zero k) + n"
  proof -
    have "n < 2 ^ 32" "unat (arena_zero k) + n < 2 ^ 32" using Suc.prems by (simp_all add: MALLOCX_ARENA_MAX_def)
    then show ?thesis by (subst unat_add_nowrap) (simp_all add: unat_of_nat take_bit_nat_eq_self)
  qed
  have lt: "?a < MALLOCX_ARENA_MAX" using Suc.prems by (simp only: word_less_nat_alt u)
  have "a \<in> arena_range (arena_zero k) (Suc n) \<longleftrightarrow> a = ?a \<or> a \<in> arena_range (arena_zero k) n" for a
    by (auto simp: arena_range_def word_unat_eq_iff u less_Suc_eq)
  then show ?case using Suc lt by (auto simp: fun_eq_iff)
qed

lemma get_arena_range:
  assumes "arena_map_len k = 2 ^ p" "arena_map_mask k = 2 ^ p - 1" "p \<le> 30"
    and "unat (arena_zero k) + 2 ^ p \<le> unat MALLOCX_ARENA_MAX"
  shows "get_arena self k \<in> arena_range (arena_zero k) (2 ^ p)" "get_arena self k < MALLOCX_ARENA_MAX"
proof -
  let ?i = "ucast (hash64 self AND ucast (arena_map_mask k)) :: 32 word"
  have m: "hash64 self AND ucast (arena_map_mask k) = take_bit p (hash64 self)"
  proof (rule bit_eqI)
    fix n
    show "bit (hash64 self AND ucast (arena_map_mask k)) n = bit (take_bit p (hash64 self)) n"
      using assms(3) by (auto simp: assms(2) bit_simps simp flip: mask_eq_exp_minus_1)
  qed
  have "unat (take_bit p (hash64 self)) = take_bit p (unat (hash64 self))" by (rule unsigned_take_bit_eq)
  then have i64: "unat (take_bit p (hash64 self)) < 2 ^ p" by simp
  have p32: "(2 :: nat) ^ p \<le> 2 ^ 30" using assms(3) by (intro power_increasing) simp_all
  have i: "unat ?i < 2 ^ p"
    using i64 p32 by (simp add: m unsigned_ucast_eq take_bit_nat_eq_self)
  have "0 < (2 :: nat) ^ p" by simp
  then have lt: "unat (arena_zero k) < unat MALLOCX_ARENA_MAX" using assms(4) by linarith
  have "get_arena self k \<in> arena_range (arena_zero k) (2 ^ p) \<and> get_arena self k < MALLOCX_ARENA_MAX"
  proof (cases "k_get_arena k")
    case BIJECTIVE_GET_ARENA
    then show ?thesis using lt
      by (simp add: get_arena_def memkind_bijective_get_arena_def arena_range_def word_less_nat_alt)
  next
    case THREAD_GET_ARENA
    have "unat (arena_zero k) + unat ?i < 2 ^ 32" using i assms(4) by (simp add: MALLOCX_ARENA_MAX_def)
    then have "unat (arena_zero k + ?i) = unat (arena_zero k) + unat ?i" by (intro unat_add_nowrap) simp
    then show ?thesis using i assms(4) THREAD_GET_ARENA
      by (simp add: get_arena_def memkind_thread_get_arena_def arena_range_def word_less_nat_alt)
  qed
  then show "get_arena self k \<in> arena_range (arena_zero k) (2 ^ p)" "get_arena self k < MALLOCX_ARENA_MAX" by simp_all
qed

section \<open>Properties\<close>

text \<open>
  C19: arenas belong to one kind.  When jemalloc gives a new kind consecutive unused arenas, in
  whatever order, \<open>memkind_arena_create_map\<close> succeeds and takes no arena from another kind.  A
  block that any thread then allocates from the kind is recognised as a block of this kind, and
  destroying the arenas of the kind restores the table as it was.
\<close>

theorem arena_ownership:
  assumes "arena_init_status e = 0" "arena_num_ok e"
    and "\<forall>k1. memkind_set_arena_map_len (arena_num_env e) (num_cpus e) k = Some (0, k1) \<longrightarrow>
      consecutive e R z (unat (arena_map_len k1))"
  shows "\<exists>k' R'. memkind_arena_create_map e kp k R = Some (0, k', R') \<and>
    (\<forall>x. R x \<noteq> None \<longrightarrow> R' x = R x) \<and>
    (\<forall>self a n J. n \<noteq> 0 \<longrightarrow> n < LLONG_MAX \<longrightarrow> (\<exists>J'. memkind_arena_malloc self (Some a) k' n J = (Some a, J') \<and>
      memkind_arena_detect_kind default_kind J' R' (Some a) = Some (Some kp))) \<and>
    memkind_arena_destroy k' R' = Some R"
proof -
  from map_len_run [OF assms(2), of k] obtain p where p: "p \<le> 30" "memkind_set_arena_map_len (arena_num_env e) (num_cpus e) k =
    Some (0, k\<lparr>arena_map_len := 2 ^ p, arena_map_mask := 2 ^ p - 1\<rparr>)" by blast
  let ?k = "k\<lparr>arena_map_len := 2 ^ p, arena_map_mask := 2 ^ p - 1, arena_zero := z\<rparr>"
  let ?R = "\<lambda>a. if a \<in> arena_range z (2 ^ p) then Some kp else R a"
  have u: "unat (2 ^ p :: 32 word) = 2 ^ p"
    using unat_of_nat [of "2 ^ p", where 'a = 32] power_strict_increasing [of p 32 "2 :: nat"] p(1) by simp
  have c: "consecutive e R z (2 ^ p)" using assms(3) p(2) u by auto
  then have bound: "unat z + 2 ^ p \<le> unat MALLOCX_ARENA_MAX" and free: "\<forall>a\<in>arena_range z (2 ^ p). R a = None"
    by (simp_all add: consecutive_def)
  have cr: "memkind_arena_create_map e kp k R = Some (0, ?k, ?R)"
    using create_map_run [OF assms(1) p(2), of R z kp] c u by simp
  have own: "get_arena self ?k \<in> arena_range z (2 ^ p)" "get_arena self ?k < MALLOCX_ARENA_MAX" for self
    using get_arena_range [of ?k p self] p(1) bound by simp_all
  have "\<exists>J'. memkind_arena_malloc self (Some a) ?k n J = (Some a, J') \<and>
      memkind_arena_detect_kind default_kind J' ?R (Some a) = Some (Some kp)" if "n \<noteq> 0" "n < LLONG_MAX" for self a n J
    using own that by (auto simp: memkind_arena_malloc_def jemk_mallocx_check_def jemk_mallocx_def
        memkind_arena_detect_kind_def get_kind_by_arena_def)
  moreover have "memkind_arena_destroy ?k ?R = Some R"
    using destroy_arenas_run [of ?k "2 ^ p" ?R] bound free u by (auto simp: memkind_arena_destroy_def fun_eq_iff)
  moreover have "\<forall>x. R x \<noteq> None \<longrightarrow> ?R x = R x" using free by auto
  ultimately show ?thesis using cr by blast
qed

definition demo_arena_env :: arena_env where
  "demo_arena_env = \<lparr>arenas_create = (\<lambda>i. (0, 13 - of_nat i)), set_extent_hooks = (\<lambda>_. 0), arena_init_status = 0,
     arena_num_env = Some 3, num_cpus = 8\<rparr>"

definition demo_kind :: kind where
  "demo_kind = \<lparr>k_get_arena = THREAD_GET_ARENA, k_destroy = PMEM_DESTROY, k_finalize = Some PMEM_DESTROY, k_partition = 26, k_name = ''pmem00000004'', arena_map_len = 0,
     arena_map_mask = 0, arena_zero = 0, k_priv = NULL\<rparr>"

theorem arena_ownership_witness:
  "\<exists>k' R' J'. memkind_arena_create_map demo_arena_env 8192 demo_kind Map.empty = Some (0, k', R') \<and>
     memkind_arena_malloc 99 (Some 4096) k' 64 Map.empty = (Some 4096, J') \<and>
     memkind_arena_detect_kind 64 J' R' (Some 4096) = Some (Some 8192)"
proof -
  have "integer_log2 3 = Some 1" by code_simp
  then have "round_pow2_up 3 = Some 4" by (simp add: round_pow2_up_def int_shl_def)
  then have len: "memkind_set_arena_map_len (arena_num_env demo_arena_env) (num_cpus demo_arena_env) demo_kind =
      Some (0, demo_kind\<lparr>arena_map_len := 4, arena_map_mask := 3\<rparr>)"
    by (simp add: memkind_set_arena_map_len_def demo_arena_env_def demo_kind_def)
  have r: "arena_range 10 4 = {10, 11, 12, 13}" by (auto simp: arena_range_def word_unat_eq_iff)
  have "{..<4 :: nat} = {0, 1, 2, 3}" by auto
  then have "arena_index demo_arena_env ` {..<4} = {10, 11, 12, 13}"
    by (simp add: arena_index_def demo_arena_env_def insert_commute)
  then have "consecutive demo_arena_env Map.empty 10 4"
    by (simp add: consecutive_def r) (simp add: demo_arena_env_def MALLOCX_ARENA_MAX_def)
  then have "\<forall>k1. memkind_set_arena_map_len (arena_num_env demo_arena_env) (num_cpus demo_arena_env) demo_kind = Some (0, k1) \<longrightarrow>
      consecutive demo_arena_env Map.empty 10 (unat (arena_map_len k1))" by (simp add: len)
  moreover have "arena_init_status demo_arena_env = 0" "arena_num_ok demo_arena_env"
    by (simp_all add: demo_arena_env_def arena_num_ok_def)
  ultimately obtain k' R' where "memkind_arena_create_map demo_arena_env 8192 demo_kind Map.empty = Some (0, k', R')"
    "\<forall>self a n J. n \<noteq> 0 \<longrightarrow> n < LLONG_MAX \<longrightarrow> (\<exists>J'. memkind_arena_malloc self (Some a) k' n J = (Some a, J') \<and>
      memkind_arena_detect_kind 64 J' R' (Some a) = Some (Some 8192))"
    using arena_ownership [of demo_arena_env demo_kind Map.empty 10 8192 64] by blast
  moreover have "(64 :: size_t) \<noteq> 0" "64 < LLONG_MAX" by (simp_all add: LLONG_MAX_def)
  ultimately show ?thesis by blast
qed

text \<open>
  \<open>calloc\<close> on an arena.  The block has the product of the two sizes if it fits into 64 bits.
  If the product overflows, the code still returns a block, which is smaller than what was asked
  for.
\<close>

theorem arena_calloc_wraps:
  assumes "num * n \<noteq> 0" "num * n < LLONG_MAX"
  shows "\<exists>arena sz J'. memkind_arena_calloc self (Some a) k num n J = (Some a, J') \<and> J' a = Some (arena, sz) \<and>
    (if unat num * unat n < 2 ^ 64 then unat sz = unat num * unat n else unat sz < unat num * unat n)"
proof -
  have "unat (num * n) = unat num * unat n mod 2 ^ 64" by (simp add: unat_word_ariths)
  moreover have "unat (num * n) < 2 ^ 64" using unsigned_less [of "num * n"] by simp
  ultimately show ?thesis using assms
    by (auto simp: memkind_arena_calloc_def jemk_mallocx_check_def jemk_mallocx_def not_less)
qed

theorem arena_calloc_wraps_witness:
  "\<exists>arena sz J'. memkind_arena_calloc 99 (Some 4096) demo_kind 0x200000000 0x80000001 Map.empty = (Some 4096, J') \<and>
     J' 4096 = Some (arena, sz) \<and> unat sz < 0x200000000 * 0x80000001"
  using arena_calloc_wraps [of "0x200000000" "0x80000001" 99 4096 demo_kind Map.empty] by (simp add: LLONG_MAX_def)

end
