(* ===== verification/Kind_Registry.thy ===== *)
theory Kind_Registry
  imports Memtier Memkind_Extents Memkind_Arena
begin

unbundle bit_operations_syntax

text \<open>
  The registry of kinds (\<open>src/src/memkind.c\<close>) and the creation and destruction of kinds of
  persistent memory (\<open>src/src/memkind_pmem.c\<close>).  Structures are objects in a store, so that the
  tables can hold pointers to structures that have been released.
\<close>

section \<open>State\<close>

definition MEMKIND_NUM_BASE_KIND :: nat where "MEMKIND_NUM_BASE_KIND = 26"
definition MEMKIND_NAME_LENGTH_PRIV :: nat where "MEMKIND_NAME_LENGTH_PRIV = 64"
definition MEMKIND_ERROR_UNAVAILABLE :: int where "MEMKIND_ERROR_UNAVAILABLE = -1"
definition MEMKIND_ERROR_MALLOC :: int where "MEMKIND_ERROR_MALLOC = -6"
definition MEMKIND_ERROR_TOOMANY :: int where "MEMKIND_ERROR_TOOMANY = -15"
definition MEMKIND_ERROR_BADOPS :: int where "MEMKIND_ERROR_BADOPS = -17"
definition MEMKIND_ERROR_MEMTYPE_NOT_AVAILABLE :: int where "MEMKIND_ERROR_MEMTYPE_NOT_AVAILABLE = -20"
definition MEMKIND_ERROR_RUNTIME :: int where "MEMKIND_ERROR_RUNTIME = -255"

text \<open>
  \<open>struct memkind_registry\<close> with the structures of the kinds and of persistent memory, the table of
  arenas, the open descriptors, and the state of the tiering layer.
\<close>

record registry =
  partition_map :: "nat \<Rightarrow> ptr"
  num_kind :: nat
  kinds :: "addr \<rightharpoonup> kind"
  pmems :: "addr \<rightharpoonup> memkind_pmem"
  arena_registry_g :: arena_registry
  open_fds :: "int set"
  reg_memtier :: memtier

text \<open>Which operations of a \<open>struct memkind_ops\<close> are set.\<close>

record memkind_ops =
  op_create :: bool
  op_destroy :: bool
  op_malloc :: bool
  op_calloc :: bool
  op_realloc :: bool
  op_posix_memalign :: bool
  op_free :: bool
  op_init_once :: bool
  op_get_arena :: get_arena_fn

definition MEMKIND_PMEM_OPS :: memkind_ops where
  "MEMKIND_PMEM_OPS = \<lparr>op_create = True, op_destroy = True, op_malloc = True, op_calloc = True, op_realloc = True,
     op_posix_memalign = True, op_free = True, op_init_once = False, op_get_arena = THREAD_GET_ARENA\<rparr>"

text \<open>
  What the calls of a creation answer: the addresses of the structures, the result of
  \<open>pthread_mutex_init\<close>, the arenas, the contents of a new \<open>struct memkind_pmem\<close>, the copy of the
  path, and whether the byte behind the copied path happens to be zero.
\<close>

record create_env =
  ce_kind :: ptr
  ce_priv :: ptr
  ce_mutex :: int
  ce_arena :: arena_env
  ce_junk :: memkind_pmem
  ce_dir :: ptr
  ce_zero :: bool

section \<open>Creation\<close>

definition memkind_default_create :: "memkind_ops \<Rightarrow> string \<Rightarrow> kind \<Rightarrow> int \<times> kind" where
  "memkind_default_create ops name k =
     (let k = k\<lparr>k_get_arena := op_get_arena ops, k_destroy := PMEM_DESTROY, k_finalize := Some PMEM_DESTROY\<rparr>
      in if length name \<ge> MEMKIND_NAME_LENGTH_PRIV then (MEMKIND_ERROR_INVALID, k\<lparr>k_name := ''''\<rparr>)
         else (0, k\<lparr>k_name := name\<rparr>))"

definition memkind_pmem_create :: "create_env \<Rightarrow> memkind_ops \<Rightarrow> string \<Rightarrow> addr \<Rightarrow> registry \<Rightarrow> (int \<times> registry) option" where
  "memkind_pmem_create e ops name kp G = (case ce_priv e of
     None \<Rightarrow> Some (MEMKIND_ERROR_MALLOC, G)
   | Some pp \<Rightarrow>
       if ce_mutex e \<noteq> 0 then Some (MEMKIND_ERROR_RUNTIME, G)
       else do {
         k \<leftarrow> kinds G kp;
         let (err, k) = memkind_default_create ops name k;
         let G = G\<lparr>kinds := (kinds G)(kp \<mapsto> k)\<rparr>;
         (if err \<noteq> 0 then Some (err, G)
          else do {
            (err, k, R) \<leftarrow> memkind_arena_create_map (ce_arena e) kp k (arena_registry_g G);
            let G = G\<lparr>kinds := (kinds G)(kp \<mapsto> k), arena_registry_g := R\<rparr>;
            Some (if err \<noteq> 0 then (err, G)
              else (0, G\<lparr>kinds := (kinds G)(kp \<mapsto> k\<lparr>k_priv := Some pp\<rparr>),
                pmems := (pmems G)(pp \<mapsto> ce_junk e)\<rparr>)) }) })"

text \<open>
  The search of \<open>memkind_create\<close>: the first empty slot, or \<^term>\<open>None\<close> when a kind before it has
  the name.  Without an empty slot \<open>id_kind\<close> keeps its initial value 0.
\<close>

primrec find_slot :: "registry \<Rightarrow> string \<Rightarrow> nat \<Rightarrow> nat \<Rightarrow> nat option option" where
  "find_slot G name 0 i = Some (Some 0)"
| "find_slot G name (Suc n) i = (case partition_map G i of
     None \<Rightarrow> Some (Some i)
   | Some kp \<Rightarrow> do {
       k \<leftarrow> kinds G kp;
       (if name = k_name k then Some None else find_slot G name n (Suc i)) })"

definition zero_kind :: kind where
  "zero_kind = \<lparr>k_get_arena = BIJECTIVE_GET_ARENA, k_destroy = DEFAULT_DESTROY, k_finalize = None, k_partition = 0,
     k_name = '''', arena_map_len = 0, arena_map_mask = 0, arena_zero = 0, k_priv = NULL\<rparr>"

definition ops_complete :: "memkind_ops \<Rightarrow> bool" where
  "ops_complete ops \<longleftrightarrow> op_create ops \<and> op_destroy ops \<and> op_malloc ops \<and> op_calloc ops \<and> op_realloc ops \<and>
     op_posix_memalign ops \<and> op_free ops \<and> \<not> op_init_once ops"

text \<open>
  The result is the error code, \<open>*kind\<close> and the state.  The only caller passes
  \<open>MEMKIND_PMEM_OPS\<close>, so \<open>ops->create\<close> is \<open>memkind_pmem_create\<close>.
\<close>

definition memkind_create :: "create_env \<Rightarrow> memkind_ops \<Rightarrow> string \<Rightarrow> registry \<Rightarrow> (int \<times> ptr \<times> registry) option" where
  "memkind_create e ops name G =
     (if num_kind G = MEMKIND_MAX_KIND then Some (MEMKIND_ERROR_TOOMANY, NULL, G)
      else if \<not> ops_complete ops then Some (MEMKIND_ERROR_BADOPS, NULL, G)
      else do {
        slot \<leftarrow> find_slot G name MEMKIND_MAX_KIND 0;
        (case slot of
           None \<Rightarrow> Some (MEMKIND_ERROR_INVALID, NULL, G)
         | Some id_kind \<Rightarrow> (case ce_kind e of
             None \<Rightarrow> Some (MEMKIND_ERROR_MALLOC, NULL, G)
           | Some kp \<Rightarrow> do {
               let G = G\<lparr>kinds := (kinds G)(kp \<mapsto> zero_kind\<lparr>k_partition := of_nat (num_kind G)\<rparr>)\<rparr>;
               (err, G) \<leftarrow> memkind_pmem_create e ops name kp G;
               Some (if err \<noteq> 0 then (err, Some kp, G\<lparr>kinds := (kinds G)(kp := None)\<rparr>)
                 else (0, Some kp, G\<lparr>partition_map := (partition_map G)(id_kind := Some kp),
                   num_kind := num_kind G + 1\<rparr>)) })) })"

section \<open>Destruction\<close>

definition memkind_destroy_dynamic_kind_from_register :: "nat \<Rightarrow> addr \<Rightarrow> registry \<Rightarrow> registry" where
  "memkind_destroy_dynamic_kind_from_register i kp G =
     (if i \<ge> MEMKIND_NUM_BASE_KIND
      then G\<lparr>partition_map := (partition_map G)(i := NULL), num_kind := num_kind G - 1,
        kinds := (kinds G)(kp := None)\<rparr>
      else G)"

definition memkind_pmem_destroy :: "addr \<Rightarrow> registry \<Rightarrow> (int \<times> registry) option" where
  "memkind_pmem_destroy kp G = do {
     k \<leftarrow> kinds G kp;
     pp \<leftarrow> k_priv k;
     R \<leftarrow> memkind_arena_destroy k (arena_registry_g G);
     c_assert (unat (k_partition k) < MEMKIND_MAX_KIND);
     let M = memtier_reset_size (unat (k_partition k)) (reg_memtier G);
     P \<leftarrow> pmems G pp;
     Some (0, G\<lparr>arena_registry_g := R, reg_memtier := M, open_fds := open_fds G - {pm_fd P},
       pmems := (pmems G)(pp := None)\<rparr>) }"

definition call_destroy :: "kind_fn \<Rightarrow> addr \<Rightarrow> registry \<Rightarrow> (int \<times> registry) option" where
  "call_destroy f kp G = (case f of
     DEFAULT_DESTROY \<Rightarrow> Some (0, G)
   | ARENA_DESTROY \<Rightarrow> do {
       k \<leftarrow> kinds G kp;
       R \<leftarrow> memkind_arena_destroy k (arena_registry_g G);
       Some (0, G\<lparr>arena_registry_g := R\<rparr>) }
   | PMEM_DESTROY \<Rightarrow> memkind_pmem_destroy kp G)"

primrec find_registered :: "registry \<Rightarrow> string \<Rightarrow> nat \<Rightarrow> nat \<Rightarrow> nat option option" where
  "find_registered G name 0 i = Some None"
| "find_registered G name (Suc n) i = (case partition_map G i of
     None \<Rightarrow> find_registered G name n (Suc i)
   | Some kp \<Rightarrow> do {
       k \<leftarrow> kinds G kp;
       (if name = k_name k then Some (Some i) else find_registered G name n (Suc i)) })"

definition memkind_destroy_kind :: "addr \<Rightarrow> registry \<Rightarrow> (int \<times> registry) option" where
  "memkind_destroy_kind kp G = do {
     k \<leftarrow> kinds G kp;
     (err, G) \<leftarrow> call_destroy (k_destroy k) kp G;
     slot \<leftarrow> find_registered G (k_name k) (MEMKIND_MAX_KIND - MEMKIND_NUM_BASE_KIND) MEMKIND_NUM_BASE_KIND;
     Some (err, case slot of
       None \<Rightarrow> G
     | Some i \<Rightarrow> memkind_destroy_dynamic_kind_from_register i kp G) }"

primrec finalize_kinds :: "nat \<Rightarrow> nat \<Rightarrow> registry \<Rightarrow> (int \<times> registry) option" where
  "finalize_kinds 0 i G = Some (0, G)"
| "finalize_kinds (Suc n) i G = (case partition_map G i of
     None \<Rightarrow> finalize_kinds n (Suc i) G
   | Some kp \<Rightarrow> do {
       k \<leftarrow> kinds G kp;
       (case k_finalize k of
          None \<Rightarrow> finalize_kinds n (Suc i) G
        | Some f \<Rightarrow> do {
            (err, G) \<leftarrow> call_destroy f kp G;
            (if err \<noteq> 0 then Some (err, G)
             else finalize_kinds n (Suc i) (memkind_destroy_dynamic_kind_from_register i kp G)) }) })"

definition memkind_finalize :: "registry \<Rightarrow> (int \<times> registry) option" where
  "memkind_finalize G = do {
     (err, G) \<leftarrow> finalize_kinds MEMKIND_MAX_KIND 0 G;
     c_assert (err \<noteq> 0 \<or> num_kind G = MEMKIND_NUM_BASE_KIND);
     Some (err, G) }"

definition memkind_get_kind_by_partition :: "int \<Rightarrow> registry \<Rightarrow> int \<times> ptr" where
  "memkind_get_kind_by_partition i G =
     (if 0 \<le> i \<and> i < int MEMKIND_MAX_KIND \<and> partition_map G (nat i) \<noteq> NULL then (0, partition_map G (nat i))
      else (MEMKIND_ERROR_UNAVAILABLE, NULL))"

section \<open>Kinds of persistent memory\<close>

definition MEMKIND_PMEM_MIN_SIZE :: size_t where "MEMKIND_PMEM_MIN_SIZE = 0x1000000"
definition MEMKIND_PMEM_CHUNK_SIZE :: size_t where "MEMKIND_PMEM_CHUNK_SIZE = 0x200000"

definition roundup :: "size_t \<Rightarrow> size_t \<Rightarrow> size_t" where
  "roundup x y = ((x + (y - 1)) div y) * y"

text \<open>\<open>snprintf\<close> of a descriptor with \<open>pmem%08x\<close>.\<close>

definition pmem_name :: "int \<Rightarrow> string" where
  "pmem_name fd = ''pmem'' @ map (\<lambda>i. hex_digit (nat (fd div 16 ^ i mod 16))) (rev [0..<8])"

text \<open>
  If the copy of the path cannot be allocated, the descriptor is closed but the error code is
  still 0.  The copy has no terminating zero of its own.
\<close>

definition memkind_create_pmem :: "kern \<Rightarrow> vm \<Rightarrow> create_env \<Rightarrow> string \<Rightarrow> size_t \<Rightarrow> registry \<Rightarrow> (int \<times> ptr \<times> registry) option" where
  "memkind_create_pmem K v e dir max_size G =
     (if max_size \<noteq> 0 \<and> max_size < MEMKIND_PMEM_MIN_SIZE then Some (MEMKIND_ERROR_INVALID, NULL, G)
      else
        let max_size = (if max_size \<noteq> 0 then roundup max_size MEMKIND_PMEM_CHUNK_SIZE else 0)
        in case memkind_pmem_create_tmpfile K dir v of
          (err, None) \<Rightarrow> Some (err, NULL, G)
        | (err, Some (fd, f)) \<Rightarrow> do {
            let G = G\<lparr>open_fds := insert fd (open_fds G)\<rparr>;
            (err, kd, G) \<leftarrow> memkind_create e MEMKIND_PMEM_OPS (pmem_name fd) G;
            (if err \<noteq> 0 then Some (err, kd, G\<lparr>open_fds := open_fds G - {fd}\<rparr>)
             else do {
               kp \<leftarrow> kd;
               k \<leftarrow> kinds G kp;
               pp \<leftarrow> k_priv k;
               P \<leftarrow> pmems G pp;
               let P = P\<lparr>pm_fd := fd, pm_file := f, pm_offset := 0, pm_current_size := 0, pm_max_size := max_size,
                 pm_dir := (if ce_dir e \<noteq> NULL \<and> ce_zero e then Some dir else None)\<rparr>;
               let G = G\<lparr>pmems := (pmems G)(pp \<mapsto> P)\<rparr>;
               Some (0, kd, if ce_dir e = NULL then G\<lparr>open_fds := open_fds G - {fd}\<rparr> else G) }) })"

section \<open>Selection of a static kind\<close>

definition MEMKIND_MEMTYPE_DEFAULT :: "32 word" where "MEMKIND_MEMTYPE_DEFAULT = 1"
definition MEMKIND_MEMTYPE_HIGH_BANDWIDTH :: "32 word" where "MEMKIND_MEMTYPE_HIGH_BANDWIDTH = 2"
definition MEMKIND_MASK_PAGE_SIZE_2MB :: "32 word" where "MEMKIND_MASK_PAGE_SIZE_2MB = 21"

datatype memkind_policy = BIND_LOCAL | BIND_ALL | PREFERRED_LOCAL | INTERLEAVE_LOCAL | INTERLEAVE_ALL | POLICY_MAX_VALUE

definition validate_memtype_bits :: "32 word \<Rightarrow> bool" where
  "validate_memtype_bits memtype \<longleftrightarrow> memtype \<noteq> 0 \<and>
     memtype AND NOT MEMKIND_MEMTYPE_DEFAULT AND NOT MEMKIND_MEMTYPE_HIGH_BANDWIDTH = 0"

definition validate_flags_bits :: "32 word \<Rightarrow> bool" where
  "validate_flags_bits flags \<longleftrightarrow> flags AND NOT MEMKIND_MASK_PAGE_SIZE_2MB = 0"

definition validate_policy :: "memkind_policy \<Rightarrow> bool" where
  "validate_policy policy \<longleftrightarrow> policy \<noteq> POLICY_MAX_VALUE"

text \<open>The kind is given by its partition.\<close>

definition supported_args :: "(nat \<times> memkind_policy \<times> 32 word \<times> 32 word) list" where
  "supported_args =
     [(1, BIND_LOCAL, 0, MEMKIND_MEMTYPE_HIGH_BANDWIDTH),
      (2, BIND_LOCAL, MEMKIND_MASK_PAGE_SIZE_2MB, MEMKIND_MEMTYPE_HIGH_BANDWIDTH),
      (12, BIND_ALL, 0, MEMKIND_MEMTYPE_HIGH_BANDWIDTH),
      (13, BIND_ALL, MEMKIND_MASK_PAGE_SIZE_2MB, MEMKIND_MEMTYPE_HIGH_BANDWIDTH),
      (3, PREFERRED_LOCAL, 0, MEMKIND_MEMTYPE_HIGH_BANDWIDTH),
      (4, PREFERRED_LOCAL, MEMKIND_MASK_PAGE_SIZE_2MB, MEMKIND_MEMTYPE_HIGH_BANDWIDTH),
      (9, INTERLEAVE_ALL, 0, MEMKIND_MEMTYPE_HIGH_BANDWIDTH),
      (0, PREFERRED_LOCAL, 0, MEMKIND_MEMTYPE_DEFAULT),
      (5, PREFERRED_LOCAL, MEMKIND_MASK_PAGE_SIZE_2MB, MEMKIND_MEMTYPE_DEFAULT),
      (10, INTERLEAVE_ALL, 0, MEMKIND_MEMTYPE_HIGH_BANDWIDTH OR MEMKIND_MEMTYPE_DEFAULT)]"

definition memkind_create_kind :: "(nat \<Rightarrow> int) \<Rightarrow> 32 word \<Rightarrow> memkind_policy \<Rightarrow> 32 word \<Rightarrow> int \<times> nat option" where
  "memkind_create_kind available memtype_flags policy flags =
     (if \<not> validate_memtype_bits memtype_flags \<or> \<not> validate_flags_bits flags \<or> \<not> validate_policy policy
      then (MEMKIND_ERROR_INVALID, None)
      else case find (\<lambda>(k, p, f, m). m = memtype_flags \<and> p = policy \<and> f = flags) supported_args of
        None \<Rightarrow> (MEMKIND_ERROR_INVALID, None)
      | Some (k, _) \<Rightarrow>
          if available k = 0 then (0, Some k)
          else if policy = PREFERRED_LOCAL then (0, Some 0)
          else (MEMKIND_ERROR_MEMTYPE_NOT_AVAILABLE, None))"

end
