(* ===== verification/Kind_Registry_Correct.thy ===== *)
theory Kind_Registry_Correct
  imports Kind_Registry Memtier_Policy
begin

text \<open>
  As long as kinds are only added, the registry is compact and every kind is found by its
  partition; after a kind in the middle has been destroyed, the next one gets the partition of
  another live kind.
\<close>

section \<open>Arena maps of a new kind\<close>

definition arena_env_ok :: "arena_env \<Rightarrow> bool" where
  "arena_env_ok e \<longleftrightarrow> arena_num_ok e \<and> (\<forall>i. snd (arenas_create e i) < MALLOCX_ARENA_MAX)"

lemma create_arenas_frame:
  assumes "\<forall>i. snd (arenas_create e i) < MALLOCX_ARENA_MAX"
  shows "\<exists>err z R'. create_arenas e kp m i k R = Some (err, k\<lparr>arena_zero := z\<rparr>, R')"
proof (induction m arbitrary: i k R)
  case 0
  then show ?case by (auto intro: exI [of _ "arena_zero k"])
next
  case (Suc m)
  obtain err a where a: "arenas_create e i = (err, a)" by fastforce
  let ?k = "if arena_zero k > a then k\<lparr>arena_zero := a\<rparr> else k"
  have k: "\<exists>z. ?k = k\<lparr>arena_zero := z\<rparr>"
    by (cases "arena_zero k > a") (auto intro: exI [of _ "arena_zero k"])
  have lt: "a < MALLOCX_ARENA_MAX" using assms [rule_format, of i] by (simp add: a)
  define R1 where "R1 = R(a \<mapsto> kp)"
  obtain z where z: "?k = k\<lparr>arena_zero := z\<rparr>" using k by blast
  obtain err' z' R' where ih: "create_arenas e kp m (Suc i) (k\<lparr>arena_zero := z\<rparr>) R1 = Some (err', k\<lparr>arena_zero := z'\<rparr>, R')"
    using Suc.IH [of "Suc i" "k\<lparr>arena_zero := z\<rparr>" R1] by auto
  have step: "create_arenas e kp (Suc m) i k R = (if err \<noteq> 0 then Some (MEMKIND_ERROR_ARENAS_CREATE, k, R) else
      if set_extent_hooks e a \<noteq> 0 then Some (set_extent_hooks e a, k\<lparr>arena_zero := z\<rparr>, R)
      else Some (err', k\<lparr>arena_zero := z'\<rparr>, R'))"
    unfolding create_arenas.simps a prod.case Let_def z R1_def [symmetric] ih using lt by simp
  show ?case
  proof (cases "err = 0")
    case True
    then show ?thesis by (auto simp: step simp del: create_arenas.simps)
  next
    case False
    then show ?thesis by (intro exI [of _ "MEMKIND_ERROR_ARENAS_CREATE"] exI [of _ "arena_zero k"] exI [of _ R])
      (simp add: step del: create_arenas.simps)
  qed
qed

lemma create_map_frame:
  assumes "arena_env_ok e"
  shows "\<exists>err k' R'. memkind_arena_create_map e kp k R = Some (err, k', R') \<and> k_partition k' = k_partition k \<and>
    k_name k' = k_name k \<and> k_destroy k' = k_destroy k"
proof (cases "arena_init_status e = 0")
  case True
  from assms map_len_run [of e k] obtain p where
    p: "memkind_set_arena_map_len (arena_num_env e) (num_cpus e) k =
      Some (0, k\<lparr>arena_map_len := 2 ^ p, arena_map_mask := 2 ^ p - 1\<rparr>)" by (auto simp: arena_env_ok_def)
  obtain err z R' where "create_arenas e kp (unat (2 ^ p :: 32 word)) 0
      (k\<lparr>arena_map_len := 2 ^ p, arena_map_mask := 2 ^ p - 1, arena_zero := - 1\<rparr>) R =
      Some (err, k\<lparr>arena_map_len := 2 ^ p, arena_map_mask := 2 ^ p - 1, arena_zero := z\<rparr>, R')"
    using create_arenas_frame [of e kp "unat (2 ^ p :: 32 word)" 0
        "k\<lparr>arena_map_len := 2 ^ p, arena_map_mask := 2 ^ p - 1, arena_zero := - 1\<rparr>" R] assms
    by (auto simp: arena_env_ok_def)
  then show ?thesis using True p by (simp add: memkind_arena_create_map_def)
next
  case False
  then show ?thesis by (simp add: memkind_arena_create_map_def)
qed

section \<open>Compact registries\<close>

definition slot_kind :: "registry \<Rightarrow> nat \<Rightarrow> kind option" where
  "slot_kind G i = do { kp \<leftarrow> partition_map G i; kinds G kp }"

text \<open>
  The slots below \<open>num_kind\<close> are the occupied ones, each holds a live kind whose partition is the
  slot, and names are unique.
\<close>

definition reg_compact :: "registry \<Rightarrow> bool" where
  "reg_compact G \<longleftrightarrow> MEMKIND_NUM_BASE_KIND \<le> num_kind G \<and> num_kind G \<le> MEMKIND_MAX_KIND \<and>
     (\<forall>i. partition_map G i \<noteq> NULL \<longleftrightarrow> i < num_kind G) \<and>
     (\<forall>i<num_kind G. \<exists>k. slot_kind G i = Some k \<and> unat (k_partition k) = i) \<and>
     inj_on (\<lambda>i. k_name (the (slot_kind G i))) {..<num_kind G}"

lemma compact_slot:
  assumes "reg_compact G" "i < num_kind G"
  obtains kp k where "partition_map G i = Some kp" "kinds G kp = Some k" "slot_kind G i = Some k" "unat (k_partition k) = i"
proof -
  from assms obtain k where k: "slot_kind G i = Some k" "unat (k_partition k) = i" by (auto simp: reg_compact_def)
  then obtain kp where "partition_map G i = Some kp" "kinds G kp = Some k" by (auto simp: slot_kind_def bind_eq_Some_conv)
  then show ?thesis using k that by blast
qed

lemma compact_ptr_inj:
  assumes "reg_compact G" "i < num_kind G" "j < num_kind G" "partition_map G i = partition_map G j"
  shows "i = j"
  by (metis assms compact_slot option.inject)

definition name_used :: "registry \<Rightarrow> string \<Rightarrow> nat \<Rightarrow> bool" where
  "name_used G name n \<longleftrightarrow> (\<exists>i<n. \<exists>k. slot_kind G i = Some k \<and> k_name k = name)"

text \<open>The search visits live kinds up to the first empty slot.\<close>

lemma find_slot_run:
  assumes "\<forall>j<h. slot_kind G j \<noteq> None" "partition_map G h = NULL" "i \<le> h" "h < i + n"
  shows "find_slot G name n i = Some (if \<exists>j. i \<le> j \<and> j < h \<and> k_name (the (slot_kind G j)) = name then None else Some h)"
  using assms(3,4)
proof (induction n arbitrary: i)
  case (Suc n)
  show ?case
  proof (cases "i = h")
    case True
    then show ?thesis using assms(2) by simp
  next
    case False
    then have ih: "i < h" using Suc.prems by simp
    then obtain kp k where k: "partition_map G i = Some kp" "kinds G kp = Some k" "slot_kind G i = Some k"
      using assms(1) by (fastforce simp: slot_kind_def bind_eq_Some_conv)
    have split: "(\<exists>j. i \<le> j \<and> j < h \<and> k_name (the (slot_kind G j)) = name) \<longleftrightarrow>
        k_name k = name \<or> (\<exists>j. Suc i \<le> j \<and> j < h \<and> k_name (the (slot_kind G j)) = name)"
    proof -
      have "i \<le> j \<longleftrightarrow> j = i \<or> Suc i \<le> j" for j by auto
      then show ?thesis using ih k(3) by auto
    qed
    show ?thesis using k(1,2) Suc.IH [of "Suc i"] Suc.prems ih unfolding split by auto
  qed
qed simp

section \<open>Creation\<close>

lemma pmem_create_frame:
  assumes "arena_env_ok (ce_arena e)" "kinds G kp = Some k0"
  shows "\<exists>err G' k. memkind_pmem_create e ops name kp G = Some (err, G') \<and> partition_map G' = partition_map G \<and>
    num_kind G' = num_kind G \<and> (\<forall>q. q \<noteq> kp \<longrightarrow> kinds G' q = kinds G q) \<and>
    kinds G' kp = Some k \<and> k_partition k = k_partition k0 \<and> (err = 0 \<longrightarrow> k_name k = name)"
proof (cases "ce_priv e = None \<or> ce_mutex e \<noteq> 0")
  case True
  then show ?thesis using assms(2)
    by (auto simp: memkind_pmem_create_def MEMKIND_ERROR_MALLOC_def MEMKIND_ERROR_RUNTIME_def split: option.split)
next
  case False
  then obtain pp where pp: "ce_priv e = Some pp" "ce_mutex e = 0" by auto
  obtain err k where k: "memkind_default_create ops name k0 = (err, k)" by fastforce
  then have kp: "k_partition k = k_partition k0" "err = 0 \<longrightarrow> k_name k = name"
    by (auto simp: memkind_default_create_def Let_def MEMKIND_ERROR_INVALID_def split: if_splits)
  show ?thesis
  proof (cases "err = 0")
    case True
    obtain err' k' R' where m: "memkind_arena_create_map (ce_arena e) kp k (arena_registry_g G) = Some (err', k', R')"
      "k_partition k' = k_partition k" "k_name k' = k_name k" using create_map_frame [OF assms(1)] by blast
    show ?thesis using pp assms(2) k kp True m by (cases "err' = 0") (auto simp: memkind_pmem_create_def Let_def)
  next
    case False
    then show ?thesis using pp assms(2) k kp by (auto simp: memkind_pmem_create_def)
  qed
qed

lemma kind_at_frame:
  assumes "partition_map G' i = partition_map G i" "\<And>q. partition_map G i = Some q \<Longrightarrow> kinds G' q = kinds G q"
  shows "slot_kind G' i = slot_kind G i"
  using assms by (cases "partition_map G i") (simp_all add: slot_kind_def)

lemma compact_frame:
  assumes "reg_compact G" "partition_map G' = partition_map G" "num_kind G' = num_kind G"
    and "\<And>q. kinds G q \<noteq> None \<Longrightarrow> kinds G' q = kinds G q"
  shows "reg_compact G'"
proof -
  have at: "slot_kind G' i = slot_kind G i" if "i < num_kind G" for i
    using assms compact_slot [OF assms(1) that] by (intro kind_at_frame) (metis option.inject option.distinct(1))+
  then have "inj_on (\<lambda>i. k_name (the (slot_kind G' i))) {..<num_kind G} = inj_on (\<lambda>i. k_name (the (slot_kind G i))) {..<num_kind G}"
    by (intro inj_on_cong) simp
  then show ?thesis using assms(1-3) at unfolding reg_compact_def by simp
qed

lemma compact_grow:
  assumes c: "reg_compact G" and n: "num_kind G < MEMKIND_MAX_KIND" and name: "\<not> name_used G name (num_kind G)"
    and new: "kinds G kp = None" and G': "partition_map G' = (partition_map G)(num_kind G := Some kp)"
      "num_kind G' = num_kind G + 1" "\<And>q. q \<noteq> kp \<Longrightarrow> kinds G' q = kinds G q"
    and k: "kinds G' kp = Some k" "unat (k_partition k) = num_kind G" "k_name k = name"
  shows "reg_compact G'"
proof -
  have old: "slot_kind G' i = slot_kind G i" if "i < num_kind G" for i
  proof (rule kind_at_frame)
    show "partition_map G' i = partition_map G i" using that by (simp add: G'(1))
    show "kinds G' q = kinds G q" if "partition_map G i = Some q" for q
      using compact_slot [OF c \<open>i < num_kind G\<close>] new that by (intro G'(3)) fastforce
  qed
  have last: "slot_kind G' (num_kind G) = Some k" by (simp add: slot_kind_def G'(1) k(1))
  have "\<exists>k. slot_kind G' i = Some k \<and> unat (k_partition k) = i" if "i < num_kind G'" for i
    using that old last k(2) c by (cases "i = num_kind G") (auto simp: G'(2) reg_compact_def)
  moreover have "inj_on (\<lambda>i. k_name (the (slot_kind G' i))) {..<num_kind G'}"
  proof -
    have "inj_on (\<lambda>i. k_name (the (slot_kind G' i))) {..<num_kind G} = inj_on (\<lambda>i. k_name (the (slot_kind G i))) {..<num_kind G}"
      by (intro inj_on_cong) (simp add: old)
    moreover have "k_name (the (slot_kind G' i)) \<noteq> name" if "i < num_kind G" for i
      using that name old [OF that] compact_slot [OF c that] unfolding name_used_def by (metis option.sel)
    ultimately show ?thesis using c
      by (auto simp: G'(2) lessThan_Suc last k(3) reg_compact_def)
  qed
  moreover have "partition_map G' i \<noteq> NULL \<longleftrightarrow> i < num_kind G'" for i
    using c by (auto simp: G' reg_compact_def less_Suc_eq)
  ultimately show ?thesis using c n by (simp add: reg_compact_def G'(2))
qed

lemma compact_find_slot:
  assumes c: "reg_compact G" and n: "num_kind G < MEMKIND_MAX_KIND"
  shows "find_slot G name MEMKIND_MAX_KIND 0 = Some (if name_used G name (num_kind G) then None else Some (num_kind G))"
proof -
  have live: "slot_kind G j \<noteq> None" if "j < num_kind G" for j using compact_slot [OF c that] by (metis option.distinct(1))
  have "partition_map G (num_kind G) = NULL" using c by (auto simp: reg_compact_def)
  moreover have "(\<exists>j. 0 \<le> j \<and> j < num_kind G \<and> k_name (the (slot_kind G j)) = name) \<longleftrightarrow> name_used G name (num_kind G)"
    using live unfolding name_used_def by force
  ultimately show ?thesis using find_slot_run [of "num_kind G" G 0 MEMKIND_MAX_KIND name] live n by simp
qed

lemma registry_create_run:
  assumes c: "reg_compact G" and e: "arena_env_ok (ce_arena e)" and fresh: "\<forall>kp. ce_kind e = Some kp \<longrightarrow> kinds G kp = None"
  shows "\<exists>err kd G'. memkind_create e ops name G = Some (err, kd, G') \<and> reg_compact G' \<and>
    (if err = 0 then \<exists>kp k. kd = Some kp \<and> kinds G' kp = Some k \<and> k_name k = name \<and> unat (k_partition k) = num_kind G \<and>
        num_kind G' = num_kind G + 1 \<and> partition_map G' = (partition_map G)(num_kind G := Some kp)
     else partition_map G' = partition_map G \<and> num_kind G' = num_kind G) \<and>
    (num_kind G = MEMKIND_MAX_KIND \<longrightarrow> err = MEMKIND_ERROR_TOOMANY) \<and>
    (num_kind G < MEMKIND_MAX_KIND \<and> ops_complete ops \<and> name_used G name (num_kind G) \<longrightarrow> err = MEMKIND_ERROR_INVALID)"
proof (cases "num_kind G = MEMKIND_MAX_KIND \<or> \<not> ops_complete ops")
  case True
  then show ?thesis using c
    by (auto simp: memkind_create_def MEMKIND_ERROR_TOOMANY_def MEMKIND_ERROR_BADOPS_def)
next
  case False
  then have n: "num_kind G < MEMKIND_MAX_KIND" "ops_complete ops" using c by (auto simp: reg_compact_def)
  note slot = compact_find_slot [OF c n(1), of name]
  show ?thesis
  proof (cases "name_used G name (num_kind G)")
    case True
    then show ?thesis using c n slot by (simp add: memkind_create_def MEMKIND_ERROR_INVALID_def)
  next
    case unused: False
    show ?thesis
    proof (cases "ce_kind e")
      case None
      then show ?thesis using c n slot unused by (simp add: memkind_create_def MEMKIND_ERROR_MALLOC_def)
    next
      case (Some kp)
      let ?k0 = "zero_kind\<lparr>k_partition := of_nat (num_kind G)\<rparr>"
      define G1 where "G1 = G\<lparr>kinds := (kinds G)(kp \<mapsto> ?k0)\<rparr>"
      have "kinds G1 kp = Some ?k0" by (simp add: G1_def)
      from pmem_create_frame [OF e this, of ops name] obtain err G2 k where
        p: "memkind_pmem_create e ops name kp G1 = Some (err, G2)" "partition_map G2 = partition_map G" "num_kind G2 = num_kind G"
          "\<forall>q. q \<noteq> kp \<longrightarrow> kinds G2 q = kinds G q" "kinds G2 kp = Some k" "k_partition k = of_nat (num_kind G)"
          "err = 0 \<longrightarrow> k_name k = name" by (auto simp: G1_def)
      have part: "unat (k_partition k) = num_kind G"
        using n(1) by (simp add: p(6) MEMKIND_MAX_KIND_def unat_of_nat take_bit_nat_eq_self)
      have new: "kinds G kp = None" using fresh Some by blast
      let ?G3 = "if err \<noteq> 0 then G2\<lparr>kinds := (kinds G2)(kp := None)\<rparr>
        else G2\<lparr>partition_map := (partition_map G2)(num_kind G := Some kp), num_kind := num_kind G2 + 1\<rparr>"
      have r: "memkind_create e ops name G = Some (err, Some kp, ?G3)"
        using n slot unused Some p(1) by (simp add: memkind_create_def G1_def)
      show ?thesis
      proof (cases "err = 0")
        case True
        have "reg_compact ?G3" by (rule compact_grow [OF c n(1) unused new]) (use True p part in simp_all)
        then show ?thesis using r True p part n(1) unused by simp
      next
        case False
        have "reg_compact ?G3" by (rule compact_frame [OF c]) (use False p new in auto)
        then show ?thesis using r False p n(1) unused by simp
      qed
    qed
  qed
qed

section \<open>Destruction\<close>

text \<open>A kind of persistent memory whose structures and arenas are in place.\<close>

definition pmem_kind_ok :: "registry \<Rightarrow> kind \<Rightarrow> bool" where
  "pmem_kind_ok G k \<longleftrightarrow> k_destroy k = PMEM_DESTROY \<and> (\<exists>pp. k_priv k = Some pp \<and> pmems G pp \<noteq> None) \<and>
     unat (arena_zero k) + unat (arena_map_len k) \<le> unat MALLOCX_ARENA_MAX"

lemma find_registered_run:
  assumes "\<forall>j. i \<le> j \<and> j < h \<longrightarrow> (\<exists>k. slot_kind G j = Some k \<and> k_name k \<noteq> name)"
    and "slot_kind G h = Some k" "k_name k = name" "i \<le> h" "h < i + n"
  shows "find_registered G name n i = Some (Some h)"
  using assms(1,4,5)
proof (induction n arbitrary: i)
  case (Suc n)
  show ?case
  proof (cases "i = h")
    case True
    then show ?thesis using assms(2,3) by (auto simp: slot_kind_def bind_eq_Some_conv)
  next
    case False
    then obtain k' where "slot_kind G i = Some k'" "k_name k' \<noteq> name" using Suc.prems by force
    then show ?thesis using Suc False by (auto simp: slot_kind_def bind_eq_Some_conv)
  qed
qed simp

lemma registry_destroy_run:
  assumes c: "reg_compact G" and i: "MEMKIND_NUM_BASE_KIND \<le> i" "i < num_kind G"
    and k: "partition_map G i = Some kp" "kinds G kp = Some k" "pmem_kind_ok G k"
  shows "\<exists>G'. memkind_destroy_kind kp G = Some (0, G') \<and> partition_map G' = (partition_map G)(i := NULL) \<and>
    num_kind G' = num_kind G - 1 \<and> kinds G' = (kinds G)(kp := None) \<and>
    reg_memtier G' = memtier_reset_size i (reg_memtier G) \<and>
    arena_registry_g G' = (\<lambda>a. if a \<in> arena_range (arena_zero k) (unat (arena_map_len k)) then None else arena_registry_g G a)"
proof -
  obtain pp P where pp: "k_priv k = Some pp" "pmems G pp = Some P" and d: "k_destroy k = PMEM_DESTROY"
    and z: "unat (arena_zero k) + unat (arena_map_len k) \<le> unat MALLOCX_ARENA_MAX"
    using k(3) by (auto simp: pmem_kind_ok_def)
  have at: "slot_kind G i = Some k" using k by (simp add: slot_kind_def)
  have part: "unat (k_partition k) = i" using compact_slot [OF c i(2)] at by (metis option.inject)
  have max: "i < MEMKIND_MAX_KIND" using i(2) c by (simp add: reg_compact_def)
  define G1 where "G1 = G\<lparr>arena_registry_g := (\<lambda>a. if a \<in> arena_range (arena_zero k) (unat (arena_map_len k)) then None
      else arena_registry_g G a), reg_memtier := memtier_reset_size i (reg_memtier G),
      open_fds := open_fds G - {pm_fd P}, pmems := (pmems G)(pp := None)\<rparr>"
  have d1: "call_destroy (k_destroy k) kp G = Some (0, G1)"
    using destroy_arenas_run [OF z, of "arena_registry_g G"] k(2) pp part max
    by (simp add: d call_destroy_def memkind_pmem_destroy_def memkind_arena_destroy_def G1_def)
  have at1: "slot_kind G1 j = slot_kind G j" for j by (simp add: slot_kind_def G1_def)
  have "find_registered G1 (k_name k) (MEMKIND_MAX_KIND - MEMKIND_NUM_BASE_KIND) MEMKIND_NUM_BASE_KIND = Some (Some i)"
  proof (rule find_registered_run)
    show "\<forall>j. MEMKIND_NUM_BASE_KIND \<le> j \<and> j < i \<longrightarrow> (\<exists>k'. slot_kind G1 j = Some k' \<and> k_name k' \<noteq> k_name k)"
    proof (intro allI impI)
      fix j
      assume j: "MEMKIND_NUM_BASE_KIND \<le> j \<and> j < i"
      then have jn: "j < num_kind G" using i(2) by simp
      obtain k' where k': "slot_kind G j = Some k'" using compact_slot [OF c jn] by metis
      have "k_name k' \<noteq> k_name k"
      proof
        assume "k_name k' = k_name k"
        then have "j = i" using c i(2) jn k' at inj_onD [of "\<lambda>i. k_name (the (slot_kind G i))" "{..<num_kind G}" j i]
          by (simp add: reg_compact_def)
        then show False using j by simp
      qed
      then show "\<exists>k'. slot_kind G1 j = Some k' \<and> k_name k' \<noteq> k_name k" using k' at1 by simp
    qed
  qed (use at at1 i max in simp_all)
  then show ?thesis using k(2) d1 i(1)
    by (simp add: memkind_destroy_kind_def memkind_destroy_dynamic_kind_from_register_def G1_def)
qed

lemma create_arenas_ok:
  assumes "\<forall>i. fst (arenas_create e i) = 0 \<and> snd (arenas_create e i) < MALLOCX_ARENA_MAX \<and>
    set_extent_hooks e (snd (arenas_create e i)) = 0"
  shows "\<exists>k' R'. create_arenas e kp m i k R = Some (0, k', R')"
  using create_arenas_run [of i m e kp k R] assms unfolding arena_index_def by blast

text \<open>jemalloc grants every request for an arena.\<close>

definition arenas_granted :: "arena_env \<Rightarrow> bool" where
  "arenas_granted e \<longleftrightarrow> arena_num_ok e \<and> arena_init_status e = 0 \<and> (\<forall>i. fst (arenas_create e i) = 0 \<and>
     snd (arenas_create e i) < MALLOCX_ARENA_MAX \<and> set_extent_hooks e (snd (arenas_create e i)) = 0)"

lemma create_map_ok:
  assumes "arenas_granted e"
  shows "\<exists>k' R'. memkind_arena_create_map e kp k R = Some (0, k', R') \<and> k_partition k' = k_partition k \<and> k_name k' = k_name k"
proof -
  have ok: "arena_env_ok e" "arena_num_ok e" "arena_init_status e = 0" using assms by (simp_all add: arenas_granted_def arena_env_ok_def)
  from create_map_frame [OF ok(1), of kp k R] obtain err k' R' where
    f: "memkind_arena_create_map e kp k R = Some (err, k', R')" "k_partition k' = k_partition k" "k_name k' = k_name k" by blast
  obtain k1 where l: "memkind_set_arena_map_len (arena_num_env e) (num_cpus e) k = Some (0, k1)"
    using map_len_run [OF ok(2), of k] by blast
  obtain k2 R2 where "create_arenas e kp (unat (arena_map_len k1)) 0 (k1\<lparr>arena_zero := - 1\<rparr>) R = Some (0, k2, R2)"
    using create_arenas_ok [of e kp "unat (arena_map_len k1)" 0 "k1\<lparr>arena_zero := - 1\<rparr>" R] assms
    unfolding arenas_granted_def by blast
  then have "memkind_arena_create_map e kp k R = Some (0, k2, R2)" using ok(3) l by (simp add: memkind_arena_create_map_def)
  then show ?thesis using f by simp
qed

text \<open>With the arenas granted the creation succeeds and fills the slot it found.\<close>

lemma create_granted:
  assumes "find_slot G name MEMKIND_MAX_KIND 0 = Some (Some i)" "num_kind G \<noteq> MEMKIND_MAX_KIND"
    and "ce_kind e = Some kp" "ce_priv e = Some pp" "ce_mutex e = 0" "arenas_granted (ce_arena e)"
    and "length name < MEMKIND_NAME_LENGTH_PRIV"
  shows "\<exists>k G'. memkind_create e MEMKIND_PMEM_OPS name G = Some (0, Some kp, G') \<and> kinds G' = (kinds G)(kp \<mapsto> k) \<and>
    partition_map G' = (partition_map G)(i := Some kp) \<and> k_name k = name \<and> k_partition k = of_nat (num_kind G)"
proof -
  let ?k0 = "zero_kind\<lparr>k_partition := of_nat (num_kind G)\<rparr>"
  obtain k1 where k1: "memkind_default_create MEMKIND_PMEM_OPS name ?k0 = (0, k1)" "k_partition k1 = of_nat (num_kind G)" "k_name k1 = name"
    using assms(7) by (auto simp: memkind_default_create_def Let_def not_le)
  obtain k2 R2 where k2: "memkind_arena_create_map (ce_arena e) kp k1 (arena_registry_g G) = Some (0, k2, R2)"
    "k_partition k2 = k_partition k1" "k_name k2 = k_name k1" using create_map_ok [OF assms(6)] by blast
  define Ga where "Ga = G\<lparr>kinds := (kinds G)(kp \<mapsto> ?k0)\<rparr>"
  obtain Gb where Gb: "memkind_pmem_create e MEMKIND_PMEM_OPS name kp Ga = Some (0, Gb)"
    "kinds Gb = (kinds G)(kp \<mapsto> k2\<lparr>k_priv := Some pp\<rparr>)" "partition_map Gb = partition_map G"
    using k1(1) k2(1) assms(4,5) by (simp add: memkind_pmem_create_def Ga_def Let_def)
  have "ops_complete MEMKIND_PMEM_OPS" by (simp add: ops_complete_def MEMKIND_PMEM_OPS_def)
  then show ?thesis using assms(1-3) Gb k1 k2(2,3)
    by (intro exI [of _ "k2\<lparr>k_priv := Some pp\<rparr>"]) (simp add: memkind_create_def Ga_def)
qed

text \<open>After a destruction the search stops at the hole.\<close>

lemma hole_find_slot:
  assumes c: "reg_compact G" and i: "i < num_kind G" and kp: "partition_map G i = Some kp"
    and G1: "partition_map G1 = (partition_map G)(i := NULL)" "kinds G1 = (kinds G)(kp := None)"
    and unused: "\<not> name_used G name i"
  shows "find_slot G1 name MEMKIND_MAX_KIND 0 = Some (Some i)"
proof -
  have below: "slot_kind G1 j = slot_kind G j" if "j \<noteq> i" "j < num_kind G" for j
    using that G1 compact_ptr_inj [OF c that(2) i] kp by (intro kind_at_frame) auto
  have live: "slot_kind G1 j \<noteq> None" if "j < i" for j
    using that below [of j] compact_slot [OF c, of j] i by (metis less_trans nat_neq_iff option.distinct(1))
  have "\<not> (\<exists>j. 0 \<le> j \<and> j < i \<and> k_name (the (slot_kind G1 j)) = name)"
  proof (rule notI, elim exE conjE)
    fix j
    assume j: "j < i" "k_name (the (slot_kind G1 j)) = name"
    then have "slot_kind G j = slot_kind G1 j" using below [of j] i by simp
    then obtain k0 where "slot_kind G j = Some k0" "k_name k0 = name" using live [OF j(1)] j(2) by auto
    then show False using unused j(1) by (auto simp: name_used_def)
  qed
  moreover have "i < MEMKIND_MAX_KIND" using i c by (simp add: reg_compact_def)
  ultimately show ?thesis using find_slot_run [of i G1 0 MEMKIND_MAX_KIND name] live by (simp add: G1(1))
qed

section \<open>An example\<close>

text \<open>Twenty-eight kinds at consecutive addresses, each with a name of its own length.\<close>

definition example_kind :: "nat \<Rightarrow> kind" where
  "example_kind i = \<lparr>k_get_arena = THREAD_GET_ARENA, k_destroy = PMEM_DESTROY, k_finalize = Some PMEM_DESTROY,
     k_partition = of_nat i, k_name = replicate i CHR ''k'', arena_map_len = 4, arena_map_mask = 3, arena_zero = 300,
     k_priv = Some 65536\<rparr>"

definition example_pmem :: memkind_pmem where
  "example_pmem = \<lparr>pm_fd = 4, pm_file = 6, pm_offset = 0, pm_max_size = 0, pm_current_size = 0, pm_dir = Some ''/mnt''\<rparr>"

definition example_registry :: registry where
  "example_registry = \<lparr>partition_map = (\<lambda>i. if i < 28 then Some (4096 + of_nat i) else NULL), num_kind = 28,
     kinds = (\<lambda>p. if unat (p - 4096) < 28 then Some (example_kind (unat (p - 4096))) else None),
     pmems = [65536 \<mapsto> example_pmem], arena_registry_g = Map.empty, open_fds = {}, reg_memtier = demo_memtier\<rparr>"

definition example_create_env :: "(nat \<Rightarrow> int \<times> 32 word) \<Rightarrow> create_env" where
  "example_create_env create = \<lparr>ce_kind = Some 8192, ce_priv = Some 131072, ce_mutex = 0,
     ce_arena = \<lparr>arenas_create = create, set_extent_hooks = (\<lambda>_. 0), arena_init_status = 0, arena_num_env = Some 4, num_cpus = 8\<rparr>,
     ce_junk = example_pmem, ce_dir = Some 262144, ce_zero = True\<rparr>"

text \<open>All requests for an arena are granted, or only the first.\<close>

definition example_granted :: "nat \<Rightarrow> int \<times> 32 word" where
  "example_granted i = (0, 5 + of_nat i mod 256)"

definition example_refused :: "nat \<Rightarrow> int \<times> 32 word" where
  "example_refused i = (if i = 0 then (0, 5) else (1, 0))"

lemma example_slot: "i < 28 \<Longrightarrow> slot_kind example_registry i = Some (example_kind i)"
  by (simp add: slot_kind_def example_registry_def unat_of_nat take_bit_nat_eq_self)

lemma example_compact: "reg_compact example_registry"
proof -
  have num: "num_kind example_registry = 28" by (simp add: example_registry_def)
  have "inj_on (\<lambda>i. k_name (the (slot_kind example_registry i))) {..<28}"
    by (intro inj_onI) (simp add: example_slot example_kind_def)
  moreover have "unat (k_partition (example_kind i)) = i" if "i < 28" for i
    using that by (simp add: example_kind_def unat_of_nat take_bit_nat_eq_self)
  ultimately show ?thesis
    by (simp add: reg_compact_def num example_slot MEMKIND_NUM_BASE_KIND_def MEMKIND_MAX_KIND_def)
      (simp add: example_registry_def)
qed

lemma example_fresh: "kinds example_registry 8192 = None"
  by (simp add: example_registry_def)

lemma example_arenas: "arenas_granted (ce_arena (example_create_env example_granted))"
proof -
  have "5 + w mod 256 < (0xffe :: 32 word)" for w :: "32 word"
  proof -
    have "w mod 256 < 256" by (simp add: word_mod_less_divisor)
    then show ?thesis by unat_arith
  qed
  then show ?thesis
    by (simp add: arenas_granted_def arena_num_ok_def example_create_env_def example_granted_def MALLOCX_ARENA_MAX_def)
qed

lemma example_name_used:
  "name_used example_registry name n \<longleftrightarrow> (\<exists>i<n. replicate i CHR ''k'' = name)" if "n \<le> 28"
  using that by (auto simp: name_used_def example_slot example_kind_def)

section \<open>Properties\<close>

text \<open>
  C18: creation of a kind.  In a compact registry \<open>memkind_create\<close> returns whatever jemalloc answers,
  and the registry stays compact.  On success the new kind has the requested name and is what its
  own partition leads to, and all other partitions lead to the same kinds as before; on a failure
  the registry is unchanged.  A full registry and a name in use are reported as such.
\<close>

theorem registry_create_correct:
  assumes "reg_compact G" "arena_env_ok (ce_arena e)" "\<forall>kp. ce_kind e = Some kp \<longrightarrow> kinds G kp = None"
  shows "\<exists>err kd G'. memkind_create e ops name G = Some (err, kd, G') \<and> reg_compact G' \<and>
    (if err = 0 then \<exists>kp k. kd = Some kp \<and> kinds G' kp = Some k \<and> k_name k = name \<and>
        memkind_get_kind_by_partition (int (unat (k_partition k))) G' = (0, Some kp) \<and>
        (\<forall>i. i \<noteq> int (unat (k_partition k)) \<longrightarrow> memkind_get_kind_by_partition i G' = memkind_get_kind_by_partition i G)
     else \<forall>i. memkind_get_kind_by_partition i G' = memkind_get_kind_by_partition i G) \<and>
    (num_kind G = MEMKIND_MAX_KIND \<longrightarrow> err = MEMKIND_ERROR_TOOMANY) \<and>
    (num_kind G < MEMKIND_MAX_KIND \<and> ops_complete ops \<and> name_used G name (num_kind G) \<longrightarrow> err = MEMKIND_ERROR_INVALID)"
proof -
  from registry_create_run [OF assms, of ops name] obtain err kd G' where r: "memkind_create e ops name G = Some (err, kd, G')" "reg_compact G'"
    "if err = 0 then \<exists>kp k. kd = Some kp \<and> kinds G' kp = Some k \<and> k_name k = name \<and> unat (k_partition k) = num_kind G \<and>
        num_kind G' = num_kind G + 1 \<and> partition_map G' = (partition_map G)(num_kind G := Some kp)
     else partition_map G' = partition_map G \<and> num_kind G' = num_kind G"
    "num_kind G = MEMKIND_MAX_KIND \<longrightarrow> err = MEMKIND_ERROR_TOOMANY"
    "num_kind G < MEMKIND_MAX_KIND \<and> ops_complete ops \<and> name_used G name (num_kind G) \<longrightarrow> err = MEMKIND_ERROR_INVALID" by blast
  show ?thesis
  proof (cases "err = 0")
    case True
    then obtain kp k where k: "kd = Some kp" "kinds G' kp = Some k" "k_name k = name" "unat (k_partition k) = num_kind G"
      "num_kind G' = num_kind G + 1" "partition_map G' = (partition_map G)(num_kind G := Some kp)" using r(3) by auto
    have lt: "num_kind G < MEMKIND_MAX_KIND" using r(2) k(5) by (simp add: reg_compact_def)
    have self: "memkind_get_kind_by_partition (int (unat (k_partition k))) G' = (0, Some kp)"
      using lt unfolding k(4) by (simp add: memkind_get_kind_by_partition_def k(6))
    have others: "memkind_get_kind_by_partition i G' = memkind_get_kind_by_partition i G" if "i \<noteq> int (unat (k_partition k))" for i
      using that unfolding k(4) by (auto simp: memkind_get_kind_by_partition_def k(6))
    have "\<exists>kp k. kd = Some kp \<and> kinds G' kp = Some k \<and> k_name k = name \<and>
        memkind_get_kind_by_partition (int (unat (k_partition k))) G' = (0, Some kp) \<and>
        (\<forall>i. i \<noteq> int (unat (k_partition k)) \<longrightarrow> memkind_get_kind_by_partition i G' = memkind_get_kind_by_partition i G)"
      using k(1-3) self others by blast
    then show ?thesis using r(1,2,4,5) True by (intro exI [of _ err] exI [of _ kd] exI [of _ G']) simp
  next
    case False
    then show ?thesis using r by (auto simp: memkind_get_kind_by_partition_def)
  qed
qed

lemma registry_create_correct_witness:
  "(\<exists>err kd G'. memkind_create (example_create_env example_granted) MEMKIND_PMEM_OPS ''pmem'' example_registry = Some (err, kd, G') \<and>
     reg_compact G') \<and>
   (\<exists>kd G'. memkind_create (example_create_env example_granted) MEMKIND_PMEM_OPS ''kkk'' example_registry =
     Some (MEMKIND_ERROR_INVALID, kd, G'))"
proof
  have env: "arena_env_ok (ce_arena (example_create_env example_granted))"
    using example_arenas by (simp add: arenas_granted_def arena_env_ok_def)
  have fresh: "\<forall>kp. ce_kind (example_create_env example_granted) = Some kp \<longrightarrow> kinds example_registry kp = None"
    by (simp add: example_create_env_def example_fresh)
  note inst = registry_create_correct [OF example_compact env fresh, of MEMKIND_PMEM_OPS]
  show "\<exists>err kd G'. memkind_create (example_create_env example_granted) MEMKIND_PMEM_OPS ''pmem'' example_registry = Some (err, kd, G') \<and>
     reg_compact G'" using inst [of "''pmem''"] by blast
  have "name_used example_registry ''kkk'' 28" by (simp add: example_name_used) (intro exI [of _ 3], simp add: numeral_3_eq_3)
  moreover have "num_kind example_registry = 28" "ops_complete MEMKIND_PMEM_OPS" "28 < MEMKIND_MAX_KIND"
    by (simp_all add: example_registry_def ops_complete_def MEMKIND_PMEM_OPS_def MEMKIND_MAX_KIND_def)
  ultimately show "\<exists>kd G'. memkind_create (example_create_env example_granted) MEMKIND_PMEM_OPS ''kkk'' example_registry =
     Some (MEMKIND_ERROR_INVALID, kd, G')" using inst [of "''kkk''"] by auto
qed

text \<open>
  C38: a destroyed kind leaves a hole that breaks the registry.  Destroy a dynamic kind other than the
  last one and create a new kind.  The new kind goes into the hole but gets the partition of the
  last kind: two live kinds share a partition, and with it the counters of the tiering layer, and
  the partition of the new kind leads to the other one.
\<close>

theorem registry_hole_duplicates:
  assumes "reg_compact G" "MEMKIND_NUM_BASE_KIND \<le> i" "i + 1 < num_kind G"
    and "partition_map G i = Some kp" "kinds G kp = Some k" "pmem_kind_ok G k"
    and "ce_kind e = Some kp'" "kinds G kp' = None" "ce_priv e = Some pp" "ce_mutex e = 0" "arenas_granted (ce_arena e)"
    and "length name < MEMKIND_NAME_LENGTH_PRIV" "\<not> name_used G name i"
  shows "\<exists>G1 G2 k' q kq. memkind_destroy_kind kp G = Some (0, G1) \<and>
    memkind_create e MEMKIND_PMEM_OPS name G1 = Some (0, Some kp', G2) \<and>
    kinds G2 kp' = Some k' \<and> k_name k' = name \<and> q \<noteq> kp' \<and> kinds G2 q = Some kq \<and> k_partition kq = k_partition k' \<and>
    memkind_get_kind_by_partition (int (unat (k_partition k'))) G2 = (0, Some q)"
proof -
  note c = assms(1)
  have i: "i < num_kind G" using assms(3) by simp
  from registry_destroy_run [OF c assms(2) i assms(4-6)] obtain G1 where G1: "memkind_destroy_kind kp G = Some (0, G1)"
    "partition_map G1 = (partition_map G)(i := NULL)" "num_kind G1 = num_kind G - 1" "kinds G1 = (kinds G)(kp := None)" by blast
  have slot: "find_slot G1 name MEMKIND_MAX_KIND 0 = Some (Some i)"
    by (rule hole_find_slot [OF c i assms(4) G1(2,4) assms(13)])
  have num_le: "num_kind G \<le> MEMKIND_MAX_KIND" using c by (simp add: reg_compact_def)
  have full: "num_kind G1 \<noteq> MEMKIND_MAX_KIND" "num_kind G - 1 < MEMKIND_MAX_KIND"
    using num_le assms(3) by (simp_all add: G1(3))
  from create_granted [OF slot full(1) assms(7,9-12)] obtain k2 G2 where
    G2: "memkind_create e MEMKIND_PMEM_OPS name G1 = Some (0, Some kp', G2)" "kinds G2 = (kinds G1)(kp' \<mapsto> k2)"
      "partition_map G2 = (partition_map G1)(i := Some kp')"
    and k2: "k_name k2 = name" "k_partition k2 = of_nat (num_kind G - 1)" unfolding G1(3) by blast
  let ?l = "num_kind G - 1"
  have l: "?l < num_kind G" "?l \<noteq> i" using assms(3) by simp_all
  obtain q kq where q: "partition_map G ?l = Some q" "kinds G q = Some kq" "unat (k_partition kq) = ?l"
    using compact_slot [OF c l(1)] by metis
  have "q \<noteq> kp" using compact_ptr_inj [OF c l(1) i] q(1) assms(4) l(2) by auto
  moreover have "q \<noteq> kp'" using q(2) assms(8) by auto
  ultimately have kq: "kinds G2 q = Some kq" "partition_map G2 ?l = Some q"
    using q l(2) by (simp_all add: G2(2,3) G1(2,4))
  have u: "unat (of_nat ?l :: 32 word) = ?l"
    using full(2) by (simp add: MEMKIND_MAX_KIND_def unat_of_nat take_bit_nat_eq_self)
  have part: "k_partition kq = k_partition k2" using q(3) k2(2) u by (metis word_unat_eq_iff)
  have "memkind_get_kind_by_partition (int (unat (k_partition k2))) G2 = (0, Some q)"
    using kq(2) full(2) q(3) part by (simp add: memkind_get_kind_by_partition_def del: of_nat_unat) 
  then show ?thesis using G1(1) G2(1,2) kq(1) part k2(1) \<open>q \<noteq> kp'\<close>
    by (intro exI [of _ G1] exI [of _ G2] exI [of _ k2] exI [of _ q] exI [of _ kq]) simp
qed

lemma registry_hole_duplicates_witness:
  "\<exists>G1 G2 k' q kq. memkind_destroy_kind 4122 example_registry = Some (0, G1) \<and>
    memkind_create (example_create_env example_granted) MEMKIND_PMEM_OPS ''pmem'' G1 = Some (0, Some 8192, G2) \<and>
    kinds G2 8192 = Some k' \<and> kinds G2 q = Some kq \<and> q \<noteq> 8192 \<and> k_partition kq = k_partition k'"
proof -
  have "partition_map example_registry 26 = Some 4122" "kinds example_registry 4122 = Some (example_kind 26)"
    "num_kind example_registry = 28" by (simp_all add: example_registry_def)
  moreover have "pmem_kind_ok example_registry (example_kind 26)"
    by (simp add: pmem_kind_ok_def example_kind_def example_registry_def MALLOCX_ARENA_MAX_def)
  moreover have "\<not> name_used example_registry ''pmem'' 26" by (auto simp: example_name_used Cons_replicate_eq eq_commute [of "replicate _ _"])
  ultimately show ?thesis
    using registry_hole_duplicates [OF example_compact, of 26 4122 "example_kind 26" "example_create_env example_granted" 8192 131072 "''pmem''"]
      example_fresh example_arenas
    by (simp add: example_create_env_def MEMKIND_NUM_BASE_KIND_def MEMKIND_NAME_LENGTH_PRIV_def) blast
qed

lemma create_map_partial:
  assumes "arena_init_status e = 0" "k_get_arena k = THREAD_GET_ARENA" "arena_num_env e = Some n" "2 \<le> n" "n \<le> 2 ^ 30"
    and "arenas_create e 0 = (0, a)" "set_extent_hooks e a = 0" "a < MALLOCX_ARENA_MAX" "fst (arenas_create e 1) \<noteq> 0"
  shows "\<exists>k'. memkind_arena_create_map e kp k R = Some (MEMKIND_ERROR_ARENAS_CREATE, k', R(a \<mapsto> kp))"
proof -
  have n: "0 < n" "n \<noteq> 0" "\<not> n > 2 ^ 31 - 1" using assms(4,5) by simp_all
  from round_pow2_up_run [OF n(1) assms(5)] obtain p where p: "p \<le> 30" "round_pow2_up (of_nat n) = Some (2 ^ p)" "n \<le> 2 ^ p" by blast
  have u: "unat (2 ^ p :: 32 word) = 2 ^ p"
    using unat_of_nat [of "2 ^ p", where 'a = 32] power_strict_increasing [of p 32 "2 :: nat"] p(1) by simp
  have "2 \<le> unat (2 ^ p :: 32 word)" using p(3) assms(4) by (simp add: u)
  from le_Suc_ex [OF this] obtain m where "unat (2 ^ p :: 32 word) = 2 + m" by (elim exE)
  then have m: "unat (2 ^ p :: 32 word) = Suc (Suc m)" by (simp only: numeral_2_eq_2 add_Suc add_0)
  obtain err b where b: "arenas_create e (Suc 0) = (err, b)" by fastforce
  then have err: "err \<noteq> 0" using assms(9) by simp
  have len: "memkind_set_arena_map_len (arena_num_env e) (num_cpus e) k = Some (0, k\<lparr>arena_map_len := 2 ^ p, arena_map_mask := 2 ^ p - 1\<rparr>)"
    using assms(2,3) n(2,3) p(2) by (simp add: memkind_set_arena_map_len_def)
  define k1 where "k1 = k\<lparr>arena_map_len := 2 ^ p, arena_map_mask := 2 ^ p - 1\<rparr>"
  have "memkind_arena_create_map e kp k R = create_arenas e kp (Suc (Suc m)) 0 (k1\<lparr>arena_zero := - 1\<rparr>) R"
    using assms(1) len by (simp add: memkind_arena_create_map_def k1_def m del: create_arenas.simps)
  also have "\<dots> = Some (MEMKIND_ERROR_ARENAS_CREATE, if arena_zero (k1\<lparr>arena_zero := - 1\<rparr>) > a then k1\<lparr>arena_zero := a\<rparr> else k1\<lparr>arena_zero := - 1\<rparr>, R(a \<mapsto> kp))"
    using assms(6-8) err by (simp add: b Let_def)
  finally show ?thesis by blast
qed

text \<open>
  C39: a creation that fails half-way leaves dangling pointers.  If jemalloc grants the first arena and
  refuses the second, \<open>memkind_create\<close> reports the error and releases the structure of the kind, but
  the table of arenas still leads from the first arena to it.
\<close>

theorem create_failure_dangles:
  assumes "reg_compact G" "num_kind G < MEMKIND_MAX_KIND" "\<not> name_used G name (num_kind G)"
    and "length name < MEMKIND_NAME_LENGTH_PRIV" "ce_kind e = Some kp" "ce_priv e = Some pp" "ce_mutex e = 0"
    and "arena_init_status (ce_arena e) = 0" "arena_num_env (ce_arena e) = Some n" "2 \<le> n" "n \<le> 2 ^ 30"
    and "arenas_create (ce_arena e) 0 = (0, a)" "set_extent_hooks (ce_arena e) a = 0" "a < MALLOCX_ARENA_MAX"
    and "fst (arenas_create (ce_arena e) 1) \<noteq> 0"
  shows "\<exists>G'. memkind_create e MEMKIND_PMEM_OPS name G = Some (MEMKIND_ERROR_ARENAS_CREATE, Some kp, G') \<and>
    kinds G' kp = None \<and> get_kind_by_arena (arena_registry_g G') a = Some (Some kp)"
proof -
  have slot: "find_slot G name MEMKIND_MAX_KIND 0 = Some (Some (num_kind G))"
    by (simp add: compact_find_slot [OF assms(1,2)] assms(3))
  let ?k0 = "zero_kind\<lparr>k_partition := of_nat (num_kind G)\<rparr>"
  obtain k1 where k1: "memkind_default_create MEMKIND_PMEM_OPS name ?k0 = (0, k1)" "k_get_arena k1 = THREAD_GET_ARENA"
    using assms(4) by (auto simp: memkind_default_create_def Let_def not_le MEMKIND_PMEM_OPS_def)
  define Ga where "Ga = G\<lparr>kinds := (kinds G)(kp \<mapsto> ?k0)\<rparr>"
  obtain k2 where k2: "memkind_arena_create_map (ce_arena e) kp k1 (arena_registry_g G) =
      Some (MEMKIND_ERROR_ARENAS_CREATE, k2, (arena_registry_g G)(a \<mapsto> kp))"
    using create_map_partial [OF assms(8) k1(2) assms(9-15)] by blast
  have err: "MEMKIND_ERROR_ARENAS_CREATE \<noteq> 0" by (simp add: MEMKIND_ERROR_ARENAS_CREATE_def)
  obtain Gb where Gb: "memkind_pmem_create e MEMKIND_PMEM_OPS name kp Ga = Some (MEMKIND_ERROR_ARENAS_CREATE, Gb)"
    "arena_registry_g Gb = (arena_registry_g G)(a \<mapsto> kp)"
    using k1(1) k2 assms(6,7) err by (simp add: memkind_pmem_create_def Ga_def Let_def)
  have "ops_complete MEMKIND_PMEM_OPS" by (simp add: ops_complete_def MEMKIND_PMEM_OPS_def)
  then show ?thesis using assms(2,5,14) slot Gb err
    by (simp add: memkind_create_def Ga_def get_kind_by_arena_def)
qed

lemma create_failure_dangles_witness:
  "\<exists>G'. memkind_create (example_create_env example_refused) MEMKIND_PMEM_OPS ''pmem'' example_registry =
      Some (MEMKIND_ERROR_ARENAS_CREATE, Some 8192, G') \<and>
    kinds G' 8192 = None \<and> get_kind_by_arena (arena_registry_g G') 5 = Some (Some 8192)"
proof (rule create_failure_dangles [OF example_compact, where n = 4 and pp = 131072])
  show "\<not> name_used example_registry ''pmem'' (num_kind example_registry)"
    by (auto simp: example_registry_def [THEN arg_cong [of _ _ num_kind]] example_name_used Cons_replicate_eq eq_commute [of "replicate _ _"])
qed (simp_all add: example_create_env_def example_refused_def example_registry_def MEMKIND_MAX_KIND_def MEMKIND_NAME_LENGTH_PRIV_def
    MALLOCX_ARENA_MAX_def)

end
