(* ===== verification/Tiering_Ctl.thy ===== *)
theory Tiering_Ctl
  imports Kind_Registry Memtier_Ctl
begin

unbundle bit_operations_syntax

text \<open>
  The configuration of a tiered memory from environment variables (\<open>src/tiering/ctl.c\<close>).

  A \<open>char *\<close> is the string up to the next zero byte.  The functions cut the buffers they read at
  separators, but only in front of the pointers they keep, so strings can be values.  A function
  that can return an error gives \<^term>\<open>None\<close> for it inside the outer option of the calls that
  read through \<open>NULL\<close>.
\<close>

section \<open>Strings\<close>

text \<open>\<open>strtok_r\<close>: the token, if there is one, and the position behind it.\<close>

definition strtok_r :: "char \<Rightarrow> string \<Rightarrow> string option \<times> string" where
  "strtok_r sep s = (let s = dropWhile (\<lambda>c. c = sep) s in
     if s = [] then (None, [])
     else (Some (takeWhile (\<lambda>c. c \<noteq> sep) s), drop 1 (dropWhile (\<lambda>c. c \<noteq> sep) s)))"

definition digit_val :: "char \<Rightarrow> nat" where
  "digit_val c = (let n = of_char c in
     if 48 \<le> n \<and> n \<le> 57 then n - 48 else if 97 \<le> n \<and> n \<le> 122 then n - 87
     else if 65 \<le> n \<and> n \<le> 90 then n - 55 else 36)"

definition base_val :: "nat \<Rightarrow> string \<Rightarrow> nat" where
  "base_val base ds = foldl (\<lambda>n c. base * n + digit_val c) 0 ds"

text \<open>The base of a number and its digits: hexadecimal behind \<open>0x\<close>, octal behind another 0.\<close>

definition number_base :: "string \<Rightarrow> nat \<times> string" where
  "number_base s = (case s of
     c # x # h # rest \<Rightarrow>
       if c = CHR ''0'' \<and> (x = CHR ''x'' \<or> x = CHR ''X'') \<and> digit_val h < 16 then (16, h # rest)
       else (if c = CHR ''0'' then 8 else 10, s)
   | c # _ \<Rightarrow> (if c = CHR ''0'' then 8 else 10, s)
   | [] \<Rightarrow> (10, []))"

text \<open>
  \<open>strtoul\<close> and \<open>strtoull\<close> with base 0: \<^term>\<open>None\<close> when nothing was read, otherwise the value and
  whether it was out of range.
\<close>

definition strtoull :: "string \<Rightarrow> (64 word \<times> bool) option" where
  "strtoull str =
     (let s = dropWhile is_space str;
          neg = (s \<noteq> [] \<and> hd s = CHR ''-'');
          s = (if s \<noteq> [] \<and> (hd s = CHR ''-'' \<or> hd s = CHR ''+'') then tl s else s);
          (base, s) = number_base s;
          ds = takeWhile (\<lambda>c. digit_val c < base) s;
          v = base_val base ds
      in if ds = [] then None
         else if v \<ge> 2 ^ 64 then Some (-1, True)
         else Some (if neg then - of_nat v else of_nat v, False))"

section \<open>Numbers\<close>

definition ctl_parse_u :: "string \<Rightarrow> (32 word) option" where
  "ctl_parse_u str =
     (if str \<noteq> [] \<and> hd str = CHR ''-'' then None
      else case strtoull str of
        None \<Rightarrow> None
      | Some (val_ul, erange) \<Rightarrow> if erange \<or> val_ul > 0xFFFFFFFF then None else Some (ucast val_ul))"

definition ctl_parse_size_t :: "string \<Rightarrow> size_t option" where
  "ctl_parse_size_t str =
     (if str \<noteq> [] \<and> hd str = CHR ''-'' then None
      else case strtoull str of
        None \<Rightarrow> None
      | Some (val_ul, erange) \<Rightarrow> if erange then None else Some val_ul)"

definition suffixes :: "(string \<times> size_t) list" where
  "suffixes = [(''K'', 2 ^ 10), (''M'', 2 ^ 20), (''G'', 2 ^ 30)]"

text \<open>
  A size with an optional unit.  \<open>sscanf\<close> with \<open>%31[0-9]%2s\<close> reads the digits and, behind white
  space, at most two characters of the unit.
\<close>

definition ctl_parse_size :: "string option \<Rightarrow> size_t option option" where
  "ctl_parse_size sptr = do {
     s \<leftarrow> sptr;
     Some (case fst (strtok_r CHR '':'' s) of
       None \<Rightarrow> None
     | Some size_str \<Rightarrow>
         if hd size_str = CHR ''-'' then None
         else
           let digits = take 31 (takeWhile is_digit size_str);
               unit_str = take 2 (takeWhile (\<lambda>c. \<not> is_space c) (dropWhile is_space (drop (length digits) size_str)))
           in case ctl_parse_size_t digits of
             None \<Rightarrow> None
           | Some n \<Rightarrow>
               if unit_str = [] then Some n
               else case map_of suffixes unit_str of
                 None \<Rightarrow> None
               | Some mag \<Rightarrow> if (-1) div mag \<ge> n then Some (n * mag) else None) }"

definition ctl_parse_policy :: "string \<Rightarrow> nat option" where
  "ctl_parse_policy qbuf =
     (if qbuf = ''STATIC_RATIO'' then Some MEMTIER_POLICY_STATIC_RATIO
      else if qbuf = ''DYNAMIC_THRESHOLD'' then Some MEMTIER_POLICY_DYNAMIC_THRESHOLD
      else if qbuf = ''DATA_HOTNESS'' then Some MEMTIER_POLICY_DATA_HOTNESS
      else None)"

text \<open>The second component is \<open>*sptr\<close> after the call.\<close>

definition ctl_parse_ratio :: "string \<Rightarrow> (32 word) option \<times> string" where
  "ctl_parse_ratio s = (case strtok_r CHR '':'' s of
     (None, s) \<Rightarrow> (None, s)
   | (Some str, s) \<Rightarrow> (case ctl_parse_u str of
       None \<Rightarrow> (None, s)
     | Some dest \<Rightarrow> (if dest = 0 then None else Some dest, s)))"

section \<open>State and surroundings\<close>

text \<open>
  The kinds of file-system DAX that were created; \<^term>\<open>None\<close> once the array has been released.
\<close>

record ctl_state =
  ct_reg :: registry
  fs_dax_kinds :: "addr list option"

text \<open>
  The answers of the calls: whether memory can be taken from \<open>MEMKIND_DAX_KMEM\<close>, the surroundings
  of the \<open>i\<close>-th creation of a kind, and the results of the allocations.
\<close>

record ctl_env =
  MEMKIND_DAX_KMEM :: memkind
  dax_kmem_ok :: bool
  pmem_env :: "nat \<Rightarrow> kern \<times> vm \<times> create_env"
  fs_dax_ok :: "nat \<Rightarrow> bool"
  builder_ok :: bool
  tier_ok :: "nat \<Rightarrow> nat \<Rightarrow> bool"
  tier_junk :: "nat \<Rightarrow> memtier_threshold_cfg"
  mem_boot :: boot
  mem_weight :: real
  mem_alloc :: "nat \<Rightarrow> bool"
  mem_junk :: memtier_memory
  mem_kind0 :: memkind

definition ctl_add_pmem_kind_to_fs_dax_reg :: "bool \<Rightarrow> addr \<Rightarrow> ctl_state \<Rightarrow> (int \<times> ctl_state) option" where
  "ctl_add_pmem_kind_to_fs_dax_reg ok kp S = do {
     ks \<leftarrow> fs_dax_kinds S;
     Some (if \<not> ok then (-1, S) else (0, S\<lparr>fs_dax_kinds := Some (ks @ [kp])\<rparr>)) }"

primrec destroy_kinds :: "addr list \<Rightarrow> registry \<Rightarrow> registry option" where
  "destroy_kinds [] G = Some G"
| "destroy_kinds (kp # ks) G = do { (err, G) \<leftarrow> memkind_destroy_kind kp G; destroy_kinds ks G }"

text \<open>The array is released, but neither the pointer nor the size is reset.\<close>

definition ctl_destroy_fs_dax_reg :: "ctl_state \<Rightarrow> ctl_state option" where
  "ctl_destroy_fs_dax_reg S = do {
     ks \<leftarrow> fs_dax_kinds S;
     G \<leftarrow> destroy_kinds ks (ct_reg S);
     Some (S\<lparr>ct_reg := G, fs_dax_kinds := (if ks = [] then Some [] else None)\<rparr>) }"

section \<open>Tiers\<close>

text \<open>The local variables of \<open>ctl_parse_tier_query\<close>.\<close>

record tier_query =
  tq_kind :: "memkind option"
  tq_ratio :: "32 word"
  is_fsdax :: bool
  fsdax_path :: "string option"
  fsdax_size_str :: "string option"
  ratio_str :: "string option"
  kind_set :: bool
  fsdax_path_set :: bool
  fsdax_size_set :: bool
  ratio_set :: bool

definition tier_query0 :: tier_query where
  "tier_query0 = \<lparr>tq_kind = None, tq_ratio = 0, is_fsdax = False, fsdax_path = None, fsdax_size_str = None,
     ratio_str = None, kind_set = False, fsdax_path_set = False, fsdax_size_set = False, ratio_set = False\<rparr>"

text \<open>One parameter: \<open>D\<close> is \<open>MEMKIND_DEFAULT\<close>, \<open>sptr\<close> the text behind the name of the parameter.\<close>

definition tier_param :: "ctl_env \<Rightarrow> memkind \<Rightarrow> string \<Rightarrow> string \<Rightarrow> tier_query \<Rightarrow> (tier_query \<times> string) option option" where
  "tier_param e D param_str sptr q = (let (v, sptr) = strtok_r CHR '','' sptr in
     if param_str = ''KIND'' then
       if kind_set q then Some None
       else do {
         kind_name \<leftarrow> v;
         Some (if kind_name = ''DRAM'' then Some (q\<lparr>tq_kind := Some D, kind_set := True\<rparr>, sptr)
           else if kind_name = ''KMEM_DAX'' then
             if \<not> dax_kmem_ok e then None
             else Some (q\<lparr>tq_kind := Some (MEMKIND_DAX_KMEM e), kind_set := True\<rparr>, sptr)
           else if kind_name = ''FS_DAX'' then Some (q\<lparr>is_fsdax := True, kind_set := True\<rparr>, sptr)
           else None) }
     else if param_str = ''PATH'' then
       Some (if fsdax_path_set q then None else Some (q\<lparr>fsdax_path := v, fsdax_path_set := True\<rparr>, sptr))
     else if param_str = ''PMEM_SIZE_LIMIT'' then
       Some (if fsdax_size_set q then None else Some (q\<lparr>fsdax_size_str := v, fsdax_size_set := True\<rparr>, sptr))
     else if param_str = ''RATIO'' then
       if ratio_set q then Some None
       else do {
         s \<leftarrow> v;
         Some (case fst (ctl_parse_ratio s) of
           None \<Rightarrow> None
         | Some r \<Rightarrow> Some (q\<lparr>tq_ratio := r, ratio_str := Some (snd (ctl_parse_ratio s)), ratio_set := True\<rparr>, sptr)) }
     else Some None)"

lemma strtok_shorter: "strtok_r sep s = (Some t, r) \<Longrightarrow> length r < length s"
proof -
  assume a: "strtok_r sep s = (Some t, r)"
  define d where "d = dropWhile (\<lambda>c. c = sep) s"
  have d: "d \<noteq> []" "r = drop 1 (dropWhile (\<lambda>c. c \<noteq> sep) d)" using a by (auto simp: strtok_r_def Let_def d_def split: if_splits)
  have "length (dropWhile (\<lambda>c. c \<noteq> sep) d) \<le> length d" "length d \<le> length s" by (simp_all add: d_def length_dropWhile_le)
  then show ?thesis using d by (cases d) auto
qed

lemma strtok_rest: "length (snd (strtok_r sep s)) \<le> length s"
  using strtok_shorter [of sep s] by (cases "strtok_r sep s"; cases "fst (strtok_r sep s)") (auto simp: strtok_r_def Let_def split: if_splits)

lemma tier_param_shorter: "tier_param e D p s q = Some (Some (q', s')) \<Longrightarrow> length s' \<le> length s"
  using strtok_rest [of "CHR '',''" s]
  by (auto simp: tier_param_def bind_eq_Some_conv split: prod.splits if_splits option.splits)

lemma tier_step_shorter:
  "(Some p, r) = strtok_r CHR '':'' s \<Longrightarrow> tier_param e D p r q = Some (Some (q', s')) \<Longrightarrow> length s' < length s"
  by (drule sym, drule strtok_shorter, drule tier_param_shorter) simp

function tier_params :: "ctl_env \<Rightarrow> memkind \<Rightarrow> string \<Rightarrow> tier_query \<Rightarrow> (tier_query \<times> string) option option" where
  "tier_params e D s q = (case strtok_r CHR '':'' s of
     (None, s) \<Rightarrow> Some (Some (q, s))
   | (Some param_str, sptr) \<Rightarrow> (case tier_param e D param_str sptr q of
       None \<Rightarrow> None
     | Some None \<Rightarrow> Some None
     | Some (Some (q, sptr)) \<Rightarrow> tier_params e D sptr q))"
  by pat_completeness auto
termination
  by (relation "measure (\<lambda>(e, D, s, q). length s)") (auto dest: tier_step_shorter)

declare tier_params.simps [simp del]

text \<open>A new kind in a directory, remembered for its destruction.\<close>

definition ctl_create_fs_dax_kind :: "ctl_env \<Rightarrow> nat \<Rightarrow> string \<Rightarrow> size_t \<Rightarrow> ctl_state \<Rightarrow> (memkind option \<times> ctl_state) option" where
  "ctl_create_fs_dax_kind e i path n S = (case pmem_env e i of (K, v, ce) \<Rightarrow> do {
     (ret, kd, G) \<leftarrow> memkind_create_pmem K v ce path n (ct_reg S);
     let S = S\<lparr>ct_reg := G\<rparr>;
     (if ret \<noteq> 0 then Some (None, S)
      else do {
        kp \<leftarrow> kd;
        k \<leftarrow> kinds G kp;
        (ret, S) \<leftarrow> ctl_add_pmem_kind_to_fs_dax_reg (fs_dax_ok e i) kp S;
        Some (if ret \<noteq> 0 then (None, S) else (Some (Memkind kp (unat (k_partition k))), S)) }) })"

text \<open>
  The kind of a tier of file-system DAX is created once all its parameters are known; the check
  of the directory before it only writes to the log.
\<close>

definition ctl_create_fs_dax :: "ctl_env \<Rightarrow> nat \<Rightarrow> tier_query \<Rightarrow> ctl_state \<Rightarrow> (memkind option \<times> ctl_state) option" where
  "ctl_create_fs_dax e i q S =
     (if \<not> fsdax_path_set q then Some (None, S)
      else do {
        path \<leftarrow> fsdax_path q;
        fsdax_max_size \<leftarrow> (if fsdax_size_set q then ctl_parse_size (fsdax_size_str q) else Some (Some 0));
        (case fsdax_max_size of
           None \<Rightarrow> Some (None, S)
         | Some n \<Rightarrow> ctl_create_fs_dax_kind e i path n S) })"

text \<open>
  The test \<open>!kind\<close> of the code compares the address of the result with \<open>NULL\<close> and never holds, so
  a tier without a kind passes.
\<close>

definition ctl_parse_tier_query :: "ctl_env \<Rightarrow> nat \<Rightarrow> string option \<Rightarrow> ctl_state \<Rightarrow>
    ((memkind option \<times> 32 word) option \<times> ctl_state) option" where
  "ctl_parse_tier_query e i qbuf S = do {
     s \<leftarrow> qbuf;
     r \<leftarrow> tier_params e (MEMKIND_DEFAULT (reg_memtier (ct_reg S))) s tier_query0;
     (case r of
        None \<Rightarrow> Some (None, S)
      | Some (q, sptr) \<Rightarrow>
          if ratio_str q = None then Some (None, S)
          else do {
            (ok, q, S) \<leftarrow> (if is_fsdax q then do {
                (k, S) \<leftarrow> ctl_create_fs_dax e i q S;
                Some (k \<noteq> None, q\<lparr>tq_kind := k\<rparr>, S) }
              else Some (\<not> fsdax_path_set q \<and> \<not> fsdax_size_set q, q, S));
            Some (if ok \<and> fst (strtok_r CHR '':'' sptr) = None then Some (tq_kind q, tq_ratio q) else None, S) }) }"

section \<open>Thresholds\<close>

definition MAX_CTL_NAME :: nat where "MAX_CTL_NAME = 64"

definition ctl_fields :: "string list" where
  "ctl_fields = [''val'', ''min'', ''max'']"

text \<open>The result, \<open>*sptr\<close>, \<open>*ctl_opts\<close> and the builder.\<close>

definition ctl_set_thr_cfg :: "string \<Rightarrow> nat \<Rightarrow> nat \<Rightarrow> 32 word \<Rightarrow> memtier_builder \<Rightarrow>
    (int \<times> string \<times> 32 word \<times> memtier_builder) option" where
  "ctl_set_thr_cfg sptr ctl_id th_id ctl_opts b =
     (if ctl_id \<ge> length ctl_fields then Some (-1, sptr, ctl_opts, b)
      else if bit ctl_opts ctl_id then Some (-1, sptr, ctl_opts, b)
      else (case strtok_r CHR '','' sptr of (val_str, sptr) \<Rightarrow> do {
        r \<leftarrow> ctl_parse_size val_str;
        (case r of
           None \<Rightarrow> Some (-1, sptr, ctl_opts, b)
         | Some x \<Rightarrow> do {
             let buf = take (MAX_CTL_NAME - 1) (threshold_name th_id (ctl_fields ! ctl_id));
             (ret, b) \<leftarrow> memtier_ctl_set b buf (Val_size_t x);
             Some (ret, sptr, ctl_opts OR push_bit ctl_id 1, b) }) }))"

definition threshold_param_id :: "string \<Rightarrow> nat option" where
  "threshold_param_id param_str =
     (if param_str = ''INIT_VAL'' then Some 0 else if param_str = ''MIN_VAL'' then Some 1
      else if param_str = ''MAX_VAL'' then Some 2 else None)"

lemma ctl_set_thr_cfg_shorter:
  "ctl_set_thr_cfg s i t opts b = Some (r, s', opts', b') \<Longrightarrow> length s' \<le> length s"
  using strtok_rest [of "CHR '',''" s]
  by (auto simp: ctl_set_thr_cfg_def bind_eq_Some_conv split: prod.splits if_splits option.splits)

lemma threshold_step_shorter:
  "(Some p, r) = strtok_r CHR '':'' s \<Longrightarrow> ctl_set_thr_cfg r i t opts b = Some (ret, s', opts', b') \<Longrightarrow> length s' < length s"
  by (drule sym, drule strtok_shorter, drule ctl_set_thr_cfg_shorter) simp

function threshold_params :: "nat \<Rightarrow> string \<Rightarrow> 32 word \<Rightarrow> memtier_builder \<Rightarrow> (int \<times> memtier_builder) option" where
  "threshold_params th_id s ctl_opts b = (case strtok_r CHR '':'' s of
     (None, _) \<Rightarrow> Some (0, b)
   | (Some param_str, sptr) \<Rightarrow> (case threshold_param_id param_str of
       None \<Rightarrow> Some (-1, b)
     | Some ctl_id \<Rightarrow> (case ctl_set_thr_cfg sptr ctl_id th_id ctl_opts b of
         None \<Rightarrow> None
       | Some (ret, sptr, ctl_opts, b) \<Rightarrow> if ret \<noteq> 0 then Some (-1, b) else threshold_params th_id sptr ctl_opts b)))"
  by pat_completeness auto
termination
  by (relation "measure (\<lambda>(t, s, opts, b). length s)") (auto dest: threshold_step_shorter)

declare threshold_params.simps [simp del]

definition ctl_parse_threshold_query :: "string option \<Rightarrow> nat \<Rightarrow> memtier_builder \<Rightarrow> (int \<times> memtier_builder) option" where
  "ctl_parse_threshold_query qbuf th_id b = do {
     s \<leftarrow> qbuf;
     (if fst (strtok_r CHR '':'' s) = None then Some (-1, b) else threshold_params th_id s 0 b) }"

primrec parse_thresholds :: "nat \<Rightarrow> nat \<Rightarrow> string option \<Rightarrow> string \<Rightarrow> memtier_builder \<Rightarrow> (int \<times> memtier_builder) option" where
  "parse_thresholds 0 i qbuf sptr b = Some (0, b)"
| "parse_thresholds (Suc n) i qbuf sptr b = do {
     (ret, b) \<leftarrow> ctl_parse_threshold_query qbuf i b;
     (if ret \<noteq> 0 then Some (-1, b)
      else case strtok_r CHR '';'' sptr of (qbuf, sptr) \<Rightarrow> parse_thresholds n (Suc i) qbuf sptr b) }"

definition MAX_ENV_STRING :: nat where "MAX_ENV_STRING = 1024"

definition ctl_set_thresholds :: "string \<Rightarrow> nat \<Rightarrow> nat \<Rightarrow> memtier_builder \<Rightarrow> (int \<times> memtier_builder) option" where
  "ctl_set_thresholds thresholds_var policy tier_count b =
     (let thresholds_var_local = take (MAX_ENV_STRING - 1) thresholds_var;
          thresholds_count = 1 + count_list thresholds_var_local CHR '';''
      in if policy \<noteq> MEMTIER_POLICY_DYNAMIC_THRESHOLD then Some (-1, b)
         else if thresholds_count \<ge> tier_count then Some (-1, b)
         else case strtok_r CHR '';'' thresholds_var_local of
           (None, _) \<Rightarrow> Some (-1, b)
         | (qbuf, sptr) \<Rightarrow> parse_thresholds thresholds_count 0 qbuf sptr b)"

section \<open>The whole configuration\<close>

definition MAX_KIND :: nat where "MAX_KIND = 255"

primrec parse_tiers :: "ctl_env \<Rightarrow> nat \<Rightarrow> nat \<Rightarrow> string option \<Rightarrow> string \<Rightarrow> ctl_state \<Rightarrow>
    (((memkind option \<times> 32 word) list \<times> string option \<times> string) option \<times> ctl_state) option" where
  "parse_tiers e 0 i qbuf sptr S = Some (Some ([], qbuf, sptr), S)"
| "parse_tiers e (Suc n) i qbuf sptr S = do {
     (r, S) \<leftarrow> ctl_parse_tier_query e i qbuf S;
     (case r of
        None \<Rightarrow> Some (None, S)
      | Some c \<Rightarrow> do {
          c_assert (i < MAX_KIND);
          (r, S) \<leftarrow> (case strtok_r CHR '';'' sptr of (qbuf, sptr) \<Rightarrow> parse_tiers e n (Suc i) qbuf sptr S);
          Some (map_option (\<lambda>(cs, x). (c # cs, x)) r, S) }) }"

primrec ctl_add_tiers :: "ctl_env \<Rightarrow> nat \<Rightarrow> (memkind option \<times> 32 word) list \<Rightarrow> memtier_builder \<Rightarrow> int \<times> memtier_builder" where
  "ctl_add_tiers e i [] b = (0, b)"
| "ctl_add_tiers e i (c # cs) b = (case memtier_builder_add_tier (tier_ok e i) (tier_junk e i) b (fst c) (snd c) of
     (ret, b) \<Rightarrow> if ret \<noteq> 0 then (ret, b) else ctl_add_tiers e (Suc i) cs b)"

text \<open>From \<open>memtier_builder_new\<close> on: \<open>None\<close> inside stands for the jumps to \<open>destroy_builder\<close>.\<close>

definition ctl_build :: "ctl_env \<Rightarrow> nat \<Rightarrow> (memkind option \<times> 32 word) list \<Rightarrow> string option \<Rightarrow> memtier \<Rightarrow>
    (memtier_memory option \<times> memtier) option" where
  "ctl_build e policy temp_cfg thresholds_var M = (case memtier_builder_new (builder_ok e) policy M of
     (None, M) \<Rightarrow> Some (None, M)
   | (Some b, M) \<Rightarrow> (case ctl_add_tiers e 0 temp_cfg b of (ret, b) \<Rightarrow>
       if ret \<noteq> 0 then Some (None, M)
       else do {
         (ret, b) \<leftarrow> (case thresholds_var of
            None \<Rightarrow> Some (0, b)
          | Some s \<Rightarrow> ctl_set_thresholds s policy (length temp_cfg) b);
         (if ret \<noteq> 0 then Some (None, M)
          else memtier_builder_construct_memtier_memory (mem_boot e) (mem_weight e) (mem_alloc e) (mem_junk e) (mem_kind0 e) b M) }))"

definition cleanup_after_failure :: "ctl_state \<Rightarrow> (memtier_memory option \<times> ctl_state) option" where
  "cleanup_after_failure S = do { S \<leftarrow> ctl_destroy_fs_dax_reg S; Some (None, S) }"

text \<open>The last query names the policy; a string without one makes \<open>strcmp\<close> read through \<open>NULL\<close>.\<close>

definition ctl_finish :: "ctl_env \<Rightarrow> (memkind option \<times> 32 word) list \<Rightarrow> string \<Rightarrow> string option \<Rightarrow> ctl_state \<Rightarrow>
    (memtier_memory option \<times> ctl_state) option" where
  "ctl_finish e temp_cfg query thresholds_var S = (case strtok_r CHR '':'' query of
     (None, _) \<Rightarrow> None
   | (Some qbuf, sptr) \<Rightarrow>
       if qbuf \<noteq> ''POLICY'' then cleanup_after_failure S
       else case ctl_parse_policy sptr of
         None \<Rightarrow> cleanup_after_failure S
       | Some policy \<Rightarrow> do {
           (m, M) \<leftarrow> ctl_build e policy temp_cfg thresholds_var (reg_memtier (ct_reg S));
           let S = S\<lparr>ct_reg := (ct_reg S)\<lparr>reg_memtier := M\<rparr>\<rparr>;
           (if m = None then cleanup_after_failure S else Some (m, S)) })"

definition ctl_create_tier_memory_from_env :: "ctl_env \<Rightarrow> string \<Rightarrow> string option \<Rightarrow> ctl_state \<Rightarrow>
    (memtier_memory option \<times> ctl_state) option" where
  "ctl_create_tier_memory_from_env e env_var thresholds_var S =
     (let env_var_local = take (MAX_ENV_STRING - 1) env_var;
          query_count = 1 + count_list env_var_local CHR '';'';
          tier_count = query_count - 1
      in case strtok_r CHR '';'' env_var_local of
        (None, _) \<Rightarrow> Some (None, S)
      | (qbuf, sptr) \<Rightarrow>
          if query_count < 2 then Some (None, S)
          else do {
            (r, S) \<leftarrow> parse_tiers e tier_count 0 qbuf sptr S;
            (case r of
               None \<Rightarrow> cleanup_after_failure S
             | Some (temp_cfg, qbuf, sptr) \<Rightarrow>
                 ctl_finish e temp_cfg (case qbuf of None \<Rightarrow> sptr | Some s \<Rightarrow> s) thresholds_var S) })"

text \<open>The memory itself is released afterwards, which has no effect on the state modelled here.\<close>

definition ctl_destroy_tier_memory :: "ctl_state \<Rightarrow> ctl_state option" where
  "ctl_destroy_tier_memory S = ctl_destroy_fs_dax_reg S"

end
