(* ===== verification/Tiering_Ctl_Correct.thy ===== *)
theory Tiering_Ctl_Correct
  imports Tiering_Ctl Kind_Registry_Correct Memkind_Extents_Correct "HOL-Library.Multiset"
begin

text \<open>
  The environment variables as a language: a configuration is printed and read back, and what
  the reader does with it is what the configuration means.
\<close>

section \<open>Tokens\<close>

lemma cut_sep:
  assumes "sep \<notin> set t"
  shows "takeWhile (\<lambda>c. c \<noteq> sep) (t @ sep # r) = t" "dropWhile (\<lambda>c. c \<noteq> sep) (t @ sep # r) = sep # r"
    "takeWhile (\<lambda>c. c \<noteq> sep) t = t" "dropWhile (\<lambda>c. c \<noteq> sep) t = []"
  using assms by (induction t) auto

lemma strtok_sep:
  assumes "t \<noteq> []" "sep \<notin> set t"
  shows "strtok_r sep (t @ sep # r) = (Some t, r)" "strtok_r sep t = (Some t, [])"
proof -
  have "dropWhile (\<lambda>c. c = sep) (t @ u) = t @ u" for u using assms by (cases t) auto
  from this [of "sep # r"] this [of "[]"] assms(1)
  show "strtok_r sep (t @ sep # r) = (Some t, r)" "strtok_r sep t = (Some t, [])"
    by (simp_all add: strtok_r_def cut_sep [OF assms(2)])
qed

lemma strtok_nil: "strtok_r sep [] = (None, [])"
  by (simp add: strtok_r_def)

section \<open>Numbers\<close>

lemma digit_val_digit: "is_digit c \<Longrightarrow> digit_val c = of_char c - 48"
  by (simp add: is_digit_def digit_val_def Let_def)

lemma digit_val_small: "is_digit c \<Longrightarrow> digit_val c < 10"
  by (auto simp: is_digit_def digit_val_digit)

lemma base_val_decimal: "base_val 10 (decimal n) = n"
proof -
  have "foldl (\<lambda>n c. 10 * n + digit_val c) a ds = foldl (\<lambda>n c. 10 * n + (of_char c - 48)) a ds"
    if "\<forall>c\<in>set ds. is_digit c" for a ds
    using that by (induction ds arbitrary: a) (simp_all add: digit_val_digit)
  then show ?thesis using decimal_digits [of _ n] decimal_val [of n] by (simp add: base_val_def digits_val_def)
qed

lemma decimal_zero: "decimal 0 = ''0''"
  by (simp add: decimal.simps [of 0]) code_simp

lemma decimal_head: "0 < n \<Longrightarrow> hd (decimal n) \<noteq> CHR ''0''"
proof (induction n rule: decimal.induct)
  case (1 n)
  show ?case
  proof (cases "n < 10")
    case True
    then have "of_char (hd (decimal n)) = 48 + n" by (simp add: decimal.simps [of n] digit_char)
    then show ?thesis using 1(2) by auto
  next
    case False
    then show ?thesis using 1(1) decimal_nonempty [of "n div 10"] by (simp add: decimal.simps [of n])
  qed
qed

lemma decimal_length: "n < 10 ^ Suc k \<Longrightarrow> length (decimal n) \<le> Suc k"
proof (induction k arbitrary: n)
  case 0
  then show ?case by (simp add: decimal.simps [of n])
next
  case (Suc k)
  then have "n div 10 < 10 ^ Suc k" by (simp add: div_less_iff_less_mult)
  from Suc.IH [OF this] show ?case by (simp add: decimal.simps [of n])
qed

lemma strtoull_decimal:
  assumes "n < 2 ^ 64"
  shows "strtoull (decimal n) = Some (of_nat n, False)"
proof (cases "n = 0")
  case True
  have "strtoull ''0'' = Some (0, False)" by (simp add: strtoull_def number_base_def is_space_def digit_val_def base_val_def)
  then show ?thesis using True by (simp add: decimal_zero)
next
  case False
  obtain c cs where d: "decimal n = c # cs" using decimal_nonempty [of n] by (cases "decimal n") auto
  have c: "is_digit c" "c \<noteq> CHR ''0''" using decimal_digits [of c n] decimal_head [of n] d False by auto
  have "takeWhile (\<lambda>c. digit_val c < 10) (decimal n) = decimal n"
    using decimal_digits [of _ n] digit_val_small by (auto simp: takeWhile_eq_all_conv)
  moreover have "dropWhile is_space (decimal n) = decimal n" using digit_not_special(1) [OF c(1)] by (simp add: d)
  moreover have "number_base (decimal n) = (10, decimal n)" using c(2) by (auto simp: number_base_def d split: list.split)
  ultimately show ?thesis using assms digit_not_special(2,3) [OF c(1)] decimal_nonempty [of n] base_val_decimal [of n] d
    by (simp add: strtoull_def Let_def)
qed

lemma parse_u_decimal:
  assumes "n < 2 ^ 32"
  shows "ctl_parse_u (decimal n) = Some (of_nat n)"
proof -
  obtain c cs where d: "decimal n = c # cs" using decimal_nonempty [of n] by (cases "decimal n") auto
  have "c \<noteq> CHR ''-''" using decimal_digits [of c n] d digit_not_special(2) by simp
  moreover have "unat (of_nat n :: 64 word) = n" using assms by (simp add: unat_of_nat take_bit_nat_eq_self)
  moreover from this have "\<not> (of_nat n :: 64 word) > 0xFFFFFFFF" using assms by (simp add: word_less_nat_alt)
  moreover have "(ucast (of_nat n :: 64 word) :: 32 word) = of_nat n" using assms by (simp add: unsigned_of_nat take_bit_nat_eq_self)
  ultimately show ?thesis using strtoull_decimal [of n] assms d by (simp add: ctl_parse_u_def)
qed

lemma parse_size_t_decimal:
  assumes "n < 2 ^ 64"
  shows "ctl_parse_size_t (decimal n) = Some (of_nat n)"
proof -
  obtain c cs where d: "decimal n = c # cs" using decimal_nonempty [of n] by (cases "decimal n") auto
  have "c \<noteq> CHR ''-''" using decimal_digits [of c n] d digit_not_special(2) by simp
  then show ?thesis using strtoull_decimal [OF assms] d by (simp add: ctl_parse_size_t_def)
qed

section \<open>Sizes\<close>

datatype size_unit = Bytes | Kilo | Mega | Giga

primrec unit_suffix :: "size_unit \<Rightarrow> string" where
  "unit_suffix Bytes = []"
| "unit_suffix Kilo = ''K''"
| "unit_suffix Mega = ''M''"
| "unit_suffix Giga = ''G''"

primrec unit_mag :: "size_unit \<Rightarrow> nat" where
  "unit_mag Bytes = 1"
| "unit_mag Kilo = 2 ^ 10"
| "unit_mag Mega = 2 ^ 20"
| "unit_mag Giga = 2 ^ 30"

type_synonym size_spec = "nat \<times> size_unit"

definition print_size :: "size_spec \<Rightarrow> string" where
  "print_size x = decimal (fst x) @ unit_suffix (snd x)"

definition size_bytes :: "size_spec \<Rightarrow> nat" where
  "size_bytes x = fst x * unit_mag (snd x)"

lemma unit_chars: "c \<in> set (unit_suffix u) \<Longrightarrow> c \<in> {CHR ''K'', CHR ''M'', CHR ''G''}"
  by (cases u) auto

lemma print_size_chars:
  assumes "c \<in> set (print_size x)"
  shows "is_digit c \<or> c \<in> {CHR ''K'', CHR ''M'', CHR ''G''}"
  using assms decimal_digits [of c] unit_chars [of c] by (auto simp: print_size_def)

lemma print_size_nonempty: "print_size x \<noteq> []"
  by (simp add: print_size_def decimal_nonempty)

lemma scale_fits:
  assumes "n * m < 2 ^ 64" "0 < m" "unat mag = m"
  shows "of_nat n \<le> (-1 :: size_t) div mag" "of_nat n * mag = (of_nat (n * m) :: size_t)" "n < 2 ^ 64"
proof -
  have "n * 1 \<le> n * m" using assms(2) by (intro mult_le_mono2) simp
  then show n: "n < 2 ^ 64" using assms(1) by linarith
  then have "unat (of_nat n :: size_t) = n" by (simp add: unat_of_nat take_bit_nat_eq_self)
  moreover have "unat (-1 :: size_t) = 2 ^ 64 - 1" by (simp add: unsigned_minus_1_eq_mask mask_eq_exp_minus_1)
  then have "unat ((-1 :: size_t) div mag) = (2 ^ 64 - 1) div m" by (simp only: unat_div assms(3))
  moreover have "n * m \<le> 2 ^ 64 - 1" using assms(1) by linarith
  then have "n \<le> (2 ^ 64 - 1) div m" using assms(2) by (simp only: less_eq_div_iff_mult_less_eq)
  ultimately show "of_nat n \<le> (-1 :: size_t) div mag" by (simp only: word_le_nat_alt)
  show "of_nat n * mag = (of_nat (n * m) :: size_t)" by (simp add: assms(3) [symmetric])
qed

lemma print_size_special:
  "CHR '':'' \<notin> set (print_size x)" "CHR '','' \<notin> set (print_size x)" "CHR '';'' \<notin> set (print_size x)"
  using print_size_chars [of "CHR '':''" x] print_size_chars [of "CHR '',''" x] print_size_chars [of "CHR '';''" x]
  by (auto simp: is_digit_def)

lemma parse_size_print:
  assumes "size_bytes x < 2 ^ 64"
  shows "ctl_parse_size (Some (print_size x)) = Some (Some (of_nat (size_bytes x)))"
proof -
  define n u where x: "n = fst x" "u = snd x"
  have mag: "0 < unit_mag u" "unat (of_nat (unit_mag u) :: size_t) = unit_mag u" by (cases u; simp)+
  have fits: "n * unit_mag u < 2 ^ 64" using assms by (simp add: x size_bytes_def)
  note sc = scale_fits [OF fits mag]
  have minus: "hd (print_size x) \<noteq> CHR ''-''"
    using decimal_nonempty [of n] decimal_digits [of "hd (decimal n)" n] digit_not_special(2) by (simp add: x print_size_def)
  have "takeWhile is_digit (decimal n @ unit_suffix u) = decimal n @ takeWhile is_digit (unit_suffix u)"
    using decimal_digits [of _ n] by (intro takeWhile_append2)
  moreover have "takeWhile is_digit (unit_suffix u) = []" by (cases u) (simp_all add: is_digit_def)
  moreover have "length (decimal n) \<le> Suc 19" using sc(3) by (intro decimal_length) simp
  ultimately have dec: "take 31 (takeWhile is_digit (print_size x)) = decimal n" by (simp add: x print_size_def)
  have rest: "drop (length (decimal n)) (print_size x) = unit_suffix u" by (simp add: x print_size_def)
  have unit: "takeWhile (\<lambda>c. \<not> is_space c) (dropWhile is_space (unit_suffix u)) = unit_suffix u" "take 2 (unit_suffix u) = unit_suffix u"
    by (cases u; simp add: is_space_def)+
  have mags: "if unit_suffix u = [] then unit_mag u = 1 else map_of suffixes (unit_suffix u) = Some (of_nat (unit_mag u))"
    by (cases u) (simp_all add: suffixes_def)
  have "fst (strtok_r CHR '':'' (print_size x)) = Some (print_size x)"
    by (simp add: strtok_sep(2) [OF print_size_nonempty print_size_special(1)])
  then show ?thesis using minus mags sc(1,2) parse_size_t_decimal [OF sc(3)]
    by (simp add: ctl_parse_size_def Let_def dec rest unit size_bytes_def x [symmetric] split: if_splits)
qed

section \<open>Parameters\<close>

text \<open>A query is a list of parameters with their values.\<close>

fun print_params :: "(string \<times> string) list \<Rightarrow> string" where
  "print_params [] = []"
| "print_params [(n, v)] = n @ CHR '':'' # v"
| "print_params ((n, v) # ps) = n @ CHR '':'' # v @ CHR '','' # print_params ps"

definition param_text :: "string \<times> string \<Rightarrow> bool" where
  "param_text p \<longleftrightarrow> fst p \<noteq> [] \<and> CHR '':'' \<notin> set (fst p) \<and> snd p \<noteq> [] \<and> CHR '','' \<notin> set (snd p)"

lemma print_params_cons:
  assumes "param_text (n, v)"
  shows "strtok_r CHR '':'' (print_params ((n, v) # ps)) = (Some n, v @ (if ps = [] then [] else CHR '','' # print_params ps))"
    and "strtok_r CHR '','' (v @ (if ps = [] then [] else CHR '','' # print_params ps)) = (Some v, print_params ps)"
proof -
  have n: "strtok_r CHR '':'' (n @ CHR '':'' # r) = (Some n, r)" for r using assms by (intro strtok_sep) (simp_all add: param_text_def)
  have v: "v \<noteq> []" "CHR '','' \<notin> set v" using assms by (simp_all add: param_text_def)
  show "strtok_r CHR '':'' (print_params ((n, v) # ps)) = (Some n, v @ (if ps = [] then [] else CHR '','' # print_params ps))"
    using n by (cases ps) auto
  show "strtok_r CHR '','' (v @ (if ps = [] then [] else CHR '','' # print_params ps)) = (Some v, print_params ps)"
    using strtok_sep [OF v] by (cases ps) auto
qed

text \<open>What a parameter does to the query.\<close>

definition tier_value :: "ctl_env \<Rightarrow> memkind \<Rightarrow> string \<times> string \<Rightarrow> tier_query \<Rightarrow> tier_query option option" where
  "tier_value e D p q = map_option (map_option fst) (tier_param e D (fst p) (snd p) q)"

primrec tier_values :: "ctl_env \<Rightarrow> memkind \<Rightarrow> (string \<times> string) list \<Rightarrow> tier_query \<Rightarrow> tier_query option option" where
  "tier_values e D [] q = Some (Some q)"
| "tier_values e D (p # ps) q = (case tier_value e D p q of
     None \<Rightarrow> None
   | Some None \<Rightarrow> Some None
   | Some (Some q) \<Rightarrow> tier_values e D ps q)"

lemma tier_param_rest:
  assumes "strtok_r CHR '','' s = (Some v, r)" "v \<noteq> []" "CHR '','' \<notin> set v"
  shows "tier_param e D n s q = map_option (map_option (\<lambda>q. (q, r))) (tier_value e D (n, v) q)"
  using strtok_sep(2) [OF assms(2,3)] assms(1)
  by (simp add: tier_value_def tier_param_def option.map_comp split: option.split)

lemma tier_params_print:
  assumes "\<forall>p\<in>set ps. param_text p"
  shows "tier_params e D (print_params ps) q = map_option (map_option (\<lambda>q. (q, []))) (tier_values e D ps q)"
  using assms
proof (induction ps arbitrary: q)
  case Nil
  then show ?case by (simp add: tier_params.simps [of e D "[]"] strtok_nil)
next
  case (Cons p ps)
  obtain n v where p: "p = (n, v)" by (cases p)
  have t: "param_text (n, v)" using Cons.prems by (simp add: p)
  then have v: "v \<noteq> []" "CHR '','' \<notin> set v" by (simp_all add: param_text_def)
  note c = print_params_cons [OF t, of ps]
  have ih: "tier_params e D (print_params ps) q' = map_option (map_option (\<lambda>q. (q, []))) (tier_values e D ps q')" for q'
    using Cons.IH Cons.prems by simp
  have "tier_params e D (print_params (p # ps)) q = (case tier_value e D (n, v) q of
      None \<Rightarrow> None | Some None \<Rightarrow> Some None | Some (Some q) \<Rightarrow> tier_params e D (print_params ps) q)"
    unfolding p tier_params.simps [of e D "print_params ((n, v) # ps)"] c(1)
    by (simp add: tier_param_rest [OF c(2) v] split: option.split)
  then show ?case by (simp add: p ih split: option.split)
qed

section \<open>Tiers\<close>

datatype tier_spec = Dram | Kmem_Dax | Fs_Dax string "size_spec option"

definition tier_param_list :: "tier_spec \<times> nat \<Rightarrow> (string \<times> string) list" where
  "tier_param_list tr = (case fst tr of
     Dram \<Rightarrow> [(''KIND'', ''DRAM'')]
   | Kmem_Dax \<Rightarrow> [(''KIND'', ''KMEM_DAX'')]
   | Fs_Dax path limit \<Rightarrow> [(''KIND'', ''FS_DAX''), (''PATH'', path)] @
       (case limit of None \<Rightarrow> [] | Some x \<Rightarrow> [(''PMEM_SIZE_LIMIT'', print_size x)])) @
     [(''RATIO'', decimal (snd tr))]"

definition path_text :: "string \<Rightarrow> bool" where
  "path_text path \<longleftrightarrow> path \<noteq> [] \<and> CHR '','' \<notin> set path \<and> CHR '';'' \<notin> set path"

definition tier_valid :: "tier_spec \<times> nat \<Rightarrow> bool" where
  "tier_valid tr \<longleftrightarrow> 0 < snd tr \<and> snd tr < 2 ^ 32 \<and> (case fst tr of
     Fs_Dax path limit \<Rightarrow> path_text path \<and> (\<forall>x. limit = Some x \<longrightarrow> size_bytes x < 2 ^ 64)
   | _ \<Rightarrow> True)"

text \<open>The parameters of a valid tier, and their effect on a query that does not have them yet.\<close>

definition param_good :: "string \<times> string \<Rightarrow> bool" where
  "param_good p \<longleftrightarrow> fst p = ''KIND'' \<and> snd p \<in> {''DRAM'', ''KMEM_DAX'', ''FS_DAX''} \<or>
     fst p = ''PATH'' \<and> path_text (snd p) \<or>
     fst p = ''PMEM_SIZE_LIMIT'' \<and> snd p \<in> range print_size \<or>
     fst p = ''RATIO'' \<and> (\<exists>r. snd p = decimal r \<and> 0 < r \<and> r < 2 ^ 32)"

definition param_unset :: "string \<Rightarrow> tier_query \<Rightarrow> bool" where
  "param_unset n q \<longleftrightarrow> (n = ''KIND'' \<longrightarrow> \<not> kind_set q) \<and> (n = ''PATH'' \<longrightarrow> \<not> fsdax_path_set q) \<and>
     (n = ''PMEM_SIZE_LIMIT'' \<longrightarrow> \<not> fsdax_size_set q) \<and> (n = ''RATIO'' \<longrightarrow> \<not> ratio_set q)"

definition apply_param :: "ctl_env \<Rightarrow> memkind \<Rightarrow> string \<times> string \<Rightarrow> tier_query \<Rightarrow> tier_query" where
  "apply_param e D p q =
     (if fst p = ''KIND'' then
        if snd p = ''DRAM'' then q\<lparr>tq_kind := Some D, kind_set := True\<rparr>
        else if snd p = ''KMEM_DAX'' then q\<lparr>tq_kind := Some (MEMKIND_DAX_KMEM e), kind_set := True\<rparr>
        else q\<lparr>is_fsdax := True, kind_set := True\<rparr>
      else if fst p = ''PATH'' then q\<lparr>fsdax_path := Some (snd p), fsdax_path_set := True\<rparr>
      else if fst p = ''PMEM_SIZE_LIMIT'' then q\<lparr>fsdax_size_str := Some (snd p), fsdax_size_set := True\<rparr>
      else q\<lparr>tq_ratio := the (ctl_parse_u (snd p)), ratio_str := Some [], ratio_set := True\<rparr>)"

lemma decimal_special:
  "CHR '':'' \<notin> set (decimal n)" "CHR '','' \<notin> set (decimal n)" "CHR '';'' \<notin> set (decimal n)"
  using decimal_digits [of "CHR '':''" n] decimal_digits [of "CHR '',''" n] decimal_digits [of "CHR '';''" n]
  by (auto simp: is_digit_def)

lemma param_good_text:
  assumes "param_good p"
  shows "param_text p" "CHR '';'' \<notin> set (fst p)" "CHR '';'' \<notin> set (snd p)"
  using assms
  by (auto simp: param_good_def param_text_def path_text_def decimal_special decimal_nonempty print_size_special print_size_nonempty
      decimal_nonempty [symmetric] print_size_nonempty [symmetric])

lemma parse_ratio_decimal:
  assumes "0 < r" "r < 2 ^ 32"
  shows "ctl_parse_ratio (decimal r) = (Some (of_nat r), [])"
proof -
  have "unat (of_nat r :: 32 word) = r" using assms by (simp add: unat_of_nat take_bit_nat_eq_self)
  then have "(of_nat r :: 32 word) \<noteq> 0" using assms(1) by (metis less_numeral_extra(3) unat_0)
  then show ?thesis using strtok_sep(2) [OF decimal_nonempty decimal_special(1)] parse_u_decimal [OF assms(2)]
    by (simp add: ctl_parse_ratio_def)
qed

lemma tier_value_good:
  assumes "param_good p" "param_unset (fst p) q"
  shows "tier_value e D p q = Some (if p = (''KIND'', ''KMEM_DAX'') \<and> \<not> dax_kmem_ok e then None else Some (apply_param e D p q))"
proof -
  obtain n v where p: "p = (n, v)" by (cases p)
  have v: "strtok_r CHR '','' v = (Some v, [])"
    using param_good_text(1) [OF assms(1)] by (intro strtok_sep(2)) (simp_all add: p param_text_def)
  from assms(1) consider "n = ''KIND''" "v = ''DRAM'' \<or> v = ''KMEM_DAX'' \<or> v = ''FS_DAX''" | "n = ''PATH''" | "n = ''PMEM_SIZE_LIMIT''"
    | r where "n = ''RATIO''" "v = decimal r" "0 < r" "r < 2 ^ 32" by (auto simp: param_good_def p)
  then show ?thesis
  proof cases
    case 4
    then show ?thesis using v assms(2) parse_ratio_decimal [OF 4(3,4)] parse_u_decimal [OF 4(4)]
      by (simp add: p tier_value_def tier_param_def apply_param_def param_unset_def)
  next
    case 1
    then show ?thesis using v assms(2) by (elim disjE) (simp_all add: p tier_value_def tier_param_def apply_param_def param_unset_def)
  qed (use v assms(2) in \<open>simp_all add: p tier_value_def tier_param_def apply_param_def param_unset_def\<close>)
qed

lemma apply_keeps_unset:
  assumes "param_unset n q" "param_good p" "n \<noteq> fst p"
  shows "param_unset n (apply_param e D p q)"
proof -
  have "fst p = ''KIND'' \<or> fst p = ''PATH'' \<or> fst p = ''PMEM_SIZE_LIMIT'' \<or> fst p = ''RATIO''"
    using assms(2) by (auto simp: param_good_def)
  then show ?thesis using assms(1,3) by (elim disjE) (simp_all add: param_unset_def apply_param_def)
qed

lemma tier_values_good:
  assumes "distinct (map fst ps)" "\<forall>p\<in>set ps. param_good p \<and> param_unset (fst p) q"
  shows "tier_values e D ps q = Some (if (''KIND'', ''KMEM_DAX'') \<in> set ps \<and> \<not> dax_kmem_ok e then None
    else Some (fold (apply_param e D) ps q))"
  using assms
proof (induction ps arbitrary: q)
  case (Cons p ps)
  have p: "param_good p" "param_unset (fst p) q" using Cons.prems(2) by simp_all
  have "\<forall>p'\<in>set ps. param_good p' \<and> param_unset (fst p') (apply_param e D p q)"
  proof
    fix p'
    assume "p' \<in> set ps"
    moreover from this have "fst p' \<noteq> fst p" using Cons.prems(1) by (metis distinct.simps(2) image_eqI list.set_map list.simps(9))
    ultimately show "param_good p' \<and> param_unset (fst p') (apply_param e D p q)"
      using Cons.prems(2) p(1) by (simp add: apply_keeps_unset)
  qed
  from Cons.IH [OF _ this] Cons.prems(1) tier_value_good [OF p, of e D] show ?case by simp
qed simp

lemma apply_commute:
  assumes "param_good p" "param_good p'" "p = p' \<or> fst p \<noteq> fst p'"
  shows "apply_param e D p \<circ> apply_param e D p' = apply_param e D p' \<circ> apply_param e D p"
proof (cases "p = p'")
  case False
  have n: "fst x = ''KIND'' \<or> fst x = ''PATH'' \<or> fst x = ''PMEM_SIZE_LIMIT'' \<or> fst x = ''RATIO''" if "param_good x" for x
    using that by (auto simp: param_good_def)
  have d: "fst p \<noteq> fst p'" using assms(3) False by simp
  show ?thesis
  proof
    fix q
    from n [OF assms(1)] n [OF assms(2)] d
    show "(apply_param e D p \<circ> apply_param e D p') q = (apply_param e D p' \<circ> apply_param e D p) q"
      by (elim disjE) (simp_all add: apply_param_def)
  qed
qed simp

lemma fold_params:
  assumes "mset ps = mset qs" "distinct (map fst qs)" "\<forall>p\<in>set qs. param_good p"
  shows "fold (apply_param e D) ps = fold (apply_param e D) qs"
proof (rule fold_multiset_equiv [OF _ assms(1)])
  fix x y
  assume "x \<in> set ps" "y \<in> set ps"
  then have xy: "x \<in> set qs" "y \<in> set qs" using mset_eq_setD [OF assms(1)] by simp_all
  then have "x = y \<or> fst x \<noteq> fst y" using assms(2) by (auto simp: distinct_map dest: inj_onD)
  then show "apply_param e D x \<circ> apply_param e D y = apply_param e D y \<circ> apply_param e D x"
    using xy assms(3) by (intro apply_commute) auto
qed

lemma tier_param_list_good:
  assumes "tier_valid tr"
  shows "distinct (map fst (tier_param_list tr))" "p \<in> set (tier_param_list tr) \<Longrightarrow> param_good p"
  using assms by (auto simp: tier_param_list_def tier_valid_def param_good_def split: tier_spec.splits option.splits)

text \<open>What a tier means: a kind that exists, or a new kind in a directory.\<close>

definition open_tier :: "ctl_env \<Rightarrow> nat \<Rightarrow> tier_spec \<times> nat \<Rightarrow> ctl_state \<Rightarrow>
    ((memkind option \<times> 32 word) option \<times> ctl_state) option" where
  "open_tier e i tr S = (case fst tr of
     Dram \<Rightarrow> Some (Some (Some (MEMKIND_DEFAULT (reg_memtier (ct_reg S))), of_nat (snd tr)), S)
   | Kmem_Dax \<Rightarrow> Some (if dax_kmem_ok e then Some (Some (MEMKIND_DAX_KMEM e), of_nat (snd tr)) else None, S)
   | Fs_Dax path limit \<Rightarrow>
       map_option (\<lambda>(k, S). (map_option (\<lambda>k. (Some k, of_nat (snd tr))) k, S))
         (ctl_create_fs_dax_kind e i path (case limit of None \<Rightarrow> 0 | Some x \<Rightarrow> of_nat (size_bytes x)) S))"

lemma tier_query_run:
  assumes "tier_valid tr" "mset ps = mset (tier_param_list tr)"
  shows "ctl_parse_tier_query e i (Some (print_params ps)) S = open_tier e i tr S"
proof -
  let ?D = "MEMKIND_DEFAULT (reg_memtier (ct_reg S))"
  note g = tier_param_list_good [OF assms(1)]
  have set: "set ps = set (tier_param_list tr)" using assms(2) by (rule mset_eq_setD)
  have dist: "distinct (map fst ps)" using g(1) assms(2) by (metis mset_eq_imp_distinct_iff mset_map)
  have good: "\<forall>p\<in>set ps. param_good p" using g(2) set by blast
  then have "\<forall>p\<in>set ps. param_good p \<and> param_unset (fst p) tier_query0" by (simp add: param_unset_def tier_query0_def)
  from tier_values_good [OF dist this, of e ?D] tier_params_print [of ps e ?D tier_query0] param_good_text(1) good
  have "tier_params e ?D (print_params ps) tier_query0 = Some (if (''KIND'', ''KMEM_DAX'') \<in> set (tier_param_list tr) \<and> \<not> dax_kmem_ok e
      then None else Some (fold (apply_param e ?D) (tier_param_list tr) tier_query0, []))"
    using fold_params [OF assms(2) g(1), of e ?D] g(2) by (simp add: set)
  note run = this
  obtain t r where tr: "tr = (t, r)" by (cases tr)
  have r: "the (ctl_parse_u (decimal r)) = of_nat r" using parse_u_decimal [of r] assms(1) by (simp add: tr tier_valid_def)
  show ?thesis
  proof (cases t)
    case (Fs_Dax path limit)
    show ?thesis
    proof (cases limit)
      case None
      then show ?thesis using run
        by (auto simp: ctl_parse_tier_query_def tr Fs_Dax tier_param_list_def apply_param_def tier_query0_def r strtok_nil
            ctl_create_fs_dax_def open_tier_def split: prod.split option.split bind_split)
    next
      case (Some x)
      then have "ctl_parse_size (Some (print_size x)) = Some (Some (of_nat (size_bytes x)))"
        using assms(1) by (intro parse_size_print) (cases x, simp add: tr Fs_Dax tier_valid_def)
      then show ?thesis using run Some
        by (auto simp: ctl_parse_tier_query_def tr Fs_Dax tier_param_list_def apply_param_def tier_query0_def r strtok_nil
            ctl_create_fs_dax_def open_tier_def split: prod.split option.split bind_split)
    qed
  qed (use run in \<open>simp_all add: ctl_parse_tier_query_def tr tier_param_list_def apply_param_def tier_query0_def r strtok_nil open_tier_def\<close>)
qed

section \<open>Configurations\<close>

primrec open_tiers :: "ctl_env \<Rightarrow> nat \<Rightarrow> (tier_spec \<times> nat) list \<Rightarrow> ctl_state \<Rightarrow>
    ((memkind option \<times> 32 word) list option \<times> ctl_state) option" where
  "open_tiers e i [] S = Some (Some [], S)"
| "open_tiers e i (t # ts) S = do {
     (r, S) \<leftarrow> open_tier e i t S;
     (case r of
        None \<Rightarrow> Some (None, S)
      | Some c \<Rightarrow> do { (cs, S) \<leftarrow> open_tiers e (Suc i) ts S; Some (map_option ((#) c) cs, S) }) }"

text \<open>The parameters of a tier can be given in any order.\<close>

definition describes :: "(string \<times> string) list \<Rightarrow> tier_spec \<times> nat \<Rightarrow> bool" where
  "describes ps tr \<longleftrightarrow> mset ps = mset (tier_param_list tr) \<and> tier_valid tr"

definition print_queries :: "(string \<times> string) list list \<Rightarrow> string \<Rightarrow> string" where
  "print_queries qs rest = concat (map (\<lambda>ps. print_params ps @ '';'') qs) @ rest"

lemma print_params_set: "set (print_params ps) \<subseteq> (\<Union>p\<in>set ps. set (fst p) \<union> set (snd p)) \<union> {CHR '':'', CHR '',''}"
  by (induction ps rule: print_params.induct) auto

lemma print_params_length: "(\<Sum>p\<leftarrow>ps. Suc (length (fst p) + length (snd p))) \<le> length (print_params ps)"
  by (induction ps rule: print_params.induct) auto

lemma describes_text:
  assumes "describes ps tr"
  shows "CHR '';'' \<notin> set (print_params ps)" "16 \<le> length (print_params ps)"
proof -
  have m: "mset ps = mset (tier_param_list tr)" and v: "tier_valid tr" using assms by (simp_all add: describes_def)
  have "param_good p" if "p \<in> set ps" for p
    using tier_param_list_good(2) [OF v] mset_eq_setD [OF m] that by blast
  then have "\<forall>p\<in>set ps. CHR '';'' \<notin> set (fst p) \<and> CHR '';'' \<notin> set (snd p)" using param_good_text(2,3) by blast
  then show "CHR '';'' \<notin> set (print_params ps)" using print_params_set [of ps] by auto
  let ?f = "\<lambda>p :: string \<times> string. Suc (length (fst p) + length (snd p))"
  have sum: "sum_list (map ?f xs) = (\<Sum>p\<in>#mset xs. ?f p)" for xs by (induction xs) simp_all
  have "sum_list (map ?f ps) = sum_list (map ?f (tier_param_list tr))" unfolding sum m ..
  moreover have "1 \<le> length (decimal (snd tr))" using decimal_nonempty [of "snd tr"] by (simp add: Suc_le_eq)
  then have "16 \<le> sum_list (map ?f (tier_param_list tr))"
    by (cases "fst tr") (simp_all add: tier_param_list_def split: option.split)
  ultimately show "16 \<le> length (print_params ps)" using print_params_length [of ps] by linarith
qed

lemma print_queries_cons:
  assumes "describes ps tr"
  shows "strtok_r CHR '';'' (print_queries (ps # qs) rest) = (Some (print_params ps), print_queries qs rest)"
proof -
  have "print_params ps \<noteq> []" using describes_text(2) [OF assms] by auto
  from strtok_sep(1) [OF this describes_text(1) [OF assms]] show ?thesis by (simp add: print_queries_def)
qed

lemma print_queries_length:
  assumes "list_all2 describes qs ts"
  shows "16 * length qs \<le> length (print_queries qs rest)"
    and "count_list (print_queries qs rest) CHR '';'' = length qs + count_list rest CHR '';''"
proof -
  from assms have "16 * length qs \<le> length (print_queries qs rest) \<and>
      count_list (print_queries qs rest) CHR '';'' = length qs + count_list rest CHR '';''"
  proof induction
    case (Cons ps qs tr ts)
    have "count_list (print_params ps) CHR '';'' = 0" using describes_text(1) [OF Cons(1)] by (simp add: count_list_0_iff)
    then show ?case using Cons.IH describes_text(2) [OF Cons(1)] by (simp add: print_queries_def)
  qed (simp add: print_queries_def)
  then show "16 * length qs \<le> length (print_queries qs rest)"
    "count_list (print_queries qs rest) CHR '';'' = length qs + count_list rest CHR '';''" by simp_all
qed

lemma parse_tiers_run:
  assumes "list_all2 describes qs ts" "i + length qs \<le> MAX_KIND"
  shows "(case strtok_r CHR '';'' (print_queries qs rest) of (qbuf, sptr) \<Rightarrow> parse_tiers e (length qs) i qbuf sptr S) =
    map_option (\<lambda>(cs, S). (map_option (\<lambda>cs. (cs, strtok_r CHR '';'' rest)) cs, S)) (open_tiers e i ts S)"
  using assms
proof (induction arbitrary: i S)
  case Nil
  then show ?case by (simp add: print_queries_def split: prod.split)
next
  case (Cons ps qs tr ts)
  have i: "i < MAX_KIND" "Suc i + length qs \<le> MAX_KIND" using Cons.prems by simp_all
  have q: "ctl_parse_tier_query e i (Some (print_params ps)) S = open_tier e i tr S"
    using Cons.hyps(1) by (intro tier_query_run) (simp_all add: describes_def)
  show ?case using Cons.IH [OF i(2)] i(1)
    by (simp add: print_queries_cons [OF Cons.hyps(1)] q option.map_comp comp_def map_option_bind
        split: option.split prod.split bind_split)
qed

section \<open>Thresholds\<close>

datatype th_field = Init_Val | Min_Val | Max_Val

primrec field_id :: "th_field \<Rightarrow> nat" where
  "field_id Init_Val = 0"
| "field_id Min_Val = 1"
| "field_id Max_Val = 2"

primrec field_param :: "th_field \<Rightarrow> string" where
  "field_param Init_Val = ''INIT_VAL''"
| "field_param Min_Val = ''MIN_VAL''"
| "field_param Max_Val = ''MAX_VAL''"

type_synonym threshold_spec = "(th_field \<times> size_spec) list"

definition threshold_valid :: "threshold_spec \<Rightarrow> bool" where
  "threshold_valid th \<longleftrightarrow> th \<noteq> [] \<and> distinct (map fst th) \<and> (\<forall>fx\<in>set th. size_bytes (snd fx) < 2 ^ 64)"

definition print_threshold :: "threshold_spec \<Rightarrow> string" where
  "print_threshold th = print_params (map (\<lambda>fx. (field_param (fst fx), print_size (snd fx))) th)"

definition set_limit :: "th_field \<times> size_spec \<Rightarrow> memtier_threshold_cfg \<Rightarrow> memtier_threshold_cfg" where
  "set_limit fx = set_field (ctl_fields ! field_id (fst fx)) (of_nat (size_bytes (snd fx)))"

text \<open>A builder of the threshold policy with a threshold between every two tiers.\<close>

definition builder_dyn :: "memtier_builder \<Rightarrow> bool" where
  "builder_dyn b \<longleftrightarrow> bd_policy b = MEMTIER_POLICY_DYNAMIC_THRESHOLD \<and> length (bd_thres b) = length (bd_cfg b) - 1 \<and>
     length (bd_cfg b) < 2 ^ 31"

lemma field_id_param: "threshold_param_id (field_param f) = Some (field_id f)" "field_id f < length ctl_fields"
  "ctl_fields ! field_id f \<in> {''val'', ''min'', ''max''}"
  by (cases f; simp add: threshold_param_id_def ctl_fields_def)+

lemma set_named_run:
  assumes "builder_dyn b" "Suc i < length (bd_cfg b)"
  shows "memtier_ctl_set b (take (MAX_CTL_NAME - 1) (threshold_name i (ctl_fields ! field_id f))) (Val_size_t x) =
    Some (0, b\<lparr>bd_thres := (bd_thres b)[i := set_field (ctl_fields ! field_id f) x (bd_thres b ! i)]\<rparr>)"
proof -
  have "i < 10 ^ Suc 9" using assms by (simp add: builder_dyn_def)
  from decimal_length [OF this] have "length (threshold_name i (ctl_fields ! field_id f)) \<le> MAX_CTL_NAME - 1"
    by (cases f) (simp_all add: threshold_name_def ctl_prefix_def ctl_fields_def MAX_CTL_NAME_def)
  then show ?thesis using assms ctl_set_threshold_run [OF field_id_param(3) assms(2)]
    by (simp add: ctl_set_named builder_dyn_def)
qed

lemma field_text: "param_text (field_param f, print_size x)" "CHR '';'' \<notin> set (field_param f)"
  by (cases f; simp add: param_text_def print_size_nonempty print_size_special)+

lemma field_id_inj: "field_id f = field_id g \<longleftrightarrow> f = g"
  by (cases f; cases g) simp_all

lemma threshold_params_run:
  assumes "builder_dyn b" "Suc i < length (bd_cfg b)" "distinct (map fst th)" "\<forall>fx\<in>set th. size_bytes (snd fx) < 2 ^ 64"
    and "\<forall>fx\<in>set th. \<not> bit opts (field_id (fst fx))"
  shows "threshold_params i (print_threshold th) opts b =
    Some (0, b\<lparr>bd_thres := (bd_thres b)[i := fold set_limit th (bd_thres b ! i)]\<rparr>)"
  using assms
proof (induction th arbitrary: b opts)
  case Nil
  then show ?case by (simp add: print_threshold_def threshold_params.simps [of i "[]"] strtok_nil)
next
  case (Cons fx th)
  obtain f x where fx: "fx = (f, x)" by (cases fx)
  let ?b = "b\<lparr>bd_thres := (bd_thres b)[i := set_limit (f, x) (bd_thres b ! i)]\<rparr>"
  let ?opts = "opts OR push_bit (field_id f) 1 :: 32 word"
  have len: "i < length (bd_thres b)" using Cons.prems(1,2) by (simp add: builder_dyn_def)
  have b: "builder_dyn ?b" "Suc i < length (bd_cfg ?b)" using Cons.prems(1,2) by (simp_all add: builder_dyn_def)
  have "\<not> bit ?opts (field_id (fst gy))" if "gy \<in> set th" for gy
  proof -
    have "fst gy \<noteq> f" using Cons.prems(3) that by (metis distinct.simps(2) fst_conv fx image_eqI list.set_map list.simps(9))
    then show ?thesis using Cons.prems(5) that by (simp add: bit_or_iff bit_exp_iff field_id_inj)
  qed
  then have "\<forall>gy\<in>set th. \<not> bit ?opts (field_id (fst gy))" by blast
  from Cons.IH [OF b _ _ this] Cons.prems(3,4) len have ih: "threshold_params i (print_threshold th) ?opts ?b =
      Some (0, b\<lparr>bd_thres := (bd_thres b)[i := fold set_limit th (set_limit (f, x) (bd_thres b ! i))]\<rparr>)" by simp
  note c = print_params_cons [OF field_text(1) [of f x], of "map (\<lambda>fx. (field_param (fst fx), print_size (snd fx))) th"]
  have sz: "ctl_parse_size (Some (print_size x)) = Some (Some (of_nat (size_bytes x)))"
    using Cons.prems(4) by (intro parse_size_print) (simp add: fx)
  have step: "ctl_set_thr_cfg (print_size x @ (if map (\<lambda>fx. (field_param (fst fx), print_size (snd fx))) th = [] then []
      else CHR '','' # print_params (map (\<lambda>fx. (field_param (fst fx), print_size (snd fx))) th))) (field_id f) i opts b =
      Some (0, print_threshold th, ?opts, ?b)"
    using Cons.prems(5) field_id_param(2) [of f] set_named_run [OF Cons.prems(1,2), of f]
    unfolding ctl_set_thr_cfg_def c(2) by (simp add: fx sz set_limit_def print_threshold_def)
  let ?ps = "(field_param f, print_size x) # map (\<lambda>fx. (field_param (fst fx), print_size (snd fx))) th"
  have pt: "print_threshold (fx # th) = print_params ?ps" by (simp add: print_threshold_def fx)
  have "threshold_params i (print_threshold (fx # th)) opts b = threshold_params i (print_threshold th) ?opts ?b"
    unfolding pt threshold_params.simps [of i "print_params ?ps"] c(1) using step by (simp add: field_id_param(1))
  then show ?case using ih by (simp add: fx)
qed

fun print_thresholds :: "threshold_spec list \<Rightarrow> string" where
  "print_thresholds [] = []"
| "print_thresholds [th] = print_threshold th"
| "print_thresholds (th # ths) = print_threshold th @ CHR '';'' # print_thresholds ths"

primrec set_thresholds :: "nat \<Rightarrow> threshold_spec list \<Rightarrow> memtier_threshold_cfg list \<Rightarrow> memtier_threshold_cfg list" where
  "set_thresholds i [] ts = ts"
| "set_thresholds i (th # ths) ts = set_thresholds (Suc i) ths (ts[i := fold set_limit th (ts ! i)])"

lemma print_threshold_text:
  assumes "threshold_valid th"
  shows "CHR '';'' \<notin> set (print_threshold th)" "print_threshold th \<noteq> []" "fst (strtok_r CHR '':'' (print_threshold th)) \<noteq> None"
proof -
  let ?ps = "map (\<lambda>fx. (field_param (fst fx), print_size (snd fx))) th"
  show "CHR '';'' \<notin> set (print_threshold th)"
    using print_params_set [of ?ps] field_text(2) print_size_special(3) unfolding print_threshold_def by auto
  obtain fx th' where th: "th = fx # th'" using assms by (cases th) (simp_all add: threshold_valid_def)
  then have pt: "print_threshold th =
      print_params ((field_param (fst fx), print_size (snd fx)) # map (\<lambda>fx. (field_param (fst fx), print_size (snd fx))) th')"
    by (simp add: print_threshold_def)
  show "fst (strtok_r CHR '':'' (print_threshold th)) \<noteq> None" unfolding pt print_params_cons(1) [OF field_text(1)] by simp
  then show "print_threshold th \<noteq> []" by (auto simp: strtok_nil)
qed

lemma print_thresholds_cons:
  assumes "threshold_valid th"
  shows "strtok_r CHR '';'' (print_thresholds (th # ths)) = (Some (print_threshold th), print_thresholds ths)"
  using strtok_sep [OF print_threshold_text(2) [OF assms] print_threshold_text(1) [OF assms]] by (cases ths) auto

lemma print_thresholds_count:
  assumes "\<forall>th\<in>set ths. threshold_valid th" "ths \<noteq> []"
  shows "1 + count_list (print_thresholds ths) CHR '';'' = length ths"
  using assms
proof (induction ths rule: print_thresholds.induct)
  case (3 th th' ths)
  then show ?case using print_threshold_text(1) [of th] by (simp add: count_list_0_iff)
qed (simp_all add: print_threshold_text(1) count_list_0_iff)

lemma parse_thresholds_run:
  assumes "builder_dyn b" "i + length ths < length (bd_cfg b)" "\<forall>th\<in>set ths. threshold_valid th"
  shows "(case strtok_r CHR '';'' (print_thresholds ths) of (qbuf, sptr) \<Rightarrow> parse_thresholds (length ths) i qbuf sptr b) =
    Some (0, b\<lparr>bd_thres := set_thresholds i ths (bd_thres b)\<rparr>)"
  using assms
proof (induction ths arbitrary: i b)
  case Nil
  then show ?case by (simp split: prod.split)
next
  case (Cons th ths)
  let ?b = "b\<lparr>bd_thres := (bd_thres b)[i := fold set_limit th (bd_thres b ! i)]\<rparr>"
  have th: "threshold_valid th" using Cons.prems(3) by simp
  have "ctl_parse_threshold_query (Some (print_threshold th)) i b = Some (0, ?b)"
    using print_threshold_text(3) [OF th] threshold_params_run [of b i th 0] Cons.prems(1,2) th
    by (simp add: ctl_parse_threshold_query_def threshold_valid_def)
  moreover have "builder_dyn ?b" "Suc i + length ths < length (bd_cfg ?b)" using Cons.prems(1,2) by (simp_all add: builder_dyn_def)
  from Cons.IH [OF this] Cons.prems(3) have "(case strtok_r CHR '';'' (print_thresholds ths) of (qbuf, sptr) \<Rightarrow>
      parse_thresholds (length ths) (Suc i) qbuf sptr ?b) =
      Some (0, b\<lparr>bd_thres := set_thresholds (Suc i) ths ((bd_thres b)[i := fold set_limit th (bd_thres b ! i)])\<rparr>)" by simp
  ultimately show ?case by (simp add: print_thresholds_cons [OF th])
qed

section \<open>Building\<close>

lemma ctl_add_tiers_dyn:
  assumes "bd_policy b = MEMTIER_POLICY_DYNAMIC_THRESHOLD" "length (bd_thres b) = length (bd_cfg b) - 1"
    and "ctl_add_tiers e i cs b = (0, b')"
  shows "bd_policy b' = MEMTIER_POLICY_DYNAMIC_THRESHOLD \<and> length (bd_thres b') = length (bd_cfg b') - 1 \<and>
    length (bd_cfg b') = length (bd_cfg b) + length cs"
  using assms
proof (induction cs arbitrary: i b)
  case (Cons c cs)
  from Cons.prems(3) obtain b1 where b1: "memtier_builder_add_tier (tier_ok e i) (tier_junk e i) b (fst c) (snd c) = (0, b1)"
    "ctl_add_tiers e (Suc i) cs b1 = (0, b')" by (auto split: prod.splits if_splits)
  have "bd_policy b1 = MEMTIER_POLICY_DYNAMIC_THRESHOLD \<and> length (bd_thres b1) = length (bd_cfg b1) - 1 \<and>
      length (bd_cfg b1) = Suc (length (bd_cfg b))"
    using b1(1) Cons.prems(1,2)
    by (auto simp: memtier_builder_add_tier_def builder_dynamic_update_def Let_def split: option.splits if_splits)
  then show ?case using Cons.IH [OF _ _ b1(2)] by simp
qed simp

text \<open>What a configuration means: open the tiers, collect them in a builder, set the limits, construct.\<close>

definition build_spec :: "ctl_env \<Rightarrow> nat \<Rightarrow> (memkind option \<times> 32 word) list \<Rightarrow> threshold_spec list option \<Rightarrow> memtier \<Rightarrow>
    (memtier_memory option \<times> memtier) option" where
  "build_spec e policy cfg thr M = (case memtier_builder_new (builder_ok e) policy M of
     (None, M) \<Rightarrow> Some (None, M)
   | (Some b, M) \<Rightarrow> (case ctl_add_tiers e 0 cfg b of (ret, b) \<Rightarrow>
       if ret \<noteq> 0 \<or> thr \<noteq> None \<and> (policy \<noteq> MEMTIER_POLICY_DYNAMIC_THRESHOLD \<or> length cfg \<le> length (the thr)) then Some (None, M)
       else memtier_builder_construct_memtier_memory (mem_boot e) (mem_weight e) (mem_alloc e) (mem_junk e) (mem_kind0 e)
         (b\<lparr>bd_thres := set_thresholds 0 (case thr of None \<Rightarrow> [] | Some ths \<Rightarrow> ths) (bd_thres b)\<rparr>) M))"

definition tier_memory_spec :: "ctl_env \<Rightarrow> (tier_spec \<times> nat) list \<Rightarrow> nat \<Rightarrow> threshold_spec list option \<Rightarrow> ctl_state \<Rightarrow>
    (memtier_memory option \<times> ctl_state) option" where
  "tier_memory_spec e ts policy thr S = do {
     (cfg, S) \<leftarrow> open_tiers e 0 ts S;
     (case cfg of
        None \<Rightarrow> cleanup_after_failure S
      | Some cfg \<Rightarrow> do {
          (m, M) \<leftarrow> build_spec e policy cfg thr (reg_memtier (ct_reg S));
          let S = S\<lparr>ct_reg := (ct_reg S)\<lparr>reg_memtier := M\<rparr>\<rparr>;
          (if m = None then cleanup_after_failure S else Some (m, S)) }) }"

definition policy_name :: "nat \<Rightarrow> string" where
  "policy_name policy = (if policy = MEMTIER_POLICY_STATIC_RATIO then ''STATIC_RATIO''
     else if policy = MEMTIER_POLICY_DYNAMIC_THRESHOLD then ''DYNAMIC_THRESHOLD'' else ''DATA_HOTNESS'')"

definition print_config :: "(string \<times> string) list list \<Rightarrow> nat \<Rightarrow> string" where
  "print_config qs policy = print_queries qs (''POLICY:'' @ policy_name policy)"

definition thresholds_text_ok :: "threshold_spec list option \<Rightarrow> bool" where
  "thresholds_text_ok thr \<longleftrightarrow> (case thr of None \<Rightarrow> True | Some ths \<Rightarrow> ths \<noteq> [] \<and> (\<forall>th\<in>set ths. threshold_valid th) \<and>
     length (print_thresholds ths) < MAX_ENV_STRING)"

lemma open_tiers_length: "open_tiers e i ts S = Some (Some cfg, S') \<Longrightarrow> length cfg = length ts"
  by (induction ts arbitrary: i S cfg S') (auto simp: bind_eq_Some_conv split: option.splits)

lemma ctl_build_run:
  assumes "thresholds_text_ok thr" "length cfg < 2 ^ 31"
  shows "ctl_build e policy cfg (map_option print_thresholds thr) M = build_spec e policy cfg thr M"
proof (cases "memtier_builder_new (builder_ok e) policy M")
  case (Pair bo M1)
  show ?thesis
  proof (cases bo)
    case None
    then show ?thesis using Pair by (simp add: ctl_build_def build_spec_def)
  next
    case (Some b0)
    obtain ret b where b: "ctl_add_tiers e 0 cfg b0 = (ret, b)" by fastforce
    show ?thesis
    proof (cases "ret = 0 \<and> thr \<noteq> None \<and> policy = MEMTIER_POLICY_DYNAMIC_THRESHOLD")
      case True
      then obtain ths where thr: "thr = Some ths" by auto
      have ths: "ths \<noteq> []" "\<forall>th\<in>set ths. threshold_valid th" "length (print_thresholds ths) < MAX_ENV_STRING"
        using assms(1) by (simp_all add: thresholds_text_ok_def thr)
      have "bd_policy b0 = MEMTIER_POLICY_DYNAMIC_THRESHOLD \<and> bd_cfg b0 = [] \<and> bd_thres b0 = []"
        using Pair Some True by (auto simp: memtier_builder_new_def Let_def split: if_splits)
      then have dyn: "builder_dyn b" "length (bd_cfg b) = length cfg"
        using ctl_add_tiers_dyn [of b0 e 0 cfg b] b True assms(2) by (simp_all add: builder_dyn_def)
      obtain th ths' where c: "ths = th # ths'" using ths(1) by (cases ths) auto
      have t: "take (MAX_ENV_STRING - 1) (print_thresholds ths) = print_thresholds ths" using ths(3) by simp
      have "ctl_set_thresholds (print_thresholds ths) policy (length cfg) b = (if length cfg \<le> length ths then Some (-1, b)
          else Some (0, b\<lparr>bd_thres := set_thresholds 0 ths (bd_thres b)\<rparr>))"
        unfolding ctl_set_thresholds_def t Let_def print_thresholds_count [OF ths(2,1)]
        using parse_thresholds_run [OF dyn(1), of 0 ths] ths(2) dyn(2) True print_thresholds_cons [of th ths'] by (simp add: c)
      then show ?thesis using Pair Some b True by (simp add: ctl_build_def build_spec_def thr)
    next
      case False
      then show ?thesis using Pair Some b
        by (cases thr) (auto simp: ctl_build_def build_spec_def ctl_set_thresholds_def Let_def)
    qed
  qed
qed

lemma env_run:
  assumes "list_all2 describes qs ts" "qs \<noteq> []" "length (print_queries qs P) < MAX_ENV_STRING" "CHR '';'' \<notin> set P"
  shows "ctl_create_tier_memory_from_env e (print_queries qs P) thr S = do {
    (cfg, S) \<leftarrow> open_tiers e 0 ts S;
    (case cfg of None \<Rightarrow> cleanup_after_failure S | Some cfg \<Rightarrow> ctl_finish e cfg P thr S) }"
proof -
  have t: "take (MAX_ENV_STRING - 1) (print_queries qs P) = print_queries qs P" using assms(3) by simp
  have cnt: "count_list (print_queries qs P) CHR '';'' = length qs"
    using print_queries_length(2) [OF assms(1), of P] assms(4) by (simp add: count_list_0_iff)
  have len: "length qs \<le> MAX_KIND"
    using print_queries_length(1) [OF assms(1), of P] assms(3) by (simp add: MAX_ENV_STRING_def MAX_KIND_def)
  obtain ps qs' tr where q: "qs = ps # qs'" "describes ps tr" using assms(1,2) by (cases qs) (auto simp: list_all2_Cons1)
  have tok: "strtok_r CHR '';'' (print_queries qs P) = (Some (print_params ps), print_queries qs' P)"
    unfolding q(1) by (rule print_queries_cons [OF q(2)])
  obtain qb sp where last: "strtok_r CHR '';'' P = (qb, sp)" "(case qb of None \<Rightarrow> sp | Some s \<Rightarrow> s) = P"
    using strtok_sep(2) [OF _ assms(4)] by (cases "P = []") (auto simp: strtok_nil)
  have run: "parse_tiers e (length qs) 0 (Some (print_params ps)) (print_queries qs' P) S =
      map_option (\<lambda>(cs, S). (map_option (\<lambda>cs. (cs, qb, sp)) cs, S)) (open_tiers e 0 ts S)"
    using parse_tiers_run [OF assms(1), where i = 0 and rest = P and e = e and S = S] len unfolding tok last(1) by simp
  have two: "\<not> 1 + length qs < 2" using assms(2) by (cases qs) simp_all
  show ?thesis unfolding ctl_create_tier_memory_from_env_def t cnt Let_def tok using two last(2)
    by (simp add: run split: option.split bind_split prod.split)
qed

lemma ctl_finish_run:
  assumes "policy \<in> {MEMTIER_POLICY_STATIC_RATIO, MEMTIER_POLICY_DYNAMIC_THRESHOLD, MEMTIER_POLICY_DATA_HOTNESS}"
    and "thresholds_text_ok thr" "length cfg < 2 ^ 31"
  shows "ctl_finish e cfg (''POLICY:'' @ policy_name policy) (map_option print_thresholds thr) S = do {
    (m, M) \<leftarrow> build_spec e policy cfg thr (reg_memtier (ct_reg S));
    let S = S\<lparr>ct_reg := (ct_reg S)\<lparr>reg_memtier := M\<rparr>\<rparr>;
    (if m = None then cleanup_after_failure S else Some (m, S)) }"
proof -
  have "strtok_r CHR '':'' (''POLICY:'' @ policy_name policy) = (Some ''POLICY'', policy_name policy)"
    using strtok_sep(1) [of "''POLICY''" "CHR '':''" "policy_name policy"] by simp
  moreover have "ctl_parse_policy (policy_name policy) = Some policy"
    using assms(1) by (auto simp: policy_name_def ctl_parse_policy_def MEMTIER_POLICY_STATIC_RATIO_def
        MEMTIER_POLICY_DYNAMIC_THRESHOLD_def MEMTIER_POLICY_DATA_HOTNESS_def)
  ultimately show ?thesis by (simp add: ctl_finish_def ctl_build_run [OF assms(2,3)])
qed

lemma env_config_roundtrip_run:
  assumes "list_all2 describes qs ts" "qs \<noteq> []" "length (print_config qs policy) < MAX_ENV_STRING" "thresholds_text_ok thr"
    and "policy \<in> {MEMTIER_POLICY_STATIC_RATIO, MEMTIER_POLICY_DYNAMIC_THRESHOLD, MEMTIER_POLICY_DATA_HOTNESS}"
  shows "ctl_create_tier_memory_from_env e (print_config qs policy) (map_option print_thresholds thr) S =
    tier_memory_spec e ts policy thr S"
proof -
  have "CHR '';'' \<notin> set (''POLICY:'' @ policy_name policy)" by (simp add: policy_name_def)
  note run = env_run [OF assms(1,2) _ this, of e "map_option print_thresholds thr" S]
  have len: "length ts < 2 ^ 31"
    using print_queries_length(1) [OF assms(1), of "''POLICY:'' @ policy_name policy"] assms(3) list_all2_lengthD [OF assms(1)]
    by (simp add: print_config_def MAX_ENV_STRING_def)
  have "ctl_finish e cfg (''POLICY:'' @ policy_name policy) (map_option print_thresholds thr) S' = do {
      (m, M) \<leftarrow> build_spec e policy cfg thr (reg_memtier (ct_reg S'));
      let S = S'\<lparr>ct_reg := (ct_reg S')\<lparr>reg_memtier := M\<rparr>\<rparr>;
      (if m = None then cleanup_after_failure S else Some (m, S)) }" if "open_tiers e 0 ts S = Some (Some cfg, S')" for cfg S'
    using open_tiers_length [OF that] len by (intro ctl_finish_run [OF assms(5,4)]) simp
  then show ?thesis using run assms(3) unfolding print_config_def tier_memory_spec_def
    by (cases "open_tiers e 0 ts S") (auto split: option.split)
qed

section \<open>Properties\<close>

text \<open>
  C11: reading a configuration back.  Print any list of tiers, the parameters of each in any order, a
  policy, and optionally limits of thresholds, within the 1023 characters the code looks at.  Then
  \<open>ctl_create_tier_memory_from_env\<close> does what the configuration means: it opens the tiers in order,
  creating kinds with the printed directory and size limit, adds them with the printed ratios to a
  builder of the printed policy, sets exactly the printed limits and constructs the memory; on a
  failure it destroys the kinds it has created.
\<close>

theorem env_config_roundtrip:
  assumes "list_all2 describes qs ts" "qs \<noteq> []" "length (print_config qs policy) < MAX_ENV_STRING" "thresholds_text_ok thr"
    and "policy \<in> {MEMTIER_POLICY_STATIC_RATIO, MEMTIER_POLICY_DYNAMIC_THRESHOLD, MEMTIER_POLICY_DATA_HOTNESS}"
  shows "ctl_create_tier_memory_from_env e (print_config qs policy) (map_option print_thresholds thr) S =
    tier_memory_spec e ts policy thr S"
  by (rule env_config_roundtrip_run [OF assms])

definition example_ctl_env :: ctl_env where
  "example_ctl_env = \<lparr>MEMKIND_DAX_KMEM = Memkind 8448 18, dax_kmem_ok = True,
     pmem_env = (\<lambda>_. (demo_kern, Map.empty, example_create_env example_granted)), fs_dax_ok = (\<lambda>_. True), builder_ok = True,
     tier_ok = (\<lambda>_ _. True), tier_junk = (\<lambda>_. demo_thres0), mem_boot = demo_boot, mem_weight = 4 / 10,
     mem_alloc = (\<lambda>_. True), mem_junk = demo_mem0, mem_kind0 = demo_kind0\<rparr>"

definition example_ctl_state :: ctl_state where
  "example_ctl_state = \<lparr>ct_reg = example_registry, fs_dax_kinds = Some []\<rparr>"

lemma decimal_digit: "decimal (Suc 0) = ''1''" "decimal 2 = ''2''" "decimal 3 = ''3''" "decimal 4 = ''4''"
  by (simp add: decimal.simps [of "Suc 0"], code_simp) (simp add: decimal.simps [of 2], code_simp, simp add: decimal.simps [of 3], code_simp,
    simp add: decimal.simps [of 4], code_simp)

lemma example_build:
  "\<exists>m M'. build_spec example_ctl_env MEMTIER_POLICY_DYNAMIC_THRESHOLD [(Some demo_kind0, 1), (Some (Memkind 8448 18), 4)]
      (Some [[(Init_Val, (2, Kilo)), (Max_Val, (3, Kilo))]]) M = Some (Some m, M') \<and>
    map tier_kind (mem_cfg m) = [demo_kind0, Memkind 8448 18] \<and> map th_val (mem_thres m) = [2048]"
  by (simp add: build_spec_def memtier_builder_new_def example_ctl_env_def demo_kind0_def
      MEMTIER_POLICY_DYNAMIC_THRESHOLD_def MEMTIER_POLICY_STATIC_RATIO_def MEMTIER_POLICY_DATA_HOTNESS_def
      memtier_builder_add_tier_def builder_dynamic_update_def default_threshold_def THRESHOLD_STEP_def
      set_limit_def ctl_fields_def set_field_def size_bytes_def memtier_builder_construct_memtier_memory_def
      builder_dynamic_create_memory_def memtier_memory_init_def create_threshold_def static_cfg_def)

theorem env_config_roundtrip_witness:
  "\<exists>m S'. ctl_create_tier_memory_from_env example_ctl_env ''RATIO:1,KIND:DRAM;KIND:KMEM_DAX,RATIO:4;POLICY:DYNAMIC_THRESHOLD''
      (Some ''INIT_VAL:2K,MAX_VAL:3K'') example_ctl_state = Some (Some m, S') \<and>
    map tier_kind (mem_cfg m) = [demo_kind0, Memkind 8448 18] \<and> map th_val (mem_thres m) = [2048]"
proof -
  let ?qs = "[[(''RATIO'', ''1''), (''KIND'', ''DRAM'')], [(''KIND'', ''KMEM_DAX''), (''RATIO'', ''4'')]]"
  let ?ts = "[(Dram, 1), (Kmem_Dax, 4)]"
  let ?ths = "[[(Init_Val, (2, Kilo)), (Max_Val, (3, Kilo))]]"
  have "list_all2 describes ?qs ?ts" by (simp add: describes_def tier_param_list_def tier_valid_def decimal_digit)
  moreover have str: "print_config ?qs MEMTIER_POLICY_DYNAMIC_THRESHOLD = ''RATIO:1,KIND:DRAM;KIND:KMEM_DAX,RATIO:4;POLICY:DYNAMIC_THRESHOLD''"
    "print_thresholds ?ths = ''INIT_VAL:2K,MAX_VAL:3K''"
    by (simp_all add: print_config_def print_queries_def policy_name_def MEMTIER_POLICY_DYNAMIC_THRESHOLD_def
        MEMTIER_POLICY_STATIC_RATIO_def print_threshold_def print_size_def decimal_digit)
  moreover have "thresholds_text_ok (Some ?ths)"
    by (simp add: thresholds_text_ok_def str(2) [simplified] threshold_valid_def size_bytes_def MAX_ENV_STRING_def)
  ultimately have "ctl_create_tier_memory_from_env example_ctl_env ''RATIO:1,KIND:DRAM;KIND:KMEM_DAX,RATIO:4;POLICY:DYNAMIC_THRESHOLD''
      (Some ''INIT_VAL:2K,MAX_VAL:3K'') example_ctl_state =
      tier_memory_spec example_ctl_env ?ts MEMTIER_POLICY_DYNAMIC_THRESHOLD (Some ?ths) example_ctl_state"
    using env_config_roundtrip [of ?qs ?ts MEMTIER_POLICY_DYNAMIC_THRESHOLD "Some ?ths" example_ctl_env example_ctl_state]
    by (simp add: MAX_ENV_STRING_def)
  moreover have "open_tiers example_ctl_env 0 ?ts example_ctl_state = Some (Some [(Some demo_kind0, 1), (Some (Memkind 8448 18), 4)], example_ctl_state)"
    by (simp add: open_tier_def example_ctl_env_def example_ctl_state_def example_registry_def demo_memtier_def)
  moreover obtain m M' where "build_spec example_ctl_env MEMTIER_POLICY_DYNAMIC_THRESHOLD [(Some demo_kind0, 1), (Some (Memkind 8448 18), 4)]
      (Some ?ths) (reg_memtier (ct_reg example_ctl_state)) = Some (Some m, M')"
    "map tier_kind (mem_cfg m) = [demo_kind0, Memkind 8448 18]" "map th_val (mem_thres m) = [2048]" using example_build [of "reg_memtier (ct_reg example_ctl_state)"] by (elim exE conjE)
  ultimately show ?thesis unfolding tier_memory_spec_def by (simp del: open_tiers.simps)
qed

text \<open>
  A configuration without a policy crashes.  When the string ends behind the separator of the
  last tier, the code opens the tiers and then compares a token that does not exist with the
  word \<open>POLICY\<close>.
\<close>

theorem missing_policy_crashes:
  assumes "list_all2 describes qs ts" "qs \<noteq> []" "length (print_queries qs []) < MAX_ENV_STRING"
    and "open_tiers e 0 ts S = Some (Some cfg, S')"
  shows "ctl_create_tier_memory_from_env e (print_queries qs []) thr S = None"
  using env_run [OF assms(1-3), of e thr S] assms(4) by (simp add: ctl_finish_def strtok_nil)

theorem missing_policy_crashes_witness:
  "ctl_create_tier_memory_from_env example_ctl_env ''KIND:DRAM,RATIO:1;'' None example_ctl_state = None"
proof -
  let ?qs = "[[(''KIND'', ''DRAM''), (''RATIO'', ''1'')]]"
  have "list_all2 describes ?qs [(Dram, 1)]" by (simp add: describes_def tier_param_list_def tier_valid_def decimal_digit)
  moreover have "print_queries ?qs [] = ''KIND:DRAM,RATIO:1;''" by (simp add: print_queries_def)
  moreover have "open_tiers example_ctl_env 0 [(Dram, 1)] example_ctl_state = Some (Some [(Some demo_kind0, 1)], example_ctl_state)"
    by (simp add: open_tier_def example_ctl_state_def example_registry_def demo_memtier_def)
  ultimately show ?thesis
    using missing_policy_crashes [of ?qs "[(Dram, 1)]" example_ctl_env example_ctl_state "[(Some demo_kind0, 1)]" example_ctl_state None]
    by (simp add: MAX_ENV_STRING_def)
qed

end
