(* ===== verification/Tiering_Interposer.thy ===== *)
theory Tiering_Interposer
  imports Tiering_Ctl_Correct Memtier_Api
begin

text \<open>
  The library that replaces the allocator of a process (\<open>src/tiering/memtier.c\<close>): before it is set
  up it serves from the default kind, afterwards from the memory of the configuration, and after
  its end not at all.
\<close>

section \<open>Model\<close>

record interposer =
  current_memory :: "memtier_memory option"
  destructed :: bool
  lib_ctl :: ctl_state

definition lib_memtier :: "interposer \<Rightarrow> memtier" where
  "lib_memtier L = reg_memtier (ct_reg (lib_ctl L))"

definition put_memtier :: "memtier \<Rightarrow> interposer \<Rightarrow> interposer" where
  "put_memtier M L = L\<lparr>lib_ctl := (lib_ctl L)\<lparr>ct_reg := (ct_reg (lib_ctl L))\<lparr>reg_memtier := M\<rparr>\<rparr>\<rparr>"

definition put_memory :: "memtier_memory \<Rightarrow> memtier \<Rightarrow> interposer \<Rightarrow> interposer" where
  "put_memory m M L = (put_memtier M L)\<lparr>current_memory := Some m\<rparr>"

definition malloc :: "menv \<Rightarrow> size_t \<Rightarrow> interposer \<Rightarrow> (ptr \<times> interposer) option" where
  "malloc e n L = (case current_memory L of
     Some m \<Rightarrow> do { (p, m, M) \<leftarrow> memtier_malloc e m n (lib_memtier L); Some (p, put_memory m M L) }
   | None \<Rightarrow>
       if \<not> destructed L
       then (case memkind_malloc e (MEMKIND_DEFAULT (lib_memtier L)) (lib_memtier L) of (p, M) \<Rightarrow> Some (p, put_memtier M L))
       else Some (NULL, L))"

definition calloc :: "menv \<Rightarrow> size_t \<Rightarrow> size_t \<Rightarrow> interposer \<Rightarrow> (ptr \<times> interposer) option" where
  "calloc e num n L = (case current_memory L of
     Some m \<Rightarrow> do { (p, m, M) \<leftarrow> memtier_calloc e m num n (lib_memtier L); Some (p, put_memory m M L) }
   | None \<Rightarrow>
       if \<not> destructed L
       then (case memkind_malloc e (MEMKIND_DEFAULT (lib_memtier L)) (lib_memtier L) of (p, M) \<Rightarrow> Some (p, put_memtier M L))
       else Some (NULL, L))"

text \<open>\<open>memkind_default_realloc\<close>: a size of 0 releases the block.\<close>

definition memkind_default_realloc :: "menv \<Rightarrow> memkind \<Rightarrow> ptr \<Rightarrow> size_t \<Rightarrow> memtier \<Rightarrow> (ptr \<times> memtier) option" where
  "memkind_default_realloc e k p n M =
     (if n = 0 then do { M \<leftarrow> memkind_free p M; Some (NULL, M) }
      else case p of
        None \<Rightarrow> Some (memkind_malloc e k M)
      | Some a \<Rightarrow> do { mt_heap M a; Some (memkind_realloc e k a M) })"

definition realloc :: "menv \<Rightarrow> ptr \<Rightarrow> size_t \<Rightarrow> interposer \<Rightarrow> (ptr \<times> interposer) option" where
  "realloc e p n L = (case current_memory L of
     Some m \<Rightarrow> do { (p, m, M) \<leftarrow> memtier_realloc e m p n (lib_memtier L); Some (p, put_memory m M L) }
   | None \<Rightarrow>
       if \<not> destructed L
       then do {
         (p, M) \<leftarrow> memkind_default_realloc e (MEMKIND_DEFAULT (lib_memtier L)) p n (lib_memtier L);
         Some (p, put_memtier M L) }
       else Some (NULL, L))"

text \<open>The first component tells whether the call returns 0.  After the end of the library it does.\<close>

definition posix_memalign :: "menv \<Rightarrow> ptr \<Rightarrow> size_t \<Rightarrow> interposer \<Rightarrow> (bool \<times> ptr \<times> interposer) option" where
  "posix_memalign e memptr n L = (case current_memory L of
     Some m \<Rightarrow> do { (r, p, m, M) \<leftarrow> memtier_posix_memalign e m memptr n (lib_memtier L); Some (r, p, put_memory m M L) }
   | None \<Rightarrow>
       if \<not> destructed L
       then (case memkind_posix_memalign e (MEMKIND_DEFAULT (lib_memtier L)) memptr (lib_memtier L) of
         (r, p, M) \<Rightarrow> Some (r, p, put_memtier M L))
       else Some (True, memptr, L))"

definition free :: "menv \<Rightarrow> ptr \<Rightarrow> interposer \<Rightarrow> interposer option" where
  "free e p L = (case current_memory L of
     Some m \<Rightarrow> do { (_, m, M) \<leftarrow> memtier_realloc e m p 0 (lib_memtier L); Some (put_memory m M L) }
   | None \<Rightarrow>
       if \<not> destructed L
       then do { M \<leftarrow> memkind_free p (lib_memtier L); Some (put_memtier M L) }
       else Some L)"

definition malloc_usable_size :: "ptr \<Rightarrow> interposer \<Rightarrow> size_t option" where
  "malloc_usable_size p L = memtier_usable_size (lib_memtier L) p"

text \<open>Without a configuration that can be used the process is aborted.\<close>

definition memtier_init :: "ctl_env \<Rightarrow> string option \<Rightarrow> string option \<Rightarrow> interposer \<Rightarrow> interposer option" where
  "memtier_init e env_var thresholds_var L = do {
     s \<leftarrow> env_var;
     (r, S) \<leftarrow> ctl_create_tier_memory_from_env e s thresholds_var (lib_ctl L);
     m \<leftarrow> r;
     Some (L\<lparr>lib_ctl := S, current_memory := Some m\<rparr>) }"

definition memtier_fini :: "interposer \<Rightarrow> interposer option" where
  "memtier_fini L = do {
     S \<leftarrow> ctl_destroy_tier_memory (lib_ctl L);
     Some (L\<lparr>lib_ctl := S, current_memory := None, destructed := True\<rparr>) }"

section \<open>Runs of the library\<close>

datatype lib_op = LMalloc size_t | LCalloc size_t size_t | LRealloc ptr size_t | LFree ptr | LMemalign ptr size_t

fun lib_step :: "menv \<Rightarrow> lib_op \<Rightarrow> interposer \<Rightarrow> interposer option" where
  "lib_step e (LMalloc n) L = map_option snd (malloc e n L)"
| "lib_step e (LCalloc num n) L = map_option snd (calloc e num n L)"
| "lib_step e (LRealloc p n) L = map_option snd (realloc e p n L)"
| "lib_step e (LFree p) L = free e p L"
| "lib_step e (LMemalign p n) L = map_option (\<lambda>(_, _, L). L) (posix_memalign e p n L)"

primrec lib_run :: "(menv \<times> lib_op) list \<Rightarrow> interposer \<Rightarrow> interposer option" where
  "lib_run [] L = Some L"
| "lib_run (c # cs) L = do { L \<leftarrow> lib_step (fst c) (snd c) L; lib_run cs L }"

text \<open>The call of the tiering layer behind a call of the library.\<close>

primrec tier_op :: "lib_op \<Rightarrow> mop" where
  "tier_op (LMalloc n) = OMalloc n"
| "tier_op (LCalloc num n) = OCalloc num n"
| "tier_op (LRealloc p n) = ORealloc p n"
| "tier_op (LFree p) = ORealloc p 0"
| "tier_op (LMemalign p n) = OMemalign p n"

lemma put_simps [simp]:
  "current_memory (put_memory m M L) = Some m" "lib_memtier (put_memory m M L) = M" "lib_memtier (put_memtier M L) = M"
  "put_memory m M (put_memory m' M' L) = put_memory m M L"
  by (simp_all add: put_memory_def put_memtier_def lib_memtier_def)

lemma lib_step_tier:
  "current_memory L = Some m \<Longrightarrow>
    lib_step e c L = map_option (\<lambda>(m, M). put_memory m M L) (run_op e (tier_op c) (m, lib_memtier L))"
  by (cases c) (auto simp: malloc_def calloc_def realloc_def free_def posix_memalign_def map_option_case
      split: option.split bind_split prod.split)

text \<open>Correct use of the library, as for the tiering layer.\<close>

primrec lib_ok :: "(menv \<times> lib_op) list \<Rightarrow> interposer \<Rightarrow> bool" where
  "lib_ok [] L \<longleftrightarrow> True"
| "lib_ok (c # cs) L \<longleftrightarrow> op_ok (fst c) (tier_op (snd c)) (lib_memtier L) \<and>
     (case lib_step (fst c) (snd c) L of None \<Rightarrow> True | Some L' \<Rightarrow> lib_ok cs L')"

lemma lib_run_inv:
  assumes "current_memory L = Some m" "mt_inv m (lib_memtier L)" "lib_ok cs L"
  shows "\<exists>L' m'. lib_run cs L = Some L' \<and> current_memory L' = Some m' \<and> mt_inv m' (lib_memtier L')"
  using assms
proof (induction cs arbitrary: L m)
  case (Cons c cs)
  from run_op_inv [OF Cons.prems(2), of "fst c" "tier_op (snd c)"] Cons.prems(3) obtain m1 M1
    where r: "run_op (fst c) (tier_op (snd c)) (m, lib_memtier L) = Some (m1, M1)" "mt_inv m1 M1" by auto
  then have step: "lib_step (fst c) (snd c) L = Some (put_memory m1 M1 L)" using lib_step_tier [OF Cons.prems(1)] by simp
  then show ?case using Cons.IH [of "put_memory m1 M1 L" m1] r(2) Cons.prems(3) by simp
qed auto

section \<open>Start of the library\<close>

text \<open>A configuration of kinds that exist, with the static policy, when all allocations succeed.\<close>

definition static_kind :: "ctl_env \<Rightarrow> memtier \<Rightarrow> tier_spec \<Rightarrow> memkind" where
  "static_kind e M t = (if t = Dram then MEMKIND_DEFAULT M else MEMKIND_DAX_KMEM e)"

definition static_start :: "ctl_env \<Rightarrow> memtier \<Rightarrow> (tier_spec \<times> nat) list \<Rightarrow> bool" where
  "static_start e M ts \<longleftrightarrow> ts \<noteq> [] \<and> distinct (map fst ts) \<and> fst ` set ts \<subseteq> {Dram, Kmem_Dax} \<and>
     MEMKIND_DEFAULT M \<noteq> MEMKIND_DAX_KMEM e \<and> partition (MEMKIND_DEFAULT M) < MEMKIND_MAX_KIND \<and>
     partition (MEMKIND_DAX_KMEM e) < MEMKIND_MAX_KIND \<and>
     dax_kmem_ok e \<and> builder_ok e \<and> (\<forall>i j. tier_ok e i j) \<and> (\<forall>i. mem_alloc e i)"

lemma open_static:
  assumes "fst ` set ts \<subseteq> {Dram, Kmem_Dax}" "dax_kmem_ok e"
  shows "open_tiers e i ts S = Some (Some (map (\<lambda>t. (Some (static_kind e (reg_memtier (ct_reg S)) (fst t)), of_nat (snd t))) ts), S)"
  using assms(1)
proof (induction ts arbitrary: i)
  case (Cons t ts)
  have "open_tier e i t S = Some (Some (Some (static_kind e (reg_memtier (ct_reg S)) (fst t)), of_nat (snd t)), S)"
    using Cons.prems assms(2) by (auto simp: open_tier_def static_kind_def)
  then show ?case using Cons by simp
qed simp

lemma add_static:
  assumes "bd_policy b = MEMTIER_POLICY_STATIC_RATIO" "\<forall>i j. tier_ok e i j"
    and "distinct (map fst krs)" "fst ` set krs \<inter> tier_kind ` set (bd_cfg b) = {}"
  shows "ctl_add_tiers e i (map (\<lambda>(k, r). (Some k, r)) krs) b =
    (0, b\<lparr>bd_cfg := bd_cfg b @ map (\<lambda>(k, r). \<lparr>tier_kind = k, kind_ratio = of_word r\<rparr>) krs\<rparr>)"
  using assms
proof (induction krs arbitrary: i b)
  case (Cons kr krs)
  obtain k r where kr: "kr = (k, r)" by (cases kr)
  let ?b = "b\<lparr>bd_cfg := bd_cfg b @ [\<lparr>tier_kind = k, kind_ratio = of_word r\<rparr>]\<rparr>"
  have "memtier_builder_add_tier (tier_ok e i) (tier_junk e i) b (Some k) r = (0, ?b)"
    using Cons.prems(1,2,4)
    by (simp add: memtier_builder_add_tier_def kr MEMTIER_POLICY_STATIC_RATIO_def MEMTIER_POLICY_DYNAMIC_THRESHOLD_def)
  moreover have "fst ` set krs \<inter> tier_kind ` set (bd_cfg ?b) = {}" using Cons.prems(3,4) by (auto simp: kr)
  ultimately show ?case using Cons.IH [of ?b "Suc i"] Cons.prems(1-3) by (simp add: kr)
qed simp

lemma static_init:
  assumes "static_start e (lib_memtier L) ts" "list_all2 describes qs ts"
    and "length (print_config qs MEMTIER_POLICY_STATIC_RATIO) < MAX_ENV_STRING"
  shows "\<exists>m. memtier_init e (Some (print_config qs MEMTIER_POLICY_STATIC_RATIO)) None L =
      Some (put_memory m ((lib_memtier L)\<lparr>pol := MEMTIER_POLICY_STATIC_RATIO\<rparr>) L) \<and>
    mem_ok m \<and> get_kind m \<noteq> DATA_HOTNESS_GET_KIND \<and> post_alloc m = EMPTY_POST_ALLOC \<and> update_cfg m = STATIC_RATIO_UPDATE"
proof -
  let ?S = "lib_ctl L" and ?p = MEMTIER_POLICY_STATIC_RATIO
  let ?M = "reg_memtier (ct_reg ?S)"
  let ?krs = "map (\<lambda>t. (static_kind e ?M (fst t), of_nat (snd t) :: 32 word)) ts"
  let ?b0 = "\<lparr>bd_cfg = [], bd_thres = [], check_cnt = 0, trigger = Fin 0, degree = Fin 0, bd_policy = ?p\<rparr>"
  let ?cfg = "map (\<lambda>(k, r). \<lparr>tier_kind = k, kind_ratio = of_word r\<rparr>) ?krs"
  note st = assms(1) [unfolded static_start_def lib_memtier_def]
  have "inj_on (\<lambda>t. static_kind e ?M t) {Dram, Kmem_Dax}" using st by (auto simp: inj_on_def static_kind_def)
  then have "distinct (map (static_kind e ?M) (map fst ts))" using st by (subst distinct_map) (auto intro: inj_on_subset)
  then have dk: "distinct (map fst ?krs)" by (simp add: comp_def)
  have add: "ctl_add_tiers e 0 (map (\<lambda>(k, r). (Some k, r)) ?krs) ?b0 = (0, ?b0\<lparr>bd_cfg := ?cfg\<rparr>)"
    using add_static [of ?b0 e ?krs 0] dk st by simp
  obtain m where m: "builder_static_create_memory (mem_alloc e) (mem_junk e) (mem_kind0 e) (?b0\<lparr>bd_cfg := ?cfg\<rparr>) = Some m"
    "mem_cfg m = static_cfg ?cfg" "get_kind m \<in> {SINGLE_GET_KIND, STATIC_RATIO_GET_KIND}" "post_alloc m = EMPTY_POST_ALLOC"
    "update_cfg m = STATIC_RATIO_UPDATE"
    using st by (auto simp: builder_static_create_memory_def memtier_memory_init_def Let_def)
  have op: "open_tiers e 0 ts ?S = Some (Some (map (\<lambda>(k, r). (Some k, r)) ?krs), ?S)"
    using open_static [of ts e 0 ?S] st by (simp add: comp_def)
  have "build_spec e ?p (map (\<lambda>(k, r). (Some k, r)) ?krs) None ?M = Some (Some m, ?M\<lparr>pol := ?p\<rparr>)"
    using st add m(1) by (simp add: build_spec_def memtier_builder_new_def memtier_builder_construct_memtier_memory_def)
  then have "tier_memory_spec e ts ?p None ?S = Some (Some m, ?S\<lparr>ct_reg := (ct_reg ?S)\<lparr>reg_memtier := ?M\<lparr>pol := ?p\<rparr>\<rparr>\<rparr>)"
    unfolding tier_memory_spec_def op by simp
  moreover have "qs \<noteq> []" using assms(2) st by auto
  from env_config_roundtrip_run [OF assms(2) this assms(3), of None e ?S]
  have "ctl_create_tier_memory_from_env e (print_config qs ?p) None ?S = tier_memory_spec e ts ?p None ?S"
    by (simp add: thresholds_text_ok_def)
  ultimately have init: "memtier_init e (Some (print_config qs ?p)) None L = Some (put_memory m ((lib_memtier L)\<lparr>pol := ?p\<rparr>) L)"
    by (simp add: memtier_init_def put_memory_def put_memtier_def lib_memtier_def)
  have "tier_kind ` set (mem_cfg m) = static_kind e ?M ` fst ` set ts"
    unfolding m(2) list.set_map [symmetric] static_cfg_kinds by (simp add: image_image comp_def)
  then have "tier_kind ` set (mem_cfg m) \<subseteq> {MEMKIND_DEFAULT ?M, MEMKIND_DAX_KMEM e}" by (auto simp: static_kind_def)
  then have "tier_kind c = MEMKIND_DEFAULT ?M \<or> tier_kind c = MEMKIND_DAX_KMEM e" if "c \<in> set (mem_cfg m)" for c
    using that by blast
  then have "\<forall>c\<in>set (mem_cfg m). partition (tier_kind c) < MEMKIND_MAX_KIND" using st by metis
  moreover have "mem_cfg m \<noteq> []" using st arg_cong [OF static_cfg_kinds [of ?cfg], of length] by (auto simp: m(2))
  ultimately have "mem_ok m" using m(3,5) by (auto simp: mem_ok_def)
  then show ?thesis using init m(3-5) by auto
qed

lemma static_inv:
  assumes "sizes_ok M" "mem_ok m" "get_kind m \<noteq> DATA_HOTNESS_GET_KIND" "post_alloc m = EMPTY_POST_ALLOC"
  shows "mt_inv m (M\<lparr>pol := MEMTIER_POLICY_STATIC_RATIO\<rparr>)"
proof -
  have "sizes_ok (M\<lparr>pol := MEMTIER_POLICY_STATIC_RATIO\<rparr>)" using assms(1) by (simp add: sizes_ok_def tables_def)
  then show ?thesis using assms(2-4)
    by (simp add: mt_inv_def uses_hotness_def MEMTIER_POLICY_STATIC_RATIO_def MEMTIER_POLICY_DATA_HOTNESS_def)
qed

text \<open>A block that was never counted.\<close>

lemma underflow_run:
  assumes tb: "tables M (\<lambda>_. 0)" and k: "k < MEMKIND_MAX_KIND" and u: "0 < unat u" "unat u < 2 ^ 63"
  shows "\<exists>M'. decrement_alloc_size e k u M = Some M' \<and> g_alloc_size M' k = - u \<and>
    (\<forall>b<THREAD_BUCKETS. t_alloc_size M' k b = 0) \<and> mt_frame M M'"
proof -
  let ?b = "t_hash_64 (me_tid e)"
  define M1 where "M1 = M\<lparr>t_alloc_size := (t_alloc_size M)(k := (t_alloc_size M k)(?b := 0)),
    g_alloc_size := (g_alloc_size M)(k := - u, MEMKIND_TOTAL_IDX := - u)\<rparr>"
  have kT: "k \<noteq> MEMKIND_TOTAL_IDX" using k by (simp add: MEMKIND_TOTAL_IDX_def)
  have z: "t_alloc_size M k ?b = 0" "g_alloc_size M k = 0" "g_alloc_size M MEMKIND_TOTAL_IDX = 0"
    using tb k t_hash_64_bound by (simp_all add: tables_def sum_kinds_def)
  have hot: "unat (g_hotTierId M1) < MEMKIND_MAX_KIND" "share_ok (g_hotTotalDesiredRatio M1)"
    using tb by (simp_all add: tables_def M1_def)
  have "g_alloc_size M1 (unat (g_hotTierId M1)) \<in> {0, - u}"
    using hot(1) tb by (auto simp: M1_def tables_def MEMKIND_TOTAL_IDX_def)
  then have "unat (g_alloc_size M1 (unat (g_hotTierId M1))) \<le> unat (- u)" by auto
  from update_ratios_run [OF hot this] obtain M' where M': "update_actual_ratios (- u) M1 = Some M'"
    "t_alloc_size M' = t_alloc_size M1" "g_alloc_size M' = g_alloc_size M1" "mt_frame M1 M'" by blast
  have s: "sint u = int (unat u)" "sint (- u) = - int (unat u)" using u(2) by (simp_all only: sint_small)
  have pos: "0 < int (unat u)" unfolding of_nat_0_less_iff by (rule u(1))
  have "(0 :: nat) < 2 ^ 63" by simp
  from in_ll_diff [OF this u(2)] have "in_ll (- int (unat u))" by simp
  then have "in_ll (sint (- u))" "in_ll (- sint u)" "- sint u < 0" using pos by (simp_all only: s)
  then have "decrement_alloc_size e k u M = update_actual_ratios (- u) M1"
    using k z kT by (simp add: decrement_alloc_size_def apply_temporary_buffer_alloc_size_def Let_def M1_def)
  moreover have "mt_frame M M'" using M'(4) by (simp add: mt_frame_def M1_def)
  ultimately show ?thesis using M' kT tb k by (auto simp: M1_def tables_def)
qed

section \<open>Properties\<close>

text \<open>
  C3: the accounting of a process under the library.  Start the library with a configuration of
  existing kinds and the static policy while the sizes of all blocks are accounted for.  Then
  after any run of the allocation calls of the process, correctly used, the size reported for
  every kind is the sum of the usable sizes of its live blocks, and the total is the sum over all.
\<close>

theorem library_accounting:
  assumes "static_start e (lib_memtier L) ts" "list_all2 describes qs ts"
    and "length (print_config qs MEMTIER_POLICY_STATIC_RATIO) < MAX_ENV_STRING" "sizes_ok (lib_memtier L)"
  shows "\<exists>L1. memtier_init e (Some (print_config qs MEMTIER_POLICY_STATIC_RATIO)) None L = Some L1 \<and>
    (\<forall>cs. lib_ok cs L1 \<longrightarrow> (\<exists>L2. lib_run cs L1 = Some L2 \<and>
      (\<forall>k. partition k < MEMKIND_MAX_KIND \<longrightarrow>
        fst (memtier_kind_allocated_size k (lib_memtier L2)) = of_nat (live (mt_heap (lib_memtier L2)) (partition k))) \<and>
      memtier_kind_get_total_size (lib_memtier L2) = of_nat (usable_total (mt_heap (lib_memtier L2)))))"
proof -
  from static_init [OF assms(1-3)] obtain m where
    init: "memtier_init e (Some (print_config qs MEMTIER_POLICY_STATIC_RATIO)) None L =
      Some (put_memory m ((lib_memtier L)\<lparr>pol := MEMTIER_POLICY_STATIC_RATIO\<rparr>) L)"
    and m: "mem_ok m" "get_kind m \<noteq> DATA_HOTNESS_GET_KIND" "post_alloc m = EMPTY_POST_ALLOC" by blast
  let ?L1 = "put_memory m ((lib_memtier L)\<lparr>pol := MEMTIER_POLICY_STATIC_RATIO\<rparr>) L"
  have "current_memory ?L1 = Some m" "mt_inv m (lib_memtier ?L1)" using static_inv [OF assms(4) m] by simp_all
  from lib_run_inv [OF this] inv_reports show ?thesis using init by (metis fst_conv)
qed

definition example_lib :: interposer where
  "example_lib = \<lparr>current_memory = None, destructed = False, lib_ctl = example_ctl_state\<rparr>"

lemma example_lib_memtier: "lib_memtier example_lib = demo_memtier"
  by (simp add: lib_memtier_def example_lib_def example_ctl_state_def example_registry_def)

lemma example_start: "static_start example_ctl_env (lib_memtier example_lib) [(Dram, 1), (Kmem_Dax, 4)]"
  by (simp add: static_start_def example_lib_memtier demo_memtier_def demo_kind0_def example_ctl_env_def MEMKIND_MAX_KIND_def)

lemma example_sizes: "sizes_ok (lib_memtier example_lib)"
  using demo_inv by (simp add: example_lib_memtier mt_inv_def)

lemma example_config:
  "list_all2 describes [[(''KIND'', ''DRAM''), (''RATIO'', ''1'')], [(''KIND'', ''KMEM_DAX''), (''RATIO'', ''4'')]] [(Dram, 1), (Kmem_Dax, 4)]"
  "print_config [[(''KIND'', ''DRAM''), (''RATIO'', ''1'')], [(''KIND'', ''KMEM_DAX''), (''RATIO'', ''4'')]] MEMTIER_POLICY_STATIC_RATIO =
    ''KIND:DRAM,RATIO:1;KIND:KMEM_DAX,RATIO:4;POLICY:STATIC_RATIO''"
  by (simp_all add: describes_def tier_param_list_def tier_valid_def decimal_digit print_config_def print_queries_def policy_name_def)

theorem library_accounting_witness:
  "\<exists>L1 L2. memtier_init example_ctl_env (Some ''KIND:DRAM,RATIO:1;KIND:KMEM_DAX,RATIO:4;POLICY:STATIC_RATIO'') None example_lib = Some L1 \<and>
    lib_run [(demo_env, LMalloc 100)] L1 = Some L2 \<and>
    memtier_kind_get_total_size (lib_memtier L2) = of_nat (usable_total (mt_heap (lib_memtier L2)))"
proof -
  have "length ''KIND:DRAM,RATIO:1;KIND:KMEM_DAX,RATIO:4;POLICY:STATIC_RATIO'' < MAX_ENV_STRING" by (simp add: MAX_ENV_STRING_def)
  from library_accounting [OF example_start example_config(1) _ example_sizes, unfolded example_config(2), OF this] obtain L1 where
    "memtier_init example_ctl_env (Some ''KIND:DRAM,RATIO:1;KIND:KMEM_DAX,RATIO:4;POLICY:STATIC_RATIO'') None example_lib = Some L1"
    "\<forall>cs. lib_ok cs L1 \<longrightarrow> (\<exists>L2. lib_run cs L1 = Some L2 \<and>
      memtier_kind_get_total_size (lib_memtier L2) = of_nat (usable_total (mt_heap (lib_memtier L2))))" by blast
  moreover obtain m where "L1 = put_memory m (demo_memtier\<lparr>pol := MEMTIER_POLICY_STATIC_RATIO\<rparr>) example_lib"
    using static_init [OF example_start example_config(1), unfolded example_config(2)] calculation(1)
    by (auto simp: example_lib_memtier MAX_ENV_STRING_def)
  then have "lib_ok [(demo_env, LMalloc 100)] L1" using demo_fits by (simp split: option.split)
  ultimately show ?thesis by blast
qed

text \<open>
  C40: blocks from before the start break the accounting.  A block that the process allocates before
  the library is set up comes from the default kind and is not counted.  When the process frees
  it afterwards, its size is subtracted all the same: with no other block in use, the size reported
  for the default kind wraps around to 2^64 minus that of the block.
\<close>

theorem early_block_underflows:
  assumes "current_memory L = None" "\<not> destructed L" "sizes_ok (lib_memtier L)" "mt_heap (lib_memtier L) = Map.empty"
    and "me_result e = Some (a, u)" "0 < unat u" "unat u < 2 ^ 63"
    and "static_start c (lib_memtier L) ts" "list_all2 describes qs ts"
    and "length (print_config qs MEMTIER_POLICY_STATIC_RATIO) < MAX_ENV_STRING"
  shows "\<exists>L1 L2 L3. malloc e n L = Some (Some a, L1) \<and>
    memtier_init c (Some (print_config qs MEMTIER_POLICY_STATIC_RATIO)) None L1 = Some L2 \<and>
    free e' (Some a) L2 = Some L3 \<and> mt_heap (lib_memtier L3) = Map.empty \<and>
    unat (fst (memtier_kind_allocated_size (MEMKIND_DEFAULT (lib_memtier L)) (lib_memtier L3))) = 2 ^ 64 - unat u"
proof -
  let ?D = "MEMKIND_DEFAULT (lib_memtier L)"
  let ?M1 = "(lib_memtier L)\<lparr>mt_heap := [a \<mapsto> (?D, u)]\<rparr>"
  let ?L1 = "put_memtier ?M1 L"
  have ml: "malloc e n L = Some (Some a, ?L1)" using assms(1,2,4,5) by (simp add: malloc_def memkind_malloc_def)
  have D: "partition ?D < MEMKIND_MAX_KIND" using assms(8) by (simp add: static_start_def)
  have "static_start c (lib_memtier ?L1) ts" using assms(8) by (simp add: static_start_def)
  from static_init [OF this assms(9,10)] obtain m where
    init: "memtier_init c (Some (print_config qs MEMTIER_POLICY_STATIC_RATIO)) None ?L1 =
      Some (put_memory m (?M1\<lparr>pol := MEMTIER_POLICY_STATIC_RATIO\<rparr>) ?L1)"
    and m: "update_cfg m = STATIC_RATIO_UPDATE" by auto
  let ?M2 = "?M1\<lparr>pol := MEMTIER_POLICY_STATIC_RATIO\<rparr>"
  have "tables ?M2 (\<lambda>_. 0)" using assms(3,4) by (simp add: sizes_ok_def tables_def)
  from underflow_run [OF this D assms(6,7), of e'] obtain M3 where M3: "decrement_alloc_size e' (partition ?D) u ?M2 = Some M3"
    "g_alloc_size M3 (partition ?D) = - u" "\<forall>b<THREAD_BUCKETS. t_alloc_size M3 (partition ?D) b = 0" "mt_frame ?M2 M3" by blast
  let ?M4 = "M3\<lparr>mt_heap := Map.empty\<rparr>"
  have "memtier_realloc e' m (Some a) 0 ?M2 = Some (NULL, m, ?M4)"
    using M3(1,4) m
    by (simp add: memtier_realloc_def memkind_detect_kind_def memtier_kind_realloc_def jemk_malloc_usable_size_def notify_def
        memkind_free_def mt_frame_def call_update_cfg_def MEMTIER_POLICY_STATIC_RATIO_def MEMTIER_POLICY_DATA_HOTNESS_def)
  then have fr: "free e' (Some a) (put_memory m ?M2 ?L1) = Some (put_memory m ?M4 (put_memory m ?M2 ?L1))" by (simp add: free_def)
  have "fst (memtier_kind_allocated_size ?D ?M4) = - u"
    using M3(2,3) by (simp add: memtier_kind_allocated_size_def Let_def)
  moreover have "unat (- u) = 2 ^ 64 - unat u" using unat_sub_if_size [of 0 u] assms(6) by (simp add: word_size)
  ultimately show ?thesis using ml init fr by (intro exI conjI) auto
qed

theorem early_block_underflows_witness:
  "\<exists>a u L1 L2 L3. me_result demo_env = Some (a, u) \<and> malloc demo_env 100 example_lib = Some (Some a, L1) \<and>
    memtier_init example_ctl_env (Some ''KIND:DRAM,RATIO:1;KIND:KMEM_DAX,RATIO:4;POLICY:STATIC_RATIO'') None L1 = Some L2 \<and>
    free demo_env (Some a) L2 = Some L3 \<and>
    unat (fst (memtier_kind_allocated_size demo_kind0 (lib_memtier L3))) = 2 ^ 64 - unat u"
proof -
  have "length ''KIND:DRAM,RATIO:1;KIND:KMEM_DAX,RATIO:4;POLICY:STATIC_RATIO'' < MAX_ENV_STRING" by (simp add: MAX_ENV_STRING_def)
  note inst = early_block_underflows [OF _ _ example_sizes _ _ _ _ example_start example_config(1), unfolded example_config(2), OF _ _ _ _ _ _ this]
  obtain a u where r: "me_result demo_env = Some (a, u)" "0 < unat u" "unat u < 2 ^ 63" by (simp add: demo_env_def)
  have "current_memory example_lib = None" "\<not> destructed example_lib" "mt_heap (lib_memtier example_lib) = Map.empty"
    "MEMKIND_DEFAULT (lib_memtier example_lib) = demo_kind0"
    by (simp_all add: example_lib_memtier demo_memtier_def) (simp_all add: example_lib_def)
  with inst [of demo_env a u 100 demo_env] r show ?thesis by auto
qed

end
