(* ===== verification/Bthash.thy ===== *)
theory Bthash
  imports Prelude
begin

text \<open>
  Component \<open>src/src/bthash.c\<close>: the hash that names the type of an allocation.  It combines the
  size with the depth of the stack and with the return addresses found on the stack; what
  counts as a return address is decided by the table of executable regions.  Pointers are
  plain words, because the code computes with them; \<open>NULL\<close> is 0.
\<close>

section \<open>The table of regions\<close>

text \<open>The lines of \<open>/proc/self/maps\<close> as the format string of the code splits them.\<close>

record map_line =
  ml_start :: addr
  ml_end :: addr
  ml_exec :: char
  ml_file :: string

text \<open>The static arrays have 1024 elements, and \<open>nm\<close> of them are in use.\<close>

definition ARRAYSZ :: nat where "ARRAYSZ = 1024"

record region_map =
  rm_start :: "nat \<Rightarrow> addr"
  rm_end :: "nat \<Rightarrow> addr"
  nm :: nat
  stack0 :: addr
  stack_start :: addr
  stack_end :: addr
  pthread_start :: addr
  pthread_end :: addr

fun strstr :: "string \<Rightarrow> string \<Rightarrow> bool" where
  "strstr [] p = (p = [])"
| "strstr (c # s) p = (take (length p) (c # s) = p \<or> strstr s p)"

text \<open>
  The merging of adjacent regions.  The entry a region is merged into is only ever extended;
  when a region cannot be merged the index advances, but the region is not copied there.
\<close>

definition merge_region :: "nat \<Rightarrow> nat \<times> region_map \<Rightarrow> nat \<times> region_map" where
  "merge_region i s = (let (inew, M) = s in
     if rm_end M inew = rm_start M (i + 1)
     then (inew, M\<lparr>rm_end := (rm_end M)(inew := rm_end M (i + 1))\<rparr>)
     else (inew + 1, M))"

definition preprocess_maps :: "region_map \<Rightarrow> region_map" where
  "preprocess_maps M = (let (inew, M') = fold merge_region [0..<nm M - 1] (0, M) in
     if nm M > 0 then M'\<lparr>nm := inew + 1\<rparr> else M')"

text \<open>Every line is scanned into the arrays before the index is compared with their size.\<close>

fun read_lines :: "map_line list \<Rightarrow> region_map \<Rightarrow> region_map option" where
  "read_lines [] M = Some M"
| "read_lines (l # ls) M =
     (if nm M \<ge> ARRAYSZ then None
      else let M = M\<lparr>rm_start := (rm_start M)(nm M := ml_start l), rm_end := (rm_end M)(nm M := ml_end l)\<rparr>;
               M = (if strstr (ml_file l) ''[stack]''
                    then M\<lparr>stack_start := ml_start l, stack_end := ml_start l, stack0 := ml_end l\<rparr> else M)
           in if ml_exec l \<noteq> CHR ''x'' then read_lines ls M
              else let M = (if strstr (ml_file l) ''libpthread''
                            then M\<lparr>pthread_start := ml_start l, pthread_end := ml_end l\<rparr> else M)
                   in if nm M \<ge> ARRAYSZ then Some (M\<lparr>nm := nm M + 1\<rparr>)
                      else read_lines ls (M\<lparr>nm := nm M + 1\<rparr>))"

definition read_maps :: "map_line list \<Rightarrow> region_map \<Rightarrow> region_map option" where
  "read_maps ls M = do { M \<leftarrow> read_lines ls (M\<lparr>nm := 0\<rparr>); Some (preprocess_maps M) }"

section \<open>Lookups\<close>

definition in_region :: "region_map \<Rightarrow> addr \<Rightarrow> nat \<Rightarrow> bool" where
  "in_region M a i \<longleftrightarrow> rm_start M i \<le> a \<and> a < rm_end M i"

text \<open>The search of the build: the last region that starts at or before the address.\<close>

definition scan_regions :: "region_map \<Rightarrow> addr \<Rightarrow> nat" where
  "scan_regions M a = length (takeWhile (\<lambda>s. \<not> rm_start M s > a) [0..<nm M])"

definition is_mapped :: "region_map \<Rightarrow> addr \<Rightarrow> bool" where
  "is_mapped M a \<longleftrightarrow> (let s = scan_regions M a in s \<noteq> 0 \<and> a < rm_end M (s - 1))"

text \<open>The binary searches over the starts and over the ends, between \<open>bstart\<close> and \<open>bend\<close>.\<close>

function bstart_loop :: "region_map \<Rightarrow> addr \<Rightarrow> nat \<Rightarrow> nat \<Rightarrow> nat" where
  "bstart_loop M a bstart bend =
     (if bstart < bend then
        let mid = (bstart + bend) div 2 in
        if a \<ge> rm_start M mid then
          if bstart = mid then (if a \<ge> rm_start M bend then bend else bstart)
          else bstart_loop M a mid bend
        else bstart_loop M a bstart mid
      else bstart)"
  by pat_completeness auto
termination by (relation "measure (\<lambda>(M, a, s, e). e - s)") auto

function bend_loop :: "region_map \<Rightarrow> addr \<Rightarrow> nat \<Rightarrow> nat \<Rightarrow> nat" where
  "bend_loop M a bstart bend =
     (if bstart < bend then
        let mid = (bstart + bend) div 2 in
        if a < rm_end M mid then bend_loop M a bstart mid
        else if bstart = mid then bend
        else bend_loop M a mid bend
      else bend)"
  by pat_completeness auto
termination by (relation "measure (\<lambda>(M, a, s, e). e - s)") auto

declare bstart_loop.simps [simp del] bend_loop.simps [simp del]

definition binsearch_start :: "region_map \<Rightarrow> addr \<Rightarrow> nat" where
  "binsearch_start M a = bstart_loop M a 0 (nm M - 1)"

definition binsearch_end :: "region_map \<Rightarrow> addr \<Rightarrow> nat" where
  "binsearch_end M a = bend_loop M a 0 (nm M - 1)"

text \<open>An empty table makes the code read the element before the array.\<close>

definition find_region_idx :: "region_map \<Rightarrow> addr \<Rightarrow> int option" where
  "find_region_idx M a =
     (if nm M = 0 then None
      else if a < rm_start M 0 \<or> a \<ge> rm_end M (nm M - 1) then Some (- 1)
      else let bstart = binsearch_start M a; bend = binsearch_end M a in
        Some (if bstart = bend then int bstart else - 1))"

text \<open>The vectorised search: eight regions in one comparison, three comparisons at a time.\<close>

definition lanes :: "region_map \<Rightarrow> addr \<Rightarrow> nat \<Rightarrow> bool" where
  "lanes M a i = list_ex (\<lambda>j. a \<ge> rm_start M (i + j) \<and> a < rm_end M (i + j)) [0..<8]"

definition check_region :: "region_map \<Rightarrow> addr \<Rightarrow> bool option" where
  "check_region M a =
     (if nm M = 0 then None
      else if a < rm_start M 0 \<or> a \<ge> rm_end M (nm M - 1) then Some False
      else let simd_iterations = nm M div 8 * 8; simd_x3_iterations = nm M div 24 * 24 in
        Some (list_ex (\<lambda>k. lanes M a (24 * k) \<or> lanes M a (24 * k + 8) \<or> lanes M a (24 * k + 16))
                [0..<simd_x3_iterations div 24] \<or>
              list_ex (\<lambda>k. lanes M a (simd_x3_iterations + 8 * k))
                [0..<(simd_iterations - simd_x3_iterations) div 8] \<or>
              list_ex (\<lambda>i. a \<ge> rm_start M i \<and> a < rm_end M i) [simd_iterations..<nm M]))"

section \<open>The hash\<close>

definition murmur_M :: "64 word" where "murmur_M = 0xc6a4a7935bd1e995"
definition murmur_R :: nat where "murmur_R = 47"

definition update_hash :: "64 word \<Rightarrow> 64 word \<Rightarrow> 64 word" where
  "update_hash h k =
     (let k = k * murmur_M; k = k XOR drop_bit murmur_R k; k = k * murmur_M; h = h XOR k in h * murmur_M)"

definition backtrace_unwinded :: "region_map \<Rightarrow> addr \<Rightarrow> bool" where
  "backtrace_unwinded M a \<longleftrightarrow> pthread_start M \<le> a \<and> a < pthread_end M"

text \<open>The part of the stack that is searched, per thread, and the greatest depth seen.\<close>

record thread_stack =
  stack_size :: "64 word"
  stack_bottom :: addr
  stack_top :: addr
  max_diff :: "64 word"

definition max_searchable_stack_size :: "64 word" where "max_searchable_stack_size = 8"

definition align_up :: "addr \<Rightarrow> addr" where "align_up p = p + (8 - p mod 8)"
definition align_down :: "addr \<Rightarrow> addr" where "align_down p = p - p mod 8"

definition bthash_set_stack_range :: "addr \<Rightarrow> addr \<Rightarrow> thread_stack \<Rightarrow> thread_stack" where
  "bthash_set_stack_range p1 p2 T =
     (if p1 \<noteq> 0 \<and> p2 \<noteq> 0 then
        let hi = (if p1 \<ge> p2 then p1 else p2);
            lo = (if p1 \<ge> p2 then p2 else p1);
            diff = hi - lo;
            T = T\<lparr>stack_size := diff\<rparr>;
            T = (if diff > max_searchable_stack_size \<and> diff > max_diff T then T\<lparr>max_diff := diff\<rparr> else T);
            lo = (if diff > max_searchable_stack_size then hi - max_searchable_stack_size else lo)
        in T\<lparr>stack_bottom := align_up lo, stack_top := align_down hi\<rparr>
      else T)"

text \<open>The words between the bottom and the top; a word that cannot be read ends the process.\<close>

partial_function (option) hash_loop ::
  "(addr \<Rightarrow> 64 word option) \<Rightarrow> region_map \<Rightarrow> addr \<Rightarrow> addr \<Rightarrow> 64 word \<Rightarrow> 64 word option" where
  "hash_loop mem M sp tp h =
     (if sp = tp then Some h
      else do {
        a \<leftarrow> mem sp;
        if is_mapped M a then
          if backtrace_unwinded M a then Some h else hash_loop mem M (sp + 8) tp (update_hash h a)
        else hash_loop mem M (sp + 8) tp h })"

definition bthash :: "(addr \<Rightarrow> 64 word option) \<Rightarrow> region_map \<Rightarrow> thread_stack \<Rightarrow> 64 word \<Rightarrow> 64 word option" where
  "bthash mem M T n =
     (let h = n XOR murmur_M; h = update_hash h (stack_size T) in
      hash_loop mem M (stack_bottom T) (stack_top T) h)"

section \<open>The three lookups agree\<close>

text \<open>The kernel lists regions in order and without overlap.\<close>

definition maps_sorted :: "region_map \<Rightarrow> bool" where
  "maps_sorted M \<longleftrightarrow> (\<forall>i<nm M. rm_start M i < rm_end M i) \<and>
     (\<forall>i j. i < j \<longrightarrow> j < nm M \<longrightarrow> rm_end M i \<le> rm_start M j)"

lemma maps_sortedD: "maps_sorted M \<Longrightarrow> i < j \<Longrightarrow> j < nm M \<Longrightarrow> rm_end M i \<le> rm_start M j"
  by (auto simp: maps_sorted_def)

lemma start_less: "maps_sorted M \<Longrightarrow> i < j \<Longrightarrow> j < nm M \<Longrightarrow> rm_start M i < rm_start M j"
  unfolding maps_sorted_def by (meson order_less_le_trans order.strict_trans)

lemma start_mono: "maps_sorted M \<Longrightarrow> i \<le> j \<Longrightarrow> j < nm M \<Longrightarrow> rm_start M i \<le> rm_start M j"
  using start_less [of M i j] by (cases "i = j") auto

lemma end_less:
  assumes "maps_sorted M" "i < j" "j < nm M"
  shows "rm_end M i < rm_end M j"
proof -
  from assms have "rm_end M i \<le> rm_start M j" "rm_start M j < rm_end M j" by (auto simp: maps_sorted_def)
  then show ?thesis by simp
qed

lemma end_mono: "maps_sorted M \<Longrightarrow> i \<le> j \<Longrightarrow> j < nm M \<Longrightarrow> rm_end M i \<le> rm_end M j"
  using end_less [of M i j] by (cases "i = j") auto

lemma scan_regions_char:
  assumes "maps_sorted M"
  shows "scan_regions M a \<le> nm M" and "\<And>i. i < nm M \<Longrightarrow> i < scan_regions M a \<longleftrightarrow> rm_start M i \<le> a"
proof -
  show le: "scan_regions M a \<le> nm M"
    unfolding scan_regions_def by (metis length_takeWhile_le length_upt minus_nat.diff_0)
  fix i assume i: "i < nm M"
  show "i < scan_regions M a \<longleftrightarrow> rm_start M i \<le> a"
  proof
    assume "i < scan_regions M a"
    then have "takeWhile (\<lambda>s. \<not> a < rm_start M s) [0..<nm M] ! i = i"
      "i < length (takeWhile (\<lambda>s. \<not> a < rm_start M s) [0..<nm M])"
      using i by (simp_all add: scan_regions_def takeWhile_nth)
    then show "rm_start M i \<le> a" by (metis (no_types, lifting) linorder_not_less nth_mem set_takeWhileD)
  next
    assume a: "rm_start M i \<le> a"
    show "i < scan_regions M a"
    proof (rule ccontr)
      assume n: "\<not> i < scan_regions M a"
      define s where "s = scan_regions M a"
      have s: "s < nm M" "s \<le> i" using n i by (auto simp: s_def)
      have "\<not> \<not> a < rm_start M ([0..<nm M] ! s)"
        using nth_length_takeWhile [of "\<lambda>s. \<not> a < rm_start M s" "[0..<nm M]"] s by (simp add: s_def scan_regions_def)
      then have "a < rm_start M s" using s by simp
      with start_mono [OF assms s(2) i] a show False by simp
    qed
  qed
qed

lemma is_mapped_iff:
  assumes "maps_sorted M"
  shows "is_mapped M a \<longleftrightarrow> (\<exists>i<nm M. in_region M a i)"
proof -
  define s where "s = scan_regions M a"
  note c = scan_regions_char(1) [OF assms, of a, folded s_def] scan_regions_char(2) [OF assms, of _ a, folded s_def]
  show ?thesis
  proof
    assume "is_mapped M a"
    then have m: "s \<noteq> 0" "a < rm_end M (s - 1)" by (simp_all add: is_mapped_def Let_def s_def)
    with c(1) c(2) [of "s - 1"] show "\<exists>i<nm M. in_region M a i" by (intro exI [of _ "s - 1"]) (auto simp: in_region_def)
  next
    assume "\<exists>i<nm M. in_region M a i"
    then obtain i where i: "i < nm M" "rm_start M i \<le> a" "a < rm_end M i" by (auto simp: in_region_def)
    with c(2) have s: "i < s" by blast
    moreover have "a < rm_end M (s - 1)"
      using end_mono [OF assms, of i "s - 1"] s c(1) i(3) by (auto intro: order_less_le_trans)
    ultimately show "is_mapped M a" by (simp add: is_mapped_def Let_def s_def)
  qed
qed

lemma bstart_loop_char:
  assumes "maps_sorted M" "bs \<le> be" "be < nm M" "rm_start M bs \<le> a"
    "\<And>i. be < i \<Longrightarrow> i < nm M \<Longrightarrow> a < rm_start M i"
  shows "bstart_loop M a bs be < nm M \<and> rm_start M (bstart_loop M a bs be) \<le> a \<and>
    (\<forall>i. bstart_loop M a bs be < i \<longrightarrow> i < nm M \<longrightarrow> a < rm_start M i)"
  using assms
proof (induction M a bs be rule: bstart_loop.induct)
  case (1 M a bs be)
  show ?case
  proof (cases "bs < be")
    case False
    then show ?thesis using "1.prems" by (simp add: bstart_loop.simps)
  next
    case True
    define mid where "mid = (bs + be) div 2"
    have mid: "bs \<le> mid" "mid < be" "mid < nm M" "bs + be < 2 * mid + 2" using True "1.prems" by (auto simp: mid_def)
    have step: "bstart_loop M a bs be =
        (if rm_start M mid \<le> a then if bs = mid then (if rm_start M be \<le> a then be else bs) else bstart_loop M a mid be
         else bstart_loop M a bs mid)"
      using True by (subst bstart_loop.simps) (simp add: mid_def Let_def)
    consider (here) "rm_start M mid \<le> a" "bs = mid" | (right) "rm_start M mid \<le> a" "bs \<noteq> mid" | (left) "\<not> rm_start M mid \<le> a"
      by blast
    then show ?thesis
    proof cases
      case here
      then have be: "be = bs + 1" using True mid(4) by linarith
      have "a < rm_start M i" if "\<not> rm_start M be \<le> a" "bs < i" "i < nm M" for i
        using start_mono [OF "1.prems"(1), of be i] that be by (auto simp: not_le intro: order_less_le_trans)
      then show ?thesis using here "1.prems" step by auto
    next
      case right
      then show ?thesis using "1.IH"(1) [OF True mid_def] "1.prems" mid step by simp
    next
      case left
      have "a < rm_start M i" if "mid < i" "i < nm M" for i
        using start_mono [OF "1.prems"(1), of mid i] that left by (auto simp: not_le intro: order_less_le_trans)
      then show ?thesis using "1.IH"(2) [OF True mid_def left] "1.prems" mid step left by simp
    qed
  qed
qed

lemma bend_loop_char:
  assumes "maps_sorted M" "bs \<le> be" "be < nm M" "a < rm_end M be" "\<And>i. i < bs \<Longrightarrow> rm_end M i \<le> a"
  shows "bend_loop M a bs be < nm M \<and> a < rm_end M (bend_loop M a bs be) \<and>
    (\<forall>i<bend_loop M a bs be. rm_end M i \<le> a)"
  using assms
proof (induction M a bs be rule: bend_loop.induct)
  case (1 M a bs be)
  show ?case
  proof (cases "bs < be")
    case False
    then show ?thesis using "1.prems" by (simp add: bend_loop.simps)
  next
    case True
    define mid where "mid = (bs + be) div 2"
    have mid: "bs \<le> mid" "mid < be" "mid < nm M" "bs + be < 2 * mid + 2" using True "1.prems" by (auto simp: mid_def)
    have step: "bend_loop M a bs be =
        (if a < rm_end M mid then bend_loop M a bs mid else if bs = mid then be else bend_loop M a mid be)"
      using True by (subst bend_loop.simps) (simp add: mid_def Let_def)
    have below: "rm_end M i \<le> a" if "\<not> a < rm_end M mid" "i \<le> mid" for i
      using end_mono [OF "1.prems"(1) that(2) mid(3)] that(1) by (auto simp: not_less)
    consider (left) "a < rm_end M mid" | (here) "\<not> a < rm_end M mid" "bs = mid" | (right) "\<not> a < rm_end M mid" "bs \<noteq> mid"
      by blast
    then show ?thesis
    proof cases
      case left
      then show ?thesis using "1.IH"(1) [OF True mid_def] "1.prems" mid step by simp
    next
      case here
      then have "be = mid + 1" using True mid(4) by linarith
      then show ?thesis using here below "1.prems" step by auto
    next
      case right
      then show ?thesis using "1.IH"(2) [OF True mid_def] "1.prems" mid step below by simp
    qed
  qed
qed

lemma outside_regions:
  assumes "maps_sorted M" "a < rm_start M 0 \<or> a \<ge> rm_end M (nm M - 1)" "i < nm M"
  shows "\<not> in_region M a i"
proof -
  have "rm_start M 0 \<le> rm_start M i" using start_mono [OF assms(1) _ assms(3), of 0] by simp
  moreover have "rm_end M i \<le> rm_end M (nm M - 1)" using end_mono [OF assms(1), of i "nm M - 1"] assms(3) by simp
  ultimately show ?thesis using assms(2) by (auto simp: in_region_def)
qed

lemma find_region_idx_run:
  assumes "maps_sorted M" "0 < nm M"
  shows "\<exists>r. find_region_idx M a = Some r \<and> (r \<noteq> - 1 \<longleftrightarrow> (\<exists>i<nm M. in_region M a i)) \<and>
    (r \<noteq> - 1 \<longrightarrow> 0 \<le> r \<and> nat r < nm M \<and> in_region M a (nat r))"
proof (cases "a < rm_start M 0 \<or> a \<ge> rm_end M (nm M - 1)")
  case True
  then show ?thesis using outside_regions [OF assms(1)] assms(2) by (auto simp: find_region_idx_def)
next
  case False
  define s where "s = binsearch_start M a"
  define e where "e = binsearch_end M a"
  have s: "s < nm M" "rm_start M s \<le> a" "\<And>i. s < i \<Longrightarrow> i < nm M \<Longrightarrow> a < rm_start M i"
    using bstart_loop_char [OF assms(1), of 0 "nm M - 1" a] False assms(2) by (auto simp: s_def binsearch_start_def)
  have e: "e < nm M" "a < rm_end M e" "\<And>i. i < e \<Longrightarrow> rm_end M i \<le> a"
    using bend_loop_char [OF assms(1), of 0 "nm M - 1" a] False assms(2) by (auto simp: e_def binsearch_end_def)
  have "s = e \<longleftrightarrow> (\<exists>i<nm M. in_region M a i)"
  proof
    assume "s = e" then show "\<exists>i<nm M. in_region M a i" using s e by (auto simp: in_region_def)
  next
    assume "\<exists>i<nm M. in_region M a i"
    then obtain i where i: "i < nm M" "rm_start M i \<le> a" "a < rm_end M i" by (auto simp: in_region_def)
    have "\<not> s < i" using s(3) [of i] i by auto
    moreover have "\<not> i < e" using e(3) [of i] i by auto
    moreover have "\<not> i < s"
      using maps_sortedD [OF assms(1), of i s] i s(1,2) by auto
    moreover have "\<not> e < i"
      using maps_sortedD [OF assms(1), of e i] i e(1,2) by auto
    ultimately show "s = e" by simp
  qed
  moreover have "find_region_idx M a = Some (if s = e then int s else - 1)"
    using False assms(2) by (simp add: find_region_idx_def Let_def s_def e_def)
  ultimately show ?thesis using s e by (auto simp: in_region_def)
qed

lemma lanes_iff: "lanes M a i \<longleftrightarrow> (\<exists>j<8. in_region M a (i + j))"
  by (auto simp: lanes_def list_ex_iff in_region_def)

lemma check_region_run:
  assumes "maps_sorted M" "0 < nm M"
  shows "check_region M a = Some (\<exists>i<nm M. in_region M a i)"
proof (cases "a < rm_start M 0 \<or> a \<ge> rm_end M (nm M - 1)")
  case True
  then show ?thesis using outside_regions [OF assms(1)] assms(2) by (auto simp: check_region_def)
next
  case False
  define n where "n = nm M"
  define x where "x = n div 24"
  define y where "y = n div 8"
  have "x = y div 3" using div_mult2_eq [of n 8 3] by (simp add: x_def y_def)
  then have y: "3 * x \<le> y" "8 * y \<le> n" by (simp_all add: y_def)
  have "y * 8 - x * 24 = 8 * (y - 3 * x)" by (simp add: diff_mult_distrib2)
  then have y3: "(y * 8 - x * 24) div 8 = y - 3 * x" by simp
  have "check_region M a = Some ((\<exists>k<x. lanes M a (24 * k) \<or> lanes M a (24 * k + 8) \<or> lanes M a (24 * k + 16)) \<or>
      (\<exists>k<y - 3 * x. lanes M a (24 * x + 8 * k)) \<or> (\<exists>i<n. 8 * y \<le> i \<and> in_region M a i))"
    using False assms(2) y3
    by (auto simp: check_region_def Let_def list_ex_iff n_def [symmetric] x_def [symmetric] y_def [symmetric] in_region_def mult.commute)
  moreover have "(\<exists>k<x. lanes M a (24 * k) \<or> lanes M a (24 * k + 8) \<or> lanes M a (24 * k + 16)) \<longleftrightarrow> (\<exists>i<24 * x. in_region M a i)"
  proof
    assume "\<exists>k<x. lanes M a (24 * k) \<or> lanes M a (24 * k + 8) \<or> lanes M a (24 * k + 16)"
    then obtain k j i where k: "k < x" "j < 8" "in_region M a i" "i = 24 * k + j \<or> i = 24 * k + 8 + j \<or> i = 24 * k + 16 + j"
      unfolding lanes_iff by blast
    then have "i < 24 * x" by linarith
    with k(3) show "\<exists>i<24 * x. in_region M a i" by blast
  next
    assume "\<exists>i<24 * x. in_region M a i"
    then obtain i where i: "i < 24 * x" "in_region M a i" by blast
    define k where "k = i div 8 div 3"
    define c where "c = i div 8 mod 3"
    have "i div 8 = 3 * k + c" "i = 8 * (i div 8) + i mod 8" "c < 3" by (simp_all add: k_def c_def)
    then have k: "k < x" "c < 3" "i = 24 * k + 8 * c + i mod 8" using i(1) by linarith+
    then have "lanes M a (24 * k + 8 * c)" using i(2) unfolding lanes_iff by (intro exI [of _ "i mod 8"]) simp
    moreover have "c = 0 \<or> c = 1 \<or> c = 2" using k(2) by linarith
    ultimately show "\<exists>k<x. lanes M a (24 * k) \<or> lanes M a (24 * k + 8) \<or> lanes M a (24 * k + 16)"
      using k(1) by (intro exI [of _ k]) auto
  qed
  moreover have "(\<exists>k<y - 3 * x. lanes M a (24 * x + 8 * k)) \<longleftrightarrow> (\<exists>i. 24 * x \<le> i \<and> i < 8 * y \<and> in_region M a i)"
  proof
    assume "\<exists>k<y - 3 * x. lanes M a (24 * x + 8 * k)"
    then obtain k j where k: "k < y - 3 * x" "j < 8" "in_region M a (24 * x + 8 * k + j)" by (auto simp: lanes_iff)
    then have "24 * x + 8 * k + j < 8 * y" using y(1) by linarith
    with k(3) show "\<exists>i. 24 * x \<le> i \<and> i < 8 * y \<and> in_region M a i" by (metis le_add1 add.assoc)
  next
    assume "\<exists>i. 24 * x \<le> i \<and> i < 8 * y \<and> in_region M a i"
    then obtain i where i: "24 * x \<le> i" "i < 8 * y" "in_region M a i" by blast
    define q where "q = i div 8"
    define k where "k = q - 3 * x"
    have q: "i = 8 * q + i mod 8" "i mod 8 < 8" by (simp_all add: q_def)
    then have "3 * x \<le> q" "q < y" using i(1,2) by linarith+
    then have k: "k < y - 3 * x" "i = 24 * x + 8 * k + i mod 8" using q unfolding k_def by linarith+
    then have "lanes M a (24 * x + 8 * k)" using i(3) unfolding lanes_iff by (intro exI [of _ "i mod 8"]) simp
    then show "\<exists>k<y - 3 * x. lanes M a (24 * x + 8 * k)" using k(1) by blast
  qed
  moreover have "(\<exists>i<24 * x. in_region M a i) \<or> (\<exists>i. 24 * x \<le> i \<and> i < 8 * y \<and> in_region M a i) \<or>
      (\<exists>i<n. 8 * y \<le> i \<and> in_region M a i) \<longleftrightarrow> (\<exists>i<n. in_region M a i)"
  proof
    assume "(\<exists>i<24 * x. in_region M a i) \<or> (\<exists>i. 24 * x \<le> i \<and> i < 8 * y \<and> in_region M a i) \<or> (\<exists>i<n. 8 * y \<le> i \<and> in_region M a i)"
    then obtain i where i: "in_region M a i" "i < 24 * x \<or> i < 8 * y \<or> i < n" by blast
    then have "i < n" using y by linarith
    with i(1) show "\<exists>i<n. in_region M a i" by blast
  next
    assume "\<exists>i<n. in_region M a i"
    then obtain i where "i < n" "in_region M a i" by blast
    then show "(\<exists>i<24 * x. in_region M a i) \<or> (\<exists>i. 24 * x \<le> i \<and> i < 8 * y \<and> in_region M a i) \<or> (\<exists>i<n. 8 * y \<le> i \<and> in_region M a i)"
      by (cases "i < 24 * x"; cases "i < 8 * y") (auto simp: not_less)
  qed
  ultimately show ?thesis by (simp add: n_def)
qed

section \<open>Reading the table\<close>

definition is_exec :: "map_line \<Rightarrow> bool" where "is_exec l \<longleftrightarrow> ml_exec l = CHR ''x''"

lemma read_lines_run:
  assumes "nm M + length (filter is_exec ls) < ARRAYSZ"
  shows "\<exists>M'. read_lines ls M = Some M' \<and> nm M' = nm M + length (filter is_exec ls) \<and>
    (\<forall>i<nm M. rm_start M' i = rm_start M i \<and> rm_end M' i = rm_end M i) \<and>
    (\<forall>i<length (filter is_exec ls). rm_start M' (nm M + i) = ml_start (filter is_exec ls ! i) \<and>
       rm_end M' (nm M + i) = ml_end (filter is_exec ls ! i))"
  using assms
proof (induction ls arbitrary: M)
  case (Cons l ls)
  define M1 where "M1 = M\<lparr>rm_start := (rm_start M)(nm M := ml_start l), rm_end := (rm_end M)(nm M := ml_end l)\<rparr>"
  define M2 where "M2 = (if strstr (ml_file l) ''[stack]''
    then M1\<lparr>stack_start := ml_start l, stack_end := ml_start l, stack0 := ml_end l\<rparr> else M1)"
  define M3 where "M3 = (if strstr (ml_file l) ''libpthread''
    then M2\<lparr>pthread_start := ml_start l, pthread_end := ml_end l\<rparr> else M2)"
  have same: "nm M2 = nm M" "rm_start M2 = (rm_start M)(nm M := ml_start l)" "rm_end M2 = (rm_end M)(nm M := ml_end l)"
    "nm M3 = nm M" "rm_start M3 = rm_start M2" "rm_end M3 = rm_end M2"
    by (simp_all add: M1_def M2_def M3_def)
  have room: "nm M < ARRAYSZ" using Cons.prems by simp
  have step: "read_lines (l # ls) M = (if is_exec l then read_lines ls (M3\<lparr>nm := nm M + 1\<rparr>) else read_lines ls M2)"
    using room same(1) by (simp add: Let_def M1_def [symmetric] M2_def [symmetric] is_exec_def M3_def)
  show ?case
  proof (cases "is_exec l")
    case False
    then show ?thesis using Cons.IH [of M2] Cons.prems same step by auto
  next
    case True
    then obtain M' where M': "read_lines ls (M3\<lparr>nm := nm M + 1\<rparr>) = Some M'" "nm M' = nm M + 1 + length (filter is_exec ls)"
      "\<forall>i<nm M + 1. rm_start M' i = rm_start M2 i \<and> rm_end M' i = rm_end M2 i"
      "\<forall>i<length (filter is_exec ls). rm_start M' (nm M + 1 + i) = ml_start (filter is_exec ls ! i) \<and>
         rm_end M' (nm M + 1 + i) = ml_end (filter is_exec ls ! i)"
      using Cons.IH [of "M3\<lparr>nm := nm M + 1\<rparr>"] Cons.prems same by auto
    have "rm_start M' (nm M + i) = ml_start ((l # filter is_exec ls) ! i) \<and> rm_end M' (nm M + i) = ml_end ((l # filter is_exec ls) ! i)"
      if "i < Suc (length (filter is_exec ls))" for i
      using M'(3,4) same that by (cases i) auto
    then show ?thesis using True M' same step by auto
  qed
qed auto

lemma merge_apart:
  assumes "k < nm M" "\<And>i. i + 1 < nm M \<Longrightarrow> rm_end M i \<noteq> rm_start M (i + 1)"
  shows "fold merge_region [0..<k] (0, M) = (k, M)"
  using assms(1) by (induction k) (simp_all add: merge_region_def assms(2) [simplified])

lemma preprocess_apart:
  assumes "\<And>i. i + 1 < nm M \<Longrightarrow> rm_end M i \<noteq> rm_start M (i + 1)"
  shows "preprocess_maps M = M"
  using merge_apart [of "nm M - 1" M] assms by (cases "nm M = 0") (auto simp: preprocess_maps_def)

lemma read_maps_run:
  assumes "length (filter is_exec ls) < ARRAYSZ" "\<And>l. l \<in> set ls \<Longrightarrow> is_exec l \<Longrightarrow> ml_start l < ml_end l"
    and "sorted_wrt (\<lambda>l l'. ml_end l < ml_start l') (filter is_exec ls)"
  shows "\<exists>M'. read_maps ls M = Some M' \<and> maps_sorted M' \<and> nm M' = length (filter is_exec ls) \<and>
    (\<forall>a. (\<exists>i<nm M'. in_region M' a i) \<longleftrightarrow> (\<exists>l\<in>set ls. is_exec l \<and> ml_start l \<le> a \<and> a < ml_end l))"
proof -
  define xs where "xs = filter is_exec ls"
  obtain M' where M': "read_lines ls (M\<lparr>nm := 0\<rparr>) = Some M'" "nm M' = length xs"
    "\<And>i. i < length xs \<Longrightarrow> rm_start M' i = ml_start (xs ! i) \<and> rm_end M' i = ml_end (xs ! i)"
    using read_lines_run [of "M\<lparr>nm := 0\<rparr>" ls] assms(1) by (auto simp: xs_def)
  have s: "ml_end (xs ! i) < ml_start (xs ! j)" if "i < j" "j < length xs" for i j
    using assms(3) that by (simp add: xs_def sorted_wrt_iff_nth_less)
  have "preprocess_maps M' = M'"
  proof (rule preprocess_apart)
    fix i assume "i + 1 < nm M'"
    then show "rm_end M' i \<noteq> rm_start M' (i + 1)" using M'(2,3) s [of i "i + 1"] by auto
  qed
  moreover have "maps_sorted M'"
    unfolding maps_sorted_def using M'(2,3) s assms(2) nth_mem [of _ xs] by (fastforce simp: xs_def intro: less_imp_le)
  moreover have "(\<exists>i<nm M'. in_region M' a i) \<longleftrightarrow> (\<exists>l\<in>set xs. ml_start l \<le> a \<and> a < ml_end l)" for a
  proof -
    have "(\<exists>l\<in>set xs. ml_start l \<le> a \<and> a < ml_end l) \<longleftrightarrow> (\<exists>i<length xs. ml_start (xs ! i) \<le> a \<and> a < ml_end (xs ! i))"
      by (metis in_set_conv_nth)
    then show ?thesis using M'(2,3) by (auto simp: in_region_def)
  qed
  ultimately show ?thesis using M'(1,2) by (auto simp: read_maps_def xs_def)
qed

section \<open>The hash function\<close>

lemma left_inverse_cancel: "(\<And>x. g (f x) = x) \<Longrightarrow> f x = f y \<longleftrightarrow> x = y"
proof
  assume g: "\<And>x. g (f x) = x" and "f x = f y"
  then have "g (f x) = g (f y)" by simp
  then show "x = y" by (simp only: g)
qed simp

lemma murmur_M_unit: "murmur_M * 6879827495036328381 = 1"
  by code_simp

lemma murmur_M_cancel: "x * murmur_M = y * murmur_M \<longleftrightarrow> x = y"
  by (rule left_inverse_cancel [where g = "\<lambda>z. z * 6879827495036328381"]) (simp only: mult.assoc murmur_M_unit mult_1_right)

lemma xorshift_inverse: "(k XOR drop_bit murmur_R k) XOR drop_bit murmur_R (k XOR drop_bit murmur_R k) = (k::64 word)"
  by (rule bit_eqI) (auto simp: bit_simps murmur_R_def)

lemma xorshift_cancel: "x XOR drop_bit murmur_R x = y XOR drop_bit murmur_R y \<longleftrightarrow> x = (y::64 word)"
  by (rule left_inverse_cancel [where g = "\<lambda>z. z XOR drop_bit murmur_R z"]) (rule xorshift_inverse)

lemma xor_cancel: "h XOR x = h XOR y \<longleftrightarrow> x = (y::64 word)"
  by (rule left_inverse_cancel [where g = "\<lambda>z. h XOR z"]) (simp add: xor.assoc [symmetric])

lemma update_hash_inj:
  "update_hash h k = update_hash h k' \<longleftrightarrow> k = k'"
  "update_hash h k = update_hash h' k \<longleftrightarrow> h = h'"
proof -
  show "update_hash h k = update_hash h k' \<longleftrightarrow> k = k'"
    by (simp add: update_hash_def Let_def murmur_M_cancel xor_cancel xorshift_cancel)
  show "update_hash h k = update_hash h' k \<longleftrightarrow> h = h'"
    by (simp add: update_hash_def Let_def murmur_M_cancel xor_cancel xor.commute [of _ "_ * murmur_M"])
qed

section \<open>The range of the stack\<close>

lemma align_down_unat: "unat (align_down p) = unat p - unat p mod 8"
proof -
  have "unat (p mod 8) = unat p mod 8" by (simp add: unat_mod)
  moreover have "p mod 8 \<le> p" by (simp add: word_le_nat_alt unat_mod)
  ultimately show ?thesis by (simp add: align_down_def unat_sub)
qed

lemma align_top:
  assumes "8 \<le> p"
  shows "align_up (p - 8) = align_down p"
proof -
  have "unat (p - 8) = unat p - 8" using unat_sub [OF assms] by simp
  moreover have "8 \<le> unat p" using assms by (simp add: word_le_nat_alt)
  ultimately have "unat ((p - 8) mod 8) = unat (p mod 8)" by (simp add: unat_mod mod_if [of "unat p"] le_mod_geq)
  then have "(p - 8) mod 8 = p mod 8" by (simp add: word_unat_eq_iff)
  then show ?thesis by (simp add: align_up_def align_down_def)
qed

definition stack_depth :: "addr \<Rightarrow> addr \<Rightarrow> 64 word" where
  "stack_depth p1 p2 = (if p1 \<ge> p2 then p1 - p2 else p2 - p1)"

lemma set_range_run:
  assumes "p1 \<noteq> 0" "p2 \<noteq> 0" "8 \<le> stack_depth p1 p2"
  shows "stack_size (bthash_set_stack_range p1 p2 T) = stack_depth p1 p2"
    and "stack_bottom (bthash_set_stack_range p1 p2 T) = stack_top (bthash_set_stack_range p1 p2 T)"
proof -
  define hi where "hi = (if p1 \<ge> p2 then p1 else p2)"
  define lo where "lo = (if p1 \<ge> p2 then p2 else p1)"
  have lo: "lo \<le> hi" "stack_depth p1 p2 = hi - lo" by (auto simp: hi_def lo_def stack_depth_def)
  have "unat (hi - lo) = unat hi - unat lo" using lo(1) by (rule unat_sub)
  then have "8 \<le> hi" using assms(3) lo by (simp add: word_le_nat_alt)
  moreover have "(if hi - lo > 8 then hi - 8 else lo) = hi - 8"
  proof (cases "hi - lo > 8")
    case False
    then have "hi - lo = 8" using assms(3) lo(2) by simp
    then have "lo = hi - 8" using diff_diff_eq2 [of hi hi lo] by (metis diff_diff_eq2 add_diff_cancel_left')
    then show ?thesis by simp
  qed simp
  ultimately show "stack_size (bthash_set_stack_range p1 p2 T) = stack_depth p1 p2"
    "stack_bottom (bthash_set_stack_range p1 p2 T) = stack_top (bthash_set_stack_range p1 p2 T)"
    using assms(1,2) lo(2) align_top [of hi]
    unfolding bthash_set_stack_range_def Let_def hi_def [symmetric] lo_def [symmetric] max_searchable_stack_size_def
    by simp_all
qed

lemma align_same_block:
  assumes "p1 div 8 = p2 div 8"
  shows "align_up p2 = align_down p1 + 8"
proof -
  have d: "p = p div 8 * 8 + p mod 8" for p :: addr by (rule div_mult_mod_eq [symmetric])
  have "align_down p1 = p1 div 8 * 8" using d [of p1] unfolding align_down_def by (metis add_diff_cancel_right')
  moreover have "p2 - p2 mod 8 = p2 div 8 * 8" using d [of p2] by (metis add_diff_cancel_right')
  then have "align_up p2 = p2 div 8 * 8 + 8" by (simp add: align_up_def algebra_simps)
  ultimately show ?thesis using assms by simp
qed

lemma same_block_depth:
  assumes "p2 \<le> p1" "p1 div 8 = p2 div 8"
  shows "p1 - p2 < (8::addr)"
proof -
  have "unat p1 div 8 = unat p2 div 8" using arg_cong [OF assms(2), of unat] by (simp add: unat_div)
  then have "unat p1 - unat p2 < 8"
    using div_mult_mod_eq [of "unat p1" 8] div_mult_mod_eq [of "unat p2" 8] mod_less_divisor [of 8 "unat p1"] by linarith
  then show ?thesis using unat_sub [OF assms(1)] by (simp add: word_less_nat_alt)
qed

lemma hash_loop_fault:
  assumes "\<And>s w. mem s = Some w \<Longrightarrow> \<not> backtrace_unwinded M w" "mem (sp + 8 * of_nat k) = None"
    and "\<And>j. j \<le> k \<Longrightarrow> sp + 8 * of_nat j \<noteq> tp"
  shows "hash_loop mem M sp tp h = None"
  using assms(2,3)
proof (induction k arbitrary: sp h)
  case 0
  then show ?case using "0.prems"(2) [of 0] by (subst hash_loop.simps) simp
next
  case (Suc k)
  have "hash_loop mem M (sp + 8) tp h' = None" for h'
  proof (rule Suc.IH)
    show "mem (sp + 8 + 8 * of_nat k) = None" using Suc.prems(1) by (simp add: algebra_simps)
    show "sp + 8 + 8 * of_nat j \<noteq> tp" if "j \<le> k" for j using Suc.prems(2) [of "Suc j"] that by (simp add: algebra_simps)
  qed
  then show ?case using Suc.prems(2) [of 0] assms(1) by (subst hash_loop.simps) (auto split: Option.bind_splits)
qed

lemma words_apart:
  assumes "0 < j" "j < 2 ^ 61"
  shows "(p::addr) + 8 * of_nat j \<noteq> p"
proof -
  have "unat (8 * of_nat j :: addr) = 8 * j" using assms(2) by (simp add: unat_word_ariths unat_of_nat)
  then have "8 * of_nat j \<noteq> (0::addr)" using assms(1) by (metis mult_eq_0_iff neq0_conv unat_0 zero_neq_numeral)
  then show ?thesis by simp
qed

section \<open>Properties\<close>

text \<open>
  C32: the table of executable regions is read and searched correctly.  If the executable regions
  are listed in order, do not touch each other and fit into the arrays, reading returns, and the linear search, the
  binary search and the vectorised search all find an address exactly if an executable line
  covers it.
\<close>

theorem maps_lookup_correct:
  assumes "length (filter is_exec ls) < ARRAYSZ" "filter is_exec ls \<noteq> []"
    and "\<And>l. l \<in> set ls \<Longrightarrow> is_exec l \<Longrightarrow> ml_start l < ml_end l"
    and "sorted_wrt (\<lambda>l l'. ml_end l < ml_start l') (filter is_exec ls)"
  shows "\<exists>M'. read_maps ls M = Some M' \<and>
    (\<forall>a. let found = (\<exists>l\<in>set ls. is_exec l \<and> ml_start l \<le> a \<and> a < ml_end l) in
       is_mapped M' a = found \<and> map_option (\<lambda>r. r \<noteq> - 1) (find_region_idx M' a) = Some found \<and>
       check_region M' a = Some found)"
proof -
  obtain M' where M': "read_maps ls M = Some M'" "maps_sorted M'" "nm M' = length (filter is_exec ls)"
    "\<And>a. (\<exists>i<nm M'. in_region M' a i) \<longleftrightarrow> (\<exists>l\<in>set ls. is_exec l \<and> ml_start l \<le> a \<and> a < ml_end l)"
    using read_maps_run [OF assms(1,3,4)] by blast
  then have n: "0 < nm M'" using assms(2) by simp
  have "is_mapped M' a = (\<exists>i<nm M'. in_region M' a i) \<and>
      map_option (\<lambda>r. r \<noteq> - 1) (find_region_idx M' a) = Some (\<exists>i<nm M'. in_region M' a i) \<and>
      check_region M' a = Some (\<exists>i<nm M'. in_region M' a i)" for a
    using is_mapped_iff [OF M'(2)] check_region_run [OF M'(2) n] find_region_idx_run [OF M'(2) n, of a] by fastforce
  then show ?thesis using M'(1,4) by (simp add: Let_def)
qed

definition no_regions :: region_map where
  "no_regions = \<lparr>rm_start = \<lambda>_. 0, rm_end = \<lambda>_. 0, nm = 0, stack0 = 0, stack_start = 0, stack_end = 0,
     pthread_start = 0, pthread_end = 0\<rparr>"

definition no_stack :: thread_stack where
  "no_stack = \<lparr>stack_size = 0, stack_bottom = 0, stack_top = 0, max_diff = 0\<rparr>"

definition demo_lines :: "map_line list" where
  "demo_lines = [\<lparr>ml_start = 0x1000, ml_end = 0x3000, ml_exec = CHR ''x'', ml_file = ''a.out''\<rparr>,
     \<lparr>ml_start = 0x3000, ml_end = 0x4000, ml_exec = CHR ''-'', ml_file = ''a.out''\<rparr>,
     \<lparr>ml_start = 0x7000, ml_end = 0x9000, ml_exec = CHR ''x'', ml_file = ''libpthread.so''\<rparr>]"

theorem maps_lookup_correct_witness:
  "\<exists>M'. read_maps demo_lines no_regions = Some M' \<and> is_mapped M' 0x8000 \<and> \<not> is_mapped M' 0x3800 \<and>
     check_region M' 0x1000 = Some True"
proof -
  have "length (filter is_exec demo_lines) < ARRAYSZ" "filter is_exec demo_lines \<noteq> []"
    "sorted_wrt (\<lambda>l l'. ml_end l < ml_start l') (filter is_exec demo_lines)"
    by (simp_all add: demo_lines_def is_exec_def ARRAYSZ_def)
  moreover have "ml_start l < ml_end l" if "l \<in> set demo_lines" "is_exec l" for l
    using that by (auto simp: demo_lines_def)
  ultimately obtain M' where "read_maps demo_lines no_regions = Some M'"
    "\<And>a. is_mapped M' a = (\<exists>l\<in>set demo_lines. is_exec l \<and> ml_start l \<le> a \<and> a < ml_end l) \<and>
      check_region M' a = Some (\<exists>l\<in>set demo_lines. is_exec l \<and> ml_start l \<le> a \<and> a < ml_end l)"
    using maps_lookup_correct [of demo_lines no_regions] by (auto simp: Let_def)
  then show ?thesis by (intro exI [of _ M']) (simp add: demo_lines_def is_exec_def)
qed

text \<open>
  C33: in the configuration of the build the hash of an allocation reads no word of the stack: it
  returns a value that depends only on the size and on the depth of the stack, as long as the depth is
  at least one word.  At one depth different sizes have different hashes, and for one size
  different depths have.
\<close>

theorem bthash_injective:
  assumes "p1 \<noteq> 0" "p2 \<noteq> 0" "8 \<le> stack_depth p1 p2" and "q1 \<noteq> 0" "q2 \<noteq> 0" "8 \<le> stack_depth q1 q2"
  shows "\<exists>h h'. bthash mem M (bthash_set_stack_range p1 p2 T) n = Some h \<and>
    bthash mem' M' (bthash_set_stack_range q1 q2 T') n' = Some h' \<and>
    (stack_depth p1 p2 = stack_depth q1 q2 \<longrightarrow> (h = h' \<longleftrightarrow> n = n')) \<and>
    (n = n' \<longrightarrow> (h = h' \<longleftrightarrow> stack_depth p1 p2 = stack_depth q1 q2))"
proof -
  have x: "n XOR murmur_M = n' XOR murmur_M \<longleftrightarrow> n = n'" by (simp add: xor.commute [of _ murmur_M] xor_cancel)
  have "bthash mem M (bthash_set_stack_range p1 p2 T) n = Some (update_hash (n XOR murmur_M) (stack_depth p1 p2))"
    "bthash mem' M' (bthash_set_stack_range q1 q2 T') n' = Some (update_hash (n' XOR murmur_M) (stack_depth q1 q2))"
    using set_range_run [OF assms(1-3)] set_range_run [OF assms(4-6)] by (simp_all add: bthash_def Let_def hash_loop.simps)
  then show ?thesis by (auto simp: update_hash_inj x)
qed

theorem bthash_injective_witness:
  "\<exists>h h'. bthash (\<lambda>_. None) no_regions (bthash_set_stack_range 0x7ff0 0x5000 no_stack) 64 = Some h \<and>
    bthash (\<lambda>_. None) no_regions (bthash_set_stack_range 0x7ff0 0x5000 no_stack) 65 = Some h' \<and> h \<noteq> h'"
proof -
  have "8 \<le> stack_depth 0x7ff0 0x5000" by (simp add: stack_depth_def)
  then show ?thesis
    using bthash_injective [of "0x7ff0" "0x5000" "0x7ff0" "0x5000" "\<lambda>_. None" no_regions no_stack "64" "\<lambda>_. None" no_regions
        no_stack "65"] by auto
qed

text \<open>
  If the two ends of the stack lie in the same eight bytes, the bottom is rounded to a
  place above the top.  The loop then never meets the top: unless it finds an address of the
  thread library, it reads upwards until the process faults.
\<close>

theorem bthash_runs_away:
  assumes "p2 \<noteq> 0" "p2 \<le> p1" "p1 div 8 = p2 div 8" "1 \<le> k" "k < 2 ^ 61"
    and "mem (align_down p1 + 8 * of_nat k) = None" "\<And>s w. mem s = Some w \<Longrightarrow> \<not> backtrace_unwinded M w"
  shows "bthash mem M (bthash_set_stack_range p1 p2 T) n = None"
proof -
  have n8: "\<not> 8 < p1 - p2" using same_block_depth [OF assms(2,3)] by simp
  have "p1 \<noteq> 0" using assms(1,2) by auto
  then have r: "stack_bottom (bthash_set_stack_range p1 p2 T) = align_down p1 + 8"
    "stack_top (bthash_set_stack_range p1 p2 T) = align_down p1"
    using assms(1,2) n8 align_same_block [OF assms(3)]
    by (simp_all add: bthash_set_stack_range_def Let_def max_searchable_stack_size_def)
  have "hash_loop mem M (align_down p1 + 8) (align_down p1) h = None" for h
  proof (rule hash_loop_fault [OF assms(7), where k = "k - 1"])
    have "of_nat k = (1::addr) + of_nat (k - 1)" using assms(4) by (cases k) simp_all
    then show "mem (align_down p1 + 8 + 8 * of_nat (k - 1)) = None" using assms(6) by (simp add: algebra_simps)
    show "align_down p1 + 8 + 8 * of_nat j \<noteq> align_down p1" if "j \<le> k - 1" for j
      using words_apart [of "Suc j" "align_down p1"] that assms(4,5) by (simp add: algebra_simps)
  qed
  then show ?thesis by (simp add: bthash_def Let_def r)
qed

theorem bthash_runs_away_witness:
  "bthash (\<lambda>s. if s < 0x8000 then Some 0 else None) no_regions (bthash_set_stack_range 0x7ffc 0x7ff8 no_stack) 64 = None"
proof (rule bthash_runs_away [where k = 1])
  show "(0x7ffc::addr) div 8 = 0x7ff8 div 8" by code_simp
  show "(if align_down 0x7ffc + 8 * of_nat 1 < 0x8000 then Some 0 else None) = (None :: 64 word option)"
    by code_simp
qed (auto simp: backtrace_unwinded_def no_regions_def)

text \<open>
  Merging can lose a region.  If the first two of three regions touch and the third stands
  apart, it disappears from the table, and its addresses count as unmapped.
\<close>

theorem merge_loses_region:
  assumes "maps_sorted M" "nm M = 3" "rm_end M 0 = rm_start M 1" "rm_end M 1 < rm_start M 2" "in_region M a 2"
  shows "is_mapped M a \<and> \<not> is_mapped (preprocess_maps M) a"
proof
  show "is_mapped M a" using is_mapped_iff [OF assms(1)] assms(2,5) by (auto intro: exI [of _ 2])
  have "rm_end M 1 < a" using assms(4,5) by (auto simp: in_region_def)
  moreover have "preprocess_maps M = M\<lparr>rm_end := (rm_end M)(0 := rm_end M 1), nm := 2\<rparr>"
    using assms(2-4) by (simp add: preprocess_maps_def merge_region_def numeral_2_eq_2 numeral_3_eq_3)
  ultimately show "\<not> is_mapped (preprocess_maps M) a"
    by (auto simp: is_mapped_def Let_def scan_regions_def numeral_2_eq_2)
qed

theorem merge_loses_region_witness:
  "let M = no_regions\<lparr>rm_start := (\<lambda>i. if i = 0 then 0x1000 else if i = 1 then 0x2000 else 0x5000),
         rm_end := (\<lambda>i. if i = 0 then 0x2000 else if i = 1 then 0x3000 else 0x6000), nm := 3\<rparr>
   in is_mapped M 0x5000 \<and> \<not> is_mapped (preprocess_maps M) 0x5000"
proof -
  define M where "M = no_regions\<lparr>rm_start := (\<lambda>i. if i = 0 then 0x1000 else if i = 1 then 0x2000 else 0x5000),
         rm_end := (\<lambda>i. if i = 0 then 0x2000 else if i = 1 then 0x3000 else 0x6000), nm := 3\<rparr>"
  have "is_mapped M 0x5000 \<and> \<not> is_mapped (preprocess_maps M) 0x5000"
    by (rule merge_loses_region) (auto simp: M_def maps_sorted_def in_region_def)
  then show ?thesis by (simp add: M_def)
qed

end
