(* ===== verification/Spec2Isabelle.thy ===== *)
theory Spec2Isabelle
  imports Memtier_Pipeline Lockless_Queue_Threads Memkind_Extents_Correct Kind_Registry_Correct Tiering_Interposer Bthash
begin

section \<open>The program\<close>

text \<open>
  memkind with memory tiering by hotness.  A process allocates through the interposed calls of
  \<open>src/tiering/memtier.c\<close>.  They forward to a tiered memory (\<open>src/src/memkind_memtier.c\<close>), which
  is built from the environment by \<open>src/tiering/ctl.c\<close> and picks a kind of memory for every
  allocation by a policy: a static ratio, sliding size thresholds, or the hotness of the
  allocation type.  For the last policy every allocation, reallocation and release is also put
  into a queue of events (\<open>src/src/ranking_queue.c\<close> over \<open>src/src/lockless_srmw_queue.c\<close>).  A
  background thread (\<open>src/src/pebs.c\<close>) takes the events off the queue, reads the addresses that
  the processor sampled, and keeps a table of live blocks and types (\<open>src/src/tachanka.c\<close>) whose
  types are ranked by hotness (\<open>src/src/ranking.cpp\<close>).  The table uses a radix tree
  (\<open>src/src/critnib.c\<close>), the ranking a weighted AVL tree (\<open>src/src/wre_avl_tree.c\<close>); all
  nodes come from a slab allocator (\<open>src/src/slab_allocator.c\<close>) over a demand-mapped array
  (\<open>src/src/bigary.c\<close>).  Below, kinds are registered in \<open>src/src/memkind.c\<close>, own arenas
  (\<open>src/src/memkind_arena.c\<close>) and obtain address space through extent hooks
  (\<open>src/src/memkind_default.c\<close>, \<open>src/src/memkind_pmem.c\<close>, \<open>src/src/memkind_gbtlb.c\<close>).
\<close>

section \<open>Conventions\<close>

text \<open>
  A machine word is \<^typ>\<open>64 word\<close> or \<^typ>\<open>32 word\<close>, with the wrap-around of the code.  A pointer is an
  optional address, \<open>NULL\<close> is \<^term>\<open>None\<close>.  The memory a component owns is a map from addresses to
  records.  An operation returns \<^term>\<open>None\<close> if the code aborts, runs into undefined
  behaviour (a bad pointer, a conversion that does not fit) or does not return, so a theorem that gives \<open>Some\<close> also says that the call returns.  What the
  kernel, jemalloc, the clock, libnuma and the C library's allocator answer is an argument.  Doubles of the
  ranking are exact real numbers with a case for not-a-number, and their rounding is not modelled: a
  ratio within rounding distance of a boundary between entries can take another branch in the program.
  Floats of the tiered memory are binary32 numbers with rounding.
  The configuration is the one of \<open>src/include/memkind/internal/memkind_memtier.h\<close>: ranking on
  aggregated hotness, offloaded events, interpolated thresholds, no mutex in the queue.
\<close>

section \<open>Theories\<close>

text \<open>
  \<^item> \<open>Prelude\<close>: words, pointers, the collection of laws for option computations, lists.
  \<^item> \<open>Bigary\<close> (\<open>bigary.c\<close>): growth of the array by whole chunks inside the reservation; what was
    mapped stays mapped.
  \<^item> \<open>Slab_Allocator\<close> (\<open>slab_allocator.c\<close>): elements are fresh, distinct and inside the array;
    a freed element is the next to be returned.  Locale \<open>allocator\<close> is its contract.
  \<^item> \<open>Wre_Avl_Tree\<close> (\<open>wre_avl_tree.c\<close>) is the pointer program, \<open>Avl_Zipper\<close> and \<open>Avl_Order\<close> the
    trees and paths it stands for.  \<open>Wre_Avl_Refine\<close> relates the two; \<open>Wre_Avl_Correct\<close> shows that
    put, remove and find keep a balanced, sorted tree with right cached weights and heights;
    \<open>Wre_Avl_Weighted\<close> treats the search by weight.  Loops over the tree are
    \<open>partial_function (option)\<close> and proved to return.
  \<^item> \<open>Weighted_Store\<close> is the contract between the tree and the ranking, with the locales \<open>weak_order\<close>
    and \<open>weighted_store\<close>.  \<open>Ranking\<close>, \<open>Ranking_Controller\<close> and \<open>Ranking_Correct\<close>
    (\<open>ranking.cpp\<close>, \<open>ranking_controller.c\<close>) show that the ranking is a table of sizes by hotness,
    what a touch does to it and where the threshold falls; \<open>Ranking_Interface\<close> is what its users rely on.
  \<^item> \<open>Lockless_Queue\<close> (\<open>lockless_srmw_queue.c\<close>) is the queue run by one thread, a bounded first-in
    first-out buffer (locale \<open>bounded_fifo\<close>); \<open>Lockless_Queue_Threads\<close> is the step relation of any number of
    writers and one reader with an order of events and no loss; \<open>Ranking_Queue\<close> is the instance for events.
  \<^item> \<open>Critnib_Bits\<close>, \<open>Critnib\<close>, \<open>Critnib_Tree\<close>, \<open>Critnib_Search\<close>, \<open>Critnib_Correct\<close> and
    \<open>Critnib_Api\<close> (\<open>critnib.c\<close>): a finite map from keys to pointers with ordered lookups, and the grace
    period of removed nodes.  Locale \<open>pointer_map\<close> is its contract.
  \<^item> \<open>Heatmap\<close> (\<open>heatmap.cpp\<close>): the printed line can be read back.
  \<^item> \<open>Tachanka\<close> (\<open>tachanka.c\<close>) with the specification \<open>Tachanka_Spec\<close>, the simulation
    \<open>Tachanka_Correct\<close> and the set-up and queries \<open>Tachanka_Api\<close>.
  \<^item> \<open>Pebs\<close> and \<open>Pebs_Correct\<close> (\<open>pebs.c\<close>): the background thread implements the specification
    event by event and leaves every cycle.
  \<^item> \<open>Float32\<close>: the arithmetic of \<open>float\<close> and the bounds of its rounding errors.
  \<^item> \<open>Memtier\<close>, \<open>Memtier_Builder\<close>, \<open>Memtier_Ctl\<close>, \<open>Memtier_Policy\<close>, \<open>Memtier_Sizes\<close>, \<open>Memtier_Correct\<close> and
    \<open>Memtier_Api\<close> (\<open>memkind_memtier.c\<close>): builders, policies, allocation calls, and that the reported sizes are those of
    the live blocks.  \<open>Memtier_Pipeline\<close> joins the allocating thread with the background thread.
  \<^item> \<open>Memkind_Extents\<close>, \<open>Memkind_Extents_Correct\<close> (\<open>memkind_arena.c\<close>, \<open>memkind_default.c\<close>, \<open>memkind_pmem.c\<close>,
    \<open>memkind_gbtlb.c\<close>): address space from the kernel, and that extents do not overlap, also when the
    kernel refuses to unmap.
  \<^item> \<open>Memkind_Arena\<close> (\<open>memkind_arena.c\<close>): which kind owns which arena.
  \<^item> \<open>Kind_Registry\<close>, \<open>Kind_Registry_Correct\<close> (\<open>memkind.c\<close>): registration and lookup of kinds.
  \<^item> \<open>Tiering_Ctl\<close>, \<open>Tiering_Ctl_Correct\<close> (\<open>tiering/ctl.c\<close>): a printed configuration is read back.
  \<^item> \<open>Tiering_Interposer\<close> (\<open>tiering/memtier.c\<close>): the calls of a process from start to end.
  \<^item> \<open>Bthash\<close> (\<open>bthash.c\<close>): the table of executable regions with three searches that agree, and the hash that
    names the type of an allocation.
\<close>

section \<open>Bounds and fuel\<close>

text \<open>
  No operation carries a fuel argument.  Loops that are not structural either have a termination
  proof (the parsers, by the length of the rest of the string) or are \<open>partial_function (option)\<close>, and the
  theorems give their result as \<open>Some\<close>.  Capacities are those of the code: \<open>room\<close>
  predicates say that the slab of a tree still has an element, and theorems about counters
  name the bound below which a word does not wrap around.
\<close>

section \<open>Not modelled\<close>

text \<open>
  \<^item> jemalloc, libnuma, hwloc, the kernel and the C library: their answers are parameters.
  \<^item> The static kinds other than the default one (\<open>memkind_hbw.c\<close>, \<open>memkind_hugetlb.c\<close>, \<open>memkind_dax_kmem.c\<close>,
    \<open>memkind_local.c\<close>, \<open>memkind_capacity.c\<close>, \<open>memkind_interleave.c\<close>, \<open>memkind_regular.c\<close>, \<open>memkind_bitmask.c\<close>,
    \<open>memkind_mem_attributes.c\<close>) and the high-bandwidth interface over them
    (\<open>hbwmalloc.c\<close>, \<open>autohbw\<close>): they choose nodes from the topology of the machine.  The tiered memory
    only meets the kind for DAX nodes, as a parameter.
  \<^item> \<open>heap_manager.c\<close> and \<open>tbb_wrapper.c\<close>: tables of functions that forward to the arenas or to a
    library loaded at run time.
  \<^item> Statistics, defragmentation, thread caches and background threads of the arenas.
  \<^item> \<open>pebs_init\<close>, \<open>pebs_fini\<close> and \<open>pebs_fork\<close>: calls of the kernel and of libpfm.
  \<^item> Logging, printing, the node tools, tests and examples.
\<close>

end
